(* ===== verification/Prelude.thy ===== *)
theory Prelude
  imports Main "HOL-Library.AList" "HOL-Library.List_Lexorder" "HOL-Library.Char_ord"
    "HOL-Library.Multiset" "HOL-Library.Word"
begin

text \<open>
  Shared vocabulary of the development: Go's strings and maps, two's complement integers, SQL
  tables as lists of rows, and the collections of rewrite rules the component theories use.

  \<^item> A Go \<open>map[string]V\<close> is an association list with distinct keys (\<open>gomap\<close>). The order of the
    list is the order in which one \<open>range\<close> statement happened to visit the map: Go leaves it open,
    so every fact proved for all lists holds for every iteration order.
  \<^item> A Go \<open>int\<close>/\<open>int64\<close> is an \<open>int\<close> on which every arithmetic result is reduced by \<open>i64\<close>.
  \<^item> A SQL table is a list of rows; \<open>update_where\<close>, \<open>delete_where\<close> and \<open>find_row\<close> are
    \<open>UPDATE .. WHERE\<close>, \<open>DELETE .. WHERE\<close> and a single-row \<open>SELECT .. WHERE\<close>.
\<close>

named_theorems table_simps \<open>rewrite rules for tables and rows\<close>
named_theorems go_simps \<open>rewrite rules for Go strings, maps and integers\<close>

type_synonym uuid = string
type_synonym time = int
type_synonym 'v gomap = "(string \<times> 'v) list"

section \<open>Two's complement 64-bit integers\<close>

definition i64 :: "int \<Rightarrow> int" where
  "i64 x = signed_take_bit 63 x"

definition in_i64 :: "int \<Rightarrow> bool" where
  "in_i64 x \<longleftrightarrow> - (2 ^ 63) \<le> x \<and> x < 2 ^ 63"

lemma i64_id [go_simps]: "in_i64 x \<Longrightarrow> i64 x = x"
  by (simp add: i64_def in_i64_def signed_take_bit_int_eq_self)

lemma i64_id_iff: "i64 x = x \<longleftrightarrow> in_i64 x"
  by (simp add: i64_def in_i64_def signed_take_bit_int_eq_self_iff)

lemma in_i64_i64 [simp]: "in_i64 (i64 x)"
  using signed_take_bit_int_less_exp [of 63 x] signed_take_bit_int_greater_eq_minus_exp [of 63 x]
  by (simp add: i64_def in_i64_def)

lemma i64_add_i64 [simp]: "i64 (i64 a + i64 b) = i64 (a + b)"
  by (simp add: i64_def signed_take_bit_add)

lemma i64_add_left [simp]: "i64 (i64 a + b) = i64 (a + b)"
  using i64_add_i64 [of a b] i64_add_i64 [of "i64 a" b]
  by (simp add: i64_def)

lemma i64_add_right [simp]: "i64 (a + i64 b) = i64 (a + b)"
  using i64_add_left [of b a] by (simp add: add.commute)

lemma i64_cong: "a mod 2 ^ 64 = b mod 2 ^ 64 \<Longrightarrow> i64 a = i64 b"
  unfolding i64_def signed_take_bit_eq_iff_take_bit_eq by (simp add: take_bit_eq_mod)

lemma i64_wrap: "in_i64 (x - 2 ^ 64) \<Longrightarrow> i64 x = x - 2 ^ 64"
  using i64_cong [of x "x - 2 ^ 64"] i64_id [of "x - 2 ^ 64"] by (simp add: mod_diff_eq)

lemma i64_sint: "i64 x = sint (word_of_int x :: 64 word)"
  by (simp add: i64_def signed_of_int)

section \<open>Decimal rendering of integers\<close>

fun digit_char :: "nat \<Rightarrow> char" where
  "digit_char n = char_of (48 + n)"

fun show_nat :: "nat \<Rightarrow> string" where
  "show_nat n = (if n < 10 then [digit_char n] else show_nat (n div 10) @ [digit_char (n mod 10)])"

declare show_nat.simps [simp del]

definition show_int :: "int \<Rightarrow> string" where
  "show_int k = (if k < 0 then CHR ''-'' # show_nat (nat (- k)) else show_nat (nat k))"

section \<open>Go strings\<close>

definition has_prefix :: "string \<Rightarrow> string \<Rightarrow> bool" where
  "has_prefix s p \<longleftrightarrow> take (length p) s = p"

definition has_suffix :: "string \<Rightarrow> string \<Rightarrow> bool" where
  "has_suffix s p \<longleftrightarrow> length p \<le> length s \<and> drop (length s - length p) s = p"

definition trim_prefix :: "string \<Rightarrow> string \<Rightarrow> string" where
  "trim_prefix s p = (if has_prefix s p then drop (length p) s else s)"

definition trim_suffix :: "string \<Rightarrow> string \<Rightarrow> string" where
  "trim_suffix s p = (if has_suffix s p then take (length s - length p) s else s)"

fun str_join :: "string \<Rightarrow> string list \<Rightarrow> string" where
  "str_join sep [] = []"
| "str_join sep [x] = x"
| "str_join sep (x # y # xs) = x @ sep @ str_join sep (y # xs)"

definition hex_digit :: "nat \<Rightarrow> char" where
  "hex_digit n = (if n < 10 then char_of (48 + n) else char_of (87 + n))"

text \<open>
  \<open>%q\<close> of \<open>fmt\<close>, byte by byte. Bytes of 128 and above are passed through, which is what
  \<open>strconv.Quote\<close> does for printable UTF-8 sequences.
\<close>

definition quote_char :: "char \<Rightarrow> string" where
  "quote_char c =
     (let n = (of_char c :: nat) in
      if n = 34 then [char_of (92::nat), c]
      else if n = 92 then [c, c]
      else if n = 7 then [char_of (92::nat), CHR ''a'']
      else if n = 8 then [char_of (92::nat), CHR ''b'']
      else if n = 9 then [char_of (92::nat), CHR ''t'']
      else if n = 10 then [char_of (92::nat), CHR ''n'']
      else if n = 11 then [char_of (92::nat), CHR ''v'']
      else if n = 12 then [char_of (92::nat), CHR ''f'']
      else if n = 13 then [char_of (92::nat), CHR ''r'']
      else if n < 32 \<or> n = 127
        then [char_of (92::nat), CHR ''x'', hex_digit (n div 16), hex_digit (n mod 16)]
      else [c])"

definition quote :: "string \<Rightarrow> string" where
  "quote s = char_of (34::nat) # concat (map quote_char s) @ [char_of (34::nat)]"

lemma has_prefix_append [simp]: "has_prefix (p @ s) p"
  by (simp add: has_prefix_def)

lemma has_prefixE:
  assumes "has_prefix s p"
  obtains r where "s = p @ r"
  using assms by (metis has_prefix_def append_take_drop_id)

lemma has_suffixE:
  assumes "has_suffix s p"
  obtains r where "s = r @ p"
  using assms by (metis has_suffix_def append_take_drop_id)

lemma has_suffix_append [simp]: "has_suffix (s @ p) p"
  by (simp add: has_suffix_def)

section \<open>Go maps\<close>

definition keys :: "'v gomap \<Rightarrow> string list" where
  "keys m = map fst m"

definition gomap_wf :: "'v gomap \<Rightarrow> bool" where
  "gomap_wf m \<longleftrightarrow> distinct (map fst m)"

abbreviation put :: "string \<Rightarrow> 'v \<Rightarrow> 'v gomap \<Rightarrow> 'v gomap" where
  "put \<equiv> AList.update"

abbreviation remove_key :: "string \<Rightarrow> 'v gomap \<Rightarrow> 'v gomap" where
  "remove_key \<equiv> AList.delete"

text \<open>\<open>maps.Copy (dst, src)\<close>.\<close>

definition copy_into :: "'v gomap \<Rightarrow> 'v gomap \<Rightarrow> 'v gomap" where
  "copy_into dst src = fold (\<lambda>(k, v) m. put k v m) src dst"

definition sorted_keys :: "'v gomap \<Rightarrow> string list" where
  "sorted_keys m = sort (keys m)"

lemma set_keys [simp]: "set (keys m) = dom (map_of m)"
  by (simp add: keys_def dom_map_of_conv_image_fst)

lemma map_of_put [simp]: "map_of (put k v m) = (map_of m)(k \<mapsto> v)"
  by (simp add: AList.update_conv')

lemma map_of_remove_key [simp]: "map_of (remove_key k m) = (map_of m)(k := None)"
  by (rule AList.delete_conv')

lemma gomap_wf_put [simp]: "gomap_wf m \<Longrightarrow> gomap_wf (put k v m)"
  by (simp add: gomap_wf_def AList.distinct_update)

lemma gomap_wf_remove_key [simp]: "gomap_wf m \<Longrightarrow> gomap_wf (remove_key k m)"
  by (simp add: gomap_wf_def AList.distinct_delete)

lemma gomap_wf_Nil [simp]: "gomap_wf []"
  by (simp add: gomap_wf_def)

lemma copy_into_Nil [simp]: "copy_into m [] = m"
  by (simp add: copy_into_def)

lemma copy_into_Cons [simp]: "copy_into m ((k, v) # src) = copy_into (put k v m) src"
  by (simp add: copy_into_def)

lemma gomap_wf_copy_into [simp]: "gomap_wf m \<Longrightarrow> gomap_wf (copy_into m src)"
  by (induction src arbitrary: m) auto

lemma map_of_copy_into:
  "gomap_wf src \<Longrightarrow> map_of (copy_into m src) = map_of m ++ map_of src"
proof (induction src arbitrary: m)
  case (Cons kv src)
  obtain k v where kv: "kv = (k, v)" by (cases kv)
  from Cons.prems kv have "map_of src k = None"
    by (simp add: gomap_wf_def map_of_eq_None_iff)
  then have "(map_of m)(k \<mapsto> v) ++ map_of src = map_of m ++ map_of (kv # src)"
    using kv by (auto simp: map_add_def fun_eq_iff split: option.splits)
  moreover from Cons kv have "map_of (copy_into m (kv # src)) = (map_of m)(k \<mapsto> v) ++ map_of src"
    by (simp add: gomap_wf_def)
  ultimately show ?case by (simp only:)
qed simp

lemma mset_eq_map_of:
  "gomap_wf m \<Longrightarrow> mset m = mset m' \<Longrightarrow> map_of m = map_of m'"
proof -
  assume wf: "gomap_wf m" and eq: "mset m = mset m'"
  from eq have "set m = set m'" by (rule mset_eq_setD)
  moreover from eq have "mset (map fst m) = mset (map fst m')" by simp
  with wf have "distinct (map fst m')"
    by (metis gomap_wf_def mset_eq_imp_distinct_iff)
  ultimately show ?thesis
    using wf by (simp add: gomap_wf_def map_of_inject_set)
qed

lemma sorted_keys_mset: "mset m = mset m' \<Longrightarrow> sorted_keys m = sorted_keys m'"
  unfolding sorted_keys_def keys_def
  by (metis mset_map properties_for_sort mset_sort sorted_sort)

lemma set_sorted_keys [simp]: "set (sorted_keys m) = dom (map_of m)"
  by (simp add: sorted_keys_def)

lemma distinct_sorted_keys [simp]: "distinct (sorted_keys m) \<longleftrightarrow> gomap_wf m"
  by (simp add: sorted_keys_def keys_def gomap_wf_def)

lemma sorted_sorted_keys [simp]: "sorted (sorted_keys m)"
  by (simp add: sorted_keys_def)

section \<open>Tables\<close>

definition find_row :: "('r \<Rightarrow> bool) \<Rightarrow> 'r list \<Rightarrow> 'r option" where
  "find_row P t = List.find P t"

definition update_where :: "('r \<Rightarrow> bool) \<Rightarrow> ('r \<Rightarrow> 'r) \<Rightarrow> 'r list \<Rightarrow> 'r list" where
  "update_where P f t = map (\<lambda>r. if P r then f r else r) t"

definition delete_where :: "('r \<Rightarrow> bool) \<Rightarrow> 'r list \<Rightarrow> 'r list" where
  "delete_where P t = filter (\<lambda>r. \<not> P r) t"

definition unique_on :: "('r \<Rightarrow> bool) \<Rightarrow> ('r \<Rightarrow> 'k) \<Rightarrow> 'r list \<Rightarrow> bool" where
  "unique_on P key t \<longleftrightarrow> distinct (map key (filter P t))"

text \<open>\<open>unique_on P key\<close> is a (partial) unique index: \<open>P\<close> is its \<open>WHERE\<close>, \<open>key\<close> its columns.\<close>

text \<open>\<open>COALESCE (MAX (column), 0)\<close>.\<close>

definition max_or_0 :: "int list \<Rightarrow> int" where
  "max_or_0 xs = (if xs = [] then 0 else Max (set xs))"

lemma max_or_0_less: "x \<in> set xs \<Longrightarrow> x < max_or_0 xs + 1"
proof -
  assume x: "x \<in> set xs"
  then have "xs \<noteq> []" by auto
  with x show ?thesis by (simp add: max_or_0_def less_add_one add_strict_increasing2 Max_ge le_imp_less_or_eq zless_add1_eq)
qed

lemma find_row_SomeD: "find_row P t = Some r \<Longrightarrow> r \<in> set t \<and> P r"
  by (auto simp: find_row_def find_Some_iff)

lemma find_row_None_iff: "find_row P t = None \<longleftrightarrow> (\<forall>r \<in> set t. \<not> P r)"
  by (auto simp: find_row_def find_None_iff)

lemma unique_on_update_where:
  assumes "unique_on Q key t" and "\<And>r. P r \<Longrightarrow> key (f r) = key r" and "\<And>r. P r \<Longrightarrow> Q (f r) \<Longrightarrow> Q r"
  shows "unique_on Q key (update_where P f t)"
proof -
  have "distinct (map key (filter Q (update_where P f t)))"
    using assms(1) unfolding unique_on_def
  proof (induction t)
    case (Cons r t)
    have sub: "set (map key (filter Q (update_where P f t))) \<subseteq> set (map key (filter Q t))"
      using assms(2,3) by (auto simp: update_where_def)
    from Cons have IH: "distinct (map key (filter Q (update_where P f t)))" by (auto split: if_splits)
    show ?case
      using Cons.prems IH sub assms(2,3) by (auto simp: update_where_def split: if_splits)
  qed (simp add: update_where_def)
  then show ?thesis by (simp add: unique_on_def)
qed

lemma in_update_where:
  "r \<in> set (update_where P f t) \<longleftrightarrow> (\<exists>r0 \<in> set t. r = (if P r0 then f r0 else r0))"
  by (auto simp: update_where_def)

lemma bex_update_where:
  "(\<exists>r \<in> set (update_where P f t). Q r) \<longleftrightarrow> (\<exists>r \<in> set t. Q (if P r then f r else r))"
  by (auto simp: update_where_def)

lemma ball_update_where:
  "(\<forall>r \<in> set (update_where P f t). Q r) \<longleftrightarrow> (\<forall>r \<in> set t. Q (if P r then f r else r))"
  by (auto simp: update_where_def)

lemma in_delete_where [simp]: "r \<in> set (delete_where P t) \<longleftrightarrow> r \<in> set t \<and> \<not> P r"
  by (simp add: delete_where_def)

lemma map_update_where:
  "(\<And>r. P r \<Longrightarrow> g (f r) = g r) \<Longrightarrow> map g (update_where P f t) = map g t"
  by (auto simp: update_where_def)

lemma length_update_where [simp]: "length (update_where P f t) = length t"
  by (simp add: update_where_def)

lemma unique_on_append:
  "unique_on P key (t @ [r]) \<longleftrightarrow>
     unique_on P key t \<and> (P r \<longrightarrow> (\<forall>r0 \<in> set t. P r0 \<longrightarrow> key r0 \<noteq> key r))"
  unfolding unique_on_def by (cases "P r") (auto simp: image_iff)

lemma unique_on_delete_where:
  assumes "unique_on P key t"
  shows "unique_on P key (delete_where Q t)"
proof -
  have "filter P (delete_where Q t) = filter (\<lambda>r. \<not> Q r) (filter P t)"
    by (auto simp: delete_where_def intro!: filter_cong)
  with assms show ?thesis
    by (simp only: unique_on_def distinct_map_filter)
qed

lemma distinct_delete_where: "distinct (map f t) \<Longrightarrow> distinct (map f (delete_where P t))"
  by (simp add: delete_where_def distinct_map_filter)

lemma unique_onD:
  assumes "unique_on P key t" "r \<in> set t" "r' \<in> set t" "P r" "P r'" "key r = key r'"
  shows "r = r'"
  using assms by (auto simp: unique_on_def distinct_map inj_on_def)

lemma unique_on_mono:
  assumes "unique_on P key t" "\<And>r. r \<in> set t \<Longrightarrow> Q r \<Longrightarrow> P r"
  shows "unique_on Q key t"
proof -
  have "filter Q t = filter Q (filter P t)"
    using assms(2) by (auto intro!: filter_cong)
  with assms(1) show ?thesis
    by (simp only: unique_on_def distinct_map_filter)
qed

lemma find_row_key:
  assumes "distinct (map key t)"
  shows "find_row (\<lambda>r. key r = k) t = Some r \<longleftrightarrow> r \<in> set t \<and> key r = k"
proof
  assume "find_row (\<lambda>r. key r = k) t = Some r"
  then show "r \<in> set t \<and> key r = k" by (auto dest: find_row_SomeD)
next
  assume r: "r \<in> set t \<and> key r = k"
  then have "find_row (\<lambda>r. key r = k) t \<noteq> None"
    by (auto simp: find_row_None_iff)
  then obtain r' where r': "find_row (\<lambda>r. key r = k) t = Some r'" by blast
  with r assms have "r' = r"
    by (auto simp: distinct_map inj_on_def dest!: find_row_SomeD)
  with r' show "find_row (\<lambda>r. key r = k) t = Some r" by simp
qed

lemma find_row_append:
  "find_row P (t @ u) = (case find_row P t of Some r \<Rightarrow> Some r | None \<Rightarrow> find_row P u)"
  by (induction t) (auto simp: find_row_def)

lemma find_row_Nil [simp]: "find_row P [] = None"
  by (simp add: find_row_def)

lemma find_row_Cons: "find_row P (r # t) = (if P r then Some r else find_row P t)"
  by (simp add: find_row_def)

lemma in_map_filter: "y \<in> set (List.map_filter f xs) \<longleftrightarrow> (\<exists>x \<in> set xs. f x = Some y)"
proof (induction xs)
  case (Cons x xs)
  then show ?case by (cases "f x") (auto simp: List.map_filter_simps)
qed (simp add: List.map_filter_simps)

lemma find_row_map:
  "(\<And>r. key (h r) = key r) \<Longrightarrow>
     find_row (\<lambda>r. key r = k) (map h t) = map_option h (find_row (\<lambda>r. key r = k) t)"
  by (induction t) (auto simp: find_row_Cons)

section \<open>Updates that keep a key\<close>

text \<open>
  Most \<open>UPDATE\<close> statements leave a key column alone. What follows from that alone is proved once
  and used for every table.
\<close>

locale keyed_update =
  fixes key :: "'r \<Rightarrow> 'k" and f :: "'r \<Rightarrow> 'r"
  assumes key_f: "key (f r) = key r"
begin

lemma map_key: "map key (update_where P f t) = map key t"
  by (rule map_update_where) (rule key_f)

lemma lookup_update:
  "find_row (\<lambda>r. key r = k) (update_where P f t) =
     map_option (\<lambda>r. if P r then f r else r) (find_row (\<lambda>r. key r = k) t)"
  by (induction t) (auto simp: update_where_def find_row_Cons key_f)

lemma lookup_update_None:
  "find_row (\<lambda>r. key r = k) (update_where P f t) = None \<longleftrightarrow> find_row (\<lambda>r. key r = k) t = None"
  by (simp add: lookup_update)

end

end
