(* ===== verification/Secret_Template.thy ===== *)
theory Secret_Template
  imports Prelude
begin

text \<open>
  Secret references \<open>${secret:KEY}\<close> inside environment values: the pattern
  \<open>spec.SecretRefPattern\<close> (\<open>internal/spec/spec.go\<close>) with the three uses the program makes of it
  (does it match, all matches, replace all matches), and \<open>Driver.resolveEnv\<close> of
  \<open>internal/agent/dockerd/driver.go\<close>, which expands the templates at container start.

  \<open>scan\<close> is the leftmost, non-overlapping reading of a string that Go's \<open>regexp\<close> makes for this
  pattern: a key is a maximal run of key characters and \<open>}\<close> is not one, so a position matches in at
  most one way.
\<close>

section \<open>The pattern\<close>

definition secret_key_char :: "char \<Rightarrow> bool" where
  "secret_key_char c =
     (let n = (of_char c :: nat) in
      (65 \<le> n \<and> n \<le> 90) \<or> (97 \<le> n \<and> n \<le> 122) \<or> (48 \<le> n \<and> n \<le> 57) \<or>
      c = CHR ''_'' \<or> c = CHR ''.'' \<or> c = CHR ''-'')"

definition secret_open :: string where
  "secret_open = ''${secret:''"

definition match_secret_ref :: "string \<Rightarrow> (string \<times> string) option" where
  "match_secret_ref s =
     (if has_prefix s secret_open then
        let r = drop (length secret_open) s;
            k = takeWhile secret_key_char r;
            t = dropWhile secret_key_char r
        in (case t of
              c # rest \<Rightarrow> if k \<noteq> [] \<and> c = CHR ''}'' then Some (k, rest) else None
            | [] \<Rightarrow> None)
      else None)"

datatype token = Lit char | Ref string

lemma match_secret_ref_Some:
  assumes "match_secret_ref s = Some (k, rest)"
  shows "s = secret_open @ k @ CHR ''}'' # rest"
    and "k \<noteq> []" and "\<forall>c \<in> set k. secret_key_char c"
proof -
  from assms have p: "has_prefix s secret_open"
    by (auto simp: match_secret_ref_def split: if_splits)
  then obtain r where s: "s = secret_open @ r" by (rule has_prefixE)
  from assms p have k: "k = takeWhile secret_key_char r" "k \<noteq> []"
    and t: "dropWhile secret_key_char r = CHR ''}'' # rest"
    by (auto simp: match_secret_ref_def s Let_def split: list.splits if_splits)
  from k t have "r = k @ CHR ''}'' # rest"
    by (metis takeWhile_dropWhile_id)
  with s show "s = secret_open @ k @ CHR ''}'' # rest" by simp
  show "k \<noteq> []" by (rule k(2))
  show "\<forall>c \<in> set k. secret_key_char c"
    using k(1) by (auto dest: set_takeWhileD)
qed

lemma match_secret_ref_intro:
  assumes "k \<noteq> []" and "\<forall>c \<in> set k. secret_key_char c"
  shows "match_secret_ref (secret_open @ k @ CHR ''}'' # rest) = Some (k, rest)"
proof -
  have "\<not> secret_key_char (CHR ''}'')" by (simp add: secret_key_char_def)
  then have "takeWhile secret_key_char (k @ CHR ''}'' # rest) = k"
    and "dropWhile secret_key_char (k @ CHR ''}'' # rest) = CHR ''}'' # rest"
    using assms(2) by (simp_all add: takeWhile_append2 dropWhile_append2)
  then show ?thesis
    using assms(1) by (simp add: match_secret_ref_def)
qed

lemma match_secret_ref_shorter:
  "match_secret_ref s = Some (k, rest) \<Longrightarrow> length rest < length s"
  using match_secret_ref_Some(1) [of s k rest] by simp

function scan :: "string \<Rightarrow> token list" where
  "scan [] = []"
| "scan (c # s) =
     (case match_secret_ref (c # s) of
        Some (k, rest) \<Rightarrow> Ref k # scan rest
      | None \<Rightarrow> Lit c # scan s)"
  by pat_completeness auto
termination
  by (relation "measure length") (auto dest: match_secret_ref_shorter)

fun render :: "token \<Rightarrow> string" where
  "render (Lit c) = [c]"
| "render (Ref k) = secret_open @ k @ ''}''"

fun ref_key :: "token \<Rightarrow> string option" where
  "ref_key (Lit c) = None"
| "ref_key (Ref k) = Some k"

definition find_secret_refs :: "string \<Rightarrow> string list" where
  "find_secret_refs s = List.map_filter ref_key (scan s)"

definition has_secret_ref :: "string \<Rightarrow> bool" where
  "has_secret_ref s \<longleftrightarrow> find_secret_refs s \<noteq> []"

definition replace_secret_refs :: "(string \<Rightarrow> string) \<Rightarrow> string \<Rightarrow> string" where
  "replace_secret_refs f s =
     concat (map (\<lambda>t. case t of Lit c \<Rightarrow> [c] | Ref k \<Rightarrow> f k) (scan s))"

section \<open>Expansion at container start\<close>

text \<open>A \<open>SecretSource\<close> is an interface value and may be nil.\<close>

type_synonym secret_source = "(string \<Rightarrow> string option) option"

definition secret_get :: "secret_source \<Rightarrow> string \<Rightarrow> string option" where
  "secret_get src k = (case src of None \<Rightarrow> None | Some g \<Rightarrow> g k)"

definition missing_refs :: "secret_source \<Rightarrow> string \<Rightarrow> string list" where
  "missing_refs src tmpl = filter (\<lambda>k. secret_get src k = None) (find_secret_refs tmpl)"

definition subst_secret :: "secret_source \<Rightarrow> string \<Rightarrow> string" where
  "subst_secret src k =
     (case secret_get src k of Some v \<Rightarrow> v | None \<Rightarrow> secret_open @ k @ ''}'')"

text \<open>
  The loop of \<open>resolveEnv\<close> over the secret templates. \<open>missing\<close> is overwritten by every reference
  that has no value, so the error names the last one of the template.
\<close>

fun resolve_secret_env ::
  "secret_source \<Rightarrow> string gomap \<Rightarrow> string gomap \<Rightarrow> (string \<times> string) + string gomap" where
  "resolve_secret_env src [] out = Inr out"
| "resolve_secret_env src ((k, tmpl) # rest) out =
     (let missing = missing_refs src tmpl in
      if missing \<noteq> [] then Inl (last missing, k)
      else resolve_secret_env src rest (put k (replace_secret_refs (subst_secret src) tmpl) out))"

definition resolveEnv ::
  "string gomap \<Rightarrow> string gomap \<Rightarrow> secret_source \<Rightarrow> (string \<times> string) + string gomap" where
  "resolveEnv env secretEnv src = resolve_secret_env src secretEnv (copy_into [] env)"

section \<open>What the scanner promises\<close>

lemma render_scan: "concat (map render (scan s)) = s"
proof (induction s rule: scan.induct)
  case (2 c s)
  show ?case
  proof (cases "match_secret_ref (c # s)")
    case None
    with 2 show ?thesis by simp
  next
    case (Some kr)
    then obtain k rest where kr: "match_secret_ref (c # s) = Some (k, rest)"
      by (cases kr) auto
    with 2(2) have "concat (map render (scan rest)) = rest" by simp
    with kr have "concat (map render (scan (c # s))) = secret_open @ k @ CHR ''}'' # rest"
      by simp
    with match_secret_ref_Some(1) [OF kr] show ?thesis by (simp only:)
  qed
qed simp

lemma scan_Ref_key:
  "Ref k \<in> set (scan s) \<Longrightarrow> k \<noteq> [] \<and> (\<forall>c \<in> set k. secret_key_char c)"
proof (induction s rule: scan.induct)
  case (2 c s)
  then show ?case
    by (cases "match_secret_ref (c # s)") (auto dest: match_secret_ref_Some)
qed simp

lemma set_find_secret_refs: "set (find_secret_refs s) = {k. Ref k \<in> set (scan s)}"
proof -
  have "x \<in> set (List.map_filter ref_key ts) \<longleftrightarrow> Ref x \<in> set ts" for x ts
  proof (induction ts)
    case (Cons t ts)
    then show ?case by (cases t) (auto simp: List.map_filter_simps)
  qed (simp add: List.map_filter_simps)
  then show ?thesis by (auto simp: find_secret_refs_def)
qed

lemma no_refs_all_Lit:
  "\<not> has_secret_ref s \<Longrightarrow> \<exists>cs. scan s = map Lit cs"
proof -
  assume "\<not> has_secret_ref s"
  then have no: "\<forall>k. Ref k \<notin> set (scan s)"
    using set_find_secret_refs [of s] by (auto simp: has_secret_ref_def)
  have "\<forall>k. Ref k \<notin> set ts \<Longrightarrow> \<exists>cs. ts = map Lit cs" for ts
  proof (induction ts)
    case (Cons t ts)
    then obtain cs where "ts = map Lit cs" by auto
    moreover from Cons.prems obtain c where "t = Lit c" by (cases t) auto
    ultimately have "t # ts = map Lit (c # cs)" by simp
    then show ?case ..
  qed simp
  with no show ?thesis by blast
qed

lemma replace_no_refs: "\<not> has_secret_ref s \<Longrightarrow> replace_secret_refs f s = s"
proof -
  assume "\<not> has_secret_ref s"
  then obtain cs where cs: "scan s = map Lit cs" using no_refs_all_Lit by blast
  then have "replace_secret_refs f s = cs"
    by (simp add: replace_secret_refs_def comp_def concat_map_singleton)
  moreover from cs render_scan [of s] have "s = cs"
    by (simp add: comp_def concat_map_singleton)
  ultimately show ?thesis by simp
qed

lemma missing_refs_empty_iff:
  "missing_refs src tmpl = [] \<longleftrightarrow> (\<forall>k \<in> set (find_secret_refs tmpl). secret_get src k \<noteq> None)"
  by (auto simp: missing_refs_def filter_empty_conv)

lemma resolve_secret_env_ok_iff:
  "(\<exists>out'. resolve_secret_env src m out = Inr out') \<longleftrightarrow>
     (\<forall>(k, tmpl) \<in> set m. missing_refs src tmpl = [])"
  by (induction src m out rule: resolve_secret_env.induct) (auto simp: Let_def)

lemma resolve_secret_env_lookup:
  assumes "resolve_secret_env src m out = Inr out'" and "gomap_wf m"
  shows "map_of out' =
    map_of out ++ (\<lambda>k. map_option (replace_secret_refs (subst_secret src)) (map_of m k))"
  using assms
proof (induction src m out rule: resolve_secret_env.induct)
  case (2 src k tmpl rest out)
  from 2(2) have ok: "missing_refs src tmpl = []"
    by (auto simp: Let_def split: if_splits)
  from 2(3) have wf: "gomap_wf rest" and k: "map_of rest k = None"
    by (auto simp: gomap_wf_def map_of_eq_None_iff)
  from 2(1) [OF refl _ _ wf] 2(2) ok
  have "map_of out' = (map_of out)(k \<mapsto> replace_secret_refs (subst_secret src) tmpl)
      ++ (\<lambda>k. map_option (replace_secret_refs (subst_secret src)) (map_of rest k))"
    by (simp add: Let_def fun_upd_def)
  with k show ?case
    by (auto simp: map_add_def fun_eq_iff split: option.splits)
qed (simp add: map_add_def)

lemma resolve_secret_env_error:
  assumes "resolve_secret_env src m out = Inl (k, v)"
  shows "\<exists>tmpl. (v, tmpl) \<in> set m \<and> k \<in> set (find_secret_refs tmpl) \<and> secret_get src k = None"
  using assms
proof (induction src m out rule: resolve_secret_env.induct)
  case (2 src k' tmpl rest out)
  show ?case
  proof (cases "missing_refs src tmpl = []")
    case True
    with 2 show ?thesis by (auto simp: Let_def)
  next
    case False
    with 2(2) have "k = last (missing_refs src tmpl)" "v = k'" by (auto simp: Let_def)
    with False have "k \<in> set (missing_refs src tmpl)" by simp
    with \<open>v = k'\<close> show ?thesis by (auto simp: missing_refs_def)
  qed
qed simp

end
