(* ===== verification/Deployment_Spec.thy ===== *)
theory Deployment_Spec
  imports Secret_Template
begin

text \<open>
  The normalized deployment specification of \<open>internal/spec/spec.go\<close>, the environment overlay
  \<open>applyEnvConfig\<close> of \<open>internal/api/overlay.go\<close>, and what storing a specification as JSON and
  comparing two of them with \<open>reflect.DeepEqual\<close> does to the only fields where Go distinguishes a
  nil map from an empty one (\<open>Env\<close> and \<open>SecretEnv\<close>, option-typed here).

  Slices are plain lists: the JSON round trip and \<open>applyEnvConfig\<close> turn every empty slice of a
  service into nil, so nil and empty slices are never compared with each other.
\<close>

section \<open>Data\<close>

record port =
  port_container :: int
  port_protocol :: string

datatype mount_kind = MountVolume | MountTmpfs

record mount =
  mnt_kind :: mount_kind
  mnt_source :: string
  mnt_target :: string
  mnt_read_only :: bool

record health_check =
  hc_test :: "string list"
  hc_interval_sec :: int
  hc_timeout_sec :: int
  hc_retries :: int
  hc_start_sec :: int

record resource_limit =
  cpu_millis :: int
  memory_bytes :: int

record volume =
  vol_name :: string
  vol_driver :: string
  vol_owner :: string

record ingress =
  ing_port :: int
  ing_path :: string

record service =
  svc_name :: string
  svc_image :: string
  svc_command :: "string list"
  svc_entrypoint :: "string list"
  svc_working_dir :: string
  svc_user :: string
  svc_env :: "string gomap option"
  svc_secret_env :: "string gomap option"
  svc_ports :: "port list"
  svc_mounts :: "mount list"
  svc_depends :: "string list"
  svc_health :: "health_check option"
  svc_limits :: resource_limit
  svc_restart :: string
  svc_swappable :: bool
  svc_ingress :: "ingress option"

record deployment_spec =
  spec_version :: int
  services :: "service gomap"
  volumes :: "volume gomap"
  networks :: "string list"

definition SpecVersion :: int where
  "SpecVersion = 1"

definition zero_service :: service where
  "zero_service = \<lparr>svc_name = [], svc_image = [], svc_command = [], svc_entrypoint = [],
     svc_working_dir = [], svc_user = [], svc_env = None, svc_secret_env = None, svc_ports = [],
     svc_mounts = [], svc_depends = [], svc_health = None,
     svc_limits = \<lparr>cpu_millis = 0, memory_bytes = 0\<rparr>, svc_restart = [],
     svc_swappable = False, svc_ingress = None\<rparr>"

text \<open>Reading a Go map of services at a missing key yields the zero value.\<close>

definition service_at :: "deployment_spec \<Rightarrow> string \<Rightarrow> service" where
  "service_at s n = (case map_of (services s) n of Some v \<Rightarrow> v | None \<Rightarrow> zero_service)"

definition entries :: "'v gomap option \<Rightarrow> 'v gomap" where
  "entries m = (case m of None \<Rightarrow> [] | Some xs \<Rightarrow> xs)"

section \<open>Operations of \<open>DeploymentSpec\<close>\<close>

definition ServiceNames :: "deployment_spec \<Rightarrow> string list" where
  "ServiceNames s = sorted_keys (services s)"

definition SwappableServices :: "deployment_spec \<Rightarrow> string list" where
  "SwappableServices s = filter (\<lambda>n. svc_swappable (service_at s n)) (ServiceNames s)"

definition PinnedServices :: "deployment_spec \<Rightarrow> string list" where
  "PinnedServices s = filter (\<lambda>n. \<not> svc_swappable (service_at s n)) (ServiceNames s)"

definition PeakMemoryBytes :: "deployment_spec \<Rightarrow> int" where
  "PeakMemoryBytes s =
     fold (\<lambda>(_, svc) total.
             if svc_swappable svc then i64 (total + i64 (memory_bytes (svc_limits svc) * 2))
             else i64 (total + memory_bytes (svc_limits svc)))
       (services s) 0"

definition PeakCPUMillis :: "deployment_spec \<Rightarrow> int" where
  "PeakCPUMillis s =
     fold (\<lambda>(_, svc) total.
             if svc_swappable svc then i64 (total + i64 (cpu_millis (svc_limits svc) * 2))
             else i64 (total + cpu_millis (svc_limits svc)))
       (services s) 0"

definition RequiredSecrets :: "deployment_spec \<Rightarrow> string list" where
  "RequiredSecrets s =
     sort (remdups (concat (map (\<lambda>(_, svc).
       concat (map (\<lambda>(_, tmpl). find_secret_refs tmpl) (entries (svc_secret_env svc))))
       (services s))))"

definition IngressService :: "deployment_spec \<Rightarrow> string option" where
  "IngressService s = List.find (\<lambda>n. svc_ingress (service_at s n) \<noteq> None) (ServiceNames s)"

text \<open>The three loops of \<open>DurableReasons\<close>; \<open>seen\<close> is the set of volume names already reported.\<close>

fun mount_reasons :: "string \<Rightarrow> mount list \<Rightarrow> string list \<Rightarrow> string list \<times> string list" where
  "mount_reasons name [] seen = ([], seen)"
| "mount_reasons name (m # ms) seen =
     (if mnt_kind m \<noteq> MountVolume \<or> mnt_source m = [] \<or> mnt_source m \<in> set seen
      then mount_reasons name ms seen
      else let (out, seen') = mount_reasons name ms (mnt_source m # seen)
           in ((''named volume '' @ quote (mnt_source m) @ '' mounted by '' @ quote name) # out, seen'))"

fun services_mount_reasons ::
  "deployment_spec \<Rightarrow> string list \<Rightarrow> string list \<Rightarrow> string list \<times> string list" where
  "services_mount_reasons s [] seen = ([], seen)"
| "services_mount_reasons s (n # ns) seen =
     (let (out, seen1) = mount_reasons n (svc_mounts (service_at s n)) seen;
          (outs, seen2) = services_mount_reasons s ns seen1
      in (out @ outs, seen2))"

definition DurableReasons :: "deployment_spec \<Rightarrow> string list" where
  "DurableReasons s =
     (let pinned = map (\<lambda>n. ''pinned service '' @ quote n) (PinnedServices s);
          (mounted, seen) = services_mount_reasons s (ServiceNames s) [];
          declared = map (\<lambda>v. ''named volume '' @ quote v)
                       (filter (\<lambda>v. v \<notin> set seen) (keys (volumes s)))
      in pinned @ mounted @ declared)"

section \<open>The environment overlay\<close>

definition overlay_env :: "service \<Rightarrow> string gomap \<Rightarrow> string gomap" where
  "overlay_env svc config =
     fold (\<lambda>(k, _) m. remove_key k m) (entries (svc_secret_env svc))
       (copy_into (copy_into [] config) (entries (svc_env svc)))"

definition applyEnvConfig :: "deployment_spec \<Rightarrow> string gomap \<Rightarrow> deployment_spec" where
  "applyEnvConfig base config =
     base\<lparr>services :=
       map (\<lambda>(n, svc). (n, svc\<lparr>svc_env := Some (overlay_env svc config)\<rparr>)) (services base)\<rparr>"

section \<open>JSON storage and deep equality\<close>

text \<open>
  \<open>json:"env,omitempty"\<close> drops an empty map, and decoding leaves an absent map nil.
\<close>

definition json_map :: "'v gomap option \<Rightarrow> 'v gomap option" where
  "json_map m = (if entries m = [] then None else m)"

definition json_service :: "service \<Rightarrow> service" where
  "json_service svc =
     svc\<lparr>svc_env := json_map (svc_env svc), svc_secret_env := json_map (svc_secret_env svc)\<rparr>"

definition json_spec :: "deployment_spec \<Rightarrow> deployment_spec" where
  "json_spec s = s\<lparr>services := map (\<lambda>(n, svc). (n, json_service svc)) (services s)\<rparr>"

definition deep_equal_map :: "string gomap option \<Rightarrow> string gomap option \<Rightarrow> bool" where
  "deep_equal_map a b =
     (case (a, b) of
        (None, None) \<Rightarrow> True
      | (Some x, Some y) \<Rightarrow>
          length x = length y \<and> list_all (\<lambda>(k, v). map_of y k = Some v) x
      | _ \<Rightarrow> False)"

definition deep_equal_service :: "service \<Rightarrow> service \<Rightarrow> bool" where
  "deep_equal_service a b \<longleftrightarrow>
     a\<lparr>svc_env := None, svc_secret_env := None\<rparr> = b\<lparr>svc_env := None, svc_secret_env := None\<rparr> \<and>
     deep_equal_map (svc_env a) (svc_env b) \<and>
     deep_equal_map (svc_secret_env a) (svc_secret_env b)"

section \<open>Names, partition and determinism\<close>

definition spec_wf :: "deployment_spec \<Rightarrow> bool" where
  "spec_wf s \<longleftrightarrow> gomap_wf (services s) \<and> gomap_wf (volumes s) \<and>
     (\<forall>(n, svc) \<in> set (services s).
        gomap_wf (entries (svc_env svc)) \<and> gomap_wf (entries (svc_secret_env svc)))"

lemma set_ServiceNames [simp]: "set (ServiceNames s) = dom (map_of (services s))"
  by (simp add: ServiceNames_def)

lemma service_at_map_of: "map_of (services s) n = Some v \<Longrightarrow> service_at s n = v"
  by (simp add: service_at_def)

lemma service_at_in:
  "n \<in> set (ServiceNames s) \<Longrightarrow> (n, service_at s n) \<in> set (services s)"
  by (auto simp: service_at_def dest: map_of_SomeD)

lemma service_at_mem:
  "spec_wf s \<Longrightarrow> (n, v) \<in> set (services s) \<Longrightarrow> service_at s n = v"
  by (simp add: spec_wf_def gomap_wf_def service_at_def)

lemma in_PinnedServices:
  "n \<in> set (PinnedServices s) \<longleftrightarrow>
     n \<in> set (ServiceNames s) \<and> \<not> svc_swappable (service_at s n)"
  by (auto simp: PinnedServices_def)

lemma in_SwappableServices:
  "n \<in> set (SwappableServices s) \<longleftrightarrow>
     n \<in> set (ServiceNames s) \<and> svc_swappable (service_at s n)"
  by (auto simp: SwappableServices_def)

section \<open>Peak capacity\<close>

definition peak_weight :: "(resource_limit \<Rightarrow> int) \<Rightarrow> service \<Rightarrow> int" where
  "peak_weight r svc = (if svc_swappable svc then 2 * r (svc_limits svc) else r (svc_limits svc))"

definition peak_total :: "(resource_limit \<Rightarrow> int) \<Rightarrow> deployment_spec \<Rightarrow> int" where
  "peak_total r s = (\<Sum>(n, svc) \<leftarrow> services s. peak_weight r svc)"

text \<open>
  The loop adds with wrap-around at every step; the result is the exact sum reduced once. The fold
  is stated for an arbitrary accumulator so that both peaks are instances.
\<close>

lemma peak_fold:
  "i64 (fold (\<lambda>(_, svc) total.
             if svc_swappable svc then i64 (total + i64 (r (svc_limits svc) * 2))
             else i64 (total + r (svc_limits svc))) m acc)
     = i64 (acc + (\<Sum>(n, svc) \<leftarrow> m. peak_weight r svc))"
proof (induction m arbitrary: acc)
  case (Cons nv m)
  obtain n svc where nv: "nv = (n, svc)" by (cases nv)
  have step: "(if svc_swappable svc then i64 (acc + i64 (r (svc_limits svc) * 2))
      else i64 (acc + r (svc_limits svc))) = i64 (acc + peak_weight r svc)"
    by (simp add: peak_weight_def mult.commute)
  show ?case
    by (simp add: nv Cons.IH step add.assoc del: if_split)
qed simp

lemma peak_fold_i64:
  "fold (\<lambda>(_, svc) total.
             if svc_swappable svc then i64 (total + i64 (r (svc_limits svc) * 2))
             else i64 (total + r (svc_limits svc))) m 0
     = i64 (\<Sum>(n, svc) \<leftarrow> m. peak_weight r svc)"
proof -
  have idem: "i64 (i64 x) = i64 x" for x by (simp add: i64_id)
  have "in_i64 acc \<Longrightarrow> in_i64 (fold (\<lambda>(_, svc) total.
             if svc_swappable svc then i64 (total + i64 (r (svc_limits svc) * 2))
             else i64 (total + r (svc_limits svc))) m acc)" for acc
    by (induction m arbitrary: acc) (auto split: prod.split)
  then show ?thesis
    using peak_fold [of r m 0] by (simp add: i64_id in_i64_def)
qed

lemma PeakMemoryBytes_eq: "PeakMemoryBytes s = i64 (peak_total memory_bytes s)"
  unfolding PeakMemoryBytes_def peak_total_def by (rule peak_fold_i64)

lemma PeakCPUMillis_eq: "PeakCPUMillis s = i64 (peak_total cpu_millis s)"
  unfolding PeakCPUMillis_def peak_total_def by (rule peak_fold_i64)

lemma peak_total_mset:
  "mset (services s) = mset (services s') \<Longrightarrow> peak_total r s = peak_total r s'"
  unfolding peak_total_def by (metis mset_map sum_mset_sum_list)

section \<open>Required secrets\<close>

lemma set_RequiredSecrets:
  "set (RequiredSecrets s) =
     {k. \<exists>n svc v tmpl. (n, svc) \<in> set (services s) \<and> (v, tmpl) \<in> set (entries (svc_secret_env svc)) \<and>
         k \<in> set (find_secret_refs tmpl)}"
  by (force simp: RequiredSecrets_def)

lemma sorted_RequiredSecrets: "sorted (RequiredSecrets s) \<and> distinct (RequiredSecrets s)"
  by (simp add: RequiredSecrets_def)

lemma replace_secret_refs_the:
  assumes "\<forall>k \<in> set (find_secret_refs tmpl). secret_get src k \<noteq> None"
  shows "replace_secret_refs (subst_secret src) tmpl = replace_secret_refs (\<lambda>r. the (secret_get src r)) tmpl"
proof -
  have "subst_secret src k = the (secret_get src k)" if "Ref k \<in> set (scan tmpl)" for k
    using assms that by (auto simp: set_find_secret_refs subst_secret_def)
  then show ?thesis
    unfolding replace_secret_refs_def
    by (intro arg_cong [where f = concat] map_cong refl) (auto split: token.split)
qed

lemma resolveEnv_complete:
  assumes wf: "gomap_wf env" "gomap_wf secrets"
    and ok: "\<And>v tmpl k. (v, tmpl) \<in> set secrets \<Longrightarrow> k \<in> set (find_secret_refs tmpl) \<Longrightarrow> secret_get src k \<noteq> None"
  shows "\<exists>out. resolveEnv env secrets src = Inr out \<and>
    (\<forall>k. map_of out k = (case map_of secrets k of
        Some tmpl \<Rightarrow> Some (replace_secret_refs (\<lambda>r. the (secret_get src r)) tmpl)
      | None \<Rightarrow> map_of env k))"
proof -
  from ok have "\<forall>(v, tmpl) \<in> set secrets. missing_refs src tmpl = []"
    by (auto simp: missing_refs_empty_iff)
  then obtain out where out: "resolveEnv env secrets src = Inr out"
    unfolding resolveEnv_def using resolve_secret_env_ok_iff by blast
  have "map_of out k = (case map_of secrets k of
        Some tmpl \<Rightarrow> Some (replace_secret_refs (\<lambda>r. the (secret_get src r)) tmpl)
      | None \<Rightarrow> map_of env k)" for k
    using resolve_secret_env_lookup [OF out [unfolded resolveEnv_def] wf(2)] wf(1)
    by (auto simp: map_of_copy_into map_add_def split: option.splits
        dest!: map_of_SomeD ok intro!: replace_secret_refs_the)
  with out show ?thesis by blast
qed

section \<open>Durable state\<close>

definition names_volume :: "mount \<Rightarrow> bool" where
  "names_volume m \<longleftrightarrow> mnt_kind m = MountVolume \<and> mnt_source m \<noteq> []"

lemma mount_reasons_seen:
  "set (snd (mount_reasons name ms seen)) = set seen \<union> mnt_source ` {m \<in> set ms. names_volume m}"
  by (induction name ms seen rule: mount_reasons.induct)
     (auto simp: names_volume_def split: prod.splits)

lemma mount_reasons_Nil:
  "fst (mount_reasons name ms seen) = [] \<longleftrightarrow>
     (\<forall>m \<in> set ms. names_volume m \<longrightarrow> mnt_source m \<in> set seen)"
  by (induction name ms seen rule: mount_reasons.induct)
     (auto simp: names_volume_def split: prod.splits)

lemma services_mount_reasons_seen:
  "set (snd (services_mount_reasons s ns seen)) =
     set seen \<union> (\<Union>n \<in> set ns. mnt_source ` {m \<in> set (svc_mounts (service_at s n)). names_volume m})"
proof (induction s ns seen rule: services_mount_reasons.induct)
  case (2 s n ns seen)
  obtain out seen1 where r: "mount_reasons n (svc_mounts (service_at s n)) seen = (out, seen1)"
    by (cases "mount_reasons n (svc_mounts (service_at s n)) seen")
  obtain outs seen2 where rs: "services_mount_reasons s ns seen1 = (outs, seen2)"
    by (cases "services_mount_reasons s ns seen1")
  have seen1: "set seen1 = set seen \<union>
      mnt_source ` {m \<in> set (svc_mounts (service_at s n)). names_volume m}"
    using mount_reasons_seen [of n "svc_mounts (service_at s n)" seen] r by simp
  have "set seen2 = set seen1 \<union> (\<Union>n \<in> set ns.
      mnt_source ` {m \<in> set (svc_mounts (service_at s n)). names_volume m})"
    using 2 r rs by simp
  then show ?case using r rs seen1 by (simp add: Un_assoc)
qed simp

lemma services_mount_reasons_Nil:
  "fst (services_mount_reasons s ns seen) = [] \<longleftrightarrow>
     (\<forall>n \<in> set ns. \<forall>m \<in> set (svc_mounts (service_at s n)). names_volume m \<longrightarrow> mnt_source m \<in> set seen)"
proof (induction s ns seen rule: services_mount_reasons.induct)
  case (2 s n ns seen)
  obtain out seen1 where r: "mount_reasons n (svc_mounts (service_at s n)) seen = (out, seen1)"
    by (cases "mount_reasons n (svc_mounts (service_at s n)) seen")
  obtain outs seen2 where rs: "services_mount_reasons s ns seen1 = (outs, seen2)"
    by (cases "services_mount_reasons s ns seen1")
  have out: "out = [] \<longleftrightarrow> (\<forall>m \<in> set (svc_mounts (service_at s n)).
      names_volume m \<longrightarrow> mnt_source m \<in> set seen)"
    using mount_reasons_Nil [of n "svc_mounts (service_at s n)" seen] r by simp
  have seen1: "set seen1 = set seen \<union>
      mnt_source ` {m \<in> set (svc_mounts (service_at s n)). names_volume m}"
    using mount_reasons_seen [of n "svc_mounts (service_at s n)" seen] r by simp
  have outs: "outs = [] \<longleftrightarrow> (\<forall>n \<in> set ns. \<forall>m \<in> set (svc_mounts (service_at s n)).
      names_volume m \<longrightarrow> mnt_source m \<in> set seen1)"
    using 2 r rs by simp
  show ?case
  proof (cases "out = []")
    case True
    with out seen1 have "set seen1 = set seen" by auto
    with True show ?thesis using r rs out outs by simp
  next
    case False
    then show ?thesis using r rs out by auto
  qed
qed simp

lemma DurableReasons_Nil_iff:
  "DurableReasons s = [] \<longleftrightarrow>
     (\<forall>n \<in> set (ServiceNames s). svc_swappable (service_at s n) \<and>
        (\<forall>m \<in> set (svc_mounts (service_at s n)). \<not> names_volume m)) \<and> volumes s = []"
proof -
  obtain out seen where r: "services_mount_reasons s (ServiceNames s) [] = (out, seen)"
    by (cases "services_mount_reasons s (ServiceNames s) []")
  have out: "out = [] \<longleftrightarrow> (\<forall>n \<in> set (ServiceNames s). \<forall>m \<in> set (svc_mounts (service_at s n)).
      \<not> names_volume m)"
    using services_mount_reasons_Nil [of s "ServiceNames s" "[]"] r by simp
  have seen: "set seen = (\<Union>n \<in> set (ServiceNames s).
      mnt_source ` {m \<in> set (svc_mounts (service_at s n)). names_volume m})"
    using services_mount_reasons_seen [of s "ServiceNames s" "[]"] r by simp
  have pinned: "PinnedServices s = [] \<longleftrightarrow> (\<forall>n \<in> set (ServiceNames s). svc_swappable (service_at s n))"
    by (auto simp: PinnedServices_def filter_empty_conv)
  have "DurableReasons s = [] \<longleftrightarrow>
      PinnedServices s = [] \<and> out = [] \<and> filter (\<lambda>v. v \<notin> set seen) (keys (volumes s)) = []"
    by (simp add: DurableReasons_def r)
  also have "\<dots> \<longleftrightarrow> PinnedServices s = [] \<and> out = [] \<and> volumes s = []"
  proof (cases "out = []")
    case True
    with out seen have "set seen = {}" by auto
    then show ?thesis by (simp add: keys_def)
  qed simp
  finally show ?thesis using pinned out by auto
qed

section \<open>The overlay changes plain environment variables only\<close>

lemma map_of_fold_remove:
  "map_of (fold (\<lambda>(k, _) m. remove_key k m) ks m) =
     (\<lambda>k. if k \<in> fst ` set ks then None else map_of m k)"
  by (induction ks arbitrary: m) (auto simp: fun_eq_iff)

lemma gomap_wf_fold_remove:
  "gomap_wf m \<Longrightarrow> gomap_wf (fold (\<lambda>(k, _) m. remove_key k m) ks m)"
  by (induction ks arbitrary: m) auto

lemma overlay_env_lookup:
  assumes "gomap_wf config" "gomap_wf (entries (svc_env svc))"
  shows "map_of (overlay_env svc config) k =
    (if k \<in> fst ` set (entries (svc_secret_env svc)) then None
     else case map_of (entries (svc_env svc)) k of Some v \<Rightarrow> Some v | None \<Rightarrow> map_of config k)"
  using assms
  by (auto simp: overlay_env_def map_of_fold_remove map_of_copy_into map_add_def split: option.splits)

lemma gomap_wf_overlay_env: "gomap_wf (overlay_env svc config)"
  by (simp add: overlay_env_def gomap_wf_fold_remove)

lemma services_applyEnvConfig:
  "services (applyEnvConfig base config) =
     map (\<lambda>(n, svc). (n, svc\<lparr>svc_env := Some (overlay_env svc config)\<rparr>)) (services base)"
  by (simp add: applyEnvConfig_def)

lemma map_of_applyEnvConfig:
  "map_of (services (applyEnvConfig base config)) n =
     map_option (\<lambda>svc. svc\<lparr>svc_env := Some (overlay_env svc config)\<rparr>) (map_of (services base) n)"
  by (simp add: services_applyEnvConfig map_of_map)

lemma service_at_applyEnvConfig:
  "n \<in> set (ServiceNames base) \<Longrightarrow> service_at (applyEnvConfig base config) n =
     (service_at base n)\<lparr>svc_env := Some (overlay_env (service_at base n) config)\<rparr>"
  by (auto simp: service_at_def map_of_applyEnvConfig)

lemma ServiceNames_applyEnvConfig [simp]:
  "ServiceNames (applyEnvConfig base config) = ServiceNames base"
  by (simp add: ServiceNames_def sorted_keys_def keys_def services_applyEnvConfig
      comp_def case_prod_unfold)

lemma peak_weight_env [simp]: "peak_weight r (svc\<lparr>svc_env := e\<rparr>) = peak_weight r svc"
  by (simp add: peak_weight_def)

lemma peak_total_applyEnvConfig [simp]:
  "peak_total r (applyEnvConfig base config) = peak_total r base"
  by (simp add: peak_total_def services_applyEnvConfig comp_def case_prod_unfold)

lemma RequiredSecrets_applyEnvConfig [simp]:
  "RequiredSecrets (applyEnvConfig base config) = RequiredSecrets base"
  by (simp add: RequiredSecrets_def services_applyEnvConfig comp_def case_prod_unfold)

lemma PinnedServices_applyEnvConfig [simp]:
  "PinnedServices (applyEnvConfig base config) = PinnedServices base"
  unfolding PinnedServices_def ServiceNames_applyEnvConfig
  by (rule filter_cong) (simp_all add: service_at_applyEnvConfig)

section \<open>JSON storage\<close>

lemma map_of_json_spec:
  "map_of (services (json_spec s)) n = map_option json_service (map_of (services s) n)"
  by (simp add: json_spec_def map_of_map)

lemma json_service_simps [simp]:
  "svc_swappable (json_service svc) = svc_swappable svc"
  "svc_limits (json_service svc) = svc_limits svc"
  "svc_image (json_service svc) = svc_image svc"
  "svc_depends (json_service svc) = svc_depends svc"
  "svc_mounts (json_service svc) = svc_mounts svc"
  "svc_ingress (json_service svc) = svc_ingress svc"
  by (simp_all add: json_service_def)

lemma json_map_idem [simp]: "json_map (json_map m) = json_map m"
  by (simp add: json_map_def entries_def split: option.splits)

lemma json_service_idem [simp]: "json_service (json_service svc) = json_service svc"
  by (simp add: json_service_def)

lemma json_spec_idem [simp]: "json_spec (json_spec s) = json_spec s"
  by (simp add: json_spec_def comp_def case_prod_unfold)

lemma peak_weight_json [simp]: "peak_weight r (json_service svc) = peak_weight r svc"
  by (simp add: peak_weight_def)

lemma peak_total_json_spec [simp]: "peak_total r (json_spec s) = peak_total r s"
  by (simp add: peak_total_def json_spec_def comp_def case_prod_unfold)

lemma deep_equal_map_refl:
  "gomap_wf (entries m) \<Longrightarrow> deep_equal_map m m"
  by (cases m) (auto simp: deep_equal_map_def entries_def gomap_wf_def list_all_iff)

section \<open>Properties\<close>

definition ex_service :: service where
  "ex_service = zero_service\<lparr>svc_name := ''web'', svc_image := ''img'',
     svc_env := Some [(''LOG'', ''debug'')], svc_secret_env := Some [(''DSN'', ''pg://${secret:PW}@db'')],
     svc_limits := \<lparr>cpu_millis = 100, memory_bytes = 256\<rparr>, svc_swappable := True,
     svc_ingress := Some \<lparr>ing_port = 8080, ing_path = ''/''\<rparr>\<rparr>"

definition ex_db_service :: service where
  "ex_db_service = zero_service\<lparr>svc_name := ''db'', svc_image := ''pg'',
     svc_mounts := [\<lparr>mnt_kind = MountVolume, mnt_source = ''data'', mnt_target = ''/d'', mnt_read_only = False\<rparr>],
     svc_limits := \<lparr>cpu_millis = 50, memory_bytes = 512\<rparr>\<rparr>"

definition ex_spec :: deployment_spec where
  "ex_spec = \<lparr>spec_version = SpecVersion, services = [(''web'', ex_service), (''db'', ex_db_service)],
     volumes = [(''data'', \<lparr>vol_name = ''data'', vol_driver = ''local'', vol_owner = ''db''\<rparr>)],
     networks = []\<rparr>"

lemmas ex_spec_defs = ex_spec_def ex_service_def ex_db_service_def zero_service_def

text \<open>
  The peak a rollout may need is one copy of every pinned service plus two copies of every
  swappable one, for memory and for CPU, whatever order the map of services is visited in. The
  exact sum is reduced to 64 bits, so it is the true peak whenever that fits an \<open>int64\<close>.
\<close>

theorem peak_capacity:
  assumes "mset (services s') = mset (services s)"
  shows "PeakMemoryBytes s' = i64 (peak_total memory_bytes s) \<and>
    PeakCPUMillis s' = i64 (peak_total cpu_millis s)"
  unfolding PeakMemoryBytes_eq PeakCPUMillis_eq peak_total_mset [OF assms] by simp

theorem peak_capacity_witness:
  "mset (services (ex_spec\<lparr>services := rev (services ex_spec)\<rparr>)) = mset (services ex_spec) \<and>
   PeakMemoryBytes (ex_spec\<lparr>services := rev (services ex_spec)\<rparr>) = 1024"
proof -
  have m: "mset (services (ex_spec\<lparr>services := rev (services ex_spec)\<rparr>)) = mset (services ex_spec)"
    by simp
  have "i64 (peak_total memory_bytes ex_spec) = 1024"
    by (simp add: ex_spec_defs peak_total_def peak_weight_def i64_id in_i64_def)
  with m peak_capacity [OF m] show ?thesis by simp
qed

text \<open>
  The overlay of an environment's configuration changes nothing of a service but its plain
  environment. There, a key the stack routes through the secret store is never set, a value the
  compose file sets wins, and every other configured key is supplied.
\<close>

theorem overlay_is_additive:
  assumes "spec_wf base" "gomap_wf config" "map_of (services base) n = Some svc"
  shows "\<exists>env. map_of (services (applyEnvConfig base config)) n = Some (svc\<lparr>svc_env := Some env\<rparr>) \<and>
    gomap_wf env \<and>
    (\<forall>k. map_of env k =
      (if k \<in> dom (map_of (entries (svc_secret_env svc))) then None
       else case map_of (entries (svc_env svc)) k of Some v \<Rightarrow> Some v | None \<Rightarrow> map_of config k))"
proof (intro exI conjI)
  show "map_of (services (applyEnvConfig base config)) n =
      Some (svc\<lparr>svc_env := Some (overlay_env svc config)\<rparr>)"
    using assms(3) by (simp add: map_of_applyEnvConfig)
  from assms(1,3) have "gomap_wf (entries (svc_env svc))"
    by (auto simp: spec_wf_def dest!: map_of_SomeD)
  with assms(2) show "\<forall>k. map_of (overlay_env svc config) k =
      (if k \<in> dom (map_of (entries (svc_secret_env svc))) then None
       else case map_of (entries (svc_env svc)) k of Some v \<Rightarrow> Some v | None \<Rightarrow> map_of config k)"
    by (simp add: overlay_env_lookup dom_map_of_conv_image_fst)
qed (rule gomap_wf_overlay_env)

theorem overlay_is_additive_witness:
  "\<exists>env. map_of (services (applyEnvConfig ex_spec [(''LOG'', ''info''), (''DSN'', ''x''), (''TZ'', ''UTC'')])) ''web''
      = Some (ex_service\<lparr>svc_env := Some env\<rparr>) \<and>
    map_of env ''LOG'' = Some ''debug'' \<and> map_of env ''DSN'' = None \<and> map_of env ''TZ'' = Some ''UTC''"
proof -
  have wf: "spec_wf ex_spec"
    by (simp add: ex_spec_defs spec_wf_def gomap_wf_def entries_def)
  have cfg: "gomap_wf [(''LOG'', ''info''), (''DSN'', ''x''), (''TZ'', ''UTC'')]"
    by (simp add: gomap_wf_def)
  have svc: "map_of (services ex_spec) ''web'' = Some ex_service"
    by (simp add: ex_spec_def)
  obtain env where
    e: "map_of (services (applyEnvConfig ex_spec [(''LOG'', ''info''), (''DSN'', ''x''), (''TZ'', ''UTC'')])) ''web''
      = Some (ex_service\<lparr>svc_env := Some env\<rparr>)" and
    l: "\<forall>k. map_of env k =
      (if k \<in> dom (map_of (entries (svc_secret_env ex_service))) then None
       else case map_of (entries (svc_env ex_service)) k of Some v \<Rightarrow> Some v
            | None \<Rightarrow> map_of [(''LOG'', ''info''), (''DSN'', ''x''), (''TZ'', ''UTC'')] k)"
    using overlay_is_additive [OF wf cfg svc] by blast
  from l have "map_of env ''LOG'' = Some ''debug''" "map_of env ''DSN'' = None"
    "map_of env ''TZ'' = Some ''UTC''"
    by (simp_all add: ex_service_def zero_service_def entries_def)
  with e show ?thesis by blast
qed

text \<open>
  \<open>DurableReasons\<close> is empty exactly when nothing ties the stack to its node: every service is
  swappable, no service mounts a named volume (read-only or not), and no volume is declared.
\<close>

theorem durable_reasons_complete:
  "DurableReasons s = [] \<longleftrightarrow>
     (\<forall>n \<in> set (ServiceNames s). svc_swappable (service_at s n) \<and>
        (\<forall>m \<in> set (svc_mounts (service_at s n)). mnt_kind m = MountVolume \<longrightarrow> mnt_source m = [])) \<and>
     volumes s = []"
  unfolding DurableReasons_Nil_iff names_volume_def by auto

theorem durable_reasons_complete_witness:
  "DurableReasons ex_spec \<noteq> [] \<and> DurableReasons (ex_spec\<lparr>services := [(''web'', ex_service)], volumes := []\<rparr>) = []"
proof -
  have "volumes ex_spec \<noteq> []" by (simp add: ex_spec_def)
  then have "DurableReasons ex_spec \<noteq> []"
    using durable_reasons_complete [of ex_spec] by simp
  moreover have "DurableReasons (ex_spec\<lparr>services := [(''web'', ex_service)], volumes := []\<rparr>) = []"
    unfolding durable_reasons_complete
    by (simp add: service_at_def ex_service_def zero_service_def)
  ultimately show ?thesis by simp
qed

text \<open>
  Every secret the agent needs to start a service of a specification is in \<open>RequiredSecrets\<close>.
  When the agent's source has all of them, \<open>resolveEnv\<close> succeeds for every service and a secret
  variable is its template with the references replaced, the plain variables being kept; otherwise
  some service's start fails with an error that names a missing required key.
\<close>

theorem required_secrets_suffice:
  assumes "spec_wf s" "map_of (services s) n = Some svc"
  shows "((\<forall>k \<in> set (RequiredSecrets s). secret_get src k \<noteq> None) \<longrightarrow>
      (\<exists>env. resolveEnv (entries (svc_env svc)) (entries (svc_secret_env svc)) src = Inr env \<and>
        (\<forall>k. map_of env k = (case map_of (entries (svc_secret_env svc)) k of
            Some tmpl \<Rightarrow> Some (replace_secret_refs (\<lambda>r. the (secret_get src r)) tmpl)
          | None \<Rightarrow> map_of (entries (svc_env svc)) k)))) \<and>
    (\<forall>k v. resolveEnv (entries (svc_env svc)) (entries (svc_secret_env svc)) src = Inl (k, v) \<longrightarrow>
      k \<in> set (RequiredSecrets s) \<and> secret_get src k = None \<and>
      v \<in> dom (map_of (entries (svc_secret_env svc))))"
proof -
  from assms have mem: "(n, svc) \<in> set (services s)" by (auto dest: map_of_SomeD)
  with assms(1) have wf: "gomap_wf (entries (svc_env svc))" "gomap_wf (entries (svc_secret_env svc))"
    by (auto simp: spec_wf_def)
  have refs: "k \<in> set (RequiredSecrets s)"
    if "(v, tmpl) \<in> set (entries (svc_secret_env svc))" "k \<in> set (find_secret_refs tmpl)" for v tmpl k
    using mem that by (auto simp: set_RequiredSecrets)
  show ?thesis
  proof (intro conjI impI allI)
    assume "\<forall>k \<in> set (RequiredSecrets s). secret_get src k \<noteq> None"
    with refs show "\<exists>env. resolveEnv (entries (svc_env svc)) (entries (svc_secret_env svc)) src = Inr env \<and>
        (\<forall>k. map_of env k = (case map_of (entries (svc_secret_env svc)) k of
            Some tmpl \<Rightarrow> Some (replace_secret_refs (\<lambda>r. the (secret_get src r)) tmpl)
          | None \<Rightarrow> map_of (entries (svc_env svc)) k))"
      by (intro resolveEnv_complete [OF wf]) blast
  next
    fix k v
    assume "resolveEnv (entries (svc_env svc)) (entries (svc_secret_env svc)) src = Inl (k, v)"
    then obtain tmpl where t: "(v, tmpl) \<in> set (entries (svc_secret_env svc))"
      and k: "k \<in> set (find_secret_refs tmpl)" and none: "secret_get src k = None"
      unfolding resolveEnv_def using resolve_secret_env_error by blast
    from refs [OF t k] show "k \<in> set (RequiredSecrets s)" .
    from none show "secret_get src k = None" .
    from t show "v \<in> dom (map_of (entries (svc_secret_env svc)))"
      by (simp add: dom_map_of_conv_image_fst rev_image_eqI)
  qed
qed

theorem required_secrets_suffice_witness:
  "\<exists>env. resolveEnv (entries (svc_env ex_service)) (entries (svc_secret_env ex_service))
      (Some [''PW'' \<mapsto> ''s3'']) = Inr env \<and> map_of env ''LOG'' = Some ''debug''"
proof -
  have wf: "spec_wf ex_spec"
    by (simp add: ex_spec_defs spec_wf_def gomap_wf_def entries_def)
  have svc: "map_of (services ex_spec) ''web'' = Some ex_service"
    by (simp add: ex_spec_def)
  have "RequiredSecrets ex_spec = [''PW'']"
    by (simp add: ex_spec_defs RequiredSecrets_def entries_def find_secret_refs_def
        match_secret_ref_def has_prefix_def secret_open_def secret_key_char_def List.map_filter_simps)
  then have all: "\<forall>k \<in> set (RequiredSecrets ex_spec). secret_get (Some [''PW'' \<mapsto> ''s3'']) k \<noteq> None"
    by (simp add: secret_get_def)
  obtain env where
    e: "resolveEnv (entries (svc_env ex_service)) (entries (svc_secret_env ex_service))
      (Some [''PW'' \<mapsto> ''s3'']) = Inr env" and
    l: "\<forall>k. map_of env k = (case map_of (entries (svc_secret_env ex_service)) k of
            Some tmpl \<Rightarrow> Some (replace_secret_refs (\<lambda>r. the (secret_get (Some [''PW'' \<mapsto> ''s3'']) r)) tmpl)
          | None \<Rightarrow> map_of (entries (svc_env ex_service)) k)"
    using required_secrets_suffice [OF wf svc, of "Some [''PW'' \<mapsto> ''s3'']"] all by blast
  from l have "map_of env ''LOG'' = Some ''debug''"
    by (simp add: ex_service_def zero_service_def entries_def)
  with e show ?thesis by blast
qed

text \<open>
  The peak can wrap. A swappable service with a memory limit of \<open>2 ^ 62\<close> bytes needs \<open>2 ^ 63\<close>
  at its peak and \<open>PeakMemoryBytes\<close> answers \<open>- 2 ^ 63\<close>, which every "fits the node" comparison
  accepts.
\<close>

theorem peak_memory_wraps:
  "let s = \<lparr>spec_version = SpecVersion, services = [(''web'', zero_service\<lparr>svc_swappable := True,
             svc_limits := \<lparr>cpu_millis = 0, memory_bytes = 2 ^ 62\<rparr>\<rparr>)], volumes = [], networks = []\<rparr>
   in peak_total memory_bytes s = 2 ^ 63 \<and> PeakMemoryBytes s = - (2 ^ 63)"
  by (simp add: PeakMemoryBytes_eq peak_total_def peak_weight_def zero_service_def i64_wrap in_i64_def)

end
