(* ===== verification/Store_Schema.thy ===== *)
theory Store_Schema
  imports Deployment_Spec
begin

text \<open>
  The relational state of the control plane (\<open>migrations/*.up.sql\<close>, \<open>internal/store/models.go\<close>):
  one record per row type, one list per table, the indexes and foreign keys of the schema as
  checks, the error values of \<open>internal/store/store.go\<close>, and the event log of
  \<open>internal/store/events.go\<close>.

  A store operation is a function from the context of the call and the database to an error or to
  its result and the new database. Errors leave the database as it was: every operation that writes
  more than one row runs in one transaction (\<open>Store.tx\<close>), and the row locks the transactions take
  make them atomic with respect to each other. A write statement that would break a unique index,
  a foreign key or the range of a column fails the way Postgres makes it fail.
\<close>

section \<open>Errors\<close>

text \<open>
  \<open>ErrNotFound\<close>, \<open>ErrConflict\<close>, \<open>ErrInvalid\<close> are the sentinels of the package, with the text a wrapping
  \<open>fmt.Errorf\<close> adds. The \<open>Db\<close> errors are what the driver reports: no row, a unique violation, a foreign
  key violation, anything else.
\<close>

datatype store_error =
    ErrNotFound
  | ErrConflict string
  | ErrInvalid string
  | DbNoRows
  | DbUnique
  | DbForeignKey
  | DbOther string

definition mapErr :: "store_error \<Rightarrow> store_error" where
  "mapErr e = (case e of
      DbNoRows \<Rightarrow> ErrNotFound
    | DbUnique \<Rightarrow> ErrConflict []
    | DbForeignKey \<Rightarrow> ErrNotFound
    | _ \<Rightarrow> e)"

definition map_result :: "store_error + 'a \<Rightarrow> store_error + 'a" where
  "map_result r = (case r of Inl e \<Rightarrow> Inl (mapErr e) | Inr x \<Rightarrow> Inr x)"

text \<open>The text of \<open>Error ()\<close>, as far as the callers record it.\<close>

definition error_text :: "store_error \<Rightarrow> string" where
  "error_text e = (case e of
      ErrNotFound \<Rightarrow> ''not found''
    | ErrConflict m \<Rightarrow> (if m = [] then ''conflict'' else ''conflict: '' @ m)
    | ErrInvalid m \<Rightarrow> (if m = [] then ''invalid'' else ''invalid: '' @ m)
    | DbNoRows \<Rightarrow> ''no rows in result set''
    | DbUnique \<Rightarrow> ''duplicate key value violates unique constraint''
    | DbForeignKey \<Rightarrow> ''violates foreign key constraint''
    | DbOther m \<Rightarrow> m)"

fun is_conflict :: "store_error \<Rightarrow> bool" where
  "is_conflict (ErrConflict m) = True"
| "is_conflict _ = False"

section \<open>Rows\<close>

record organization =
  org_id :: uuid
  org_slug :: string
  org_name :: string
  org_preview_domain :: "string option"
  org_created_at :: time

record application =
  app_id :: uuid
  app_org_id :: uuid
  app_slug :: string
  app_name :: string
  app_created_at :: time

record stack =
  stk_id :: uuid
  stk_app_id :: uuid
  stk_slug :: string
  stk_created_at :: time

record stack_version =
  sv_id :: uuid
  sv_stack_id :: uuid
  sv_version :: int
  sv_raw_compose :: string
  sv_spec :: deployment_spec
  sv_digest :: string
  sv_created_by :: string
  sv_created_at :: time

datatype rollout_strategy = BlueGreen | Rolling | Recreate

record environment =
  env_id :: uuid
  env_stack_id :: uuid
  env_slug :: string
  env_strategy :: rollout_strategy
  env_hostname :: "string option"
  env_config :: "string gomap"
  env_live :: "uuid option"
  env_ephemeral :: bool
  env_expires_at :: "time option"
  env_warned_at :: "time option"
  env_home :: "uuid option"
  env_created_at :: time

datatype deployment_state =
  DeployPending | DeployScheduling | DeployStarting | DeployHealthy
| DeployLive | DeploySuperseded | DeployFailed | DeployStopped

datatype slot = Blue | Green

record deployment =
  dep_id :: uuid
  dep_env :: uuid
  dep_version :: uuid
  dep_stack :: uuid
  dep_revision :: int
  dep_slot :: slot
  dep_project :: string
  dep_state :: deployment_state
  dep_spec :: deployment_spec
  dep_promoted_at :: "time option"
  dep_superseded_at :: "time option"
  dep_failure :: "string option"
  dep_created_by :: string
  dep_created_at :: time
  dep_updated_at :: time

datatype node_state = NodePending | NodeReady | NodeDraining | NodeUnreachable | NodeRetired

record node =
  node_id :: uuid
  node_org :: uuid
  node_hostname :: string
  node_addr :: string
  node_state :: node_state
  node_cpu :: int
  node_mem :: int
  node_alloc_cpu :: int
  node_alloc_mem :: int
  node_labels :: "string gomap"
  node_agent_version :: "string option"
  node_recipient :: "string option"
  node_pending_recipient :: "string option"
  node_token_hash :: "string option"
  node_heartbeat :: "time option"
  node_created_at :: time

datatype instance_state =
  InstancePending | InstancePulling | InstanceStarting | InstanceRunning
| InstanceUnhealthy | InstanceStopped | InstanceFailed

record service_instance =
  inst_id :: uuid
  inst_dep :: uuid
  inst_node :: uuid
  inst_service :: string
  inst_swappable :: bool
  inst_container :: "string option"
  inst_image :: string
  inst_state :: instance_state
  inst_health :: "string option"
  inst_restarts :: int
  inst_error :: "string option"
  inst_started_at :: "time option"
  inst_ingress_port :: "int option"
  inst_updated_at :: time

record secret_row =
  sec_id :: uuid
  sec_env :: uuid
  sec_key :: string
  sec_ciphertext :: string
  sec_key_id :: string
  sec_version :: int
  sec_created_at :: time

record tombstone =
  tomb_env8 :: string
  tomb_org :: uuid
  tomb_created_at :: time

datatype json_value = JStr string | JInt int | JNull

record event =
  ev_id :: int
  ev_org :: uuid
  ev_dep :: "uuid option"
  ev_node :: "uuid option"
  ev_kind :: string
  ev_message :: string
  ev_payload :: "json_value gomap"
  ev_created_at :: time
  ev_actor :: "uuid option"
  ev_email :: "string option"

record db =
  organizations :: "organization list"
  applications :: "application list"
  stacks :: "stack list"
  stack_versions :: "stack_version list"
  environments :: "environment list"
  deployments :: "deployment list"
  service_instances :: "service_instance list"
  nodes :: "node list"
  secrets :: "secret_row list"
  tombstones :: "tombstone list"
  events :: "event list"

definition empty_db :: db where
  "empty_db = \<lparr>organizations = [], applications = [], stacks = [], stack_versions = [],
     environments = [], deployments = [], service_instances = [], nodes = [], secrets = [],
     tombstones = [], events = []\<rparr>"

text \<open>The context of a call: the transaction's clock and the operator, if any, it is made for.\<close>

record call =
  now :: time
  actor :: "(uuid \<times> string) option"

text \<open>Times and durations are counted in nanoseconds.\<close>

definition seconds :: "int \<Rightarrow> int" where
  "seconds n = n * 1000000000"

section \<open>States and their texts\<close>

definition ActiveDeployStates :: "deployment_state list" where
  "ActiveDeployStates = [DeployPending, DeployScheduling, DeployStarting, DeployHealthy]"

definition state_text :: "deployment_state \<Rightarrow> string" where
  "state_text s = (case s of
      DeployPending \<Rightarrow> ''pending'' | DeployScheduling \<Rightarrow> ''scheduling''
    | DeployStarting \<Rightarrow> ''starting'' | DeployHealthy \<Rightarrow> ''healthy'' | DeployLive \<Rightarrow> ''live''
    | DeploySuperseded \<Rightarrow> ''superseded'' | DeployFailed \<Rightarrow> ''failed'' | DeployStopped \<Rightarrow> ''stopped'')"

definition instance_state_text :: "instance_state \<Rightarrow> string" where
  "instance_state_text s = (case s of
      InstancePending \<Rightarrow> ''pending'' | InstancePulling \<Rightarrow> ''pulling'' | InstanceStarting \<Rightarrow> ''starting''
    | InstanceRunning \<Rightarrow> ''running'' | InstanceUnhealthy \<Rightarrow> ''unhealthy''
    | InstanceStopped \<Rightarrow> ''stopped'' | InstanceFailed \<Rightarrow> ''failed'')"

definition slot_text :: "slot \<Rightarrow> string" where
  "slot_text s = (case s of Blue \<Rightarrow> ''blue'' | Green \<Rightarrow> ''green'')"

definition is_active :: "deployment \<Rightarrow> bool" where
  "is_active d \<longleftrightarrow> dep_state d \<in> set ActiveDeployStates"

definition is_live :: "deployment \<Rightarrow> bool" where
  "is_live d \<longleftrightarrow> dep_state d = DeployLive"

definition shortID :: "uuid \<Rightarrow> string" where
  "shortID u = take 8 u"

section \<open>Indexes\<close>

definition dep_indexes_ok :: "deployment list \<Rightarrow> bool" where
  "dep_indexes_ok t \<longleftrightarrow>
     distinct (map dep_id t) \<and>
     distinct (map (\<lambda>d. (dep_env d, dep_revision d)) t) \<and>
     distinct (map dep_project t) \<and>
     unique_on is_active dep_env t \<and>
     unique_on is_live dep_env t"

definition env_indexes_ok :: "environment list \<Rightarrow> bool" where
  "env_indexes_ok t \<longleftrightarrow>
     distinct (map env_id t) \<and>
     distinct (map (\<lambda>e. (env_stack_id e, env_slug e)) t) \<and>
     unique_on (\<lambda>e. env_hostname e \<noteq> None \<and> env_hostname e \<noteq> Some []) env_hostname t"

definition node_indexes_ok :: "node list \<Rightarrow> bool" where
  "node_indexes_ok t \<longleftrightarrow> distinct (map node_id t) \<and> distinct (map (\<lambda>n. (node_org n, node_hostname n)) t)"

definition inst_indexes_ok :: "service_instance list \<Rightarrow> bool" where
  "inst_indexes_ok t \<longleftrightarrow>
     distinct (map inst_id t) \<and> distinct (map (\<lambda>i. (inst_dep i, inst_service i)) t)"

definition in_i32 :: "int \<Rightarrow> bool" where
  "in_i32 x \<longleftrightarrow> - (2 ^ 31) \<le> x \<and> x < 2 ^ 31"

section \<open>Lookups by key\<close>

definition get_org :: "db \<Rightarrow> uuid \<Rightarrow> organization option" where
  "get_org s i = find_row (\<lambda>r. org_id r = i) (organizations s)"

definition get_app :: "db \<Rightarrow> uuid \<Rightarrow> application option" where
  "get_app s i = find_row (\<lambda>r. app_id r = i) (applications s)"

definition get_stack :: "db \<Rightarrow> uuid \<Rightarrow> stack option" where
  "get_stack s i = find_row (\<lambda>r. stk_id r = i) (stacks s)"

definition get_env :: "db \<Rightarrow> uuid \<Rightarrow> environment option" where
  "get_env s i = find_row (\<lambda>r. env_id r = i) (environments s)"

definition get_dep :: "db \<Rightarrow> uuid \<Rightarrow> deployment option" where
  "get_dep s i = find_row (\<lambda>r. dep_id r = i) (deployments s)"

definition get_node :: "db \<Rightarrow> uuid \<Rightarrow> node option" where
  "get_node s i = find_row (\<lambda>r. node_id r = i) (nodes s)"

text \<open>The joins that resolve a stack, an environment or a deployment up to its organization.\<close>

definition org_of_stack :: "db \<Rightarrow> uuid \<Rightarrow> uuid option" where
  "org_of_stack s i =
     (case get_stack s i of None \<Rightarrow> None
      | Some st \<Rightarrow> (case get_app s (stk_app_id st) of None \<Rightarrow> None | Some a \<Rightarrow> Some (app_org_id a)))"

definition org_of_env :: "db \<Rightarrow> uuid \<Rightarrow> uuid option" where
  "org_of_env s i = (case get_env s i of None \<Rightarrow> None | Some e \<Rightarrow> org_of_stack s (env_stack_id e))"

definition org_of_dep :: "db \<Rightarrow> uuid \<Rightarrow> uuid option" where
  "org_of_dep s i = (case get_dep s i of None \<Rightarrow> None | Some d \<Rightarrow> org_of_env s (dep_env d))"

section \<open>Events\<close>

text \<open>
  The identifier of an event is its position in the log. The numbers a rolled back transaction
  leaves unused are not modelled: only the order of identifiers is ever read.
\<close>

definition next_event_id :: "db \<Rightarrow> int" where
  "next_event_id s = int (length (events s)) + 1"

definition appendEventTx ::
  "call \<Rightarrow> uuid \<Rightarrow> uuid option \<Rightarrow> uuid option \<Rightarrow> string \<Rightarrow> string \<Rightarrow> json_value gomap \<Rightarrow> db \<Rightarrow>
   store_error + db" where
  "appendEventTx c org dep nd kind msg payload s =
     (if get_org s org = None \<or>
         (case dep of None \<Rightarrow> False | Some d \<Rightarrow> get_dep s d = None) \<or>
         (case nd of None \<Rightarrow> False | Some n \<Rightarrow> get_node s n = None)
      then Inl DbForeignKey
      else Inr (s\<lparr>events := events s @ [\<lparr>ev_id = next_event_id s, ev_org = org, ev_dep = dep, ev_node = nd,
             ev_kind = kind, ev_message = msg, ev_payload = payload, ev_created_at = now c,
             ev_actor = map_option fst (actor c),
             ev_email = (case actor c of Some (_, m) \<Rightarrow> if m = [] then None else Some m | None \<Rightarrow> None)\<rparr>]\<rparr>))"

definition appendDeploymentEventTx ::
  "call \<Rightarrow> uuid \<Rightarrow> string \<Rightarrow> string \<Rightarrow> json_value gomap \<Rightarrow> db \<Rightarrow> store_error + db" where
  "appendDeploymentEventTx c d kind msg payload s =
     (case org_of_dep s d of
        None \<Rightarrow> Inl DbNoRows
      | Some org \<Rightarrow> appendEventTx c org (Some d) None kind msg payload s)"

definition appendEnvironmentEventTx ::
  "call \<Rightarrow> uuid \<Rightarrow> string \<Rightarrow> string \<Rightarrow> json_value gomap \<Rightarrow> db \<Rightarrow> store_error + db" where
  "appendEnvironmentEventTx c e kind msg payload s =
     (case org_of_env s e of
        None \<Rightarrow> Inl DbNoRows
      | Some org \<Rightarrow> appendEventTx c org None None kind msg payload s)"

section \<open>What the event log keeps\<close>

text \<open>Appending an event changes nothing but the log, and only at its end.\<close>

lemma appendEventTx_ok:
  assumes "appendEventTx c org dep nd kind msg payload s = Inr s'"
  obtains ev where "s' = s\<lparr>events := events s @ [ev]\<rparr>" "ev_kind ev = kind"
  using assms by (auto simp: appendEventTx_def split: if_splits)

lemma appendDeploymentEventTx_ok:
  assumes "appendDeploymentEventTx c d kind msg payload s = Inr s'"
  obtains ev where "s' = s\<lparr>events := events s @ [ev]\<rparr>" "ev_kind ev = kind"
  using assms by (auto simp: appendDeploymentEventTx_def split: option.splits elim: appendEventTx_ok)

lemma appendEnvironmentEventTx_ok:
  assumes "appendEnvironmentEventTx c e kind msg payload s = Inr s'"
  obtains ev where "s' = s\<lparr>events := events s @ [ev]\<rparr>" "ev_kind ev = kind"
  using assms by (auto simp: appendEnvironmentEventTx_def split: option.splits elim: appendEventTx_ok)

lemmas append_ok = appendEventTx_ok appendDeploymentEventTx_ok appendEnvironmentEventTx_ok

text \<open>An event for a deployment fails only when its chain to an organization is broken.\<close>

definition org_known :: "db \<Rightarrow> uuid \<Rightarrow> bool" where
  "org_known s i = (case org_of_env s i of None \<Rightarrow> False | Some org1 \<Rightarrow> get_org s org1 \<noteq> None)"

lemma appendDeploymentEventTx_total:
  assumes "get_dep s i = Some d" "org_known s (dep_env d)"
  shows "\<exists>s'. appendDeploymentEventTx c i kind msg payload s = Inr s'"
  using assms
  by (auto simp: appendDeploymentEventTx_def appendEventTx_def org_of_dep_def org_known_def
      split: option.splits)

lemma sum_bind_Inr [simp]:
  "(case r of Inl e \<Rightarrow> Inl (g e) | Inr x \<Rightarrow> f x) = Inr y \<longleftrightarrow> (\<exists>x. r = Inr x \<and> f x = Inr y)"
  by (cases r) simp_all

lemma map_result_Inr [simp]: "map_result r = Inr x \<longleftrightarrow> r = Inr x"
  by (cases r) (simp_all add: map_result_def)

lemma get_dep_iff:
  "distinct (map dep_id (deployments s)) \<Longrightarrow> get_dep s i = Some d \<longleftrightarrow> d \<in> set (deployments s) \<and> dep_id d = i"
  unfolding get_dep_def by (rule find_row_key)

lemma get_env_iff:
  "distinct (map env_id (environments s)) \<Longrightarrow> get_env s i = Some e \<longleftrightarrow> e \<in> set (environments s) \<and> env_id e = i"
  unfolding get_env_def by (rule find_row_key)

lemma get_node_iff:
  "distinct (map node_id (nodes s)) \<Longrightarrow> get_node s i = Some n \<longleftrightarrow> n \<in> set (nodes s) \<and> node_id n = i"
  unfolding get_node_def by (rule find_row_key)

lemma get_depD: "get_dep s i = Some d \<Longrightarrow> d \<in> set (deployments s) \<and> dep_id d = i"
  by (auto simp: get_dep_def dest: find_row_SomeD)

lemma get_envD: "get_env s i = Some e \<Longrightarrow> e \<in> set (environments s) \<and> env_id e = i"
  by (auto simp: get_env_def dest: find_row_SomeD)

lemma get_nodeD: "get_node s i = Some n \<Longrightarrow> n \<in> set (nodes s) \<and> node_id n = i"
  by (auto simp: get_node_def dest: find_row_SomeD)

end
