(* ===== verification/Store_Nodes.thy ===== *)
theory Store_Nodes
  imports Store_Schema
begin

text \<open>
  \<open>internal/store/nodes.go\<close>: registration with the rules for a node's age recipient, heartbeats,
  cordoning, staleness, the listings the scheduler reads, and recipient rotation. What is outside
  the program is an argument: \<open>inet\<close> is the conversion Postgres makes of an address literal
  (\<open>None\<close> when it is not one), \<open>sha\<close> the hash of a bearer token, and the fresh node id and token are
  the random values of the call.
\<close>

section \<open>Operations\<close>

record register_node_params =
  rn_org :: uuid
  rn_hostname :: string
  rn_addr :: string
  rn_cpu :: int
  rn_mem :: int
  rn_labels :: "string gomap"
  rn_agent_version :: string
  rn_recipient :: string

definition nullif :: "string \<Rightarrow> string option" where
  "nullif x = (if x = [] then None else Some x)"

text \<open>The recipient rules of the upsert, as its two \<open>CASE\<close> expressions.\<close>

definition next_recipient :: "string option \<Rightarrow> string option \<Rightarrow> string option" where
  "next_recipient incoming recorded =
     (case incoming of
        None \<Rightarrow> recorded
      | Some k \<Rightarrow> (case recorded of None \<Rightarrow> Some k | Some r \<Rightarrow> Some r))"

definition next_pending :: "string option \<Rightarrow> string option \<Rightarrow> string option \<Rightarrow> string option" where
  "next_pending incoming recorded pending =
     (case incoming of
        None \<Rightarrow> pending
      | Some k \<Rightarrow> (case recorded of
            None \<Rightarrow> None
          | Some r \<Rightarrow> if k = r then None else Some k))"

definition reregister :: "call \<Rightarrow> string \<Rightarrow> string \<Rightarrow> register_node_params \<Rightarrow> node \<Rightarrow> node" where
  "reregister c addr token_hash p n = n\<lparr>
     node_addr := addr,
     node_state := (if node_state n = NodeDraining then NodeDraining else NodeReady),
     node_cpu := rn_cpu p,
     node_mem := rn_mem p,
     node_labels := rn_labels p,
     node_agent_version := nullif (rn_agent_version p),
     node_recipient := next_recipient (nullif (rn_recipient p)) (node_recipient n),
     node_pending_recipient :=
       next_pending (nullif (rn_recipient p)) (node_recipient n) (node_pending_recipient n),
     node_token_hash := (case node_token_hash n of None \<Rightarrow> Some token_hash | Some t \<Rightarrow> Some t),
     node_heartbeat := Some (now c)\<rparr>"

definition first_registration ::
  "call \<Rightarrow> uuid \<Rightarrow> string \<Rightarrow> string \<Rightarrow> register_node_params \<Rightarrow> node" where
  "first_registration c new_id addr token_hash p = \<lparr>
     node_id = new_id, node_org = rn_org p, node_hostname = rn_hostname p, node_addr = addr,
     node_state = NodeReady, node_cpu = rn_cpu p, node_mem = rn_mem p,
     node_alloc_cpu = 0, node_alloc_mem = 0, node_labels = rn_labels p,
     node_agent_version = nullif (rn_agent_version p),
     node_recipient = nullif (rn_recipient p), node_pending_recipient = None,
     node_token_hash = Some token_hash, node_heartbeat = Some (now c), node_created_at = now c\<rparr>"

text \<open>Whether a registration proposes a key that is neither recorded nor already pending.\<close>

definition newly_proposed :: "string \<Rightarrow> node option \<Rightarrow> bool" where
  "newly_proposed incoming old =
     (case old of
        None \<Rightarrow> False
      | Some n \<Rightarrow>
          incoming \<noteq> [] \<and> node_recipient n \<noteq> None \<and> node_recipient n \<noteq> Some [] \<and>
          node_recipient n \<noteq> Some incoming \<and> node_pending_recipient n \<noteq> Some incoming)"

definition RegisterNode ::
  "(string \<Rightarrow> string option) \<Rightarrow> (string \<Rightarrow> string) \<Rightarrow> call \<Rightarrow> uuid \<Rightarrow> string \<Rightarrow>
   register_node_params \<Rightarrow> db \<Rightarrow> store_error + ((node \<times> string) \<times> db)" where
  "RegisterNode inet sha c new_id token p s =
     (let same = (\<lambda>n. node_org n = rn_org p \<and> node_hostname n = rn_hostname p);
          old = find_row same (nodes s) in
      case inet (rn_addr p) of
        None \<Rightarrow> Inl (DbOther ''invalid input syntax for type inet'')
      | Some addr \<Rightarrow>
        if \<not> in_i32 (rn_cpu p) then Inl (DbOther ''integer out of range'')
        else
          let n = (case old of
                     None \<Rightarrow> first_registration c new_id addr (sha token) p
                   | Some n0 \<Rightarrow> reregister c addr (sha token) p n0);
              table = (case old of
                         None \<Rightarrow> nodes s @ [n]
                       | Some _ \<Rightarrow> update_where same (reregister c addr (sha token) p) (nodes s));
              s1 = s\<lparr>nodes := table\<rparr>;
              issued = (if node_token_hash n = Some (sha token) then token else [])
          in if get_org s (rn_org p) = None then Inl (mapErr DbForeignKey)
             else if \<not> node_indexes_ok table then Inl (mapErr DbUnique)
             else if newly_proposed (rn_recipient p) old then
               (case appendEventTx c (rn_org p) None (Some (node_id n)) ''node.recipient_rotation_pending''
                       ''node advertised a new age recipient; it takes no effect until an operator rotates it''
                       [(''hostname'', JStr (rn_hostname p))] s1 of
                  Inl e \<Rightarrow> Inl (mapErr e)
                | Inr s2 \<Rightarrow> Inr ((n, issued), s2))
             else Inr ((n, issued), s1))"

definition NodeTokenValid :: "(string \<Rightarrow> string) \<Rightarrow> uuid \<Rightarrow> string \<Rightarrow> db \<Rightarrow> store_error + bool" where
  "NodeTokenValid sha n plain s =
     (case get_node s n of
        None \<Rightarrow> Inl ErrNotFound
      | Some r \<Rightarrow> (case node_token_hash r of
            None \<Rightarrow> Inr False
          | Some h \<Rightarrow> Inr (h \<noteq> [] \<and> plain \<noteq> [] \<and> sha plain = h)))"

text \<open>A single \<open>UPDATE nodes .. WHERE id=$1 AND ..\<close>; no row affected is \<open>ErrNotFound\<close>.\<close>

definition update_node :: "uuid \<Rightarrow> (node \<Rightarrow> bool) \<Rightarrow> (node \<Rightarrow> node) \<Rightarrow> db \<Rightarrow> store_error + (unit \<times> db)" where
  "update_node n cond f s =
     (if find_row (\<lambda>r. node_id r = n \<and> cond r) (nodes s) = None then Inl ErrNotFound
      else Inr ((), s\<lparr>nodes := update_where (\<lambda>r. node_id r = n \<and> cond r) f (nodes s)\<rparr>))"

definition Heartbeat :: "call \<Rightarrow> uuid \<Rightarrow> db \<Rightarrow> store_error + (unit \<times> db)" where
  "Heartbeat c n s =
     update_node n (\<lambda>r. node_state r \<noteq> NodeRetired)
       (\<lambda>r. r\<lparr>node_heartbeat := Some (now c),
              node_state := (case node_state r of
                  NodeDraining \<Rightarrow> NodeDraining | NodeRetired \<Rightarrow> NodeRetired | _ \<Rightarrow> NodeReady)\<rparr>) s"

definition DrainNode :: "uuid \<Rightarrow> db \<Rightarrow> store_error + (unit \<times> db)" where
  "DrainNode n s =
     update_node n (\<lambda>r. node_state r \<in> {NodeReady, NodeUnreachable})
       (\<lambda>r. r\<lparr>node_state := NodeDraining\<rparr>) s"

definition node_window :: int where
  "node_window = seconds 30"

definition fresh :: "call \<Rightarrow> node \<Rightarrow> bool" where
  "fresh c r = (case node_heartbeat r of None \<Rightarrow> False | Some t \<Rightarrow> t > now c - node_window)"

definition UncordonNode :: "call \<Rightarrow> uuid \<Rightarrow> db \<Rightarrow> store_error + (unit \<times> db)" where
  "UncordonNode c n s =
     (case get_node s n of
        None \<Rightarrow> Inl ErrNotFound
      | Some r \<Rightarrow>
          if node_state r = NodeRetired
          then Inl (ErrConflict ''node is retired and cannot be returned to service'')
          else if node_state r \<noteq> NodeDraining then Inr ((), s)
          else Inr ((), s\<lparr>nodes := update_where (\<lambda>r. node_id r = n)
                 (\<lambda>r. r\<lparr>node_state := (if fresh c r then NodeReady else NodeUnreachable)\<rparr>) (nodes s)\<rparr>))"

definition stale :: "call \<Rightarrow> node \<Rightarrow> bool" where
  "stale c r = (case node_heartbeat r of None \<Rightarrow> True | Some t \<Rightarrow> t < now c - node_window)"

definition MarkStaleNodesUnreachable :: "call \<Rightarrow> db \<Rightarrow> db" where
  "MarkStaleNodesUnreachable c s =
     s\<lparr>nodes := update_where (\<lambda>r. node_state r = NodeReady \<and> stale c r)
        (\<lambda>r. r\<lparr>node_state := NodeUnreachable\<rparr>) (nodes s)\<rparr>"

definition ListNodes :: "uuid \<Rightarrow> db \<Rightarrow> node list" where
  "ListNodes org s = sort_key node_hostname (filter (\<lambda>r. node_org r = org) (nodes s))"

definition ListReadyNodes :: "call \<Rightarrow> uuid \<Rightarrow> db \<Rightarrow> node list" where
  "ListReadyNodes c org s =
     sort_key node_hostname
       (filter (\<lambda>r. node_org r = org \<and> node_state r = NodeReady \<and> fresh c r) (nodes s))"

definition GetNode :: "uuid \<Rightarrow> db \<Rightarrow> store_error + node" where
  "GetNode n s = (case get_node s n of None \<Rightarrow> Inl ErrNotFound | Some r \<Rightarrow> Inr r)"

text \<open>The grouped count, as a lookup that is zero where the result has no row.\<close>

definition EnvironmentsHomedPerNode :: "uuid \<Rightarrow> db \<Rightarrow> uuid \<Rightarrow> nat" where
  "EnvironmentsHomedPerNode org s n =
     length (filter (\<lambda>e. org_of_stack s (env_stack_id e) = Some org \<and> env_home e = Some n)
       (environments s))"

definition RotateNodeRecipient :: "call \<Rightarrow> uuid \<Rightarrow> db \<Rightarrow> store_error + (node \<times> db)" where
  "RotateNodeRecipient c n s =
     (let pend = (\<lambda>r. node_id r = n \<and> node_pending_recipient r \<noteq> None \<and> node_pending_recipient r \<noteq> Some []) in
      case find_row pend (nodes s) of
        None \<Rightarrow> (if get_node s n = None then Inl ErrNotFound
                 else Inl (ErrConflict ''node has no pending age recipient''))
      | Some r \<Rightarrow>
          let s1 = s\<lparr>nodes := update_where pend
                (\<lambda>r. r\<lparr>node_recipient := node_pending_recipient r, node_pending_recipient := None\<rparr>) (nodes s)\<rparr>
          in (case appendEventTx c (node_org r) None (Some n) ''node.recipient_rotated''
                     ''operator promoted the node's pending age recipient''
                     [(''hostname'', JStr (node_hostname r))] s1 of
                Inl e \<Rightarrow> Inl (mapErr e)
              | Inr s2 \<Rightarrow> (case GetNode n s2 of Inl e \<Rightarrow> Inl e | Inr r2 \<Rightarrow> Inr (r2, s2))))"

section \<open>Effects of the operations\<close>

lemma RegisterNode_ok:
  assumes "RegisterNode inet sha c i tok p s = Inr ((n, issued), t)"
  obtains (first) addr es where
    "find_row (\<lambda>n. node_org n = rn_org p \<and> node_hostname n = rn_hostname p) (nodes s) = None"
    "n = first_registration c i addr (sha tok) p" "issued = tok" "node_indexes_ok (nodes s @ [n])"
    "t = s\<lparr>nodes := nodes s @ [n], events := events s @ es\<rparr>"
  | (again) addr n0 es where
    "find_row (\<lambda>n. node_org n = rn_org p \<and> node_hostname n = rn_hostname p) (nodes s) = Some n0"
    "n = reregister c addr (sha tok) p n0"
    "issued = (if node_token_hash n = Some (sha tok) then tok else [])"
    "node_indexes_ok (nodes t)"
    "t = s\<lparr>nodes := update_where (\<lambda>n. node_org n = rn_org p \<and> node_hostname n = rn_hostname p)
            (reregister c addr (sha tok) p) (nodes s), events := events s @ es\<rparr>"
proof -
  let ?same = "\<lambda>n. node_org n = rn_org p \<and> node_hostname n = rn_hostname p"
  from assms obtain addr where addr: "inet (rn_addr p) = Some addr"
    by (auto simp: RegisterNode_def Let_def split: option.splits)
  show ?thesis
  proof (cases "find_row ?same (nodes s)")
    case None
    with assms addr have n: "n = first_registration c i addr (sha tok) p" "issued = tok"
      "node_indexes_ok (nodes s @ [n])" "t = s\<lparr>nodes := nodes s @ [n], events := events s @ []\<rparr>"
      by (auto simp: RegisterNode_def Let_def newly_proposed_def first_registration_def split: if_splits)
    from first [OF None n] show ?thesis .
  next
    case (Some n0)
    let ?t = "update_where ?same (reregister c addr (sha tok) p) (nodes s)"
    from assms addr Some have n: "n = reregister c addr (sha tok) p n0"
      "issued = (if node_token_hash n = Some (sha tok) then tok else [])" and ix: "node_indexes_ok ?t"
      by (auto simp: RegisterNode_def Let_def split: if_splits)
    have "\<exists>es. t = s\<lparr>nodes := ?t, events := events s @ es\<rparr>"
    proof (cases "newly_proposed (rn_recipient p) (Some n0)")
      case True
      with assms addr Some obtain kind msg pl where
        "appendEventTx c (rn_org p) None (Some (node_id n)) kind msg pl (s\<lparr>nodes := ?t\<rparr>) = Inr t"
        by (auto simp: RegisterNode_def Let_def split: if_splits)
      then show ?thesis by (rule appendEventTx_ok) auto
    next
      case False
      with assms addr Some have "t = s\<lparr>nodes := ?t, events := events s @ []\<rparr>"
        by (auto simp: RegisterNode_def Let_def split: if_splits)
      then show ?thesis ..
    qed
    then obtain es where t: "t = s\<lparr>nodes := ?t, events := events s @ es\<rparr>" ..
    from again [OF Some n _ t] ix show ?thesis by (simp add: t)
  qed
qed

lemma update_node_ok:
  "update_node i P f s = Inr (u, t) \<Longrightarrow> t = s\<lparr>nodes := update_where (\<lambda>r. node_id r = i \<and> P r) f (nodes s)\<rparr>"
  by (auto simp: update_node_def split: if_splits)

lemma UncordonNode_ok:
  assumes "UncordonNode c i s = Inr (u, t)"
  obtains "t = s" | r where "get_node s i = Some r" "node_state r = NodeDraining"
    "t = s\<lparr>nodes := update_where (\<lambda>r. node_id r = i)
            (\<lambda>r. r\<lparr>node_state := (if fresh c r then NodeReady else NodeUnreachable)\<rparr>) (nodes s)\<rparr>"
  using assms by (auto simp: UncordonNode_def split: option.splits if_splits)

lemma RotateNodeRecipient_ok:
  assumes "RotateNodeRecipient c i s = Inr (r, t)"
  obtains ev where
    "t = s\<lparr>nodes := update_where
            (\<lambda>r. node_id r = i \<and> node_pending_recipient r \<noteq> None \<and> node_pending_recipient r \<noteq> Some [])
            (\<lambda>r. r\<lparr>node_recipient := node_pending_recipient r, node_pending_recipient := None\<rparr>) (nodes s),
          events := events s @ [ev]\<rparr>"
proof -
  let ?p = "\<lambda>r. node_id r = i \<and> node_pending_recipient r \<noteq> None \<and> node_pending_recipient r \<noteq> Some []"
  let ?s1 = "s\<lparr>nodes := update_where ?p
      (\<lambda>r. r\<lparr>node_recipient := node_pending_recipient r, node_pending_recipient := None\<rparr>) (nodes s)\<rparr>"
  from assms obtain r0 where r0: "find_row ?p (nodes s) = Some r0"
    by (auto simp: RotateNodeRecipient_def Let_def split: option.splits if_splits)
  with assms have "appendEventTx c (node_org r0) None (Some i) ''node.recipient_rotated''
      ''operator promoted the node's pending age recipient'' [(''hostname'', JStr (node_hostname r0))] ?s1 = Inr t"
    by (auto simp: RotateNodeRecipient_def Let_def)
  then obtain ev where "t = ?s1\<lparr>events := events ?s1 @ [ev]\<rparr>" by (rule appendEventTx_ok)
  with that show ?thesis by simp
qed

end
