(* ===== verification/Store_Secrets.thy ===== *)
theory Store_Secrets
  imports Store_Nodes
begin

text \<open>
  \<open>internal/store/secrets.go\<close>: versioned ciphertexts per environment and key, pruning of superseded
  versions, the recipients a new value is sealed to, and the ciphertexts a node is handed.
\<close>

section \<open>Operations\<close>

definition secret_versions :: "uuid \<Rightarrow> string \<Rightarrow> db \<Rightarrow> secret_row list" where
  "secret_versions e k s = filter (\<lambda>r. sec_env r = e \<and> sec_key r = k) (secrets s)"

definition max_version :: "uuid \<Rightarrow> string \<Rightarrow> db \<Rightarrow> int" where
  "max_version e k s = max_or_0 (map sec_version (secret_versions e k s))"

definition secret_indexes_ok :: "secret_row list \<Rightarrow> bool" where
  "secret_indexes_ok t \<longleftrightarrow>
     distinct (map sec_id t) \<and> distinct (map (\<lambda>r. (sec_env r, sec_key r, sec_version r)) t)"

definition SetSecret ::
  "call \<Rightarrow> uuid \<Rightarrow> uuid \<Rightarrow> string \<Rightarrow> string \<Rightarrow> string \<Rightarrow> db \<Rightarrow> store_error + (unit \<times> db)" where
  "SetSecret c new_id e k ciphertext key_id s =
     (let v = max_version e k s + 1;
          row = \<lparr>sec_id = new_id, sec_env = e, sec_key = k, sec_ciphertext = ciphertext,
                 sec_key_id = key_id, sec_version = v, sec_created_at = now c\<rparr>;
          s1 = s\<lparr>secrets := secrets s @ [row]\<rparr>
      in if \<not> in_i32 v then Inl (DbOther ''integer out of range'')
         else if \<not> secret_indexes_ok (secrets s1) then Inl (mapErr DbUnique)
         else if get_env s e = None then Inl (mapErr DbForeignKey)
         else (case appendEnvironmentEventTx c e ''secret.set'' ''secret version stored''
                      [(''key'', JStr k), (''version'', JInt v)] s1 of
                 Inl err \<Rightarrow> Inl (mapErr err)
               | Inr s2 \<Rightarrow> Inr ((), s2)))"

record secret_meta =
  meta_key :: string
  meta_version :: int
  meta_created_at :: time

text \<open>\<open>GROUP BY key ORDER BY key\<close>: one row per key, with the aggregates over its group.\<close>

definition SecretKeysForEnv :: "uuid \<Rightarrow> db \<Rightarrow> secret_meta list" where
  "SecretKeysForEnv e s =
     map (\<lambda>k. let g = secret_versions e k s in
          \<lparr>meta_key = k, meta_version = Max (set (map sec_version g)),
           meta_created_at = Max (set (map sec_created_at g))\<rparr>)
       (sort (remdups (map sec_key (filter (\<lambda>r. sec_env r = e) (secrets s)))))"

definition DeleteSecret :: "call \<Rightarrow> uuid \<Rightarrow> string \<Rightarrow> db \<Rightarrow> store_error + (unit \<times> db)" where
  "DeleteSecret c e k s =
     (if secret_versions e k s = [] then Inl ErrNotFound
      else (case appendEnvironmentEventTx c e ''secret.deleted'' ''secret deleted'' [(''key'', JStr k)]
                   (s\<lparr>secrets := delete_where (\<lambda>r. sec_env r = e \<and> sec_key r = k) (secrets s)\<rparr>) of
              Inl err \<Rightarrow> Inl (mapErr err)
            | Inr s2 \<Rightarrow> Inr ((), s2)))"

text \<open>
  Superseded versions older than the window. \<open>org\<close> is the organization of the scoped form, \<open>None\<close>
  for \<open>PruneSecretVersions\<close>.
\<close>

definition prunable :: "call \<Rightarrow> uuid option \<Rightarrow> int \<Rightarrow> db \<Rightarrow> secret_row \<Rightarrow> bool" where
  "prunable c org keep s r \<longleftrightarrow>
     sec_version r < Max (set (map sec_version (secret_versions (sec_env r) (sec_key r) s))) \<and>
     sec_created_at r < now c - keep \<and>
     (case org of None \<Rightarrow> True | Some o1 \<Rightarrow> org_of_env s (sec_env r) = Some o1)"

definition PruneSecretVersions :: "call \<Rightarrow> uuid option \<Rightarrow> int \<Rightarrow> db \<Rightarrow> nat \<times> db" where
  "PruneSecretVersions c org keep s =
     (length (filter (prunable c org keep s) (secrets s)),
      s\<lparr>secrets := delete_where (prunable c org keep s) (secrets s)\<rparr>)"

definition running_states :: "deployment_state list" where
  "running_states = [DeployScheduling, DeployStarting, DeployHealthy, DeployLive]"

definition OrgForEnvironment :: "uuid \<Rightarrow> db \<Rightarrow> store_error + uuid" where
  "OrgForEnvironment e s = (case org_of_env s e of None \<Rightarrow> Inl ErrNotFound | Some org1 \<Rightarrow> Inr org1)"

definition home_recipient :: "uuid \<Rightarrow> db \<Rightarrow> string option" where
  "home_recipient e s =
     (case get_env s e of None \<Rightarrow> None
      | Some r \<Rightarrow> (case env_home r of None \<Rightarrow> None
          | Some h \<Rightarrow> (case get_node s h of None \<Rightarrow> None | Some n \<Rightarrow> node_recipient n)))"

definition runs_env_on :: "uuid \<Rightarrow> uuid \<Rightarrow> db \<Rightarrow> bool" where
  "runs_env_on e n s \<longleftrightarrow>
     list_ex (\<lambda>i. inst_node i = n \<and>
       list_ex (\<lambda>d. dep_id d = inst_dep i \<and> dep_env d = e \<and> dep_state d \<in> set running_states)
         (deployments s)) (service_instances s)"

definition usable_recipient :: "node \<Rightarrow> string list" where
  "usable_recipient n =
     (case node_recipient n of None \<Rightarrow> [] | Some r \<Rightarrow> if r = [] then [] else [r])"

definition RecipientsForEnvironment :: "call \<Rightarrow> uuid \<Rightarrow> db \<Rightarrow> store_error + string list" where
  "RecipientsForEnvironment c e s =
     (if home_recipient e s \<noteq> None \<and> home_recipient e s \<noteq> Some []
      then Inr [the (home_recipient e s)]
      else
        let running = remdups (concat (map usable_recipient
                        (filter (\<lambda>n. runs_env_on e (node_id n) s) (nodes s))))
        in if running \<noteq> [] then Inr running
           else (case OrgForEnvironment e s of
                   Inl err \<Rightarrow> Inl err
                 | Inr org1 \<Rightarrow> Inr (concat (map usable_recipient (ListReadyNodes c org1 s)))))"

text \<open>The newest ciphertext of every key of every environment running on the node, by \<open>env8\<close>.\<close>

definition newest :: "db \<Rightarrow> secret_row \<Rightarrow> bool" where
  "newest s r \<longleftrightarrow> sec_version r = Max (set (map sec_version (secret_versions (sec_env r) (sec_key r) s)))"

definition EncryptedSecretsForNode :: "uuid \<Rightarrow> db \<Rightarrow> (string \<times> string \<times> string) list" where
  "EncryptedSecretsForNode n s =
     map (\<lambda>r. (shortID (sec_env r), sec_key r, sec_ciphertext r))
       (filter (\<lambda>r. runs_env_on (sec_env r) n s \<and> newest s r) (secrets s))"

end
