(* ===== verification/Store_Deployments.thy ===== *)
theory Store_Deployments
  imports Store_Secrets
begin

text \<open>
  \<open>internal/store/deployments.go\<close>: creating a deployment with the next revision and the opposite
  slot, the pinned-drift guard, rollback, the guarded state machine, promotion, and the queries the
  control loops and the router read.
\<close>

section \<open>Creating a deployment\<close>

record create_deployment_params =
  cd_env :: uuid
  cd_version :: uuid
  cd_spec :: deployment_spec
  cd_created_by :: string

definition drifted :: "deployment_spec \<Rightarrow> string \<Rightarrow> service \<Rightarrow> bool" where
  "drifted next name old \<longleftrightarrow>
     \<not> svc_swappable old \<and>
     (case map_of (services next) name of
        None \<Rightarrow> True
      | Some new \<Rightarrow> svc_swappable new \<or> \<not> deep_equal_service old new)"

definition rejectPinnedDrift :: "deployment_spec \<Rightarrow> deployment_spec \<Rightarrow> store_error option" where
  "rejectPinnedDrift live next =
     (case List.find (\<lambda>(name, old). drifted next name old) (services live) of
        None \<Rightarrow> None
      | Some (name, old) \<Rightarrow>
          Some (ErrConflict (''pinned service '' @ quote name @
            '' changed; stateful recreation is not supported'')))"

definition next_revision :: "uuid \<Rightarrow> db \<Rightarrow> int" where
  "next_revision e s = max_or_0 (map dep_revision (filter (\<lambda>d. dep_env d = e) (deployments s))) + 1"

definition next_slot :: "deployment option \<Rightarrow> slot" where
  "next_slot live =
     (case live of None \<Rightarrow> Blue | Some d \<Rightarrow> if dep_slot d = Blue then Green else Blue)"

definition project_name :: "uuid \<Rightarrow> int \<Rightarrow> slot \<Rightarrow> string" where
  "project_name e r sl = ''cc-'' @ shortID e @ ''-r'' @ show_int r @ ''-'' @ slot_text sl"

definition live_of :: "environment \<Rightarrow> db \<Rightarrow> deployment option" where
  "live_of e s = (case env_live e of None \<Rightarrow> None | Some d \<Rightarrow> get_dep s d)"

text \<open>A statement that writes the deployments table, with its unique indexes.\<close>

definition write_deps :: "deployment list \<Rightarrow> db \<Rightarrow> store_error + db" where
  "write_deps t s = (if dep_indexes_ok t then Inr (s\<lparr>deployments := t\<rparr>) else Inl DbUnique)"

definition new_deployment ::
  "call \<Rightarrow> uuid \<Rightarrow> create_deployment_params \<Rightarrow> environment \<Rightarrow> db \<Rightarrow> deployment" where
  "new_deployment c new_id p e s =
     (let r = next_revision (env_id e) s; sl = next_slot (live_of e s) in
      \<lparr>dep_id = new_id, dep_env = env_id e, dep_version = cd_version p, dep_stack = env_stack_id e,
       dep_revision = r, dep_slot = sl, dep_project = project_name (env_id e) r sl,
       dep_state = DeployPending, dep_spec = json_spec (cd_spec p), dep_promoted_at = None,
       dep_superseded_at = None, dep_failure = None, dep_created_by = cd_created_by p,
       dep_created_at = now c, dep_updated_at = now c\<rparr>)"

definition createDeploymentTx ::
  "call \<Rightarrow> uuid \<Rightarrow> create_deployment_params \<Rightarrow> db \<Rightarrow> store_error + (deployment \<times> db)" where
  "createDeploymentTx c new_id p s =
     (case get_env s (cd_env p) of
        None \<Rightarrow> Inl DbNoRows
      | Some e \<Rightarrow>
        if \<not> list_ex (\<lambda>v. sv_id v = cd_version p \<and> sv_stack_id v = env_stack_id e) (stack_versions s)
        then Inl (ErrInvalid ''stack version does not belong to environment stack'')
        else
          case (case live_of e s of None \<Rightarrow> None | Some l \<Rightarrow> rejectPinnedDrift (dep_spec l) (cd_spec p)) of
            Some err \<Rightarrow> Inl err
          | None \<Rightarrow>
              let d = new_deployment c new_id p e s in
              if \<not> in_i32 (dep_revision d) then Inl (DbOther ''integer out of range'')
              else (case write_deps (deployments s @ [d]) s of
                Inl err \<Rightarrow> Inl err
              | Inr s1 \<Rightarrow>
                  (case appendDeploymentEventTx c new_id ''deployment.created''
                          (''revision '' @ show_int (dep_revision d) @ '' created'')
                          [(''revision'', JInt (dep_revision d)), (''slot'', JStr (slot_text (dep_slot d))),
                           (''created_by'', JStr (cd_created_by p))] s1 of
                     Inl err \<Rightarrow> Inl err
                   | Inr s2 \<Rightarrow> Inr (d\<lparr>dep_spec := cd_spec p\<rparr>, s2))))"

definition CreateDeployment ::
  "call \<Rightarrow> uuid \<Rightarrow> create_deployment_params \<Rightarrow> db \<Rightarrow> store_error + (deployment \<times> db)" where
  "CreateDeployment c new_id p s = map_result (createDeploymentTx c new_id p s)"

section \<open>Rollback\<close>

text \<open>\<open>ORDER BY revision DESC LIMIT 1\<close>; revisions of one environment are distinct.\<close>

definition newest_revision :: "deployment list \<Rightarrow> deployment option" where
  "newest_revision ds =
     (case sort_key (\<lambda>d. - dep_revision d) ds of [] \<Rightarrow> None | d # _ \<Rightarrow> Some d)"

definition rollback_target :: "uuid \<Rightarrow> int \<Rightarrow> db \<Rightarrow> deployment option" where
  "rollback_target e to_revision s =
     (if to_revision \<le> 0 then
        (case get_env s e of None \<Rightarrow> None
         | Some r \<Rightarrow> (case live_of r s of None \<Rightarrow> None
             | Some l \<Rightarrow> newest_revision
                 (filter (\<lambda>d. dep_env d = e \<and> dep_revision d < dep_revision l) (deployments s))))
      else find_row (\<lambda>d. dep_env d = e \<and> dep_revision d = to_revision) (deployments s))"

definition missing_secrets :: "deployment_spec \<Rightarrow> uuid \<Rightarrow> db \<Rightarrow> string list" where
  "missing_secrets sp e s =
     filter (\<lambda>k. k \<notin> set (map meta_key (SecretKeysForEnv e s))) (RequiredSecrets sp)"

definition RollbackDeployment ::
  "call \<Rightarrow> uuid \<Rightarrow> uuid \<Rightarrow> int \<Rightarrow> db \<Rightarrow> store_error + (deployment \<times> db)" where
  "RollbackDeployment c new_id e to_revision s =
     (case rollback_target e to_revision s of
        None \<Rightarrow> Inl ErrNotFound
      | Some d \<Rightarrow>
          let missing = missing_secrets (dep_spec d) e s in
          if missing \<noteq> [] then
            Inl (ErrInvalid (''environment is missing required secrets: '' @ str_join '', '' missing))
          else CreateDeployment c new_id
                 \<lparr>cd_env = e, cd_version = dep_version d, cd_spec = dep_spec d, cd_created_by = ''rollback''\<rparr> s)"

section \<open>The state machine\<close>

definition validTransitions :: "deployment_state \<Rightarrow> deployment_state list option" where
  "validTransitions to = (case to of
      DeployScheduling \<Rightarrow> Some [DeployPending]
    | DeployStarting \<Rightarrow> Some [DeployScheduling]
    | DeployHealthy \<Rightarrow> Some [DeployStarting]
    | DeployLive \<Rightarrow> Some [DeployHealthy]
    | DeploySuperseded \<Rightarrow> Some [DeployLive]
    | DeployFailed \<Rightarrow> Some [DeployPending, DeployScheduling, DeployStarting, DeployHealthy]
    | DeployStopped \<Rightarrow> Some [DeploySuperseded, DeployFailed, DeployLive]
    | DeployPending \<Rightarrow> None)"

text \<open>Every \<open>UPDATE\<close> of a deployment fires the trigger that touches \<open>updated_at\<close>.\<close>

definition touch_dep ::
  "call \<Rightarrow> (deployment \<Rightarrow> bool) \<Rightarrow> (deployment \<Rightarrow> deployment) \<Rightarrow> deployment list \<Rightarrow> deployment list" where
  "touch_dep c P f t = update_where P (\<lambda>d. (f d)\<lparr>dep_updated_at := now c\<rparr>) t"

definition UpdateDeploymentState ::
  "call \<Rightarrow> uuid \<Rightarrow> deployment_state \<Rightarrow> string \<Rightarrow> db \<Rightarrow> store_error + (unit \<times> db)" where
  "UpdateDeploymentState c i to reason s =
     (case validTransitions to of
        None \<Rightarrow> Inl (DbOther (''unknown target state '' @ quote (state_text to)))
      | Some allowed \<Rightarrow>
          let match = (\<lambda>d. dep_id d = i \<and> dep_state d \<in> set allowed) in
          map_result
            (if find_row match (deployments s) = None
             then Inl (ErrConflict (''illegal transition to '' @ state_text to))
             else (case write_deps (touch_dep c match
                          (\<lambda>d. d\<lparr>dep_state := to, dep_failure := nullif reason\<rparr>) (deployments s)) s of
                Inl e \<Rightarrow> Inl e
              | Inr s1 \<Rightarrow>
                  (case appendDeploymentEventTx c i ''deployment.state_changed''
                          (''deployment entered '' @ state_text to)
                          [(''state'', JStr (state_text to)), (''reason'', JStr reason)] s1 of
                     Inl e \<Rightarrow> Inl e
                   | Inr s2 \<Rightarrow> Inr ((), s2)))))"

definition supersede :: "call \<Rightarrow> uuid option \<Rightarrow> uuid \<Rightarrow> db \<Rightarrow> store_error + db" where
  "supersede c prev i s =
     (case prev of
        None \<Rightarrow> Inr s
      | Some p \<Rightarrow>
          (case write_deps (touch_dep c (\<lambda>d. dep_id d = p \<and> dep_state d = DeployLive)
                  (\<lambda>d. d\<lparr>dep_state := DeploySuperseded, dep_superseded_at := Some (now c)\<rparr>)
                  (deployments s)) s of
             Inl e \<Rightarrow> Inl e
           | Inr s1 \<Rightarrow> appendDeploymentEventTx c p ''deployment.superseded'' ''deployment superseded''
                         [(''replaced_by'', JStr i)] s1))"

definition PromoteDeployment :: "call \<Rightarrow> uuid \<Rightarrow> db \<Rightarrow> store_error + (uuid option \<times> db)" where
  "PromoteDeployment c i s = map_result
     (case get_dep s i of
        None \<Rightarrow> Inl DbNoRows
      | Some d \<Rightarrow>
        if dep_state d \<noteq> DeployHealthy
        then Inl (ErrConflict (''deployment is '' @ state_text (dep_state d) @ '', must be healthy to promote''))
        else
          (case get_env s (dep_env d) of
             None \<Rightarrow> Inl DbNoRows
           | Some e \<Rightarrow>
             (case supersede c (env_live e) i s of
                Inl err \<Rightarrow> Inl err
              | Inr s1 \<Rightarrow>
                (case write_deps (touch_dep c (\<lambda>r. dep_id r = i)
                        (\<lambda>r. r\<lparr>dep_state := DeployLive, dep_promoted_at := Some (now c)\<rparr>)
                        (deployments s1)) s1 of
                   Inl err \<Rightarrow> Inl err
                 | Inr s2 \<Rightarrow>
                   (case appendDeploymentEventTx c i ''deployment.promoted'' ''deployment promoted to live''
                           [(''superseded_deployment_id'',
                             (case env_live e of None \<Rightarrow> JNull | Some p \<Rightarrow> JStr p))]
                           (s2\<lparr>environments := update_where (\<lambda>r. env_id r = dep_env d)
                                 (\<lambda>r. r\<lparr>env_live := Some i\<rparr>) (environments s2)\<rparr>) of
                      Inl err \<Rightarrow> Inl err
                    | Inr s3 \<Rightarrow> Inr (env_live e, s3))))))"

section \<open>Queries\<close>

definition GetDeployment :: "uuid \<Rightarrow> db \<Rightarrow> store_error + (deployment \<times> string \<times> node_state option)" where
  "GetDeployment i s =
     (case get_dep s i of
        None \<Rightarrow> Inl ErrNotFound
      | Some d \<Rightarrow> (case get_env s (dep_env d) of
          None \<Rightarrow> Inl ErrNotFound
        | Some e \<Rightarrow>
            let home = (case env_home e of None \<Rightarrow> None | Some h \<Rightarrow> get_node s h) in
            Inr (d, (case home of None \<Rightarrow> [] | Some n \<Rightarrow> node_hostname n), map_option node_state home)))"

definition list_limit :: "int \<Rightarrow> nat" where
  "list_limit n = (if n \<le> 0 \<or> n > 200 then 50 else nat n)"

definition ListDeployments :: "uuid \<Rightarrow> int \<Rightarrow> db \<Rightarrow> deployment list" where
  "ListDeployments e limit s =
     take (list_limit limit)
       (sort_key (\<lambda>d. - dep_revision d) (filter (\<lambda>d. dep_env d = e) (deployments s)))"

record live_route =
  lr_env8 :: string
  lr_project :: string
  lr_ingress :: string
  lr_hostname :: string
  lr_ingress_port :: int
  lr_node_addr :: string
  lr_published_port :: int

definition reachable_node :: "call \<Rightarrow> int \<Rightarrow> node option \<Rightarrow> bool" where
  "reachable_node c strand n \<longleftrightarrow>
     strand \<le> 0 \<or>
     (case n of
        None \<Rightarrow> False
      | Some r \<Rightarrow> node_state r = NodeReady \<and>
          (case node_heartbeat r of None \<Rightarrow> False | Some t \<Rightarrow> t > now c - strand))"

definition ingress_ports :: "uuid \<Rightarrow> db \<Rightarrow> int list" where
  "ingress_ports d s =
     (let ps = List.map_filter inst_ingress_port (filter (\<lambda>i. inst_dep i = d) (service_instances s))
      in if ps = [] then [0] else ps)"

definition routes_of :: "call \<Rightarrow> uuid option \<Rightarrow> int \<Rightarrow> db \<Rightarrow> deployment \<Rightarrow> live_route list" where
  "routes_of c org strand s d =
     (case get_env s (dep_env d) of
        None \<Rightarrow> []
      | Some e \<Rightarrow>
          let home = (case env_home e of None \<Rightarrow> None | Some h \<Rightarrow> get_node s h) in
          if dep_state d = DeployLive \<and> env_hostname e \<noteq> None \<and> env_hostname e \<noteq> Some [] \<and>
             reachable_node c strand home \<and>
             (case org of None \<Rightarrow> True | Some o1 \<Rightarrow> org_of_stack s (env_stack_id e) = Some o1)
          then (case IngressService (dep_spec d) of
                  None \<Rightarrow> []
                | Some name \<Rightarrow>
                    map (\<lambda>p. \<lparr>lr_env8 = shortID (dep_env d), lr_project = dep_project d, lr_ingress = name,
                              lr_hostname = the (env_hostname e),
                              lr_ingress_port = ing_port (the (svc_ingress (service_at (dep_spec d) name))),
                              lr_node_addr = (case home of None \<Rightarrow> [] | Some n \<Rightarrow> node_addr n),
                              lr_published_port = p\<rparr>) (ingress_ports (dep_id d) s))
          else [])"

definition liveRoutes :: "call \<Rightarrow> uuid option \<Rightarrow> int \<Rightarrow> db \<Rightarrow> live_route list" where
  "liveRoutes c org strand s = concat (map (routes_of c org strand s) (deployments s))"

record pending_deployment =
  pd_dep :: deployment
  pd_org :: uuid
  pd_home :: "uuid option"

definition pending_of :: "db \<Rightarrow> uuid option \<Rightarrow> deployment \<Rightarrow> pending_deployment option" where
  "pending_of s org d =
     (if dep_state d \<noteq> DeployPending then None
      else (case get_env s (dep_env d) of None \<Rightarrow> None
        | Some e \<Rightarrow> (case org_of_stack s (env_stack_id e) of None \<Rightarrow> None
            | Some o1 \<Rightarrow> if org = None \<or> org = Some o1
                then Some \<lparr>pd_dep = d, pd_org = o1, pd_home = env_home e\<rparr> else None)))"

definition listPendingDeployments :: "uuid option \<Rightarrow> db \<Rightarrow> pending_deployment list" where
  "listPendingDeployments org s =
     List.map_filter (pending_of s org) (sort_key dep_created_at (deployments s))"

definition listRolloutsInState :: "uuid option \<Rightarrow> deployment_state list \<Rightarrow> db \<Rightarrow> deployment list" where
  "listRolloutsInState org states s =
     sort_key dep_updated_at
       (filter (\<lambda>d. dep_state d \<in> set states \<and>
          (case org_of_env s (dep_env d) of None \<Rightarrow> False | Some o1 \<Rightarrow> org = None \<or> org = Some o1))
        (deployments s))"

section \<open>Effects of the operations\<close>

interpretation set_state: keyed_update dep_id
  "\<lambda>d. (d\<lparr>dep_state := to, dep_failure := r\<rparr>)\<lparr>dep_updated_at := t\<rparr>" for to r t
  by unfold_locales simp

interpretation set_live: keyed_update env_id "\<lambda>e. e\<lparr>env_live := l\<rparr>" for l
  by unfold_locales simp

lemma write_deps_Inr [simp]:
  "write_deps t s = Inr s' \<longleftrightarrow> dep_indexes_ok t \<and> s' = s\<lparr>deployments := t\<rparr>"
  by (auto simp: write_deps_def)

lemma createDeploymentTx_ok:
  assumes "createDeploymentTx c i p s = Inr (d, s')"
  obtains e ev where
    "get_env s (cd_env p) = Some e"
    "list_ex (\<lambda>v. sv_id v = cd_version p \<and> sv_stack_id v = env_stack_id e) (stack_versions s)"
    "\<forall>l. live_of e s = Some l \<longrightarrow> rejectPinnedDrift (dep_spec l) (cd_spec p) = None"
    "dep_indexes_ok (deployments s @ [new_deployment c i p e s])"
    "in_i32 (next_revision (env_id e) s)"
    "s' = s\<lparr>deployments := deployments s @ [new_deployment c i p e s], events := events s @ [ev]\<rparr>"
    "d = (new_deployment c i p e s)\<lparr>dep_spec := cd_spec p\<rparr>"
proof -
  from assms obtain e where e: "get_env s (cd_env p) = Some e"
    by (auto simp: createDeploymentTx_def split: option.splits)
  let ?d = "new_deployment c i p e s"
  let ?s1 = "s\<lparr>deployments := deployments s @ [?d]\<rparr>"
  from assms e have v: "list_ex (\<lambda>v. sv_id v = cd_version p \<and> sv_stack_id v = env_stack_id e) (stack_versions s)"
    by (auto simp: createDeploymentTx_def split: if_splits)
  from assms e v have drift:
    "(case live_of e s of None \<Rightarrow> None | Some l \<Rightarrow> rejectPinnedDrift (dep_spec l) (cd_spec p)) = None"
    by (auto simp: createDeploymentTx_def split: if_splits option.splits)
  from assms e v drift have r: "in_i32 (dep_revision ?d)"
    by (auto simp: createDeploymentTx_def Let_def split: if_splits)
  from assms e v drift r have ix: "dep_indexes_ok (deployments s @ [?d])"
    by (auto simp: createDeploymentTx_def Let_def write_deps_def split: if_splits)
  from assms e v drift r ix obtain kind msg payload where
    app: "appendDeploymentEventTx c i kind msg payload ?s1 = Inr s'" and d: "d = ?d\<lparr>dep_spec := cd_spec p\<rparr>"
    by (auto simp: createDeploymentTx_def Let_def write_deps_def split: if_splits sum.splits)
  from app obtain ev where "s' = ?s1\<lparr>events := events ?s1 @ [ev]\<rparr>" by (rule appendDeploymentEventTx_ok)
  with that e v drift r ix d show ?thesis
    by (auto simp: new_deployment_def Let_def split: option.splits)
qed

lemma UpdateDeploymentState_ok:
  assumes "UpdateDeploymentState c i to reason s = Inr (u, s')"
  obtains allowed d ev where
    "validTransitions to = Some allowed" "d \<in> set (deployments s)" "dep_id d = i" "dep_state d \<in> set allowed"
    "dep_indexes_ok (deployments s')"
    "s' = s\<lparr>deployments := touch_dep c (\<lambda>d. dep_id d = i \<and> dep_state d \<in> set allowed)
             (\<lambda>d. d\<lparr>dep_state := to, dep_failure := nullif reason\<rparr>) (deployments s),
           events := events s @ [ev]\<rparr>"
proof -
  from assms obtain allowed where a: "validTransitions to = Some allowed"
    by (auto simp: UpdateDeploymentState_def split: option.splits)
  let ?m = "\<lambda>d. dep_id d = i \<and> dep_state d \<in> set allowed"
  let ?t = "touch_dep c ?m (\<lambda>d. d\<lparr>dep_state := to, dep_failure := nullif reason\<rparr>) (deployments s)"
  from assms a obtain d where d: "find_row ?m (deployments s) = Some d"
    by (auto simp: UpdateDeploymentState_def Let_def split: if_splits)
  with assms a have ix: "dep_indexes_ok ?t"
    by (auto simp: UpdateDeploymentState_def Let_def write_deps_def split: if_splits)
  with assms a d obtain kind msg payload where
    app: "appendDeploymentEventTx c i kind msg payload (s\<lparr>deployments := ?t\<rparr>) = Inr s'"
    by (auto simp: UpdateDeploymentState_def Let_def write_deps_def split: if_splits sum.splits)
  from app obtain ev where "s' = (s\<lparr>deployments := ?t\<rparr>)\<lparr>events := events s @ [ev]\<rparr>"
    by (auto elim: appendDeploymentEventTx_ok)
  moreover from this ix have "dep_indexes_ok (deployments s')" by simp
  ultimately show ?thesis using that [OF a] find_row_SomeD [OF d] by blast
qed

text \<open>The two writes of a promotion, as one rewriting of the table.\<close>

definition superseded_row :: "call \<Rightarrow> uuid option \<Rightarrow> deployment \<Rightarrow> deployment" where
  "superseded_row c prev d =
     (if prev = Some (dep_id d) \<and> dep_state d = DeployLive
      then d\<lparr>dep_state := DeploySuperseded, dep_superseded_at := Some (now c), dep_updated_at := now c\<rparr>
      else d)"

definition promoted_row :: "call \<Rightarrow> uuid option \<Rightarrow> uuid \<Rightarrow> deployment \<Rightarrow> deployment" where
  "promoted_row c prev i d =
     (let d1 = superseded_row c prev d in
      if dep_id d = i then d1\<lparr>dep_state := DeployLive, dep_promoted_at := Some (now c), dep_updated_at := now c\<rparr>
      else d1)"

lemma supersede_ok:
  assumes "supersede c prev i s = Inr s1"
  obtains es where "s1 = s\<lparr>deployments := map (superseded_row c prev) (deployments s), events := events s @ es\<rparr>"
proof (cases prev)
  case None
  with assms have "s1 = s\<lparr>deployments := map (superseded_row c prev) (deployments s), events := events s @ []\<rparr>"
    by (simp add: supersede_def superseded_row_def [abs_def])
  with that show ?thesis by blast
next
  case (Some p)
  have t: "touch_dep c (\<lambda>d. dep_id d = p \<and> dep_state d = DeployLive)
      (\<lambda>d. d\<lparr>dep_state := DeploySuperseded, dep_superseded_at := Some (now c)\<rparr>) (deployments s)
      = map (superseded_row c prev) (deployments s)"
    by (auto simp: touch_dep_def update_where_def superseded_row_def Some)
  from assms obtain kind msg payload where
    "appendDeploymentEventTx c p kind msg payload
       (s\<lparr>deployments := map (superseded_row c prev) (deployments s)\<rparr>) = Inr s1"
    by (auto simp: supersede_def Some t [unfolded Some] write_deps_def split: sum.splits if_splits)
  then obtain ev where "s1 = (s\<lparr>deployments := map (superseded_row c prev) (deployments s)\<rparr>)
      \<lparr>events := events s @ [ev]\<rparr>"
    by (auto elim: appendDeploymentEventTx_ok)
  with that show ?thesis by auto
qed

lemma PromoteDeployment_ok:
  assumes "PromoteDeployment c i s = Inr (prev, s')"
  obtains d e es where
    "get_dep s i = Some d" "dep_state d = DeployHealthy" "get_env s (dep_env d) = Some e" "prev = env_live e"
    "dep_indexes_ok (deployments s')"
    "s' = s\<lparr>deployments := map (promoted_row c prev i) (deployments s),
           environments := update_where (\<lambda>r. env_id r = dep_env d) (\<lambda>r. r\<lparr>env_live := Some i\<rparr>) (environments s),
           events := events s @ es\<rparr>"
proof -
  from assms obtain d where d: "get_dep s i = Some d"
    by (auto simp: PromoteDeployment_def split: option.splits)
  with assms have h: "dep_state d = DeployHealthy"
    by (auto simp: PromoteDeployment_def split: if_splits)
  with assms d obtain e where e: "get_env s (dep_env d) = Some e"
    by (auto simp: PromoteDeployment_def split: option.splits)
  with assms d h obtain s1 where s1: "supersede c (env_live e) i s = Inr s1"
    by (auto simp: PromoteDeployment_def split: sum.splits)
  then obtain es1 where s1': "s1 = s\<lparr>deployments := map (superseded_row c (env_live e)) (deployments s),
      events := events s @ es1\<rparr>" by (rule supersede_ok)
  have t: "touch_dep c (\<lambda>r. dep_id r = i) (\<lambda>r. r\<lparr>dep_state := DeployLive, dep_promoted_at := Some (now c)\<rparr>)
      (deployments s1) = map (promoted_row c (env_live e) i) (deployments s)"
    by (auto simp: touch_dep_def update_where_def promoted_row_def Let_def s1' superseded_row_def)
  let ?s2 = "s1\<lparr>deployments := map (promoted_row c (env_live e) i) (deployments s)\<rparr>"
  let ?s3 = "?s2\<lparr>environments := update_where (\<lambda>r. env_id r = dep_env d) (\<lambda>r. r\<lparr>env_live := Some i\<rparr>) (environments ?s2)\<rparr>"
  have run: "PromoteDeployment c i s = map_result (case write_deps (deployments ?s2) s1 of
      Inl err \<Rightarrow> Inl err
    | Inr s2 \<Rightarrow> (case appendDeploymentEventTx c i ''deployment.promoted'' ''deployment promoted to live''
          [(''superseded_deployment_id'', (case env_live e of None \<Rightarrow> JNull | Some p \<Rightarrow> JStr p))]
          (s2\<lparr>environments := update_where (\<lambda>r. env_id r = dep_env d)
             (\<lambda>r. r\<lparr>env_live := Some i\<rparr>) (environments s2)\<rparr>) of
        Inl err \<Rightarrow> Inl err | Inr s3 \<Rightarrow> Inr (env_live e, s3)))"
    by (simp add: PromoteDeployment_def d h e s1 t)
  have ix: "dep_indexes_ok (deployments ?s2)"
    using assms unfolding run by (cases "dep_indexes_ok (deployments ?s2)") (simp_all add: write_deps_def)
  have app: "appendDeploymentEventTx c i ''deployment.promoted'' ''deployment promoted to live''
      [(''superseded_deployment_id'', (case env_live e of None \<Rightarrow> JNull | Some p \<Rightarrow> JStr p))] ?s3 = Inr s'"
    and prev: "prev = env_live e"
    using assms unfolding run by auto
  from app obtain ev where "s' = ?s3\<lparr>events := events ?s3 @ [ev]\<rparr>" by (rule appendDeploymentEventTx_ok)
  then have "s' = s\<lparr>deployments := map (promoted_row c prev i) (deployments s),
      environments := update_where (\<lambda>r. env_id r = dep_env d) (\<lambda>r. r\<lparr>env_live := Some i\<rparr>) (environments s),
      events := events s @ (es1 @ [ev])\<rparr>" by (simp add: prev s1')
  moreover from this ix have "dep_indexes_ok (deployments s')" by (simp add: prev)
  ultimately show ?thesis using that [OF d h e prev] by blast
qed

end
