(* ===== verification/Store_Instances.thy ===== *)
theory Store_Instances
  imports Store_Deployments
begin

text \<open>
  \<open>internal/store/instances.go\<close>: placing a deployment (capacity reservation, instance rows and the
  binding of the environment to its home node, in one transaction), the desired state handed to an
  agent, what an agent reports back, teardown, and the release of a home binding. The ids of the
  instance rows, random in the database, are an argument (\<open>ids\<close>, one per service).
\<close>

section \<open>Placement\<close>

record new_instance =
  ni_service :: string
  ni_swappable :: bool
  ni_image :: string

definition instance_row :: "call \<Rightarrow> uuid \<Rightarrow> uuid \<Rightarrow> uuid \<Rightarrow> new_instance \<Rightarrow> service_instance" where
  "instance_row c new_id dep nd ni = \<lparr>inst_id = new_id, inst_dep = dep, inst_node = nd,
     inst_service = ni_service ni, inst_swappable = ni_swappable ni, inst_container = None,
     inst_image = ni_image ni, inst_state = InstancePending, inst_health = None, inst_restarts = 0,
     inst_error = None, inst_started_at = None, inst_ingress_port = None, inst_updated_at = now c\<rparr>"

text \<open>The rows the scheduler asks for: one per service of the specification.\<close>

definition spec_instances :: "deployment_spec \<Rightarrow> new_instance list" where
  "spec_instances sp =
     map (\<lambda>(name, svc). \<lparr>ni_service = name, ni_swappable = svc_swappable svc, ni_image = svc_image svc\<rparr>)
       (services sp)"

text \<open>
  \<open>INSERT .. ON CONFLICT (deployment_id, service_name) DO NOTHING\<close>, one statement per service. A
  missing deployment or node is a foreign key violation, a used row id a unique violation.
\<close>

fun insertInstancesTx ::
  "call \<Rightarrow> uuid \<Rightarrow> uuid \<Rightarrow> (uuid \<times> new_instance) list \<Rightarrow> db \<Rightarrow> store_error + db" where
  "insertInstancesTx c dep nd [] s = Inr s"
| "insertInstancesTx c dep nd ((i, ni) # rest) s =
     (if list_ex (\<lambda>r. inst_dep r = dep \<and> inst_service r = ni_service ni) (service_instances s)
      then insertInstancesTx c dep nd rest s
      else if list_ex (\<lambda>r. inst_id r = i) (service_instances s) then Inl DbUnique
      else if get_dep s dep = None \<or> get_node s nd = None then Inl DbForeignKey
      else insertInstancesTx c dep nd rest
             (s\<lparr>service_instances := service_instances s @ [instance_row c i dep nd ni]\<rparr>))"

definition CreateServiceInstances ::
  "call \<Rightarrow> uuid \<Rightarrow> uuid \<Rightarrow> (uuid \<times> new_instance) list \<Rightarrow> db \<Rightarrow> store_error + (unit \<times> db)" where
  "CreateServiceInstances c dep nd insts s =
     (case insertInstancesTx c dep nd insts s of Inl e \<Rightarrow> Inl e | Inr s1 \<Rightarrow> Inr ((), s1))"

definition lacks_capacity :: "node \<Rightarrow> int \<Rightarrow> int \<Rightarrow> bool" where
  "lacks_capacity n peak_cpu peak_mem \<longleftrightarrow>
     i64 (node_cpu n - node_alloc_cpu n) < peak_cpu \<or> i64 (node_mem n - node_alloc_mem n) < peak_mem"

text \<open>The columns are an \<open>INTEGER\<close> and a \<open>BIGINT\<close>: a sum out of range fails the statement.\<close>

definition reserve :: "uuid \<Rightarrow> int \<Rightarrow> int \<Rightarrow> db \<Rightarrow> store_error + db" where
  "reserve nd peak_cpu peak_mem s =
     (case get_node s nd of
        None \<Rightarrow> Inr s
      | Some n \<Rightarrow>
          if in_i32 peak_cpu \<and> in_i32 (node_alloc_cpu n + peak_cpu) \<and> in_i64 (node_alloc_mem n + peak_mem)
          then Inr (s\<lparr>nodes := update_where (\<lambda>r. node_id r = nd)
                 (\<lambda>r. r\<lparr>node_alloc_cpu := node_alloc_cpu r + peak_cpu,
                        node_alloc_mem := node_alloc_mem r + peak_mem\<rparr>) (nodes s)\<rparr>)
          else Inl (DbOther ''integer out of range''))"

definition bind_home :: "uuid \<Rightarrow> uuid \<Rightarrow> db \<Rightarrow> db" where
  "bind_home e nd s = s\<lparr>environments :=
     update_where (\<lambda>r. env_id r = e) (\<lambda>r. r\<lparr>env_home := Some nd\<rparr>) (environments s)\<rparr>"

definition PlaceDeployment ::
  "call \<Rightarrow> uuid \<Rightarrow> uuid \<Rightarrow> (uuid \<times> new_instance) list \<Rightarrow> int \<Rightarrow> int \<Rightarrow> db \<Rightarrow> store_error + (unit \<times> db)" where
  "PlaceDeployment c dep nd insts peak_cpu peak_mem s =
     (case get_dep s dep of
        None \<Rightarrow> Inl DbNoRows
      | Some d \<Rightarrow>
        if dep_state d \<noteq> DeployPending then Inr ((), s)
        else (case get_env s (dep_env d) of
          None \<Rightarrow> Inl DbNoRows
        | Some e \<Rightarrow>
          if env_home e \<noteq> None \<and> env_home e \<noteq> Some nd
          then Inl (ErrConflict (''environment is homed to node '' @ the (env_home e) @
                 '', cannot place on '' @ nd))
          else (case get_node s nd of
            None \<Rightarrow> Inl DbNoRows
          | Some n \<Rightarrow>
            if lacks_capacity n peak_cpu peak_mem
            then Inl (ErrConflict ''node lacks capacity for this rollout'')
            else (case insertInstancesTx c dep nd insts s of
              Inl err \<Rightarrow> Inl err
            | Inr s1 \<Rightarrow>
              (case reserve nd peak_cpu peak_mem
                      (if env_home e = None then bind_home (dep_env d) nd s1 else s1) of
                Inl err \<Rightarrow> Inl err
              | Inr s2 \<Rightarrow>
                (case write_deps (touch_dep c (\<lambda>r. dep_id r = dep \<and> dep_state r = DeployPending)
                        (\<lambda>r. r\<lparr>dep_state := DeployScheduling, dep_failure := None\<rparr>) (deployments s2)) s2 of
                  Inl err \<Rightarrow> Inl err
                | Inr s3 \<Rightarrow>
                  (case appendDeploymentEventTx c dep ''deployment.state_changed'' ''deployment entered scheduling''
                          [(''state'', JStr ''scheduling'')] s3 of
                     Inl err \<Rightarrow> Inl err
                   | Inr s4 \<Rightarrow> Inr ((), s4))))))))"

section \<open>Desired and observed state\<close>

record desired_instance =
  di_instance :: uuid
  di_dep :: uuid
  di_env8 :: string
  di_project :: string
  di_slot :: slot
  di_revision :: int
  di_name :: string
  di_swappable :: bool
  di_service :: service
  di_state :: instance_state
  di_container :: string

definition desired_of :: "db \<Rightarrow> service_instance \<Rightarrow> desired_instance option" where
  "desired_of s i =
     (case get_dep s (inst_dep i) of
        None \<Rightarrow> None
      | Some d \<Rightarrow>
        if dep_state d \<notin> set running_states then None
        else (case map_of (services (dep_spec d)) (inst_service i) of
          None \<Rightarrow> None
        | Some svc \<Rightarrow> Some \<lparr>di_instance = inst_id i, di_dep = dep_id d, di_env8 = shortID (dep_env d),
            di_project = dep_project d, di_slot = dep_slot d, di_revision = dep_revision d,
            di_name = inst_service i, di_swappable = inst_swappable i, di_service = svc,
            di_state = inst_state i,
            di_container = (case inst_container i of None \<Rightarrow> [] | Some x \<Rightarrow> x)\<rparr>))"

definition DesiredStateForNode :: "uuid \<Rightarrow> db \<Rightarrow> desired_instance list" where
  "DesiredStateForNode nd s =
     sort_key (\<lambda>x. di_revision x)
       (sort_key di_name
         (List.map_filter (desired_of s) (filter (\<lambda>i. inst_node i = nd) (service_instances s))))"

record observed_instance =
  oi_state :: instance_state
  oi_container :: string
  oi_health :: string
  oi_error :: string
  oi_restarts :: int
  oi_set_started :: bool
  oi_ingress_port :: int

definition observed :: "call \<Rightarrow> observed_instance \<Rightarrow> service_instance \<Rightarrow> service_instance" where
  "observed c ob r = r\<lparr>
     inst_state := oi_state ob,
     inst_container := nullif (oi_container ob),
     inst_health := nullif (oi_health ob),
     inst_error := nullif (oi_error ob),
     inst_restarts := oi_restarts ob,
     inst_started_at := (if oi_set_started ob \<and> inst_started_at r = None then Some (now c) else inst_started_at r),
     inst_ingress_port := (if oi_ingress_port ob = 0 then None else Some (oi_ingress_port ob)),
     inst_updated_at := now c\<rparr>"

definition ReportInstance :: "call \<Rightarrow> uuid \<Rightarrow> uuid \<Rightarrow> observed_instance \<Rightarrow> db \<Rightarrow> store_error + (unit \<times> db)" where
  "ReportInstance c nd i ob s =
     (let m = (\<lambda>r. inst_id r = i \<and> inst_node r = nd) in
      if \<not> in_i32 (oi_restarts ob) \<or> \<not> in_i32 (oi_ingress_port ob) then Inl (DbOther ''integer out of range'')
      else if find_row m (service_instances s) = None then Inl ErrNotFound
      else Inr ((), s\<lparr>service_instances := update_where m (observed c ob) (service_instances s)\<rparr>))"

definition InstanceStates :: "uuid \<Rightarrow> db \<Rightarrow> instance_state list" where
  "InstanceStates d s = map inst_state (filter (\<lambda>i. inst_dep i = d) (service_instances s))"

section \<open>Teardown and release\<close>

definition release_capacity :: "uuid \<Rightarrow> deployment_spec \<Rightarrow> db \<Rightarrow> db" where
  "release_capacity nd sp s = s\<lparr>nodes := update_where (\<lambda>r. node_id r = nd)
     (\<lambda>r. r\<lparr>node_alloc_cpu := max 0 (node_alloc_cpu r - PeakCPUMillis sp),
            node_alloc_mem := max 0 (node_alloc_mem r - PeakMemoryBytes sp)\<rparr>) (nodes s)\<rparr>"

text \<open>
  Without an \<open>ORDER BY\<close>, the instance the first query returns is any of the deployment's; all of
  them are on one node.
\<close>

definition release_fits :: "uuid \<Rightarrow> deployment_spec \<Rightarrow> db \<Rightarrow> bool" where
  "release_fits nd sp s =
     (case get_node s nd of
        None \<Rightarrow> True
      | Some n \<Rightarrow> in_i32 (PeakCPUMillis sp) \<and> in_i32 (node_alloc_cpu n - PeakCPUMillis sp) \<and>
          in_i64 (node_alloc_mem n - PeakMemoryBytes sp))"

definition DeleteInstances :: "uuid \<Rightarrow> db \<Rightarrow> store_error + (unit \<times> db)" where
  "DeleteInstances dep s =
     (case get_dep s dep of
        None \<Rightarrow> Inl ErrNotFound
      | Some d \<Rightarrow>
        (let s1 = s\<lparr>service_instances := delete_where (\<lambda>i. inst_dep i = dep) (service_instances s)\<rparr> in
         case find_row (\<lambda>i. inst_dep i = dep) (service_instances s) of
           None \<Rightarrow> Inr ((), s1)
         | Some i \<Rightarrow>
             if release_fits (inst_node i) (dep_spec d) s
             then Inr ((), release_capacity (inst_node i) (dep_spec d) s1)
             else Inl (DbOther ''integer out of range'')))"

definition ReleaseEnvironmentHome :: "call \<Rightarrow> uuid \<Rightarrow> db \<Rightarrow> store_error + (unit \<times> db)" where
  "ReleaseEnvironmentHome c e s =
     map_result (case get_env s e of
        None \<Rightarrow> Inl DbNoRows
      | Some r \<Rightarrow> (case env_home r of
          None \<Rightarrow> Inr ((), s)
        | Some home \<Rightarrow>
            (case (case env_live r of
                     None \<Rightarrow> Inr []
                   | Some l \<Rightarrow> (case get_dep s l of
                       None \<Rightarrow> Inl DbNoRows
                     | Some d \<Rightarrow> Inr (DurableReasons (dep_spec d)))) of
               Inl err \<Rightarrow> Inl err
             | Inr reasons \<Rightarrow>
                 if reasons \<noteq> []
                 then Inl (ErrConflict (''environment holds durable state on node '' @ home @ '' ('' @
                        str_join '', '' reasons @ '')''))
                 else (case appendEnvironmentEventTx c e ''environment.home_released''
                              ''environment released from its home node'' [(''released_from'', JStr home)]
                              (s\<lparr>environments := update_where (\<lambda>x. env_id x = e)
                                   (\<lambda>x. x\<lparr>env_home := None\<rparr>) (environments s)\<rparr>) of
                         Inl err \<Rightarrow> Inl err
                       | Inr s2 \<Rightarrow> Inr ((), s2)))))"

record homed_environment =
  he_id :: uuid
  he_app :: string
  he_stack :: string
  he_slug :: string
  he_reasons :: "string list"

definition homed_of :: "db \<Rightarrow> environment \<Rightarrow> homed_environment option" where
  "homed_of s e =
     (case get_stack s (env_stack_id e) of
        None \<Rightarrow> None
      | Some st \<Rightarrow> (case get_app s (stk_app_id st) of
          None \<Rightarrow> None
        | Some a \<Rightarrow> Some \<lparr>he_id = env_id e, he_app = app_slug a, he_stack = stk_slug st, he_slug = env_slug e,
            he_reasons = (case live_of e s of None \<Rightarrow> [] | Some d \<Rightarrow> DurableReasons (dep_spec d))\<rparr>))"

definition EnvironmentsHomedOnNode :: "uuid \<Rightarrow> db \<Rightarrow> homed_environment list" where
  "EnvironmentsHomedOnNode nd s =
     sort_key he_app (sort_key he_stack (sort_key he_slug
       (List.map_filter (homed_of s) (filter (\<lambda>e. env_home e = Some nd) (environments s)))))"

record instance_failure =
  if_service :: string
  if_state :: instance_state
  if_error :: string

definition FailedInstances :: "uuid \<Rightarrow> db \<Rightarrow> instance_failure list" where
  "FailedInstances d s =
     map (\<lambda>i. \<lparr>if_service = inst_service i, if_state = inst_state i,
               if_error = (case inst_error i of None \<Rightarrow> [] | Some x \<Rightarrow> x)\<rparr>)
       (sort_key inst_service
         (filter (\<lambda>i. inst_dep i = d \<and> inst_state i \<in> {InstanceFailed, InstanceUnhealthy})
           (service_instances s)))"

section \<open>Effects of the operations\<close>

interpretation bind: keyed_update env_id "\<lambda>e. e\<lparr>env_home := h\<rparr>" for h
  by unfold_locales simp

interpretation report: keyed_update inst_id "observed c ob" for c ob
  by unfold_locales (simp add: observed_def)

definition new_row :: "uuid \<Rightarrow> uuid \<Rightarrow> service_instance \<Rightarrow> bool" where
  "new_row dep nd i \<longleftrightarrow> inst_dep i = dep \<and> inst_node i = nd \<and> inst_state i = InstancePending"

lemma insertInstancesTx_frame_ex:
  assumes "insertInstancesTx c dep nd insts s = Inr s'"
  shows "\<exists>new. s' = s\<lparr>service_instances := service_instances s @ new\<rparr> \<and> (\<forall>i \<in> set new. new_row dep nd i) \<and>
    (new \<noteq> [] \<longrightarrow> get_dep s dep \<noteq> None \<and> get_node s nd \<noteq> None)"
  using assms
proof (induction c dep nd insts s rule: insertInstancesTx.induct)
  case (1 c dep nd s)
  then show ?case by (intro exI [of _ "[]"]) simp
next
  case (2 c dep nd i ni rest s)
  show ?case
  proof (cases "list_ex (\<lambda>r. inst_dep r = dep \<and> inst_service r = ni_service ni) (service_instances s)")
    case True
    with 2(1,3) show ?thesis by simp
  next
    case False
    let ?r = "instance_row c i dep nd ni"
    let ?s1 = "s\<lparr>service_instances := service_instances s @ [?r]\<rparr>"
    from False 2(3) have i: "\<not> list_ex (\<lambda>r. inst_id r = i) (service_instances s)"
      and fk: "\<not> (get_dep s dep = None \<or> get_node s nd = None)"
      and rest: "insertInstancesTx c dep nd rest ?s1 = Inr s'"
      by (auto split: if_splits)
    from 2(2) [OF False i fk rest] obtain new where
      "s' = ?s1\<lparr>service_instances := service_instances ?s1 @ new\<rparr>" "\<forall>i \<in> set new. new_row dep nd i"
      by blast
    with fk show ?thesis
      by (intro exI [of _ "?r # new"]) (auto simp: new_row_def instance_row_def)
  qed
qed

lemma insertInstancesTx_frame:
  assumes "insertInstancesTx c dep nd insts s = Inr s'"
  obtains new where "s' = s\<lparr>service_instances := service_instances s @ new\<rparr>" "\<forall>i \<in> set new. new_row dep nd i"
    "new \<noteq> [] \<Longrightarrow> get_dep s dep \<noteq> None \<and> get_node s nd \<noteq> None"
  using insertInstancesTx_frame_ex [OF assms] by blast

lemma insertInstancesTx_indexes:
  assumes "insertInstancesTx c dep nd insts s = Inr s'" "inst_indexes_ok (service_instances s)"
  shows "inst_indexes_ok (service_instances s')"
  using assms
proof (induction c dep nd insts s rule: insertInstancesTx.induct)
  case (2 c dep nd i ni rest s)
  show ?case
  proof (cases "list_ex (\<lambda>r. inst_dep r = dep \<and> inst_service r = ni_service ni) (service_instances s)")
    case True
    with 2(1,3,4) show ?thesis by simp
  next
    case False
    let ?s1 = "s\<lparr>service_instances := service_instances s @ [instance_row c i dep nd ni]\<rparr>"
    from False 2(3) have i: "\<not> list_ex (\<lambda>r. inst_id r = i) (service_instances s)"
      and fk: "\<not> (get_dep s dep = None \<or> get_node s nd = None)"
      and rest: "insertInstancesTx c dep nd rest ?s1 = Inr s'"
      by (auto split: if_splits)
    have "inst_indexes_ok (service_instances ?s1)"
      using i False 2(4) by (auto simp: inst_indexes_ok_def instance_row_def list_ex_iff)
    with 2(2) [OF False i fk rest] show ?thesis .
  qed
qed simp

definition instance_names :: "uuid \<Rightarrow> service_instance list \<Rightarrow> string set" where
  "instance_names dep t = inst_service ` {i \<in> set t. inst_dep i = dep}"

lemma instance_names_simps [simp]:
  "instance_names dep [] = {}"
  "instance_names dep (t @ u) = instance_names dep t \<union> instance_names dep u"
  "instance_names dep (r # t) = (if inst_dep r = dep then {inst_service r} else {}) \<union> instance_names dep t"
  by (auto simp: instance_names_def)

lemma insertInstancesTx_names:
  assumes "insertInstancesTx c dep nd insts s = Inr s'"
  shows "instance_names dep (service_instances s') =
    instance_names dep (service_instances s) \<union> (ni_service \<circ> snd) ` set insts"
  using assms
proof (induction c dep nd insts s rule: insertInstancesTx.induct)
  case (2 c dep nd i ni rest s)
  show ?case
  proof (cases "list_ex (\<lambda>r. inst_dep r = dep \<and> inst_service r = ni_service ni) (service_instances s)")
    case True
    then have "ni_service ni \<in> instance_names dep (service_instances s)"
      by (auto simp: list_ex_iff instance_names_def image_iff)
    with True 2(1,3) show ?thesis by auto
  next
    case False
    let ?s1 = "s\<lparr>service_instances := service_instances s @ [instance_row c i dep nd ni]\<rparr>"
    from False 2(3) have i: "\<not> list_ex (\<lambda>r. inst_id r = i) (service_instances s)"
      and fk: "\<not> (get_dep s dep = None \<or> get_node s nd = None)"
      and rest: "insertInstancesTx c dep nd rest ?s1 = Inr s'"
      by (auto split: if_splits)
    have "instance_names dep (service_instances ?s1) =
        insert (ni_service ni) (instance_names dep (service_instances s))"
      by (simp add: instance_row_def)
    with 2(2) [OF False i fk rest] show ?thesis by simp
  qed
qed simp

definition add_alloc :: "int \<Rightarrow> int \<Rightarrow> node \<Rightarrow> node" where
  "add_alloc cpu mem r = r\<lparr>node_alloc_cpu := node_alloc_cpu r + cpu, node_alloc_mem := node_alloc_mem r + mem\<rparr>"

lemma PlaceDeployment_ok:
  assumes run: "PlaceDeployment c dep nd insts cpu mem s = Inr (u, s')"
  obtains (not_pending) d where "get_dep s dep = Some d" "dep_state d \<noteq> DeployPending" "s' = s"
  | (placed) d e n s1 ev where
      "get_dep s dep = Some d" "dep_state d = DeployPending" "get_env s (dep_env d) = Some e"
      "env_home e = None \<or> env_home e = Some nd" "get_node s nd = Some n" "\<not> lacks_capacity n cpu mem"
      "insertInstancesTx c dep nd insts s = Inr s1" "in_i32 (node_alloc_cpu n + cpu)" "in_i64 (node_alloc_mem n + mem)"
      "dep_indexes_ok (deployments s')"
      "s' = s\<lparr>environments := (if env_home e = None
                then update_where (\<lambda>r. env_id r = dep_env d) (\<lambda>r. r\<lparr>env_home := Some nd\<rparr>) (environments s)
                else environments s),
              deployments := touch_dep c (\<lambda>r. dep_id r = dep \<and> dep_state r = DeployPending)
                (\<lambda>r. r\<lparr>dep_state := DeployScheduling, dep_failure := None\<rparr>) (deployments s),
              service_instances := service_instances s1,
              nodes := update_where (\<lambda>r. node_id r = nd) (add_alloc cpu mem) (nodes s),
              events := events s @ [ev]\<rparr>"
proof (cases "get_dep s dep")
  case None
  with run show ?thesis by (simp add: PlaceDeployment_def)
next
  case (Some d)
  show ?thesis
  proof (cases "dep_state d = DeployPending")
    case False
    with Some run show ?thesis by (intro not_pending) (auto simp: PlaceDeployment_def)
  next
    case pending: True
    from run Some pending obtain e where e: "get_env s (dep_env d) = Some e"
      by (auto simp: PlaceDeployment_def split: option.splits)
    from run Some pending e have home: "env_home e = None \<or> env_home e = Some nd"
      by (auto simp: PlaceDeployment_def split: if_splits)
    from run Some pending e home obtain n where n: "get_node s nd = Some n"
      by (auto simp: PlaceDeployment_def split: option.splits)
    from run Some pending e home n have cap: "\<not> lacks_capacity n cpu mem"
      by (auto simp: PlaceDeployment_def split: if_splits)
    let ?b = "\<lambda>s1. if env_home e = None then bind_home (dep_env d) nd s1 else s1"
    let ?t = "\<lambda>s2. touch_dep c (\<lambda>r. dep_id r = dep \<and> dep_state r = DeployPending)
        (\<lambda>r. r\<lparr>dep_state := DeployScheduling, dep_failure := None\<rparr>) (deployments s2)"
    from run Some pending e home n cap obtain s1 s2 s4 where
      s1: "insertInstancesTx c dep nd insts s = Inr s1" and s2: "reserve nd cpu mem (?b s1) = Inr s2" and
      ix: "dep_indexes_ok (?t s2)" and
      s4: "appendDeploymentEventTx c dep ''deployment.state_changed'' ''deployment entered scheduling''
        [(''state'', JStr ''scheduling'')] (s2\<lparr>deployments := ?t s2\<rparr>) = Inr s4" and "s' = s4"
      unfolding PlaceDeployment_def by auto
    from s1 obtain new where new: "s1 = s\<lparr>service_instances := service_instances s @ new\<rparr>"
      by (rule insertInstancesTx_frame)
    have node1: "get_node (?b s1) nd = Some n"
      using n by (simp add: new bind_home_def get_node_def)
    from s2 have range: "in_i32 (node_alloc_cpu n + cpu)" "in_i64 (node_alloc_mem n + mem)"
      by (auto simp: reserve_def node1 split: if_splits)
    have s2': "s2 = (?b s1)\<lparr>nodes := update_where (\<lambda>r. node_id r = nd) (add_alloc cpu mem) (nodes s)\<rparr>"
      using s2 by (auto simp: reserve_def node1 new bind_home_def add_alloc_def [abs_def] split: if_splits)
    from s4 obtain ev where "s4 = (s2\<lparr>deployments := ?t s2\<rparr>)\<lparr>events := events (s2\<lparr>deployments := ?t s2\<rparr>) @ [ev]\<rparr>"
      by (rule appendDeploymentEventTx_ok)
    with \<open>s' = s4\<close> have s': "s' = s\<lparr>environments := (if env_home e = None
                then update_where (\<lambda>r. env_id r = dep_env d) (\<lambda>r. r\<lparr>env_home := Some nd\<rparr>) (environments s)
                else environments s),
              deployments := touch_dep c (\<lambda>r. dep_id r = dep \<and> dep_state r = DeployPending)
                (\<lambda>r. r\<lparr>dep_state := DeployScheduling, dep_failure := None\<rparr>) (deployments s),
              service_instances := service_instances s1,
              nodes := update_where (\<lambda>r. node_id r = nd) (add_alloc cpu mem) (nodes s),
              events := events s @ [ev]\<rparr>"
      by (simp add: s2' new bind_home_def)
    moreover from this ix have "dep_indexes_ok (deployments s')" by (simp add: s2' new bind_home_def split: if_splits)
    ultimately show ?thesis
      using placed [OF Some pending e home n cap s1 range] by blast
  qed
qed

lemma DeleteInstances_ok:
  assumes "DeleteInstances dep s = Inr (u, s')"
  obtains d where "get_dep s dep = Some d"
    "s' = s\<lparr>service_instances := delete_where (\<lambda>i. inst_dep i = dep) (service_instances s), nodes := nodes s'\<rparr>"
    "case find_row (\<lambda>i. inst_dep i = dep) (service_instances s) of None \<Rightarrow> nodes s' = nodes s
     | Some i \<Rightarrow> nodes s' = nodes (release_capacity (inst_node i) (dep_spec d) s)"
proof (cases "get_dep s dep")
  case None
  with assms show ?thesis by (simp add: DeleteInstances_def)
next
  case (Some d)
  show ?thesis
  proof (rule that [OF Some])
    show "s' = s\<lparr>service_instances := delete_where (\<lambda>i. inst_dep i = dep) (service_instances s), nodes := nodes s'\<rparr>"
      using assms by (auto simp: DeleteInstances_def Some Let_def release_capacity_def split: option.splits if_splits)
    show "case find_row (\<lambda>i. inst_dep i = dep) (service_instances s) of None \<Rightarrow> nodes s' = nodes s
     | Some i \<Rightarrow> nodes s' = nodes (release_capacity (inst_node i) (dep_spec d) s)"
      using assms by (auto simp: DeleteInstances_def Some Let_def release_capacity_def split: option.splits if_splits)
  qed
qed

lemma ReleaseEnvironmentHome_ok:
  assumes "ReleaseEnvironmentHome c e s = Inr (u, s')"
  obtains r where "get_env s e = Some r" "env_home r = None" "s' = s"
  | r home ev where "get_env s e = Some r" "env_home r = Some home"
      "\<forall>l. env_live r = Some l \<longrightarrow> (\<exists>d. get_dep s l = Some d \<and> DurableReasons (dep_spec d) = [])"
      "s' = s\<lparr>environments := update_where (\<lambda>x. env_id x = e) (\<lambda>x. x\<lparr>env_home := None\<rparr>) (environments s),
             events := events s @ [ev]\<rparr>"
proof (cases "get_env s e")
  case None
  with assms show ?thesis by (simp add: ReleaseEnvironmentHome_def)
next
  case (Some r)
  show ?thesis
  proof (cases "env_home r")
    case None
    with Some assms show ?thesis by (intro that(1)) (auto simp: ReleaseEnvironmentHome_def)
  next
    case home: (Some home)
    let ?s1 = "s\<lparr>environments := update_where (\<lambda>x. env_id x = e) (\<lambda>x. x\<lparr>env_home := None\<rparr>) (environments s)\<rparr>"
    from assms Some home have durable:
      "\<forall>l. env_live r = Some l \<longrightarrow> (\<exists>d. get_dep s l = Some d \<and> DurableReasons (dep_spec d) = [])"
      by (auto simp: ReleaseEnvironmentHome_def split: option.splits if_splits)
    from assms Some home obtain s2 where
      s2: "appendEnvironmentEventTx c e ''environment.home_released''
        ''environment released from its home node'' [(''released_from'', JStr home)] ?s1 = Inr s2" and "s' = s2"
      by (auto simp: ReleaseEnvironmentHome_def split: option.splits if_splits)
    from s2 obtain ev where "s2 = ?s1\<lparr>events := events ?s1 @ [ev]\<rparr>" by (rule appendEnvironmentEventTx_ok)
    with that(2) [OF Some home durable] \<open>s' = s2\<close> show ?thesis by simp
  qed
qed

end
