(* ===== verification/Go_Regexp.thy ===== *)
theory Go_Regexp
  imports Prelude
begin

text \<open>
  The fragment of Go's \<open>regexp\<close> syntax the program uses to validate names: character classes,
  concatenation, alternation, repetition. A pattern anchored with \<open>^..$\<close> is matched by derivatives
  against the whole text; \<open>lang\<close> is its meaning and \<open>re_match_iff\<close> relates the two. The two patterns
  of \<open>internal/store/store.go\<close> are transcribed as they are written.
\<close>

datatype re =
    Nope
  | Eps
  | Cls "char \<Rightarrow> bool"
  | Cat re re
  | Alt re re
  | Star re

fun nullable :: "re \<Rightarrow> bool" where
  "nullable Nope = False"
| "nullable Eps = True"
| "nullable (Cls P) = False"
| "nullable (Cat a b) = (nullable a \<and> nullable b)"
| "nullable (Alt a b) = (nullable a \<or> nullable b)"
| "nullable (Star a) = True"

fun deriv :: "char \<Rightarrow> re \<Rightarrow> re" where
  "deriv c Nope = Nope"
| "deriv c Eps = Nope"
| "deriv c (Cls P) = (if P c then Eps else Nope)"
| "deriv c (Cat a b) = (if nullable a then Alt (Cat (deriv c a) b) (deriv c b) else Cat (deriv c a) b)"
| "deriv c (Alt a b) = Alt (deriv c a) (deriv c b)"
| "deriv c (Star a) = Cat (deriv c a) (Star a)"

fun re_match :: "re \<Rightarrow> string \<Rightarrow> bool" where
  "re_match r [] = nullable r"
| "re_match r (c # s) = re_match (deriv c r) s"

definition Opt :: "re \<Rightarrow> re" where
  "Opt r = Alt r Eps"

definition Plus :: "re \<Rightarrow> re" where
  "Plus r = Cat r (Star r)"

primrec Upto :: "nat \<Rightarrow> re \<Rightarrow> re" where
  "Upto 0 r = Eps"
| "Upto (Suc n) r = Opt (Cat r (Upto n r))"

section \<open>Meaning\<close>

inductive_set star :: "string set \<Rightarrow> string set" for L where
  star_Nil: "[] \<in> star L"
| star_app: "u \<in> L \<Longrightarrow> v \<in> star L \<Longrightarrow> u @ v \<in> star L"

fun lang :: "re \<Rightarrow> string set" where
  "lang Nope = {}"
| "lang Eps = {[]}"
| "lang (Cls P) = {[c] | c. P c}"
| "lang (Cat a b) = {u @ v | u v. u \<in> lang a \<and> v \<in> lang b}"
| "lang (Alt a b) = lang a \<union> lang b"
| "lang (Star a) = star (lang a)"

lemma nullable_iff: "nullable r \<longleftrightarrow> [] \<in> lang r"
  by (induction r) (auto intro: star_Nil)

lemma star_Cons:
  "c # s \<in> star L \<longleftrightarrow> (\<exists>u v. s = u @ v \<and> c # u \<in> L \<and> v \<in> star L)"
proof
  assume "c # s \<in> star L"
  then show "\<exists>u v. s = u @ v \<and> c # u \<in> L \<and> v \<in> star L"
  proof (induction "c # s" arbitrary: c s rule: star.induct)
    case (star_app u v)
    then show ?case by (cases u) auto
  qed
next
  assume "\<exists>u v. s = u @ v \<and> c # u \<in> L \<and> v \<in> star L"
  then show "c # s \<in> star L" using star_app by fastforce
qed

lemma lang_Cat_Cons:
  "c # s \<in> lang (Cat a b) \<longleftrightarrow>
     (\<exists>u v. s = u @ v \<and> c # u \<in> lang a \<and> v \<in> lang b) \<or> ([] \<in> lang a \<and> c # s \<in> lang b)"
  by (auto simp: Cons_eq_append_conv)

lemma deriv_iff: "s \<in> lang (deriv c r) \<longleftrightarrow> c # s \<in> lang r"
proof (induction r arbitrary: s)
  case (Cat a b)
  then show ?case
    unfolding lang_Cat_Cons by (auto simp: nullable_iff)
next
  case (Star a)
  then show ?case by (auto simp: star_Cons)
qed auto

lemma re_match_iff: "re_match r s \<longleftrightarrow> s \<in> lang r"
  by (induction r s rule: re_match.induct) (simp_all add: nullable_iff deriv_iff)

section \<open>Membership, constructor by constructor\<close>

lemma match_Cls [simp]: "s \<in> lang (Cls P) \<longleftrightarrow> (\<exists>c. s = [c] \<and> P c)"
  by auto

lemma lang_Cat_Cls: "s \<in> lang (Cat (Cls P) r) \<longleftrightarrow> (\<exists>c t. s = c # t \<and> P c \<and> t \<in> lang r)"
proof (cases s)
  case (Cons c t)
  then show ?thesis using lang_Cat_Cons [of c t "Cls P" r] by auto
qed auto

lemma lang_Opt [simp]: "lang (Opt r) = insert [] (lang r)"
  by (auto simp: Opt_def)

lemma star_Cls: "star {[c] | c. P c} = {s. list_all P s}"
proof
  show "star {[c] | c. P c} \<subseteq> {s. list_all P s}"
  proof
    fix s assume "s \<in> star {[c] | c. P c}"
    then show "s \<in> {s. list_all P s}" by (induction rule: star.induct) auto
  qed
  show "{s. list_all P s} \<subseteq> star {[c] | c. P c}"
  proof
    fix s assume "s \<in> {s. list_all P s}"
    then show "s \<in> star {[c] | c. P c}"
    proof (induction s)
      case (Cons c s)
      then have "[c] @ s \<in> star {[c] | c. P c}" by (intro star_app) auto
      then show ?case by simp
    qed (simp add: star_Nil)
  qed
qed

lemma lang_Upto_Cls: "s \<in> lang (Upto n (Cls P)) \<longleftrightarrow> length s \<le> n \<and> list_all P s"
proof (induction n arbitrary: s)
  case (Suc n)
  show ?case
  proof (cases s)
    case (Cons c t)
    have "s \<in> lang (Upto (Suc n) (Cls P)) \<longleftrightarrow> P c \<and> t \<in> lang (Upto n (Cls P))"
      by (simp add: Cons lang_Cat_Cls del: lang.simps(4))
    also have "\<dots> \<longleftrightarrow> length s \<le> Suc n \<and> list_all P s"
      unfolding Suc by (auto simp: Cons)
    finally show ?thesis .
  qed simp
qed auto

section \<open>Slugs and hostnames\<close>

definition lower_alnum :: "char \<Rightarrow> bool" where
  "lower_alnum c = (let n = (of_char c :: nat) in (97 \<le> n \<and> n \<le> 122) \<or> (48 \<le> n \<and> n \<le> 57))"

definition lower_alnum_dash :: "char \<Rightarrow> bool" where
  "lower_alnum_dash c \<longleftrightarrow> lower_alnum c \<or> c = CHR ''-''"

definition slugPattern :: re where
  "slugPattern =
     Cat (Cls lower_alnum) (Opt (Cat (Star (Cls lower_alnum_dash)) (Cls lower_alnum)))"

definition host_label :: re where
  "host_label =
     Cat (Cls lower_alnum) (Opt (Cat (Upto 61 (Cls lower_alnum_dash)) (Cls lower_alnum)))"

definition hostnamePattern :: re where
  "hostnamePattern = Cat host_label (Star (Cat (Cls (\<lambda>c. c = CHR ''.'')) host_label))"

lemma snoc_ex: "(\<exists>u v. s = u @ v \<and> P u \<and> (\<exists>c. v = [c] \<and> Q c)) \<longleftrightarrow> s \<noteq> [] \<and> P (butlast s) \<and> Q (last s)"
  by (metis append_butlast_last_id append_is_Nil_conv butlast_snoc last_snoc not_Cons_self2)

lemma dashed_iff:
  "s \<in> lang (Cat (Cls lower_alnum) (Opt (Cat r (Cls lower_alnum)))) \<longleftrightarrow>
     s \<noteq> [] \<and> lower_alnum (hd s) \<and> lower_alnum (last s) \<and>
     (tl s \<noteq> [] \<longrightarrow> butlast (tl s) \<in> lang r)"
proof (cases s)
  case (Cons c t)
  have "s \<in> lang (Cat (Cls lower_alnum) (Opt (Cat r (Cls lower_alnum)))) \<longleftrightarrow>
      lower_alnum c \<and> (t = [] \<or> (\<exists>u v. t = u @ v \<and> u \<in> lang r \<and> (\<exists>d. v = [d] \<and> lower_alnum d)))"
    unfolding lang_Cat_Cls by (auto simp: Cons)
  then show ?thesis unfolding snoc_ex by (auto simp: Cons)
qed simp

text \<open>
  The slug pattern says: non-empty, lower case letters, digits and dashes, no dash at either end.
\<close>

lemma slug_iff:
  "re_match slugPattern s \<longleftrightarrow>
     s \<noteq> [] \<and> list_all lower_alnum_dash s \<and> lower_alnum (hd s) \<and> lower_alnum (last s)"
proof (cases s)
  case (Cons c t)
  have "list_all lower_alnum_dash s" if "lower_alnum (hd s)" "lower_alnum (last s)"
      "tl s \<noteq> [] \<longrightarrow> list_all lower_alnum_dash (butlast (tl s))"
  proof (cases t rule: rev_cases)
    case (snoc u d)
    with that Cons show ?thesis by (auto simp: lower_alnum_dash_def)
  qed (use that Cons in \<open>auto simp: lower_alnum_dash_def\<close>)
  moreover have "list_all lower_alnum_dash (butlast (tl s))" if "list_all lower_alnum_dash s"
    using that by (simp add: list_all_iff Cons in_set_butlastD)
  ultimately show ?thesis
    unfolding re_match_iff slugPattern_def dashed_iff by (auto simp: star_Cls)
qed (simp add: slugPattern_def re_match_iff)

lemma host_label_chars: "s \<in> lang host_label \<Longrightarrow> s \<noteq> [] \<and> length s \<le> 63 \<and> list_all lower_alnum_dash s"
proof -
  assume h: "s \<in> lang host_label"
  then obtain c t where s: "s = c # t" by (cases s) (auto simp: host_label_def)
  from h have c: "lower_alnum c" "lower_alnum (last s)"
    and t: "t \<noteq> [] \<longrightarrow> length (butlast t) \<le> 61 \<and> list_all lower_alnum_dash (butlast t)"
    unfolding host_label_def dashed_iff by (auto simp: s lang_Upto_Cls)
  show ?thesis
  proof (cases t rule: rev_cases)
    case Nil
    with c show ?thesis by (simp add: s lower_alnum_dash_def)
  next
    case (snoc u d)
    with c t show ?thesis by (auto simp: s lower_alnum_dash_def)
  qed
qed

definition host_char :: "char \<Rightarrow> bool" where
  "host_char c \<longleftrightarrow> lower_alnum_dash c \<or> c = CHR ''.''"

lemma hostname_chars: "re_match hostnamePattern s \<Longrightarrow> s \<noteq> [] \<and> list_all host_char s"
proof -
  assume "re_match hostnamePattern s"
  then obtain u v where s: "s = u @ v" and u: "u \<in> lang host_label"
    and v: "v \<in> star (lang (Cat (Cls (\<lambda>c. c = CHR ''.'')) host_label))"
    by (auto simp: re_match_iff hostnamePattern_def)
  from v have "list_all host_char v"
  proof (induction rule: star.induct)
    case (star_app a b)
    then show ?case
      by (auto simp: host_char_def list_all_iff dest!: host_label_chars)
  qed simp
  with host_label_chars [OF u] show ?thesis
    by (auto simp: s host_char_def list_all_iff)
qed

end
