(* ===== verification/Store_Catalog.thy ===== *)
theory Store_Catalog
  imports Store_Instances Go_Regexp
begin

text \<open>
  The catalog of \<open>internal/store/catalog.go\<close> and \<open>stacks.go\<close> (organizations, applications, stacks,
  stack versions, environments), the validation of slugs and hostnames of \<open>store.go\<close>, and the life of
  preview environments of \<open>previews.go\<close>: creation with inherited secrets, expiry with tombstones,
  the sweep of tombstones and the claim of expiry warnings.

  The identifiers of new rows are arguments. The digest of a specification is an argument too: it is
  a hash of the JSON encoding of the specification.
\<close>

section \<open>Validation\<close>

definition maxSlugLen :: nat where
  "maxSlugLen = 63"

definition validateSlug :: "string \<Rightarrow> string \<Rightarrow> store_error option" where
  "validateSlug field sl =
     (if sl = [] then Some (ErrInvalid (field @ '' is required''))
      else if length sl > maxSlugLen then Some (ErrInvalid (field @ '' must be at most 63 characters''))
      else if \<not> re_match slugPattern sl
        then Some (ErrInvalid (field @ '' must be lowercase alphanumeric with internal dashes, e.g. '' @ quote ''my-app''))
      else None)"

definition maxHostnameLen :: nat where
  "maxHostnameLen = 253"

definition validateHostname :: "string \<Rightarrow> store_error option" where
  "validateHostname h =
     (if h = [] then None
      else if length h > maxHostnameLen then Some (ErrInvalid ''hostname must be at most 253 characters'')
      else if \<not> re_match hostnamePattern h then Some (ErrInvalid ''hostname must be a lowercase DNS name'')
      else None)"

section \<open>Organizations, applications, stacks\<close>

definition CreateOrganization ::
  "call \<Rightarrow> uuid \<Rightarrow> string \<Rightarrow> string \<Rightarrow> db \<Rightarrow> store_error + (organization \<times> db)" where
  "CreateOrganization c new_id sl name s =
     (case validateSlug ''slug'' sl of
        Some e \<Rightarrow> Inl e
      | None \<Rightarrow>
          let r = \<lparr>org_id = new_id, org_slug = sl, org_name = name, org_preview_domain = None,
                   org_created_at = now c\<rparr> in
          if list_ex (\<lambda>x. org_id x = new_id \<or> org_slug x = sl) (organizations s) then Inl (mapErr DbUnique)
          else Inr (r, s\<lparr>organizations := organizations s @ [r]\<rparr>))"

definition CreateApplication ::
  "call \<Rightarrow> uuid \<Rightarrow> uuid \<Rightarrow> string \<Rightarrow> string \<Rightarrow> db \<Rightarrow> store_error + (application \<times> db)" where
  "CreateApplication c new_id org sl name s =
     (case validateSlug ''slug'' sl of
        Some e \<Rightarrow> Inl e
      | None \<Rightarrow>
          let r = \<lparr>app_id = new_id, app_org_id = org, app_slug = sl, app_name = name, app_created_at = now c\<rparr> in
          if list_ex (\<lambda>x. app_id x = new_id \<or> (app_org_id x = org \<and> app_slug x = sl)) (applications s)
          then Inl (mapErr DbUnique)
          else if get_org s org = None then Inl (mapErr DbForeignKey)
          else Inr (r, s\<lparr>applications := applications s @ [r]\<rparr>))"

definition CreateStack :: "call \<Rightarrow> uuid \<Rightarrow> uuid \<Rightarrow> string \<Rightarrow> db \<Rightarrow> store_error + (stack \<times> db)" where
  "CreateStack c new_id app sl s =
     (case validateSlug ''slug'' sl of
        Some e \<Rightarrow> Inl e
      | None \<Rightarrow>
          let r = \<lparr>stk_id = new_id, stk_app_id = app, stk_slug = sl, stk_created_at = now c\<rparr> in
          if list_ex (\<lambda>x. stk_id x = new_id \<or> (stk_app_id x = app \<and> stk_slug x = sl)) (stacks s)
          then Inl (mapErr DbUnique)
          else if get_app s app = None then Inl (mapErr DbForeignKey)
          else Inr (r, s\<lparr>stacks := stacks s @ [r]\<rparr>))"

section \<open>Stack versions\<close>

definition LatestStackVersion :: "uuid \<Rightarrow> db \<Rightarrow> store_error + stack_version" where
  "LatestStackVersion st s =
     (case sort_key (\<lambda>v. - sv_version v) (filter (\<lambda>v. sv_stack_id v = st) (stack_versions s)) of
        [] \<Rightarrow> Inl ErrNotFound
      | v # _ \<Rightarrow> Inr v)"

definition insert_stack_version ::
  "(deployment_spec \<Rightarrow> string) \<Rightarrow> call \<Rightarrow> uuid \<Rightarrow> uuid \<Rightarrow> string \<Rightarrow> deployment_spec \<Rightarrow> string \<Rightarrow> db \<Rightarrow>
   store_error + (stack_version \<times> db)" where
  "insert_stack_version digest c new_id st raw dspec created_by s =
     (let v = max_or_0 (map sv_version (filter (\<lambda>v. sv_stack_id v = st) (stack_versions s))) + 1;
          r = \<lparr>sv_id = new_id, sv_stack_id = st, sv_version = v, sv_raw_compose = raw,
               sv_spec = json_spec dspec, sv_digest = digest dspec, sv_created_by = created_by,
               sv_created_at = now c\<rparr>
      in if \<not> in_i32 v then Inl (DbOther ''integer out of range'')
         else if list_ex (\<lambda>x. sv_id x = new_id) (stack_versions s) then Inl (mapErr DbUnique)
         else if get_stack s st = None then Inl (mapErr DbForeignKey)
         else Inr (r\<lparr>sv_spec := dspec\<rparr>, s\<lparr>stack_versions := stack_versions s @ [r]\<rparr>))"

definition CreateStackVersion ::
  "(deployment_spec \<Rightarrow> string) \<Rightarrow> call \<Rightarrow> uuid \<Rightarrow> uuid \<Rightarrow> string \<Rightarrow> deployment_spec \<Rightarrow> string \<Rightarrow> db \<Rightarrow>
   store_error + (stack_version \<times> db)" where
  "CreateStackVersion digest c new_id st raw dspec created_by s =
     (case LatestStackVersion st s of
        Inr latest \<Rightarrow>
          if sv_digest latest = digest dspec then Inr (latest, s)
          else insert_stack_version digest c new_id st raw dspec created_by s
      | Inl e \<Rightarrow>
          if e \<noteq> ErrNotFound then Inl e
          else insert_stack_version digest c new_id st raw dspec created_by s)"

definition getStackVersion :: "uuid \<Rightarrow> uuid option \<Rightarrow> db \<Rightarrow> store_error + stack_version" where
  "getStackVersion i st s =
     (case find_row (\<lambda>v. sv_id v = i \<and> (st = None \<or> st = Some (sv_stack_id v))) (stack_versions s) of
        None \<Rightarrow> Inl ErrNotFound
      | Some v \<Rightarrow> Inr v)"

definition ListStackVersions :: "uuid \<Rightarrow> int \<Rightarrow> db \<Rightarrow> stack_version list" where
  "ListStackVersions st limit s =
     take (list_limit limit)
       (sort_key (\<lambda>v. - sv_version v) (filter (\<lambda>v. sv_stack_id v = st) (stack_versions s)))"

section \<open>Environments\<close>

record create_environment_params =
  ce_stack :: uuid
  ce_slug :: string
  ce_strategy :: string
  ce_hostname :: string
  ce_config :: "string gomap"

text \<open>A statement that inserts into the environments table, with its indexes and foreign key.\<close>

definition insert_environment :: "environment \<Rightarrow> db \<Rightarrow> store_error + db" where
  "insert_environment e s =
     (if \<not> env_indexes_ok (environments s @ [e]) then Inl DbUnique
      else if get_stack s (env_stack_id e) = None then Inl DbForeignKey
      else Inr (s\<lparr>environments := environments s @ [e]\<rparr>))"

definition CreateEnvironment ::
  "call \<Rightarrow> uuid \<Rightarrow> create_environment_params \<Rightarrow> db \<Rightarrow> store_error + (environment \<times> db)" where
  "CreateEnvironment c new_id p s =
     (case validateSlug ''slug'' (ce_slug p) of
        Some e \<Rightarrow> Inl e
      | None \<Rightarrow> (case validateHostname (ce_hostname p) of
          Some e \<Rightarrow> Inl e
        | None \<Rightarrow>
            if ce_strategy p \<noteq> [] \<and> ce_strategy p \<noteq> ''blue_green''
            then Inl (ErrInvalid (''rollout strategy '' @ quote (ce_strategy p) @
                   '' is not supported; use '' @ quote ''blue_green''))
            else
              let e = \<lparr>env_id = new_id, env_stack_id = ce_stack p, env_slug = ce_slug p,
                       env_strategy = BlueGreen, env_hostname = nullif (ce_hostname p),
                       env_config = ce_config p, env_live = None, env_ephemeral = False,
                       env_expires_at = None, env_warned_at = None, env_home = None,
                       env_created_at = now c\<rparr>
              in (case insert_environment e s of
                    Inl err \<Rightarrow> Inl (mapErr err)
                  | Inr s1 \<Rightarrow> Inr (e, s1))))"

definition GetEnvironment :: "uuid \<Rightarrow> db \<Rightarrow> store_error + (environment \<times> string)" where
  "GetEnvironment i s =
     (case get_env s i of
        None \<Rightarrow> Inl ErrNotFound
      | Some e \<Rightarrow> Inr (e, (case env_home e of None \<Rightarrow> [] | Some h \<Rightarrow>
          (case get_node s h of None \<Rightarrow> [] | Some n \<Rightarrow> node_hostname n))))"

definition GetEnvironmentBySlug :: "uuid \<Rightarrow> string \<Rightarrow> db \<Rightarrow> store_error + environment" where
  "GetEnvironmentBySlug st sl s =
     (case find_row (\<lambda>e. env_stack_id e = st \<and> env_slug e = sl) (environments s) of
        None \<Rightarrow> Inl ErrNotFound
      | Some e \<Rightarrow> Inr e)"

definition ListEnvironments :: "uuid \<Rightarrow> db \<Rightarrow> environment list" where
  "ListEnvironments st s = sort_key env_slug (filter (\<lambda>e. env_stack_id e = st) (environments s))"

section \<open>Previews\<close>

record create_preview_params =
  cp_env :: uuid
  cp_stack :: uuid
  cp_slug :: string
  cp_hostname :: string
  cp_ttl :: int
  cp_inherit :: "uuid option"
  cp_version :: uuid
  cp_spec :: deployment_spec
  cp_created_by :: string

text \<open>
  The newest version of every secret of the source environment, as version 1 of the new one. \<open>ids\<close>
  are the identifiers of the new rows.
\<close>

definition inherited_secrets ::
  "call \<Rightarrow> uuid list \<Rightarrow> uuid \<Rightarrow> uuid \<Rightarrow> db \<Rightarrow> secret_row list" where
  "inherited_secrets c ids src e s =
     map (\<lambda>(i, r). r\<lparr>sec_id := i, sec_env := e, sec_version := 1, sec_created_at := now c\<rparr>)
       (zip ids (filter (\<lambda>r. sec_env r = src \<and> newest s r) (secrets s)))"

definition inherit_secrets ::
  "call \<Rightarrow> uuid list \<Rightarrow> uuid option \<Rightarrow> uuid \<Rightarrow> db \<Rightarrow> store_error + db" where
  "inherit_secrets c ids src e s =
     (case src of
        None \<Rightarrow> Inr s
      | Some x \<Rightarrow>
          let t = secrets s @ inherited_secrets c ids x e s
          in if secret_indexes_ok t then Inr (s\<lparr>secrets := t\<rparr>) else Inl DbUnique)"

definition CreatePreview ::
  "call \<Rightarrow> uuid \<Rightarrow> uuid list \<Rightarrow> create_preview_params \<Rightarrow> db \<Rightarrow>
   store_error + ((environment \<times> deployment) \<times> db)" where
  "CreatePreview c dep_new_id secret_ids p s =
     (case validateSlug ''slug'' (cp_slug p) of
        Some e \<Rightarrow> Inl e
      | None \<Rightarrow> (case validateHostname (cp_hostname p) of
          Some e \<Rightarrow> Inl e
        | None \<Rightarrow>
            let e = \<lparr>env_id = cp_env p, env_stack_id = cp_stack p, env_slug = cp_slug p,
                     env_strategy = BlueGreen, env_hostname = nullif (cp_hostname p), env_config = [],
                     env_live = None, env_ephemeral = True, env_expires_at = Some (now c + cp_ttl p),
                     env_warned_at = None, env_home = None, env_created_at = now c\<rparr>
            in map_result
              (case insert_environment e s of
                 Inl err \<Rightarrow> Inl err
               | Inr s1 \<Rightarrow> (case inherit_secrets c secret_ids (cp_inherit p) (cp_env p) s1 of
                   Inl err \<Rightarrow> Inl err
                 | Inr s2 \<Rightarrow> (case createDeploymentTx c dep_new_id
                         \<lparr>cd_env = cp_env p, cd_version = cp_version p, cd_spec = cp_spec p,
                          cd_created_by = cp_created_by p\<rparr> s2 of
                     Inl err \<Rightarrow> Inl err
                   | Inr (d, s3) \<Rightarrow> Inr ((e, d), s3))))))"

section \<open>Expiry\<close>

text \<open>
  \<open>DELETE FROM environments\<close> with the cascades of the schema: deployments, their instances, the
  secrets of the environment; events keep their row and lose the reference.
\<close>

definition delete_environment :: "uuid \<Rightarrow> db \<Rightarrow> db" where
  "delete_environment e s =
     (let gone = map dep_id (filter (\<lambda>d. dep_env d = e) (deployments s)) in
      s\<lparr>environments := delete_where (\<lambda>r. env_id r = e) (environments s),
        deployments := delete_where (\<lambda>d. dep_env d = e) (deployments s),
        service_instances := delete_where (\<lambda>i. inst_dep i \<in> set gone) (service_instances s),
        secrets := delete_where (\<lambda>r. sec_env r = e) (secrets s),
        events := update_where (\<lambda>v. case ev_dep v of None \<Rightarrow> False | Some d \<Rightarrow> d \<in> set gone)
                    (\<lambda>v. v\<lparr>ev_dep := None\<rparr>) (events s)\<rparr>)"

definition add_tombstone :: "call \<Rightarrow> string \<Rightarrow> uuid \<Rightarrow> db \<Rightarrow> db" where
  "add_tombstone c env8 org s =
     (if list_ex (\<lambda>t. tomb_env8 t = env8) (tombstones s) then s
      else s\<lparr>tombstones := tombstones s @ [\<lparr>tomb_env8 = env8, tomb_org = org, tomb_created_at = now c\<rparr>]\<rparr>)"

definition expired :: "call \<Rightarrow> environment \<Rightarrow> bool" where
  "expired c e \<longleftrightarrow> env_ephemeral e \<and> (case env_expires_at e of None \<Rightarrow> False | Some t \<Rightarrow> t < now c)"

definition expiry_victims :: "call \<Rightarrow> uuid option \<Rightarrow> db \<Rightarrow> (uuid \<times> uuid) list" where
  "expiry_victims c org s =
     List.map_filter (\<lambda>e. case org_of_stack s (env_stack_id e) of
         None \<Rightarrow> None
       | Some o1 \<Rightarrow> if expired c e \<and> (org = None \<or> org = Some o1) then Some (env_id e, o1) else None)
       (environments s)"

fun reap_victims :: "call \<Rightarrow> (uuid \<times> uuid) list \<Rightarrow> db \<Rightarrow> store_error + (string list \<times> db)" where
  "reap_victims c [] s = Inr ([], s)"
| "reap_victims c ((e, org) # rest) s =
     (case appendEventTx c org None None ''preview.expired'' ''preview environment expired''
             [(''environment_id'', JStr e), (''env8'', JStr (shortID e))] s of
        Inl err \<Rightarrow> Inl err
      | Inr s1 \<Rightarrow>
          (case reap_victims c rest (delete_environment e (add_tombstone c (shortID e) org s1)) of
             Inl err \<Rightarrow> Inl err
           | Inr (done1, s2) \<Rightarrow> Inr (shortID e # done1, s2)))"

definition expireEnvironments :: "call \<Rightarrow> uuid option \<Rightarrow> db \<Rightarrow> store_error + (string list \<times> db)" where
  "expireEnvironments c org s = map_result (reap_victims c (expiry_victims c org s) s)"

text \<open>\<open>ORDER BY t.created_at DESC\<close>.\<close>

definition TombstonesForNode :: "call \<Rightarrow> uuid \<Rightarrow> int \<Rightarrow> db \<Rightarrow> string list" where
  "TombstonesForNode c nd max_age s =
     (case get_node s nd of
        None \<Rightarrow> []
      | Some n \<Rightarrow> map tomb_env8 (sort_key (\<lambda>t. - tomb_created_at t)
          (filter (\<lambda>t. tomb_org t = node_org n \<and> tomb_created_at t > now c - max_age) (tombstones s))))"

definition sweepTombstones :: "call \<Rightarrow> uuid option \<Rightarrow> int \<Rightarrow> db \<Rightarrow> db" where
  "sweepTombstones c org max_age s =
     s\<lparr>tombstones := delete_where (\<lambda>t. tomb_created_at t < now c - max_age \<and>
         (org = None \<or> org = Some (tomb_org t))) (tombstones s)\<rparr>"

definition claimable :: "call \<Rightarrow> int \<Rightarrow> uuid option \<Rightarrow> db \<Rightarrow> environment \<Rightarrow> bool" where
  "claimable c within org s e \<longleftrightarrow>
     env_ephemeral e \<and> env_warned_at e = None \<and>
     (case env_expires_at e of None \<Rightarrow> False | Some t \<Rightarrow> t > now c \<and> t < now c + within) \<and>
     (case org_of_stack s (env_stack_id e) of None \<Rightarrow> False | Some o1 \<Rightarrow> org = None \<or> org = Some o1)"

definition claimPreviewsForExpiryWarning ::
  "call \<Rightarrow> int \<Rightarrow> uuid option \<Rightarrow> db \<Rightarrow> (uuid \<times> time) list \<times> db" where
  "claimPreviewsForExpiryWarning c within org s =
     (map (\<lambda>e. (env_id e, the (env_expires_at e))) (filter (claimable c within org s) (environments s)),
      s\<lparr>environments := update_where (claimable c within org s)
          (\<lambda>e. e\<lparr>env_warned_at := Some (now c)\<rparr>) (environments s)\<rparr>)"

end
