(* ===== verification/Store_Invariant.thy ===== *)
theory Store_Invariant
  imports Store_Catalog
begin

text \<open>
  The transition system of the control plane's database: every call of the store that the program
  makes, as one step of \<open>store_step\<close>, and the invariants every reachable database satisfies. The
  invariant is split into parts that depend on few tables, so that each operation only has to be
  checked against the parts whose tables it writes.
\<close>

section \<open>Invariant systems\<close>

locale invariant_system =
  fixes init :: "'s \<Rightarrow> bool" and step :: "'s \<Rightarrow> 's \<Rightarrow> bool" and inv :: "'s \<Rightarrow> bool"
  assumes init_inv: "init s \<Longrightarrow> inv s"
    and step_inv: "inv s \<Longrightarrow> step s t \<Longrightarrow> inv t"
begin

lemma steps_inv: "step\<^sup>*\<^sup>* s t \<Longrightarrow> inv s \<Longrightarrow> inv t"
  by (induction rule: rtranclp_induct) (auto intro: step_inv)

lemma reachable_inv: "init s \<Longrightarrow> step\<^sup>*\<^sup>* s t \<Longrightarrow> inv t"
  by (blast intro: init_inv steps_inv)

lemma steps_relation:
  assumes "step\<^sup>*\<^sup>* s t" "inv s"
    and refl: "\<And>s. R s s" and trans: "\<And>s t u. R s t \<Longrightarrow> R t u \<Longrightarrow> R s u"
    and one: "\<And>s t. inv s \<Longrightarrow> step s t \<Longrightarrow> R s t"
  shows "R s t"
  using assms(1,2)
proof (induction rule: rtranclp_induct)
  case (step y z)
  then show ?case using steps_inv one trans by blast
qed (rule refl)

end

section \<open>The live pointer\<close>

definition live_inv :: "environment list \<Rightarrow> deployment list \<Rightarrow> bool" where
  "live_inv E D \<longleftrightarrow>
     distinct (map env_id E) \<and>
     (\<forall>d \<in> set D. \<exists>e \<in> set E. env_id e = dep_env d) \<and>
     (\<forall>e \<in> set E. \<forall>i. env_live e = Some i \<longrightarrow>
        (\<exists>d \<in> set D. dep_id d = i \<and> dep_env d = env_id e \<and> dep_state d = DeployLive)) \<and>
     (\<forall>d \<in> set D. dep_state d = DeployLive \<longrightarrow>
        (\<exists>e \<in> set E. env_id e = dep_env d \<and> env_live e = Some (dep_id d)))"

lemma live_invI:
  assumes "distinct (map env_id E)"
    and "\<And>d. d \<in> set D \<Longrightarrow> \<exists>e \<in> set E. env_id e = dep_env d"
    and "\<And>e i. e \<in> set E \<Longrightarrow> env_live e = Some i \<Longrightarrow>
        \<exists>d \<in> set D. dep_id d = i \<and> dep_env d = env_id e \<and> dep_state d = DeployLive"
    and "\<And>d. d \<in> set D \<Longrightarrow> dep_state d = DeployLive \<Longrightarrow>
        \<exists>e \<in> set E. env_id e = dep_env d \<and> env_live e = Some (dep_id d)"
  shows "live_inv E D"
  using assms unfolding live_inv_def by blast

lemma live_inv_distinct: "live_inv E D \<Longrightarrow> distinct (map env_id E)"
  by (simp add: live_inv_def)

lemma live_inv_env: "live_inv E D \<Longrightarrow> d \<in> set D \<Longrightarrow> \<exists>e \<in> set E. env_id e = dep_env d"
  by (simp add: live_inv_def)

lemma live_inv_pointer:
  "live_inv E D \<Longrightarrow> e \<in> set E \<Longrightarrow> env_live e = Some i \<Longrightarrow>
     \<exists>d \<in> set D. dep_id d = i \<and> dep_env d = env_id e \<and> dep_state d = DeployLive"
  by (simp add: live_inv_def)

lemma live_inv_live:
  "live_inv E D \<Longrightarrow> d \<in> set D \<Longrightarrow> dep_state d = DeployLive \<Longrightarrow>
     \<exists>e \<in> set E. env_id e = dep_env d \<and> env_live e = Some (dep_id d)"
  by (simp add: live_inv_def)

lemma live_inv_append_dep:
  assumes "live_inv E D" "e \<in> set E" "env_id e = dep_env d" "dep_state d \<noteq> DeployLive"
  shows "live_inv E (D @ [d])"
  using assms unfolding live_inv_def by auto

lemma live_inv_map_dep:
  assumes "live_inv E D"
    and "\<And>d. dep_id (g d) = dep_id d" "\<And>d. dep_env (g d) = dep_env d"
    and "\<And>d. dep_state (g d) = DeployLive \<longleftrightarrow> dep_state d = DeployLive"
  shows "live_inv E (map g D)"
  using assms unfolding live_inv_def by simp

lemma live_inv_map_env:
  assumes "live_inv E D" "\<And>e. env_id (h e) = env_id e" "\<And>e. env_live (h e) = env_live e"
  shows "live_inv (map h E) D"
  using assms unfolding live_inv_def by (simp add: comp_def)

lemma live_inv_append_env:
  assumes inv: "live_inv E D" and new: "env_id e \<notin> env_id ` set E" "env_live e = None"
  shows "live_inv (E @ [e]) D"
proof (rule live_invI)
  show "distinct (map env_id (E @ [e]))"
    using live_inv_distinct [OF inv] new by simp
qed (use new live_inv_env [OF inv] live_inv_pointer [OF inv] live_inv_live [OF inv] in \<open>fastforce+\<close>)

lemma live_inv_delete_env:
  assumes inv: "live_inv E D"
  shows "live_inv (delete_where (\<lambda>e. env_id e = x) E) (delete_where (\<lambda>d. dep_env d = x) D)"
proof (rule live_invI)
  show "distinct (map env_id (delete_where (\<lambda>e. env_id e = x) E))"
    using live_inv_distinct [OF inv] by (simp add: delete_where_def distinct_map_filter)
qed (use live_inv_env [OF inv] live_inv_pointer [OF inv] live_inv_live [OF inv] in \<open>fastforce+\<close>)

lemma live_inv_unique:
  assumes "live_inv E D" "d \<in> set D" "d' \<in> set D" "dep_state d = DeployLive" "dep_state d' = DeployLive"
    "dep_env d = dep_env d'"
  shows "dep_id d = dep_id d'"
proof -
  obtain e where e: "e \<in> set E" "env_id e = dep_env d" "env_live e = Some (dep_id d)"
    using assms unfolding live_inv_def by blast
  obtain e' where e': "e' \<in> set E" "env_id e' = dep_env d'" "env_live e' = Some (dep_id d')"
    using assms unfolding live_inv_def by blast
  have "distinct (map env_id E)" using assms by (simp add: live_inv_def)
  with e e' assms(6) have "e = e'" by (auto simp: distinct_map inj_on_def)
  with e e' show ?thesis by simp
qed

lemma promoted_row_simps [simp]:
  "dep_id (promoted_row c prev i d) = dep_id d"
  "dep_env (promoted_row c prev i d) = dep_env d"
  "dep_spec (promoted_row c prev i d) = dep_spec d"
  "dep_revision (promoted_row c prev i d) = dep_revision d"
  "dep_slot (promoted_row c prev i d) = dep_slot d"
  "dep_project (promoted_row c prev i d) = dep_project d"
  "dep_version (promoted_row c prev i d) = dep_version d"
  "dep_created_at (promoted_row c prev i d) = dep_created_at d"
  by (simp_all add: promoted_row_def superseded_row_def Let_def)

lemma superseded_row_simps [simp]:
  "dep_id (superseded_row c prev d) = dep_id d"
  "dep_env (superseded_row c prev d) = dep_env d"
  by (simp_all add: superseded_row_def)

lemma promoted_row_state:
  "dep_state (promoted_row c prev i d) =
     (if dep_id d = i then DeployLive
      else if prev = Some (dep_id d) \<and> dep_state d = DeployLive then DeploySuperseded
      else dep_state d)"
  by (simp add: promoted_row_def superseded_row_def Let_def)

lemma live_inv_promote:
  assumes inv: "live_inv E D" and ids: "distinct (map dep_id D)"
    and d: "d \<in> set D" "dep_id d = i" and e: "e \<in> set E" "env_id e = dep_env d"
  shows "live_inv (update_where (\<lambda>r. env_id r = dep_env d) (\<lambda>r. r\<lparr>env_live := Some i\<rparr>) E)
           (map (promoted_row c (env_live e) i) D)"
    (is "live_inv ?E ?D")
proof (rule live_invI)
  have same_dep: "x = y" if "x \<in> set D" "y \<in> set D" "dep_id x = dep_id y" for x y
    using ids that by (auto simp: distinct_map inj_on_def)
  have same_env: "x = y" if "x \<in> set E" "y \<in> set E" "env_id x = env_id y" for x y
    using live_inv_distinct [OF inv] that by (auto simp: distinct_map inj_on_def)
  show "distinct (map env_id ?E)"
    using live_inv_distinct [OF inv] by (simp add: set_live.map_key)
  show "\<exists>r \<in> set ?E. env_id r = dep_env x" if "x \<in> set ?D" for x
  proof -
    from that obtain x0 where "x0 \<in> set D" "dep_env x = dep_env x0" by auto
    with live_inv_env [OF inv] obtain r where "r \<in> set E" "env_id r = dep_env x" by metis
    then show ?thesis unfolding bex_update_where by (intro bexI [of _ r]) auto
  qed
  show "\<exists>x \<in> set ?D. dep_id x = j \<and> dep_env x = env_id r \<and> dep_state x = DeployLive"
    if r: "r \<in> set ?E" and j: "env_live r = Some j" for r j
  proof -
    from r obtain r0 where r0: "r0 \<in> set E"
      and r_eq: "r = (if env_id r0 = dep_env d then r0\<lparr>env_live := Some i\<rparr> else r0)"
      by (auto simp: in_update_where)
    show ?thesis
    proof (cases "env_id r0 = dep_env d")
      case True
      with r_eq j d show ?thesis
        by (intro bexI [of _ "promoted_row c (env_live e) i d"]) (auto simp: promoted_row_state)
    next
      case False
      with r_eq j obtain x where x: "x \<in> set D" "dep_id x = j" "dep_env x = env_id r0" "dep_state x = DeployLive"
        using live_inv_pointer [OF inv r0] by auto
      have "env_live e \<noteq> Some (dep_id x)"
      proof
        assume "env_live e = Some (dep_id x)"
        then obtain y where "y \<in> set D" "dep_id y = dep_id x" "dep_env y = env_id e"
          using live_inv_pointer [OF inv e(1)] by blast
        with same_dep x(1,3) e(2) False show False by metis
      qed
      with x False r_eq show ?thesis
        by (intro bexI [of _ "promoted_row c (env_live e) i x"]) (auto simp: promoted_row_state)
    qed
  qed
  show "\<exists>r \<in> set ?E. env_id r = dep_env x \<and> env_live r = Some (dep_id x)"
    if x: "x \<in> set ?D" and live: "dep_state x = DeployLive" for x
  proof -
    from x obtain x0 where x0: "x0 \<in> set D" and x_eq: "x = promoted_row c (env_live e) i x0" by auto
    show ?thesis
    proof (cases "dep_id x0 = i")
      case True
      with same_dep x0 d have "x0 = d" by blast
      with x_eq e d show ?thesis unfolding bex_update_where by (intro bexI [of _ e]) auto
    next
      case False
      with live x_eq have live0: "dep_state x0 = DeployLive" and ne: "env_live e \<noteq> Some (dep_id x0)"
        by (auto simp: promoted_row_state split: if_splits)
      from live_inv_live [OF inv x0 live0] obtain r where
        r: "r \<in> set E" "env_id r = dep_env x0" "env_live r = Some (dep_id x0)" by blast
      have "env_id r \<noteq> dep_env d"
      proof
        assume "env_id r = dep_env d"
        with same_env r(1) e have "r = e" by metis
        with r(3) ne show False by simp
      qed
      with r x_eq show ?thesis unfolding bex_update_where by (intro bexI [of _ r]) auto
    qed
  qed
qed

section \<open>The other parts of the invariant\<close>

definition place_inv :: "deployment list \<Rightarrow> service_instance list \<Rightarrow> bool" where
  "place_inv D I \<longleftrightarrow>
     (\<forall>i \<in> set I. \<exists>d \<in> set D. dep_id d = inst_dep i) \<and>
     (\<forall>i \<in> set I. \<forall>j \<in> set I. inst_dep i = inst_dep j \<longrightarrow> inst_node i = inst_node j) \<and>
     (\<forall>d \<in> set D. dep_state d = DeployPending \<longrightarrow> (\<forall>i \<in> set I. inst_dep i \<noteq> dep_id d))"

definition chain_inv :: "db \<Rightarrow> bool" where
  "chain_inv s \<longleftrightarrow>
     (\<forall>a \<in> set (applications s). get_org s (app_org_id a) \<noteq> None) \<and>
     (\<forall>st \<in> set (stacks s). get_app s (stk_app_id st) \<noteq> None) \<and>
     (\<forall>e \<in> set (environments s). get_stack s (env_stack_id e) \<noteq> None)"

definition store_inv :: "db \<Rightarrow> bool" where
  "store_inv s \<longleftrightarrow>
     live_inv (environments s) (deployments s) \<and>
     place_inv (deployments s) (service_instances s) \<and>
     dep_indexes_ok (deployments s) \<and> env_indexes_ok (environments s) \<and>
     node_indexes_ok (nodes s) \<and> inst_indexes_ok (service_instances s) \<and>
     chain_inv s"

lemma place_invI:
  assumes "\<And>i. i \<in> set I \<Longrightarrow> inst_dep i \<in> dep_id ` set D"
    and "\<And>i j. i \<in> set I \<Longrightarrow> j \<in> set I \<Longrightarrow> inst_dep i = inst_dep j \<Longrightarrow> inst_node i = inst_node j"
    and "\<And>d i. d \<in> set D \<Longrightarrow> dep_state d = DeployPending \<Longrightarrow> i \<in> set I \<Longrightarrow> inst_dep i \<noteq> dep_id d"
  shows "place_inv D I"
  unfolding place_inv_def
proof (intro conjI ballI impI)
  show "\<exists>d \<in> set D. dep_id d = inst_dep i" if "i \<in> set I" for i
    using assms(1) [OF that] by auto
qed (rule assms; assumption)+

lemma place_inv_dep: "place_inv D I \<Longrightarrow> i \<in> set I \<Longrightarrow> inst_dep i \<in> dep_id ` set D"
proof -
  assume "place_inv D I" "i \<in> set I"
  then obtain d where "d \<in> set D" "dep_id d = inst_dep i" unfolding place_inv_def by blast
  then show ?thesis by force
qed

lemma place_inv_node:
  "place_inv D I \<Longrightarrow> i \<in> set I \<Longrightarrow> j \<in> set I \<Longrightarrow> inst_dep i = inst_dep j \<Longrightarrow> inst_node i = inst_node j"
  unfolding place_inv_def by blast

lemma place_inv_pending:
  "place_inv D I \<Longrightarrow> d \<in> set D \<Longrightarrow> dep_state d = DeployPending \<Longrightarrow> i \<in> set I \<Longrightarrow> inst_dep i \<noteq> dep_id d"
  by (simp add: place_inv_def)

lemma place_inv_append_dep:
  assumes inv: "place_inv D I" and new: "dep_id d \<notin> dep_id ` set D"
  shows "place_inv (D @ [d]) I"
proof (rule place_invI)
  show "inst_dep i \<noteq> dep_id x" if "x \<in> set (D @ [d])" "dep_state x = DeployPending" "i \<in> set I" for x i
    using that place_inv_dep [OF inv that(3)] place_inv_pending [OF inv] new by auto
  show "inst_dep i \<in> dep_id ` set (D @ [d])" if "i \<in> set I" for i
    using place_inv_dep [OF inv that] by auto
qed (rule place_inv_node [OF inv])

lemma place_inv_map_dep:
  assumes inv: "place_inv D I" and g: "\<And>d. dep_id (g d) = dep_id d"
    "\<And>d. dep_state (g d) = DeployPending \<Longrightarrow> dep_state d = DeployPending"
  shows "place_inv (map g D) I"
proof (rule place_invI)
  show "inst_dep i \<in> dep_id ` set (map g D)" if "i \<in> set I" for i
    using place_inv_dep [OF inv that] g(1) by (auto simp: image_image)
  show "inst_dep i \<noteq> dep_id x" if "x \<in> set (map g D)" "dep_state x = DeployPending" "i \<in> set I" for x i
    using that place_inv_pending [OF inv] g by auto
qed (rule place_inv_node [OF inv])

lemma place_inv_delete_inst:
  assumes inv: "place_inv D I"
  shows "place_inv D (delete_where P I)"
  by (rule place_invI)
     (simp_all add: place_inv_dep [OF inv] place_inv_node [OF inv] place_inv_pending [OF inv])

lemma place_inv_map_inst:
  assumes inv: "place_inv D I" and f: "\<And>i. inst_dep (f i) = inst_dep i" "\<And>i. inst_node (f i) = inst_node i"
  shows "place_inv D (map f I)"
proof (rule place_invI)
  show "inst_node i = inst_node j" if ij: "i \<in> set (map f I)" "j \<in> set (map f I)" "inst_dep i = inst_dep j" for i j
  proof -
    from ij obtain i0 j0 where "i0 \<in> set I" "j0 \<in> set I" "i = f i0" "j = f j0" by auto
    with ij(3) f place_inv_node [OF inv, of i0 j0] show ?thesis by simp
  qed
qed (use place_inv_dep [OF inv] place_inv_pending [OF inv] f in auto)

lemma place_inv_append_inst:
  assumes inv: "place_inv D I" and rows: "\<forall>i \<in> set new. new_row x nd i"
    and d: "d \<in> set D" "dep_id d = x" "dep_state d = DeployPending"
    and g: "\<And>d. dep_id (g d) = dep_id d"
      "\<And>d. dep_state (g d) = DeployPending \<Longrightarrow> dep_state d = DeployPending \<and> dep_id d \<noteq> x"
  shows "place_inv (map g D) (I @ new)"
proof (rule place_invI)
  have no: "inst_dep i \<noteq> x" if "i \<in> set I" for i
    using place_inv_pending [OF inv d(1) d(3) that] d(2) by simp
  have new: "inst_dep i = x" "inst_node i = nd" if "i \<in> set new" for i
    using rows that by (simp_all add: new_row_def)
  show "inst_dep i \<in> dep_id ` set (map g D)" if "i \<in> set (I @ new)" for i
    using that place_inv_dep [OF inv, of i] new d(1,2) g(1) by (auto simp: image_image)
  show "inst_node i = inst_node j" if "i \<in> set (I @ new)" "j \<in> set (I @ new)" "inst_dep i = inst_dep j" for i j
  proof (cases "i \<in> set I")
    case True
    with no that(2,3) new(1) have "j \<in> set I" by auto
    from place_inv_node [OF inv True this that(3)] show ?thesis .
  next
    case False
    with that(1) have i: "i \<in> set new" by simp
    with no that(2,3) new(1) have "j \<in> set new" by auto
    with i new(2) show ?thesis by simp
  qed
  show "inst_dep i \<noteq> dep_id y" if "y \<in> set (map g D)" "dep_state y = DeployPending" "i \<in> set (I @ new)" for y i
  proof -
    from that(1) obtain y0 where y0: "y0 \<in> set D" "y = g y0" by auto
    with that(2) g(2) have p: "dep_state y0 = DeployPending" "dep_id y0 \<noteq> x" by auto
    from that(3) show ?thesis
      using place_inv_pending [OF inv y0(1) p(1)] new(1) p(2) g(1) y0(2) by auto
  qed
qed

text \<open>The foreign keys give every environment a way up to an organization that exists.\<close>

lemma chain_inv_stack:
  assumes "chain_inv s" "get_stack s i \<noteq> None"
  shows "\<exists>org1. org_of_stack s i = Some org1 \<and> get_org s org1 \<noteq> None"
proof -
  from assms(2) obtain st where st: "get_stack s i = Some st" by blast
  then have "st \<in> set (stacks s)" by (auto simp: get_stack_def dest: find_row_SomeD)
  with assms(1) obtain a where a: "get_app s (stk_app_id st) = Some a"
    unfolding chain_inv_def by blast
  then have "a \<in> set (applications s)" by (auto simp: get_app_def dest: find_row_SomeD)
  with assms(1) have "get_org s (app_org_id a) \<noteq> None" unfolding chain_inv_def by blast
  with st a show ?thesis by (simp add: org_of_stack_def)
qed

definition same_catalog :: "db \<Rightarrow> db \<Rightarrow> bool" where
  "same_catalog s t \<longleftrightarrow>
     organizations t = organizations s \<and> applications t = applications s \<and> stacks t = stacks s"

lemma catalog_same:
  "organizations t = organizations s \<Longrightarrow> applications t = applications s \<Longrightarrow> stacks t = stacks s \<Longrightarrow>
   same_catalog s t"
  by (simp add: same_catalog_def)

lemma chain_inv_same:
  assumes "chain_inv s" "same_catalog s t"
    "\<And>e. e \<in> set (environments t) \<Longrightarrow> get_stack s (env_stack_id e) \<noteq> None"
  shows "chain_inv t"
  using assms by (simp add: chain_inv_def same_catalog_def get_org_def get_app_def get_stack_def)

lemma chain_inv_env: "chain_inv s \<Longrightarrow> e \<in> set (environments s) \<Longrightarrow> get_stack s (env_stack_id e) \<noteq> None"
  by (simp add: chain_inv_def)

lemma org_known_env:
  assumes "store_inv s" "get_env s i = Some e"
  shows "org_known s i"
proof -
  from get_envD [OF assms(2)] have "e \<in> set (environments s)" ..
  moreover from assms(1) have chain: "chain_inv s" by (simp add: store_inv_def)
  ultimately obtain org1 where "org_of_stack s (env_stack_id e) = Some org1" "get_org s org1 \<noteq> None"
    using chain_inv_stack chain_inv_env by blast
  with assms(2) show ?thesis by (simp add: org_known_def org_of_env_def)
qed

section \<open>Steps\<close>

text \<open>
  One rule per store call of the program. A deployment's state is only ever set directly to
  \<open>starting\<close>, \<open>healthy\<close> or \<open>failed\<close> (by the scheduler and the rollout controller); the other states are
  entered by creation, placement and promotion. \<open>inet\<close>, \<open>sha\<close> and \<open>digest\<close> are the functions outside
  the model.
\<close>

inductive store_step ::
  "(string \<Rightarrow> string option) \<Rightarrow> (string \<Rightarrow> string) \<Rightarrow> (deployment_spec \<Rightarrow> string) \<Rightarrow> db \<Rightarrow> db \<Rightarrow> bool"
  for inet sha digest where
  st_org: "CreateOrganization c i sl nm s = Inr (r1, t) \<Longrightarrow> store_step inet sha digest s t"
| st_app: "CreateApplication c i og sl nm s = Inr (r2, t) \<Longrightarrow> store_step inet sha digest s t"
| st_stack: "CreateStack c i ap sl s = Inr (r3, t) \<Longrightarrow> store_step inet sha digest s t"
| st_version: "CreateStackVersion digest c i st raw sp cb s = Inr (r4, t) \<Longrightarrow> store_step inet sha digest s t"
| st_env: "CreateEnvironment c i pe s = Inr (r5, t) \<Longrightarrow> store_step inet sha digest s t"
| st_preview: "CreatePreview c i ids pp s = Inr (r6, t) \<Longrightarrow> store_step inet sha digest s t"
| st_expire: "expireEnvironments c og1 s = Inr (r7, t) \<Longrightarrow> store_step inet sha digest s t"
| st_sweep: "store_step inet sha digest s (sweepTombstones c og1 age s)"
| st_claim: "store_step inet sha digest s (snd (claimPreviewsForExpiryWarning c age og1 s))"
| st_deploy: "CreateDeployment c i pd s = Inr (r8, t) \<Longrightarrow> store_step inet sha digest s t"
| st_rollback: "RollbackDeployment c i e rev1 s = Inr (r9, t) \<Longrightarrow> store_step inet sha digest s t"
| st_state: "UpdateDeploymentState c d to why s = Inr (u, t) \<Longrightarrow>
     to \<in> {DeployStarting, DeployHealthy, DeployFailed} \<Longrightarrow> store_step inet sha digest s t"
| st_promote: "PromoteDeployment c d s = Inr (r10, t) \<Longrightarrow> store_step inet sha digest s t"
| st_place: "get_dep s d = Some dep \<Longrightarrow> map snd insts = spec_instances (dep_spec dep) \<Longrightarrow>
     PlaceDeployment c d nd insts (PeakCPUMillis (dep_spec dep)) (PeakMemoryBytes (dep_spec dep)) s = Inr (u, t) \<Longrightarrow>
     store_step inet sha digest s t"
| st_report: "ReportInstance c nd i ob s = Inr (u, t) \<Longrightarrow> store_step inet sha digest s t"
| st_teardown: "DeleteInstances d s = Inr (u, t) \<Longrightarrow> store_step inet sha digest s t"
| st_release: "ReleaseEnvironmentHome c e s = Inr (u, t) \<Longrightarrow> store_step inet sha digest s t"
| st_register: "RegisterNode inet sha c i tok pn s = Inr (r11, t) \<Longrightarrow> store_step inet sha digest s t"
| st_heartbeat: "Heartbeat c nd s = Inr (u, t) \<Longrightarrow> store_step inet sha digest s t"
| st_drain: "DrainNode nd s = Inr (u, t) \<Longrightarrow> store_step inet sha digest s t"
| st_uncordon: "UncordonNode c nd s = Inr (u, t) \<Longrightarrow> store_step inet sha digest s t"
| st_stale: "store_step inet sha digest s (MarkStaleNodesUnreachable c s)"
| st_rotate: "RotateNodeRecipient c nd s = Inr (r12, t) \<Longrightarrow> store_step inet sha digest s t"
| st_set_secret: "SetSecret c i e k ct kid s = Inr (u, t) \<Longrightarrow> store_step inet sha digest s t"
| st_del_secret: "DeleteSecret c e k s = Inr (u, t) \<Longrightarrow> store_step inet sha digest s t"
| st_prune: "store_step inet sha digest s (snd (PruneSecretVersions c og1 age s))"

section \<open>Every operation keeps the invariant\<close>

lemma store_inv_frame:
  assumes "store_inv s" "environments t = environments s" "deployments t = deployments s"
    "service_instances t = service_instances s" "node_indexes_ok (nodes t)" "same_catalog s t"
  shows "store_inv t"
proof -
  from assms(1) have "chain_inv s" by (simp add: store_inv_def)
  from this assms(6) have "chain_inv t"
    by (rule chain_inv_same) (use assms(2) chain_inv_env [OF \<open>chain_inv s\<close>] in auto)
  with assms show ?thesis by (simp add: store_inv_def)
qed

lemma store_inv_nodes:
  "store_inv s \<Longrightarrow> node_indexes_ok n \<Longrightarrow> store_inv (s\<lparr>nodes := n\<rparr>)"
  by (erule store_inv_frame) (simp_all add: catalog_same)

lemma store_inv_nodes_ok: "store_inv s \<Longrightarrow> node_indexes_ok (nodes s)"
  by (simp add: store_inv_def)

lemma store_inv_events: "store_inv s \<Longrightarrow> store_inv (s\<lparr>events := ev\<rparr>)"
  by (frule store_inv_nodes_ok, erule store_inv_frame) (simp_all add: catalog_same)

lemma store_inv_secrets: "store_inv s \<Longrightarrow> store_inv (s\<lparr>secrets := x\<rparr>)"
  by (frule store_inv_nodes_ok, erule store_inv_frame) (simp_all add: catalog_same)

lemma store_inv_tombstones: "store_inv s \<Longrightarrow> store_inv (s\<lparr>tombstones := x\<rparr>)"
  by (frule store_inv_nodes_ok, erule store_inv_frame) (simp_all add: catalog_same)

lemma store_inv_indexes: "store_inv s \<Longrightarrow> dep_indexes_ok (deployments s)"
  by (simp add: store_inv_def)

lemma dep_ids_distinct: "dep_indexes_ok t \<Longrightarrow> distinct (map dep_id t)"
  by (simp add: dep_indexes_ok_def)

lemma store_inv_dep_ids: "store_inv s \<Longrightarrow> distinct (map dep_id (deployments s))"
  by (simp add: store_inv_def dep_indexes_ok_def)

lemma store_inv_deps:
  assumes "store_inv s" "live_inv (environments s) D" "place_inv D (service_instances s)" "dep_indexes_ok D"
  shows "store_inv (s\<lparr>deployments := D\<rparr>)"
proof -
  from assms(1) have "chain_inv s" by (simp add: store_inv_def)
  then have "chain_inv (s\<lparr>deployments := D\<rparr>)"
    by (rule chain_inv_same) (auto simp: catalog_same dest: chain_inv_env [OF \<open>chain_inv s\<close>])
  with assms show ?thesis by (simp add: store_inv_def)
qed

lemma inv_createDeploymentTx:
  assumes inv: "store_inv s" and run: "createDeploymentTx c i p s = Inr (d, t)"
  shows "store_inv t"
  using run
proof (rule createDeploymentTx_ok)
  fix e ev
  let ?d = "new_deployment c i p e s"
  assume e: "get_env s (cd_env p) = Some e" and ix: "dep_indexes_ok (deployments s @ [?d])"
    and t: "t = s\<lparr>deployments := deployments s @ [?d], events := events s @ [ev]\<rparr>"
  have new: "dep_env ?d = env_id e" "dep_state ?d = DeployPending"
    by (simp_all add: new_deployment_def Let_def)
  from dep_ids_distinct [OF ix] have fresh: "dep_id ?d \<notin> dep_id ` set (deployments s)" by simp
  have "store_inv (s\<lparr>deployments := deployments s @ [?d]\<rparr>)"
    using inv get_envD [OF e] new fresh ix
    by (intro store_inv_deps live_inv_append_dep [of _ _ e] place_inv_append_dep) (simp_all add: store_inv_def)
  then show ?thesis
    using store_inv_events [where ev = "events s @ [ev]"] by (fastforce simp: t)
qed

lemma touch_dep_map: "touch_dep c P f t = map (\<lambda>d. if P d then (f d)\<lparr>dep_updated_at := now c\<rparr> else d) t"
  by (simp add: touch_dep_def update_where_def)

lemma inv_UpdateDeploymentState:
  assumes inv: "store_inv s" and run: "UpdateDeploymentState c i to why s = Inr (u, t)"
    and to: "to \<in> {DeployStarting, DeployHealthy, DeployFailed}"
  shows "store_inv t"
  using run
proof (rule UpdateDeploymentState_ok)
  fix allowed d ev
  let ?g = "\<lambda>d. if dep_id d = i \<and> dep_state d \<in> set allowed
      then (d\<lparr>dep_state := to, dep_failure := nullif why\<rparr>)\<lparr>dep_updated_at := now c\<rparr> else d"
  assume a: "validTransitions to = Some allowed" and ix: "dep_indexes_ok (deployments t)"
    and t: "t = s\<lparr>deployments := touch_dep c (\<lambda>d. dep_id d = i \<and> dep_state d \<in> set allowed)
        (\<lambda>d. d\<lparr>dep_state := to, dep_failure := nullif why\<rparr>) (deployments s), events := events s @ [ev]\<rparr>"
  from a to have al: "DeployLive \<notin> set allowed" "to \<noteq> DeployLive" "to \<noteq> DeployPending"
    by (auto simp: validTransitions_def)
  have "store_inv (s\<lparr>deployments := map ?g (deployments s)\<rparr>)"
    using inv ix al
    by (intro store_inv_deps live_inv_map_dep place_inv_map_dep)
       (auto simp: store_inv_def t touch_dep_map split: if_splits)
  then show ?thesis
    using store_inv_events [where ev = "events s @ [ev]"] by (fastforce simp: t touch_dep_map)
qed

lemma store_inv_envs_deps:
  assumes "store_inv s" "live_inv E D" "place_inv D I" "dep_indexes_ok D" "env_indexes_ok E" "inst_indexes_ok I"
    "node_indexes_ok N"
    "\<And>e. e \<in> set E \<Longrightarrow> get_stack s (env_stack_id e) \<noteq> None"
  shows "store_inv (s\<lparr>environments := E, deployments := D, service_instances := I, nodes := N, events := ev\<rparr>)"
    (is "store_inv ?t")
proof -
  from assms(1) have "chain_inv s" by (simp add: store_inv_def)
  then have "chain_inv ?t"
    by (rule chain_inv_same) (use assms(8) in \<open>auto simp: catalog_same\<close>)
  with assms show ?thesis by (simp add: store_inv_def)
qed

lemma env_indexes_update:
  assumes "env_indexes_ok E"
    "\<And>e. env_id (f e) = env_id e" "\<And>e. env_stack_id (f e) = env_stack_id e"
    "\<And>e. env_slug (f e) = env_slug e" "\<And>e. env_hostname (f e) = env_hostname e"
  shows "env_indexes_ok (update_where P f E)"
proof -
  have "map env_id (update_where P f E) = map env_id E"
    "map (\<lambda>e. (env_stack_id e, env_slug e)) (update_where P f E) = map (\<lambda>e. (env_stack_id e, env_slug e)) E"
    using assms(2-4) by (auto intro!: map_update_where)
  with assms show ?thesis
    by (auto simp: env_indexes_ok_def intro: unique_on_update_where)
qed

lemma inv_PromoteDeployment:
  assumes inv: "store_inv s" and run: "PromoteDeployment c i s = Inr (prev, t)"
  shows "store_inv t"
  using run
proof (rule PromoteDeployment_ok)
  fix d :: deployment and e :: environment and es
  let ?E = "update_where (\<lambda>r. env_id r = dep_env d) (\<lambda>r. r\<lparr>env_live := Some i\<rparr>) (environments s)"
  let ?D = "map (promoted_row c prev i) (deployments s)"
  assume d: "get_dep s i = Some d" and h: "dep_state d = DeployHealthy" and e: "get_env s (dep_env d) = Some e"
    and prev: "prev = env_live e" and ix: "dep_indexes_ok (deployments t)"
    and t: "t = s\<lparr>deployments := ?D, environments := ?E, events := events s @ es\<rparr>"
  have live: "live_inv ?E ?D"
    using inv get_depD [OF d] get_envD [OF e] store_inv_dep_ids [OF inv]
    unfolding prev by (intro live_inv_promote) (auto simp: store_inv_def)
  have place: "place_inv ?D (service_instances s)"
    using inv by (intro place_inv_map_dep) (auto simp: store_inv_def promoted_row_state split: if_splits)
  have "env_indexes_ok ?E"
    using inv by (intro env_indexes_update) (auto simp: store_inv_def)
  with live place inv ix have "store_inv (s\<lparr>environments := ?E, deployments := ?D,
      service_instances := service_instances s, nodes := nodes s, events := events s @ es\<rparr>)"
    by (intro store_inv_envs_deps) (auto simp: store_inv_def t in_update_where dest: chain_inv_env)
  also have "s\<lparr>environments := ?E, deployments := ?D, service_instances := service_instances s, nodes := nodes s,
      events := events s @ es\<rparr> = t"
    by (rule db.equality) (simp_all add: t)
  finally show ?thesis .
qed

lemma node_indexes_update:
  assumes "node_indexes_ok N" "\<And>n. node_id (f n) = node_id n" "\<And>n. node_org (f n) = node_org n"
    "\<And>n. node_hostname (f n) = node_hostname n"
  shows "node_indexes_ok (update_where P f N)"
proof -
  have "map node_id (update_where P f N) = map node_id N"
    "map (\<lambda>n. (node_org n, node_hostname n)) (update_where P f N) = map (\<lambda>n. (node_org n, node_hostname n)) N"
    using assms(2-4) by (auto intro!: map_update_where)
  with assms(1) show ?thesis by (simp add: node_indexes_ok_def)
qed

lemma inv_PlaceDeployment:
  assumes inv: "store_inv s" and run: "PlaceDeployment c dep nd insts cpu mem s = Inr (u, t)"
  shows "store_inv t"
  using run
proof (cases rule: PlaceDeployment_ok)
  case not_pending
  with inv show ?thesis by simp
next
  case (placed d e n s1 ev)
  let ?E = "if env_home e = None
    then update_where (\<lambda>r. env_id r = dep_env d) (\<lambda>r. r\<lparr>env_home := Some nd\<rparr>) (environments s)
    else environments s"
  let ?g = "\<lambda>r. if dep_id r = dep \<and> dep_state r = DeployPending
    then (r\<lparr>dep_state := DeployScheduling, dep_failure := None\<rparr>)\<lparr>dep_updated_at := now c\<rparr> else r"
  from placed(7) obtain new where new: "s1 = s\<lparr>service_instances := service_instances s @ new\<rparr>"
    and rows: "\<forall>i \<in> set new. new_row dep nd i" by (rule insertInstancesTx_frame)
  have E: "live_inv ?E (deployments s)"
    using inv by (auto simp: store_inv_def update_where_def intro!: live_inv_map_env)
  have live: "live_inv ?E (map ?g (deployments s))"
    using E by (rule live_inv_map_dep) auto
  have place: "place_inv (map ?g (deployments s)) (service_instances s1)"
    unfolding new using inv get_depD [OF placed(1)] placed(2) rows
    by (simp, intro place_inv_append_inst [where d = d and x = dep]) (auto simp: store_inv_def split: if_splits)
  have "env_indexes_ok ?E"
    using inv by (auto simp: store_inv_def intro!: env_indexes_update)
  moreover have "inst_indexes_ok (service_instances s1)"
    using inv by (intro insertInstancesTx_indexes [OF placed(7)]) (simp add: store_inv_def)
  moreover have "node_indexes_ok (update_where (\<lambda>r. node_id r = nd) (add_alloc cpu mem) (nodes s))"
    using inv by (intro node_indexes_update) (simp_all add: store_inv_def add_alloc_def)
  ultimately have "store_inv (s\<lparr>environments := ?E, deployments := map ?g (deployments s),
      service_instances := service_instances s1,
      nodes := update_where (\<lambda>r. node_id r = nd) (add_alloc cpu mem) (nodes s), events := events s @ [ev]\<rparr>)"
    using live place inv placed(10)
    by (intro store_inv_envs_deps) (auto simp: store_inv_def placed(11) touch_dep_map in_update_where dest: chain_inv_env split: if_splits)
  then show ?thesis by (simp add: placed(11) touch_dep_map)
qed

lemma store_inv_insts:
  assumes "store_inv s" "place_inv (deployments s) I" "inst_indexes_ok I"
  shows "store_inv (s\<lparr>service_instances := I\<rparr>)"
proof -
  from assms(1) have "chain_inv s" by (simp add: store_inv_def)
  then have "chain_inv (s\<lparr>service_instances := I\<rparr>)"
    by (rule chain_inv_same) (auto simp: catalog_same dest: chain_inv_env [OF \<open>chain_inv s\<close>])
  with assms show ?thesis by (simp add: store_inv_def)
qed

lemma inst_indexes_delete: "inst_indexes_ok I \<Longrightarrow> inst_indexes_ok (delete_where P I)"
  by (simp add: inst_indexes_ok_def delete_where_def distinct_map_filter)

lemma inv_ReportInstance:
  assumes inv: "store_inv s" and run: "ReportInstance c nd i ob s = Inr (u, t)"
  shows "store_inv t"
proof -
  let ?I = "update_where (\<lambda>r. inst_id r = i \<and> inst_node r = nd) (observed c ob) (service_instances s)"
  from run have t: "t = s\<lparr>service_instances := ?I\<rparr>"
    by (auto simp: ReportInstance_def Let_def split: if_splits)
  have "map inst_id ?I = map inst_id (service_instances s)"
    "map (\<lambda>i. (inst_dep i, inst_service i)) ?I = map (\<lambda>i. (inst_dep i, inst_service i)) (service_instances s)"
    by (auto intro!: map_update_where simp: observed_def)
  moreover have "place_inv (deployments s) ?I"
    using inv unfolding update_where_def
    by (intro place_inv_map_inst) (auto simp: store_inv_def observed_def)
  ultimately show ?thesis
    unfolding t using inv by (intro store_inv_insts) (auto simp: store_inv_def inst_indexes_ok_def)
qed

lemma inv_DeleteInstances:
  assumes inv: "store_inv s" and run: "DeleteInstances d s = Inr (u, t)"
  shows "store_inv t"
  using run
proof (rule DeleteInstances_ok)
  fix dep :: deployment
  let ?s1 = "s\<lparr>service_instances := delete_where (\<lambda>i. inst_dep i = d) (service_instances s)\<rparr>"
  assume t: "t = s\<lparr>service_instances := delete_where (\<lambda>i. inst_dep i = d) (service_instances s), nodes := nodes t\<rparr>"
    and n: "case find_row (\<lambda>i. inst_dep i = d) (service_instances s) of None \<Rightarrow> nodes t = nodes s
      | Some i \<Rightarrow> nodes t = nodes (release_capacity (inst_node i) (dep_spec dep) s)"
  have s1: "store_inv ?s1"
    using inv by (intro store_inv_insts) (auto simp: store_inv_def place_inv_delete_inst inst_indexes_delete)
  have "node_indexes_ok (nodes t)"
    using n store_inv_nodes_ok [OF inv]
    by (auto simp: release_capacity_def split: option.splits intro!: node_indexes_update)
  from store_inv_nodes [OF s1 this] show ?thesis by (subst t) simp
qed

lemma inv_ReleaseEnvironmentHome:
  assumes inv: "store_inv s" and run: "ReleaseEnvironmentHome c e s = Inr (u, t)"
  shows "store_inv t"
  using run
proof (rule ReleaseEnvironmentHome_ok)
  fix r home ev
  let ?E = "update_where (\<lambda>x. env_id x = e) (\<lambda>x. x\<lparr>env_home := None\<rparr>) (environments s)"
  assume t: "t = s\<lparr>environments := ?E, events := events s @ [ev]\<rparr>"
  have "live_inv ?E (deployments s)"
    using inv by (auto simp: store_inv_def update_where_def intro!: live_inv_map_env)
  moreover have "env_indexes_ok ?E"
    using inv by (auto simp: store_inv_def intro!: env_indexes_update)
  ultimately have "store_inv (s\<lparr>environments := ?E, deployments := deployments s,
      service_instances := service_instances s, nodes := nodes s, events := events s @ [ev]\<rparr>)"
    using inv by (intro store_inv_envs_deps) (auto simp: store_inv_def in_update_where dest: chain_inv_env)
  then show ?thesis by (simp add: t)
qed (use inv in simp)

lemma inv_node_operations:
  assumes inv: "store_inv s"
  shows inv_RegisterNode: "RegisterNode inet sha c i tok pn s = Inr (r, t) \<Longrightarrow> store_inv t"
    and inv_Heartbeat: "Heartbeat c i s = Inr (u, t) \<Longrightarrow> store_inv t"
    and inv_DrainNode: "DrainNode i s = Inr (u, t) \<Longrightarrow> store_inv t"
    and inv_UncordonNode: "UncordonNode c i s = Inr (u, t) \<Longrightarrow> store_inv t"
    and inv_MarkStale: "store_inv (MarkStaleNodesUnreachable c s)"
    and inv_Rotate: "RotateNodeRecipient c i s = Inr (r', t) \<Longrightarrow> store_inv t"
proof -
  have upd: "store_inv (s\<lparr>nodes := update_where P f (nodes s)\<rparr>)"
    if "\<And>n. node_id (f n) = node_id n" "\<And>n. node_org (f n) = node_org n" "\<And>n. node_hostname (f n) = node_hostname n"
    for P f
    using inv that by (intro store_inv_nodes node_indexes_update store_inv_nodes_ok)
  show "store_inv t" if "RegisterNode inet sha c i tok pn s = Inr (r, t)"
  proof (cases r)
    case (Pair n issued)
    from that [unfolded Pair] show ?thesis
    proof (cases rule: RegisterNode_ok)
      case first
      then show ?thesis using store_inv_events [OF store_inv_nodes [OF inv]] by simp
    next
      case again
      then show ?thesis using store_inv_events [OF store_inv_nodes [OF inv]] by simp
    qed
  qed
  show "store_inv t" if "Heartbeat c i s = Inr (u, t)"
    using update_node_ok [OF that [unfolded Heartbeat_def]] upd by simp
  show "store_inv t" if "DrainNode i s = Inr (u, t)"
    using update_node_ok [OF that [unfolded DrainNode_def]] upd by simp
  show "store_inv t" if "UncordonNode c i s = Inr (u, t)"
    using that by (rule UncordonNode_ok) (use inv upd in simp_all)
  show "store_inv (MarkStaleNodesUnreachable c s)"
    unfolding MarkStaleNodesUnreachable_def by (rule upd) simp_all
  show "store_inv t" if "RotateNodeRecipient c i s = Inr (r', t)"
    using that by (rule RotateNodeRecipient_ok) (simp add: store_inv_events upd)
qed

lemma inv_secret_operations:
  assumes inv: "store_inv s"
  shows inv_SetSecret: "SetSecret c i e k ct kid s = Inr (u, t) \<Longrightarrow> store_inv t"
    and inv_DeleteSecret: "DeleteSecret c e k s = Inr (u, t) \<Longrightarrow> store_inv t"
    and inv_Prune: "store_inv (snd (PruneSecretVersions c og age s))"
proof -
  show "store_inv t" if "SetSecret c i e k ct kid s = Inr (u, t)"
    using that by (auto simp: SetSecret_def Let_def split: if_splits
        elim!: appendEnvironmentEventTx_ok intro!: store_inv_events store_inv_secrets inv)
  show "store_inv t" if "DeleteSecret c e k s = Inr (u, t)"
    using that by (auto simp: DeleteSecret_def split: if_splits
        elim!: appendEnvironmentEventTx_ok intro!: store_inv_events store_inv_secrets inv)
  show "store_inv (snd (PruneSecretVersions c og age s))"
    by (simp add: PruneSecretVersions_def store_inv_secrets inv)
qed

lemma inv_catalog_frame:
  assumes inv: "store_inv s" and chain: "chain_inv t" and "environments t = environments s"
    "deployments t = deployments s" "service_instances t = service_instances s" "nodes t = nodes s"
  shows "store_inv t"
  using assms by (simp add: store_inv_def)

lemma inv_catalog_operations:
  assumes inv: "store_inv s"
  shows inv_CreateOrganization: "CreateOrganization c i sl nm s = Inr (r1, t) \<Longrightarrow> store_inv t"
    and inv_CreateApplication: "CreateApplication c i og sl nm s = Inr (r2, t) \<Longrightarrow> store_inv t"
    and inv_CreateStack: "CreateStack c i ap sl s = Inr (r3, t) \<Longrightarrow> store_inv t"
    and inv_CreateStackVersion: "CreateStackVersion digest c i st raw sp cb s = Inr (r4, t) \<Longrightarrow> store_inv t"
proof -
  from inv have chain: "chain_inv s" by (simp add: store_inv_def)
  show "store_inv t" if "CreateOrganization c i sl nm s = Inr (r1, t)"
  proof -
    from that have t: "t = s\<lparr>organizations := organizations s @ [r1]\<rparr>"
      by (auto simp: CreateOrganization_def Let_def split: option.splits if_splits)
    have "chain_inv t"
      using chain by (auto simp: t chain_inv_def get_org_def get_app_def get_stack_def find_row_append split: option.splits)
    with inv show ?thesis by (rule inv_catalog_frame) (simp_all add: t)
  qed
  show "store_inv t" if "CreateApplication c i og sl nm s = Inr (r2, t)"
  proof -
    from that have t: "t = s\<lparr>applications := applications s @ [r2]\<rparr>" and o: "get_org s (app_org_id r2) \<noteq> None"
      by (auto simp: CreateApplication_def Let_def split: option.splits if_splits)
    have "chain_inv t"
      using chain o by (auto simp: t chain_inv_def get_org_def get_app_def get_stack_def find_row_append split: option.splits)
    with inv show ?thesis by (rule inv_catalog_frame) (simp_all add: t)
  qed
  show "store_inv t" if "CreateStack c i ap sl s = Inr (r3, t)"
  proof -
    from that have t: "t = s\<lparr>stacks := stacks s @ [r3]\<rparr>" and a: "get_app s (stk_app_id r3) \<noteq> None"
      by (auto simp: CreateStack_def Let_def split: option.splits if_splits)
    have "chain_inv t"
      using chain a by (auto simp: t chain_inv_def get_org_def get_app_def get_stack_def find_row_append split: option.splits)
    with inv show ?thesis by (rule inv_catalog_frame) (simp_all add: t)
  qed
  show "store_inv t" if "CreateStackVersion digest c i st raw sp cb s = Inr (r4, t)"
  proof -
    from that obtain v where t: "t = s\<lparr>stack_versions := v\<rparr>"
      by (auto simp: CreateStackVersion_def insert_stack_version_def Let_def split: sum.splits if_splits) (metis db.surjective db.update_convs(4))
    have "chain_inv t"
      using chain by (simp add: t chain_inv_def get_org_def get_app_def get_stack_def)
    with inv show ?thesis by (rule inv_catalog_frame) (simp_all add: t)
  qed
qed

lemma insert_environment_ok:
  "insert_environment e s = Inr t \<Longrightarrow>
     env_indexes_ok (environments s @ [e]) \<and> get_stack s (env_stack_id e) \<noteq> None \<and>
     t = s\<lparr>environments := environments s @ [e]\<rparr>"
  by (auto simp: insert_environment_def split: if_splits)

lemma inv_insert_environment:
  assumes inv: "store_inv s" and run: "insert_environment e s = Inr t" and live: "env_live e = None"
  shows "store_inv t"
proof -
  from insert_environment_ok [OF run] have ix: "env_indexes_ok (environments s @ [e])"
    and st: "get_stack s (env_stack_id e) \<noteq> None" and t: "t = s\<lparr>environments := environments s @ [e]\<rparr>" by auto
  from ix have "env_id e \<notin> env_id ` set (environments s)" by (auto simp: env_indexes_ok_def)
  with inv live have "live_inv (environments s @ [e]) (deployments s)"
    by (intro live_inv_append_env) (auto simp: store_inv_def)
  with inv ix st have "store_inv (s\<lparr>environments := environments s @ [e], deployments := deployments s,
      service_instances := service_instances s, nodes := nodes s, events := events s\<rparr>)"
    by (intro store_inv_envs_deps) (auto simp: store_inv_def dest: chain_inv_env)
  then show ?thesis by (simp add: t)
qed

lemma inv_CreateEnvironment:
  assumes "store_inv s" "CreateEnvironment c i p s = Inr (e, t)"
  shows "store_inv t"
  using assms by (auto simp: CreateEnvironment_def Let_def split: option.splits if_splits intro: inv_insert_environment)

lemma inherit_secrets_ok: "inherit_secrets c ids src e s = Inr t \<Longrightarrow> \<exists>x. t = s\<lparr>secrets := x\<rparr>"
  by (cases src) (auto simp: inherit_secrets_def Let_def split: if_splits intro: exI [of _ "secrets s"])

lemma inv_CreatePreview:
  assumes inv: "store_inv s" and run: "CreatePreview c i ids p s = Inr (r, t)"
  shows "store_inv t"
proof -
  from run obtain e s1 s2 d where
    1: "insert_environment e s = Inr s1" "env_live e = None" and
    2: "inherit_secrets c ids (cp_inherit p) (cp_env p) s1 = Inr s2" and
    3: "createDeploymentTx c i \<lparr>cd_env = cp_env p, cd_version = cp_version p, cd_spec = cp_spec p,
         cd_created_by = cp_created_by p\<rparr> s2 = Inr (d, t)"
    by (fastforce simp: CreatePreview_def Let_def split: option.splits prod.splits)
  from inv 1 have "store_inv s1" by (rule inv_insert_environment)
  with 2 have "store_inv s2" using inherit_secrets_ok store_inv_secrets by blast
  from this 3 show ?thesis by (rule inv_createDeploymentTx)
qed

lemma inv_delete_environment:
  assumes inv: "store_inv s"
  shows "store_inv (delete_environment e s)"
proof -
  let ?E = "delete_where (\<lambda>r. env_id r = e) (environments s)"
  let ?D = "delete_where (\<lambda>d. dep_env d = e) (deployments s)"
  let ?gone = "set (map dep_id (filter (\<lambda>d. dep_env d = e) (deployments s)))"
  let ?I = "delete_where (\<lambda>i. inst_dep i \<in> ?gone) (service_instances s)"
  from inv have live: "live_inv ?E ?D" by (simp add: store_inv_def live_inv_delete_env)
  have place0: "place_inv (deployments s) (service_instances s)" using inv by (simp add: store_inv_def)
  have place: "place_inv ?D ?I"
  proof (rule place_invI)
    show "inst_dep i \<in> dep_id ` set ?D" if "i \<in> set ?I" for i
    proof -
      from that place_inv_dep [OF place0, of i] obtain x where
        x: "x \<in> set (deployments s)" "inst_dep i = dep_id x" by auto
      with that have "dep_env x \<noteq> e" by auto
      with x have "x \<in> set ?D" by simp
      with x(2) show ?thesis by simp
    qed
    show "inst_node i = inst_node j" if "i \<in> set ?I" "j \<in> set ?I" "inst_dep i = inst_dep j" for i j
      using that by (intro place_inv_node [OF place0]) simp_all
    show "inst_dep i \<noteq> dep_id d" if "d \<in> set ?D" "dep_state d = DeployPending" "i \<in> set ?I" for d i
      using that place_inv_pending [OF place0] by simp
  qed
  have "dep_indexes_ok ?D"
    using store_inv_indexes [OF inv]
    by (simp add: dep_indexes_ok_def distinct_delete_where unique_on_delete_where)
  moreover have "env_indexes_ok ?E"
    using inv by (simp add: store_inv_def env_indexes_ok_def distinct_delete_where unique_on_delete_where)
  ultimately have "store_inv (s\<lparr>environments := ?E, deployments := ?D, service_instances := ?I,
      nodes := nodes s, events := events (delete_environment e s)\<rparr>)"
    using inv live place
    by (intro store_inv_envs_deps) (auto simp: store_inv_def inst_indexes_delete dest: chain_inv_env)
  from store_inv_secrets [OF this, of "delete_where (\<lambda>r. sec_env r = e) (secrets s)"]
  have "store_inv (s\<lparr>environments := ?E, deployments := ?D, service_instances := ?I, nodes := nodes s,
      events := events (delete_environment e s), secrets := delete_where (\<lambda>r. sec_env r = e) (secrets s)\<rparr>)" .
  also have "(s\<lparr>environments := ?E, deployments := ?D, service_instances := ?I, nodes := nodes s,
      events := events (delete_environment e s), secrets := delete_where (\<lambda>r. sec_env r = e) (secrets s)\<rparr>)
      = delete_environment e s"
    by (rule db.equality) (simp_all add: delete_environment_def Let_def)
  finally show ?thesis .
qed

lemma inv_add_tombstone: "store_inv s \<Longrightarrow> store_inv (add_tombstone c x og s)"
  by (simp add: add_tombstone_def store_inv_tombstones)

lemma inv_reap_victims:
  "store_inv s \<Longrightarrow> reap_victims c vs s = Inr (done1, t) \<Longrightarrow> store_inv t"
proof (induction c vs s arbitrary: done1 rule: reap_victims.induct)
  case (2 c e og rest s)
  from 2(3) obtain s1 done2 where
    app: "appendEventTx c og None None ''preview.expired'' ''preview environment expired''
      [(''environment_id'', JStr e), (''env8'', JStr (shortID e))] s = Inr s1" and
    rest: "reap_victims c rest (delete_environment e (add_tombstone c (shortID e) og s1)) = Inr (done2, t)"
    by (auto split: prod.splits)
  from app 2(2) have "store_inv s1" by (auto elim!: appendEventTx_ok intro: store_inv_events)
  then have "store_inv (delete_environment e (add_tombstone c (shortID e) og s1))"
    by (intro inv_delete_environment inv_add_tombstone)
  from 2(1) [OF app this rest] show ?case .
qed simp

lemma inv_expireEnvironments:
  "store_inv s \<Longrightarrow> expireEnvironments c og s = Inr (r, t) \<Longrightarrow> store_inv t"
  by (simp add: expireEnvironments_def inv_reap_victims)

lemma inv_claim:
  assumes inv: "store_inv s"
  shows "store_inv (snd (claimPreviewsForExpiryWarning c age og s))"
proof -
  let ?E = "update_where (claimable c age og s) (\<lambda>e. e\<lparr>env_warned_at := Some (now c)\<rparr>) (environments s)"
  have "live_inv ?E (deployments s)"
    using inv by (auto simp: store_inv_def update_where_def intro!: live_inv_map_env)
  moreover have "env_indexes_ok ?E"
    using inv by (auto simp: store_inv_def intro!: env_indexes_update)
  ultimately have "store_inv (s\<lparr>environments := ?E, deployments := deployments s,
      service_instances := service_instances s, nodes := nodes s, events := events s\<rparr>)"
    using inv by (intro store_inv_envs_deps) (auto simp: store_inv_def in_update_where dest: chain_inv_env)
  then show ?thesis by (simp add: claimPreviewsForExpiryWarning_def)
qed

lemma inv_RollbackDeployment:
  "store_inv s \<Longrightarrow> RollbackDeployment c i e rev1 s = Inr (r, t) \<Longrightarrow> store_inv t"
  by (cases r)
     (auto simp: RollbackDeployment_def CreateDeployment_def Let_def split: option.splits if_splits
       intro: inv_createDeploymentTx)

lemma inv_CreateDeployment:
  "store_inv s \<Longrightarrow> CreateDeployment c i p s = Inr (r, t) \<Longrightarrow> store_inv t"
  by (cases r) (auto simp: CreateDeployment_def intro: inv_createDeploymentTx)

lemmas step_invs =
  inv_node_operations inv_secret_operations inv_catalog_operations inv_CreateEnvironment inv_CreatePreview
  inv_expireEnvironments inv_claim inv_CreateDeployment inv_RollbackDeployment inv_UpdateDeploymentState
  inv_PromoteDeployment inv_PlaceDeployment inv_ReportInstance inv_DeleteInstances inv_ReleaseEnvironmentHome

lemma store_inv_empty: "store_inv empty_db"
  by (simp add: store_inv_def empty_db_def live_inv_def place_inv_def dep_indexes_ok_def env_indexes_ok_def
      node_indexes_ok_def inst_indexes_ok_def chain_inv_def unique_on_def)

lemma store_inv_step:
  assumes "store_step inet sha digest s t" "store_inv s"
  shows "store_inv t"
  using assms
proof (cases rule: store_step.cases)
  case (st_sweep c og age)
  with assms(2) show ?thesis by (simp add: sweepTombstones_def store_inv_tombstones)
qed (auto dest: step_invs intro: step_invs)

interpretation store: invariant_system "\<lambda>s. s = empty_db" "store_step inet sha digest" store_inv
  for inet sha digest
  by unfold_locales (auto simp: store_inv_empty intro: store_inv_step)

definition reachable_db ::
  "(string \<Rightarrow> string option) \<Rightarrow> (string \<Rightarrow> string) \<Rightarrow> (deployment_spec \<Rightarrow> string) \<Rightarrow> db \<Rightarrow> bool" where
  "reachable_db inet sha digest s \<longleftrightarrow> (store_step inet sha digest)\<^sup>*\<^sup>* empty_db s"

lemma reachable_store_inv: "reachable_db inet sha digest s \<Longrightarrow> store_inv s"
  unfolding reachable_db_def by (rule store.reachable_inv [OF refl])

end
