(* ===== verification/Store_Example.thy ===== *)
theory Store_Example
  imports Store_Invariant
begin

text \<open>
  A run of the control plane from the empty database: an organization with one node deploys a stack
  of a swappable and a pinned service, the rollout is placed, starts, becomes healthy and is
  promoted, and a second revision is deployed. Its states are the concrete inputs at which the
  properties of the store are exercised.
\<close>

definition ok_db :: "store_error + ('a \<times> db) \<Rightarrow> db" where
  "ok_db r = (case r of Inr (_, s) \<Rightarrow> s | Inl _ \<Rightarrow> empty_db)"

definition succeeded :: "store_error + 'a \<Rightarrow> bool" where
  "succeeded r = (case r of Inr _ \<Rightarrow> True | Inl _ \<Rightarrow> False)"

lemma succeeded_ok: "succeeded r \<Longrightarrow> \<exists>x. r = Inr (x, ok_db r)"
  by (auto simp: succeeded_def ok_db_def split: sum.splits)

definition ex_call :: call where
  "ex_call = \<lparr>now = 1000, actor = None\<rparr>"

definition ex_inet :: "string \<Rightarrow> string option" where
  "ex_inet a = Some a"

definition ex_sha :: "string \<Rightarrow> string" where
  "ex_sha a = ''h'' @ a"

definition ex_digest :: "deployment_spec \<Rightarrow> string" where
  "ex_digest sp = concat (ServiceNames sp)"

section \<open>The run\<close>

definition ex_env_params :: create_environment_params where
  "ex_env_params = \<lparr>ce_stack = ''s1'', ce_slug = ''prod'', ce_strategy = [], ce_hostname = ''shop.example.com'',
     ce_config = []\<rparr>"

definition ex_node_params :: "string \<Rightarrow> string \<Rightarrow> register_node_params" where
  "ex_node_params host key = \<lparr>rn_org = ''o1'', rn_hostname = host, rn_addr = ''10.0.0.1'', rn_cpu = 4000,
     rn_mem = 8000, rn_labels = [], rn_agent_version = ''1'', rn_recipient = key\<rparr>"

definition ex_resolved :: deployment_spec where
  "ex_resolved = applyEnvConfig (json_spec ex_spec) [(''TZ'', ''UTC'')]"

definition ex_deploy_params :: create_deployment_params where
  "ex_deploy_params = \<lparr>cd_env = ''env00001-a'', cd_version = ''v1'', cd_spec = ex_resolved, cd_created_by = ''me''\<rparr>"

definition ex_insts :: "(uuid \<times> new_instance) list" where
  "ex_insts = zip [''i1'', ''i2''] (spec_instances (json_spec ex_resolved))"

definition ex_running :: observed_instance where
  "ex_running = \<lparr>oi_state = InstanceRunning, oi_container = ''c'', oi_health = ''healthy'', oi_error = [],
     oi_restarts = 0, oi_set_started = True, oi_ingress_port = 0\<rparr>"

definition op1 where "op1 = CreateOrganization ex_call ''o1'' ''acme'' ''Acme'' empty_db"
definition op2 where "op2 = CreateApplication ex_call ''a1'' ''o1'' ''shop'' ''Shop'' (ok_db op1)"
definition op3 where "op3 = CreateStack ex_call ''s1'' ''a1'' ''web'' (ok_db op2)"
definition op4 where "op4 = CreateStackVersion ex_digest ex_call ''v1'' ''s1'' ''raw'' ex_spec ''me'' (ok_db op3)"
definition op5 where "op5 = CreateEnvironment ex_call ''env00001-a'' ex_env_params (ok_db op4)"
definition op6 where "op6 = RegisterNode ex_inet ex_sha ex_call ''n1'' ''tok'' (ex_node_params ''alpha'' ''key1'') (ok_db op5)"
definition op7 where "op7 = CreateDeployment ex_call ''d1'' ex_deploy_params (ok_db op6)"
definition op8 where "op8 = PlaceDeployment ex_call ''d1'' ''n1'' ex_insts (PeakCPUMillis (json_spec ex_resolved))
   (PeakMemoryBytes (json_spec ex_resolved)) (ok_db op7)"
definition op9 where "op9 = ReportInstance ex_call ''n1'' ''i1'' ex_running (ok_db op8)"
definition op10 where "op10 = UpdateDeploymentState ex_call ''d1'' DeployStarting [] (ok_db op9)"
definition op11 where "op11 = UpdateDeploymentState ex_call ''d1'' DeployHealthy [] (ok_db op10)"
definition op12 where "op12 = PromoteDeployment ex_call ''d1'' (ok_db op11)"
definition op13 where "op13 = CreateDeployment ex_call ''d2'' ex_deploy_params (ok_db op12)"

section \<open>Its states are reachable\<close>

abbreviation ex_reach :: "db \<Rightarrow> bool" where
  "ex_reach s \<equiv> reachable_db ex_inet ex_sha ex_digest s"

lemma reachable_step: "reachable_db inet sha digest s \<Longrightarrow> store_step inet sha digest s t \<Longrightarrow> reachable_db inet sha digest t"
  unfolding reachable_db_def by (rule rtranclp.rtrancl_into_rtrancl)

lemma reachable_empty: "reachable_db inet sha digest empty_db"
  by (simp add: reachable_db_def)

lemma ops_succeed:
  "succeeded op1" "succeeded op2" "succeeded op3" "succeeded op4" "succeeded op5" "succeeded op6"
  "succeeded op7" "succeeded op8" "succeeded op9" "succeeded op10" "succeeded op11" "succeeded op12"
  "succeeded op13"
  by code_simp+

lemma reach_op:
  assumes "reachable_db inet sha digest s" "succeeded r"
    "\<And>x t. r = Inr (x, t) \<Longrightarrow> store_step inet sha digest s t"
  shows "reachable_db inet sha digest (ok_db r)"
proof -
  obtain x where "r = Inr (x, ok_db r)" using succeeded_ok [OF assms(2)] by blast
  from assms(1) assms(3) [OF this] show ?thesis by (rule reachable_step)
qed

lemma ex_reach_6: "ex_reach (ok_db op6)"
proof -
  have "ex_reach (ok_db op1)"
    by (rule reach_op [OF reachable_empty ops_succeed(1)]) (unfold op1_def, erule st_org)
  then have "ex_reach (ok_db op2)"
    by (rule reach_op [OF _ ops_succeed(2)]) (unfold op2_def, erule st_app)
  then have "ex_reach (ok_db op3)"
    by (rule reach_op [OF _ ops_succeed(3)]) (unfold op3_def, erule st_stack)
  then have "ex_reach (ok_db op4)"
    by (rule reach_op [OF _ ops_succeed(4)]) (unfold op4_def, erule st_version)
  then have "ex_reach (ok_db op5)"
    by (rule reach_op [OF _ ops_succeed(5)]) (unfold op5_def, erule st_env)
  then show ?thesis
    by (rule reach_op [OF _ ops_succeed(6)]) (unfold op6_def, erule st_register)
qed

lemma ex_reach_7: "ex_reach (ok_db op7)"
  by (rule reach_op [OF ex_reach_6 ops_succeed(7)]) (unfold op7_def, erule st_deploy)

lemma ex_place: "\<exists>d. get_dep (ok_db op7) ''d1'' = Some d \<and> dep_spec d = json_spec ex_resolved"
proof -
  have "map_option dep_spec (get_dep (ok_db op7) ''d1'') = Some (json_spec ex_resolved)" by code_simp
  then show ?thesis by (cases "get_dep (ok_db op7) ''d1''") auto
qed

lemma ex_insts_spec: "map snd ex_insts = spec_instances (json_spec ex_resolved)"
  by code_simp

lemma ex_reach_8: "ex_reach (ok_db op8)"
proof (rule reach_op [OF ex_reach_7 ops_succeed(8)])
  fix x t
  assume run: "op8 = Inr (x, t)"
  obtain d where d: "get_dep (ok_db op7) ''d1'' = Some d" "dep_spec d = json_spec ex_resolved"
    using ex_place by blast
  from run show "store_step ex_inet ex_sha ex_digest (ok_db op7) t"
    using d(2) ex_insts_spec
    by (intro st_place [OF d(1), of ex_insts]) (simp_all add: op8_def)
qed

lemma ex_reach_11: "ex_reach (ok_db op11)"
proof -
  have "ex_reach (ok_db op9)"
    by (rule reach_op [OF ex_reach_8 ops_succeed(9)]) (unfold op9_def, erule st_report)
  then have "ex_reach (ok_db op10)"
    by (rule reach_op [OF _ ops_succeed(10)]) (unfold op10_def, erule st_state, simp)
  then show ?thesis
    by (rule reach_op [OF _ ops_succeed(11)]) (unfold op11_def, erule st_state, simp)
qed

lemma ex_reach_12: "ex_reach (ok_db op12)"
  by (rule reach_op [OF ex_reach_11 ops_succeed(12)]) (unfold op12_def, erule st_promote)

lemma ex_reach_13: "ex_reach (ok_db op13)"
  by (rule reach_op [OF ex_reach_12 ops_succeed(13)]) (unfold op13_def, erule st_deploy)

end
