(* ===== verification/Store_Properties.thy ===== *)
theory Store_Properties
  imports Store_Example
begin

text \<open>
  What the store guarantees about rollouts, over every reachable database: the agreement of the live
  pointer with the deployment states, the promotion as one atomic flip, the append-only history with
  its state machine, revisions and slots, the home binding, and the capacity accounting.
\<close>

section \<open>Promotion succeeds\<close>

lemma map_g_indexes:
  assumes "dep_indexes_ok D" "\<And>d. dep_id (g d) = dep_id d" "\<And>d. dep_env (g d) = dep_env d"
    "\<And>d. dep_revision (g d) = dep_revision d" "\<And>d. dep_project (g d) = dep_project d"
    "\<And>d. is_active (g d) \<Longrightarrow> is_active d" "unique_on is_live dep_env (map g D)"
  shows "dep_indexes_ok (map g D)"
proof -
  have "unique_on is_active dep_env (update_where (\<lambda>_. True) g D)"
    using assms by (intro unique_on_update_where) (auto simp: dep_indexes_ok_def)
  then have "unique_on is_active dep_env (map g D)" by (simp add: update_where_def)
  moreover have "map dep_id (map g D) = map dep_id D"
    "map (\<lambda>d. (dep_env d, dep_revision d)) (map g D) = map (\<lambda>d. (dep_env d, dep_revision d)) D"
    "map dep_project (map g D) = map dep_project D"
    using assms(2-5) by simp_all
  ultimately show ?thesis
    using assms(1,7) unfolding dep_indexes_ok_def by (simp only:)
qed

lemma live_inv_unique_live:
  assumes "live_inv E D" "distinct (map dep_id D)"
  shows "unique_on is_live dep_env D"
proof -
  have "inj_on dep_env {d \<in> set D. is_live d}"
  proof (rule inj_onI)
    fix x y assume xy: "x \<in> {d \<in> set D. is_live d}" "y \<in> {d \<in> set D. is_live d}" "dep_env x = dep_env y"
    with live_inv_unique [OF assms(1)] have "dep_id x = dep_id y" by (simp add: is_live_def)
    with assms(2) xy show "x = y" by (auto simp: distinct_map inj_on_def)
  qed
  moreover from assms(2) have "distinct (filter is_live D)" by (simp add: distinct_map)
  ultimately show ?thesis by (simp add: unique_on_def distinct_map)
qed

lemma superseded_indexes:
  assumes "dep_indexes_ok D" shows "dep_indexes_ok (map (superseded_row c prev) D)"
proof (rule map_g_indexes [OF assms])
  have "unique_on is_live dep_env (update_where (\<lambda>_. True) (superseded_row c prev) D)"
    using assms
    by (intro unique_on_update_where) (auto simp: dep_indexes_ok_def superseded_row_def is_live_def split: if_splits)
  then show "unique_on is_live dep_env (map (superseded_row c prev) D)" by (simp add: update_where_def)
qed (auto simp: superseded_row_def is_active_def ActiveDeployStates_def split: if_splits)

lemma promoted_indexes:
  assumes inv: "store_inv s" and d: "get_dep s i = Some d" "dep_state d = DeployHealthy"
    and e: "get_env s (dep_env d) = Some e"
  shows "dep_indexes_ok (map (promoted_row c (env_live e) i) (deployments s))"
proof (rule map_g_indexes [OF store_inv_indexes [OF inv]])
  have "live_inv (update_where (\<lambda>r. env_id r = dep_env d) (\<lambda>r. r\<lparr>env_live := Some i\<rparr>) (environments s))
      (map (promoted_row c (env_live e) i) (deployments s))"
    using inv get_depD [OF d(1)] get_envD [OF e] store_inv_dep_ids [OF inv]
    by (intro live_inv_promote) (auto simp: store_inv_def)
  then show "unique_on is_live dep_env (map (promoted_row c (env_live e) i) (deployments s))"
    by (rule live_inv_unique_live) (use store_inv_dep_ids [OF inv] in \<open>simp add: comp_def\<close>)
qed (auto simp: promoted_row_state is_active_def ActiveDeployStates_def split: if_splits)

lemma org_known_cong:
  assumes "organizations t = organizations s" "applications t = applications s" "stacks t = stacks s"
    "map_option env_stack_id (get_env t i) = map_option env_stack_id (get_env s i)"
  shows "org_known t i = org_known s i"
  using assms
  by (auto simp: org_known_def org_of_env_def org_of_stack_def get_stack_def get_app_def get_org_def
      split: option.splits)

lemma get_dep_map:
  "(\<And>d. dep_id (g d) = dep_id d) \<Longrightarrow> get_dep (s\<lparr>deployments := map g D\<rparr>) i =
     map_option g (find_row (\<lambda>d. dep_id d = i) D)"
  by (induction D) (auto simp: get_dep_def find_row_Cons)

lemma supersede_total:
  assumes inv: "store_inv s" and e: "e \<in> set (environments s)"
  shows "\<exists>t. supersede c (env_live e) i s = Inr t"
proof (cases "env_live e")
  case None
  then show ?thesis by (simp add: supersede_def)
next
  case (Some p)
  let ?D = "map (superseded_row c (env_live e)) (deployments s)"
  have t: "touch_dep c (\<lambda>d. dep_id d = p \<and> dep_state d = DeployLive)
      (\<lambda>d. d\<lparr>dep_state := DeploySuperseded, dep_superseded_at := Some (now c)\<rparr>) (deployments s) = ?D"
    by (auto simp: touch_dep_def update_where_def superseded_row_def Some)
  from inv have live: "live_inv (environments s) (deployments s)" by (simp add: store_inv_def)
  from live_inv_pointer [OF this e Some] obtain d where
    d: "d \<in> set (deployments s)" "dep_id d = p" "dep_env d = env_id e" by blast
  have gd: "get_dep s p = Some d"
    using d get_dep_iff [OF store_inv_dep_ids [OF inv]] by blast
  have "distinct (map env_id (environments s))" using live by (rule live_inv_distinct)
  then have "get_env s (env_id e) = Some e" using get_env_iff e by blast
  with inv have "org_known s (env_id e)" by (rule org_known_env)
  then have known: "org_known (s\<lparr>deployments := ?D\<rparr>) (dep_env (superseded_row c (env_live e) d))"
    using d(3) org_known_cong [of "s\<lparr>deployments := ?D\<rparr>" s "env_id e"]
    by (simp add: get_env_def)
  have "get_dep (s\<lparr>deployments := ?D\<rparr>) p = Some (superseded_row c (env_live e) d)"
    using gd by (subst get_dep_map) (simp_all add: get_dep_def)
  from appendDeploymentEventTx_total [OF this known] superseded_indexes [OF store_inv_indexes [OF inv]]
  show ?thesis
    unfolding supersede_def Some option.case t [unfolded Some] write_deps_def
    by (simp add: Some)
qed

lemma PromoteDeployment_total:
  assumes inv: "store_inv s" and d: "get_dep s i = Some d" "dep_state d = DeployHealthy"
  shows "\<exists>prev t. PromoteDeployment c i s = Inr (prev, t)"
proof -
  from inv have live: "live_inv (environments s) (deployments s)" by (simp add: store_inv_def)
  from live_inv_env [OF this] get_depD [OF d(1)] obtain e where
    e: "e \<in> set (environments s)" "env_id e = dep_env d" by blast
  have ge: "get_env s (dep_env d) = Some e"
    using e get_env_iff [OF live_inv_distinct [OF live]] by blast
  obtain s1 where s1: "supersede c (env_live e) i s = Inr s1" using supersede_total [OF inv e(1)] by blast
  then obtain es where s1': "s1 = s\<lparr>deployments := map (superseded_row c (env_live e)) (deployments s),
      events := events s @ es\<rparr>" by (rule supersede_ok)
  let ?D = "map (promoted_row c (env_live e) i) (deployments s)"
  have t: "touch_dep c (\<lambda>r. dep_id r = i) (\<lambda>r. r\<lparr>dep_state := DeployLive, dep_promoted_at := Some (now c)\<rparr>)
      (deployments s1) = ?D"
    by (auto simp: touch_dep_def update_where_def promoted_row_def Let_def s1' superseded_row_def)
  have ix: "dep_indexes_ok ?D" by (rule promoted_indexes [OF inv d ge])
  let ?s3 = "s1\<lparr>deployments := ?D, environments := update_where (\<lambda>r. env_id r = dep_env d)
      (\<lambda>r. r\<lparr>env_live := Some i\<rparr>) (environments s1)\<rparr>"
  have "get_dep ?s3 i = Some (promoted_row c (env_live e) i d)"
    using d(1) get_dep_map [where g = "promoted_row c (env_live e) i" and s = s1 and D = "deployments s" and i = i] by (simp add: get_dep_def)
  moreover have "org_known ?s3 (dep_env d)"
    using org_known_env [OF inv ge] org_known_cong [of ?s3 s "dep_env d"] ge
    by (simp add: s1' get_env_def set_live.lookup_update)
  ultimately have "\<exists>u. appendDeploymentEventTx c i kind msg pl ?s3 = Inr u" for kind msg pl
    by (intro appendDeploymentEventTx_total [where d = "promoted_row c (env_live e) i d"]) simp_all
  then show ?thesis
    unfolding PromoteDeployment_def
    by (simp add: d ge s1 t write_deps_def ix)
qed

section \<open>Lookups in reachable databases\<close>

lemma live_inv_pointer_iff:
  assumes inv: "live_inv E D" and e: "e \<in> set E"
  shows "env_live e = Some i \<longleftrightarrow> (\<exists>d \<in> set D. dep_id d = i \<and> dep_env d = env_id e \<and> dep_state d = DeployLive)"
proof
  assume "env_live e = Some i"
  with live_inv_pointer [OF inv e] show "\<exists>d \<in> set D. dep_id d = i \<and> dep_env d = env_id e \<and> dep_state d = DeployLive" .
next
  assume "\<exists>d \<in> set D. dep_id d = i \<and> dep_env d = env_id e \<and> dep_state d = DeployLive"
  then obtain d where d: "d \<in> set D" "dep_id d = i" "dep_env d = env_id e" "dep_state d = DeployLive" by blast
  with live_inv_live [OF inv] obtain e' where e': "e' \<in> set E" "env_id e' = env_id e" "env_live e' = Some i" by metis
  have "e' = e" using live_inv_distinct [OF inv] e e' by (auto simp: distinct_map inj_on_def)
  with e' show "env_live e = Some i" by simp
qed

lemma unique_on_count:
  assumes "unique_on P key t" shows "length (filter (\<lambda>r. P r \<and> key r = k) t) \<le> 1"
proof -
  have "filter (\<lambda>r. P r \<and> key r = k) t = filter (\<lambda>r. key r = k) (filter P t)" by (simp add: conj_commute)
  moreover have "distinct (map key (filter (\<lambda>r. key r = k) (filter P t)))"
    using assms by (simp only: unique_on_def distinct_map_filter)
  moreover have "length xs \<le> 1" if "distinct (map key xs)" "\<forall>x \<in> set xs. key x = k" for xs :: "'a list"
  proof (cases xs)
    case (Cons x ys)
    then show ?thesis using that by (cases ys) auto
  qed simp
  ultimately show ?thesis by simp
qed

lemma live_of_pointer:
  assumes "store_inv s" "e \<in> set (environments s)" "env_live e = Some p" "get_dep s p = Some l"
  shows "dep_id l = p \<and> dep_state l = DeployLive \<and> dep_env l = env_id e"
proof -
  from assms(1) have live: "live_inv (environments s) (deployments s)" by (simp add: store_inv_def)
  from live_inv_pointer [OF this assms(2,3)] obtain d where
    d: "d \<in> set (deployments s)" "dep_id d = p" "dep_env d = env_id e" "dep_state d = DeployLive" by blast
  with get_dep_iff [OF store_inv_dep_ids [OF assms(1)], of p d] assms(4) have "l = d" by simp
  with d show ?thesis by simp
qed

lemma promoted_not_live:
  assumes "store_inv s" "get_dep s i = Some d" "dep_state d = DeployHealthy" "get_env s (dep_env d) = Some e"
  shows "env_live e \<noteq> Some i"
  using live_of_pointer [OF assms(1) _ _ assms(2), of e] get_envD [OF assms(4)] assms(3) by auto

section \<open>Agreement of the live pointer\<close>

text \<open>
  C1: in every reachable database an environment's live pointer names a deployment exactly when that
  deployment belongs to the environment and is live; an environment has at most one live and at most
  one active (pending, scheduling, starting or healthy) deployment, and revisions and project names
  are never shared.
\<close>

theorem live_pointer_agrees:
  assumes "reachable_db inet sha digest s" "e \<in> set (environments s)"
  shows "(env_live e = Some i \<longleftrightarrow>
      (\<exists>d \<in> set (deployments s). dep_id d = i \<and> dep_env d = env_id e \<and> dep_state d = DeployLive)) \<and>
    length (filter (\<lambda>d. dep_env d = env_id e \<and> dep_state d = DeployLive) (deployments s)) \<le> 1 \<and>
    length (filter (\<lambda>d. dep_env d = env_id e \<and> dep_state d \<in> set ActiveDeployStates) (deployments s)) \<le> 1 \<and>
    distinct (map (\<lambda>d. (dep_env d, dep_revision d)) (deployments s)) \<and>
    distinct (map dep_project (deployments s))"
proof -
  from assms(1) have inv: "store_inv s" by (rule reachable_store_inv)
  then have live: "live_inv (environments s) (deployments s)" and ix: "dep_indexes_ok (deployments s)"
    by (simp_all add: store_inv_def)
  have "env_live e = Some i \<longleftrightarrow>
      (\<exists>d \<in> set (deployments s). dep_id d = i \<and> dep_env d = env_id e \<and> dep_state d = DeployLive)"
    by (rule live_inv_pointer_iff [OF live assms(2)])
  moreover have "length (filter (\<lambda>d. dep_env d = env_id e \<and> dep_state d = DeployLive) (deployments s)) \<le> 1"
    "length (filter (\<lambda>d. dep_env d = env_id e \<and> dep_state d \<in> set ActiveDeployStates) (deployments s)) \<le> 1"
    using ix unique_on_count [of is_live dep_env "deployments s" "env_id e"]
      unique_on_count [of is_active dep_env "deployments s" "env_id e"]
    by (simp_all add: dep_indexes_ok_def is_live_def is_active_def conj_commute)
  ultimately show ?thesis using ix by (simp add: dep_indexes_ok_def)
qed

theorem live_pointer_agrees_witness:
  "\<exists>e \<in> set (environments (ok_db op12)). env_live e = Some ''d1'' \<and>
     (\<exists>d \<in> set (deployments (ok_db op12)). dep_id d = ''d1'' \<and> dep_env d = env_id e \<and> dep_state d = DeployLive)"
proof -
  have "map env_live (environments (ok_db op12)) = [Some ''d1'']" by code_simp
  then obtain e where e: "e \<in> set (environments (ok_db op12))" "env_live e = Some ''d1''"
    by (metis in_set_conv_nth length_map length_Cons list.size(3) nth_Cons_0 nth_map zero_less_Suc)
  then show ?thesis using live_pointer_agrees [OF ex_reach_12 e(1)] by blast
qed

section \<open>Promotion is one atomic flip\<close>

text \<open>
  C2: promoting a healthy deployment of a reachable database always succeeds. Afterwards it is the
  environment's only live deployment and the live pointer names it, the deployment that was live is
  superseded, every other deployment and every other environment is as it was, and the answer names
  the superseded deployment.
\<close>

theorem promotion_flips:
  assumes "reachable_db inet sha digest s" "get_dep s i = Some d" "dep_state d = DeployHealthy"
    "get_env s (dep_env d) = Some e"
  shows "\<exists>t. PromoteDeployment c i s = Inr (env_live e, t) \<and>
    get_env t (dep_env d) = Some (e\<lparr>env_live := Some i\<rparr>) \<and>
    get_dep t i = Some (d\<lparr>dep_state := DeployLive, dep_promoted_at := Some (now c), dep_updated_at := now c\<rparr>) \<and>
    (\<forall>p l. env_live e = Some p \<and> get_dep s p = Some l \<longrightarrow>
       get_dep t p = Some (l\<lparr>dep_state := DeploySuperseded, dep_superseded_at := Some (now c), dep_updated_at := now c\<rparr>)) \<and>
    (\<forall>j. j \<noteq> i \<and> env_live e \<noteq> Some j \<longrightarrow> get_dep t j = get_dep s j) \<and>
    (\<forall>j. j \<noteq> dep_env d \<longrightarrow> get_env t j = get_env s j) \<and>
    (\<forall>x \<in> set (deployments t). dep_env x = dep_env d \<and> dep_state x = DeployLive \<longrightarrow> dep_id x = i)"
proof -
  from assms(1) have inv: "store_inv s" by (rule reachable_store_inv)
  obtain prev t where run: "PromoteDeployment c i s = Inr (prev, t)"
    using PromoteDeployment_total [OF inv assms(2,3)] by blast
  from run inv have inv_t: "store_inv t" by (rule inv_PromoteDeployment [rotated])
  from run obtain es where prev: "prev = env_live e" and
    t: "t = s\<lparr>deployments := map (promoted_row c (env_live e) i) (deployments s),
           environments := update_where (\<lambda>r. env_id r = dep_env d) (\<lambda>r. r\<lparr>env_live := Some i\<rparr>) (environments s),
           events := events s @ es\<rparr>"
    by (rule PromoteDeployment_ok) (use assms(2,4) in auto)
  have dep: "get_dep t j = map_option (promoted_row c (env_live e) i) (get_dep s j)" for j
    using get_dep_map [where g = "promoted_row c (env_live e) i" and s = t and D = "deployments s" and i = j]
    by (simp add: t get_dep_def)
  have env: "get_env t j = map_option (\<lambda>r. if env_id r = dep_env d then r\<lparr>env_live := Some i\<rparr> else r) (get_env s j)" for j
    by (simp add: t get_env_def set_live.lookup_update)
  have id: "dep_id d = i" and not_prev: "env_live e \<noteq> Some i"
    using get_depD [OF assms(2)] promoted_not_live [OF inv assms(2,3,4)] by auto
  have old: "dep_id l = p \<and> dep_state l = DeployLive" if "env_live e = Some p" "get_dep s p = Some l" for p l
    using live_of_pointer [OF inv _ that] get_envD [OF assms(4)] by blast
  have "dep_id x = i" if x: "x \<in> set (deployments t)" "dep_env x = dep_env d" "dep_state x = DeployLive" for x
  proof -
    have "get_env t (dep_env d) = Some (e\<lparr>env_live := Some i\<rparr>)" using assms(4) get_envD by (auto simp: env)
    from get_envD [OF this] live_inv_pointer_iff [of "environments t" "deployments t" "e\<lparr>env_live := Some i\<rparr>" "dep_id x"] x inv_t
    show ?thesis by (auto simp: store_inv_def)
  qed
  moreover have "get_env t (dep_env d) = Some (e\<lparr>env_live := Some i\<rparr>)"
    using assms(4) get_envD [OF assms(4)] by (simp add: env)
  moreover have "get_dep t i =
      Some (d\<lparr>dep_state := DeployLive, dep_promoted_at := Some (now c), dep_updated_at := now c\<rparr>)"
    using assms(2) id not_prev by (simp add: dep promoted_row_def superseded_row_def Let_def)
  moreover have "get_dep t p =
      Some (l\<lparr>dep_state := DeploySuperseded, dep_superseded_at := Some (now c), dep_updated_at := now c\<rparr>)"
    if "env_live e = Some p" "get_dep s p = Some l" for p l
    using that old [OF that] not_prev by (simp add: dep promoted_row_def superseded_row_def Let_def)
  moreover have "get_dep t j = get_dep s j" if "j \<noteq> i" "env_live e \<noteq> Some j" for j
    using that by (cases "get_dep s j")
      (auto simp: dep promoted_row_def superseded_row_def Let_def dest!: get_depD)
  moreover have "get_env t j = get_env s j" if "j \<noteq> dep_env d" for j
    using that by (cases "get_env s j") (auto simp: env dest!: get_envD)
  ultimately show ?thesis using run prev by blast
qed

theorem promotion_flips_witness:
  "\<exists>t. PromoteDeployment ex_call ''d1'' (ok_db op11) = Inr (None, t) \<and>
     map_option dep_state (get_dep t ''d1'') = Some DeployLive"
proof -
  have "map_option dep_state (get_dep (ok_db op11) ''d1'') = Some DeployHealthy"
    "map_option dep_env (get_dep (ok_db op11) ''d1'') = Some ''env00001-a''"
    "map_option env_live (get_env (ok_db op11) ''env00001-a'') = Some None"
    by code_simp+
  then obtain d e where d: "get_dep (ok_db op11) ''d1'' = Some d" "dep_state d = DeployHealthy"
    and e: "get_env (ok_db op11) (dep_env d) = Some e" "env_live e = None"
    by auto
  from promotion_flips [OF ex_reach_11 d e(1), of ex_call] e(2) show ?thesis by auto
qed

section \<open>The history is append-only\<close>

text \<open>
  The life of a deployment, written down apart from the table the store consults: one edge per change of
  state a call may make. Nothing leaves superseded, failed or stopped, and no operation of the control
  plane stops a deployment.
\<close>

definition state_edges :: "(deployment_state \<times> deployment_state) set" where
  "state_edges = {(DeployPending, DeployScheduling), (DeployScheduling, DeployStarting), (DeployStarting, DeployHealthy),
     (DeployHealthy, DeployLive), (DeployLive, DeploySuperseded),
     (DeployPending, DeployFailed), (DeployScheduling, DeployFailed), (DeployStarting, DeployFailed), (DeployHealthy, DeployFailed)}"

definition same_record :: "deployment \<Rightarrow> deployment \<Rightarrow> bool" where
  "same_record d d' \<longleftrightarrow>
     dep_id d' = dep_id d \<and> dep_env d' = dep_env d \<and> dep_version d' = dep_version d \<and>
     dep_stack d' = dep_stack d \<and> dep_revision d' = dep_revision d \<and> dep_slot d' = dep_slot d \<and>
     dep_project d' = dep_project d \<and> dep_spec d' = dep_spec d \<and>
     dep_created_by d' = dep_created_by d \<and> dep_created_at d' = dep_created_at d"

text \<open>One call takes at most one edge; any number of calls follow a path.\<close>

definition moves :: "deployment \<Rightarrow> deployment \<Rightarrow> bool" where
  "moves d d' \<longleftrightarrow> same_record d d' \<and> (dep_state d' = dep_state d \<or> (dep_state d, dep_state d') \<in> state_edges)"

definition evolves :: "deployment \<Rightarrow> deployment \<Rightarrow> bool" where
  "evolves d d' \<longleftrightarrow> same_record d d' \<and> (dep_state d, dep_state d') \<in> state_edges\<^sup>*"

lemma moves_refl [simp]: "moves d d"
  by (simp add: moves_def same_record_def)

lemma evolves_refl [simp]: "evolves d d"
  by (simp add: evolves_def same_record_def)

lemma evolves_moves: "evolves a b \<Longrightarrow> moves b c \<Longrightarrow> evolves a c"
  unfolding evolves_def moves_def same_record_def by (auto intro: rtrancl_into_rtrancl)

lemma final_states:
  assumes "(a, b) \<in> state_edges\<^sup>*" "a \<in> {DeploySuperseded, DeployFailed, DeployStopped}"
  shows "b = a"
  using assms by (induction rule: rtrancl_induct) (auto simp: state_edges_def)

lemma live_states: "(DeployLive, b) \<in> state_edges\<^sup>* \<Longrightarrow> b \<in> {DeployLive, DeploySuperseded}"
  by (induction rule: rtrancl_induct) (auto simp: state_edges_def)

text \<open>An environment is kept, with every deployment it has had.\<close>

definition keeps_env :: "environment \<Rightarrow> db \<Rightarrow> db \<Rightarrow> bool" where
  "keeps_env e s t \<longleftrightarrow>
     (\<exists>e' \<in> set (environments t). env_id e' = env_id e \<and> env_ephemeral e' = env_ephemeral e) \<and>
     (\<forall>d \<in> set (deployments s). dep_env d = env_id e \<longrightarrow> (\<exists>d' \<in> set (deployments t). moves d d'))"

definition keeps :: "db \<Rightarrow> db \<Rightarrow> bool" where
  "keeps s t \<longleftrightarrow> (\<forall>e \<in> set (environments s). keeps_env e s t)"

text \<open>Or it is a preview whose time has come, and the call is the expiry that deletes it.\<close>

definition expires_env :: "environment \<Rightarrow> db \<Rightarrow> db \<Rightarrow> bool" where
  "expires_env e s t \<longleftrightarrow>
     (\<exists>c og r x. expireEnvironments c og s = Inr (r, t) \<and> env_ephemeral e \<and> env_expires_at e = Some x \<and> x < now c) \<and>
     env_id e \<notin> env_id ` set (environments t) \<and> env_id e \<notin> dep_env ` set (deployments t)"

lemma keepsI:
  assumes "\<And>e. e \<in> set (environments s) \<Longrightarrow>
      \<exists>e' \<in> set (environments t). env_id e' = env_id e \<and> env_ephemeral e' = env_ephemeral e"
    and "\<And>d. d \<in> set (deployments s) \<Longrightarrow> \<exists>d' \<in> set (deployments t). moves d d'"
  shows "keeps s t"
  using assms unfolding keeps_def keeps_env_def by blast

lemma keeps_refl: "keeps s s"
  by (rule keepsI) (auto intro: moves_refl)

lemma keeps_superset:
  "set (environments s) \<subseteq> set (environments t) \<Longrightarrow> set (deployments s) \<subseteq> set (deployments t) \<Longrightarrow> keeps s t"
  by (rule keepsI) (auto intro: moves_refl)

lemma keeps_map:
  assumes "environments t = map h (environments s)" "deployments t = map g (deployments s)"
    "\<And>e. env_id (h e) = env_id e" "\<And>e. env_ephemeral (h e) = env_ephemeral e"
    "\<And>d. d \<in> set (deployments s) \<Longrightarrow> moves d (g d)"
  shows "keeps s t"
  by (rule keepsI) (use assms in auto)

lemma keeps_UpdateDeploymentState:
  assumes run: "UpdateDeploymentState c i to why s = Inr (u, t)"
    and to: "to \<in> {DeployStarting, DeployHealthy, DeployFailed}"
  shows "keeps s t"
  using run
proof (rule UpdateDeploymentState_ok)
  fix allowed d ev
  assume a: "validTransitions to = Some allowed" and t: "t = s\<lparr>deployments := touch_dep c
      (\<lambda>d. dep_id d = i \<and> dep_state d \<in> set allowed) (\<lambda>d. d\<lparr>dep_state := to, dep_failure := nullif why\<rparr>)
      (deployments s), events := events s @ [ev]\<rparr>"
  have m: "(x, to) \<in> state_edges" if "x \<in> set allowed" for x
    using that a to by (auto simp: validTransitions_def state_edges_def)
  show ?thesis
    by (rule keeps_map [where h = id and g = "\<lambda>d. if dep_id d = i \<and> dep_state d \<in> set allowed
        then (d\<lparr>dep_state := to, dep_failure := nullif why\<rparr>)\<lparr>dep_updated_at := now c\<rparr> else d"])
       (auto simp: t touch_dep_map moves_def same_record_def m)
qed

lemma keeps_PromoteDeployment:
  assumes inv: "store_inv s" and run: "PromoteDeployment c i s = Inr (prev, t)"
  shows "keeps s t"
  using run
proof (rule PromoteDeployment_ok)
  fix d :: deployment and e es
  assume d: "get_dep s i = Some d" "dep_state d = DeployHealthy"
    and t: "t = s\<lparr>deployments := map (promoted_row c prev i) (deployments s),
           environments := update_where (\<lambda>r. env_id r = dep_env d) (\<lambda>r. r\<lparr>env_live := Some i\<rparr>) (environments s),
           events := events s @ es\<rparr>"
  have "moves x (promoted_row c prev i x)" if x: "x \<in> set (deployments s)" for x
  proof -
    have "dep_state x = DeployHealthy" if "dep_id x = i"
      using that d x get_dep_iff [OF store_inv_dep_ids [OF inv], of i x] by simp
    then show ?thesis
      by (auto simp: moves_def same_record_def promoted_row_def superseded_row_def Let_def state_edges_def)
  qed
  then show ?thesis
    by (intro keeps_map [where g = "promoted_row c prev i" and
          h = "\<lambda>r. if env_id r = dep_env d then r\<lparr>env_live := Some i\<rparr> else r"])
       (auto simp: t update_where_def)
qed

lemma keeps_PlaceDeployment:
  assumes run: "PlaceDeployment c dep nd insts cpu mem s = Inr (u, t)"
  shows "keeps s t"
  using run
proof (cases rule: PlaceDeployment_ok)
  case not_pending
  then show ?thesis by (simp add: keeps_refl)
next
  case (placed d e n s1 ev)
  show ?thesis
    by (rule keeps_map [where h = "\<lambda>r. if env_home e = None \<and> env_id r = dep_env d then r\<lparr>env_home := Some nd\<rparr> else r"
          and g = "\<lambda>r. if dep_id r = dep \<and> dep_state r = DeployPending
            then (r\<lparr>dep_state := DeployScheduling, dep_failure := None\<rparr>)\<lparr>dep_updated_at := now c\<rparr> else r"])
       (auto simp: placed(11) touch_dep_map update_where_def moves_def same_record_def state_edges_def map_idI)
qed

lemma keeps_createDeploymentTx: "createDeploymentTx c i p s = Inr (d, t) \<Longrightarrow> keeps s t"
  by (erule createDeploymentTx_ok) (rule keeps_superset, auto)

lemma reap_victims_rows:
  "reap_victims c vs s = Inr (done1, t) \<Longrightarrow>
   environments t = filter (\<lambda>e. env_id e \<notin> fst ` set vs) (environments s) \<and>
   deployments t = filter (\<lambda>d. dep_env d \<notin> fst ` set vs) (deployments s)"
proof (induction c vs s arbitrary: done1 rule: reap_victims.induct)
  case (2 c x og rest s)
  from 2(2) obtain s1 done2 where
    app: "appendEventTx c og None None ''preview.expired'' ''preview environment expired''
      [(''environment_id'', JStr x), (''env8'', JStr (shortID x))] s = Inr s1" and
    rest: "reap_victims c rest (delete_environment x (add_tombstone c (shortID x) og s1)) = Inr (done2, t)"
    by (auto split: prod.splits)
  from app have "environments (add_tombstone c (shortID x) og s1) = environments s"
    "deployments (add_tombstone c (shortID x) og s1) = deployments s"
    by (auto elim!: appendEventTx_ok simp: add_tombstone_def)
  with 2(1) [OF app rest] show ?case
    by (auto simp: delete_environment_def Let_def delete_where_def intro!: filter_cong)
qed simp

lemma expire_keeps_or_ends:
  assumes inv: "store_inv s" and run: "expireEnvironments c og s = Inr (r, t)" and e: "e \<in> set (environments s)"
  shows "keeps_env e s t \<or> expires_env e s t"
proof (cases "env_id e \<in> fst ` set (expiry_victims c og s)")
  case True
  from run have rows: "reap_victims c (expiry_victims c og s) s = Inr (r, t)" by (simp add: expireEnvironments_def)
  from True obtain og1 where "(env_id e, og1) \<in> set (expiry_victims c og s)" by force
  then obtain e0 where e0: "e0 \<in> set (environments s)" "env_id e0 = env_id e" "expired c e0"
    by (auto simp: expiry_victims_def in_map_filter split: option.splits if_splits)
  from inv have "distinct (map env_id (environments s))" by (simp add: store_inv_def live_inv_def)
  with e0 e have "e = e0" by (auto simp: distinct_map inj_on_def)
  with e0(3) obtain x where "env_ephemeral e" "env_expires_at e = Some x" "x < now c"
    by (auto simp: expired_def split: option.splits)
  moreover have "env_id e \<notin> env_id ` set (environments t)" "env_id e \<notin> dep_env ` set (deployments t)"
    using True reap_victims_rows [OF rows] by force+
  ultimately show ?thesis using run unfolding expires_env_def by blast
next
  case False
  from run have "reap_victims c (expiry_victims c og s) s = Inr (r, t)" by (simp add: expireEnvironments_def)
  with False e have "keeps_env e s t"
    unfolding keeps_env_def by (auto dest!: reap_victims_rows intro: moves_refl)
  then show ?thesis ..
qed

lemma keeps_frame: "environments t = environments s \<Longrightarrow> deployments t = deployments s \<Longrightarrow> keeps s t"
  by (rule keeps_superset) simp_all

lemma keeps_node_operations:
  "RegisterNode inet sha c i tok pn s = Inr (r, t) \<Longrightarrow> keeps s t"
  "Heartbeat c i s = Inr (u, t) \<Longrightarrow> keeps s t"
  "DrainNode i s = Inr (u, t) \<Longrightarrow> keeps s t"
  "UncordonNode c i s = Inr (u, t) \<Longrightarrow> keeps s t"
  "keeps s (MarkStaleNodesUnreachable c s)"
  "RotateNodeRecipient c i s = Inr (r', t) \<Longrightarrow> keeps s t"
proof -
  show "keeps s t" if "RegisterNode inet sha c i tok pn s = Inr (r, t)"
  proof (cases r)
    case (Pair n issued)
    from that [unfolded Pair] show ?thesis
      by (cases rule: RegisterNode_ok) (auto intro: keeps_frame)
  qed
  show "keeps s t" if "Heartbeat c i s = Inr (u, t)"
    using that unfolding Heartbeat_def by (auto dest!: update_node_ok intro: keeps_frame)
  show "keeps s t" if "DrainNode i s = Inr (u, t)"
    using that unfolding DrainNode_def by (auto dest!: update_node_ok intro: keeps_frame)
  show "keeps s t" if "UncordonNode c i s = Inr (u, t)"
    using that by (rule UncordonNode_ok) (auto intro: keeps_frame)
  show "keeps s (MarkStaleNodesUnreachable c s)"
    by (rule keeps_frame) (simp_all add: MarkStaleNodesUnreachable_def)
  show "keeps s t" if "RotateNodeRecipient c i s = Inr (r', t)"
    using that by (rule RotateNodeRecipient_ok) (auto intro: keeps_frame)
qed

lemma keeps_secret_operations:
  "SetSecret c i e k ct kid s = Inr (u, t) \<Longrightarrow> keeps s t"
  "DeleteSecret c e k s = Inr (u, t) \<Longrightarrow> keeps s t"
  "keeps s (snd (PruneSecretVersions c og age s))"
proof -
  show "keeps s t" if "SetSecret c i e k ct kid s = Inr (u, t)"
    using that by (auto simp: SetSecret_def Let_def split: if_splits
        elim!: appendEnvironmentEventTx_ok intro!: keeps_frame)
  show "keeps s t" if "DeleteSecret c e k s = Inr (u, t)"
    using that by (auto simp: DeleteSecret_def split: if_splits
        elim!: appendEnvironmentEventTx_ok intro!: keeps_frame)
  show "keeps s (snd (PruneSecretVersions c og age s))"
    by (rule keeps_frame) (simp_all add: PruneSecretVersions_def)
qed

lemma keeps_catalog_operations:
  "CreateOrganization c i sl nm s = Inr (r1, t) \<Longrightarrow> keeps s t"
  "CreateApplication c i og sl nm s = Inr (r2, t) \<Longrightarrow> keeps s t"
  "CreateStack c i ap sl s = Inr (r3, t) \<Longrightarrow> keeps s t"
  "CreateStackVersion digest c i st raw sp cb s = Inr (r4, t) \<Longrightarrow> keeps s t"
  "CreateEnvironment c i pe s = Inr (r5, t) \<Longrightarrow> keeps s t"
  by (rule keeps_superset; auto simp: CreateOrganization_def CreateApplication_def CreateStack_def
      CreateStackVersion_def insert_stack_version_def CreateEnvironment_def Let_def
      split: option.splits sum.splits if_splits dest!: insert_environment_ok)+

lemma keeps_CreatePreview:
  assumes run: "CreatePreview c i ids p s = Inr (r, t)"
  shows "keeps s t"
proof -
  from run obtain e s1 s2 d where
    1: "insert_environment e s = Inr s1" and
    2: "inherit_secrets c ids (cp_inherit p) (cp_env p) s1 = Inr s2" and
    3: "createDeploymentTx c i \<lparr>cd_env = cp_env p, cd_version = cp_version p, cd_spec = cp_spec p,
         cd_created_by = cp_created_by p\<rparr> s2 = Inr (d, t)"
    by (fastforce simp: CreatePreview_def Let_def split: option.splits prod.splits)
  from 3 have "set (environments s2) \<subseteq> set (environments t)" "set (deployments s2) \<subseteq> set (deployments t)"
    by (auto elim!: createDeploymentTx_ok)
  with 1 2 show ?thesis by (intro keeps_superset) (auto dest!: insert_environment_ok inherit_secrets_ok)
qed

lemma keeps_other_operations:
  "CreateDeployment c i p s = Inr (r8, t) \<Longrightarrow> keeps s t"
  "RollbackDeployment c i e rev1 s = Inr (r8, t) \<Longrightarrow> keeps s t"
  "keeps s (sweepTombstones c og age s)"
  "keeps s (snd (claimPreviewsForExpiryWarning c age og s))"
  "ReportInstance c nd i ob s = Inr (u, t) \<Longrightarrow> keeps s t"
  "DeleteInstances d s = Inr (u, t) \<Longrightarrow> keeps s t"
  "ReleaseEnvironmentHome c e s = Inr (u, t) \<Longrightarrow> keeps s t"
proof -
  show create: "keeps s t" if "CreateDeployment c i p s = Inr (r8, t)" for p
    using that by (cases r8) (auto simp: CreateDeployment_def intro: keeps_createDeploymentTx)
  show "keeps s t" if "RollbackDeployment c i e rev1 s = Inr (r8, t)"
    using that create by (auto simp: RollbackDeployment_def Let_def split: option.splits if_splits)
  show "keeps s (sweepTombstones c og age s)"
    by (rule keeps_frame) (simp_all add: sweepTombstones_def)
  show "keeps s (snd (claimPreviewsForExpiryWarning c age og s))"
    by (rule keeps_map [where g = id and
        h = "\<lambda>x. if claimable c age og s x then x\<lparr>env_warned_at := Some (now c)\<rparr> else x"])
       (auto simp: claimPreviewsForExpiryWarning_def update_where_def)
  show "keeps s t" if "ReportInstance c nd i ob s = Inr (u, t)"
    using that by (auto simp: ReportInstance_def Let_def split: if_splits intro: keeps_frame)
  show "keeps s t" if "DeleteInstances d s = Inr (u, t)"
    using that by (rule DeleteInstances_ok) (rule keeps_frame; metis db.select_convs(5,6) db.surjective db.update_convs(7,8))
  show "keeps s t" if "ReleaseEnvironmentHome c e s = Inr (u, t)"
    using that
    by (rule ReleaseEnvironmentHome_ok)
       (auto simp: update_where_def keeps_refl split: if_splits
         intro!: keeps_map [where g = id and h = "\<lambda>x. if env_id x = e then x\<lparr>env_home := None\<rparr> else x"])
qed

lemmas keeps_operations =
  keeps_node_operations keeps_secret_operations keeps_catalog_operations keeps_CreatePreview
  keeps_other_operations keeps_UpdateDeploymentState keeps_PlaceDeployment

lemma keeps_step:
  assumes inv: "store_inv s" and step: "store_step inet sha digest s t" and e: "e \<in> set (environments s)"
  shows "keeps_env e s t \<or> expires_env e s t"
proof -
  have "keeps s t \<or> (\<exists>c og r. expireEnvironments c og s = Inr (r, t))"
    using step
  proof (cases rule: store_step.cases)
    case st_promote
    with inv show ?thesis by (blast intro: keeps_PromoteDeployment)
  qed (auto intro: keeps_operations)
  with inv e expire_keeps_or_ends show ?thesis unfolding keeps_def by blast
qed

lemma steps_keep_or_expire:
  assumes "(store_step inet sha digest)\<^sup>*\<^sup>* s t" "store_inv s"
    and e: "e \<in> set (environments s)" and d: "d \<in> set (deployments s)" "dep_env d = env_id e"
  shows "(\<exists>e' \<in> set (environments t). env_id e' = env_id e \<and> env_ephemeral e' = env_ephemeral e) \<and>
      (\<exists>d' \<in> set (deployments t). evolves d d') \<or>
    (\<exists>u v e'. (store_step inet sha digest)\<^sup>*\<^sup>* s u \<and> (store_step inet sha digest)\<^sup>*\<^sup>* v t \<and> expires_env e' u v \<and> env_id e' = env_id e \<and>
      env_ephemeral e)"
  using assms(1)
proof (induction rule: rtranclp_induct)
  case base
  with e d show ?case by (blast intro: evolves_refl)
next
  case (step t w)
  from step(3) show ?case
  proof
    assume "(\<exists>e' \<in> set (environments t). env_id e' = env_id e \<and> env_ephemeral e' = env_ephemeral e) \<and>
      (\<exists>d' \<in> set (deployments t). evolves d d')"
    then obtain e' d' where e': "e' \<in> set (environments t)" "env_id e' = env_id e" "env_ephemeral e' = env_ephemeral e"
      and d': "d' \<in> set (deployments t)" "evolves d d'" by blast
    then have env: "dep_env d' = env_id e'" using d(2) by (simp add: evolves_def same_record_def)
    have "store_inv t" using step(1) assms(2) by (rule store.steps_inv)
    from keeps_step [OF this step(2) e'(1)] show ?case
    proof
      assume "keeps_env e' t w"
      with e' d' env show ?case unfolding keeps_env_def by (metis evolves_moves)
    next
      assume "expires_env e' t w"
      moreover from this e'(3) have "env_ephemeral e" by (auto simp: expires_env_def)
      ultimately show ?case using step(1) e'(2) by blast
    qed
  qed (use step(2) in \<open>blast intro: rtranclp.rtrancl_into_rtrancl\<close>)
qed

text \<open>
  C10: the history of every environment is append-only. In any reachable database a call keeps each
  deployment, with its revision, slot, project, stack version, author and resolved specification
  unchanged and its state either the same or one edge further in the state machine; the only call that
  removes one is the expiry of previews, and it removes it with its environment, a preview past its
  expiry. So whatever calls follow, each deployment is still there with a state reached along a path of
  edges, or its environment was a preview that expired on the way; a superseded, failed or stopped
  deployment never becomes anything else, and a live one can only have been superseded.
\<close>

theorem history_is_append_only:
  assumes "reachable_db inet sha digest s" "(store_step inet sha digest)\<^sup>*\<^sup>* s t"
    "e \<in> set (environments s)" "d \<in> set (deployments s)" "dep_env d = env_id e"
  shows "(\<forall>u. store_step inet sha digest s u \<longrightarrow>
      (\<exists>d' \<in> set (deployments u). same_record d d' \<and>
         (dep_state d' = dep_state d \<or> (dep_state d, dep_state d') \<in> state_edges)) \<or> expires_env e s u) \<and>
    ((\<exists>d' \<in> set (deployments t). same_record d d' \<and> (dep_state d, dep_state d') \<in> state_edges\<^sup>* \<and>
        (dep_state d \<in> {DeploySuperseded, DeployFailed, DeployStopped} \<longrightarrow> dep_state d' = dep_state d) \<and>
        (dep_state d = DeployLive \<longrightarrow> dep_state d' \<in> {DeployLive, DeploySuperseded})) \<or>
     (env_ephemeral e \<and> (\<exists>u v e'. (store_step inet sha digest)\<^sup>*\<^sup>* s u \<and> (store_step inet sha digest)\<^sup>*\<^sup>* v t \<and>
        env_id e' = env_id e \<and> expires_env e' u v)))"
proof -
  from assms(1) have inv: "store_inv s" by (rule reachable_store_inv)
  have one: "(\<exists>d' \<in> set (deployments u). same_record d d' \<and>
       (dep_state d' = dep_state d \<or> (dep_state d, dep_state d') \<in> state_edges)) \<or> expires_env e s u"
    if "store_step inet sha digest s u" for u
    using keeps_step [OF inv that assms(3)] assms(4,5) unfolding keeps_env_def moves_def by blast
  have final: "(dep_state d \<in> {DeploySuperseded, DeployFailed, DeployStopped} \<longrightarrow> dep_state d' = dep_state d) \<and>
      (dep_state d = DeployLive \<longrightarrow> dep_state d' \<in> {DeployLive, DeploySuperseded})"
    if "(dep_state d, dep_state d') \<in> state_edges\<^sup>*" for d' :: deployment
    using that final_states [OF that] live_states [of "dep_state d'"] by auto
  from steps_keep_or_expire [OF assms(2) inv assms(3-5)] final one show ?thesis
    unfolding evolves_def by blast
qed

theorem history_is_append_only_witness:
  "\<exists>d \<in> set (deployments (ok_db op12)). \<exists>d' \<in> set (deployments (ok_db op13)).
     same_record d d' \<and> (dep_state d, dep_state d') \<in> state_edges\<^sup>* \<and> dep_id d = ''d1''"
proof -
  have "map env_ephemeral (environments (ok_db op12)) = [False]"
    "map env_id (environments (ok_db op12)) = [''env00001-a'']"
    "map dep_id (deployments (ok_db op12)) = [''d1'']"
    "map dep_env (deployments (ok_db op12)) = [''env00001-a'']"
    by code_simp+
  then obtain e d where
    e: "e \<in> set (environments (ok_db op12))" "\<not> env_ephemeral e" "env_id e = ''env00001-a''" and
    d: "d \<in> set (deployments (ok_db op12))" "dep_id d = ''d1''" "dep_env d = ''env00001-a''"
    by (auto simp: map_eq_Cons_conv)
  obtain x where "op13 = Inr (x, ok_db op13)" using succeeded_ok [OF ops_succeed(13)] by blast
  then have "store_step ex_inet ex_sha ex_digest (ok_db op12) (ok_db op13)"
    unfolding op13_def by (rule st_deploy)
  then have "(store_step ex_inet ex_sha ex_digest)\<^sup>*\<^sup>* (ok_db op12) (ok_db op13)" by (rule r_into_rtranclp)
  from history_is_append_only [OF ex_reach_12 this e(1) d(1)] e(2,3) d show ?thesis by auto
qed

end
