(* ===== verification/Store_Placement.thy ===== *)
theory Store_Placement
  imports Store_Properties
begin

text \<open>
  Where a deployment may run and what it costs: allocation of revisions and slots, the binding of an
  environment to its home node, capacity reservation, and the accounting of reserved capacity over
  the life of deployments.
\<close>

section \<open>Revisions and slots\<close>

text \<open>The revisions an environment has had.\<close>

definition revisions_of :: "uuid \<Rightarrow> db \<Rightarrow> int set" where
  "revisions_of e s = dep_revision ` {x \<in> set (deployments s). dep_env x = e}"

lemma next_revision_exact: "next_revision e s = (if revisions_of e s = {} then 1 else Max (revisions_of e s) + 1)"
  by (auto simp: next_revision_def max_or_0_def revisions_of_def filter_empty_conv)

text \<open>
  C13: a deployment is only ever created for an environment that has no active one. Its revision is one
  above the highest revision the environment has, and 1 when it has none; its slot is the opposite of
  the live deployment's (blue when nothing is live); its project name is \<open>cc-\<close>, the first eight
  characters of the environment's identifier, \<open>-r\<close> and the revision, and the slot; it starts pending;
  and its stack version belongs to the environment's stack. The only change to the deployments is this
  one new row, holding the specification as given.
\<close>

theorem deployment_allocation:
  assumes "reachable_db inet sha digest s" "CreateDeployment c i p s = Inr (d, t)"
  shows "\<exists>e. get_env s (cd_env p) = Some e \<and>
    deployments t = deployments s @ [d\<lparr>dep_spec := json_spec (cd_spec p)\<rparr>] \<and>
    dep_id d = i \<and> dep_env d = cd_env p \<and> dep_version d = cd_version p \<and> dep_stack d = env_stack_id e \<and>
    dep_state d = DeployPending \<and> dep_spec d = cd_spec p \<and>
    dep_revision d = (if revisions_of (cd_env p) s = {} then 1 else Max (revisions_of (cd_env p) s) + 1) \<and>
    dep_project d = ''cc-'' @ take 8 (cd_env p) @ ''-r'' @ show_int (dep_revision d) @
      (case dep_slot d of Blue \<Rightarrow> ''-blue'' | Green \<Rightarrow> ''-green'') \<and>
    (\<forall>x \<in> set (deployments s). dep_env x = cd_env p \<longrightarrow>
       dep_revision x < dep_revision d \<and> dep_state x \<notin> {DeployPending, DeployScheduling, DeployStarting, DeployHealthy}) \<and>
    (case env_live e of None \<Rightarrow> dep_slot d = Blue
     | Some l \<Rightarrow> \<exists>x. get_dep s l = Some x \<and> dep_slot d \<noteq> dep_slot x \<and>
         rejectPinnedDrift (dep_spec x) (cd_spec p) = None) \<and>
    (\<exists>v \<in> set (stack_versions s). sv_id v = cd_version p \<and> sv_stack_id v = env_stack_id e)"
proof -
  from assms(1) have inv: "store_inv s" by (rule reachable_store_inv)
  from assms(2) have run: "createDeploymentTx c i p s = Inr (d, t)" by (simp add: CreateDeployment_def)
  from run obtain e ev where
    e: "get_env s (cd_env p) = Some e" and
    v: "list_ex (\<lambda>v. sv_id v = cd_version p \<and> sv_stack_id v = env_stack_id e) (stack_versions s)" and
    drift: "\<forall>l. live_of e s = Some l \<longrightarrow> rejectPinnedDrift (dep_spec l) (cd_spec p) = None" and
    ix: "dep_indexes_ok (deployments s @ [new_deployment c i p e s])" and
    t: "t = s\<lparr>deployments := deployments s @ [new_deployment c i p e s], events := events s @ [ev]\<rparr>" and
    d: "d = (new_deployment c i p e s)\<lparr>dep_spec := cd_spec p\<rparr>"
    by (rule createDeploymentTx_ok)
  from get_envD [OF e] have id: "env_id e = cd_env p" and mem: "e \<in> set (environments s)" by auto
  let ?n = "new_deployment c i p e s"
  have n: "dep_id ?n = i" "dep_env ?n = cd_env p" "dep_state ?n = DeployPending"
    "dep_spec ?n = json_spec (cd_spec p)" "dep_revision ?n = next_revision (cd_env p) s"
    "dep_slot d = next_slot (live_of e s)"
    by (simp_all add: d new_deployment_def Let_def id)
  have fields: "dep_version d = cd_version p" "dep_stack d = env_stack_id e"
    "dep_project d = ''cc-'' @ take 8 (cd_env p) @ ''-r'' @ show_int (dep_revision d) @
      (case dep_slot d of Blue \<Rightarrow> ''-blue'' | Green \<Rightarrow> ''-green'')"
    by (simp_all add: d new_deployment_def Let_def id project_name_def shortID_def slot_text_def split: slot.split)
  have rev1: "dep_revision d = next_revision (cd_env p) s" using n(5) by (simp add: d)
  have "dep_revision x < dep_revision d \<and>
      dep_state x \<notin> {DeployPending, DeployScheduling, DeployStarting, DeployHealthy}"
    if "x \<in> set (deployments s)" "dep_env x = cd_env p" for x
  proof
    show "dep_revision x < dep_revision d"
      unfolding rev1 next_revision_def using that by (intro max_or_0_less) auto
    from ix have "unique_on is_active dep_env (deployments s @ [?n])" by (simp add: dep_indexes_ok_def)
    with that n show "dep_state x \<notin> {DeployPending, DeployScheduling, DeployStarting, DeployHealthy}"
      by (auto simp: unique_on_append is_active_def ActiveDeployStates_def)
  qed
  moreover have "case env_live e of None \<Rightarrow> dep_slot d = Blue
     | Some l \<Rightarrow> \<exists>x. get_dep s l = Some x \<and> dep_slot d \<noteq> dep_slot x \<and>
         rejectPinnedDrift (dep_spec x) (cd_spec p) = None"
  proof (cases "env_live e")
    case None
    then show ?thesis by (simp add: n next_slot_def live_of_def)
  next
    case (Some l)
    from inv have "live_inv (environments s) (deployments s)" by (simp add: store_inv_def)
    from live_inv_pointer [OF this mem Some] obtain x where "get_dep s l = Some x"
      using get_dep_iff [OF store_inv_dep_ids [OF inv]] by blast
    with Some drift show ?thesis
      by (cases "dep_slot x") (auto simp: n next_slot_def live_of_def)
  qed
  moreover have "\<exists>v \<in> set (stack_versions s). sv_id v = cd_version p \<and> sv_stack_id v = env_stack_id e"
    using v by (auto simp: list_ex_iff)
  moreover have "deployments t = deployments s @ [d\<lparr>dep_spec := json_spec (cd_spec p)\<rparr>]"
    "dep_id d = i" "dep_env d = cd_env p" "dep_state d = DeployPending" "dep_spec d = cd_spec p"
    using n(1-5) by (simp_all add: d t flip: n(4))
  ultimately show ?thesis using e fields rev1 [unfolded next_revision_exact] by blast
qed

theorem deployment_allocation_witness:
  "\<exists>d t. CreateDeployment ex_call ''d2'' ex_deploy_params (ok_db op12) = Inr (d, t) \<and>
     dep_revision d = 2 \<and> dep_slot d = Green \<and> dep_project d = ''cc-env00001-r2-green''"
proof -
  obtain d where run: "CreateDeployment ex_call ''d2'' ex_deploy_params (ok_db op12) = Inr (d, ok_db op13)"
    using succeeded_ok [OF ops_succeed(13)] unfolding op13_def by blast
  from deployment_allocation [OF ex_reach_12 run] have
    rev1: "dep_revision d = (if revisions_of (cd_env ex_deploy_params) (ok_db op12) = {} then 1
      else Max (revisions_of (cd_env ex_deploy_params) (ok_db op12)) + 1)"
    and proj: "dep_project d = ''cc-'' @ take 8 (cd_env ex_deploy_params) @ ''-r'' @ show_int (dep_revision d) @
      (case dep_slot d of Blue \<Rightarrow> ''-blue'' | Green \<Rightarrow> ''-green'')"
    and rows: "deployments (ok_db op13) = deployments (ok_db op12) @ [d\<lparr>dep_spec := json_spec (cd_spec ex_deploy_params)\<rparr>]" by blast+
  have "revisions_of (cd_env ex_deploy_params) (ok_db op12) = {1}" "take 8 (cd_env ex_deploy_params) = ''env00001''"
    "dep_slot (last (deployments (ok_db op13))) = Green" "show_int 2 = ''2''"
    by code_simp+
  with rev1 rows have "dep_revision d = 2" "dep_slot d = Green" by simp_all
  with proj \<open>show_int 2 = _\<close> \<open>take 8 _ = _\<close> run show ?thesis by simp
qed

section \<open>The home binding\<close>

definition home_kept :: "db \<Rightarrow> environment \<Rightarrow> environment \<Rightarrow> bool" where
  "home_kept s e e' \<longleftrightarrow>
     env_home e = None \<or> env_home e' = env_home e \<or>
     (env_home e' = None \<and>
      (\<forall>l d. env_live e = Some l \<and> get_dep s l = Some d \<longrightarrow> DurableReasons (dep_spec d) = []))"

definition homes_kept :: "db \<Rightarrow> db \<Rightarrow> bool" where
  "homes_kept s t \<longleftrightarrow>
     (\<forall>i e e'. get_env s i = Some e \<longrightarrow> get_env t i = Some e' \<longrightarrow> home_kept s e e')"

lemma homes_frame: "environments t = environments s \<Longrightarrow> homes_kept s t"
  by (simp add: homes_kept_def home_kept_def get_env_def)

lemma homes_append: "environments t = environments s @ x \<Longrightarrow> homes_kept s t"
  by (auto simp: homes_kept_def home_kept_def get_env_def find_row_append)

lemma homes_map:
  assumes "environments t = map h (environments s)" "\<And>e. env_id (h e) = env_id e"
    "\<And>e. e \<in> set (environments s) \<Longrightarrow> get_env s (env_id e) = Some e \<Longrightarrow> home_kept s e (h e)"
  shows "homes_kept s t"
proof -
  have "get_env t i = map_option h (get_env s i)" for i
    unfolding get_env_def assms(1) using assms(2) by (rule find_row_map)
  then have "home_kept s e e'" if "get_env s i = Some e" "get_env t i = Some e'" for i e e'
    using that get_envD [OF that(1)] assms(3) [of e] by auto
  then show ?thesis by (simp add: homes_kept_def)
qed

lemma homes_PlaceDeployment:
  assumes inv: "store_inv s" and run: "PlaceDeployment c dep nd insts cpu mem s = Inr (u, t)"
  shows "homes_kept s t"
  using run
proof (cases rule: PlaceDeployment_ok)
  case not_pending
  then show ?thesis by (simp add: homes_frame)
next
  case (placed d e n s1 ev)
  show ?thesis
  proof (cases "env_home e")
    case None
    show ?thesis
    proof (rule homes_map)
      show "environments t = map (\<lambda>r. if env_id r = dep_env d then r\<lparr>env_home := Some nd\<rparr> else r) (environments s)"
        using None by (simp add: placed(11) update_where_def)
      show "home_kept s r (if env_id r = dep_env d then r\<lparr>env_home := Some nd\<rparr> else r)"
        if "get_env s (env_id r) = Some r" for r
        using that placed(3) None by (auto simp: home_kept_def)
    qed auto
  next
    case (Some h)
    then show ?thesis by (intro homes_frame) (simp add: placed(11))
  qed
qed

lemma homes_ReleaseEnvironmentHome:
  assumes inv: "store_inv s" and run: "ReleaseEnvironmentHome c i s = Inr (u, t)"
  shows "homes_kept s t"
  using run
proof (rule ReleaseEnvironmentHome_ok)
  fix r home ev
  assume r: "get_env s i = Some r"
    and d: "\<forall>l. env_live r = Some l \<longrightarrow> (\<exists>d. get_dep s l = Some d \<and> DurableReasons (dep_spec d) = [])"
    and t: "t = s\<lparr>environments := update_where (\<lambda>x. env_id x = i) (\<lambda>x. x\<lparr>env_home := None\<rparr>) (environments s),
             events := events s @ [ev]\<rparr>"
  show ?thesis
  proof (rule homes_map)
    show "environments t = map (\<lambda>x. if env_id x = i then x\<lparr>env_home := None\<rparr> else x) (environments s)"
      by (simp add: t update_where_def)
    show "home_kept s x (if env_id x = i then x\<lparr>env_home := None\<rparr> else x)" if "get_env s (env_id x) = Some x" for x
      using that r d by (auto simp: home_kept_def)
  qed auto
qed (simp add: homes_frame)

lemma homes_delete: "environments t = delete_where P (environments s) \<Longrightarrow> distinct (map env_id (environments s)) \<Longrightarrow> homes_kept s t"
proof -
  assume t: "environments t = delete_where P (environments s)" and ids: "distinct (map env_id (environments s))"
  have "e' = e" if "get_env s i = Some e" "get_env t i = Some e'" for i e e'
    using get_envD [OF that(1)] get_envD [OF that(2)] ids by (auto simp: t distinct_map inj_on_def)
  then show ?thesis by (auto simp: homes_kept_def home_kept_def)
qed

lemma reap_victims_environments:
  "reap_victims c vs s = Inr (done1, t) \<Longrightarrow> \<exists>P. environments t = delete_where P (environments s)"
proof (induction c vs s arbitrary: done1 rule: reap_victims.induct)
  case (1 c s)
  then show ?case by (auto simp: delete_where_def intro: exI [of _ "\<lambda>_. False"])
next
  case (2 c x og rest s)
  from 2(2) obtain s1 done2 where
    app: "appendEventTx c og None None ''preview.expired'' ''preview environment expired''
      [(''environment_id'', JStr x), (''env8'', JStr (shortID x))] s = Inr s1" and
    rest: "reap_victims c rest (delete_environment x (add_tombstone c (shortID x) og s1)) = Inr (done2, t)"
    by (auto split: prod.splits)
  from app have same: "environments (add_tombstone c (shortID x) og s1) = environments s"
    by (auto elim!: appendEventTx_ok simp: add_tombstone_def)
  from 2(1) [OF app rest] obtain P where
    P: "environments t = delete_where P (delete_where (\<lambda>e. env_id e = x) (environments s))"
    by (auto simp: delete_environment_def Let_def same)
  also have "\<dots> = delete_where (\<lambda>e. env_id e = x \<or> P e) (environments s)"
    by (simp add: delete_where_def conj_commute)
  finally show ?case by blast
qed

lemma homes_expireEnvironments:
  assumes inv: "store_inv s" and run: "expireEnvironments c og s = Inr (r, t)"
  shows "homes_kept s t"
proof -
  from inv have "distinct (map env_id (environments s))" by (simp add: store_inv_def live_inv_def)
  with run reap_victims_environments show ?thesis
    by (auto simp: expireEnvironments_def dest!: reap_victims_environments intro: homes_delete)
qed

lemma homes_operations:
  "RegisterNode inet sha c i tok pn s = Inr (r, t) \<Longrightarrow> homes_kept s t"
  "Heartbeat c i s = Inr (u, t) \<Longrightarrow> homes_kept s t"
  "DrainNode i s = Inr (u, t) \<Longrightarrow> homes_kept s t"
  "UncordonNode c i s = Inr (u, t) \<Longrightarrow> homes_kept s t"
  "homes_kept s (MarkStaleNodesUnreachable c s)"
  "RotateNodeRecipient c i s = Inr (r', t) \<Longrightarrow> homes_kept s t"
  "SetSecret c i e k ct kid s = Inr (u, t) \<Longrightarrow> homes_kept s t"
  "DeleteSecret c e k s = Inr (u, t) \<Longrightarrow> homes_kept s t"
  "homes_kept s (snd (PruneSecretVersions c og age s))"
  "homes_kept s (sweepTombstones c og age s)"
  "homes_kept s (snd (claimPreviewsForExpiryWarning c age og s))"
  "ReportInstance c nd i ob s = Inr (u, t) \<Longrightarrow> homes_kept s t"
  "DeleteInstances d s = Inr (u, t) \<Longrightarrow> homes_kept s t"
  "UpdateDeploymentState c d to why s = Inr (u, t) \<Longrightarrow> homes_kept s t"
proof -
  show "homes_kept s t" if "RegisterNode inet sha c i tok pn s = Inr (r, t)"
  proof (cases r)
    case (Pair n issued)
    from that [unfolded Pair] show ?thesis by (cases rule: RegisterNode_ok) (auto intro: homes_frame)
  qed
  show "homes_kept s t" if "Heartbeat c i s = Inr (u, t)"
    using that unfolding Heartbeat_def by (auto dest!: update_node_ok intro: homes_frame)
  show "homes_kept s t" if "DrainNode i s = Inr (u, t)"
    using that unfolding DrainNode_def by (auto dest!: update_node_ok intro: homes_frame)
  show "homes_kept s t" if "UncordonNode c i s = Inr (u, t)"
    using that by (rule UncordonNode_ok) (auto intro: homes_frame)
  show "homes_kept s (MarkStaleNodesUnreachable c s)" "homes_kept s (snd (PruneSecretVersions c og age s))"
    "homes_kept s (sweepTombstones c og age s)"
    by (simp_all add: homes_frame MarkStaleNodesUnreachable_def PruneSecretVersions_def sweepTombstones_def)
  show "homes_kept s t" if "RotateNodeRecipient c i s = Inr (r', t)"
    using that by (rule RotateNodeRecipient_ok) (auto intro: homes_frame)
  show "homes_kept s t" if "SetSecret c i e k ct kid s = Inr (u, t)"
    using that by (auto simp: SetSecret_def Let_def split: if_splits elim!: appendEnvironmentEventTx_ok intro!: homes_frame)
  show "homes_kept s t" if "DeleteSecret c e k s = Inr (u, t)"
    using that by (auto simp: DeleteSecret_def split: if_splits elim!: appendEnvironmentEventTx_ok intro!: homes_frame)
  show "homes_kept s (snd (claimPreviewsForExpiryWarning c age og s))"
    by (rule homes_map [where h = "\<lambda>x. if claimable c age og s x then x\<lparr>env_warned_at := Some (now c)\<rparr> else x"])
       (auto simp: claimPreviewsForExpiryWarning_def update_where_def home_kept_def)
  show "homes_kept s t" if "ReportInstance c nd i ob s = Inr (u, t)"
    using that by (auto simp: ReportInstance_def Let_def split: if_splits intro: homes_frame)
  show "homes_kept s t" if "DeleteInstances d s = Inr (u, t)"
    using that by (rule DeleteInstances_ok) (rule homes_frame; metis db.select_convs(5) db.surjective db.update_convs(7,8))
  show "homes_kept s t" if "UpdateDeploymentState c d to why s = Inr (u, t)"
    using that by (rule UpdateDeploymentState_ok) (auto intro: homes_frame)
qed

lemma homes_catalog_operations:
  "CreateOrganization c i sl nm s = Inr (r1, t) \<Longrightarrow> homes_kept s t"
  "CreateApplication c i og sl nm s = Inr (r2, t) \<Longrightarrow> homes_kept s t"
  "CreateStack c i ap sl s = Inr (r3, t) \<Longrightarrow> homes_kept s t"
  "CreateStackVersion digest c i st raw sp cb s = Inr (r4, t) \<Longrightarrow> homes_kept s t"
  by (rule homes_frame; auto simp: CreateOrganization_def CreateApplication_def CreateStack_def
      CreateStackVersion_def insert_stack_version_def Let_def
      split: option.splits sum.splits if_splits)+

lemma homes_deployment_operations:
  "createDeploymentTx c i p s = Inr (d, t) \<Longrightarrow> environments t = environments s"
  "CreateDeployment c i p s = Inr (r8, t) \<Longrightarrow> homes_kept s t"
  "RollbackDeployment c i e rev1 s = Inr (r8, t) \<Longrightarrow> homes_kept s t"
  "CreateEnvironment c i pe s = Inr (r5, t) \<Longrightarrow> homes_kept s t"
  "CreatePreview c i ids pp s = Inr (r6, t) \<Longrightarrow> homes_kept s t"
  "PromoteDeployment c i s = Inr (prev, t) \<Longrightarrow> homes_kept s t"
proof -
  show tx: "environments t = environments s" if "createDeploymentTx c i p s = Inr (d, t)" for p s d
    using that by (rule createDeploymentTx_ok) simp
  show create: "homes_kept s t" if "CreateDeployment c i p s = Inr (r8, t)" for p
    using that by (cases r8) (auto simp: CreateDeployment_def intro: homes_frame tx)
  show "homes_kept s t" if "RollbackDeployment c i e rev1 s = Inr (r8, t)"
    using that create by (auto simp: RollbackDeployment_def Let_def split: option.splits if_splits)
  show "homes_kept s t" if "CreateEnvironment c i pe s = Inr (r5, t)"
    using that by (auto simp: CreateEnvironment_def Let_def split: option.splits if_splits
        dest!: insert_environment_ok intro: homes_append)
  show "homes_kept s t" if "CreatePreview c i ids pp s = Inr (r6, t)"
  proof -
    from that obtain e s1 s2 d p where
      "insert_environment e s = Inr s1" "inherit_secrets c ids (cp_inherit pp) (cp_env pp) s1 = Inr s2"
      "createDeploymentTx c i p s2 = Inr (d, t)"
      by (fastforce simp: CreatePreview_def Let_def split: option.splits prod.splits)
    with tx have "environments t = environments s @ [e]"
      by (auto dest!: insert_environment_ok inherit_secrets_ok)
    then show ?thesis by (rule homes_append)
  qed
  show "homes_kept s t" if "PromoteDeployment c i s = Inr (prev, t)"
    using that
  proof (rule PromoteDeployment_ok)
    fix d :: deployment and e es
    assume t: "t = s\<lparr>deployments := map (promoted_row c prev i) (deployments s),
           environments := update_where (\<lambda>r. env_id r = dep_env d) (\<lambda>r. r\<lparr>env_live := Some i\<rparr>) (environments s),
           events := events s @ es\<rparr>"
    show ?thesis
      by (rule homes_map [where h = "\<lambda>r. if env_id r = dep_env d then r\<lparr>env_live := Some i\<rparr> else r"])
         (auto simp: t update_where_def home_kept_def)
  qed
qed

lemma homes_step: "store_inv s \<Longrightarrow> store_step inet sha digest s t \<Longrightarrow> homes_kept s t"
proof -
  assume inv: "store_inv s" and step: "store_step inet sha digest s t"
  from step show ?thesis
  proof (cases rule: store_step.cases)
    case st_place
    with inv show ?thesis by (blast intro: homes_PlaceDeployment)
  next
    case st_expire
    with inv show ?thesis by (blast intro: homes_expireEnvironments)
  next
    case st_release
    with inv show ?thesis by (blast intro: homes_ReleaseEnvironmentHome)
  qed (auto intro: homes_operations homes_catalog_operations homes_deployment_operations)
qed

text \<open>
  C22: an environment bound to a node stays bound to it. No call ever moves it to another node; the
  binding can only be cleared, and only while nothing durable is declared by the specification of
  the environment's live deployment (pinned services, named volumes).
\<close>

theorem home_binding_is_sticky:
  assumes "reachable_db inet sha digest s" "store_step inet sha digest s t"
    "get_env s i = Some e" "env_home e = Some h" "get_env t i = Some e'"
  shows "env_home e' = Some h \<or>
    (env_home e' = None \<and>
     (\<forall>l d. env_live e = Some l \<and> get_dep s l = Some d \<longrightarrow> DurableReasons (dep_spec d) = []))"
proof -
  have "home_kept s e e'"
    using homes_step [OF reachable_store_inv [OF assms(1)] assms(2)] assms(3,5)
    unfolding homes_kept_def by blast
  with assms(4) show ?thesis by (auto simp: home_kept_def)
qed

theorem home_binding_is_sticky_witness:
  "\<exists>e. get_env (ok_db op8) ''env00001-a'' = Some e \<and> env_home e = Some ''n1'' \<and>
     map_option env_home (get_env (ok_db op9) ''env00001-a'') = Some (Some ''n1'')"
proof -
  have h: "map_option env_home (get_env (ok_db op8) ''env00001-a'') = Some (Some ''n1'')"
    "map_option env_home (get_env (ok_db op9) ''env00001-a'') \<noteq> None"
    "map_option env_home (get_env (ok_db op9) ''env00001-a'') \<noteq> Some None"
    by code_simp+
  then obtain e e' where e: "get_env (ok_db op8) ''env00001-a'' = Some e" "env_home e = Some ''n1''"
    and e': "get_env (ok_db op9) ''env00001-a'' = Some e'" "env_home e' \<noteq> None" by auto
  obtain x where "op9 = Inr (x, ok_db op9)" using succeeded_ok [OF ops_succeed(9)] by blast
  then have "store_step ex_inet ex_sha ex_digest (ok_db op8) (ok_db op9)"
    unfolding op9_def by (rule st_report)
  from home_binding_is_sticky [OF ex_reach_8 this e e'(1)] e e' show ?thesis by auto
qed

section \<open>Placement\<close>

interpretation alloc: keyed_update node_id "add_alloc cpu mem" for cpu mem
  by unfold_locales (simp add: add_alloc_def)

text \<open>
  C21: a placement of a pending deployment that succeeds has found the node large enough. When the
  node's capacities and allocations are sensible numbers, its new allocation does not exceed its
  capacity, every other node is untouched, the deployment is scheduling, its environment is bound to
  that node, and the deployment's instance rows are on that node and are exactly the services asked
  for.
\<close>

theorem placement_never_overcommits:
  assumes "reachable_db inet sha digest s" "PlaceDeployment c i nd insts cpu mem s = Inr (u, t)"
    "get_dep s i = Some d" "dep_state d = DeployPending" "get_node s nd = Some n"
    "0 \<le> node_alloc_cpu n" "0 \<le> node_alloc_mem n" "0 \<le> node_cpu n" "0 \<le> node_mem n"
    "in_i32 (node_cpu n)" "in_i32 (node_alloc_cpu n)" "in_i64 (node_mem n)" "in_i64 (node_alloc_mem n)"
  shows "get_node t nd = Some (add_alloc cpu mem n) \<and>
    node_alloc_cpu n + cpu \<le> node_cpu n \<and> node_alloc_mem n + mem \<le> node_mem n \<and>
    (\<forall>j. j \<noteq> nd \<longrightarrow> get_node t j = get_node s j) \<and>
    map_option dep_state (get_dep t i) = Some DeployScheduling \<and>
    map_option env_home (get_env t (dep_env d)) = Some (Some nd) \<and>
    (\<forall>r \<in> set (service_instances t). inst_dep r = i \<longrightarrow> inst_node r = nd) \<and>
    instance_names i (service_instances t) = (ni_service \<circ> snd) ` set insts"
  using assms(2)
proof (cases rule: PlaceDeployment_ok)
  case not_pending
  with assms(3,4) show ?thesis by simp
next
  case (placed d' e n' s1 ev)
  from placed(1,5) assms(3,5) have same: "d' = d" "n' = n" by simp_all
  from assms(1) have inv: "store_inv s" by (rule reachable_store_inv)
  have ranges: "in_i64 (node_cpu n - node_alloc_cpu n)" "in_i64 (node_mem n - node_alloc_mem n)"
    using assms(6-13) by (auto simp: in_i64_def in_i32_def)
  from placed(6) have fits: "node_alloc_cpu n + cpu \<le> node_cpu n" "node_alloc_mem n + mem \<le> node_mem n"
    by (auto simp: lacks_capacity_def same i64_id [OF ranges(1)] i64_id [OF ranges(2)])
  have node: "get_node t j = map_option (\<lambda>r. if node_id r = nd then add_alloc cpu mem r else r) (get_node s j)" for j
    by (simp add: placed(11) get_node_def alloc.lookup_update)
  have nodes: "get_node t nd = Some (add_alloc cpu mem n)"
    using assms(5) get_nodeD [OF assms(5)] by (simp add: node)
  have others: "get_node t j = get_node s j" if "j \<noteq> nd" for j
    using that by (cases "get_node s j") (auto simp: node dest!: get_nodeD)
  have "get_dep t i = map_option (\<lambda>r. if dep_id r = i \<and> dep_state r = DeployPending
      then (r\<lparr>dep_state := DeployScheduling, dep_failure := None\<rparr>)\<lparr>dep_updated_at := now c\<rparr> else r) (get_dep s i)"
    unfolding get_dep_def by (simp add: placed(11) touch_dep_map) (rule find_row_map, auto)
  then have state: "map_option dep_state (get_dep t i) = Some DeployScheduling"
    using assms(3,4) get_depD [OF assms(3)] by simp
  have home: "map_option env_home (get_env t (dep_env d)) = Some (Some nd)"
    using placed(3,4) get_envD [OF placed(3)]
    by (auto simp: placed(11) get_env_def bind.lookup_update same)
  from placed(7) obtain new where new: "s1 = s\<lparr>service_instances := service_instances s @ new\<rparr>"
    and rows: "\<forall>r \<in> set new. new_row i nd r" by (rule insertInstancesTx_frame)
  have none: "inst_dep r \<noteq> i" if "r \<in> set (service_instances s)" for r
    using inv place_inv_pending [of "deployments s" "service_instances s" d r] get_depD [OF assms(3)] assms(4) that
    by (auto simp: store_inv_def)
  have insts: "\<forall>r \<in> set (service_instances t). inst_dep r = i \<longrightarrow> inst_node r = nd"
    using none rows by (auto simp: placed(11) new new_row_def)
  have "instance_names i (service_instances s) = {}" using none by (auto simp: instance_names_def)
  with insertInstancesTx_names [OF placed(7)]
  have "instance_names i (service_instances t) = (ni_service \<circ> snd) ` set insts"
    by (simp add: placed(11))
  with nodes others fits state home insts show ?thesis by blast
qed

theorem placement_never_overcommits_witness:
  "\<exists>u t. PlaceDeployment ex_call ''d1'' ''n1'' ex_insts (PeakCPUMillis (json_spec ex_resolved))
     (PeakMemoryBytes (json_spec ex_resolved)) (ok_db op7) = Inr (u, t) \<and>
     map_option env_home (get_env t ''env00001-a'') = Some (Some ''n1'')"
proof -
  obtain u where run: "PlaceDeployment ex_call ''d1'' ''n1'' ex_insts (PeakCPUMillis (json_spec ex_resolved))
     (PeakMemoryBytes (json_spec ex_resolved)) (ok_db op7) = Inr (u, ok_db op8)"
    using succeeded_ok [OF ops_succeed(8)] unfolding op8_def by blast
  have "map_option dep_state (get_dep (ok_db op7) ''d1'') = Some DeployPending"
    "map_option dep_env (get_dep (ok_db op7) ''d1'') = Some ''env00001-a''"
    "map_option (\<lambda>n. (node_alloc_cpu n, node_alloc_mem n, node_cpu n, node_mem n)) (get_node (ok_db op7) ''n1'')
       = Some (0, 0, 4000, 8000)"
    by code_simp+
  then obtain d n where d: "get_dep (ok_db op7) ''d1'' = Some d" "dep_state d = DeployPending" "dep_env d = ''env00001-a''"
    and n: "get_node (ok_db op7) ''n1'' = Some n" "node_alloc_cpu n = 0" "node_alloc_mem n = 0"
      "node_cpu n = 4000" "node_mem n = 8000" by auto
  have "map_option env_home (get_env (ok_db op8) (dep_env d)) = Some (Some ''n1'')"
    using placement_never_overcommits [OF ex_reach_7 run d(1,2) n(1)] n by (simp add: in_i32_def in_i64_def)
  with run d(3) show ?thesis by auto
qed

section \<open>Capacity accounting\<close>

definition holds :: "service_instance list \<Rightarrow> uuid \<Rightarrow> deployment \<Rightarrow> bool" where
  "holds I n d \<longleftrightarrow> (\<exists>i \<in> set I. inst_dep i = dep_id d \<and> inst_node i = n)"

definition reserved :: "(deployment_spec \<Rightarrow> int) \<Rightarrow> db \<Rightarrow> uuid \<Rightarrow> int" where
  "reserved peak s n = (\<Sum>d \<leftarrow> filter (holds (service_instances s) n) (deployments s). peak (dep_spec d))"

text \<open>A node's allocation is the sum of the peaks of the deployments with instances on it.\<close>

definition accounted :: "db \<Rightarrow> bool" where
  "accounted s \<longleftrightarrow> (\<forall>n \<in> set (nodes s).
     node_alloc_cpu n = reserved PeakCPUMillis s (node_id n) \<and>
     node_alloc_mem n = reserved PeakMemoryBytes s (node_id n))"

lemma sum_filter_split:
  fixes f :: "'a \<Rightarrow> int"
  assumes "distinct (map key D)" "d \<in> set D"
  shows "(\<Sum>x \<leftarrow> filter P D. f x) = (\<Sum>x \<leftarrow> filter (\<lambda>x. P x \<and> key x \<noteq> key d) D. f x) + (if P d then f d else 0)"
  using assms
proof (induction D)
  case (Cons a D)
  show ?case
  proof (cases "a = d")
    case True
    with Cons.prems have "key x \<noteq> key d" if "x \<in> set D" for x
      using that by (metis distinct.simps(2) image_eqI image_set list.simps(9))
    then have "filter (\<lambda>x. P x \<and> key x \<noteq> key d) D = filter P D"
      by (auto intro!: filter_cong)
    with True show ?thesis by simp
  next
    case False
    with Cons show ?thesis by (auto simp: image_iff)
  qed
qed simp

lemma reserved_map:
  assumes "\<And>d. dep_id (g d) = dep_id d" "\<And>d. dep_spec (g d) = dep_spec d"
  shows "(\<Sum>d \<leftarrow> filter (holds I n) (map g D). peak (dep_spec d)) = (\<Sum>d \<leftarrow> filter (holds I n) D. peak (dep_spec d))"
  by (induction D) (auto simp: holds_def assms)

lemma reserved_place:
  assumes inv: "store_inv s" and d: "get_dep s i = Some d" "dep_state d = DeployPending"
    and rows: "\<forall>r \<in> set new. new_row i nd r" and zero: "new = [] \<Longrightarrow> peak (dep_spec d) = (0::int)"
  shows "(\<Sum>x \<leftarrow> filter (holds (service_instances s @ new) n) (deployments s). peak (dep_spec x)) =
    reserved peak s n + (if n = nd then peak (dep_spec d) else 0)"
proof -
  have none: "inst_dep r \<noteq> i" if "r \<in> set (service_instances s)" for r
    using inv place_inv_pending [of "deployments s" "service_instances s" d r] get_depD [OF d(1)] d(2) that
    by (auto simp: store_inv_def)
  have id: "dep_id d = i" and mem: "d \<in> set (deployments s)" using get_depD [OF d(1)] by auto
  let ?P = "holds (service_instances s @ new) n" and ?Q = "holds (service_instances s) n"
  have PQ: "filter (\<lambda>x. ?P x \<and> dep_id x \<noteq> dep_id d) (deployments s) = filter ?Q (deployments s)"
    using none rows by (intro filter_cong) (auto simp: holds_def new_row_def id)
  have Pd: "?P d \<longleftrightarrow> n = nd \<and> new \<noteq> []"
    using none rows by (cases new) (auto simp: holds_def new_row_def id)
  show ?thesis
    unfolding sum_filter_split [OF store_inv_dep_ids [OF inv] mem, of _ ?P] PQ reserved_def
    using Pd zero by auto
qed

lemma peaks_no_services: "services sp = [] \<Longrightarrow> PeakCPUMillis sp = 0 \<and> PeakMemoryBytes sp = 0"
  by (simp add: PeakCPUMillis_def PeakMemoryBytes_def)

lemma accounted_place:
  assumes inv: "store_inv s" and acc: "accounted s" and d: "get_dep s i = Some d"
    and insts: "map snd insts = spec_instances (dep_spec d)"
    and run: "PlaceDeployment c i nd insts (PeakCPUMillis (dep_spec d)) (PeakMemoryBytes (dep_spec d)) s = Inr (u, t)"
  shows "accounted t"
  using run
proof (cases rule: PlaceDeployment_ok)
  case not_pending
  with acc show ?thesis by simp
next
  case (placed d' e n s1 ev)
  with d have [simp]: "d' = d" by simp
  let ?g = "\<lambda>r. if dep_id r = i \<and> dep_state r = DeployPending
      then (r\<lparr>dep_state := DeployScheduling, dep_failure := None\<rparr>)\<lparr>dep_updated_at := now c\<rparr> else r"
  from placed(7) obtain new where new: "s1 = s\<lparr>service_instances := service_instances s @ new\<rparr>"
    and rows: "\<forall>r \<in> set new. new_row i nd r" by (rule insertInstancesTx_frame)
  have none: "instance_names i (service_instances s) = {}"
    using inv place_inv_pending [of "deployments s" "service_instances s" d] get_depD [OF d] placed(2)
    by (auto simp: store_inv_def instance_names_def)
  have "insts = []" if "new = []"
    using that insertInstancesTx_names [OF placed(7)] none by (simp add: new)
  then have zero: "new = [] \<Longrightarrow> PeakCPUMillis (dep_spec d) = 0 \<and> PeakMemoryBytes (dep_spec d) = 0"
    using insts by (intro peaks_no_services) (simp add: spec_instances_def)
  have res: "reserved peak t m = reserved peak s m + (if m = nd then peak (dep_spec d) else 0)"
    if "new = [] \<Longrightarrow> peak (dep_spec d) = 0" for peak m
  proof -
    have "dep_state d = DeployPending" using placed(2) by simp
    from reserved_place [where peak = peak and n = m, OF inv d this rows that] show ?thesis
      by (simp add: reserved_def placed(11) touch_dep_map new reserved_map [where g = ?g])
  qed
  show ?thesis
    unfolding accounted_def
  proof
    fix m assume "m \<in> set (nodes t)"
    then obtain m0 where m0: "m0 \<in> set (nodes s)"
      and m: "m = (if node_id m0 = nd then add_alloc (PeakCPUMillis (dep_spec d)) (PeakMemoryBytes (dep_spec d)) m0 else m0)"
      by (auto simp: placed(11) in_update_where)
    with acc res [of PeakCPUMillis] res [of PeakMemoryBytes] zero
    show "node_alloc_cpu m = reserved PeakCPUMillis t (node_id m) \<and>
        node_alloc_mem m = reserved PeakMemoryBytes t (node_id m)"
      by (auto simp: accounted_def add_alloc_def)
  qed
qed

lemma sum_list_nonneg_int: "(\<And>x. x \<in> set xs \<Longrightarrow> (0::int) \<le> f x) \<Longrightarrow> 0 \<le> (\<Sum>x \<leftarrow> xs. f x)"
  by (induction xs) auto

lemma reserved_delete:
  assumes inv: "store_inv s" and d: "get_dep s i = Some d" and r: "r \<in> set (service_instances s)" "inst_dep r = i"
  shows "(\<Sum>x \<leftarrow> filter (holds (delete_where (\<lambda>r. inst_dep r = i) (service_instances s)) n) (deployments s). peak (dep_spec x)) =
    reserved peak s n - (if n = inst_node r then peak (dep_spec d) else (0::int))"
proof -
  have id: "dep_id d = i" and mem: "d \<in> set (deployments s)" using get_depD [OF d] by auto
  let ?Q = "holds (service_instances s) n"
  have PQ: "filter (holds (delete_where (\<lambda>r. inst_dep r = i) (service_instances s)) n) (deployments s) =
      filter (\<lambda>x. ?Q x \<and> dep_id x \<noteq> dep_id d) (deployments s)"
    by (intro filter_cong) (auto simp: holds_def id)
  have Qd: "?Q d \<longleftrightarrow> n = inst_node r"
  proof -
    have "inst_node x = inst_node r" if "x \<in> set (service_instances s)" "inst_dep x = i" for x
    proof -
      from inv have "place_inv (deployments s) (service_instances s)" by (simp add: store_inv_def)
      from place_inv_node [OF this that(1) r(1)] that(2) r(2) show ?thesis by simp
    qed
    then have "n = inst_node r" if "?Q d"
      using that unfolding holds_def id by metis
    moreover have "holds (service_instances s) (inst_node r) d"
      using r unfolding holds_def id by blast
    ultimately show ?thesis by blast
  qed
  show ?thesis
    unfolding PQ reserved_def sum_filter_split [OF store_inv_dep_ids [OF inv] mem, of _ ?Q]
    using Qd by simp
qed

lemma accounted_teardown:
  assumes inv: "store_inv s" and acc: "accounted s" and run: "DeleteInstances i s = Inr (u, t)"
    and nonneg: "\<And>d. d \<in> set (deployments s) \<Longrightarrow> 0 \<le> PeakCPUMillis (dep_spec d) \<and> 0 \<le> PeakMemoryBytes (dep_spec d)"
  shows "accounted t"
  using run
proof (rule DeleteInstances_ok)
  fix d :: deployment
  let ?I = "delete_where (\<lambda>r. inst_dep r = i) (service_instances s)"
  assume d: "get_dep s i = Some d" and t: "t = s\<lparr>service_instances := ?I, nodes := nodes t\<rparr>"
    and n: "case find_row (\<lambda>r. inst_dep r = i) (service_instances s) of None \<Rightarrow> nodes t = nodes s
     | Some r \<Rightarrow> nodes t = nodes (release_capacity (inst_node r) (dep_spec d) s)"
  have tabs: "deployments t = deployments s" "service_instances t = ?I" by (subst t, simp)+
  show ?thesis
  proof (cases "find_row (\<lambda>r. inst_dep r = i) (service_instances s)")
    case None
    then have "?I = service_instances s" by (auto simp: find_row_None_iff delete_where_def)
    with None n acc show ?thesis by (simp add: accounted_def reserved_def tabs)
  next
    case (Some r)
    then have r: "r \<in> set (service_instances s)" "inst_dep r = i" by (auto dest: find_row_SomeD)
    have res: "reserved peak t m = reserved peak s m - (if m = inst_node r then peak (dep_spec d) else 0)" for peak m
      using reserved_delete [OF inv d r, of peak m] by (simp add: reserved_def tabs)
    have pos: "0 \<le> reserved PeakCPUMillis t m" "0 \<le> reserved PeakMemoryBytes t m" for m
      using nonneg unfolding reserved_def tabs by (auto intro!: sum_list_nonneg_int)
    show ?thesis
      unfolding accounted_def
    proof
      fix m assume "m \<in> set (nodes t)"
      with n Some obtain m0 where m0: "m0 \<in> set (nodes s)" and m: "m = (if node_id m0 = inst_node r
          then m0\<lparr>node_alloc_cpu := max 0 (node_alloc_cpu m0 - PeakCPUMillis (dep_spec d)),
                 node_alloc_mem := max 0 (node_alloc_mem m0 - PeakMemoryBytes (dep_spec d))\<rparr> else m0)"
        by (auto simp: release_capacity_def in_update_where)
      have "node_alloc_cpu m0 = reserved PeakCPUMillis s (node_id m0)"
        "node_alloc_mem m0 = reserved PeakMemoryBytes s (node_id m0)"
        using acc m0 by (auto simp: accounted_def)
      with m res pos [of "node_id m0"] show "node_alloc_cpu m = reserved PeakCPUMillis t (node_id m) \<and>
        node_alloc_mem m = reserved PeakMemoryBytes t (node_id m)"
        by (auto simp: max_def)
    qed
  qed
qed

text \<open>
  C37: the two calls that move capacity keep the books exact. If every node's allocation is the sum
  of the peaks of the deployments that have instances on it, it is so again after a placement and,
  for non-negative peaks, after a teardown: a teardown gives back exactly what the placement took,
  and the floor at zero is never what decides.
\<close>

theorem capacity_accounting:
  assumes "reachable_db inet sha digest s" "accounted s" "get_dep s i = Some d"
  shows "(\<forall>c nd insts u t. map snd insts = spec_instances (dep_spec d) \<and>
      PlaceDeployment c i nd insts (PeakCPUMillis (dep_spec d)) (PeakMemoryBytes (dep_spec d)) s = Inr (u, t) \<longrightarrow>
      accounted t) \<and>
    (\<forall>u t. DeleteInstances i s = Inr (u, t) \<and>
      (\<forall>x \<in> set (deployments s). 0 \<le> PeakCPUMillis (dep_spec x) \<and> 0 \<le> PeakMemoryBytes (dep_spec x)) \<longrightarrow>
      accounted t)"
  using accounted_place [OF reachable_store_inv [OF assms(1)] assms(2,3)]
    accounted_teardown [OF reachable_store_inv [OF assms(1)] assms(2)] by blast

theorem capacity_accounting_witness:
  "accounted (ok_db op7) \<and> accounted (ok_db op8)"
proof -
  have "map (\<lambda>n. (node_id n, node_alloc_cpu n, node_alloc_mem n)) (nodes (ok_db op7)) = [(''n1'', 0, 0)]"
    "service_instances (ok_db op7) = []"
    by code_simp+
  then have acc: "accounted (ok_db op7)"
    by (auto simp: accounted_def reserved_def holds_def map_eq_Cons_conv)
  obtain d where d: "get_dep (ok_db op7) ''d1'' = Some d" "dep_spec d = json_spec ex_resolved"
    using ex_place by blast
  obtain u where run: "PlaceDeployment ex_call ''d1'' ''n1'' ex_insts (PeakCPUMillis (json_spec ex_resolved))
     (PeakMemoryBytes (json_spec ex_resolved)) (ok_db op7) = Inr (u, ok_db op8)"
    using succeeded_ok [OF ops_succeed(8)] unfolding op8_def by blast
  have "accounted (ok_db op8)"
    using capacity_accounting [OF ex_reach_7 acc d(1)] ex_insts_spec run d(2) by metis
  with acc show ?thesis by simp
qed

end
