(* ===== verification/Store_Gaps.thy ===== *)
theory Store_Gaps
  imports Store_Placement
begin

text \<open>
  The guard against drift of pinned services, characterised exactly, and three situations in which
  the store does less than its comments promise: an unchanged redeploy that is refused, capacity that
  expiry does not give back, and a home binding that is released although durable state exists.
\<close>

section \<open>The pinned-drift guard\<close>

lemma find_None_iff_all: "List.find P xs = None \<longleftrightarrow> (\<forall>x \<in> set xs. \<not> P x)"
  by (auto simp: find_None_iff)

lemma rejectPinnedDrift_None_iff:
  "rejectPinnedDrift live next = None \<longleftrightarrow> (\<forall>(name, old) \<in> set (services live). \<not> drifted next name old)"
  by (auto simp: rejectPinnedDrift_def find_None_iff_all split: option.splits prod.splits)
     (metis (mono_tags, lifting) case_prod_conv find_None_iff_all option.distinct(1))+

lemma deep_equal_map_lookup:
  assumes "deep_equal_map a b" "gomap_wf (entries a)" "gomap_wf (entries b)"
  shows "map_of (entries a) = map_of (entries b)"
proof (cases a)
  case None
  with assms(1) show ?thesis by (cases b) (auto simp: deep_equal_map_def entries_def)
next
  case (Some x)
  with assms(1) obtain y where y: "b = Some y" by (cases b) (auto simp: deep_equal_map_def)
  with Some assms have len: "length x = length y" and sub: "\<forall>(k, v) \<in> set x. map_of y k = Some v"
    and wf: "gomap_wf x" "gomap_wf y"
    by (auto simp: deep_equal_map_def entries_def list_all_iff)
  from sub have "set x \<subseteq> set y" by (auto dest: map_of_SomeD)
  moreover have "distinct x" "distinct y" using wf by (auto simp: gomap_wf_def distinct_map)
  ultimately have "set x = set y"
    using len by (metis card_subset_eq distinct_card List.finite_set)
  with wf show ?thesis by (simp add: Some y entries_def gomap_wf_def map_of_inject_set)
qed

text \<open>
  An accepted deployment leaves every pinned service of the live revision in place: it is still
  there, still pinned, every field other than the two environment maps is identical, and the
  environment maps have the same content. A pinned service can therefore not be changed, removed or
  made swappable by a rollout; a refusal is a conflict that names a pinned service of the live
  revision.
\<close>

theorem pinned_services_cannot_drift:
  assumes "spec_wf live" "spec_wf next" "map_of (services live) n = Some old" "\<not> svc_swappable old"
  shows "(rejectPinnedDrift live next = None \<longrightarrow>
      (\<exists>new. map_of (services next) n = Some new \<and> \<not> svc_swappable new \<and>
        new\<lparr>svc_env := None, svc_secret_env := None\<rparr> = old\<lparr>svc_env := None, svc_secret_env := None\<rparr> \<and>
        map_of (entries (svc_env new)) = map_of (entries (svc_env old)) \<and>
        map_of (entries (svc_secret_env new)) = map_of (entries (svc_secret_env old)))) \<and>
    (\<forall>err. rejectPinnedDrift live next = Some err \<longrightarrow>
      (\<exists>m x. err = ErrConflict (''pinned service '' @ quote m @ '' changed; stateful recreation is not supported'') \<and>
        (m, x) \<in> set (services live) \<and> \<not> svc_swappable x))"
proof (intro conjI impI allI)
  assume "rejectPinnedDrift live next = None"
  moreover have mem: "(n, old) \<in> set (services live)" using assms(3) by (rule map_of_SomeD)
  ultimately have "\<not> drifted next n old" by (auto simp: rejectPinnedDrift_None_iff)
  with assms(4) obtain new where new: "map_of (services next) n = Some new" "\<not> svc_swappable new"
    and eq: "deep_equal_service old new"
    by (auto simp: drifted_def split: option.splits)
  from new(1) have "(n, new) \<in> set (services next)" by (rule map_of_SomeD)
  with mem assms(1,2) have wf: "gomap_wf (entries (svc_env old))" "gomap_wf (entries (svc_secret_env old))"
    "gomap_wf (entries (svc_env new))" "gomap_wf (entries (svc_secret_env new))"
    by (auto simp: spec_wf_def)
  from eq have "map_of (entries (svc_env old)) = map_of (entries (svc_env new))"
    "map_of (entries (svc_secret_env old)) = map_of (entries (svc_secret_env new))"
    using wf by (auto simp: deep_equal_service_def intro: deep_equal_map_lookup)
  with new eq show "\<exists>new. map_of (services next) n = Some new \<and> \<not> svc_swappable new \<and>
        new\<lparr>svc_env := None, svc_secret_env := None\<rparr> = old\<lparr>svc_env := None, svc_secret_env := None\<rparr> \<and>
        map_of (entries (svc_env new)) = map_of (entries (svc_env old)) \<and>
        map_of (entries (svc_secret_env new)) = map_of (entries (svc_secret_env old))"
    by (auto simp: deep_equal_service_def)
next
  fix err assume "rejectPinnedDrift live next = Some err"
  then show "\<exists>m x. err = ErrConflict (''pinned service '' @ quote m @ '' changed; stateful recreation is not supported'') \<and>
        (m, x) \<in> set (services live) \<and> \<not> svc_swappable x"
    by (auto simp: rejectPinnedDrift_def drifted_def find_Some_iff split: option.splits)
       (metis nth_mem)+
qed

theorem pinned_services_cannot_drift_witness:
  "\<exists>new. map_of (services ex_resolved) ''db'' = Some new \<and> \<not> svc_swappable new"
proof -
  have wf: "spec_wf (json_spec ex_resolved)" "spec_wf ex_resolved"
    by (simp_all add: ex_resolved_def json_spec_def json_service_def json_map_def applyEnvConfig_def spec_wf_def
        overlay_env_def ex_spec_defs gomap_wf_def entries_def)
  have ok: "rejectPinnedDrift (json_spec ex_resolved) ex_resolved = None" by code_simp
  have "map_option svc_swappable (map_of (services (json_spec ex_resolved)) ''db'') = Some False" by code_simp
  then obtain old where "map_of (services (json_spec ex_resolved)) ''db'' = Some old" "\<not> svc_swappable old" by auto
  from pinned_services_cannot_drift [OF wf this] ok show ?thesis by blast
qed

section \<open>An unchanged redeploy may be refused\<close>

lemma deep_equal_json_map:
  assumes "gomap_wf ov"
  shows "deep_equal_map (json_map (Some ov)) (Some ov) \<longleftrightarrow> ov \<noteq> []"
  using deep_equal_map_refl [of "Some ov"] assms
  by (auto simp: json_map_def entries_def deep_equal_map_def)

lemma json_normal_service:
  assumes "json_spec base = base" "(n, svc) \<in> set (services base)"
  shows "json_map (svc_secret_env svc) = svc_secret_env svc"
proof -
  from assms(1) have "map (\<lambda>(n, svc). (n, json_service svc)) (services base) = services base"
    by (metis json_spec_def deployment_spec.select_convs(2) deployment_spec.surjective deployment_spec.update_convs(2))
  with assms(2) have "json_service svc = svc"
    by (metis (mono_tags, lifting) map_eq_conv list.map_ident case_prod_conv prod.inject)
  then show ?thesis by (metis json_service_def service.select_convs(8) service.surjective service.update_convs(7,8))
qed

lemma drifted_same:
  assumes wf: "spec_wf base" "gomap_wf config" and norm: "json_spec base = base"
    and mem: "(n, svc) \<in> set (services base)"
  shows "drifted (applyEnvConfig base config) n (json_service (svc\<lparr>svc_env := Some (overlay_env svc config)\<rparr>)) \<longleftrightarrow>
    \<not> svc_swappable svc \<and> overlay_env svc config = []"
proof -
  have look: "map_of (services (applyEnvConfig base config)) n = Some (svc\<lparr>svc_env := Some (overlay_env svc config)\<rparr>)"
    using wf(1) mem by (simp add: map_of_applyEnvConfig spec_wf_def gomap_wf_def)
  have "gomap_wf (entries (svc_secret_env svc))" using wf(1) mem by (auto simp: spec_wf_def)
  then have sec: "deep_equal_map (json_map (svc_secret_env svc)) (svc_secret_env svc)"
    unfolding json_normal_service [OF norm mem] by (rule deep_equal_map_refl)
  have "deep_equal_service (json_service (svc\<lparr>svc_env := Some (overlay_env svc config)\<rparr>))
      (svc\<lparr>svc_env := Some (overlay_env svc config)\<rparr>) \<longleftrightarrow> overlay_env svc config \<noteq> []"
    using sec deep_equal_json_map [OF gomap_wf_overlay_env [of svc config]]
    by (simp add: deep_equal_service_def json_service_def)
  then show ?thesis by (auto simp: drifted_def look)
qed

text \<open>
  Deploying again exactly what is live (same stack version, same configuration) is accepted
  precisely when every pinned service has at least one plain environment variable after the overlay.
  A pinned service without one is stored with no environment at all, comes back from the database
  as a nil map, and \<open>reflect.DeepEqual\<close> tells it apart from the empty map the overlay builds: from
  its first promotion on, every further deployment of such an environment is refused as a conflict.
\<close>

theorem unchanged_redeploy_accepted_iff:
  assumes "spec_wf base" "gomap_wf config" "json_spec base = base"
  shows "rejectPinnedDrift (json_spec (applyEnvConfig base config)) (applyEnvConfig base config) = None \<longleftrightarrow>
    (\<forall>(n, svc) \<in> set (services base). svc_swappable svc \<or> overlay_env svc config \<noteq> [])"
proof -
  have srv: "services (json_spec (applyEnvConfig base config)) =
      map (\<lambda>(n, svc). (n, json_service (svc\<lparr>svc_env := Some (overlay_env svc config)\<rparr>))) (services base)"
    by (simp add: json_spec_def services_applyEnvConfig comp_def case_prod_unfold)
  show ?thesis
    unfolding rejectPinnedDrift_None_iff srv
    using drifted_same [OF assms] by fastforce
qed

theorem unchanged_redeploy_accepted_iff_witness:
  "rejectPinnedDrift (json_spec (applyEnvConfig (json_spec ex_spec) [])) (applyEnvConfig (json_spec ex_spec) []) \<noteq> None"
proof -
  have wf: "spec_wf (json_spec ex_spec)"
    by (simp add: json_spec_def json_service_def json_map_def spec_wf_def ex_spec_defs gomap_wf_def entries_def)
  have "\<not> (\<forall>(n, svc) \<in> set (services (json_spec ex_spec)). svc_swappable svc \<or> overlay_env svc [] \<noteq> [])"
    by (simp add: json_spec_def json_service_def json_map_def ex_spec_defs overlay_env_def entries_def)
  then show ?thesis
    using unchanged_redeploy_accepted_iff [OF wf gomap_wf_Nil json_spec_idem] by blast
qed

section \<open>Expiry keeps the capacity reserved\<close>

definition ex_preview_params :: create_preview_params where
  "ex_preview_params = \<lparr>cp_env = ''pre00001-b'', cp_stack = ''s1'', cp_slug = ''pr-7'', cp_hostname = [],
     cp_ttl = 10, cp_inherit = None, cp_version = ''v1'', cp_spec = ex_resolved, cp_created_by = ''me''\<rparr>"

definition preview_created where
  "preview_created = CreatePreview ex_call ''d9'' [] ex_preview_params (ok_db op6)"

definition preview_placed where
  "preview_placed = PlaceDeployment ex_call ''d9'' ''n1'' ex_insts (PeakCPUMillis (json_spec ex_resolved))
     (PeakMemoryBytes (json_spec ex_resolved)) (ok_db preview_created)"

definition preview_expired where
  "preview_expired = expireEnvironments (ex_call\<lparr>now := 2000\<rparr>) None (ok_db preview_placed)"

text \<open>
  When a preview environment expires, its instances disappear with it but the capacity reserved
  for them stays allocated on the node, for good: no later call can find the deployment to release
  it. The run creates a preview, places it and lets it expire.
\<close>

theorem expiry_leaks_capacity:
  "succeeded preview_placed \<and> succeeded preview_expired \<and>
   service_instances (ok_db preview_expired) = [] \<and> deployments (ok_db preview_expired) = [] \<and>
   map node_alloc_mem (nodes (ok_db op6)) = [0] \<and>
   map node_alloc_mem (nodes (ok_db preview_expired)) = [PeakMemoryBytes (json_spec ex_resolved)] \<and>
   0 < PeakMemoryBytes (json_spec ex_resolved)"
  by code_simp

section \<open>A release that ignores an unpromoted rollout\<close>

definition released where
  "released = ReleaseEnvironmentHome ex_call ''env00001-a'' (ok_db op8)"

definition gave_up where
  "gave_up = UpdateDeploymentState ex_call ''d1'' DeployFailed ''timed out'' (ok_db released)"

definition second_node where
  "second_node = RegisterNode ex_inet ex_sha ex_call ''n2'' ''tok2'' (ex_node_params ''beta'' ''key2'') (ok_db gave_up)"

definition redeployed where
  "redeployed = CreateDeployment ex_call ''d2'' ex_deploy_params (ok_db second_node)"

definition replaced where
  "replaced = PlaceDeployment ex_call ''d2'' ''n2'' (zip [''i3'', ''i4''] (spec_instances (json_spec ex_resolved)))
     (PeakCPUMillis (json_spec ex_resolved)) (PeakMemoryBytes (json_spec ex_resolved)) (ok_db redeployed)"

text \<open>
  The release of a home binding looks at the live deployment only. While the first rollout of an
  environment is still on its way (or after it failed), its pinned container and named volume exist on
  the node but nothing is live: the binding is released, and the next rollout is placed on another
  node over an empty volume.
\<close>

theorem release_ignores_unpromoted_state:
  "map_option (\<lambda>d. (dep_state d, DurableReasons (dep_spec d) = [])) (get_dep (ok_db op8) ''d1'') = Some (DeployScheduling, False) \<and>
   map inst_node (service_instances (ok_db op8)) = [''n1'', ''n1''] \<and>
   succeeded released \<and> map env_home (environments (ok_db released)) = [None] \<and>
   succeeded redeployed \<and> succeeded replaced \<and> map env_home (environments (ok_db replaced)) = [Some ''n2'']"
  by code_simp

end
