(* ===== verification/Store_Security.thy ===== *)
theory Store_Security
  imports Store_Gaps
begin

text \<open>
  Trust in nodes and secrets: a node keeps its identity, its token and its age recipient whatever
  later registrations say; cordoning lasts until an operator lifts it; the ciphertexts a node is
  handed are the newest of every key, whatever was pruned; a new value is sealed to the narrowest
  set of nodes that can run the environment.
\<close>

section \<open>How a call changes the nodes\<close>

definition trusted :: "node \<Rightarrow> node \<Rightarrow> bool" where
  "trusted n n' \<longleftrightarrow>
     node_id n' = node_id n \<and> node_org n' = node_org n \<and> node_hostname n' = node_hostname n \<and>
     (node_token_hash n \<noteq> None \<longrightarrow> node_token_hash n' = node_token_hash n) \<and>
     (node_recipient n \<noteq> None \<longrightarrow> node_recipient n' = node_recipient n) \<and>
     (node_state n = NodeDraining \<longrightarrow> node_state n' = NodeDraining)"

definition trust_kept :: "db \<Rightarrow> db \<Rightarrow> bool" where
  "trust_kept s t \<longleftrightarrow> (\<exists>f xs. nodes t = map f (nodes s) @ xs \<and> (\<forall>n. trusted n (f n)))"

lemma trusted_refl [simp]: "trusted n n"
  by (simp add: trusted_def)

lemma trust_frame: "nodes t = nodes s \<Longrightarrow> trust_kept s t"
  unfolding trust_kept_def by (rule exI [of _ "\<lambda>n. n"], rule exI [of _ "[]"]) simp

lemma trust_append: "nodes t = nodes s @ [n] \<Longrightarrow> trust_kept s t"
  unfolding trust_kept_def by (rule exI [of _ "\<lambda>n. n"], rule exI [of _ "[n]"]) simp

lemma trust_update:
  assumes "nodes t = update_where P f (nodes s)" "\<And>n. P n \<Longrightarrow> trusted n (f n)"
  shows "trust_kept s t"
  unfolding trust_kept_def
  by (rule exI [of _ "\<lambda>n. if P n then f n else n"], rule exI [of _ "[]"]) (simp add: assms update_where_def)

lemma trust_node_operations:
  "RegisterNode inet sha c i tok pn s = Inr (r, t) \<Longrightarrow> trust_kept s t"
  "Heartbeat c i s = Inr (u, t) \<Longrightarrow> trust_kept s t"
  "DrainNode i s = Inr (u, t) \<Longrightarrow> trust_kept s t"
  "trust_kept s (MarkStaleNodesUnreachable c s)"
  "PlaceDeployment c d nd insts cpu mem s = Inr (u, t) \<Longrightarrow> trust_kept s t"
  "DeleteInstances d s = Inr (u, t) \<Longrightarrow> trust_kept s t"
proof -
  show "trust_kept s t" if "RegisterNode inet sha c i tok pn s = Inr (r, t)"
  proof (cases r)
    case (Pair n issued)
    from that [unfolded Pair] show ?thesis
    proof (cases rule: RegisterNode_ok)
      case (first addr es)
      then show ?thesis by (auto intro: trust_append)
    next
      case (again addr n0 es)
      have "nodes t = update_where (\<lambda>n. node_org n = rn_org pn \<and> node_hostname n = rn_hostname pn)
          (reregister c addr (sha tok) pn) (nodes s)"
        by (subst again(5)) simp
      then show ?thesis
        by (rule trust_update) (auto simp: trusted_def reregister_def next_recipient_def split: option.splits)
    qed
  qed
  show "trust_kept s t" if "Heartbeat c i s = Inr (u, t)"
    using that unfolding Heartbeat_def
    by (auto dest!: update_node_ok intro!: trust_update simp: trusted_def)
  show "trust_kept s t" if "DrainNode i s = Inr (u, t)"
    using that unfolding DrainNode_def
    by (auto dest!: update_node_ok intro!: trust_update simp: trusted_def)
  show "trust_kept s (MarkStaleNodesUnreachable c s)"
    by (auto simp: MarkStaleNodesUnreachable_def trusted_def intro!: trust_update)
  show "trust_kept s t" if "PlaceDeployment c d nd insts cpu mem s = Inr (u, t)"
    using that
  proof (cases rule: PlaceDeployment_ok)
    case not_pending
    then show ?thesis by (simp add: trust_frame)
  next
    case placed
    then have "nodes t = update_where (\<lambda>r. node_id r = nd) (add_alloc cpu mem) (nodes s)" by simp
    then show ?thesis by (rule trust_update) (simp add: trusted_def add_alloc_def)
  qed
  show "trust_kept s t" if "DeleteInstances d s = Inr (u, t)"
    using that
  proof (rule DeleteInstances_ok)
    fix x
    assume n: "case find_row (\<lambda>i. inst_dep i = d) (service_instances s) of None \<Rightarrow> nodes t = nodes s
     | Some i \<Rightarrow> nodes t = nodes (release_capacity (inst_node i) (dep_spec x) s)"
    show ?thesis
    proof (cases "find_row (\<lambda>i. inst_dep i = d) (service_instances s)")
      case None
      with n show ?thesis by (simp add: trust_frame)
    next
      case (Some i)
      with n show ?thesis by (auto simp: release_capacity_def trusted_def intro!: trust_update)
    qed
  qed
qed

lemma reap_victims_nodes: "reap_victims c vs s = Inr (done1, t) \<Longrightarrow> nodes t = nodes s"
proof (induction c vs s arbitrary: done1 t rule: reap_victims.induct)
  case (2 c e org rest s)
  from "2.prems" obtain s1 d1 where
    s1: "appendEventTx c org None None ''preview.expired'' ''preview environment expired''
      [(''environment_id'', JStr e), (''env8'', JStr (shortID e))] s = Inr s1" and
    rest: "reap_victims c rest (delete_environment e (add_tombstone c (shortID e) org s1)) = Inr (d1, t)"
    by (auto split: sum.splits prod.splits)
  have "nodes s1 = nodes s" using s1 by (rule appendEventTx_ok) simp
  with "2.IH" [OF s1 rest] show ?case by (simp add: delete_environment_def add_tombstone_def Let_def)
qed simp

lemma frame_operations:
  "CreateOrganization c i sl nm s = Inr (r1, t) \<Longrightarrow> nodes t = nodes s"
  "CreateApplication c i og sl nm s = Inr (r2, t) \<Longrightarrow> nodes t = nodes s"
  "CreateStack c i ap sl s = Inr (r3, t) \<Longrightarrow> nodes t = nodes s"
  "CreateStackVersion digest c i st raw sp cb s = Inr (r4, t) \<Longrightarrow> nodes t = nodes s"
  "SetSecret c i e k ct kid s = Inr (u, t) \<Longrightarrow> nodes t = nodes s"
  "DeleteSecret c e k s = Inr (u, t) \<Longrightarrow> nodes t = nodes s"
  "ReportInstance c nd i ob s = Inr (u, t) \<Longrightarrow> nodes t = nodes s"
  "expireEnvironments c og1 s = Inr (r7, t) \<Longrightarrow> nodes t = nodes s"
  "UpdateDeploymentState c d to why s = Inr (u, t) \<Longrightarrow> nodes t = nodes s"
  "PromoteDeployment c d s = Inr (r10, t) \<Longrightarrow> nodes t = nodes s"
  "ReleaseEnvironmentHome c e s = Inr (u, t) \<Longrightarrow> nodes t = nodes s"
  "createDeploymentTx c i p s = Inr (r8, t) \<Longrightarrow> nodes t = nodes s"
  "nodes (sweepTombstones c og1 age s) = nodes s"
  "nodes (snd (claimPreviewsForExpiryWarning c age og1 s)) = nodes s"
  "nodes (snd (PruneSecretVersions c og1 age s)) = nodes s"
  by (auto simp: CreateOrganization_def CreateApplication_def CreateStack_def CreateStackVersion_def
      insert_stack_version_def Let_def SetSecret_def DeleteSecret_def ReportInstance_def expireEnvironments_def
      sweepTombstones_def claimPreviewsForExpiryWarning_def PruneSecretVersions_def
      split: option.splits sum.splits if_splits
      dest: reap_victims_nodes elim!: appendEnvironmentEventTx_ok UpdateDeploymentState_ok PromoteDeployment_ok
        ReleaseEnvironmentHome_ok createDeploymentTx_ok)

lemma frame_deployments:
  "CreateDeployment c i p s = Inr (r8, t) \<Longrightarrow> nodes t = nodes s"
  "RollbackDeployment c i e rev1 s = Inr (r9, t) \<Longrightarrow> nodes t = nodes s"
  "CreateEnvironment c i pe s = Inr (r5, t) \<Longrightarrow> nodes t = nodes s"
  "CreatePreview c i ids pp s = Inr (r6, t) \<Longrightarrow> nodes t = nodes s"
proof -
  show create: "nodes t = nodes s" if "CreateDeployment c i p s = Inr (r8, t)" for p r8
    using that by (cases r8) (auto simp: CreateDeployment_def intro: frame_operations)
  show "nodes t = nodes s" if "RollbackDeployment c i e rev1 s = Inr (r9, t)"
    using that create by (auto simp: RollbackDeployment_def Let_def split: option.splits if_splits)
  show "nodes t = nodes s" if "CreateEnvironment c i pe s = Inr (r5, t)"
    using that by (auto simp: CreateEnvironment_def Let_def split: option.splits if_splits
        dest!: insert_environment_ok)
  show "nodes t = nodes s" if "CreatePreview c i ids pp s = Inr (r6, t)"
  proof -
    from that obtain e s1 s2 d p where
      "insert_environment e s = Inr s1" "inherit_secrets c ids (cp_inherit pp) (cp_env pp) s1 = Inr s2"
      "createDeploymentTx c i p s2 = Inr (d, t)"
      by (fastforce simp: CreatePreview_def Let_def split: option.splits prod.splits)
    then show ?thesis
      by (auto dest!: insert_environment_ok inherit_secrets_ok frame_operations(12))
  qed
qed

lemma trust_step:
  assumes "store_step inet sha digest s t"
  shows "trust_kept s t \<or> (\<exists>c i u. UncordonNode c i s = Inr (u, t)) \<or>
    (\<exists>c i r. RotateNodeRecipient c i s = Inr (r, t))"
  using assms
proof (cases rule: store_step.cases)
  case st_place
  then show ?thesis using trust_node_operations(5) by blast
next
  case st_uncordon
  then show ?thesis by blast
next
  case st_rotate
  then show ?thesis by blast
qed (auto intro: trust_node_operations trust_frame frame_operations frame_deployments)
section \<open>Identity, credentials and recipients\<close>

lemma trust_kept_get_node:
  assumes "trust_kept s t" "get_node s i = Some n"
  shows "\<exists>n'. get_node t i = Some n' \<and> trusted n n'"
proof -
  obtain f xs where t: "nodes t = map f (nodes s) @ xs" and f: "\<And>n. trusted n (f n)"
    using assms(1) unfolding trust_kept_def by blast
  have "find_row (\<lambda>r. node_id r = i) (map f (nodes s)) = map_option f (find_row (\<lambda>r. node_id r = i) (nodes s))"
    by (rule find_row_map) (use f in \<open>simp add: trusted_def\<close>)
  with assms(2) show ?thesis using f by (simp add: get_node_def t find_row_append)
qed

lemma get_node_update_where:
  assumes "\<And>r. node_id (f r) = node_id r"
  shows "get_node (s\<lparr>nodes := update_where P f (nodes s), events := ev\<rparr>) i =
    map_option (\<lambda>r. if P r then f r else r) (get_node s i)"
  unfolding get_node_def update_where_def by (simp, rule find_row_map) (simp add: assms)

text \<open>
  C38: once the control plane has recorded a node's credential, no call changes it: the node keeps
  its identifier, organization, hostname and token hash, so the same bearer tokens stay valid and no
  other becomes valid, whatever is registered under its name. Its recorded age recipient changes
  only by an operator's rotation, and then to the recipient that was pending.
\<close>

theorem node_identity_is_permanent:
  assumes "store_step inet sha digest s t" "get_node s i = Some n" "node_token_hash n = Some h"
  shows "\<exists>n'. get_node t i = Some n' \<and> node_org n' = node_org n \<and> node_hostname n' = node_hostname n \<and>
    (\<forall>plain. NodeTokenValid sha i plain t = NodeTokenValid sha i plain s) \<and>
    (\<forall>k. node_recipient n = Some k \<longrightarrow> node_recipient n' = Some k \<or>
       (\<exists>c r. RotateNodeRecipient c i s = Inr (r, t) \<and> node_recipient n' = node_pending_recipient n))"
  using trust_step [OF assms(1)]
proof (elim disjE exE)
  assume "trust_kept s t"
  from trust_kept_get_node [OF this assms(2)] show ?thesis
    using assms(2,3) by (auto simp: trusted_def NodeTokenValid_def)
next
  fix c j u
  assume "UncordonNode c j s = Inr (u, t)"
  then show ?thesis
  proof (rule UncordonNode_ok)
    fix r
    assume t: "t = s\<lparr>nodes := update_where (\<lambda>r. node_id r = j)
      (\<lambda>r. r\<lparr>node_state := (if fresh c r then NodeReady else NodeUnreachable)\<rparr>) (nodes s)\<rparr>"
    show ?thesis
      using assms(2,3) get_node_update_where [where f = "\<lambda>r. r\<lparr>node_state := (if fresh c r then NodeReady else NodeUnreachable)\<rparr>"
          and s = s and P = "\<lambda>r. node_id r = j" and ev = "events s" and i = i]
      by (auto simp: t NodeTokenValid_def)
  qed (use assms in auto)
next
  fix c j r
  assume run: "RotateNodeRecipient c j s = Inr (r, t)"
  then show ?thesis
  proof (rule RotateNodeRecipient_ok)
    fix ev
    let ?p = "\<lambda>r. node_id r = j \<and> node_pending_recipient r \<noteq> None \<and> node_pending_recipient r \<noteq> Some []"
    let ?f = "\<lambda>r. r\<lparr>node_recipient := node_pending_recipient r, node_pending_recipient := None\<rparr>"
    assume t: "t = s\<lparr>nodes := update_where ?p ?f (nodes s), events := events s @ [ev]\<rparr>"
    have g: "get_node t i = Some (if ?p n then ?f n else n)"
      using assms(2) get_node_update_where [where f = ?f and s = s and P = ?p and ev = "events s @ [ev]" and i = i] by (simp add: t)
    have "node_id n = i" using get_nodeD [OF assms(2)] by simp
    with g run assms(2,3) show ?thesis by (auto simp: NodeTokenValid_def)
  qed
qed

theorem node_identity_is_permanent_witness:
  "NodeTokenValid ex_sha ''n1'' ''tok'' (ok_db op7) = Inr True"
proof -
  have step: "store_step ex_inet ex_sha ex_digest (ok_db op6) (ok_db op7)"
    using succeeded_ok [OF ops_succeed(7)] unfolding op7_def by (auto intro: st_deploy)
  have h: "map_option node_token_hash (get_node (ok_db op6) ''n1'') = Some (Some ''htok'')" by code_simp
  then obtain n where n: "get_node (ok_db op6) ''n1'' = Some n" "node_token_hash n = Some ''htok''" by auto
  have "NodeTokenValid ex_sha ''n1'' ''tok'' (ok_db op6) = Inr True" by code_simp
  with node_identity_is_permanent [OF step n] show ?thesis by auto
qed

section \<open>Cordoning\<close>

text \<open>
  A draining node takes no new work and stays draining through registrations, heartbeats and
  staleness sweeps: it is never among the nodes the scheduler is offered, and only a successful
  uncordon of that very node ends it.
\<close>

theorem drain_lasts_until_uncordon:
  assumes "reachable_db inet sha digest s" "store_step inet sha digest s t"
    "get_node s i = Some n" "node_state n = NodeDraining"
  shows "(\<forall>c org. i \<notin> node_id ` set (ListReadyNodes c org s)) \<and>
    (\<exists>n'. get_node t i = Some n' \<and>
      (node_state n' = NodeDraining \<or> (\<exists>c. UncordonNode c i s = Inr ((), t))))"
proof
  have ids: "distinct (map node_id (nodes s))"
    using store_inv_nodes_ok [OF reachable_store_inv [OF assms(1)]] by (simp add: node_indexes_ok_def)
  have "r = n" if "r \<in> set (nodes s)" "node_id r = i" for r
    using that get_nodeD [OF assms(3)] ids by (auto simp: distinct_map inj_on_def)
  then show "\<forall>c org. i \<notin> node_id ` set (ListReadyNodes c org s)"
    using assms(4) by (auto simp: ListReadyNodes_def)
next
  show "\<exists>n'. get_node t i = Some n' \<and> (node_state n' = NodeDraining \<or> (\<exists>c. UncordonNode c i s = Inr ((), t)))"
    using trust_step [OF assms(2)]
  proof (elim disjE exE)
    assume "trust_kept s t"
    from trust_kept_get_node [OF this assms(3)] assms(4) show ?thesis by (auto simp: trusted_def)
  next
    fix c j u
    assume run: "UncordonNode c j s = Inr (u, t)"
    then show ?thesis
    proof (rule UncordonNode_ok)
      fix r
      let ?f = "\<lambda>r. r\<lparr>node_state := (if fresh c r then NodeReady else NodeUnreachable)\<rparr>"
      assume t: "t = s\<lparr>nodes := update_where (\<lambda>r. node_id r = j) ?f (nodes s)\<rparr>"
      have g: "get_node t i = Some (if node_id n = j then ?f n else n)"
        using assms(3) get_node_update_where [where f = ?f and s = s and P = "\<lambda>r. node_id r = j" and ev = "events s" and i = i] by (simp add: t)
      have "node_id n = i" using get_nodeD [OF assms(3)] by simp
      with g run assms(4) show ?thesis by auto
    qed (use assms in auto)
  next
    fix c j r
    assume "RotateNodeRecipient c j s = Inr (r, t)"
    then show ?thesis
    proof (rule RotateNodeRecipient_ok)
      fix ev
      let ?p = "\<lambda>r. node_id r = j \<and> node_pending_recipient r \<noteq> None \<and> node_pending_recipient r \<noteq> Some []"
      let ?f = "\<lambda>r. r\<lparr>node_recipient := node_pending_recipient r, node_pending_recipient := None\<rparr>"
      assume t: "t = s\<lparr>nodes := update_where ?p ?f (nodes s), events := events s @ [ev]\<rparr>"
      show ?thesis
        using assms(3,4) get_node_update_where [where f = ?f and s = s and P = ?p and ev = "events s @ [ev]" and i = i] by (auto simp: t)
    qed
  qed
qed

definition ex_drained :: db where
  "ex_drained = ok_db (DrainNode ''n1'' (ok_db op6))"

theorem drain_lasts_until_uncordon_witness:
  "''n1'' \<notin> node_id ` set (ListReadyNodes ex_call ''o1'' ex_drained)"
proof -
  have ok: "succeeded (DrainNode ''n1'' (ok_db op6))" "succeeded (Heartbeat ex_call ''n1'' ex_drained)" by code_simp+
  have reach: "ex_reach ex_drained"
    unfolding ex_drained_def by (rule reach_op [OF ex_reach_6 ok(1)]) (erule st_drain)
  obtain u t where "Heartbeat ex_call ''n1'' ex_drained = Inr (u, t)" using succeeded_ok [OF ok(2)] by blast
  then have step: "store_step ex_inet ex_sha ex_digest ex_drained t" by (rule st_heartbeat)
  have "map_option node_state (get_node ex_drained ''n1'') = Some NodeDraining" by code_simp
  then obtain n where n: "get_node ex_drained ''n1'' = Some n" "node_state n = NodeDraining" by auto
  from drain_lasts_until_uncordon [OF reach step n] show ?thesis by blast
qed
section \<open>Ciphertexts\<close>

lemma secret_versions_prune:
  "secret_versions e k (snd (PruneSecretVersions c org keep s)) =
   delete_where (prunable c org keep s) (secret_versions e k s)"
  by (simp add: secret_versions_def PruneSecretVersions_def delete_where_def conj_commute)

lemma newest_exists:
  assumes "secret_versions e k s \<noteq> []"
  obtains r where "r \<in> set (secret_versions e k s)" "newest s r"
proof -
  have "Max (set (map sec_version (secret_versions e k s))) \<in> set (map sec_version (secret_versions e k s))"
    using assms by (intro Max_in) auto
  then obtain r where r: "r \<in> set (secret_versions e k s)"
    "sec_version r = Max (set (map sec_version (secret_versions e k s)))" by auto
  from r(1) have "sec_env r = e" "sec_key r = k" by (auto simp: secret_versions_def)
  with that r show ?thesis by (simp add: newest_def)
qed

lemma newest_not_prunable: "newest s r \<Longrightarrow> \<not> prunable c org keep s r"
  by (simp add: newest_def prunable_def)

lemma max_prune:
  "Max (set (map sec_version (secret_versions e k (snd (PruneSecretVersions c org keep s))))) =
   Max (set (map sec_version (secret_versions e k s)))"
proof (cases "secret_versions e k s = []")
  case True
  then show ?thesis by (simp add: secret_versions_prune delete_where_def)
next
  case False
  then obtain r where r: "r \<in> set (secret_versions e k s)" "newest s r" by (rule newest_exists)
  from r(1) have ek: "sec_env r = e" "sec_key r = k" by (auto simp: secret_versions_def)
  show ?thesis
  proof (rule Max_eqI)
    fix v assume "v \<in> set (map sec_version (secret_versions e k (snd (PruneSecretVersions c org keep s))))"
    then show "v \<le> Max (set (map sec_version (secret_versions e k s)))"
      by (auto simp: secret_versions_prune)
  next
    show "Max (set (map sec_version (secret_versions e k s))) \<in>
        set (map sec_version (secret_versions e k (snd (PruneSecretVersions c org keep s))))"
      using r(1) newest_not_prunable [OF r(2), of c org keep] r(2) ek
      by (force simp: secret_versions_prune newest_def)
  qed simp
qed

lemma newest_prune: "newest (snd (PruneSecretVersions c org keep s)) r = newest s r"
  unfolding newest_def max_prune ..

lemma keys_prune:
  "set (map sec_key (filter (\<lambda>r. sec_env r = e) (secrets (snd (PruneSecretVersions c org keep s))))) =
   set (map sec_key (filter (\<lambda>r. sec_env r = e) (secrets s)))"
proof -
  have "\<exists>x \<in> set (secrets s). \<not> prunable c org keep s x \<and> sec_env x = sec_env r \<and> sec_key x = sec_key r"
    if "r \<in> set (secrets s)" for r
  proof -
    from that have "secret_versions (sec_env r) (sec_key r) s \<noteq> []"
      by (auto simp: secret_versions_def filter_empty_conv)
    then obtain x where "x \<in> set (secret_versions (sec_env r) (sec_key r) s)" "newest s x" by (rule newest_exists)
    then show ?thesis using newest_not_prunable [of s x c org keep] by (intro bexI [of _ x]) (auto simp: secret_versions_def)
  qed
  then show ?thesis by (fastforce simp: PruneSecretVersions_def image_iff)
qed

lemma sort_remdups_set: "set xs = set ys \<Longrightarrow> sort (remdups xs) = sort (remdups ys)" for xs :: "'a :: linorder list"
  by (rule sorted_distinct_set_unique) simp_all

text \<open>
  Pruning forgets nothing that is in use. Every node is handed the same ciphertexts as before,
  the listing shows the same keys at the same versions, the next value of a key gets the version
  number it would have had, and whatever was deleted is older than the window and superseded by a
  version that is still there.
\<close>

theorem pruning_keeps_current_secrets:
  assumes "PruneSecretVersions c org keep s = (pruned, t)"
  shows "(\<forall>n. EncryptedSecretsForNode n t = EncryptedSecretsForNode n s) \<and>
    (\<forall>e. map (\<lambda>x. (meta_key x, meta_version x)) (SecretKeysForEnv e t) =
         map (\<lambda>x. (meta_key x, meta_version x)) (SecretKeysForEnv e s)) \<and>
    (\<forall>e k. max_version e k t = max_version e k s) \<and>
    (\<forall>r \<in> set (secrets s) - set (secrets t). sec_created_at r < now c - keep \<and>
       (\<exists>x \<in> set (secrets t). sec_env x = sec_env r \<and> sec_key x = sec_key r \<and> sec_version r < sec_version x))"
proof (intro conjI allI ballI)
  have t: "t = snd (PruneSecretVersions c org keep s)" using assms by simp
  have runs: "runs_env_on e n t = runs_env_on e n s" for e n
    by (simp add: t PruneSecretVersions_def runs_env_on_def)
  show "EncryptedSecretsForNode n t = EncryptedSecretsForNode n s" for n
  proof -
    have "filter (\<lambda>r. runs_env_on (sec_env r) n s \<and> newest s r) (secrets t) =
        filter (\<lambda>r. runs_env_on (sec_env r) n s \<and> newest s r) (secrets s)"
      using newest_not_prunable
      by (auto simp: t PruneSecretVersions_def delete_where_def intro!: filter_cong)
    then show ?thesis by (simp add: EncryptedSecretsForNode_def runs newest_prune [of c org keep s, folded t])
  qed
  show "map (\<lambda>x. (meta_key x, meta_version x)) (SecretKeysForEnv e t) =
      map (\<lambda>x. (meta_key x, meta_version x)) (SecretKeysForEnv e s)" for e
    using max_prune [of e _ c org keep s] sort_remdups_set [OF keys_prune [of e c org keep s]]
    by (simp add: SecretKeysForEnv_def Let_def t)
  show "max_version e k t = max_version e k s" for e k
  proof -
    have "secret_versions e k t = [] \<longleftrightarrow> secret_versions e k s = []"
    proof
      assume none: "secret_versions e k t = []"
      show "secret_versions e k s = []"
      proof (rule ccontr)
        assume "secret_versions e k s \<noteq> []"
        then obtain r where "r \<in> set (secret_versions e k s)" "newest s r" by (rule newest_exists)
        with newest_not_prunable [of s r c org keep] none show False
          by (auto simp: t secret_versions_prune delete_where_def filter_empty_conv)
      qed
    qed (simp add: t secret_versions_prune delete_where_def)
    with max_prune [of e k c org keep s] show ?thesis by (simp add: max_version_def max_or_0_def t)
  qed
  fix r assume r: "r \<in> set (secrets s) - set (secrets t)"
  then have p: "prunable c org keep s r" by (auto simp: t PruneSecretVersions_def)
  then show "sec_created_at r < now c - keep" by (simp add: prunable_def)
  from r have "secret_versions (sec_env r) (sec_key r) s \<noteq> []"
    by (auto simp: secret_versions_def filter_empty_conv)
  then obtain x where x: "x \<in> set (secret_versions (sec_env r) (sec_key r) s)" "newest s x" by (rule newest_exists)
  with p newest_not_prunable [OF x(2), of c org keep]
  show "\<exists>x \<in> set (secrets t). sec_env x = sec_env r \<and> sec_key x = sec_key r \<and> sec_version r < sec_version x"
    by (intro bexI [of _ x]) (auto simp: t PruneSecretVersions_def secret_versions_def prunable_def newest_def)
qed

definition ex_two_versions :: db where
  "ex_two_versions = ok_db (SetSecret (ex_call\<lparr>now := 1001\<rparr>) ''x2'' ''env00001-a'' ''DB'' ''c2'' ''age''
     (ok_db (SetSecret ex_call ''x1'' ''env00001-a'' ''DB'' ''c1'' ''age'' (ok_db op8))))"

theorem pruning_keeps_current_secrets_witness:
  "fst (PruneSecretVersions (ex_call\<lparr>now := 5000\<rparr>) None 10 ex_two_versions) = 1 \<and>
   EncryptedSecretsForNode ''n1'' (snd (PruneSecretVersions (ex_call\<lparr>now := 5000\<rparr>) None 10 ex_two_versions)) =
     [(''env00001'', ''DB'', ''c2'')]"
proof
  show "fst (PruneSecretVersions (ex_call\<lparr>now := 5000\<rparr>) None 10 ex_two_versions) = 1" by code_simp
  have "EncryptedSecretsForNode ''n1'' ex_two_versions = [(''env00001'', ''DB'', ''c2'')]" by code_simp
  then show "EncryptedSecretsForNode ''n1'' (snd (PruneSecretVersions (ex_call\<lparr>now := 5000\<rparr>) None 10 ex_two_versions)) =
     [(''env00001'', ''DB'', ''c2'')]"
    using pruning_keeps_current_secrets [of "ex_call\<lparr>now := 5000\<rparr>" None 10 ex_two_versions]
    by (metis prod.collapse)
qed

text \<open>
  C39: setting a secret appends one version and that version is the one in force. It is numbered one above
  the highest earlier one (1 when there is none), it is the only newest row of its environment and key,
  and no other key is affected. A node is handed exactly what it would be handed if the key had no
  earlier version at all, and after that, when it runs the environment, the new ciphertext: no older
  version of the key reaches any node.
\<close>

theorem set_secret_takes_effect:
  assumes "SetSecret c i e k ct kid s = Inr (u, t)"
  shows "\<exists>r. secrets t = secrets s @ [r] \<and> sec_env r = e \<and> sec_key r = k \<and> sec_ciphertext r = ct \<and>
    sec_version r = (if secret_versions e k s = [] then 1 else Max (sec_version ` set (secret_versions e k s)) + 1) \<and>
    (\<forall>x \<in> set (secrets s). sec_env x = e \<and> sec_key x = k \<longrightarrow> sec_version x < sec_version r) \<and>
    filter (newest t) (secret_versions e k t) = [r] \<and>
    (\<forall>n. EncryptedSecretsForNode n t =
       EncryptedSecretsForNode n (s\<lparr>secrets := filter (\<lambda>x. \<not> (sec_env x = e \<and> sec_key x = k)) (secrets s)\<rparr>) @
       (if runs_env_on e n s then [(shortID e, k, ct)] else [])) \<and>
    (\<forall>e' k'. (e', k') \<noteq> (e, k) \<longrightarrow> secret_versions e' k' t = secret_versions e' k' s)"
proof -
  define r where "r = \<lparr>sec_id = i, sec_env = e, sec_key = k, sec_ciphertext = ct, sec_key_id = kid,
    sec_version = max_version e k s + 1, sec_created_at = now c\<rparr>"
  define q where "q = s\<lparr>secrets := filter (\<lambda>x. \<not> (sec_env x = e \<and> sec_key x = k)) (secrets s)\<rparr>"
  have q: "secrets q = filter (\<lambda>x. \<not> (sec_env x = e \<and> sec_key x = k)) (secrets s)" by (simp add: q_def)
  from assms have t: "secrets t = secrets s @ [r]"
    and runs: "runs_env_on e' n t = runs_env_on e' n s" "runs_env_on e' n q = runs_env_on e' n s" for e' n
    by (auto simp: SetSecret_def Let_def r_def runs_env_on_def q_def split: if_splits elim!: appendEnvironmentEventTx_ok)
  have less: "sec_version x < sec_version r" if "x \<in> set (secret_versions e k s)" for x
    using that max_or_0_less [of "sec_version x" "map sec_version (secret_versions e k s)"]
    by (auto simp: r_def max_version_def)
  have vs: "secret_versions e k t = secret_versions e k s @ [r]" by (simp add: secret_versions_def t r_def)
  have top: "Max (set (map sec_version (secret_versions e k t))) = sec_version r"
    by (rule Max_eqI) (use less vs in \<open>auto intro: less_imp_le\<close>)
  have new: "newest t x \<longleftrightarrow> x = r" if "x \<in> set (secret_versions e k t)" for x
  proof -
    from that have "sec_env x = e" "sec_key x = k" by (auto simp: secret_versions_def)
    then have "newest t x \<longleftrightarrow> sec_version x = sec_version r" using top by (simp add: newest_def)
    moreover from that vs have "x = r \<or> sec_version x < sec_version r" using less by auto
    ultimately show ?thesis by auto
  qed
  have old: "r \<notin> set (secret_versions e k s)" using less by blast
  then have only: "filter (newest t) (secret_versions e k t) = [r]"
    using new by (auto simp: vs filter_empty_conv)
  have stale: "\<not> newest t x" if "x \<in> set (secrets s)" "sec_env x = e" "sec_key x = k" for x
  proof -
    from that have x: "x \<in> set (secret_versions e k s)" by (simp add: secret_versions_def)
    with old have "x \<noteq> r" by auto
    with new x vs show ?thesis by simp
  qed
  have others: "secret_versions e' k' t = secret_versions e' k' s" "secret_versions e' k' q = secret_versions e' k' s"
    if "(e', k') \<noteq> (e, k)" for e' k'
    using that by (auto simp: secret_versions_def t q r_def intro!: filter_cong)
  have "filter (\<lambda>x. runs_env_on (sec_env x) n t \<and> newest t x) (secrets s) =
      filter (\<lambda>x. runs_env_on (sec_env x) n q \<and> newest q x) (secrets q)" for n
  proof -
    have "newest q x = newest t x" if "\<not> (sec_env x = e \<and> sec_key x = k)" for x
      using that others [of "sec_env x" "sec_key x"] by (simp add: newest_def)
    with stale show ?thesis unfolding q filter_filter runs by (intro filter_cong refl) blast
  qed
  moreover have "newest t r" using new vs by simp
  ultimately have handed: "EncryptedSecretsForNode n t = EncryptedSecretsForNode n q @
      (if runs_env_on e n s then [(shortID e, k, ct)] else [])" for n
    unfolding EncryptedSecretsForNode_def by (simp add: t runs) (simp add: r_def)
  have number: "sec_version r = (if secret_versions e k s = [] then 1 else Max (sec_version ` set (secret_versions e k s)) + 1)"
    by (simp add: r_def max_version_def max_or_0_def)
  have "\<forall>x \<in> set (secrets s). sec_env x = e \<and> sec_key x = k \<longrightarrow> sec_version x < sec_version r"
    using less by (simp add: secret_versions_def)
  moreover have "sec_env r = e" "sec_key r = k" "sec_ciphertext r = ct" by (simp_all add: r_def)
  ultimately show ?thesis using t only handed number others(1) unfolding q_def by blast
qed

theorem set_secret_takes_effect_witness:
  "EncryptedSecretsForNode ''n1'' (ok_db (SetSecret ex_call ''x9'' ''env00001-a'' ''DB'' ''c9'' ''age'' ex_two_versions)) =
     [(''env00001'', ''DB'', ''c9'')]"
proof -
  let ?r = "SetSecret ex_call ''x9'' ''env00001-a'' ''DB'' ''c9'' ''age'' ex_two_versions"
  let ?s = "ex_two_versions\<lparr>secrets := filter (\<lambda>x. \<not> (sec_env x = ''env00001-a'' \<and> sec_key x = ''DB'')) (secrets ex_two_versions)\<rparr>"
  have "succeeded ?r" and runs: "runs_env_on ''env00001-a'' ''n1'' ex_two_versions" and
    short: "shortID ''env00001-a'' = ''env00001''" and none: "EncryptedSecretsForNode ''n1'' ?s = []"
    by code_simp+
  then obtain u where run: "?r = Inr (u, ok_db ?r)" using succeeded_ok by blast
  from set_secret_takes_effect [OF run] have "EncryptedSecretsForNode ''n1'' (ok_db ?r) = EncryptedSecretsForNode ''n1'' ?s @
      (if runs_env_on ''env00001-a'' ''n1'' ex_two_versions then [(shortID ''env00001-a'', ''DB'', ''c9'')] else [])"
    by blast
  then show ?thesis by (simp only: none runs short if_True append_Nil)
qed

end
