(* ===== verification/Depends_Graph.thy ===== *)
theory Depends_Graph
  imports Deployment_Spec
begin

text \<open>
  The constraints of a specification that span services, \<open>validateGraph\<close> and \<open>findCycle\<close> of
  \<open>internal/parser/parser.go\<close>. The search is the recursive closure \<open>visit\<close> of the source with its two
  captured variables as state; the depth of the recursion is bounded by a fuel argument, and the
  number of services is shown to be enough, so the search always returns.
\<close>

section \<open>The graph\<close>

definition edges :: "deployment_spec \<Rightarrow> (string \<times> string) set" where
  "edges s = {(n, d). n \<in> dom (map_of (services s)) \<and> d \<in> set (svc_depends (service_at s n)) \<and>
     d \<in> dom (map_of (services s))}"

definition cycle_path :: "('a \<times> 'a) set \<Rightarrow> 'a list \<Rightarrow> bool" where
  "cycle_path E p \<longleftrightarrow> 2 \<le> length p \<and> hd p = last p \<and> successively (\<lambda>a b. (a, b) \<in> E) p"

lemma successively_trancl:
  "successively (\<lambda>a b. (a, b) \<in> E) (x # p) \<Longrightarrow> p \<noteq> [] \<Longrightarrow> (x, last p) \<in> E\<^sup>+"
proof (induction p arbitrary: x)
  case (Cons y p)
  show ?case
  proof (cases "p = []")
    case False
    with Cons have "(y, last p) \<in> E\<^sup>+" "(x, y) \<in> E" by simp_all
    with False show ?thesis by (simp add: trancl_into_trancl2)
  qed (use Cons.prems in auto)
qed simp

lemma cycle_path_not_acyclic: "cycle_path E p \<Longrightarrow> \<not> acyclic E"
proof -
  assume p: "cycle_path E p"
  then obtain x q where "p = x # q" "q \<noteq> []" by (cases p; cases "tl p") (auto simp: cycle_path_def)
  with p have "(x, last q) \<in> E\<^sup>+" "last q = x"
    by (auto simp: cycle_path_def intro: successively_trancl)
  then show ?thesis by (auto simp: acyclic_def)
qed

lemma trancl_closed: "(a, b) \<in> E\<^sup>+ \<Longrightarrow> a \<in> B \<Longrightarrow> (\<And>x y. x \<in> B \<Longrightarrow> (x, y) \<in> E \<Longrightarrow> y \<in> B) \<Longrightarrow> b \<in> B"
  by (induction rule: trancl_induct) blast+

section \<open>The search\<close>

datatype color = White | Grey | Black

record dfs =
  dfs_color :: "string \<Rightarrow> color"
  dfs_path :: "string list"

text \<open>
  \<open>Some (Some out, _)\<close> is the return value true with the variable \<open>out\<close> set, \<open>Some (None, _)\<close> the return
  value false, and \<open>None\<close> would be an exhausted fuel.
\<close>

fun visit :: "nat \<Rightarrow> deployment_spec \<Rightarrow> string \<Rightarrow> dfs \<Rightarrow> (string list option \<times> dfs) option"
  and visit_deps :: "nat \<Rightarrow> deployment_spec \<Rightarrow> string list \<Rightarrow> dfs \<Rightarrow> (string list option \<times> dfs) option" where
  "visit 0 s n st = None"
| "visit (Suc k) s n st =
     (case visit_deps k s (svc_depends (service_at s n))
             (st\<lparr>dfs_color := (dfs_color st)(n := Grey), dfs_path := dfs_path st @ [n]\<rparr>) of
        None \<Rightarrow> None
      | Some (Some out, t) \<Rightarrow> Some (Some out, t)
      | Some (None, t) \<Rightarrow>
          Some (None, t\<lparr>dfs_path := butlast (dfs_path t), dfs_color := (dfs_color t)(n := Black)\<rparr>))"
| "visit_deps k s [] st = Some (None, st)"
| "visit_deps k s (dep # deps) st =
     (if map_of (services s) dep = None then visit_deps k s deps st
      else case dfs_color st dep of
        Grey \<Rightarrow>
          Some (Some ((if dep \<in> set (dfs_path st) then dropWhile (\<lambda>p. p \<noteq> dep) (dfs_path st) else dfs_path st) @ [dep]), st)
      | White \<Rightarrow>
          (case visit k s dep st of
             None \<Rightarrow> None
           | Some (Some out, t) \<Rightarrow> Some (Some out, t)
           | Some (None, t) \<Rightarrow> visit_deps k s deps t)
      | Black \<Rightarrow> visit_deps k s deps st)"

fun find_loop :: "nat \<Rightarrow> deployment_spec \<Rightarrow> string list \<Rightarrow> dfs \<Rightarrow> string list option" where
  "find_loop k s [] st = Some []"
| "find_loop k s (n # ns) st =
     (if dfs_color st n = White
      then (case visit k s n st of
              None \<Rightarrow> None
            | Some (Some out, t) \<Rightarrow> Some out
            | Some (None, t) \<Rightarrow> find_loop k s ns t)
      else find_loop k s ns st)"

definition dfs_init :: dfs where
  "dfs_init = \<lparr>dfs_color = (\<lambda>_. White), dfs_path = []\<rparr>"

definition findCycle :: "deployment_spec \<Rightarrow> string list" where
  "findCycle s = (case find_loop (length (services s)) s (ServiceNames s) dfs_init of Some out \<Rightarrow> out | None \<Rightarrow> [])"

section \<open>It returns\<close>

definition whites :: "deployment_spec \<Rightarrow> dfs \<Rightarrow> string set" where
  "whites s st = {n \<in> dom (map_of (services s)). dfs_color st n = White}"

lemma whites_finite [simp]: "finite (whites s st)"
  by (simp add: whites_def finite_dom_map_of)

lemma visit_whites:
  "visit k s n st = Some (r, t) \<Longrightarrow> whites s t \<subseteq> whites s st"
  "visit_deps k s deps st = Some (r, t) \<Longrightarrow> whites s t \<subseteq> whites s st"
proof (induction k s n st and k s deps st arbitrary: r t and r t rule: visit_visit_deps.induct)
  case (2 k s n st)
  then show ?case by (fastforce simp: whites_def split: option.splits prod.splits if_splits)
next
  case (4 k s dep deps st)
  then show ?case by (fastforce split: option.splits prod.splits color.splits if_splits)
qed (auto simp: whites_def)

lemma visit_returns:
  "n \<in> whites s st \<Longrightarrow> card (whites s st) \<le> k \<Longrightarrow> visit k s n st \<noteq> None"
  "card (whites s st) \<le> k \<Longrightarrow> visit_deps k s deps st \<noteq> None"
proof (induction k s n st and k s deps st rule: visit_visit_deps.induct)
  case (1 s n st)
  then show ?case by auto
next
  case (2 k s n st)
  let ?st = "st\<lparr>dfs_color := (dfs_color st)(n := Grey), dfs_path := dfs_path st @ [n]\<rparr>"
  have "whites s ?st = whites s st - {n}" by (auto simp: whites_def)
  with 2(2,3) have "card (whites s ?st) \<le> k" by (simp add: card_Diff_singleton)
  from 2(1) [OF this] show ?case by (auto split: option.splits)
next
  case (4 k s dep deps st)
  show ?case
  proof (cases "map_of (services s) dep = None")
    case False
    show ?thesis
    proof (cases "dfs_color st dep")
      case White
      with False have "dep \<in> whites s st" by (auto simp: whites_def)
      from 4(2) [OF False White this 4(5)] obtain r t where run: "visit k s dep st = Some (r, t)" by auto
      have "card (whites s t) \<le> k" using visit_whites(1) [OF run] 4(5) by (meson card_mono le_trans whites_finite)
      with 4(3) [OF False White run refl] run White False show ?thesis by (cases r) auto
    qed (use 4 False in auto)
  qed (use 4 in auto)
qed simp

lemma find_loop_returns:
  assumes "card (whites s st) \<le> k" "set ns \<subseteq> dom (map_of (services s))"
  shows "find_loop k s ns st \<noteq> None"
  using assms
proof (induction k s ns st rule: find_loop.induct)
  case (2 k s n ns st)
  show ?case
  proof (cases "dfs_color st n = White")
    case True
    with 2(4) have "n \<in> whites s st" by (auto simp: whites_def)
    from visit_returns(1) [OF this 2(3)] obtain r t where run: "visit k s n st = Some (r, t)" by auto
    have "card (whites s t) \<le> k" using visit_whites(1) [OF run] 2(3) by (meson card_mono le_trans whites_finite)
    with 2(1) [OF True run refl] run True 2(4) show ?thesis by (cases r) auto
  qed (use 2 in auto)
qed simp

section \<open>It is right\<close>

definition dfs_ok :: "deployment_spec \<Rightarrow> dfs \<Rightarrow> bool" where
  "dfs_ok s st \<longleftrightarrow>
     set (dfs_path st) = {n. dfs_color st n = Grey} \<and>
     set (dfs_path st) \<subseteq> dom (map_of (services s)) \<and>
     successively (\<lambda>a b. (a, b) \<in> edges s) (dfs_path st) \<and>
     (\<forall>a b. dfs_color st a = Black \<longrightarrow> (a, b) \<in> edges s \<longrightarrow> dfs_color st b = Black) \<and>
     (\<forall>a. dfs_color st a = Black \<longrightarrow> (a, a) \<notin> (edges s)\<^sup>+)"

definition dfs_post :: "deployment_spec \<Rightarrow> dfs \<Rightarrow> string list option \<Rightarrow> dfs \<Rightarrow> bool" where
  "dfs_post s st r t = (case r of
     Some out \<Rightarrow> cycle_path (edges s) out
   | None \<Rightarrow> dfs_ok s t \<and> dfs_path t = dfs_path st \<and> (\<forall>x. dfs_color st x \<noteq> White \<longrightarrow> dfs_color t x = dfs_color st x))"

lemma dfs_post_trans: "dfs_post s st None t \<Longrightarrow> dfs_post s t r u \<Longrightarrow> dfs_post s st r u"
  by (auto simp: dfs_post_def split: option.splits)

lemma successively_dropWhile: "successively P xs \<Longrightarrow> successively P (dropWhile Q xs)"
  by (induction xs) (auto simp: successively_Cons)

lemma grey_closes_cycle:
  assumes "dfs_ok s st" "dfs_color st d = Grey" "(last (dfs_path st), d) \<in> edges s"
  shows "cycle_path (edges s) ((if d \<in> set (dfs_path st) then dropWhile (\<lambda>p. p \<noteq> d) (dfs_path st) else dfs_path st) @ [d])"
proof -
  let ?p = "dropWhile (\<lambda>p. p \<noteq> d) (dfs_path st)"
  from assms have d: "d \<in> set (dfs_path st)" by (auto simp: dfs_ok_def)
  then have ne: "?p \<noteq> []" by auto
  have hd: "hd ?p = d" using hd_dropWhile [OF ne] by simp
  from assms(1) have "successively (\<lambda>a b. (a, b) \<in> edges s) ?p" by (simp add: dfs_ok_def successively_dropWhile)
  moreover have "last ?p = last (dfs_path st)" using ne by (metis append_is_Nil_conv last_append takeWhile_dropWhile_id)
  ultimately have "successively (\<lambda>a b. (a, b) \<in> edges s) (?p @ [d])"
    using assms(3) by (simp add: successively_append_iff)
  with d ne hd show ?thesis by (cases ?p) (auto simp: cycle_path_def)
qed

lemma enter_ok:
  assumes "dfs_ok s st" "dfs_color st n = White" "n \<in> dom (map_of (services s))"
    "dfs_path st = [] \<or> (last (dfs_path st), n) \<in> edges s"
  shows "dfs_ok s (st\<lparr>dfs_color := (dfs_color st)(n := Grey), dfs_path := dfs_path st @ [n]\<rparr>)"
  using assms by (auto simp: dfs_ok_def successively_append_iff)

text \<open>A node all of whose successors are finished is on no cycle, since finished nodes lead only to finished ones.\<close>

lemma leave_ok:
  assumes ok: "dfs_ok s t" and path: "dfs_path t = p @ [n]" and n: "dfs_color t n = Grey" "n \<notin> set p"
    and succ: "\<forall>d. (n, d) \<in> edges s \<longrightarrow> dfs_color t d = Black"
  shows "dfs_ok s (t\<lparr>dfs_path := butlast (dfs_path t), dfs_color := (dfs_color t)(n := Black)\<rparr>)"
proof -
  have "(n, n) \<notin> (edges s)\<^sup>+"
  proof
    assume "(n, n) \<in> (edges s)\<^sup>+"
    then obtain d where d: "(n, d) \<in> edges s" "(d, n) \<in> (edges s)\<^sup>*" by (meson tranclD)
    have "n = d \<or> (d, n) \<in> (edges s)\<^sup>+" using d(2) by (auto dest: rtranclD)
    moreover have "dfs_color t d = Black" using succ d(1) by blast
    ultimately have "dfs_color t n = Black"
      using trancl_closed [of d n "edges s" "{x. dfs_color t x = Black}"] ok by (auto simp: dfs_ok_def)
    with n(1) show False by simp
  qed
  moreover have "set p = {x. dfs_color t x = Grey} - {n}" using ok path n(2) by (auto simp: dfs_ok_def)
  ultimately show ?thesis
    using ok path succ n by (auto simp: dfs_ok_def successively_append_iff)
qed

lemma visit_correct:
  "visit k s n st = Some (r, t) \<Longrightarrow> dfs_ok s st \<Longrightarrow> dfs_color st n = White \<Longrightarrow> n \<in> dom (map_of (services s)) \<Longrightarrow>
   dfs_path st = [] \<or> (last (dfs_path st), n) \<in> edges s \<Longrightarrow>
   dfs_post s st r t \<and> (r = None \<longrightarrow> dfs_color t n = Black)"
  "visit_deps k s deps st = Some (r, t) \<Longrightarrow> dfs_ok s st \<Longrightarrow>
   (\<forall>d \<in> set deps. d \<in> dom (map_of (services s)) \<longrightarrow> (last (dfs_path st), d) \<in> edges s) \<Longrightarrow>
   dfs_post s st r t \<and> (r = None \<longrightarrow> (\<forall>d \<in> set deps. d \<in> dom (map_of (services s)) \<longrightarrow> dfs_color t d = Black))"
proof (induction k s n st and k s deps st arbitrary: r t and r t rule: visit_visit_deps.induct)
  case (2 k s n st)
  let ?st = "st\<lparr>dfs_color := (dfs_color st)(n := Grey), dfs_path := dfs_path st @ [n]\<rparr>"
  have ok: "dfs_ok s ?st" by (rule enter_ok [OF 2(3,4,5,6)])
  have out: "\<forall>d \<in> set (svc_depends (service_at s n)). d \<in> dom (map_of (services s)) \<longrightarrow> (last (dfs_path ?st), d) \<in> edges s"
    using 2(5) by (auto simp: edges_def)
  from 2(2) obtain r1 t1 where run: "visit_deps k s (svc_depends (service_at s n)) ?st = Some (r1, t1)"
    by (auto split: option.splits)
  note post = 2(1) [OF run ok out]
  show ?case
  proof (cases r1)
    case None
    with run 2(2) have r: "r = None" and t: "t = t1\<lparr>dfs_path := butlast (dfs_path t1), dfs_color := (dfs_color t1)(n := Black)\<rparr>"
      by auto
    from post None have p: "dfs_ok s t1" "dfs_path t1 = dfs_path st @ [n]" "dfs_color t1 n = Grey"
      and keep: "\<forall>x. dfs_color ?st x \<noteq> White \<longrightarrow> dfs_color t1 x = dfs_color ?st x"
      by (auto simp: dfs_post_def)
    have fresh: "n \<notin> set (dfs_path st)" using 2(3,4) by (auto simp: dfs_ok_def)
    have succ: "\<forall>d. (n, d) \<in> edges s \<longrightarrow> dfs_color t1 d = Black" using post None by (auto simp: edges_def)
    have "dfs_ok s t" unfolding t by (rule leave_ok [OF p fresh succ])
    with r t p(2) keep 2(4) show ?thesis by (auto simp: dfs_post_def)
  qed (use run 2(2) post in \<open>auto simp: dfs_post_def\<close>)
next
  case (4 k s dep deps st)
  show ?case
  proof (cases "map_of (services s) dep = None")
    case True
    with 4(1) [OF True _ 4(6)] 4(5,7) show ?thesis by auto
  next
    case dep: False
    then have e: "(last (dfs_path st), dep) \<in> edges s" using 4(7) by auto
    show ?thesis
    proof (cases "dfs_color st dep")
      case Grey
      with grey_closes_cycle [OF 4(6) Grey e] 4(5) dep show ?thesis by (auto simp: dfs_post_def)
    next
      case Black
      with 4(4) [OF dep Black _ 4(6)] 4(5,7) dep show ?thesis by (auto simp: dfs_post_def split: option.splits)
    next
      case White
      from 4(5) dep White obtain r1 t1 where run: "visit k s dep st = Some (r1, t1)" by (auto split: option.splits)
      have post: "dfs_post s st r1 t1 \<and> (r1 = None \<longrightarrow> dfs_color t1 dep = Black)"
        using 4(2) [OF dep White run 4(6) White] dep e by auto
      show ?thesis
      proof (cases r1)
        case None
        with 4(5) dep White run have rest: "visit_deps k s deps t1 = Some (r, t)" by auto
        from post None have t1: "dfs_ok s t1" "dfs_path t1 = dfs_path st" "dfs_color t1 dep = Black" by (auto simp: dfs_post_def)
        have "dfs_post s t1 r t \<and> (r = None \<longrightarrow> (\<forall>d \<in> set deps. d \<in> dom (map_of (services s)) \<longrightarrow> dfs_color t d = Black))"
          using 4(3) [OF dep White run refl None rest t1(1)] t1(2) 4(7) by auto
        moreover have "dfs_color t dep = Black" if "r = None" using calculation that t1(3) by (auto simp: dfs_post_def)
        ultimately show ?thesis using post None dfs_post_trans [of s st t1 r t] by auto
      qed (use 4(5) dep White run post in \<open>auto simp: dfs_post_def\<close>)
    qed
  qed
qed (auto simp: dfs_post_def)

lemma find_loop_correct:
  assumes "find_loop k s ns st = Some out" "dfs_ok s st" "dfs_path st = []" "set ns \<subseteq> dom (map_of (services s))"
  shows "if out = [] then \<exists>t. dfs_ok s t \<and> (\<forall>x. dfs_color st x \<noteq> White \<longrightarrow> dfs_color t x = dfs_color st x) \<and>
           dfs_path t = [] \<and> (\<forall>n \<in> set ns. dfs_color t n = Black)
         else cycle_path (edges s) out"
  using assms
proof (induction k s ns st rule: find_loop.induct)
  case (2 k s n ns st)
  have grey: "dfs_color st x \<noteq> Grey" for x using 2(4,5) by (auto simp: dfs_ok_def)
  show ?case
  proof (cases "dfs_color st n = White")
    case True
    from 2(3) True obtain r t where run: "visit k s n st = Some (r, t)" by (auto split: option.splits)
    have post: "dfs_post s st r t" "r = None \<longrightarrow> dfs_color t n = Black"
      using visit_correct(1) [OF run 2(4) True] 2(5,6) by auto
    show ?thesis
    proof (cases r)
      case None
      with post have t: "dfs_ok s t" "dfs_path t = []" "dfs_color t n = Black"
        "\<forall>x. dfs_color st x \<noteq> White \<longrightarrow> dfs_color t x = dfs_color st x"
        using 2(5) by (auto simp: dfs_post_def)
      have rest: "find_loop k s ns t = Some out" using 2(3) True run None by simp
      have "set ns \<subseteq> dom (map_of (services s))" using 2(6) by simp
      from 2(1) [OF True run refl None rest t(1,2) this] t(3,4) show ?thesis by (auto split: if_splits)
    next
      case (Some c)
      with post have "cycle_path (edges s) c" by (simp add: dfs_post_def)
      with Some 2(3) True run show ?thesis by (auto simp: cycle_path_def)
    qed
  next
    case False
    with grey [of n] have "dfs_color st n = Black" by (cases "dfs_color st n") auto
    with 2(2) [OF False _ 2(4,5)] 2(3,6) False show ?thesis by (auto split: if_splits)
  qed
qed auto

lemma card_services: "card (dom (map_of m)) \<le> length m"
  by (metis card_length dom_map_of_conv_image_fst length_map set_map)

lemma find_cycle_facts:
  "find_loop (length (services s)) s (ServiceNames s) dfs_init = Some (findCycle s) \<and>
   (findCycle s = [] \<longleftrightarrow> acyclic (edges s)) \<and> (findCycle s = [] \<or> cycle_path (edges s) (findCycle s))"
proof -
  have "dfs_ok s dfs_init" "dfs_path dfs_init = []" by (auto simp: dfs_ok_def dfs_init_def)
  moreover have names: "set (ServiceNames s) = dom (map_of (services s))" by (simp add: ServiceNames_def)
  moreover have "card (whites s dfs_init) \<le> length (services s)"
    using card_services [of "services s"] by (simp add: whites_def dfs_init_def)
  ultimately obtain out where run: "find_loop (length (services s)) s (ServiceNames s) dfs_init = Some out"
    using find_loop_returns [of s dfs_init "length (services s)" "ServiceNames s"] by auto
  then have out: "findCycle s = out" by (simp add: findCycle_def)
  note right = find_loop_correct [OF run \<open>dfs_ok s dfs_init\<close> \<open>dfs_path dfs_init = []\<close>]
  have "acyclic (edges s)" if "out = []"
  proof -
    from right that names obtain t where t: "dfs_ok s t" "\<forall>n \<in> dom (map_of (services s)). dfs_color t n = Black" by auto
    have "(a, a) \<notin> (edges s)\<^sup>+" for a
    proof
      assume loop: "(a, a) \<in> (edges s)\<^sup>+"
      then have "a \<in> dom (map_of (services s))" by (cases rule: tranclE) (auto simp: edges_def)
      with t loop show False by (auto simp: dfs_ok_def)
    qed
    then show ?thesis by (simp add: acyclic_def)
  qed
  moreover have "cycle_path (edges s) out" if "out \<noteq> []" using right that names by simp
  ultimately show ?thesis using run out cycle_path_not_acyclic by metis
qed

text \<open>
  C24: the cycle check of the dependency graph. With a recursion depth of the number of services the
  search always returns; it returns nothing exactly when the dependencies are acyclic, and otherwise
  a list of services each of which depends on the next, ending where it starts.
\<close>

theorem find_cycle_decides:
  "find_loop (length (services s)) s (ServiceNames s) dfs_init = Some (findCycle s) \<and>
   (findCycle s = [] \<longleftrightarrow> acyclic (edges s)) \<and> (findCycle s = [] \<or> cycle_path (edges s) (findCycle s))"
  by (rule find_cycle_facts)

section \<open>The constraints\<close>

record validation_error =
  ve_field :: string
  ve_message :: string

definition unknown_deps :: "deployment_spec \<Rightarrow> string \<Rightarrow> validation_error list" where
  "unknown_deps s name =
     map (\<lambda>dep. \<lparr>ve_field = ''services.'' @ name @ ''.depends_on'', ve_message = ''references unknown service '' @ quote dep\<rparr>)
       (filter (\<lambda>dep. map_of (services s) dep = None) (svc_depends (service_at s name)))"

definition validateGraph :: "deployment_spec \<Rightarrow> validation_error list" where
  "validateGraph s =
     (let cycle = findCycle s;
          ingress = filter (\<lambda>name. svc_ingress (service_at s name) \<noteq> None) (ServiceNames s)
      in concat (map (unknown_deps s) (ServiceNames s)) @
         (if cycle \<noteq> []
          then [\<lparr>ve_field = ''depends_on'', ve_message = ''dependency cycle: '' @ str_join '' -> '' cycle\<rparr>] else []) @
         (if length ingress > 1
          then [\<lparr>ve_field = ''x-composectl.ingress'',
                 ve_message = ''multiple services declare ingress: '' @ str_join '', '' ingress\<rparr>] else []))"

definition graph_ok :: "deployment_spec \<Rightarrow> bool" where
  "graph_ok s \<longleftrightarrow>
     (\<forall>n svc. map_of (services s) n = Some svc \<longrightarrow> set (svc_depends svc) \<subseteq> dom (map_of (services s))) \<and>
     acyclic (edges s) \<and>
     (\<forall>a b sa sb. map_of (services s) a = Some sa \<longrightarrow> map_of (services s) b = Some sb \<longrightarrow>
        svc_ingress sa \<noteq> None \<longrightarrow> svc_ingress sb \<noteq> None \<longrightarrow> a = b)"

lemma if_singleton: "(if b then [x] else []) = [] \<longleftrightarrow> \<not> b"
  by simp

lemma at_most_one: "distinct xs \<Longrightarrow> length (filter P xs) \<le> 1 \<longleftrightarrow> (\<forall>a \<in> set xs. \<forall>b \<in> set xs. P a \<longrightarrow> P b \<longrightarrow> a = b)"
proof (induction xs)
  case (Cons x xs)
  then show ?case by (cases "P x") (auto simp: filter_empty_conv)
qed simp

lemma validateGraph_iff:
  assumes "gomap_wf (services s)"
  shows "validateGraph s = [] \<longleftrightarrow> graph_ok s"
proof -
  have at: "service_at s n = svc" if "map_of (services s) n = Some svc" for n svc using that by (simp add: service_at_def)
  have one: "length (filter (\<lambda>n. svc_ingress (service_at s n) \<noteq> None) (ServiceNames s)) \<le> 1 \<longleftrightarrow>
      (\<forall>a b sa sb. map_of (services s) a = Some sa \<longrightarrow> map_of (services s) b = Some sb \<longrightarrow>
        svc_ingress sa \<noteq> None \<longrightarrow> svc_ingress sb \<noteq> None \<longrightarrow> a = b)"
    using assms at by (subst at_most_one) (fastforce simp: ServiceNames_def)+
  have "concat (map (unknown_deps s) (ServiceNames s)) = [] \<longleftrightarrow>
      (\<forall>n \<in> dom (map_of (services s)). \<forall>d \<in> set (svc_depends (service_at s n)). map_of (services s) d \<noteq> None)"
    by (auto simp: unknown_deps_def ServiceNames_def filter_empty_conv)
  also have "\<dots> \<longleftrightarrow> (\<forall>n svc. map_of (services s) n = Some svc \<longrightarrow> set (svc_depends svc) \<subseteq> dom (map_of (services s)))"
    using at by (fastforce simp: dom_def)
  finally have deps: "concat (map (unknown_deps s) (ServiceNames s)) = [] \<longleftrightarrow>
      (\<forall>n svc. map_of (services s) n = Some svc \<longrightarrow> set (svc_depends svc) \<subseteq> dom (map_of (services s)))" .
  have "validateGraph s = [] \<longleftrightarrow> concat (map (unknown_deps s) (ServiceNames s)) = [] \<and> findCycle s = [] \<and>
      length (filter (\<lambda>n. svc_ingress (service_at s n) \<noteq> None) (ServiceNames s)) \<le> 1"
    by (simp only: validateGraph_def Let_def append_is_Nil_conv if_singleton not_less not_not)
  then show ?thesis unfolding graph_ok_def deps one using find_cycle_facts [of s] by blast
qed

end
