(* ===== verification/Go_Float.thy ===== *)
theory Go_Float
  imports Prelude Complex_Main
begin

text \<open>
  The values of Go's \<open>float64\<close> as rational numbers, with the rounding every arithmetic operation makes:
  to 53 significant bits, ties to even. Every number rounded in this development is zero or lies
  between \<open>2^(-64)\<close> and \<open>2^320\<close> in size, far from where a double over- or underflows.
\<close>

section \<open>Double precision\<close>

definition round_half_even :: "rat \<Rightarrow> int" where
  "round_half_even y =
     (let n = \<lfloor>y\<rfloor>; r = y - of_int n in
      if r < 1 / 2 then n else if r > 1 / 2 then n + 1 else if even n then n else n + 1)"

function bit_length :: "int \<Rightarrow> int" where
  "bit_length n = (if n \<le> 0 then 0 else 1 + bit_length (n div 2))"
  by auto

termination bit_length
  by (relation "measure nat") auto

declare bit_length.simps [simp del]

definition two_to :: "int \<Rightarrow> rat" where
  "two_to k = (if 0 \<le> k then 2 ^ nat k else 1 / 2 ^ nat (- k))"

text \<open>The exponent of the last of 53 bits of a positive number.\<close>

definition ulp_exponent :: "rat \<Rightarrow> int" where
  "ulp_exponent x =
     (let (p, q) = quotient_of x; k = bit_length p - bit_length q in
      if x < two_to k then k - 53 else k - 52)"

definition f64_pos :: "rat \<Rightarrow> rat" where
  "f64_pos x = (let e = ulp_exponent x in of_int (round_half_even (x / two_to e)) * two_to e)"

definition f64 :: "rat \<Rightarrow> rat" where
  "f64 x = (if x = 0 then 0 else if x < 0 then - f64_pos (- x) else f64_pos x)"

section \<open>Conversion to an integer\<close>

text \<open>
  \<open>int(x)\<close> of a \<open>float64\<close> discards the fraction. Where the result does not fit, the language leaves it to
  the implementation; the one given here is that of amd64, the smallest integer.
\<close>

definition trunc_rat :: "rat \<Rightarrow> int" where
  "trunc_rat x = (if 0 \<le> x then \<lfloor>x\<rfloor> else - \<lfloor>- x\<rfloor>)"

definition int_of_float :: "rat \<Rightarrow> int" where
  "int_of_float x = (if in_i64 (trunc_rat x) then trunc_rat x else - (2 ^ 63))"

lemma trunc_rat_of_int [simp]: "trunc_rat (of_int n) = n"
  by (simp add: trunc_rat_def flip: of_int_minus)

lemma int_of_float_in_i64 [simp]: "in_i64 (int_of_float x)"
  by (simp add: int_of_float_def) (simp add: in_i64_def)

end
