(* ===== verification/Compose_Types.thy ===== *)
theory Compose_Types
  imports Depends_Graph Go_Float
begin

text \<open>
  What the parser reads of the libraries it calls: the decoded YAML values of an extension block
  (\<open>any\<close>), and the fields of compose-go's \<open>types.Project\<close> that \<open>internal/parser\<close> looks at. A slice or map of
  which only the emptiness is asked is a list of strings here, a pointer of which only nil is asked a
  Boolean. The loader and the YAML decoder themselves are parameters of \<open>Parse\<close>.
\<close>

datatype any =
    AnyNil | AnyBool bool | AnyInt int | AnyInt64 int | AnyUint64 int | AnyFloat64 rat | AnyString string
  | AnySlice "any list" | AnyMap "(string \<times> any) list"

record service_port =
  sp_published :: string
  sp_target :: int
  sp_protocol :: string

record service_volume =
  sv_type :: string
  sv_source :: string
  sv_target :: string
  sv_read_only :: bool

record service_health =
  sh_disable :: bool
  sh_test :: "string list"
  sh_interval :: "int option"
  sh_timeout :: "int option"
  sh_retries :: "int option"
  sh_start_period :: "int option"

text \<open>\<open>NanoCPUs\<close> is a \<open>float32\<close> number of CPUs; a duration is a number of nanoseconds.\<close>

record resource_limits =
  rl_nano_cpus :: rat
  rl_memory_bytes :: int

record service_deploy =
  sd_limits :: "resource_limits option"
  sd_replicas :: "int option"

text \<open>The directives that reach outside the container's own sandbox.\<close>

record host_config =
  cs_privileged :: bool
  cs_network_mode :: string
  cs_container_name :: string
  cs_cap_add :: "string list"
  cs_cap_drop :: "string list"
  cs_pid :: string
  cs_ipc :: string
  cs_uts :: string
  cs_userns_mode :: string
  cs_runtime :: string
  cs_devices :: "string list"
  cs_device_cgroup_rules :: "string list"
  cs_gpus :: "string list"
  cs_security_opt :: "string list"
  cs_sysctls :: "string list"
  cs_cgroup_parent :: string
  cs_cgroup :: string

record runtime_config =
  cs_volumes_from :: "string list"
  cs_extra_hosts :: "string list"
  cs_logging :: bool
  cs_log_driver :: string
  cs_log_opt :: "string list"
  cs_isolation :: string
  cs_storage_opt :: "string list"
  cs_volume_driver :: string
  cs_credential_spec :: bool
  cs_oom_kill_disable :: bool
  cs_build :: bool
  cs_secrets :: "string list"
  cs_configs :: "string list"
  cs_tmpfs :: "string list"
  cs_links :: "string list"
  cs_external_links :: "string list"

record service_config =
  cs_image :: string
  cs_command :: "string list"
  cs_entrypoint :: "string list"
  cs_working_dir :: string
  cs_user :: string
  cs_restart :: string
  cs_host :: host_config
  cs_runtime_config :: runtime_config
  cs_environment :: "string option gomap"
  cs_ports :: "service_port list"
  cs_volumes :: "service_volume list"
  cs_depends_on :: "string gomap"
  cs_healthcheck :: "service_health option"
  cs_deploy :: "service_deploy option"
  cs_scale :: "int option"
  cs_extensions :: "any gomap"

record volume_config =
  vc_driver_opts :: "string list"
  vc_driver :: string
  vc_external :: bool

record project =
  pr_services :: "service_config gomap"
  pr_volumes :: "volume_config gomap"

end
