(* ===== verification/Compose_Parser.thy ===== *)
theory Compose_Parser
  imports Compose_Types "HOL-Library.Product_Lexorder"
begin

text \<open>
  \<open>internal/parser\<close>: from a compose file to a deployment specification, or to the list of everything that
  is wrong with it. One definition per section of \<open>convertService\<close>. Go visits maps in an unspecified
  order and sorts violations with an unstable sort; the model visits them in the order of the list
  that stands for the map and keeps the order of violations of one field.
\<close>

section \<open>Violations\<close>

definition Error_ve :: "validation_error \<Rightarrow> string" where
  "Error_ve e = ve_field e @ '': '' @ ve_message e"

definition Error_ves :: "validation_error list \<Rightarrow> string" where
  "Error_ves es =
     (if es = [] then ''no validation errors''
      else show_int (int (length es)) @ '' validation error(s):'' @ [CHR 0x0A] @ ''  '' @
        str_join ([CHR 0x0A] @ ''  '') (map Error_ve es))"

definition field_of :: "string \<Rightarrow> string \<Rightarrow> string" where
  "field_of name f = ''services.'' @ name @ ''.'' @ f"

definition reject :: "string \<Rightarrow> string \<Rightarrow> bool \<Rightarrow> string \<Rightarrow> validation_error list" where
  "reject name f b msg = (if b then [\<lparr>ve_field = field_of name f, ve_message = msg\<rparr>] else [])"

lemma reject_Nil [simp]: "reject name f b msg = [] \<longleftrightarrow> \<not> b"
  by (simp add: reject_def)

section \<open>Directives that load files\<close>

definition preflight_service :: "string \<times> any \<Rightarrow> validation_error list" where
  "preflight_service x =
     (case x of (name, AnyMap svc) \<Rightarrow>
        reject name ''extends'' (map_of svc ''extends'' \<noteq> None)
          ''extends is not supported; the control plane does not read additional files'' @
        reject name ''env_file'' (map_of svc ''env_file'' \<noteq> None)
          ''env_file is not supported; set environment inline or use ${secret:KEY}'' @
        reject name ''label_file'' (map_of svc ''label_file'' \<noteq> None)
          ''label_file is not supported; the control plane does not read additional files'' @
        reject name ''profiles'' (map_of svc ''profiles'' \<noteq> None)
          ''profiles are not supported; every service in the file is deployed''
      | _ \<Rightarrow> [])"

text \<open>\<open>doc\<close> is what the YAML decoder makes of the file, \<open>None\<close> when it refuses it.\<close>

definition preflight :: "any gomap option \<Rightarrow> validation_error list" where
  "preflight doc =
     (case doc of
        None \<Rightarrow> []
      | Some d \<Rightarrow>
          (if map_of d ''include'' \<noteq> None
           then [\<lparr>ve_field = ''include'',
                  ve_message = ''include is not supported; the control plane does not read additional files''\<rparr>] else []) @
          (case map_of d ''services'' of
             Some (AnyMap svcs) \<Rightarrow> concat (map preflight_service svcs)
           | _ \<Rightarrow> []))"

section \<open>One service\<close>

definition DefaultCPUMillis :: int where "DefaultCPUMillis = 250"
definition DefaultMemoryBytes :: int where "DefaultMemoryBytes = 256 * 2 ^ 20"

definition rejected_host :: "string \<Rightarrow> host_config \<Rightarrow> validation_error list" where
  "rejected_host name h =
     reject name ''privileged'' (cs_privileged h) ''privileged containers are not permitted'' @
     reject name ''network_mode'' (cs_network_mode h \<noteq> [] \<and> cs_network_mode h \<noteq> ''bridge'')
       ''custom network_mode is not permitted; each revision gets an isolated network'' @
     reject name ''container_name'' (cs_container_name h \<noteq> [])
       ''container_name is not permitted; names are assigned per revision to avoid collisions'' @
     reject name ''cap_add'' (cs_cap_add h \<noteq> []) ''added capabilities are not permitted'' @
     reject name ''cap_drop'' (cs_cap_drop h \<noteq> []) ''capability changes are not permitted'' @
     reject name ''pid'' (cs_pid h \<noteq> []) ''custom pid mode is not permitted'' @
     reject name ''ipc'' (cs_ipc h \<noteq> []) ''custom ipc mode is not permitted'' @
     reject name ''uts'' (cs_uts h \<noteq> []) ''custom uts mode is not permitted'' @
     reject name ''userns_mode'' (cs_userns_mode h \<noteq> []) ''custom userns_mode is not permitted'' @
     reject name ''runtime'' (cs_runtime h \<noteq> []) ''custom runtime is not permitted'' @
     reject name ''devices'' (cs_devices h \<noteq> []) ''host device passthrough is not permitted'' @
     reject name ''device_cgroup_rules'' (cs_device_cgroup_rules h \<noteq> []) ''device cgroup rules are not permitted'' @
     reject name ''gpus'' (cs_gpus h \<noteq> []) ''gpu passthrough is not permitted'' @
     reject name ''security_opt'' (cs_security_opt h \<noteq> []) ''security_opt is not permitted'' @
     reject name ''sysctls'' (cs_sysctls h \<noteq> []) ''sysctls are not permitted'' @
     reject name ''cgroup'' (cs_cgroup_parent h \<noteq> [] \<or> cs_cgroup h \<noteq> []) ''custom cgroup configuration is not permitted''"

definition rejected_runtime :: "string \<Rightarrow> runtime_config \<Rightarrow> validation_error list" where
  "rejected_runtime name r =
     reject name ''volumes_from'' (cs_volumes_from r \<noteq> []) ''volumes_from is not permitted'' @
     reject name ''extra_hosts'' (cs_extra_hosts r \<noteq> []) ''extra_hosts is not permitted'' @
     reject name ''logging'' (cs_logging r \<or> cs_log_driver r \<noteq> [] \<or> cs_log_opt r \<noteq> [])
       ''custom logging drivers are not permitted'' @
     reject name ''isolation'' (cs_isolation r \<noteq> []) ''custom isolation is not permitted'' @
     reject name ''storage_opt'' (cs_storage_opt r \<noteq> []) ''storage_opt is not permitted'' @
     reject name ''volume_driver'' (cs_volume_driver r \<noteq> []) ''volume_driver is not permitted'' @
     reject name ''credential_spec'' (cs_credential_spec r) ''credential_spec is not permitted'' @
     reject name ''oom_kill_disable'' (cs_oom_kill_disable r) ''oom_kill_disable is not permitted'' @
     reject name ''build'' (cs_build r) ''build directives are not supported (pre-build and push instead)'' @
     reject name ''secrets'' (cs_secrets r \<noteq> [])
       ''compose secrets are not supported; use ${secret:KEY} environment templates'' @
     reject name ''configs'' (cs_configs r \<noteq> []) ''compose configs are not supported'' @
     reject name ''tmpfs'' (cs_tmpfs r \<noteq> []) ''tmpfs is not supported'' @
     reject name ''links'' (cs_links r \<noteq> [] \<or> cs_external_links r \<noteq> []) ''links are not permitted''"

definition rejected_directives :: "string \<Rightarrow> service_config \<Rightarrow> validation_error list" where
  "rejected_directives name svc =
     reject name ''image'' (cs_image svc = [])
       ''image is required; build directives are not supported (pre-build and push instead)'' @
     rejected_host name (cs_host svc) @ rejected_runtime name (cs_runtime_config svc)"

subsection \<open>Environment, ports and mounts\<close>

definition env_step :: "string \<times> string option \<Rightarrow> string gomap \<times> string gomap \<Rightarrow> string gomap \<times> string gomap" where
  "env_step kv acc =
     (case kv of
        (k, None) \<Rightarrow> acc
      | (k, Some x) \<Rightarrow> if has_secret_ref x then (fst acc, put k x (snd acc)) else (put k x (fst acc), snd acc))"

definition split_env :: "string option gomap \<Rightarrow> string gomap \<times> string gomap" where
  "split_env vars = fold env_step vars ([], [])"

definition port_error :: "string \<Rightarrow> service_port \<Rightarrow> validation_error list" where
  "port_error name p =
     reject name ''ports'' (sp_published p \<noteq> [])
       (''published host port '' @ quote (sp_published p) @ '' is not permitted; declare x-composectl.ingress instead'')"

definition convert_ports :: "service_port list \<Rightarrow> port list" where
  "convert_ports ps =
     sort_key (\<lambda>p. (port_container p, port_protocol p))
       (map (\<lambda>p. \<lparr>port_container = sp_target p, port_protocol = (if sp_protocol p = [] then ''tcp'' else sp_protocol p)\<rparr>)
         (filter (\<lambda>p. sp_published p = []) ps))"

definition driveLetterMount :: "string \<Rightarrow> (string \<times> string) option" where
  "driveLetterMount target =
     (if length target < 3 \<or> target ! 1 \<noteq> CHR '':'' then None
      else if target ! 2 \<noteq> CHR ''/'' \<and> target ! 2 \<noteq> CHR 0x5C then None
      else Some (take 1 target, drop 2 target))"

definition convert_mount :: "string \<Rightarrow> service_volume \<Rightarrow> mount list \<times> validation_error list" where
  "convert_mount name v =
     (if sv_type v = ''volume'' then
        (if sv_source v = [] then
           ([], reject name ''volumes'' True
             (case driveLetterMount (sv_target v) of
                Some (vol, target) \<Rightarrow>
                  ''mount '' @ quote (sv_target v) @ '' was read as a Windows drive path, not volume '' @ quote vol @
                  '' mounted at '' @ quote target @ '': a single-character volume name is ambiguous. '' @
                  ''Rename the volume or use the long mount syntax.''
              | None \<Rightarrow>
                  ''anonymous volume at '' @ quote (sv_target v) @
                  '' is not supported; declare a named volume so it can be tracked and pinned to a node''))
         else ([\<lparr>mnt_kind = MountVolume, mnt_source = sv_source v, mnt_target = sv_target v,
                 mnt_read_only = sv_read_only v\<rparr>], []))
      else ([], reject name ''volumes'' True
             (if sv_type v = ''tmpfs'' then ''tmpfs mount at '' @ quote (sv_target v) @ '' is not supported''
              else if sv_type v = ''bind'' then
                ''bind mount '' @ quote (sv_source v) @ '' is not permitted; host paths are not portable across nodes''
              else ''unsupported mount type '' @ quote (sv_type v))))"

definition convert_mounts :: "string \<Rightarrow> service_volume list \<Rightarrow> mount list \<times> validation_error list \<times> bool" where
  "convert_mounts name vs =
     (let ms = concat (map (\<lambda>v. fst (convert_mount name v)) vs)
      in (sort_key mnt_target ms, concat (map (\<lambda>v. snd (convert_mount name v)) vs), \<exists>m \<in> set ms. \<not> mnt_read_only m))"

subsection \<open>Dependencies, health check and limits\<close>

definition depends_error :: "string \<Rightarrow> string \<times> string \<Rightarrow> validation_error list" where
  "depends_error name dc =
     reject name ''depends_on'' (snd dc \<noteq> [] \<and> snd dc \<noteq> ''service_started'')
       (''depends_on condition '' @ quote (snd dc) @ '' is not supported; services start in dependency order'')"

text \<open>\<open>time.Duration.Seconds\<close>: the whole seconds plus the rest as a fraction, in double precision.\<close>

definition Seconds :: "int \<Rightarrow> rat" where
  "Seconds d =
     (let sec = sgn d * (\<bar>d\<bar> div 1000000000); nsec = sgn d * (\<bar>d\<bar> mod 1000000000)
      in f64 (f64 (of_int sec) + f64 (f64 (of_int nsec) / 1000000000)))"

definition durSecs :: "int option \<Rightarrow> int \<Rightarrow> int" where
  "durSecs d def1 = (case d of None \<Rightarrow> def1 | Some ns \<Rightarrow> int_of_float (Seconds ns))"

definition uint64OrDefault :: "int option \<Rightarrow> int \<Rightarrow> int" where
  "uint64OrDefault v def1 = (case v of None \<Rightarrow> def1 | Some n \<Rightarrow> n)"

definition convert_health :: "service_health option \<Rightarrow> health_check option" where
  "convert_health hc =
     (case hc of
        None \<Rightarrow> None
      | Some h \<Rightarrow>
          if sh_disable h then None
          else Some \<lparr>hc_test = sh_test h, hc_interval_sec = durSecs (sh_interval h) 10,
                     hc_timeout_sec = durSecs (sh_timeout h) 5, hc_retries = i64 (uint64OrDefault (sh_retries h) 3),
                     hc_start_sec = durSecs (sh_start_period h) 0\<rparr>)"

definition convert_limits :: "service_deploy option \<Rightarrow> resource_limit" where
  "convert_limits dep =
     (case (case dep of None \<Rightarrow> None | Some d \<Rightarrow> sd_limits d) of
        None \<Rightarrow> \<lparr>cpu_millis = DefaultCPUMillis, memory_bytes = DefaultMemoryBytes\<rparr>
      | Some l \<Rightarrow>
          \<lparr>cpu_millis = (if rl_nano_cpus l > 0 then int_of_float (f64 (rl_nano_cpus l * 1000)) else DefaultCPUMillis),
           memory_bytes = (if rl_memory_bytes l > 0 then rl_memory_bytes l else DefaultMemoryBytes)\<rparr>)"

definition replica_errors :: "string \<Rightarrow> service_config \<Rightarrow> validation_error list" where
  "replica_errors name svc =
     reject name ''deploy.replicas''
       (case cs_deploy svc of None \<Rightarrow> False | Some d \<Rightarrow> sd_replicas d \<noteq> None \<and> sd_replicas d \<noteq> Some 1)
       ''replicas are managed by the platform, not the compose file'' @
     reject name ''scale'' (cs_scale svc \<noteq> None \<and> cs_scale svc \<noteq> Some 1)
       ''scale is managed by the platform, not the compose file''"

subsection \<open>The extension block\<close>

datatype rollout_mode = RolloutSwap | RolloutPin

text \<open>The outcome of reading the mode: not declared, declared and unreadable, or declared.\<close>

datatype rollout_declaration = Undeclared | BadMode string | Declared rollout_mode

definition parseRolloutExtension :: "any gomap \<Rightarrow> rollout_declaration" where
  "parseRolloutExtension ext =
     (case map_of ext ''x-composectl'' of
        Some (AnyMap m1) \<Rightarrow>
          (case map_of m1 ''rollout'' of
             None \<Rightarrow> Undeclared
           | Some (AnyString s) \<Rightarrow>
               if s = ''swap'' then Declared RolloutSwap
               else if s = ''pin'' then Declared RolloutPin
               else BadMode (''unknown rollout mode '' @ quote s @ ''; must be '' @ quote ''swap'' @ '' or '' @ quote ''pin'')
           | Some _ \<Rightarrow> BadMode (''rollout must be a string: '' @ quote ''swap'' @ '' or '' @ quote ''pin''))
      | _ \<Rightarrow> Undeclared)"

definition toInt :: "any option \<Rightarrow> int option" where
  "toInt v =
     (case v of
        Some (AnyInt n) \<Rightarrow> Some n
      | Some (AnyInt64 n) \<Rightarrow> Some n
      | Some (AnyFloat64 x) \<Rightarrow> Some (int_of_float x)
      | _ \<Rightarrow> None)"

definition ingress_of :: "any gomap \<Rightarrow> string + ingress option" where
  "ingress_of im =
     (case toInt (map_of im ''port'') of
        Some p \<Rightarrow>
          if 0 < p \<and> p \<le> 65535
          then Inr (Some \<lparr>ing_port = p, ing_path = (case map_of im ''path'' of Some (AnyString q) \<Rightarrow> q | _ \<Rightarrow> [])\<rparr>)
          else Inl ''ingress.port must be an integer between 1 and 65535''
      | None \<Rightarrow> Inl ''ingress.port must be an integer between 1 and 65535'')"

definition parseIngressExtension :: "any gomap \<Rightarrow> string + ingress option" where
  "parseIngressExtension ext =
     (case map_of ext ''x-composectl'' of
        None \<Rightarrow> Inr None
      | Some (AnyMap m1) \<Rightarrow>
          (case map_of m1 ''ingress'' of
             None \<Rightarrow> Inr None
           | Some (AnyMap im) \<Rightarrow> ingress_of im
           | Some _ \<Rightarrow> Inl ''ingress must be a mapping'')
      | Some _ \<Rightarrow> Inl ''x-composectl must be a mapping'')"

subsection \<open>The whole service\<close>

definition rollout_errors :: "string \<Rightarrow> rollout_declaration \<Rightarrow> bool \<Rightarrow> ingress option \<Rightarrow> validation_error list" where
  "rollout_errors name decl writable ing =
     (case decl of
        BadMode e \<Rightarrow> reject name ''x-composectl.rollout'' True e
      | Undeclared \<Rightarrow>
          reject name ''x-composectl.rollout'' True
            ''rollout mode must be declared: swap (duplicated blue/green) or pin (one instance shared across revisions)''
      | Declared _ \<Rightarrow> []) @
     reject name ''x-composectl.rollout'' (decl = Declared RolloutSwap \<and> writable)
       ''service declares rollout: swap but mounts a writable named volume; two revisions would write one filesystem'' @
     reject name ''x-composectl.rollout'' (decl = Declared RolloutPin \<and> ing \<noteq> None)
       ''ingress service declares rollout: pin; it cannot participate in blue/green rollout''"

definition convertService :: "string \<Rightarrow> service_config \<Rightarrow> service \<times> validation_error list" where
  "convertService name svc =
     (let (env, sec) = split_env (cs_environment svc);
          (mounts, mount_errs, writable) = convert_mounts name (cs_volumes svc);
          ing = parseIngressExtension (cs_extensions svc);
          ingress = (case ing of Inl _ \<Rightarrow> None | Inr i \<Rightarrow> i);
          decl = parseRolloutExtension (cs_extensions svc)
      in (\<lparr>svc_name = name, svc_image = cs_image svc, svc_command = cs_command svc, svc_entrypoint = cs_entrypoint svc,
           svc_working_dir = cs_working_dir svc, svc_user = cs_user svc, svc_env = Some env, svc_secret_env = Some sec,
           svc_ports = convert_ports (cs_ports svc), svc_mounts = mounts, svc_depends = sort (map fst (cs_depends_on svc)),
           svc_health = convert_health (cs_healthcheck svc), svc_limits = convert_limits (cs_deploy svc),
           svc_restart = cs_restart svc,
           svc_swappable = (case decl of Declared mode \<Rightarrow> mode = RolloutSwap | _ \<Rightarrow> True), svc_ingress = ingress\<rparr>,
          rejected_directives name svc @ concat (map (port_error name) (cs_ports svc)) @ mount_errs @
          concat (map (depends_error name) (cs_depends_on svc)) @ replica_errors name svc @
          (case ing of Inl e \<Rightarrow> reject name ''x-composectl.ingress'' True e | Inr _ \<Rightarrow> []) @
          rollout_errors name decl writable ingress))"

section \<open>The whole file\<close>

definition misparsedVolumeNames :: "service_config gomap \<Rightarrow> string set" where
  "misparsedVolumeNames svcs =
     set (concat (map (\<lambda>(_, svc). List.map_filter
       (\<lambda>v. if sv_type v = ''volume'' \<and> sv_source v = [] then map_option fst (driveLetterMount (sv_target v)) else None)
       (cs_volumes svc)) svcs))"

definition mounts_volume :: "string \<Rightarrow> service_config \<Rightarrow> bool" where
  "mounts_volume volName svc \<longleftrightarrow> (\<exists>v \<in> set (cs_volumes svc). sv_type v = ''volume'' \<and> sv_source v = volName)"

definition volumeOwner :: "service_config gomap \<Rightarrow> string \<Rightarrow> string \<times> nat" where
  "volumeOwner svcs volName =
     (let users = filter (\<lambda>n. case map_of svcs n of None \<Rightarrow> False | Some svc \<Rightarrow> mounts_volume volName svc) (sorted_keys svcs)
      in (case users of [] \<Rightarrow> [] | n # _ \<Rightarrow> n, length users))"

definition volume_errors :: "service_config gomap \<Rightarrow> string \<times> volume_config \<Rightarrow> validation_error list" where
  "volume_errors svcs nv =
     (let (volName, vol) = nv; (owner, count) = volumeOwner svcs volName;
          err = (\<lambda>b msg. if b then [\<lparr>ve_field = ''volumes.'' @ volName, ve_message = msg\<rparr>] else [])
      in err (vc_driver_opts vol \<noteq> []) ''volume driver_opts are not supported'' @
         err (vc_driver vol \<noteq> [] \<and> vc_driver vol \<noteq> ''local'') ''custom volume drivers are not supported'' @
         err (vc_external vol) ''external volumes are not supported'' @
         err (count = 0 \<and> volName \<notin> misparsedVolumeNames svcs) ''volume is declared but not mounted by any service'' @
         err (count > 1) ''volume is mounted by multiple services; shared writable volumes are not supported'')"

definition volumes_of :: "project \<Rightarrow> volume gomap" where
  "volumes_of p =
     map (\<lambda>(volName, _). (volName, \<lparr>vol_name = volName, vol_driver = ''local'', vol_owner = fst (volumeOwner (pr_services p) volName)\<rparr>))
       (filter (\<lambda>(volName, _). snd (volumeOwner (pr_services p) volName) > 0) (pr_volumes p))"

definition spec_of :: "project \<Rightarrow> deployment_spec" where
  "spec_of p = \<lparr>spec_version = SpecVersion,
     services = map (\<lambda>(name, svc). (name, fst (convertService name svc))) (pr_services p),
     volumes = volumes_of p, networks = []\<rparr>"

definition violations :: "project \<Rightarrow> validation_error list" where
  "violations p =
     concat (map (\<lambda>(name, svc). snd (convertService name svc)) (pr_services p)) @
     concat (map (volume_errors (pr_services p)) (pr_volumes p)) @
     validateGraph (spec_of p) @
     (if services (spec_of p) = []
      then [\<lparr>ve_field = ''services'', ve_message = ''services is empty; a stack must declare at least one service''\<rparr>] else [])"

datatype parse_error = Violations "validation_error list" | LoadFailed string

text \<open>\<open>load\<close> is compose-go's loader; its Boolean argument defers the loader's consistency check.\<close>

definition Parse ::
  "(string \<Rightarrow> any gomap option) \<Rightarrow> (string \<Rightarrow> string \<Rightarrow> bool \<Rightarrow> string + project) \<Rightarrow> string \<Rightarrow> string \<Rightarrow>
   parse_error + deployment_spec" where
  "Parse yaml load raw projectName =
     (let pre = preflight (yaml raw) in
      if pre \<noteq> [] then Inl (Violations (sort_key ve_field pre))
      else case load raw projectName True of
        Inl e \<Rightarrow> Inl (LoadFailed (''load compose: '' @ e))
      | Inr project \<Rightarrow>
          let verrs = violations project in
          if verrs \<noteq> [] then Inl (Violations (sort_key ve_field verrs))
          else case load raw projectName False of
            Inl e \<Rightarrow> Inl (LoadFailed (''load compose: '' @ e))
          | Inr _ \<Rightarrow> Inr (spec_of project))"

end
