(* ===== verification/Compose_Valid.thy ===== *)
theory Compose_Valid
  imports Compose_Parser
begin

text \<open>
  What an accepted compose file is. The declarative conditions under which a project is admitted
  (nothing that reaches outside the sandbox, only named volumes, a declared rollout mode that agrees
  with mounts and ingress, an acyclic dependency graph) are shown to be exactly those under which
  \<open>Parse\<close> returns a specification, and the specification then satisfies the constraints the rest of the
  platform relies on.
\<close>

section \<open>The conditions\<close>

definition sandboxed :: "host_config \<Rightarrow> bool" where
  "sandboxed h \<longleftrightarrow> \<not> cs_privileged h \<and> cs_network_mode h \<in> {[], ''bridge''} \<and> cs_container_name h = [] \<and>
     cs_cap_add h = [] \<and> cs_cap_drop h = [] \<and> cs_pid h = [] \<and> cs_ipc h = [] \<and> cs_uts h = [] \<and>
     cs_userns_mode h = [] \<and> cs_runtime h = [] \<and> cs_devices h = [] \<and> cs_device_cgroup_rules h = [] \<and>
     cs_gpus h = [] \<and> cs_security_opt h = [] \<and> cs_sysctls h = [] \<and> cs_cgroup_parent h = [] \<and> cs_cgroup h = []"

definition plain_runtime :: "runtime_config \<Rightarrow> bool" where
  "plain_runtime r \<longleftrightarrow> cs_volumes_from r = [] \<and> cs_extra_hosts r = [] \<and> \<not> cs_logging r \<and> cs_log_driver r = [] \<and>
     cs_log_opt r = [] \<and> cs_isolation r = [] \<and> cs_storage_opt r = [] \<and> cs_volume_driver r = [] \<and>
     \<not> cs_credential_spec r \<and> \<not> cs_oom_kill_disable r \<and> \<not> cs_build r \<and> cs_secrets r = [] \<and> cs_configs r = [] \<and>
     cs_tmpfs r = [] \<and> cs_links r = [] \<and> cs_external_links r = []"

definition named_volume :: "service_volume \<Rightarrow> bool" where
  "named_volume v \<longleftrightarrow> sv_type v = ''volume'' \<and> sv_source v \<noteq> []"

text \<open>
  The extension block \<open>x-composectl\<close>: a mapping whose \<open>rollout\<close> is \<open>swap\<close>, for a service that writes to none of
  its volumes, or \<open>pin\<close>, for one without ingress; an \<open>ingress\<close>, if there is one, is a mapping with a
  number between 1 and 65535 as its port.
\<close>

definition readable_port :: "any option \<Rightarrow> bool" where
  "readable_port v \<longleftrightarrow>
     (\<exists>n. (v = Some (AnyInt n) \<or> v = Some (AnyInt64 n)) \<and> 1 \<le> n \<and> n \<le> 65535) \<or>
     (\<exists>x. v = Some (AnyFloat64 x) \<and> 1 \<le> int_of_float x \<and> int_of_float x \<le> 65535)"

definition rollout_admissible :: "service_config \<Rightarrow> bool" where
  "rollout_admissible svc \<longleftrightarrow>
     (\<exists>m. map_of (cs_extensions svc) ''x-composectl'' = Some (AnyMap m) \<and>
        (map_of m ''rollout'' = Some (AnyString ''swap'') \<and> (\<forall>v \<in> set (cs_volumes svc). sv_read_only v) \<and>
           (map_of m ''ingress'' = None \<or> (\<exists>im. map_of m ''ingress'' = Some (AnyMap im) \<and> readable_port (map_of im ''port''))) \<or>
         map_of m ''rollout'' = Some (AnyString ''pin'') \<and> map_of m ''ingress'' = None))"

definition admissible_service :: "service_config \<Rightarrow> bool" where
  "admissible_service svc \<longleftrightarrow>
     cs_image svc \<noteq> [] \<and> sandboxed (cs_host svc) \<and> plain_runtime (cs_runtime_config svc) \<and>
     list_all (\<lambda>p. sp_published p = []) (cs_ports svc) \<and> list_all named_volume (cs_volumes svc) \<and>
     list_all (\<lambda>(_, c). c \<in> {[], ''service_started''}) (cs_depends_on svc) \<and>
     (\<forall>d. cs_deploy svc = Some d \<longrightarrow> sd_replicas d \<in> {None, Some 1}) \<and> cs_scale svc \<in> {None, Some 1} \<and>
     rollout_admissible svc"

definition users_of :: "project \<Rightarrow> string \<Rightarrow> string set" where
  "users_of p vol = {n. \<exists>svc. map_of (pr_services p) n = Some svc \<and> mounts_volume vol svc}"

definition admissible_volume :: "project \<Rightarrow> string \<times> volume_config \<Rightarrow> bool" where
  "admissible_volume p nv \<longleftrightarrow>
     vc_driver_opts (snd nv) = [] \<and> vc_driver (snd nv) \<in> {[], ''local''} \<and> \<not> vc_external (snd nv) \<and>
     is_singleton (users_of p (fst nv))"

definition admissible :: "project \<Rightarrow> bool" where
  "admissible p \<longleftrightarrow>
     pr_services p \<noteq> [] \<and> list_all (\<lambda>(_, svc). admissible_service svc) (pr_services p) \<and>
     list_all (admissible_volume p) (pr_volumes p) \<and> graph_ok (spec_of p)"

text \<open>Go maps have one entry per key.\<close>

definition project_wf :: "project \<Rightarrow> bool" where
  "project_wf p \<longleftrightarrow> gomap_wf (pr_services p) \<and> gomap_wf (pr_volumes p) \<and>
     list_all (\<lambda>(_, svc). gomap_wf (cs_environment svc) \<and> gomap_wf (cs_depends_on svc)) (pr_services p)"

section \<open>Services\<close>

lemma readable_port_iff: "(\<exists>i. ingress_of im = Inr (Some i)) \<longleftrightarrow> readable_port (map_of im ''port'')"
  by (auto simp: ingress_of_def toInt_def readable_port_def split: option.splits any.splits if_splits)

lemma parse_ingress_iff:
  assumes "map_of ext ''x-composectl'' = Some (AnyMap m)"
  shows "parseIngressExtension ext = Inr None \<longleftrightarrow> map_of m ''ingress'' = None"
    and "(\<exists>i. parseIngressExtension ext = Inr (Some i)) \<longleftrightarrow> (\<exists>im. map_of m ''ingress'' = Some (AnyMap im) \<and> readable_port (map_of im ''port''))"
  using assms readable_port_iff
  by (auto simp: parseIngressExtension_def ingress_of_def split: option.splits any.splits if_splits)

lemma parse_rollout_iff:
  "parseRolloutExtension ext = Declared mode \<longleftrightarrow> (\<exists>m. map_of ext ''x-composectl'' = Some (AnyMap m) \<and>
     map_of m ''rollout'' = Some (AnyString (case mode of RolloutSwap \<Rightarrow> ''swap'' | RolloutPin \<Rightarrow> ''pin'')))"
  by (cases mode) (auto simp: parseRolloutExtension_def split: option.splits any.splits if_splits)

lemma rollout_admissible_iff:
  "rollout_admissible svc \<longleftrightarrow>
     (\<exists>ing mode. parseIngressExtension (cs_extensions svc) = Inr ing \<and>
        parseRolloutExtension (cs_extensions svc) = Declared mode \<and>
        (mode = RolloutSwap \<longrightarrow> (\<forall>v \<in> set (cs_volumes svc). sv_read_only v)) \<and>
        (mode = RolloutPin \<longrightarrow> ing = None))"
proof (cases "\<exists>m. map_of (cs_extensions svc) ''x-composectl'' = Some (AnyMap m)")
  case True
  then obtain m where m: "map_of (cs_extensions svc) ''x-composectl'' = Some (AnyMap m)" by blast
  note parse = parse_ingress_iff [OF m] and roll = parse_rollout_iff [of "cs_extensions svc"]
  have "(\<exists>ing. parseIngressExtension (cs_extensions svc) = Inr ing) \<longleftrightarrow>
      map_of m ''ingress'' = None \<or> (\<exists>im. map_of m ''ingress'' = Some (AnyMap im) \<and> readable_port (map_of im ''port''))"
    using parse by (metis option.exhaust)
  moreover have "(\<exists>mode. P mode) \<longleftrightarrow> P RolloutSwap \<or> P RolloutPin" for P by (metis rollout_mode.exhaust)
  ultimately show ?thesis unfolding rollout_admissible_def roll using m parse(1) by auto
qed (auto simp: rollout_admissible_def parse_rollout_iff)

lemma rejected_directives_Nil:
  "rejected_directives name svc = [] \<longleftrightarrow>
   cs_image svc \<noteq> [] \<and> sandboxed (cs_host svc) \<and> plain_runtime (cs_runtime_config svc)"
proof -
  have "rejected_host name h = [] \<longleftrightarrow> sandboxed h" for h
    unfolding rejected_host_def sandboxed_def append_is_Nil_conv reject_Nil by auto
  moreover have "rejected_runtime name r = [] \<longleftrightarrow> plain_runtime r" for r
    unfolding rejected_runtime_def plain_runtime_def append_is_Nil_conv reject_Nil by auto
  ultimately show ?thesis by (simp add: rejected_directives_def)
qed

lemma concat_map_Nil: "concat (map f xs) = [] \<longleftrightarrow> list_all (\<lambda>x. f x = []) xs"
  by (auto simp: list_all_iff)

lemma convert_mount_Nil: "snd (convert_mount name v) = [] \<longleftrightarrow> named_volume v"
  by (simp add: convert_mount_def named_volume_def)

lemma convert_mount_named:
  "named_volume v \<Longrightarrow> fst (convert_mount name v) =
     [\<lparr>mnt_kind = MountVolume, mnt_source = sv_source v, mnt_target = sv_target v, mnt_read_only = sv_read_only v\<rparr>]"
  by (simp add: convert_mount_def named_volume_def)

lemma in_converted_mounts:
  assumes "list_all named_volume vs"
  shows "m \<in> set (fst (convert_mounts name vs)) \<longleftrightarrow>
    (\<exists>v \<in> set vs. m = \<lparr>mnt_kind = MountVolume, mnt_source = sv_source v, mnt_target = sv_target v, mnt_read_only = sv_read_only v\<rparr>)"
  using assms convert_mount_named by (fastforce simp: convert_mounts_def Let_def list_all_iff)

lemma converted_writable:
  assumes "list_all named_volume vs"
  shows "snd (snd (convert_mounts name vs)) \<longleftrightarrow> (\<exists>v \<in> set vs. \<not> sv_read_only v)"
  using assms convert_mount_named by (fastforce simp: convert_mounts_def Let_def list_all_iff)

lemma rollout_errors_Nil:
  "rollout_errors name decl writable ing = [] \<longleftrightarrow>
   (\<exists>mode. decl = Declared mode \<and> (mode = RolloutSwap \<longrightarrow> \<not> writable) \<and> (mode = RolloutPin \<longrightarrow> ing = None))"
  by (cases decl) (auto simp: rollout_errors_def)

lemma replica_errors_Nil:
  "replica_errors name svc = [] \<longleftrightarrow>
   (\<forall>d. cs_deploy svc = Some d \<longrightarrow> sd_replicas d \<in> {None, Some 1}) \<and> cs_scale svc \<in> {None, Some 1}"
  unfolding replica_errors_def append_is_Nil_conv reject_Nil by (auto split: option.splits)

lemma convertService_errors:
  "snd (convertService name svc) =
     rejected_directives name svc @ concat (map (port_error name) (cs_ports svc)) @
     fst (snd (convert_mounts name (cs_volumes svc))) @
     concat (map (depends_error name) (cs_depends_on svc)) @ replica_errors name svc @
     (case parseIngressExtension (cs_extensions svc) of Inl e \<Rightarrow> reject name ''x-composectl.ingress'' True e | Inr _ \<Rightarrow> []) @
     rollout_errors name (parseRolloutExtension (cs_extensions svc)) (snd (snd (convert_mounts name (cs_volumes svc))))
       (case parseIngressExtension (cs_extensions svc) of Inl _ \<Rightarrow> None | Inr i \<Rightarrow> i)"
  by (simp add: convertService_def Let_def split: prod.splits)

lemma convertService_accepts: "snd (convertService name svc) = [] \<longleftrightarrow> admissible_service svc"
proof -
  have ports: "concat (map (port_error name) (cs_ports svc)) = [] \<longleftrightarrow> list_all (\<lambda>p. sp_published p = []) (cs_ports svc)"
    by (simp only: concat_map_Nil port_error_def reject_Nil not_not)
  have mounts: "fst (snd (convert_mounts name (cs_volumes svc))) = [] \<longleftrightarrow> list_all named_volume (cs_volumes svc)"
    by (simp only: convert_mounts_def Let_def fst_conv snd_conv concat_map_Nil convert_mount_Nil)
  have deps: "concat (map (depends_error name) (cs_depends_on svc)) = [] \<longleftrightarrow>
      list_all (\<lambda>(_, c). c \<in> {[], ''service_started''}) (cs_depends_on svc)"
    unfolding concat_map_Nil depends_error_def reject_Nil by (auto simp: list_all_iff split: prod.splits)
  show ?thesis
  proof (cases "list_all named_volume (cs_volumes svc)")
    case True
    have roll: "(case parseIngressExtension (cs_extensions svc) of Inl e \<Rightarrow> reject name ''x-composectl.ingress'' True e | Inr _ \<Rightarrow> []) = [] \<and>
        rollout_errors name (parseRolloutExtension (cs_extensions svc)) (snd (snd (convert_mounts name (cs_volumes svc))))
          (case parseIngressExtension (cs_extensions svc) of Inl _ \<Rightarrow> None | Inr i \<Rightarrow> i) = [] \<longleftrightarrow> rollout_admissible svc"
      unfolding rollout_errors_Nil converted_writable [OF True] rollout_admissible_iff
      by (cases "parseIngressExtension (cs_extensions svc)") auto
    show ?thesis
      unfolding convertService_errors append_is_Nil_conv rejected_directives_Nil ports mounts deps replica_errors_Nil
        roll admissible_service_def by blast
  qed (auto simp: convertService_errors mounts admissible_service_def)
qed

section \<open>Volumes\<close>

lemma volumeOwner_users:
  assumes "gomap_wf (pr_services p)"
  shows "snd (volumeOwner (pr_services p) v) = card (users_of p v)"
    and "users_of p v \<noteq> {} \<Longrightarrow> fst (volumeOwner (pr_services p) v) \<in> users_of p v"
proof -
  let ?users = "filter (\<lambda>n. case map_of (pr_services p) n of None \<Rightarrow> False | Some svc \<Rightarrow> mounts_volume v svc)
    (sorted_keys (pr_services p))"
  have set: "set ?users = users_of p v" by (auto simp: users_of_def split: option.splits)
  have "distinct ?users" using assms by simp
  with set show "snd (volumeOwner (pr_services p) v) = card (users_of p v)"
    by (simp add: volumeOwner_def Let_def flip: distinct_card)
  show "fst (volumeOwner (pr_services p) v) \<in> users_of p v" if "users_of p v \<noteq> {}"
    using that unfolding set [symmetric] by (cases ?users) (simp_all add: volumeOwner_def Let_def)
qed

lemma misparsed_none:
  assumes "list_all (\<lambda>(_, svc). admissible_service svc) svcs"
  shows "misparsedVolumeNames svcs = {}"
  using assms
  by (fastforce simp: misparsedVolumeNames_def admissible_service_def named_volume_def list_all_iff List.map_filter_def split: if_splits)

lemma volume_errors_Nil:
  assumes "gomap_wf (pr_services p)" "misparsedVolumeNames (pr_services p) = {}"
  shows "volume_errors (pr_services p) nv = [] \<longleftrightarrow> admissible_volume p nv"
proof -
  have fin: "finite (users_of p (fst nv))"
    by (rule finite_subset [of _ "dom (map_of (pr_services p))"]) (auto simp: users_of_def finite_dom_map_of)
  have one: "card A \<noteq> 0 \<and> card A \<le> 1 \<longleftrightarrow> is_singleton A" for A :: "string set"
    by (auto simp: is_singleton_altdef)
  show ?thesis
    unfolding volume_errors_def Let_def case_prod_unfold append_is_Nil_conv if_singleton volumeOwner_users(1) [OF assms(1)]
      admissible_volume_def assms(2) by (simp add: not_less flip: one)
qed

section \<open>Acceptance\<close>

lemma map_of_map_key: "map_of (map (\<lambda>(k, v). (k, f k v)) xs) n = map_option (f n) (map_of xs n)"
  by (induction xs) auto

lemma services_spec_of [simp]:
  "map_of (services (spec_of p)) n = map_option (\<lambda>svc. fst (convertService n svc)) (map_of (pr_services p) n)"
  "services (spec_of p) = [] \<longleftrightarrow> pr_services p = []"
  "gomap_wf (services (spec_of p)) \<longleftrightarrow> gomap_wf (pr_services p)"
proof -
  show "map_of (services (spec_of p)) n = map_option (\<lambda>svc. fst (convertService n svc)) (map_of (pr_services p) n)"
    by (simp add: spec_of_def map_of_map_key)
  show "gomap_wf (services (spec_of p)) \<longleftrightarrow> gomap_wf (pr_services p)"
    by (simp add: spec_of_def gomap_wf_def comp_def case_prod_unfold)
qed (simp add: spec_of_def)

lemma violations_Nil:
  assumes "project_wf p"
  shows "violations p = [] \<longleftrightarrow> admissible p"
proof -
  from assms have wf: "gomap_wf (pr_services p)" by (simp add: project_wf_def)
  then have wf': "gomap_wf (services (spec_of p))" by simp
  have svcs: "concat (map (\<lambda>(name, svc). snd (convertService name svc)) (pr_services p)) = [] \<longleftrightarrow>
      list_all (\<lambda>(_, svc). admissible_service svc) (pr_services p)"
    unfolding concat_map_Nil case_prod_unfold convertService_accepts ..
  have vols: "concat (map (volume_errors (pr_services p)) (pr_volumes p)) = [] \<longleftrightarrow> list_all (admissible_volume p) (pr_volumes p)"
    if "list_all (\<lambda>(_, svc). admissible_service svc) (pr_services p)"
    unfolding concat_map_Nil volume_errors_Nil [OF wf misparsed_none [OF that]] ..
  show ?thesis
    unfolding violations_def admissible_def append_is_Nil_conv if_singleton services_spec_of validateGraph_iff [OF wf'] svcs
    using vols by blast
qed

text \<open>
  A document that stands alone: nothing is included, and no service extends another, takes its
  environment or its labels from a file, or is bound to a profile. (A document the YAML decoder refuses
  is left to the loader.)
\<close>

definition stands_alone :: "any gomap option \<Rightarrow> bool" where
  "stands_alone doc \<longleftrightarrow>
     (\<forall>d. doc = Some d \<longrightarrow> map_of d ''include'' = None \<and>
        (\<forall>svcs n svc. map_of d ''services'' = Some (AnyMap svcs) \<longrightarrow> (n, AnyMap svc) \<in> set svcs \<longrightarrow>
           map_of svc ''extends'' = None \<and> map_of svc ''env_file'' = None \<and> map_of svc ''label_file'' = None \<and>
           map_of svc ''profiles'' = None))"

lemma preflight_Nil: "preflight doc = [] \<longleftrightarrow> stands_alone doc"
proof -
  have "preflight_service (n, x) = [] \<longleftrightarrow> (\<forall>svc. x = AnyMap svc \<longrightarrow> map_of svc ''extends'' = None \<and>
      map_of svc ''env_file'' = None \<and> map_of svc ''label_file'' = None \<and> map_of svc ''profiles'' = None)" for n x
    by (cases x) (auto simp: preflight_service_def)
  then have svcs: "(\<forall>x \<in> set svcs. preflight_service x = []) \<longleftrightarrow> (\<forall>n svc. (n, AnyMap svc) \<in> set svcs \<longrightarrow>
      map_of svc ''extends'' = None \<and> map_of svc ''env_file'' = None \<and> map_of svc ''label_file'' = None \<and>
      map_of svc ''profiles'' = None)" for svcs
    by (metis prod.exhaust)
  show ?thesis
  proof (cases doc)
    case (Some d)
    show ?thesis
    proof (cases "\<exists>svcs. map_of d ''services'' = Some (AnyMap svcs)")
      case True
      with Some svcs show ?thesis by (auto simp: preflight_def stands_alone_def)
    next
      case False
      then have "(case map_of d ''services'' of Some (AnyMap svcs) \<Rightarrow> concat (map preflight_service svcs) | _ \<Rightarrow> []) = []"
        by (auto split: option.splits any.splits)
      with False Some show ?thesis by (simp add: preflight_def stands_alone_def)
    qed
  qed (simp add: preflight_def stands_alone_def)
qed


section \<open>What an accepted specification guarantees\<close>

lemma split_env_fold:
  assumes "distinct (map fst vars)" "fold env_step vars acc = (env, sec)"
    "\<And>j. j \<in> fst ` set vars \<Longrightarrow> map_of (fst acc) j = None \<and> map_of (snd acc) j = None"
  shows "map_of env k = (case map_of vars k of Some (Some x) \<Rightarrow> if has_secret_ref x then None else Some x
      | _ \<Rightarrow> map_of (fst acc) k) \<and>
    map_of sec k = (case map_of vars k of Some (Some x) \<Rightarrow> if has_secret_ref x then Some x else None
      | _ \<Rightarrow> map_of (snd acc) k)"
  using assms
proof (induction vars arbitrary: acc)
  case (Cons kv vars)
  obtain j v where kv: "kv = (j, v)" by (cases kv)
  from Cons.prems(1) have j: "map_of vars j = None" "distinct (map fst vars)" by (auto simp: kv map_of_eq_None_iff)
  have fresh: "map_of (fst acc) j = None" "map_of (snd acc) j = None" using Cons.prems(3) [of j] by (auto simp: kv)
  have run: "fold env_step vars (env_step kv acc) = (env, sec)" using Cons.prems(2) by simp
  have "map_of (fst (env_step kv acc)) i = None \<and> map_of (snd (env_step kv acc)) i = None" if "i \<in> fst ` set vars" for i
    using Cons.prems(1) Cons.prems(3) [of i] that by (auto simp: kv env_step_def split: option.splits)
  from Cons.IH [OF j(2) run this] fresh j(1) show ?case
    by (cases "k = j"; cases v) (auto simp: kv env_step_def split: option.splits)
qed (simp split: option.splits)

lemma split_env_lookup:
  assumes "gomap_wf vars" "split_env vars = (env, sec)"
  shows "map_of env k = (case map_of vars k of Some (Some x) \<Rightarrow> if has_secret_ref x then None else Some x | _ \<Rightarrow> None)"
    "map_of sec k = (case map_of vars k of Some (Some x) \<Rightarrow> if has_secret_ref x then Some x else None | _ \<Rightarrow> None)"
  using split_env_fold [of vars "([], [])" env sec k] assms unfolding split_env_def gomap_wf_def keys_def
  by (auto split: option.splits)

definition valid_service :: "service \<Rightarrow> bool" where
  "valid_service svc \<longleftrightarrow>
     svc_image svc \<noteq> [] \<and> 0 < memory_bytes (svc_limits svc) \<and>
     (\<forall>m \<in> set (svc_mounts svc). mnt_kind m = MountVolume \<and> mnt_source m \<noteq> []) \<and>
     (svc_swappable svc \<longrightarrow> (\<forall>m \<in> set (svc_mounts svc). mnt_read_only m)) \<and>
     (\<forall>i. svc_ingress svc = Some i \<longrightarrow> svc_swappable svc \<and> 0 < ing_port i \<and> ing_port i \<le> 65535) \<and>
     (\<forall>k x. map_of (entries (svc_env svc)) k = Some x \<longrightarrow> \<not> has_secret_ref x \<and> map_of (entries (svc_secret_env svc)) k = None) \<and>
     (\<forall>k x. map_of (entries (svc_secret_env svc)) k = Some x \<longrightarrow> has_secret_ref x)"

lemma ingress_port_ok: "parseIngressExtension ext = Inr (Some i) \<Longrightarrow> 0 < ing_port i \<and> ing_port i \<le> 65535"
  by (auto simp: parseIngressExtension_def ingress_of_def split: option.splits any.splits if_splits)

lemma converted_service:
  "svc_image (fst (convertService n svc)) = cs_image svc"
  "svc_limits (fst (convertService n svc)) = convert_limits (cs_deploy svc)"
  "svc_mounts (fst (convertService n svc)) = fst (convert_mounts n (cs_volumes svc))"
  "svc_depends (fst (convertService n svc)) = sort (map fst (cs_depends_on svc))"
  "svc_ingress (fst (convertService n svc)) = (case parseIngressExtension (cs_extensions svc) of Inl _ \<Rightarrow> None | Inr i \<Rightarrow> i)"
  "svc_swappable (fst (convertService n svc)) = (case parseRolloutExtension (cs_extensions svc) of Declared mode \<Rightarrow> mode = RolloutSwap | _ \<Rightarrow> True)"
  "entries (svc_env (fst (convertService n svc))) = fst (split_env (cs_environment svc))"
  "entries (svc_secret_env (fst (convertService n svc))) = snd (split_env (cs_environment svc))"
  by (simp_all add: convertService_def Let_def entries_def split: prod.splits)

lemma convertService_valid:
  assumes "admissible_service svc" "gomap_wf (cs_environment svc)"
  shows "valid_service (fst (convertService n svc))"
proof -
  from assms(1) have named: "list_all named_volume (cs_volumes svc)" and image: "cs_image svc \<noteq> []"
    by (simp_all add: admissible_service_def)
  from assms(1) obtain ing mode where roll: "parseIngressExtension (cs_extensions svc) = Inr ing"
    "parseRolloutExtension (cs_extensions svc) = Declared mode"
    "mode = RolloutSwap \<longrightarrow> (\<forall>v \<in> set (cs_volumes svc). sv_read_only v)" "mode = RolloutPin \<longrightarrow> ing = None"
    unfolding admissible_service_def rollout_admissible_iff by blast
  have mounts: "mnt_kind m = MountVolume \<and> mnt_source m \<noteq> []" if "m \<in> set (fst (convert_mounts n (cs_volumes svc)))" for m
    using that named unfolding in_converted_mounts [OF named] by (auto simp: list_all_iff named_volume_def)
  have ro: "mnt_read_only m" if "mode = RolloutSwap" "m \<in> set (fst (convert_mounts n (cs_volumes svc)))" for m
    using that roll(3) unfolding in_converted_mounts [OF named] by auto
  have mem: "0 < memory_bytes (convert_limits (cs_deploy svc))"
    by (simp add: convert_limits_def DefaultMemoryBytes_def split: option.splits)
  obtain env sec where env: "split_env (cs_environment svc) = (env, sec)" by fastforce
  note look = split_env_lookup [OF assms(2) env]
  have "mode = RolloutSwap" if "ing \<noteq> None" using roll(4) that by (cases mode) auto
  then show ?thesis
    unfolding valid_service_def converted_service env fst_conv snd_conv
    using image mounts ro mem roll(1,2) ingress_port_ok [of "cs_extensions svc"] look
    by (auto split: option.splits if_splits)
qed

definition valid_volume :: "deployment_spec \<Rightarrow> string \<Rightarrow> volume \<Rightarrow> bool" where
  "valid_volume s v vol \<longleftrightarrow> vol_name vol = v \<and> vol_driver vol = ''local'' \<and>
     {n. \<exists>svc. map_of (services s) n = Some svc \<and> (\<exists>m \<in> set (svc_mounts svc). mnt_source m = v)} = {vol_owner vol}"

definition valid_spec :: "deployment_spec \<Rightarrow> bool" where
  "valid_spec s \<longleftrightarrow> services s \<noteq> [] \<and> gomap_wf (services s) \<and> graph_ok s \<and>
     (\<forall>n svc. map_of (services s) n = Some svc \<longrightarrow> svc_name svc = n \<and> valid_service svc) \<and>
     (\<forall>v vol. map_of (volumes s) v = Some vol \<longrightarrow> valid_volume s v vol)"

lemma spec_of_users:
  assumes "list_all (\<lambda>(_, svc). admissible_service svc) (pr_services p)"
  shows "{n. \<exists>svc. map_of (services (spec_of p)) n = Some svc \<and> (\<exists>m \<in> set (svc_mounts svc). mnt_source m = v)} = users_of p v"
proof -
  have "(\<exists>m \<in> set (svc_mounts (fst (convertService n svc))). mnt_source m = v) \<longleftrightarrow> mounts_volume v svc"
    if "map_of (pr_services p) n = Some svc" for n svc
  proof -
    have named: "list_all named_volume (cs_volumes svc)"
      using assms map_of_SomeD [OF that] by (auto simp: list_all_iff admissible_service_def)
    then show ?thesis unfolding converted_service in_converted_mounts [OF named] Bex_def
      by (auto simp: mounts_volume_def named_volume_def list_all_iff)
  qed
  then show ?thesis by (auto simp: users_of_def)
qed

lemma spec_of_valid:
  assumes "project_wf p" "admissible p"
  shows "valid_spec (spec_of p)"
proof -
  from assms(2) have svcs: "list_all (\<lambda>(_, svc). admissible_service svc) (pr_services p)" by (simp add: admissible_def)
  have "valid_service (fst (convertService n svc)) \<and> svc_name (fst (convertService n svc)) = n"
    if "map_of (pr_services p) n = Some svc" for n svc
  proof -
    from map_of_SomeD [OF that] svcs assms(1) have "admissible_service svc" "gomap_wf (cs_environment svc)"
      by (auto simp: list_all_iff project_wf_def)
    then show ?thesis by (simp add: convertService_valid) (simp add: convertService_def Let_def split: prod.splits)
  qed
  moreover have "valid_volume (spec_of p) v vol" if "map_of (volumes (spec_of p)) v = Some vol" for v vol
  proof -
    from map_of_SomeD [OF that] obtain vc where vc: "(v, vc) \<in> set (pr_volumes p)"
      and vol: "vol = \<lparr>vol_name = v, vol_driver = ''local'', vol_owner = fst (volumeOwner (pr_services p) v)\<rparr>"
      by (auto simp: spec_of_def volumes_of_def)
    from vc assms(2) have one: "is_singleton (users_of p v)" by (auto simp: admissible_def list_all_iff admissible_volume_def)
    have "fst (volumeOwner (pr_services p) v) \<in> users_of p v"
      using one assms(1) volumeOwner_users(2) [of p v] by (auto simp: project_wf_def is_singleton_def)
    moreover obtain x where "users_of p v = {x}" using one by (auto simp: is_singleton_def)
    ultimately have "users_of p v = {vol_owner vol}" by (simp add: vol)
    then show ?thesis unfolding valid_volume_def spec_of_users [OF svcs] by (simp add: vol)
  qed
  ultimately show ?thesis using assms by (auto simp: valid_spec_def admissible_def project_wf_def)
qed

text \<open>
  C3: what the rest of the platform may rely on. A specification the parser returns has at least one
  service; each has an image, a positive memory limit and only named volume mounts; one that runs
  twice during a rollout writes to no volume; the ingress service is one of those and has a valid
  port, and there is at most one; secret references occur only in the values kept as templates; every
  dependency exists and the graph is acyclic; and each volume is mounted by its owner alone.
\<close>

theorem accepted_spec_is_valid:
  assumes "Parse yaml load raw name = Inr s" "load raw name True = Inr p" "project_wf p"
  shows "valid_spec s"
proof -
  from assms(1,2) have "violations p = []" "s = spec_of p"
    by (auto simp: Parse_def Let_def split: if_splits sum.splits)
  with spec_of_valid [OF assms(3)] violations_Nil [OF assms(3)] show ?thesis by simp
qed

section \<open>An example\<close>

definition ex_host_config :: host_config where
  "ex_host_config = \<lparr>cs_privileged = False, cs_network_mode = ''bridge'', cs_container_name = [], cs_cap_add = [],
     cs_cap_drop = [], cs_pid = [], cs_ipc = [], cs_uts = [], cs_userns_mode = [], cs_runtime = [], cs_devices = [],
     cs_device_cgroup_rules = [], cs_gpus = [], cs_security_opt = [], cs_sysctls = [], cs_cgroup_parent = [], cs_cgroup = []\<rparr>"

definition ex_runtime_config :: runtime_config where
  "ex_runtime_config = \<lparr>cs_volumes_from = [], cs_extra_hosts = [], cs_logging = False, cs_log_driver = [], cs_log_opt = [],
     cs_isolation = [], cs_storage_opt = [], cs_volume_driver = [], cs_credential_spec = False, cs_oom_kill_disable = False,
     cs_build = False, cs_secrets = [], cs_configs = [], cs_tmpfs = [], cs_links = [], cs_external_links = []\<rparr>"

definition ex_compose_db :: service_config where
  "ex_compose_db = \<lparr>cs_image = ''pg'', cs_command = [], cs_entrypoint = [], cs_working_dir = [], cs_user = [],
     cs_restart = [], cs_host = ex_host_config, cs_runtime_config = ex_runtime_config, cs_environment = [],
     cs_ports = [], cs_volumes = [\<lparr>sv_type = ''volume'', sv_source = ''data'', sv_target = ''/d'', sv_read_only = False\<rparr>],
     cs_depends_on = [], cs_healthcheck = None, cs_deploy = None, cs_scale = None,
     cs_extensions = [(''x-composectl'', AnyMap [(''rollout'', AnyString ''pin'')])]\<rparr>"

definition ex_compose_web :: service_config where
  "ex_compose_web = ex_compose_db\<lparr>cs_image := ''img'', cs_volumes := [],
     cs_environment := [(''DSN'', Some ''pg://${secret:PW}@db''), (''LOG'', Some ''debug''), (''TZ'', None)],
     cs_depends_on := [(''db'', ''service_started'')],
     cs_deploy := Some \<lparr>sd_limits = Some \<lparr>rl_nano_cpus = 1 / 2048, rl_memory_bytes = 0\<rparr>, sd_replicas = None\<rparr>,
     cs_extensions := [(''x-composectl'', AnyMap [(''rollout'', AnyString ''swap''),
       (''ingress'', AnyMap [(''port'', AnyFloat64 (16161 / 2))])])]\<rparr>"

definition ex_project :: project where
  "ex_project = \<lparr>pr_services = [(''web'', ex_compose_web), (''db'', ex_compose_db)],
     pr_volumes = [(''data'', \<lparr>vc_driver_opts = [], vc_driver = [], vc_external = False\<rparr>)]\<rparr>"

definition ex_doc :: "string \<Rightarrow> any gomap option" where
  "ex_doc raw = Some [(''services'', AnyMap [(''web'', AnyMap [(''image'', AnyString ''img'')])])]"

definition ex_load :: "string \<Rightarrow> string \<Rightarrow> bool \<Rightarrow> string + project" where
  "ex_load raw name deferred = Inr ex_project"

lemma ex_violations: "violations ex_project = []"
  by code_simp

lemma ex_project_wf: "project_wf ex_project"
  by code_simp

lemma ex_parse: "Parse ex_doc ex_load [] [] = Inr (spec_of ex_project)"
proof -
  have "preflight (ex_doc []) = []" by code_simp
  then show ?thesis by (simp add: Parse_def ex_load_def ex_violations)
qed


theorem accepted_spec_is_valid_witness: "valid_spec (spec_of ex_project) \<and> map_of (volumes (spec_of ex_project)) ''data'' \<noteq> None"
proof
  have "ex_load [] [] True = Inr ex_project" by (simp add: ex_load_def)
  from accepted_spec_is_valid [OF ex_parse this ex_project_wf] show "valid_spec (spec_of ex_project)" .
  show "map_of (volumes (spec_of ex_project)) ''data'' \<noteq> None" by code_simp
qed

text \<open>
  Two limits of the numbers. A CPU limit below one thousandth of a CPU is accepted and becomes a
  limit of zero, which asks the scheduler for nothing and which Docker reads as no limit; and an
  ingress port with a fraction is accepted as its integer part although the message for a refused
  port asks for an integer.
\<close>

theorem small_limits_and_ports_are_truncated:
  "\<exists>s web. Parse ex_doc ex_load [] [] = Inr s \<and> map_of (services s) ''web'' = Some web \<and>
     map_of (pr_services ex_project) ''web'' = Some ex_compose_web \<and>
     cpu_millis (svc_limits web) = 0 \<and> svc_ingress web = Some \<lparr>ing_port = 8080, ing_path = []\<rparr>"
proof -
  have "map_option (\<lambda>web. (cpu_millis (svc_limits web), svc_ingress web)) (map_of (services (spec_of ex_project)) ''web'') =
      Some (0, Some \<lparr>ing_port = 8080, ing_path = []\<rparr>)" by code_simp
  moreover have "map_of (pr_services ex_project) ''web'' = Some ex_compose_web" by (simp add: ex_project_def)
  ultimately show ?thesis using ex_parse by (cases "map_of (services (spec_of ex_project)) ''web''") auto
qed

end
