(* ===== verification/Store_Identity.thy ===== *)
theory Store_Identity
  imports Store_Catalog
begin

text \<open>
  \<open>internal/store/operators.go\<close>: operators, their bearer tokens, membership of organizations, and the
  resolvers that find the organization owning an object. The tables of identity and enrolment stand
  beside the tables of \<open>db\<close> in one record, \<open>control\<close>, the whole database of the control plane.

  \<open>lower\<close> is Postgres's \<open>lower\<close>, \<open>sha\<close> the hash of a bearer token; the identifier of a new row and a new
  plaintext token are the random values of the call.
\<close>

section \<open>Rows\<close>

record operator =
  opr_id :: uuid
  opr_email :: string
  opr_name :: string
  opr_disabled_at :: "time option"
  opr_created_at :: time

record operator_token =
  tok_id :: uuid
  tok_operator :: uuid
  tok_hash :: string
  tok_name :: string
  tok_expires_at :: "time option"
  tok_last_used_at :: "time option"
  tok_created_at :: time

record org_member =
  mem_org :: uuid
  mem_operator :: uuid
  mem_role :: string
  mem_created_at :: time

record join_token =
  jt_id :: uuid
  jt_org :: uuid
  jt_hash :: string
  jt_name :: string
  jt_expires_at :: "time option"
  jt_max_uses :: "int option"
  jt_uses :: int
  jt_created_by :: "uuid option"
  jt_created_at :: time

record operator_invite =
  inv_id :: uuid
  inv_org :: uuid
  inv_email :: string
  inv_role :: string
  inv_hash :: string
  inv_invited_by :: "uuid option"
  inv_redeemed_by :: "uuid option"
  inv_expires_at :: time
  inv_redeemed_at :: "time option"
  inv_revoked_at :: "time option"
  inv_created_at :: time

datatype request_state = AccessPending | AccessApproved | AccessDeclined

record access_request =
  ar_id :: uuid
  ar_org :: uuid
  ar_email :: string
  ar_name :: string
  ar_note :: string
  ar_state :: request_state
  ar_invite :: "uuid option"
  ar_decided_by :: "uuid option"
  ar_decided_at :: "time option"
  ar_created_at :: time

datatype log_state = LogPending | LogDone | LogFailed

record log_request =
  lq_id :: uuid
  lq_instance :: uuid
  lq_env :: uuid
  lq_service :: string
  lq_container :: string
  lq_tail :: int
  lq_since :: "time option"
  lq_follow :: bool
  lq_state :: log_state
  lq_error :: "string option"
  lq_created_at :: time
  lq_updated_at :: time
  lq_expires_at :: time

record control =
  core :: db
  operators :: "operator list"
  operator_tokens :: "operator_token list"
  organization_members :: "org_member list"
  node_join_tokens :: "join_token list"
  operator_invites :: "operator_invite list"
  access_requests :: "access_request list"
  log_requests :: "log_request list"

text \<open>
  A store operation on the tables of \<open>db\<close> runs inside the whole database. The two foreign keys of a
  log request cascade: a row whose instance or environment is deleted goes with it.
\<close>

definition cascade_logs :: "control \<Rightarrow> control" where
  "cascade_logs s = s\<lparr>log_requests := filter (\<lambda>l.
     list_ex (\<lambda>i. inst_id i = lq_instance l) (service_instances (core s)) \<and>
     list_ex (\<lambda>e. env_id e = lq_env l) (environments (core s))) (log_requests s)\<rparr>"

definition in_core :: "(db \<Rightarrow> store_error + ('a \<times> db)) \<Rightarrow> control \<Rightarrow> store_error + ('a \<times> control)" where
  "in_core f s = (case f (core s) of
      Inl e \<Rightarrow> Inl e
    | Inr (x, t) \<Rightarrow> Inr (x, cascade_logs (s\<lparr>core := t\<rparr>)))"

text \<open>An event appended inside a transaction over the whole database.\<close>

definition append_event ::
  "call \<Rightarrow> uuid \<Rightarrow> string \<Rightarrow> string \<Rightarrow> json_value gomap \<Rightarrow> control \<Rightarrow> store_error + control" where
  "append_event c org kind msg payload s =
     (case appendEventTx c org None None kind msg payload (core s) of
        Inl e \<Rightarrow> Inl e
      | Inr t \<Rightarrow> Inr (s\<lparr>core := t\<rparr>))"

section \<open>Trimming and e-mail addresses\<close>

text \<open>The UTF-8 sequences of the runes \<open>unicode.IsSpace\<close> accepts.\<close>

definition space_seqs :: "string list" where
  "space_seqs =
     [[CHR 0x09], [CHR 0x0A], [CHR 0x0B], [CHR 0x0C], [CHR 0x0D], [CHR 0x20], [CHR 0xC2, CHR 0x85],
      [CHR 0xC2, CHR 0xA0], [CHR 0xE1, CHR 0x9A, CHR 0x80], [CHR 0xE2, CHR 0x80, CHR 0x80],
      [CHR 0xE2, CHR 0x80, CHR 0x81], [CHR 0xE2, CHR 0x80, CHR 0x82], [CHR 0xE2, CHR 0x80, CHR 0x83],
      [CHR 0xE2, CHR 0x80, CHR 0x84], [CHR 0xE2, CHR 0x80, CHR 0x85], [CHR 0xE2, CHR 0x80, CHR 0x86],
      [CHR 0xE2, CHR 0x80, CHR 0x87], [CHR 0xE2, CHR 0x80, CHR 0x88], [CHR 0xE2, CHR 0x80, CHR 0x89],
      [CHR 0xE2, CHR 0x80, CHR 0x8A], [CHR 0xE2, CHR 0x80, CHR 0xA8], [CHR 0xE2, CHR 0x80, CHR 0xA9],
      [CHR 0xE2, CHR 0x80, CHR 0xAF], [CHR 0xE2, CHR 0x81, CHR 0x9F], [CHR 0xE3, CHR 0x80, CHR 0x80]]"

definition strip_first :: "string \<Rightarrow> string option" where
  "strip_first s = map_option (\<lambda>p. drop (length p) s) (List.find (has_prefix s) space_seqs)"

definition strip_last :: "string \<Rightarrow> string option" where
  "strip_last s = map_option (\<lambda>p. take (length s - length p) s) (List.find (has_suffix s) space_seqs)"

fun trim_rounds :: "nat \<Rightarrow> (string \<Rightarrow> string option) \<Rightarrow> string \<Rightarrow> string" where
  "trim_rounds 0 f s = s"
| "trim_rounds (Suc n) f s = (case f s of None \<Rightarrow> s | Some s' \<Rightarrow> trim_rounds n f s')"

text \<open>\<open>strings.TrimSpace\<close>. Every round removes at least one byte, so the length of the string is enough rounds.\<close>

definition trim_space :: "string \<Rightarrow> string" where
  "trim_space s = (let t = trim_rounds (length s) strip_first s in trim_rounds (length t) strip_last t)"

definition maxEmailLen :: nat where
  "maxEmailLen = 254"

definition validateEmail :: "string \<Rightarrow> store_error option" where
  "validateEmail email =
     (if email = [] then Some (ErrInvalid ''email is required'')
      else if length email > maxEmailLen then Some (ErrInvalid ''email must be at most 254 characters'')
      else if list_ex (\<lambda>ch. of_char ch \<in> {32 :: nat, 9, 13, 10}) email
        then Some (ErrInvalid ''email must not contain whitespace'')
      else if count_list email (CHR ''@'') \<noteq> 1 \<or> has_prefix email ''@'' \<or> has_suffix email ''@''
        then Some (ErrInvalid ''email must be of the form name@example.com'')
      else None)"

section \<open>Operators\<close>

definition same_email :: "(string \<Rightarrow> string) \<Rightarrow> string \<Rightarrow> operator \<Rightarrow> bool" where
  "same_email lower email r \<longleftrightarrow> lower (opr_email r) = lower email"

definition new_operator :: "call \<Rightarrow> uuid \<Rightarrow> string \<Rightarrow> string \<Rightarrow> operator" where
  "new_operator c new_id email name =
     \<lparr>opr_id = new_id, opr_email = email, opr_name = name, opr_disabled_at = None, opr_created_at = now c\<rparr>"

definition CreateOperator ::
  "(string \<Rightarrow> string) \<Rightarrow> call \<Rightarrow> uuid \<Rightarrow> string \<Rightarrow> string \<Rightarrow> control \<Rightarrow> store_error + (operator \<times> control)" where
  "CreateOperator lower c new_id email0 name s =
     (let email = trim_space email0 in
      case validateEmail email of
        Some e \<Rightarrow> Inl e
      | None \<Rightarrow>
          let r = new_operator c new_id email (if name = [] then email else name) in
          if list_ex (\<lambda>x. opr_id x = new_id \<or> same_email lower email x) (operators s) then Inl (mapErr DbUnique)
          else Inr (r, s\<lparr>operators := operators s @ [r]\<rparr>))"

definition GetOperatorByEmail :: "(string \<Rightarrow> string) \<Rightarrow> string \<Rightarrow> control \<Rightarrow> store_error + operator" where
  "GetOperatorByEmail lower email s =
     (case find_row (same_email lower (trim_space email)) (operators s) of
        None \<Rightarrow> Inl (mapErr DbNoRows)
      | Some r \<Rightarrow> Inr r)"

definition get_operator :: "control \<Rightarrow> uuid \<Rightarrow> operator option" where
  "get_operator s i = find_row (\<lambda>r. opr_id r = i) (operators s)"

definition GetOperator :: "uuid \<Rightarrow> control \<Rightarrow> store_error + operator" where
  "GetOperator i s = (case get_operator s i of None \<Rightarrow> Inl (mapErr DbNoRows) | Some r \<Rightarrow> Inr r)"

definition DisableOperator :: "call \<Rightarrow> uuid \<Rightarrow> control \<Rightarrow> store_error + (unit \<times> control)" where
  "DisableOperator c i s =
     (if get_operator s i = None then Inl ErrNotFound
      else Inr ((), s\<lparr>operators := update_where (\<lambda>r. opr_id r = i)
        (\<lambda>r. r\<lparr>opr_disabled_at := (case opr_disabled_at r of None \<Rightarrow> Some (now c) | Some t \<Rightarrow> Some t)\<rparr>)
        (operators s)\<rparr>))"

section \<open>Tokens\<close>

definition new_token :: "call \<Rightarrow> uuid \<Rightarrow> uuid \<Rightarrow> string \<Rightarrow> string \<Rightarrow> time option \<Rightarrow> operator_token" where
  "new_token c new_id op_id hash name expires =
     \<lparr>tok_id = new_id, tok_operator = op_id, tok_hash = hash, tok_name = name, tok_expires_at = expires,
      tok_last_used_at = None, tok_created_at = now c\<rparr>"

text \<open>\<open>INSERT INTO operator_tokens\<close>, with the primary key, the unique hash and the foreign key.\<close>

definition insert_token :: "operator_token \<Rightarrow> control \<Rightarrow> store_error + control" where
  "insert_token t s =
     (if list_ex (\<lambda>x. tok_id x = tok_id t \<or> tok_hash x = tok_hash t) (operator_tokens s) then Inl DbUnique
      else if get_operator s (tok_operator t) = None then Inl DbForeignKey
      else Inr (s\<lparr>operator_tokens := operator_tokens s @ [t]\<rparr>))"

definition IssueOperatorToken ::
  "(string \<Rightarrow> string) \<Rightarrow> call \<Rightarrow> uuid \<Rightarrow> string \<Rightarrow> uuid \<Rightarrow> string \<Rightarrow> time option \<Rightarrow> control \<Rightarrow>
   store_error + ((operator_token \<times> string) \<times> control)" where
  "IssueOperatorToken sha c new_id plain op_id name expires s =
     (let t = new_token c new_id op_id (sha plain) (if name = [] then ''default'' else name) expires in
      case insert_token t s of
        Inl e \<Rightarrow> Inl (mapErr e)
      | Inr s1 \<Rightarrow> Inr ((t, plain), s1))"

definition lastUsedThrottle :: int where
  "lastUsedThrottle = seconds 300"

definition live_token :: "call \<Rightarrow> string \<Rightarrow> operator_token \<Rightarrow> bool" where
  "live_token c hash t \<longleftrightarrow>
     tok_hash t = hash \<and> (case tok_expires_at t of None \<Rightarrow> True | Some x \<Rightarrow> x > now c)"

definition stale_stamp :: "call \<Rightarrow> operator_token \<Rightarrow> bool" where
  "stale_stamp c t =
     (case tok_last_used_at t of None \<Rightarrow> True | Some u \<Rightarrow> u < now c - lastUsedThrottle)"

text \<open>
  One statement: the common table expression stamps the live token whether or not the final
  \<open>SELECT\<close> returns a row, so a refused credential may have been stamped.
\<close>

definition OperatorForToken ::
  "(string \<Rightarrow> string) \<Rightarrow> call \<Rightarrow> string \<Rightarrow> control \<Rightarrow> (store_error + operator) \<times> control" where
  "OperatorForToken sha c plain s =
     (if plain = [] then (Inl ErrNotFound, s)
      else
        let live = live_token c (sha plain);
            t = s\<lparr>operator_tokens := update_where (\<lambda>x. live x \<and> stale_stamp c x)
                   (\<lambda>x. x\<lparr>tok_last_used_at := Some (now c)\<rparr>) (operator_tokens s)\<rparr>
        in case find_row (\<lambda>r. opr_disabled_at r = None \<and>
                  list_ex (\<lambda>x. live x \<and> tok_operator x = opr_id r) (operator_tokens s)) (operators s) of
             None \<Rightarrow> (Inl (mapErr DbNoRows), t)
           | Some r \<Rightarrow> (Inr r, t))"

definition ListOperatorTokens :: "uuid \<Rightarrow> control \<Rightarrow> operator_token list" where
  "ListOperatorTokens op_id s =
     sort_key (\<lambda>t. - tok_created_at t) (filter (\<lambda>t. tok_operator t = op_id) (operator_tokens s))"

definition RevokeOperatorToken :: "uuid \<Rightarrow> uuid \<Rightarrow> control \<Rightarrow> store_error + (unit \<times> control)" where
  "RevokeOperatorToken op_id i s =
     (let hit = (\<lambda>t. tok_id t = i \<and> tok_operator t = op_id) in
      if find_row hit (operator_tokens s) = None then Inl ErrNotFound
      else Inr ((), s\<lparr>operator_tokens := delete_where hit (operator_tokens s)\<rparr>))"

definition EnsureOperatorToken ::
  "(string \<Rightarrow> string) \<Rightarrow> call \<Rightarrow> uuid \<Rightarrow> uuid \<Rightarrow> string \<Rightarrow> string \<Rightarrow> control \<Rightarrow> store_error + (unit \<times> control)" where
  "EnsureOperatorToken sha c new_id op_id name plain s =
     (if plain = [] then Inl (ErrInvalid ''token is required'')
      else if list_ex (\<lambda>x. tok_hash x = sha plain) (operator_tokens s) then Inr ((), s)
      else (case insert_token (new_token c new_id op_id (sha plain) name None) s of
              Inl e \<Rightarrow> Inl (mapErr e)
            | Inr s1 \<Rightarrow> Inr ((), s1)))"

section \<open>Membership\<close>

definition is_member :: "uuid \<Rightarrow> uuid \<Rightarrow> org_member \<Rightarrow> bool" where
  "is_member org op_id m \<longleftrightarrow> mem_org m = org \<and> mem_operator m = op_id"

definition insert_member :: "call \<Rightarrow> uuid \<Rightarrow> uuid \<Rightarrow> string \<Rightarrow> control \<Rightarrow> store_error + control" where
  "insert_member c org op_id role s =
     (if get_org (core s) org = None \<or> get_operator s op_id = None then Inl DbForeignKey
      else Inr (s\<lparr>organization_members := organization_members s @
             [\<lparr>mem_org = org, mem_operator = op_id, mem_role = role, mem_created_at = now c\<rparr>]\<rparr>))"

definition AddOrgMember :: "call \<Rightarrow> uuid \<Rightarrow> uuid \<Rightarrow> string \<Rightarrow> control \<Rightarrow> store_error + (unit \<times> control)" where
  "AddOrgMember c org op_id role0 s =
     (let role = (if role0 = [] then ''owner'' else role0) in
      if list_ex (is_member org op_id) (organization_members s)
      then Inr ((), s\<lparr>organization_members := update_where (is_member org op_id)
             (\<lambda>m. m\<lparr>mem_role := role\<rparr>) (organization_members s)\<rparr>)
      else (case insert_member c org op_id role s of
              Inl e \<Rightarrow> Inl (mapErr e)
            | Inr s1 \<Rightarrow> Inr ((), s1)))"

definition RemoveOrgMember :: "uuid \<Rightarrow> uuid \<Rightarrow> control \<Rightarrow> store_error + (unit \<times> control)" where
  "RemoveOrgMember org op_id s =
     (if list_ex (is_member org op_id) (organization_members s)
      then Inr ((), s\<lparr>organization_members := delete_where (is_member org op_id) (organization_members s)\<rparr>)
      else Inl ErrNotFound)"

record member_view =
  mv_member :: org_member
  mv_email :: string
  mv_name :: string

definition ListOrgMembers :: "uuid \<Rightarrow> control \<Rightarrow> member_view list" where
  "ListOrgMembers org s =
     sort_key mv_email
       (List.map_filter (\<lambda>m. if mem_org m = org
          then map_option (\<lambda>r. \<lparr>mv_member = m, mv_email = opr_email r, mv_name = opr_name r\<rparr>)
                 (get_operator s (mem_operator m))
          else None) (organization_members s))"

definition OperatorInOrg :: "uuid \<Rightarrow> uuid \<Rightarrow> control \<Rightarrow> bool" where
  "OperatorInOrg org op_id s \<longleftrightarrow> list_ex (is_member org op_id) (organization_members s)"

definition OrgsForOperator :: "uuid \<Rightarrow> control \<Rightarrow> organization list" where
  "OrgsForOperator op_id s =
     sort_key org_slug (filter (\<lambda>r. OperatorInOrg (org_id r) op_id s) (organizations (core s)))"

section \<open>Resolvers\<close>

text \<open>\<open>orgIDFrom\<close>: the one column of the one row the query returns, or \<open>ErrNotFound\<close>.\<close>

definition orgIDFrom :: "uuid option \<Rightarrow> store_error + uuid" where
  "orgIDFrom q = (case q of None \<Rightarrow> Inl (mapErr DbNoRows) | Some org \<Rightarrow> Inr org)"

definition OrgForApp :: "uuid \<Rightarrow> control \<Rightarrow> store_error + uuid" where
  "OrgForApp i s = orgIDFrom (map_option app_org_id (get_app (core s) i))"

definition OrgForStack :: "uuid \<Rightarrow> control \<Rightarrow> store_error + uuid" where
  "OrgForStack i s = orgIDFrom (org_of_stack (core s) i)"

definition OrgForStackVersion :: "uuid \<Rightarrow> control \<Rightarrow> store_error + uuid" where
  "OrgForStackVersion i s = orgIDFrom (case find_row (\<lambda>v. sv_id v = i) (stack_versions (core s)) of
      None \<Rightarrow> None | Some v \<Rightarrow> org_of_stack (core s) (sv_stack_id v))"

definition OrgForDeployment :: "uuid \<Rightarrow> control \<Rightarrow> store_error + uuid" where
  "OrgForDeployment i s = orgIDFrom (org_of_dep (core s) i)"

definition OrgForNode :: "uuid \<Rightarrow> control \<Rightarrow> store_error + uuid" where
  "OrgForNode i s = orgIDFrom (map_option node_org (get_node (core s) i))"

definition get_log_request :: "control \<Rightarrow> uuid \<Rightarrow> log_request option" where
  "get_log_request s i = find_row (\<lambda>l. lq_id l = i) (log_requests s)"

definition OrgForLogRequest :: "uuid \<Rightarrow> control \<Rightarrow> store_error + uuid" where
  "OrgForLogRequest i s = orgIDFrom (case get_log_request s i of
      None \<Rightarrow> None | Some l \<Rightarrow> org_of_env (core s) (lq_env l))"

end
