(* ===== verification/Store_Enrolment.thy ===== *)
theory Store_Enrolment
  imports Store_Identity
begin

text \<open>
  How somebody, or some machine, comes to belong to an organization: node join tokens
  (\<open>internal/store/join_tokens.go\<close>), invitations (\<open>invites.go\<close>) and access requests
  (\<open>access_requests.go\<close>).
\<close>

section \<open>Join tokens\<close>

record create_join_token_params =
  cj_org :: uuid
  cj_name :: string
  cj_expires_at :: "time option"
  cj_max_uses :: "int option"
  cj_created_by :: "uuid option"

definition new_join_token ::
  "call \<Rightarrow> uuid \<Rightarrow> string \<Rightarrow> create_join_token_params \<Rightarrow> join_token" where
  "new_join_token c new_id hash p =
     \<lparr>jt_id = new_id, jt_org = cj_org p, jt_hash = hash, jt_name = cj_name p, jt_expires_at = cj_expires_at p,
      jt_max_uses = cj_max_uses p, jt_uses = 0, jt_created_by = cj_created_by p, jt_created_at = now c\<rparr>"

definition insert_join_token :: "join_token \<Rightarrow> control \<Rightarrow> store_error + control" where
  "insert_join_token t s =
     (if list_ex (\<lambda>x. jt_id x = jt_id t \<or> jt_hash x = jt_hash t) (node_join_tokens s) then Inl DbUnique
      else if get_org (core s) (jt_org t) = None \<or>
              (case jt_created_by t of None \<Rightarrow> False | Some i \<Rightarrow> get_operator s i = None) then Inl DbForeignKey
      else Inr (s\<lparr>node_join_tokens := node_join_tokens s @ [t]\<rparr>))"

definition CreateJoinToken ::
  "(string \<Rightarrow> string) \<Rightarrow> call \<Rightarrow> uuid \<Rightarrow> string \<Rightarrow> create_join_token_params \<Rightarrow> control \<Rightarrow>
   store_error + ((join_token \<times> string) \<times> control)" where
  "CreateJoinToken sha c new_id plain p0 s =
     (let p = (if cj_name p0 = [] then p0\<lparr>cj_name := ''default''\<rparr> else p0);
          t = new_join_token c new_id (sha plain) p in
      if (case cj_max_uses p of None \<Rightarrow> False | Some k \<Rightarrow> k < 1)
        then Inl (ErrInvalid ''max_uses must be at least 1'')
      else if (case cj_max_uses p of None \<Rightarrow> False | Some k \<Rightarrow> \<not> in_i32 k)
        then Inl (DbOther ''integer out of range'')
      else (case insert_join_token t s of
              Inl e \<Rightarrow> Inl (mapErr e)
            | Inr s1 \<Rightarrow> Inr ((t, plain), s1)))"

definition ListJoinTokens :: "uuid \<Rightarrow> control \<Rightarrow> join_token list" where
  "ListJoinTokens org s =
     sort_key (\<lambda>t. - jt_created_at t) (filter (\<lambda>t. jt_org t = org) (node_join_tokens s))"

definition RevokeJoinToken :: "uuid \<Rightarrow> uuid \<Rightarrow> control \<Rightarrow> store_error + (unit \<times> control)" where
  "RevokeJoinToken org i s =
     (let hit = (\<lambda>t. jt_id t = i \<and> jt_org t = org) in
      if find_row hit (node_join_tokens s) = None then Inl ErrNotFound
      else Inr ((), s\<lparr>node_join_tokens := delete_where hit (node_join_tokens s)\<rparr>))"

definition redeemable :: "call \<Rightarrow> string \<Rightarrow> join_token \<Rightarrow> bool" where
  "redeemable c hash t \<longleftrightarrow>
     jt_hash t = hash \<and> (case jt_expires_at t of None \<Rightarrow> True | Some x \<Rightarrow> x > now c) \<and>
     (case jt_max_uses t of None \<Rightarrow> True | Some k \<Rightarrow> jt_uses t < k)"

definition RedeemJoinToken ::
  "(string \<Rightarrow> string) \<Rightarrow> call \<Rightarrow> string \<Rightarrow> control \<Rightarrow> store_error + (uuid \<times> control)" where
  "RedeemJoinToken sha c plain s =
     (if plain = [] then Inl ErrNotFound
      else case find_row (redeemable c (sha plain)) (node_join_tokens s) of
             None \<Rightarrow> Inl ErrNotFound
           | Some t \<Rightarrow>
               if \<not> in_i32 (jt_uses t + 1) then Inl (DbOther ''integer out of range'')
               else Inr (jt_org t, s\<lparr>node_join_tokens := update_where (redeemable c (sha plain))
                      (\<lambda>x. x\<lparr>jt_uses := jt_uses x + 1\<rparr>) (node_join_tokens s)\<rparr>))"

definition EnsureJoinToken ::
  "(string \<Rightarrow> string) \<Rightarrow> call \<Rightarrow> uuid \<Rightarrow> uuid \<Rightarrow> string \<Rightarrow> string \<Rightarrow> control \<Rightarrow> store_error + (unit \<times> control)" where
  "EnsureJoinToken sha c new_id org name plain s =
     (if plain = [] then Inl (ErrInvalid ''token is required'')
      else if list_ex (\<lambda>x. jt_hash x = sha plain) (node_join_tokens s) then Inr ((), s)
      else (case insert_join_token (new_join_token c new_id (sha plain)
                   \<lparr>cj_org = org, cj_name = name, cj_expires_at = None, cj_max_uses = None, cj_created_by = None\<rparr>) s of
              Inl e \<Rightarrow> Inl (mapErr e)
            | Inr s1 \<Rightarrow> Inr ((), s1)))"

section \<open>Invitations\<close>

definition hour :: int where
  "hour = seconds 3600"

definition DefaultInviteTTL :: int where
  "DefaultInviteTTL = 168 * hour"

definition MaxInviteTTL :: int where
  "MaxInviteTTL = 720 * hour"

definition State :: "time \<Rightarrow> operator_invite \<Rightarrow> string" where
  "State wall i =
     (if inv_redeemed_at i \<noteq> None then ''redeemed''
      else if inv_revoked_at i \<noteq> None then ''revoked''
      else if wall > inv_expires_at i then ''expired''
      else ''pending'')"

record create_invite_params =
  ci_org :: uuid
  ci_email :: string
  ci_role :: string
  ci_ttl :: int
  ci_invited_by :: "uuid option"

text \<open>The \<open>switch\<close> on the requested lifetime, the same in \<open>CreateInvite\<close> and \<open>ApproveAccessRequest\<close>.\<close>

definition invite_ttl :: "int \<Rightarrow> store_error + int" where
  "invite_ttl ttl =
     (if ttl = 0 then Inr DefaultInviteTTL
      else if ttl < 0 \<or> ttl > MaxInviteTTL
        then Inl (ErrInvalid ''invite ttl must be between 0 and 720 hours'')
      else Inr ttl)"

definition open_invite :: "operator_invite \<Rightarrow> bool" where
  "open_invite i \<longleftrightarrow> inv_redeemed_at i = None \<and> inv_revoked_at i = None"

definition new_invite :: "call \<Rightarrow> uuid \<Rightarrow> string \<Rightarrow> create_invite_params \<Rightarrow> operator_invite" where
  "new_invite c new_id hash p =
     \<lparr>inv_id = new_id, inv_org = ci_org p, inv_email = ci_email p, inv_role = ci_role p, inv_hash = hash,
      inv_invited_by = ci_invited_by p, inv_redeemed_by = None, inv_expires_at = now c + ci_ttl p,
      inv_redeemed_at = None, inv_revoked_at = None, inv_created_at = now c\<rparr>"

definition invite_indexes_ok :: "(string \<Rightarrow> string) \<Rightarrow> operator_invite list \<Rightarrow> bool" where
  "invite_indexes_ok lower t \<longleftrightarrow>
     distinct (map inv_id t) \<and> distinct (map inv_hash t) \<and>
     unique_on open_invite (\<lambda>i. (inv_org i, lower (inv_email i))) t"

definition insert_invite :: "(string \<Rightarrow> string) \<Rightarrow> operator_invite \<Rightarrow> control \<Rightarrow> store_error + control" where
  "insert_invite lower i s =
     (if \<not> invite_indexes_ok lower (operator_invites s @ [i]) then Inl DbUnique
      else if get_org (core s) (inv_org i) = None \<or>
              (case inv_invited_by i of None \<Rightarrow> False | Some x \<Rightarrow> get_operator s x = None) then Inl DbForeignKey
      else Inr (s\<lparr>operator_invites := operator_invites s @ [i]\<rparr>))"

definition superseded_invite :: "(string \<Rightarrow> string) \<Rightarrow> create_invite_params \<Rightarrow> operator_invite \<Rightarrow> bool" where
  "superseded_invite lower p i \<longleftrightarrow>
     inv_org i = ci_org p \<and> lower (inv_email i) = lower (ci_email p) \<and> open_invite i"

definition createInviteTx ::
  "(string \<Rightarrow> string) \<Rightarrow> (string \<Rightarrow> string) \<Rightarrow> call \<Rightarrow> uuid \<Rightarrow> string \<Rightarrow> create_invite_params \<Rightarrow> control \<Rightarrow>
   store_error + ((operator_invite \<times> string) \<times> control)" where
  "createInviteTx lower sha c new_id plain p s =
     (let i = new_invite c new_id (sha plain) p;
          s1 = s\<lparr>operator_invites := update_where (superseded_invite lower p)
                  (\<lambda>x. x\<lparr>inv_revoked_at := Some (now c)\<rparr>) (operator_invites s)\<rparr>
      in case insert_invite lower i s1 of
           Inl e \<Rightarrow> Inl e
         | Inr s2 \<Rightarrow>
             (case append_event c (ci_org p) ''operator.invited''
                     (''invited '' @ ci_email p @ '' as '' @ ci_role p)
                     [(''email'', JStr (ci_email p)), (''role'', JStr (ci_role p)), (''invite'', JStr new_id)] s2 of
                Inl e \<Rightarrow> Inl e
              | Inr s3 \<Rightarrow> Inr ((i, plain), s3)))"

definition CreateInvite ::
  "(string \<Rightarrow> string) \<Rightarrow> (string \<Rightarrow> string) \<Rightarrow> call \<Rightarrow> uuid \<Rightarrow> string \<Rightarrow> create_invite_params \<Rightarrow> control \<Rightarrow>
   store_error + ((operator_invite \<times> string) \<times> control)" where
  "CreateInvite lower sha c new_id plain p0 s =
     (let p = p0\<lparr>ci_email := trim_space (ci_email p0)\<rparr> in
      case validateEmail (ci_email p) of
        Some e \<Rightarrow> Inl e
      | None \<Rightarrow> (case invite_ttl (ci_ttl p) of
          Inl e \<Rightarrow> Inl e
        | Inr ttl \<Rightarrow> map_result (createInviteTx lower sha c new_id plain
            (p\<lparr>ci_role := (if ci_role p = [] then ''member'' else ci_role p), ci_ttl := ttl\<rparr>) s)))"

definition claimable_invite :: "call \<Rightarrow> string \<Rightarrow> operator_invite \<Rightarrow> bool" where
  "claimable_invite c hash i \<longleftrightarrow> inv_hash i = hash \<and> open_invite i \<and> inv_expires_at i > now c"

text \<open>\<open>INSERT .. ON CONFLICT (lower(email)) DO UPDATE SET email = operators.email\<close>: the row already there, or a new one.\<close>

definition upsert_operator ::
  "(string \<Rightarrow> string) \<Rightarrow> call \<Rightarrow> uuid \<Rightarrow> string \<Rightarrow> control \<Rightarrow> store_error + (operator \<times> control)" where
  "upsert_operator lower c new_id email s =
     (case find_row (same_email lower email) (operators s) of
        Some r \<Rightarrow> Inr (r, s)
      | None \<Rightarrow>
          if get_operator s new_id \<noteq> None then Inl DbUnique
          else let r = new_operator c new_id email email in Inr (r, s\<lparr>operators := operators s @ [r]\<rparr>))"

definition join_if_absent :: "call \<Rightarrow> uuid \<Rightarrow> uuid \<Rightarrow> string \<Rightarrow> control \<Rightarrow> store_error + control" where
  "join_if_absent c org op_id role s =
     (if list_ex (is_member org op_id) (organization_members s) then Inr s
      else insert_member c org op_id role s)"

text \<open>The random values one redemption draws: the ids of an operator and of a token, and the token.\<close>

record redeem_fresh =
  rf_operator :: uuid
  rf_token :: uuid
  rf_plain :: string

text \<open>What follows the claim, in the same transaction.\<close>

definition admit ::
  "(string \<Rightarrow> string) \<Rightarrow> (string \<Rightarrow> string) \<Rightarrow> call \<Rightarrow> redeem_fresh \<Rightarrow> operator_invite \<Rightarrow> string \<Rightarrow> control \<Rightarrow>
   store_error + ((operator \<times> operator_token \<times> string) \<times> control)" where
  "admit lower sha c f i tokenName s1 =
     (case upsert_operator lower c (rf_operator f) (inv_email i) s1 of
        Inl e \<Rightarrow> Inl e
      | Inr (r, s2) \<Rightarrow>
          if opr_disabled_at r \<noteq> None then Inl (ErrConflict ''that account is disabled'')
          else
            let s3 = s2\<lparr>operator_invites := update_where (\<lambda>x. inv_hash x = inv_hash i)
                       (\<lambda>x. x\<lparr>inv_redeemed_by := Some (opr_id r)\<rparr>) (operator_invites s2)\<rparr>;
                t = new_token c (rf_token f) (opr_id r) (sha (rf_plain f)) tokenName None
            in case join_if_absent c (inv_org i) (opr_id r) (inv_role i) s3 of
                 Inl e \<Rightarrow> Inl e
               | Inr s4 \<Rightarrow> (case insert_token t s4 of
                   Inl e \<Rightarrow> Inl e
                 | Inr s5 \<Rightarrow>
                     (case append_event c (inv_org i) ''operator.joined''
                             (opr_email r @ '' joined as '' @ inv_role i)
                             [(''email'', JStr (opr_email r)), (''role'', JStr (inv_role i))] s5 of
                        Inl e \<Rightarrow> Inl e
                      | Inr s6 \<Rightarrow> Inr ((r, t, rf_plain f), s6))))"

definition RedeemInvite ::
  "(string \<Rightarrow> string) \<Rightarrow> (string \<Rightarrow> string) \<Rightarrow> call \<Rightarrow> redeem_fresh \<Rightarrow> string \<Rightarrow> string \<Rightarrow> control \<Rightarrow>
   store_error + ((operator \<times> operator_token \<times> string) \<times> control)" where
  "RedeemInvite lower sha c f plain tokenName0 s =
     (if plain = [] then Inl ErrNotFound
      else
        let tokenName = (if tokenName0 = [] then ''invite'' else tokenName0);
            claim = claimable_invite c (sha plain)
        in map_result (case find_row claim (operator_invites s) of
             None \<Rightarrow> Inl DbNoRows
           | Some i \<Rightarrow> admit lower sha c f i tokenName
               (s\<lparr>operator_invites := update_where claim (\<lambda>x. x\<lparr>inv_redeemed_at := Some (now c)\<rparr>) (operator_invites s)\<rparr>)))"

definition ListInvites :: "uuid \<Rightarrow> control \<Rightarrow> operator_invite list" where
  "ListInvites org s =
     sort_key (\<lambda>i. - inv_created_at i) (filter (\<lambda>i. inv_org i = org) (operator_invites s))"

definition RevokeInvite :: "call \<Rightarrow> uuid \<Rightarrow> uuid \<Rightarrow> control \<Rightarrow> store_error + (unit \<times> control)" where
  "RevokeInvite c org i s =
     (let hit = (\<lambda>x. inv_id x = i \<and> inv_org x = org \<and> open_invite x) in
      if find_row hit (operator_invites s) = None then Inl ErrNotFound
      else Inr ((), s\<lparr>operator_invites := update_where hit (\<lambda>x. x\<lparr>inv_revoked_at := Some (now c)\<rparr>)
             (operator_invites s)\<rparr>))"

section \<open>Access requests\<close>

definition maxNoteLen :: nat where
  "maxNoteLen = 2000"

definition maxNameLen :: nat where
  "maxNameLen = 200"

record create_access_request_params =
  ca_org :: uuid
  ca_email :: string
  ca_name :: string
  ca_note :: string

definition pending_for :: "(string \<Rightarrow> string) \<Rightarrow> uuid \<Rightarrow> string \<Rightarrow> access_request \<Rightarrow> bool" where
  "pending_for lower org email r \<longleftrightarrow>
     ar_org r = org \<and> lower (ar_email r) = lower email \<and> ar_state r = AccessPending"

definition resubmitted :: "create_access_request_params \<Rightarrow> access_request \<Rightarrow> access_request" where
  "resubmitted p r = r\<lparr>
     ar_name := (if ca_name p = [] then ar_name r else ca_name p),
     ar_note := (if ca_note p = [] then ar_note r else ca_note p)\<rparr>"

definition new_access_request :: "call \<Rightarrow> uuid \<Rightarrow> create_access_request_params \<Rightarrow> access_request" where
  "new_access_request c new_id p =
     \<lparr>ar_id = new_id, ar_org = ca_org p, ar_email = ca_email p, ar_name = ca_name p, ar_note = ca_note p,
      ar_state = AccessPending, ar_invite = None, ar_decided_by = None, ar_decided_at = None,
      ar_created_at = now c\<rparr>"

text \<open>The upsert, with \<open>xmax = 0\<close> as the flag that says the row is new.\<close>

definition upsert_access_request ::
  "(string \<Rightarrow> string) \<Rightarrow> call \<Rightarrow> uuid \<Rightarrow> create_access_request_params \<Rightarrow> control \<Rightarrow>
   store_error + ((access_request \<times> bool) \<times> control)" where
  "upsert_access_request lower c new_id p s =
     (let hit = pending_for lower (ca_org p) (ca_email p) in
      case find_row hit (access_requests s) of
        Some r \<Rightarrow> Inr ((resubmitted p r, False),
                   s\<lparr>access_requests := update_where hit (resubmitted p) (access_requests s)\<rparr>)
      | None \<Rightarrow>
          let r = new_access_request c new_id p in
          if list_ex (\<lambda>x. ar_id x = new_id) (access_requests s) then Inl DbUnique
          else if get_org (core s) (ca_org p) = None then Inl DbForeignKey
          else Inr ((r, True), s\<lparr>access_requests := access_requests s @ [r]\<rparr>))"

definition CreateAccessRequest ::
  "(string \<Rightarrow> string) \<Rightarrow> call \<Rightarrow> uuid \<Rightarrow> create_access_request_params \<Rightarrow> control \<Rightarrow>
   store_error + ((access_request \<times> bool) \<times> control)" where
  "CreateAccessRequest lower c new_id p0 s =
     (let p = p0\<lparr>ca_email := trim_space (ca_email p0), ca_name := trim_space (ca_name p0),
                ca_note := trim_space (ca_note p0)\<rparr> in
      case validateEmail (ca_email p) of
        Some e \<Rightarrow> Inl e
      | None \<Rightarrow>
          if length (ca_name p) > maxNameLen then Inl (ErrInvalid ''name must be at most 200 characters'')
          else if length (ca_note p) > maxNoteLen then Inl (ErrInvalid ''note must be at most 2000 characters'')
          else map_result
            (case upsert_access_request lower c new_id p s of
               Inl e \<Rightarrow> Inl e
             | Inr ((r, fresh1), s1) \<Rightarrow>
                 if \<not> fresh1 then Inr ((r, fresh1), s1)
                 else (case append_event c (ca_org p) ''access.requested'' (ar_email r @ '' asked for access'')
                              [(''email'', JStr (ar_email r)), (''request'', JStr (ar_id r))] s1 of
                         Inl e \<Rightarrow> Inl e
                       | Inr s2 \<Rightarrow> Inr ((r, fresh1), s2))))"

definition ListAccessRequests :: "uuid \<Rightarrow> control \<Rightarrow> access_request list" where
  "ListAccessRequests org s =
     sort_key (\<lambda>r. if ar_state r = AccessPending then 0 else 1 :: nat)
       (sort_key (\<lambda>r. - ar_created_at r) (filter (\<lambda>r. ar_org r = org) (access_requests s)))"

definition GetAccessRequest :: "uuid \<Rightarrow> control \<Rightarrow> store_error + access_request" where
  "GetAccessRequest i s =
     (case find_row (\<lambda>r. ar_id r = i) (access_requests s) of
        None \<Rightarrow> Inl (mapErr DbNoRows)
      | Some r \<Rightarrow> Inr r)"

definition OrgForAccessRequest :: "uuid \<Rightarrow> control \<Rightarrow> store_error + uuid" where
  "OrgForAccessRequest i s = orgIDFrom (map_option ar_org (find_row (\<lambda>r. ar_id r = i) (access_requests s)))"

text \<open>\<open>UPDATE .. WHERE id = $1 AND org_id = $2 AND state = 'pending' RETURNING ..\<close>\<close>

definition decide ::
  "call \<Rightarrow> request_state \<Rightarrow> uuid \<Rightarrow> uuid \<Rightarrow> uuid option \<Rightarrow> control \<Rightarrow> store_error + (access_request \<times> control)" where
  "decide c verdict org i decided_by s =
     (let hit = (\<lambda>r. ar_id r = i \<and> ar_org r = org \<and> ar_state r = AccessPending);
          f = (\<lambda>r. r\<lparr>ar_state := verdict, ar_decided_at := Some (now c), ar_decided_by := decided_by\<rparr>)
      in case find_row hit (access_requests s) of
           None \<Rightarrow> Inl ErrNotFound
         | Some r \<Rightarrow>
             if (case decided_by of None \<Rightarrow> False | Some x \<Rightarrow> get_operator s x = None) then Inl DbForeignKey
             else Inr (f r, s\<lparr>access_requests := update_where hit f (access_requests s)\<rparr>))"

record approve_params =
  ap_org :: uuid
  ap_request :: uuid
  ap_role :: string
  ap_ttl :: int
  ap_decided_by :: "uuid option"

definition ApproveAccessRequest ::
  "(string \<Rightarrow> string) \<Rightarrow> (string \<Rightarrow> string) \<Rightarrow> call \<Rightarrow> uuid \<Rightarrow> string \<Rightarrow> approve_params \<Rightarrow> control \<Rightarrow>
   store_error + ((access_request \<times> operator_invite \<times> string) \<times> control)" where
  "ApproveAccessRequest lower sha c new_id plain p s =
     (case invite_ttl (ap_ttl p) of
        Inl e \<Rightarrow> Inl e
      | Inr ttl \<Rightarrow> map_result
          (case decide c AccessApproved (ap_org p) (ap_request p) (ap_decided_by p) s of
             Inl e \<Rightarrow> Inl e
           | Inr (r, s1) \<Rightarrow>
               (case createInviteTx lower sha c new_id plain
                       \<lparr>ci_org = ap_org p, ci_email = ar_email r,
                        ci_role = (if ap_role p = [] then ''member'' else ap_role p), ci_ttl = ttl,
                        ci_invited_by = ap_decided_by p\<rparr> s1 of
                  Inl e \<Rightarrow> Inl e
                | Inr ((i, tok), s2) \<Rightarrow>
                    let s3 = s2\<lparr>access_requests := update_where (\<lambda>x. ar_id x = ar_id r)
                               (\<lambda>x. x\<lparr>ar_invite := Some (inv_id i)\<rparr>) (access_requests s2)\<rparr>
                    in (case append_event c (ap_org p) ''access.approved'' (''approved access for '' @ ar_email r)
                               [(''email'', JStr (ar_email r)), (''request'', JStr (ar_id r)),
                                (''invite'', JStr (inv_id i))] s3 of
                          Inl e \<Rightarrow> Inl e
                        | Inr s4 \<Rightarrow> Inr ((r\<lparr>ar_invite := Some (inv_id i)\<rparr>, i, tok), s4)))))"

definition DeclineAccessRequest ::
  "call \<Rightarrow> uuid \<Rightarrow> uuid \<Rightarrow> uuid option \<Rightarrow> control \<Rightarrow> store_error + (access_request \<times> control)" where
  "DeclineAccessRequest c org i decided_by s = map_result
     (case decide c AccessDeclined org i decided_by s of
        Inl e \<Rightarrow> Inl e
      | Inr (r, s1) \<Rightarrow>
          (case append_event c org ''access.declined'' (''declined access for '' @ ar_email r)
                  [(''email'', JStr (ar_email r)), (''request'', JStr (ar_id r))] s1 of
             Inl e \<Rightarrow> Inl e
           | Inr s2 \<Rightarrow> Inr (r, s2)))"

end
