(* ===== verification/Store_Logs.thy ===== *)
theory Store_Logs
  imports Store_Identity
begin

text \<open>
  \<open>internal/store/logs.go\<close>: a log request is an instruction to the node that runs one container. The
  rows never hold output; that is the business of the in-memory buffer.
\<close>

section \<open>Operations\<close>

definition MaxLogTailLines :: int where
  "MaxLogTailLines = 5000"

definition DefaultLogTailLines :: int where
  "DefaultLogTailLines = 200"

definition LogRequestTTL :: int where
  "LogRequestTTL = seconds 900"

record create_log_params =
  cl_env :: uuid
  cl_service :: string
  cl_tail :: int
  cl_follow :: bool

text \<open>
  The container a service of an environment runs in: the live deployment first, then the newest of
  those still rolling out.
\<close>

definition log_candidates :: "uuid \<Rightarrow> string \<Rightarrow> db \<Rightarrow> (service_instance \<times> deployment) list" where
  "log_candidates e svc s =
     List.map_filter (\<lambda>i. case get_dep s (inst_dep i) of
         None \<Rightarrow> None
       | Some d \<Rightarrow> if dep_env d = e \<and> get_env s e \<noteq> None \<and> inst_service i = svc \<and> dep_state d \<in> set running_states
                   then Some (i, d) else None) (service_instances s)"

definition log_target :: "uuid \<Rightarrow> string \<Rightarrow> db \<Rightarrow> service_instance option" where
  "log_target e svc s =
     (case sort_key (\<lambda>(i, d). if dep_state d = DeployLive then 0 else 1 :: nat)
             (sort_key (\<lambda>(i, d). - dep_revision d) (log_candidates e svc s)) of
        [] \<Rightarrow> None
      | (i, d) # _ \<Rightarrow> Some i)"

definition new_log_request ::
  "call \<Rightarrow> uuid \<Rightarrow> uuid \<Rightarrow> string \<Rightarrow> create_log_params \<Rightarrow> log_request" where
  "new_log_request c new_id inst cont p =
     \<lparr>lq_id = new_id, lq_instance = inst, lq_env = cl_env p, lq_service = cl_service p, lq_container = cont,
      lq_tail = cl_tail p, lq_since = None, lq_follow = cl_follow p, lq_state = LogPending, lq_error = None,
      lq_created_at = now c, lq_updated_at = now c, lq_expires_at = now c + LogRequestTTL\<rparr>"

definition CreateLogRequest ::
  "call \<Rightarrow> uuid \<Rightarrow> create_log_params \<Rightarrow> control \<Rightarrow> store_error + (log_request \<times> control)" where
  "CreateLogRequest c new_id p0 s =
     (let p = (if cl_tail p0 \<le> 0 then p0\<lparr>cl_tail := DefaultLogTailLines\<rparr> else p0) in
      if cl_tail p > MaxLogTailLines then Inl (ErrInvalid ''tail must be at most 5000 lines'')
      else if cl_service p = [] then Inl (ErrInvalid ''service is required'')
      else map_result
        (case log_target (cl_env p) (cl_service p) (core s) of
           None \<Rightarrow> Inl DbNoRows
         | Some i \<Rightarrow>
             (case inst_container i of
                None \<Rightarrow> Inl (ErrConflict (''service '' @ quote (cl_service p) @ '' has no running container yet''))
              | Some cont \<Rightarrow>
                  if cont = [] then Inl (ErrConflict (''service '' @ quote (cl_service p) @ '' has no running container yet''))
                  else
                    let l = new_log_request c new_id (inst_id i) cont p in
                    if list_ex (\<lambda>x. lq_id x = new_id) (log_requests s) then Inl DbUnique
                    else Inr (l, s\<lparr>log_requests := log_requests s @ [l]\<rparr>))))"

definition get_instance :: "db \<Rightarrow> uuid \<Rightarrow> service_instance option" where
  "get_instance s i = find_row (\<lambda>r. inst_id r = i) (service_instances s)"

definition owned_by :: "uuid \<Rightarrow> control \<Rightarrow> log_request \<Rightarrow> bool" where
  "owned_by nd s l = (case get_instance (core s) (lq_instance l) of None \<Rightarrow> False | Some i \<Rightarrow> inst_node i = nd)"

record pending_log =
  pl_id :: uuid
  pl_container :: string
  pl_tail :: int
  pl_since :: "time option"
  pl_follow :: bool
  pl_service :: string

definition LogRequestsForNode :: "call \<Rightarrow> uuid \<Rightarrow> control \<Rightarrow> pending_log list" where
  "LogRequestsForNode c nd s =
     map (\<lambda>l. \<lparr>pl_id = lq_id l, pl_container = lq_container l, pl_tail = lq_tail l, pl_since = lq_since l,
               pl_follow = lq_follow l, pl_service = lq_service l\<rparr>)
       (sort_key lq_created_at
         (filter (\<lambda>l. owned_by nd s l \<and> lq_state l = LogPending \<and> lq_expires_at l > now c) (log_requests s)))"

definition LogRequestOwnedByNode :: "uuid \<Rightarrow> uuid \<Rightarrow> control \<Rightarrow> bool" where
  "LogRequestOwnedByNode nd i s = list_ex (\<lambda>l. lq_id l = i \<and> owned_by nd s l) (log_requests s)"

definition completed :: "call \<Rightarrow> string \<Rightarrow> log_request \<Rightarrow> log_request" where
  "completed c failure l = l\<lparr>
     lq_state := (if failure \<noteq> [] then LogFailed else if lq_follow l then LogPending else LogDone),
     lq_since := (if failure = [] \<and> lq_follow l then Some (now c) else lq_since l),
     lq_error := nullif failure,
     lq_updated_at := now c\<rparr>"

definition CompleteLogRequest ::
  "call \<Rightarrow> uuid \<Rightarrow> uuid \<Rightarrow> string \<Rightarrow> control \<Rightarrow> store_error + (unit \<times> control)" where
  "CompleteLogRequest c nd i failure s =
     (let hit = (\<lambda>l. lq_id l = i \<and> owned_by nd s l) in
      if list_ex hit (log_requests s)
      then Inr ((), s\<lparr>log_requests := update_where hit (completed c failure) (log_requests s)\<rparr>)
      else Inl ErrNotFound)"

definition GetLogRequest :: "uuid \<Rightarrow> control \<Rightarrow> store_error + log_request" where
  "GetLogRequest i s = (case get_log_request s i of None \<Rightarrow> Inl (mapErr DbNoRows) | Some l \<Rightarrow> Inr l)"

definition CloseLogRequest :: "call \<Rightarrow> uuid \<Rightarrow> control \<Rightarrow> control" where
  "CloseLogRequest c i s =
     s\<lparr>log_requests := update_where (\<lambda>l. lq_id l = i \<and> lq_state l = LogPending)
        (\<lambda>l. l\<lparr>lq_state := LogDone, lq_updated_at := now c\<rparr>) (log_requests s)\<rparr>"

definition SweepLogRequests :: "call \<Rightarrow> control \<Rightarrow> uuid list \<times> control" where
  "SweepLogRequests c s =
     (map lq_id (filter (\<lambda>l. lq_expires_at l < now c) (log_requests s)),
      s\<lparr>log_requests := delete_where (\<lambda>l. lq_expires_at l < now c) (log_requests s)\<rparr>)"

end
