(* ===== verification/Store_Reads.thy ===== *)
theory Store_Reads
  imports Store_Identity
begin

text \<open>
  The reads of the store that the API and the loops make beside the operations already modelled: the
  listings of \<open>catalog.go\<close> and \<open>stacks.go\<close>, the lookups of an organization in \<open>store.go\<close>, the audit log of
  \<open>events.go\<close> and the mail targets of \<open>notify.go\<close>.
\<close>

section \<open>Catalog\<close>

definition GetOrganization :: "uuid \<Rightarrow> db \<Rightarrow> store_error + organization" where
  "GetOrganization i s = (case get_org s i of None \<Rightarrow> Inl (mapErr DbNoRows) | Some r \<Rightarrow> Inr r)"

definition GetOrganizationBySlug :: "string \<Rightarrow> db \<Rightarrow> store_error + organization" where
  "GetOrganizationBySlug sl s =
     (case find_row (\<lambda>r. org_slug r = sl) (organizations s) of
        None \<Rightarrow> Inl (mapErr DbNoRows)
      | Some r \<Rightarrow> Inr r)"

definition ListOrganizations :: "db \<Rightarrow> organization list" where
  "ListOrganizations s = sort_key org_slug (organizations s)"

definition ListApplications :: "uuid \<Rightarrow> db \<Rightarrow> application list" where
  "ListApplications org s = sort_key app_slug (filter (\<lambda>a. app_org_id a = org) (applications s))"

definition ListStacks :: "uuid \<Rightarrow> db \<Rightarrow> stack list" where
  "ListStacks app s = sort_key stk_slug (filter (\<lambda>r. stk_app_id r = app) (stacks s))"

definition GetApplication :: "uuid \<Rightarrow> db \<Rightarrow> store_error + application" where
  "GetApplication i s = (case get_app s i of None \<Rightarrow> Inl (mapErr DbNoRows) | Some r \<Rightarrow> Inr r)"

definition GetStack :: "uuid \<Rightarrow> db \<Rightarrow> store_error + stack" where
  "GetStack i s = (case get_stack s i of None \<Rightarrow> Inl (mapErr DbNoRows) | Some r \<Rightarrow> Inr r)"

record org_environment =
  oe_env :: environment
  oe_home_node :: string
  oe_app :: string
  oe_stack :: string

definition org_env_of :: "uuid \<Rightarrow> db \<Rightarrow> environment \<Rightarrow> org_environment option" where
  "org_env_of org s e =
     (case get_stack s (env_stack_id e) of
        None \<Rightarrow> None
      | Some st \<Rightarrow> (case get_app s (stk_app_id st) of
          None \<Rightarrow> None
        | Some a \<Rightarrow>
            if app_org_id a = org
            then Some \<lparr>oe_env = e,
                       oe_home_node = (case env_home e of None \<Rightarrow> [] | Some h \<Rightarrow>
                         (case get_node s h of None \<Rightarrow> [] | Some n \<Rightarrow> node_hostname n)),
                       oe_app = app_slug a, oe_stack = stk_slug st\<rparr>
            else None))"

text \<open>\<open>ORDER BY a.slug, s.slug, e.slug\<close>, as three stable sorts from the last key to the first.\<close>

definition ListOrgEnvironments :: "uuid \<Rightarrow> db \<Rightarrow> org_environment list" where
  "ListOrgEnvironments org s =
     sort_key oe_app (sort_key oe_stack (sort_key (\<lambda>v. env_slug (oe_env v))
       (List.map_filter (org_env_of org s) (environments s))))"

section \<open>Audit log\<close>

definition event_limit :: "int \<Rightarrow> nat" where
  "event_limit limit = (if limit \<le> 0 \<or> limit > 200 then 50 else nat limit)"

definition ListEvents :: "uuid \<Rightarrow> int \<Rightarrow> int \<Rightarrow> db \<Rightarrow> event list" where
  "ListEvents org before limit s =
     take (event_limit limit)
       (sort_key (\<lambda>v. - ev_id v) (filter (\<lambda>v. ev_org v = org \<and> (before \<le> 0 \<or> ev_id v < before)) (events s)))"

section \<open>Mail targets\<close>

record notify_target =
  nt_emails :: "string list"
  nt_org :: string
  nt_app :: string
  nt_stack :: string
  nt_env :: string
  nt_hostname :: string

text \<open>\<open>array_agg (op.email) FILTER (WHERE op.disabled_at IS NULL)\<close> over the members of an organization.\<close>

definition OrgOperatorEmails :: "uuid \<Rightarrow> control \<Rightarrow> string list" where
  "OrgOperatorEmails org s =
     List.map_filter (\<lambda>m. if mem_org m \<noteq> org then None
       else (case get_operator s (mem_operator m) of
               None \<Rightarrow> None
             | Some r \<Rightarrow> if opr_disabled_at r = None then Some (opr_email r) else None)) (organization_members s)"

definition NotifyTargetsForEnvironment :: "uuid \<Rightarrow> control \<Rightarrow> store_error + notify_target" where
  "NotifyTargetsForEnvironment i s =
     (case get_env (core s) i of
        None \<Rightarrow> Inl (mapErr DbNoRows)
      | Some e \<Rightarrow> (case get_stack (core s) (env_stack_id e) of
          None \<Rightarrow> Inl (mapErr DbNoRows)
        | Some st \<Rightarrow> (case get_app (core s) (stk_app_id st) of
            None \<Rightarrow> Inl (mapErr DbNoRows)
          | Some a \<Rightarrow> (case get_org (core s) (app_org_id a) of
              None \<Rightarrow> Inl (mapErr DbNoRows)
            | Some g \<Rightarrow> Inr \<lparr>nt_emails = OrgOperatorEmails (org_id g) s, nt_org = org_slug g, nt_app = app_slug a,
                nt_stack = stk_slug st, nt_env = env_slug e,
                nt_hostname = (case env_hostname e of None \<Rightarrow> [] | Some h \<Rightarrow> h)\<rparr>))))"

definition NotifyTargetsForDeployment :: "uuid \<Rightarrow> control \<Rightarrow> store_error + notify_target" where
  "NotifyTargetsForDeployment i s =
     (case get_dep (core s) i of
        None \<Rightarrow> Inl (mapErr DbNoRows)
      | Some d \<Rightarrow> NotifyTargetsForEnvironment (dep_env d) s)"

definition Path :: "notify_target \<Rightarrow> string" where
  "Path t = nt_org t @ ''/'' @ nt_app t @ ''/'' @ nt_stack t @ ''/'' @ nt_env t"

end
