(* ===== verification/Log_Buffer.thy ===== *)
theory Log_Buffer
  imports Prelude
begin

text \<open>
  \<open>internal/logbuf/logbuf.go\<close>: the bounded in-memory store of delivered container output, keyed by request.
  Each operation runs under the buffer's mutex, so it is one step of the model; the clock it reads is
  an argument. A string is a list of bytes. The specification is the log itself: everything ever
  written for a request since its slot was taken.
\<close>

section \<open>The buffer\<close>

record chunk =
  ch_seq :: int
  ch_data :: string

record entry =
  en_chunks :: "chunk list"
  en_bytes :: int
  en_next :: int
  en_dropped :: bool
  en_seen :: time

record buffer =
  buf_entries :: "entry gomap"
  maxBytes :: int
  maxRequests :: nat

definition New :: buffer where
  "New = \<lparr>buf_entries = [], maxBytes = 2 ^ 20, maxRequests = 64\<rparr>"

fun drop_front :: "int \<Rightarrow> chunk list \<Rightarrow> int \<Rightarrow> bool \<Rightarrow> chunk list \<times> int \<times> bool" where
  "drop_front cap (c1 # c2 # cs) bytes dropped =
     (if bytes > cap then drop_front cap (c2 # cs) (bytes - int (length (ch_data c1))) True
      else (c1 # c2 # cs, bytes, dropped))"
| "drop_front cap [c] bytes dropped = ([c], bytes, dropped)"
| "drop_front cap [] bytes dropped = ([], bytes, dropped)"

definition write_entry :: "int \<Rightarrow> time \<Rightarrow> string \<Rightarrow> entry \<Rightarrow> entry" where
  "write_entry cap now1 data e =
     (if data = [] then e\<lparr>en_seen := now1\<rparr>
      else case drop_front cap (en_chunks e @ [\<lparr>ch_seq = en_next e, ch_data = data\<rparr>]) (en_bytes e + int (length data)) (en_dropped e) of
        (cs, bytes, dropped) \<Rightarrow>
          \<lparr>en_chunks = cs, en_bytes = bytes, en_next = en_next e + 1, en_dropped = dropped, en_seen = now1\<rparr>)"

definition zero_entry :: entry where
  "zero_entry = \<lparr>en_chunks = [], en_bytes = 0, en_next = 0, en_dropped = False, en_seen = 0\<rparr>"

definition Write :: "time \<Rightarrow> uuid \<Rightarrow> string \<Rightarrow> buffer \<Rightarrow> bool \<times> buffer" where
  "Write now1 i data b =
     (case map_of (buf_entries b) i of
        Some e \<Rightarrow> (True, b\<lparr>buf_entries := put i (write_entry (maxBytes b) now1 data e) (buf_entries b)\<rparr>)
      | None \<Rightarrow>
          if length (buf_entries b) \<ge> maxRequests b then (False, b)
          else (True, b\<lparr>buf_entries := put i (write_entry (maxBytes b) now1 data zero_entry) (buf_entries b)\<rparr>))"

definition Read :: "time \<Rightarrow> uuid \<Rightarrow> int \<Rightarrow> buffer \<Rightarrow> (chunk list \<times> int \<times> bool) \<times> buffer" where
  "Read now1 i cursor b =
     (case map_of (buf_entries b) i of
        None \<Rightarrow> (([], cursor, False), b)
      | Some e \<Rightarrow>
          ((filter (\<lambda>c. ch_seq c \<ge> cursor) (en_chunks e), en_next e, en_dropped e),
           b\<lparr>buf_entries := put i (e\<lparr>en_seen := now1\<rparr>) (buf_entries b)\<rparr>))"

definition Drop :: "uuid \<Rightarrow> buffer \<Rightarrow> buffer" where
  "Drop i b = b\<lparr>buf_entries := remove_key i (buf_entries b)\<rparr>"

definition Expire :: "time \<Rightarrow> time \<Rightarrow> buffer \<Rightarrow> nat \<times> buffer" where
  "Expire now1 maxAge b =
     (let old = (\<lambda>(i, e). en_seen e < now1 - maxAge) in
      (length (filter old (buf_entries b)), b\<lparr>buf_entries := filter (\<lambda>x. \<not> old x) (buf_entries b)\<rparr>))"

definition Len :: "buffer \<Rightarrow> nat" where
  "Len b = length (buf_entries b)"

section \<open>The log\<close>

type_synonym logs = "uuid \<Rightarrow> (string list \<times> time) option"

datatype buf_op = OpWrite time uuid string | OpRead time uuid int | OpDrop uuid | OpExpire time time

definition do_op :: "buf_op \<Rightarrow> buffer \<Rightarrow> buffer" where
  "do_op opn b =
     (case opn of
        OpWrite t i data \<Rightarrow> snd (Write t i data b)
      | OpRead t i cursor \<Rightarrow> snd (Read t i cursor b)
      | OpDrop i \<Rightarrow> Drop i b
      | OpExpire t age \<Rightarrow> snd (Expire t age b))"

definition log_op :: "buf_op \<Rightarrow> logs \<Rightarrow> logs" where
  "log_op opn w =
     (case opn of
        OpWrite t i data \<Rightarrow>
          (case w i of
             Some (ws, _) \<Rightarrow> w(i \<mapsto> (if data = [] then ws else ws @ [data], t))
           | None \<Rightarrow> if card (dom w) \<ge> 64 then w else w(i \<mapsto> (if data = [] then [] else [data], t)))
      | OpRead t i cursor \<Rightarrow> (case w i of Some (ws, _) \<Rightarrow> w(i \<mapsto> (ws, t)) | None \<Rightarrow> w)
      | OpDrop i \<Rightarrow> w(i := None)
      | OpExpire t age \<Rightarrow> (\<lambda>i. case w i of Some (ws, seen) \<Rightarrow> if seen < t - age then None else Some (ws, seen) | None \<Rightarrow> None))"

definition size_of :: "string list \<Rightarrow> int" where
  "size_of ws = int (length (concat ws))"

text \<open>
  What the buffer holds of a log: the chunks from number \<open>k\<close> on, numbered by their position in the log,
  where \<open>k\<close> is the first position from which the rest fits under the cap, or the last one.
\<close>

definition holds_suffix :: "int \<Rightarrow> entry \<Rightarrow> string list \<Rightarrow> nat \<Rightarrow> bool" where
  "holds_suffix cap e ws k \<longleftrightarrow>
     k \<le> length ws \<and> map ch_data (en_chunks e) = drop k ws \<and> map ch_seq (en_chunks e) = map int [k..<length ws] \<and>
     en_bytes e = size_of (drop k ws) \<and> en_next e = int (length ws) \<and> (en_dropped e \<longleftrightarrow> k > 0) \<and>
     (size_of (drop k ws) \<le> cap \<or> length ws \<le> k + 1) \<and> (k = 0 \<or> k < length ws \<and> cap < size_of (drop (k - 1) ws))"

definition represents :: "buffer \<Rightarrow> logs \<Rightarrow> bool" where
  "represents b w \<longleftrightarrow> gomap_wf (buf_entries b) \<and> length (buf_entries b) \<le> maxRequests b \<and>
     dom (map_of (buf_entries b)) = dom w \<and> 0 \<le> maxBytes b \<and> maxRequests b = 64 \<and>
     (\<forall>i e. map_of (buf_entries b) i = Some e \<longrightarrow>
        (\<exists>ws k. w i = Some (ws, en_seen e) \<and> [] \<notin> set ws \<and> holds_suffix (maxBytes b) e ws k))"

section \<open>One entry\<close>

lemma size_of_append [simp]: "size_of (xs @ ys) = size_of xs + size_of ys"
  by (simp add: size_of_def)

lemma size_of_simps [simp]: "size_of [] = 0" "size_of (x # xs) = int (length x) + size_of xs"
  by (simp_all add: size_of_def)

lemma drop_front_suffix:
  assumes "drop_front cap cs bytes d = (cs', bytes', d')"
    and "map ch_data cs = drop k ws" "map ch_seq cs = map int [k..<length ws]" "bytes = size_of (drop k ws)" "d \<longleftrightarrow> k > 0"
    and "k < length ws" "k = 0 \<or> cap < size_of (drop (k - 1) ws)"
  shows "\<exists>j. k \<le> j \<and> j < length ws \<and> map ch_data cs' = drop j ws \<and> map ch_seq cs' = map int [j..<length ws] \<and>
    bytes' = size_of (drop j ws) \<and> (d' \<longleftrightarrow> j > 0) \<and> (size_of (drop j ws) \<le> cap \<or> length ws \<le> j + 1) \<and>
    (j = 0 \<or> cap < size_of (drop (j - 1) ws))"
  using assms
proof (induction cap cs bytes d arbitrary: k rule: drop_front.induct)
  case (1 cap c1 c2 cs bytes dropped)
  have "length (map ch_data (c1 # c2 # cs)) = length (drop k ws)" using 1(3) by (rule arg_cong)
  then have len: "length ws = k + 2 + length cs" by simp
  have upt: "[k..<length ws] = k # [Suc k..<length ws]" using len by (intro upt_conv_Cons) simp
  have d: "drop k ws = ch_data c1 # drop (Suc k) ws" using 1(3,7) by (metis Cons_nth_drop_Suc list.inject list.simps(9))
  show ?case
  proof (cases "bytes > cap")
    case True
    have "\<exists>j \<ge> Suc k. j < length ws \<and> map ch_data cs' = drop j ws \<and> map ch_seq cs' = map int [j..<length ws] \<and>
      bytes' = size_of (drop j ws) \<and> (d' \<longleftrightarrow> j > 0) \<and> (size_of (drop j ws) \<le> cap \<or> length ws \<le> j + 1) \<and>
      (j = 0 \<or> cap < size_of (drop (j - 1) ws))"
    proof (rule 1(1) [OF True])
      show "drop_front cap (c2 # cs) (bytes - int (length (ch_data c1))) True = (cs', bytes', d')" using 1(2) True by simp
      show "map ch_data (c2 # cs) = drop (Suc k) ws" using 1(3) d by simp
      show "map ch_seq (c2 # cs) = map int [Suc k..<length ws]" using 1(4) unfolding upt by simp
      show "bytes - int (length (ch_data c1)) = size_of (drop (Suc k) ws)" using 1(5) d by simp
      show "Suc k = 0 \<or> cap < size_of (drop (Suc k - 1) ws)" using True 1(5) by simp
    qed (use len in auto)
    then obtain j where "Suc k \<le> j" "j < length ws \<and> map ch_data cs' = drop j ws \<and> map ch_seq cs' = map int [j..<length ws] \<and>
      bytes' = size_of (drop j ws) \<and> (d' \<longleftrightarrow> j > 0) \<and> (size_of (drop j ws) \<le> cap \<or> length ws \<le> j + 1) \<and>
      (j = 0 \<or> cap < size_of (drop (j - 1) ws))" by blast
    then show ?thesis by (intro exI [of _ j]) (simp only: Suc_leD simp_thms)
  next
    case False
    with 1 show ?thesis by (intro exI [of _ k]) auto
  qed
next
  case (2 cap c bytes dropped)
  have "length (map ch_data [c]) = length (drop k ws)" using 2(2) by (rule arg_cong)
  then have "length ws = k + 1" by simp
  with 2 show ?case by (intro exI [of _ k]) auto
qed simp

lemma write_entry_suffix:
  assumes "holds_suffix cap e ws k" "data \<noteq> []"
  shows "\<exists>j. holds_suffix cap (write_entry cap t data e) (ws @ [data]) j \<and> en_seen (write_entry cap t data e) = t"
proof -
  let ?cs = "en_chunks e @ [\<lparr>ch_seq = en_next e, ch_data = data\<rparr>]"
  obtain cs' bytes' d' where run: "drop_front cap ?cs (en_bytes e + int (length data)) (en_dropped e) = (cs', bytes', d')"
    by (metis prod_cases3)
  have k: "k \<le> length ws" using assms(1) by (simp add: holds_suffix_def)
  have "k = 0 \<or> cap < size_of (drop (k - 1) (ws @ [data]))"
    using assms(1) by (auto simp: holds_suffix_def)
  then have "\<exists>j. k \<le> j \<and> j < length (ws @ [data]) \<and> map ch_data cs' = drop j (ws @ [data]) \<and>
      map ch_seq cs' = map int [j..<length (ws @ [data])] \<and> bytes' = size_of (drop j (ws @ [data])) \<and> (d' \<longleftrightarrow> j > 0) \<and>
      (size_of (drop j (ws @ [data])) \<le> cap \<or> length (ws @ [data]) \<le> j + 1) \<and> (j = 0 \<or> cap < size_of (drop (j - 1) (ws @ [data])))"
    using assms(1) k by (intro drop_front_suffix [OF run]) (auto simp: holds_suffix_def)
  then obtain j where j: "j < length (ws @ [data])" "map ch_data cs' = drop j (ws @ [data])"
      "map ch_seq cs' = map int [j..<length (ws @ [data])]" "bytes' = size_of (drop j (ws @ [data]))" "d' \<longleftrightarrow> j > 0"
      "size_of (drop j (ws @ [data])) \<le> cap \<or> length (ws @ [data]) \<le> j + 1"
      "j = 0 \<or> cap < size_of (drop (j - 1) (ws @ [data]))" by blast
  have next1: "en_next e = int (length ws)" using assms(1) by (simp add: holds_suffix_def)
  have "write_entry cap t data e = \<lparr>en_chunks = cs', en_bytes = bytes', en_next = en_next e + 1, en_dropped = d', en_seen = t\<rparr>"
    using assms(2) by (simp add: write_entry_def run)
  then have "holds_suffix cap (write_entry cap t data e) (ws @ [data]) j" "en_seen (write_entry cap t data e) = t"
    unfolding holds_suffix_def using j next1 by simp_all
  then show ?thesis by blast
qed

section \<open>The whole buffer\<close>

lemma card_entries: "gomap_wf m \<Longrightarrow> card (dom (map_of m)) = length m"
  by (metis distinct_card gomap_wf_def keys_def length_map set_keys)

lemma length_put: "length (put i e m) = (if map_of m i = None then Suc (length m) else length m)"
  by (induction m) (auto split: if_splits)

lemma length_remove_key: "length (remove_key i m) \<le> length m"
  by (simp add: AList.delete_eq length_filter_le)

lemma map_of_filter_value:
  "distinct (map fst m) \<Longrightarrow>
   map_of (filter (\<lambda>(i, e). P e) m) i = (case map_of m i of Some e \<Rightarrow> if P e then Some e else None | None \<Rightarrow> None)"
proof (induction m)
  case (Cons x m)
  obtain j e where x: "x = (j, e)" by (cases x)
  have "map_of m j = None" using Cons.prems by (auto simp: x map_of_eq_None_iff)
  with Cons show ?case by (cases "i = j") (auto simp: x)
qed simp

lemma holds_suffix_seen [simp]: "holds_suffix cap (e\<lparr>en_seen := t\<rparr>) ws k = holds_suffix cap e ws k"
  by (simp add: holds_suffix_def)

lemma represents_put:
  assumes "represents b w" "map_of (buf_entries b) i = None \<longrightarrow> length (buf_entries b) < maxRequests b"
    and "[] \<notin> set ws" "holds_suffix (maxBytes b) e ws k"
  shows "represents (b\<lparr>buf_entries := put i e (buf_entries b)\<rparr>) (w(i \<mapsto> (ws, en_seen e)))"
  using assms by (auto simp: represents_def length_put)

lemma zero_entry_suffix [simp]: "0 \<le> cap \<Longrightarrow> holds_suffix cap zero_entry [] 0"
  by (simp add: holds_suffix_def zero_entry_def)

lemma write_represents:
  assumes "holds_suffix cap e ws k" "[] \<notin> set ws"
  shows "\<exists>j. holds_suffix cap (write_entry cap t data e) (if data = [] then ws else ws @ [data]) j \<and>
    en_seen (write_entry cap t data e) = t \<and> [] \<notin> set (if data = [] then ws else ws @ [data])"
  using assms write_entry_suffix [OF assms(1), of data t]
  by (cases "data = []") (auto simp: write_entry_def)

lemma op_represents:
  assumes "represents b w"
  shows "represents (do_op opn b) (log_op opn w)"
proof -
  from assms have wf: "gomap_wf (buf_entries b)" and dom: "dom (map_of (buf_entries b)) = dom w" and cap: "0 \<le> maxBytes b"
    and max: "maxRequests b = 64" by (simp_all add: represents_def)
  have card: "card (dom w) = length (buf_entries b)" using card_entries [OF wf] dom by simp
  have entry: "\<exists>ws k. w i = Some (ws, en_seen e) \<and> [] \<notin> set ws \<and> holds_suffix (maxBytes b) e ws k"
    if "map_of (buf_entries b) i = Some e" for i e using assms that by (simp add: represents_def)
  have none: "w i = None \<longleftrightarrow> map_of (buf_entries b) i = None" for i using dom by (metis domIff)
  show ?thesis
  proof (cases opn)
    case (OpWrite t i data)
    show ?thesis
    proof (cases "map_of (buf_entries b) i")
      case None
      show ?thesis
      proof (cases "length (buf_entries b) \<ge> maxRequests b")
        case True
        with None none [of i] card max assms OpWrite show ?thesis by (simp add: do_op_def log_op_def Write_def)
      next
        case False
        from write_represents [of "maxBytes b" zero_entry "[]" 0 t data, unfolded append_Nil] cap obtain j where
          "holds_suffix (maxBytes b) (write_entry (maxBytes b) t data zero_entry) (if data = [] then [] else [data]) j"
          "en_seen (write_entry (maxBytes b) t data zero_entry) = t" "[] \<notin> set (if data = [] then [] else [data])" by auto
        with represents_put [OF assms, of i] False None none [of i] card max OpWrite show ?thesis
          by (fastforce simp: do_op_def log_op_def Write_def)
      qed
    next
      case (Some e)
      with entry obtain ws k where ws: "w i = Some (ws, en_seen e)" "[] \<notin> set ws" "holds_suffix (maxBytes b) e ws k" by blast
      from write_represents [OF ws(3,2), of t data] obtain j where
        "holds_suffix (maxBytes b) (write_entry (maxBytes b) t data e) (if data = [] then ws else ws @ [data]) j"
        "en_seen (write_entry (maxBytes b) t data e) = t" "[] \<notin> set (if data = [] then ws else ws @ [data])" by blast
      with represents_put [OF assms, of i] Some ws(1) OpWrite show ?thesis
        by (fastforce simp: do_op_def log_op_def Write_def)
    qed
  next
    case (OpRead t i cursor)
    show ?thesis
    proof (cases "map_of (buf_entries b) i")
      case None
      with none [of i] assms OpRead show ?thesis by (simp add: do_op_def log_op_def Read_def)
    next
      case (Some e)
      with entry obtain ws k where ws: "w i = Some (ws, en_seen e)" "[] \<notin> set ws" "holds_suffix (maxBytes b) e ws k" by blast
      then show ?thesis using represents_put [OF assms, of i ws "e\<lparr>en_seen := t\<rparr>" k] Some OpRead
        by (simp add: do_op_def log_op_def Read_def)
    qed
  next
    case (OpDrop i)
    then show ?thesis using assms length_remove_key [of i "buf_entries b"]
      by (auto simp: do_op_def log_op_def Drop_def represents_def)
  next
    case (OpExpire t age)
    let ?m = "filter (\<lambda>(i, e). \<not> en_seen e < t - age) (buf_entries b)"
    have "distinct (map fst (filter P m))" if "distinct (map fst m)" for P and m :: "entry gomap"
      using that by (simp add: distinct_map_filter)
    then have wf': "gomap_wf ?m" using wf by (simp add: gomap_wf_def keys_def)
    have look: "map_of ?m i = (case map_of (buf_entries b) i of Some e \<Rightarrow> if en_seen e < t - age then None else Some e | None \<Rightarrow> None)" for i
      using map_of_filter_value [of "buf_entries b" "\<lambda>e. \<not> en_seen e < t - age" i] wf
      by (auto simp: gomap_wf_def keys_def split: option.splits)
    have "length ?m \<le> maxRequests b" using assms by (intro le_trans [OF length_filter_le]) (simp add: represents_def)
    moreover have point: "if map_of ?m i = None then log_op opn w i = None
      else \<exists>e ws k. map_of ?m i = Some e \<and> log_op opn w i = Some (ws, en_seen e) \<and> [] \<notin> set ws \<and> holds_suffix (maxBytes b) e ws k" for i
    proof (cases "map_of (buf_entries b) i")
      case None
      then show ?thesis using none [of i] by (simp add: look OpExpire log_op_def)
    next
      case (Some e)
      with entry obtain ws k where "w i = Some (ws, en_seen e)" "[] \<notin> set ws" "holds_suffix (maxBytes b) e ws k" by blast
      with Some show ?thesis by (auto simp: look OpExpire log_op_def)
    qed
    moreover have "dom (map_of ?m) = dom (log_op opn w)"
    proof (rule set_eqI)
      fix i show "i \<in> dom (map_of ?m) \<longleftrightarrow> i \<in> dom (log_op opn w)" using point [of i] by (auto split: if_splits)
    qed
    moreover have "do_op opn b = b\<lparr>buf_entries := ?m\<rparr>" by (simp add: OpExpire do_op_def Expire_def Let_def case_prod_unfold)
    moreover have "\<exists>ws k. log_op opn w i = Some (ws, en_seen e) \<and> [] \<notin> set ws \<and> holds_suffix (maxBytes b) e ws k"
      if "map_of ?m i = Some e" for i e using point [of i] that by auto
    ultimately show ?thesis using wf' cap max unfolding represents_def by simp
  qed
qed

lemma new_represents: "represents New (\<lambda>_. None)"
  by (auto simp: represents_def New_def)

lemma ops_represent: "represents b w \<Longrightarrow> represents (fold do_op ops b) (fold log_op ops w)"
  by (induction ops arbitrary: b w) (simp_all add: op_represents)

definition read_spec :: "int \<Rightarrow> int \<Rightarrow> (string list \<times> time) option \<Rightarrow> chunk list \<times> int \<times> bool \<Rightarrow> bool" where
  "read_spec cap cursor log answer =
     (case (log, answer) of
        (None, (chunks, nxt, dropped)) \<Rightarrow> chunks = [] \<and> nxt = cursor \<and> \<not> dropped
      | (Some (ws, _), (chunks, nxt, dropped)) \<Rightarrow>
          nxt = int (length ws) \<and>
          (\<exists>k. (dropped \<longleftrightarrow> k > 0) \<and>
             map ch_data chunks = drop (max k (nat cursor)) ws \<and>
             map ch_seq chunks = map int [max k (nat cursor)..<length ws] \<and>
             (size_of (drop k ws) \<le> cap \<or> length ws = k + 1) \<and> (k = 0 \<or> k < length ws \<and> cap < size_of (drop (k - 1) ws))))"

lemma filter_from_cursor:
  assumes "map ch_data cs = drop k ws" "map ch_seq cs = map int [k..<length ws]"
  shows "map ch_data (filter (\<lambda>c. ch_seq c \<ge> cursor) cs) = drop (max k (nat cursor)) ws \<and>
    map ch_seq (filter (\<lambda>c. ch_seq c \<ge> cursor) cs) = map int [max k (nat cursor)..<length ws]"
  using assms
proof (induction cs arbitrary: k)
  case Nil
  then have "length ws \<le> k" by simp
  then show ?case by simp
next
  case (Cons c cs)
  then have k: "k < length ws" by (metis drop_all list.distinct(1) list.simps(9) not_le)
  then have c: "ch_data c = ws ! k" "map ch_data cs = drop (Suc k) ws" "ch_seq c = int k" "map ch_seq cs = map int [Suc k..<length ws]"
    using Cons.prems by (simp_all add: upt_conv_Cons flip: Cons_nth_drop_Suc)
  note rest = Cons.IH [OF c(2,4)]
  show ?case
  proof (cases "cursor \<le> int k")
    case True
    then have "max k (nat cursor) = k" "max (Suc k) (nat cursor) = Suc k" by simp_all
    with True rest c k show ?thesis by (simp add: upt_conv_Cons Cons_nth_drop_Suc)
  next
    case False
    then have "max k (nat cursor) = max (Suc k) (nat cursor)" by simp
    with False rest c show ?thesis by simp
  qed
qed

text \<open>
  C36: the buffer is the log with its front missing. After any sequence of operations on a new buffer, a
  read answers for the log of everything written to the request since its slot was taken: the chunks
  numbered from the cursor on, except those before a position \<open>k\<close>; the next cursor is the length of the
  log, so a reader that passes it back sees each chunk once; \<open>k\<close> is zero unless the answer says that
  content was dropped, and nothing is dropped that fits: \<open>k\<close> is the first position from which the rest
  fits under the cap, and the newest chunk is always there. At most 64 requests hold a buffer, and each
  holds at most the cap or a single chunk.
\<close>

theorem buffer_is_bounded_log:
  "read_spec (2 ^ 20) cursor (fold log_op ops (\<lambda>_. None) i) (fst (Read t i cursor (fold do_op ops New))) \<and>
   Len (fold do_op ops New) \<le> 64 \<and>
   list_all (\<lambda>(_, e). en_bytes e = size_of (map ch_data (en_chunks e)) \<and> (en_bytes e \<le> 2 ^ 20 \<or> length (en_chunks e) = 1))
     (buf_entries (fold do_op ops New))"
proof -
  let ?b = "fold do_op ops New" and ?w = "fold log_op ops (\<lambda>_. None)"
  have rep: "represents ?b ?w" by (rule ops_represent [OF new_represents])
  have const: "maxBytes (do_op opn b) = maxBytes b" for opn b
    by (simp add: do_op_def Write_def Read_def Drop_def Expire_def Let_def split: buf_op.splits option.splits)
  have "maxBytes (fold do_op ops b) = maxBytes b" for b by (induction ops arbitrary: b) (simp_all add: const)
  then have cap: "maxBytes ?b = 2 ^ 20" by (simp add: New_def)
  have entry: "\<exists>ws k. ?w j = Some (ws, en_seen e) \<and> holds_suffix (2 ^ 20) e ws k" if "map_of (buf_entries ?b) j = Some e" for j e
    using rep that unfolding represents_def cap by blast
  have "read_spec (2 ^ 20) cursor (?w i) (fst (Read t i cursor ?b))"
  proof (cases "map_of (buf_entries ?b) i")
    case None
    with rep have "?w i = None" unfolding represents_def by (metis domIff)
    with None show ?thesis by (simp add: read_spec_def Read_def)
  next
    case (Some e)
    with entry obtain ws k where ws: "?w i = Some (ws, en_seen e)" "holds_suffix (2 ^ 20) e ws k" by blast
    then have h: "map ch_data (en_chunks e) = drop k ws" "map ch_seq (en_chunks e) = map int [k..<length ws]"
      "en_next e = int (length ws)" "en_dropped e \<longleftrightarrow> k > 0" "k = 0 \<or> k < length ws \<and> 2 ^ 20 < size_of (drop (k - 1) ws)"
      "size_of (drop k ws) \<le> 2 ^ 20 \<or> length ws \<le> k + 1" "k \<le> length ws"
      by (simp_all add: holds_suffix_def)
    have "size_of (drop k ws) \<le> 2 ^ 20 \<or> length ws = k + 1" using h(6,7) by (cases "length ws = k") auto
    with ws(1) Some h filter_from_cursor [OF h(1,2), of cursor] show ?thesis
      unfolding read_spec_def Read_def by (simp only: option.case prod.case fst_conv) blast
  qed
  moreover have "Len ?b \<le> 64" using rep by (simp add: represents_def Len_def)
  moreover have "en_bytes e = size_of (map ch_data (en_chunks e)) \<and> (en_bytes e \<le> 2 ^ 20 \<or> length (en_chunks e) = 1)"
    if "(j, e) \<in> set (buf_entries ?b)" for j e
  proof -
    have "map_of (buf_entries ?b) j = Some e" using rep that by (simp add: represents_def gomap_wf_def keys_def)
    with entry obtain ws k where "holds_suffix (2 ^ 20) e ws k" by blast
    then have h: "map ch_data (en_chunks e) = drop k ws" "en_bytes e = size_of (drop k ws)"
      "size_of (drop k ws) \<le> 2 ^ 20 \<or> length ws \<le> k + 1" by (simp_all add: holds_suffix_def)
    have "length (en_chunks e) = length ws - k" using arg_cong [OF h(1), of length] by simp
    with h show ?thesis by (cases "length ws \<le> k") auto
  qed
  ultimately show ?thesis by (auto simp: list_all_iff)
qed

end
