(* ===== verification/Go_Strconv.thy ===== *)
theory Go_Strconv
  imports Prelude
begin

text \<open>Go's \<open>strconv\<close>: parsing of decimal integers, and that it inverts their rendering.\<close>

text \<open>
  \<open>strconv.ParseInt (s, 10, 64)\<close>: an optional sign and digits. A value out of range is an error that
  comes with the nearest bound, which is what a caller that ignores the error sees.
\<close>

definition digits_value :: "string \<Rightarrow> int option" where
  "digits_value ds =
     (if ds = [] \<or> \<not> list_all (\<lambda>ch. 48 \<le> (of_char ch :: nat) \<and> (of_char ch :: nat) \<le> 57) ds then None
      else Some (fold (\<lambda>ch acc. 10 * acc + int (of_char ch - 48 :: nat)) ds 0))"

definition signed_value :: "string \<Rightarrow> int option" where
  "signed_value x =
     (case x of
        [] \<Rightarrow> None
      | ch # ds \<Rightarrow>
          if ch = CHR ''-'' then map_option uminus (digits_value ds)
          else if ch = CHR ''+'' then digits_value ds
          else digits_value x)"

definition parse_int :: "string \<Rightarrow> int option" where
  "parse_int x = (case signed_value x of None \<Rightarrow> None | Some v \<Rightarrow> if in_i64 v then Some v else None)"

definition atoi :: "string \<Rightarrow> int" where
  "atoi x = (case signed_value x of
      None \<Rightarrow> 0
    | Some v \<Rightarrow> if v < - (2 ^ 63) then - (2 ^ 63) else if v \<ge> 2 ^ 63 then 2 ^ 63 - 1 else v)"

section \<open>Parsing what was rendered\<close>

definition is_digit :: "char \<Rightarrow> bool" where
  "is_digit ch \<longleftrightarrow> 48 \<le> (of_char ch :: nat) \<and> (of_char ch :: nat) \<le> 57"

definition digits_fold :: "string \<Rightarrow> int" where
  "digits_fold ds = fold (\<lambda>ch acc. 10 * acc + int (of_char ch - 48 :: nat)) ds 0"

lemma digits_value_eq: "digits_value ds = (if ds = [] \<or> \<not> list_all is_digit ds then None else Some (digits_fold ds))"
  by (simp add: digits_value_def digits_fold_def is_digit_def [abs_def])

lemma digit_char_value: "d < 10 \<Longrightarrow> is_digit (digit_char d) \<and> (of_char (digit_char d) :: nat) = 48 + d"
  by (simp add: is_digit_def)

lemma show_nat_digits: "show_nat n \<noteq> [] \<and> list_all is_digit (show_nat n) \<and> digits_fold (show_nat n) = int n"
proof (induction n rule: show_nat.induct)
  case (1 n)
  show ?case
  proof (cases "n < 10")
    case True
    then show ?thesis using digit_char_value [of n] by (simp add: show_nat.simps [of n] digits_fold_def del: digit_char.simps)
  next
    case False
    then have "digits_fold (show_nat n) = 10 * digits_fold (show_nat (n div 10)) + int (n mod 10)"
      using digit_char_value [of "n mod 10"] by (simp add: show_nat.simps [of n] digits_fold_def del: digit_char.simps)
    moreover have "10 * int (n div 10) + int (n mod 10) = int n" by presburger
    ultimately show ?thesis using 1 [OF False] False digit_char_value [of "n mod 10"]
      by (simp add: show_nat.simps [of n] del: digit_char.simps)
  qed
qed

lemma digits_value_show_nat: "digits_value (show_nat n) = Some (int n)"
  using show_nat_digits [of n] by (simp add: digits_value_eq)

lemma signed_value_show_int: "signed_value (show_int k) = Some k"
proof (cases "k < 0")
  case True
  then show ?thesis by (simp add: signed_value_def show_int_def digits_value_show_nat)
next
  case False
  obtain ch ds where sn: "show_nat (nat k) = ch # ds" using show_nat_digits [of "nat k"] by (cases "show_nat (nat k)") auto
  then have "is_digit ch" using show_nat_digits [of "nat k"] by simp
  then have "ch \<noteq> CHR ''-''" "ch \<noteq> CHR ''+''" by (auto simp: is_digit_def)
  then show ?thesis using False digits_value_show_nat [of "nat k"] sn by (simp add: signed_value_def show_int_def)
qed

lemma parse_int_show_int: "parse_int (show_int k) = (if in_i64 k then Some k else None)"
  by (simp add: parse_int_def signed_value_show_int)

lemma atoi_show_int: "in_i64 k \<Longrightarrow> atoi (show_int k) = k"
  by (simp add: atoi_def signed_value_show_int in_i64_def)

end
