(* ===== verification/Api_Server.thy ===== *)
theory Api_Server
  imports Store_Enrolment Store_Logs Store_Reads Compose_Parser Log_Buffer Go_Strconv
begin

text \<open>
  The HTTP surface, below its handlers: requests and responses, who a request is from
  (\<open>internal/api/identity.go\<close>, \<open>Server.authenticate\<close> of \<open>server.go\<close>), and what each handler checks before it
  acts (\<open>internal/api/authz.go\<close>).

  A request carries the segments of its escaped path, each unescaped: that is what \<open>http.ServeMux\<close>
  matches patterns against, and the decoded path the code reads (\<open>r.URL.Path\<close>) is their
  concatenation, so an escaped slash makes the two differ. The body is given as what \<open>decodeJSON\<close> makes
  of it for each type of request, \<open>None\<close> where it refuses; no relation between the decodings is
  assumed. What is outside the program is the record \<open>outside\<close>; a request reads the clock once.
\<close>

section \<open>Requests and responses\<close>

datatype http_method = GET | HEAD | POST | DELETE | OtherMethod string

record register_body =
  rb_org :: string
  rb_hostname :: string
  rb_addr :: string
  rb_cpu :: int
  rb_mem :: int
  rb_labels :: "string gomap"
  rb_agent_version :: string
  rb_recipient :: string

record instance_report =
  ir_id :: uuid
  ir_state :: string
  ir_observed :: observed_instance

record env_body =
  eb_slug :: string
  eb_strategy :: string
  eb_hostname :: string
  eb_config :: "string gomap"

record preview_body =
  pb_slug :: string
  pb_version :: string
  pb_inherit :: string
  pb_ttl_hours :: int
  pb_created_by :: string

record decoded =
  b_length :: int
  b_raw :: "string option"
  b_org :: "(string \<times> string) option"
  b_app :: "(string \<times> string) option"
  b_stack :: "string option"
  b_env :: "env_body option"
  b_preview :: "preview_body option"
  b_deployment :: "(string \<times> string) option"
  b_rollback :: "int option"
  b_register :: "register_body option"
  b_heartbeat :: "(int \<times> int) option"
  b_report :: "instance_report list option"
  b_join_token :: "(string \<times> int \<times> int) option"
  b_secret :: "(string \<times> string) option"
  b_log :: "(string \<times> int \<times> bool) option"
  b_deliveries :: "(uuid \<times> string \<times> string) list option"
  b_member :: "(string \<times> string \<times> string) option"
  b_token :: "(string \<times> int) option"
  b_invite :: "(string \<times> string \<times> int) option"
  b_redeem :: "(string \<times> string) option"
  b_access :: "(string \<times> string \<times> string) option"
  b_approve :: "(string \<times> int) option"

record request =
  rq_method :: http_method
  rq_segments :: "string list"
  rq_clean :: bool
  rq_authorization :: string
  rq_query :: "string gomap"
  rq_body :: decoded

text \<open>\<open>r.URL.Path\<close>; \<open>rq_clean\<close> says whether \<open>path.Clean\<close> would leave the escaped path as it is.\<close>

definition url_path :: "request \<Rightarrow> string" where
  "url_path r = concat (map (\<lambda>x. CHR ''/'' # x) (rq_segments r))"

fun split_slash :: "string \<Rightarrow> string list" where
  "split_slash [] = [[]]"
| "split_slash (ch # cs) =
     (if ch = CHR ''/'' then [] # split_slash cs
      else (case split_slash cs of [] \<Rightarrow> [[ch]] | x # xs \<Rightarrow> (ch # x) # xs))"

definition query_get :: "request \<Rightarrow> string \<Rightarrow> string" where
  "query_get r k = (case map_of (rq_query r) k of None \<Rightarrow> [] | Some v \<Rightarrow> v)"

datatype payload =
    PEmpty | PPlain string | PError string "string list" | PStatus string
  | POrg organization | POrgs "organization list" | PApp application | PApps "application list"
  | PStack stack | PStacks "stack list" | PVersion stack_version | PVersions "stack_version list"
  | PEnv environment string | PEnvs "environment list" | POrgEnvs "org_environment list"
  | PDeployment deployment int | PDeployments "deployment list" | PPromoted uuid "uuid option"
  | PRollback deployment | PPreview uuid string uuid "time option"
  | PNode node string | PNodes "node list"
  | PDrained "(uuid \<times> string) list" "(uuid \<times> string \<times> string list) list"
  | PDesired "desired_instance list" "(string \<times> string \<times> string) list" "string list" "pending_log list"
  | PRoutes "(string \<times> string \<times> string \<times> int) list"
  | PJoinToken join_token string | PJoinTokens "join_token list"
  | PSecretKey string | PSecrets "secret_meta list"
  | PLogRequest log_request | PLogs log_request "chunk list" int bool
  | PWhoami operator "organization list" | PMember member_view string | PMembers "member_view list"
  | PToken operator_token string | PTokens "operator_token list"
  | PInvite operator_invite string bool string | PInvites "operator_invite list" | PRedeemed operator string
  | PApproved access_request operator_invite string bool string
  | PAccessRequest access_request | PAccessRequests "access_request list"
  | PEvents "event list"
  | PValid string "string list" "string list" "string list" "string option" int

record response =
  rs_status :: int
  rs_body :: payload

definition writeError :: "int \<Rightarrow> string \<Rightarrow> response" where
  "writeError code msg = \<lparr>rs_status = code, rs_body = PError msg []\<rparr>"

definition writeStoreError :: "store_error \<Rightarrow> response" where
  "writeStoreError e = (case e of
      ErrNotFound \<Rightarrow> writeError 404 ''not found''
    | ErrConflict m \<Rightarrow> writeError 409 (error_text e)
    | ErrInvalid m \<Rightarrow> writeError 400 (error_text e)
    | _ \<Rightarrow> writeError 500 ''internal error'')"

definition notFound :: response where
  "notFound = writeStoreError ErrNotFound"

section \<open>The server and its surroundings\<close>

record message =
  ms_to :: "string list"
  ms_subject :: string
  ms_body :: string

text \<open>The mailer answers the text of its error, if any; no mailer is a configuration of its own.\<close>

record server =
  previewDomain :: string
  cfg_bearer :: string
  requireJoinToken :: bool
  routeStrand :: int
  mailer :: "(message \<Rightarrow> string option) option"
  consoleURL :: string
  signupOrg :: string
  cfg_metrics :: bool

text \<open>
  Code the program only calls: Postgres's \<open>lower\<close> and \<open>inet\<close>, the token hash, \<open>uuid.Parse\<close>, the digest of
  a specification, age encryption and the check of a recipient, and the YAML and Compose loaders.
\<close>

record outside =
  x_lower :: "string \<Rightarrow> string"
  x_inet :: "string \<Rightarrow> string option"
  x_sha :: "string \<Rightarrow> string"
  x_uuid :: "string \<Rightarrow> uuid option"
  x_digest :: "deployment_spec \<Rightarrow> string"
  x_encrypt :: "string \<Rightarrow> string list \<Rightarrow> string option"
  x_recipient :: "string \<Rightarrow> bool"
  x_yaml :: "string \<Rightarrow> any gomap option"
  x_load :: "string \<Rightarrow> string \<Rightarrow> bool \<Rightarrow> string + project"
  x_rfc1123 :: "time \<Rightarrow> string"

text \<open>The random values a request draws.\<close>

record randoms =
  r_id :: uuid
  r_id2 :: uuid
  r_ids :: "uuid list"
  r_plain :: string

record world =
  ctl :: control
  wd_logs :: "buffer option"

definition nilUUID :: uuid where
  "nilUUID = ''00000000-0000-0000-0000-000000000000''"

section \<open>Identity\<close>

datatype identity = IdOperator operator | IdNode uuid | IdService | IdJoin uuid

definition isOperator :: "identity \<Rightarrow> bool" where
  "isOperator i = (case i of IdOperator _ \<Rightarrow> True | _ \<Rightarrow> False)"

definition actor_of :: "identity \<Rightarrow> (uuid \<times> string) option" where
  "actor_of i = (case i of IdOperator r \<Rightarrow> Some (opr_id r, opr_email r) | _ \<Rightarrow> None)"

text \<open>What a handler is called with.\<close>

record hctx =
  hx :: outside
  hs :: server
  hr :: randoms
  ht :: time
  hid :: "identity option"
  hp :: "string gomap"
  hq :: request

definition caller :: "hctx \<Rightarrow> call" where
  "caller h = \<lparr>now = ht h, actor = (case hid h of None \<Rightarrow> None | Some i \<Rightarrow> actor_of i)\<rparr>"

section \<open>Authentication\<close>

definition publicPath :: "string \<Rightarrow> bool" where
  "publicPath p \<longleftrightarrow> p \<in> set [''/healthz'', ''/v1/invites/redeem'', ''/v1/access-requests'']"

definition isNodeRegistration :: "request \<Rightarrow> bool" where
  "isNodeRegistration r \<longleftrightarrow> rq_method r = POST \<and> url_path r = ''/v1/nodes/register''"

definition isServicePath :: "request \<Rightarrow> bool" where
  "isServicePath r \<longleftrightarrow> isNodeRegistration r \<or> rq_method r = GET \<and> url_path r = ''/metrics''"

definition agent_suffix :: "request \<Rightarrow> string option" where
  "agent_suffix r =
     (let p = url_path r; m = rq_method r in
      if m = POST \<and> has_suffix p ''/heartbeat'' then Some ''heartbeat''
      else if m = GET \<and> has_suffix p ''/desired-state'' then Some ''desired-state''
      else if m = GET \<and> has_suffix p ''/routes'' \<and> has_prefix p ''/v1/nodes/'' then Some ''routes''
      else if m = POST \<and> has_suffix p ''/report'' then Some ''report''
      else if m = POST \<and> has_suffix p ''/logs'' \<and> has_prefix p ''/v1/nodes/'' then Some ''logs''
      else None)"

definition nodeAgentPathID :: "(string \<Rightarrow> uuid option) \<Rightarrow> request \<Rightarrow> uuid option" where
  "nodeAgentPathID parse r =
     (case agent_suffix r of
        None \<Rightarrow> None
      | Some want \<Rightarrow>
          (let parts = split_slash (url_path r) in
           if length parts \<noteq> 5 \<or> parts ! 1 \<noteq> ''v1'' \<or> parts ! 2 \<noteq> ''nodes'' \<or> parts ! 4 \<noteq> want then None
           else (case parse (parts ! 3) of None \<Rightarrow> Some nilUUID | Some i \<Rightarrow> Some i)))"

definition bearerToken :: "request \<Rightarrow> string" where
  "bearerToken r =
     (let auth = rq_authorization r in
      if length auth \<le> 7 \<or> take 7 auth \<noteq> ''Bearer '' then [] else drop 7 auth)"

definition validBearerToken :: "request \<Rightarrow> string \<Rightarrow> bool" where
  "validBearerToken r want \<longleftrightarrow>
     (let auth = rq_authorization r in
      length auth > 7 \<and> take 7 auth = ''Bearer '' \<and> drop 7 auth = want)"

text \<open>The last two credentials: a join token on the registration route, then an operator token.\<close>

definition operator_credential :: "outside \<Rightarrow> time \<Rightarrow> request \<Rightarrow> control \<Rightarrow> identity option \<times> control" where
  "operator_credential x t r s =
     (case OperatorForToken (x_sha x) \<lparr>now = t, actor = None\<rparr> (bearerToken r) s of
        (Inl _, s1) \<Rightarrow> (None, s1)
      | (Inr opr, s1) \<Rightarrow> (Some (IdOperator opr), s1))"

definition authenticate :: "outside \<Rightarrow> server \<Rightarrow> time \<Rightarrow> request \<Rightarrow> control \<Rightarrow> identity option \<times> control" where
  "authenticate x cfg t r s =
     (case nodeAgentPathID (x_uuid x) r of
        Some nd \<Rightarrow>
          (if bearerToken r = [] then (None, s)
           else (case NodeTokenValid (x_sha x) nd (bearerToken r) (core s) of
                   Inl _ \<Rightarrow> (None, s)
                 | Inr ok \<Rightarrow> (if ok then Some (IdNode nd) else None, s)))
      | None \<Rightarrow>
          if bearerToken r = [] then (None, s)
          else if isServicePath r \<and> validBearerToken r (cfg_bearer cfg) then (Some IdService, s)
          else if isNodeRegistration r then
            (case RedeemJoinToken (x_sha x) \<lparr>now = t, actor = None\<rparr> (bearerToken r) s of
               Inr (org, s1) \<Rightarrow> (Some (IdJoin org), s1)
             | Inl _ \<Rightarrow> operator_credential x t r s)
          else operator_credential x t r s)"

section \<open>Authorization\<close>

text \<open>The refusal to send, or \<open>None\<close> when the handler goes on.\<close>

definition authorize :: "hctx \<Rightarrow> (control \<Rightarrow> store_error + uuid) \<Rightarrow> control \<Rightarrow> response option" where
  "authorize h resolve s =
     (case hid h of
        None \<Rightarrow> None
      | Some i \<Rightarrow>
          (case i of
             IdOperator opr \<Rightarrow>
               (case resolve s of
                  Inl e \<Rightarrow> Some (writeStoreError e)
                | Inr org \<Rightarrow> if OperatorInOrg org (opr_id opr) s then None else Some notFound)
           | _ \<Rightarrow> Some notFound))"

definition resolve_org :: "uuid \<Rightarrow> control \<Rightarrow> store_error + uuid" where
  "resolve_org org s = (case GetOrganization org (core s) of Inl e \<Rightarrow> Inl e | Inr _ \<Rightarrow> Inr org)"

definition OrgForEnv :: "uuid \<Rightarrow> control \<Rightarrow> store_error + uuid" where
  "OrgForEnv i s = OrgForEnvironment i (core s)"

definition authorizeOrg :: "hctx \<Rightarrow> uuid \<Rightarrow> control \<Rightarrow> response option" where
  "authorizeOrg h i = authorize h (resolve_org i)"

definition authorizeApp :: "hctx \<Rightarrow> uuid \<Rightarrow> control \<Rightarrow> response option" where
  "authorizeApp h i = authorize h (OrgForApp i)"

definition authorizeStack :: "hctx \<Rightarrow> uuid \<Rightarrow> control \<Rightarrow> response option" where
  "authorizeStack h i = authorize h (OrgForStack i)"

definition authorizeEnv :: "hctx \<Rightarrow> uuid \<Rightarrow> control \<Rightarrow> response option" where
  "authorizeEnv h i = authorize h (OrgForEnv i)"

definition authorizeDeployment :: "hctx \<Rightarrow> uuid \<Rightarrow> control \<Rightarrow> response option" where
  "authorizeDeployment h i = authorize h (OrgForDeployment i)"

definition authorizeNode :: "hctx \<Rightarrow> uuid \<Rightarrow> control \<Rightarrow> response option" where
  "authorizeNode h i = authorize h (OrgForNode i)"

definition authorizeLogRequest :: "hctx \<Rightarrow> uuid \<Rightarrow> control \<Rightarrow> response option" where
  "authorizeLogRequest h i = authorize h (OrgForLogRequest i)"

section \<open>The shape of a handler\<close>

type_synonym reply = "world \<Rightarrow> response \<times> world"

definition send :: "int \<Rightarrow> payload \<Rightarrow> reply" where
  "send code p w = (\<lparr>rs_status = code, rs_body = p\<rparr>, w)"

definition refuse :: "response \<Rightarrow> reply" where
  "refuse r w = (r, w)"

definition pathUUID :: "hctx \<Rightarrow> string \<Rightarrow> response + uuid" where
  "pathUUID h name =
     (case x_uuid (hx h) (case map_of (hp h) name of None \<Rightarrow> [] | Some v \<Rightarrow> v) of
        None \<Rightarrow> Inl (writeError 400 (''invalid '' @ name @ '' id''))
      | Some i \<Rightarrow> Inr i)"

text \<open>A path parameter that must be a UUID; the check of the caller; the decoded body; a read; a write.\<close>

definition with_id :: "hctx \<Rightarrow> string \<Rightarrow> (uuid \<Rightarrow> reply) \<Rightarrow> reply" where
  "with_id h name k w = (case pathUUID h name of Inl r \<Rightarrow> (r, w) | Inr i \<Rightarrow> k i w)"

definition checked :: "(control \<Rightarrow> response option) \<Rightarrow> reply \<Rightarrow> reply" where
  "checked auth k w = (case auth (ctl w) of Some r \<Rightarrow> (r, w) | None \<Rightarrow> k w)"

definition addressed :: "hctx \<Rightarrow> string \<Rightarrow> (hctx \<Rightarrow> uuid \<Rightarrow> control \<Rightarrow> response option) \<Rightarrow> (uuid \<Rightarrow> reply) \<Rightarrow> reply" where
  "addressed h name auth k = with_id h name (\<lambda>i. checked (auth h i) (k i))"

definition with_body :: "'a option \<Rightarrow> ('a \<Rightarrow> reply) \<Rightarrow> reply" where
  "with_body b k w = (case b of None \<Rightarrow> (writeError 400 ''invalid request body'', w) | Some v \<Rightarrow> k v w)"

text \<open>\<open>if r.ContentLength > 0\<close> around the decoding: no body leaves the zero value.\<close>

definition optional_body :: "hctx \<Rightarrow> 'a option \<Rightarrow> 'a \<Rightarrow> ('a \<Rightarrow> reply) \<Rightarrow> reply" where
  "optional_body h b zero k = (if b_length (rq_body (hq h)) > 0 then with_body b k else k zero)"

definition fetch :: "(control \<Rightarrow> store_error + 'a) \<Rightarrow> ('a \<Rightarrow> reply) \<Rightarrow> reply" where
  "fetch f k w = (case f (ctl w) of Inl e \<Rightarrow> (writeStoreError e, w) | Inr v \<Rightarrow> k v w)"

definition commit :: "(control \<Rightarrow> store_error + ('a \<times> control)) \<Rightarrow> ('a \<Rightarrow> reply) \<Rightarrow> reply" where
  "commit f k w = (case f (ctl w) of Inl e \<Rightarrow> (writeStoreError e, w) | Inr (v, s) \<Rightarrow> k v (w\<lparr>ctl := s\<rparr>))"

end
