(* ===== verification/Api_Handlers.thy ===== *)
theory Api_Handlers
  imports Api_Server
begin

text \<open>
  The handlers of \<open>internal/api\<close>: one definition per route, in the order of their files, each with the
  checks of the source in the order the source makes them. Handlers that make several store calls
  make them one after another: each is a transaction of its own, and an error leaves what the earlier
  ones did.
\<close>

abbreviation bd :: "hctx \<Rightarrow> decoded" where
  "bd h \<equiv> rq_body (hq h)"

section \<open>\<open>server.go\<close>, \<open>events.go\<close>, \<open>validate.go\<close>\<close>

definition handleHealth :: "hctx \<Rightarrow> reply" where
  "handleHealth h = send 200 (PStatus ''ok'')"

definition handleMetrics :: "hctx \<Rightarrow> reply" where
  "handleMetrics h = (if cfg_metrics (hs h) then send 200 (PPlain ''metrics'') else send 404 (PPlain ''404 page not found''))"

definition handleListEvents :: "hctx \<Rightarrow> reply" where
  "handleListEvents h = addressed h ''org'' authorizeOrg (\<lambda>org w.
     send 200 (PEvents (ListEvents org (atoi (query_get (hq h) ''before_id'')) (atoi (query_get (hq h) ''limit'')) (core (ctl w)))) w)"

definition parse_failed :: "parse_error \<Rightarrow> response" where
  "parse_failed e = (case e of
      Violations ves \<Rightarrow> \<lparr>rs_status = 422,
        rs_body = PError ''compose file violates platform constraints'' (map Error_ve ves)\<rparr>
    | LoadFailed m \<Rightarrow> writeError 400 m)"

definition handleValidate :: "hctx \<Rightarrow> reply" where
  "handleValidate h =
     (case b_raw (bd h) of
        None \<Rightarrow> refuse (writeError 400 ''cannot read body'')
      | Some raw \<Rightarrow>
          (case Parse (x_yaml (hx h)) (x_load (hx h)) raw ''validate'' of
             Inl e \<Rightarrow> refuse (parse_failed e)
           | Inr sp \<Rightarrow> send 200 (PValid (x_digest (hx h) sp) (ServiceNames sp) (SwappableServices sp)
               (PinnedServices sp) (IngressService sp) (PeakMemoryBytes sp))))"

section \<open>\<open>catalog.go\<close>\<close>

definition handleCreateOrg :: "hctx \<Rightarrow> reply" where
  "handleCreateOrg h = with_body (b_org (bd h)) (\<lambda>(sl, name).
     commit (in_core (CreateOrganization (caller h) (r_id (hr h)) sl name)) (\<lambda>org.
       case hid h of
         Some (IdOperator r) \<Rightarrow>
           commit (AddOrgMember (caller h) (org_id org) (opr_id r) ''owner'') (\<lambda>_. send 201 (POrg org))
       | _ \<Rightarrow> send 201 (POrg org)))"

definition handleListOrgs :: "hctx \<Rightarrow> reply" where
  "handleListOrgs h w = send 200 (POrgs
     (case hid h of
        Some (IdOperator r) \<Rightarrow> OrgsForOperator (opr_id r) (ctl w)
      | _ \<Rightarrow> ListOrganizations (core (ctl w)))) w"

definition handleCreateApp :: "hctx \<Rightarrow> reply" where
  "handleCreateApp h = addressed h ''org'' authorizeOrg (\<lambda>org.
     with_body (b_app (bd h)) (\<lambda>(sl, name).
       commit (in_core (CreateApplication (caller h) (r_id (hr h)) org sl name)) (\<lambda>a. send 201 (PApp a))))"

definition handleListApps :: "hctx \<Rightarrow> reply" where
  "handleListApps h = addressed h ''org'' authorizeOrg (\<lambda>org w.
     send 200 (PApps (ListApplications org (core (ctl w)))) w)"

definition handleCreateStack :: "hctx \<Rightarrow> reply" where
  "handleCreateStack h = addressed h ''app'' authorizeApp (\<lambda>app.
     with_body (b_stack (bd h)) (\<lambda>sl.
       commit (in_core (CreateStack (caller h) (r_id (hr h)) app sl)) (\<lambda>st. send 201 (PStack st))))"

definition handleListStacks :: "hctx \<Rightarrow> reply" where
  "handleListStacks h = addressed h ''app'' authorizeApp (\<lambda>app.
     fetch (\<lambda>s. GetApplication app (core s)) (\<lambda>_ w. send 200 (PStacks (ListStacks app (core (ctl w)))) w))"

definition handleGetStack :: "hctx \<Rightarrow> reply" where
  "handleGetStack h = addressed h ''stack'' authorizeStack (\<lambda>i.
     fetch (\<lambda>s. GetStack i (core s)) (\<lambda>st. send 200 (PStack st)))"

definition handleGetEnv :: "hctx \<Rightarrow> reply" where
  "handleGetEnv h = addressed h ''env'' authorizeEnv (\<lambda>i.
     fetch (\<lambda>s. GetEnvironment i (core s)) (\<lambda>(e, home). send 200 (PEnv e home)))"

definition handleCreateStackVersion :: "hctx \<Rightarrow> reply" where
  "handleCreateStackVersion h = addressed h ''stack'' authorizeStack (\<lambda>st.
     case b_raw (bd h) of
       None \<Rightarrow> refuse (writeError 400 ''cannot read body'')
     | Some raw \<Rightarrow>
         (case Parse (x_yaml (hx h)) (x_load (hx h)) raw ''stack'' of
            Inl e \<Rightarrow> refuse (parse_failed e)
          | Inr sp \<Rightarrow>
              commit (in_core (CreateStackVersion (x_digest (hx h)) (caller h) (r_id (hr h)) st raw sp
                        (query_get (hq h) ''created_by''))) (\<lambda>v. send 201 (PVersion v))))"

definition handleListStackVersions :: "hctx \<Rightarrow> reply" where
  "handleListStackVersions h = addressed h ''stack'' authorizeStack (\<lambda>st w.
     send 200 (PVersions (ListStackVersions st (atoi (query_get (hq h) ''limit'')) (core (ctl w)))) w)"

definition handleCreateEnv :: "hctx \<Rightarrow> reply" where
  "handleCreateEnv h = addressed h ''stack'' authorizeStack (\<lambda>st.
     with_body (b_env (bd h)) (\<lambda>b.
       commit (in_core (CreateEnvironment (caller h) (r_id (hr h))
                 \<lparr>ce_stack = st, ce_slug = eb_slug b, ce_strategy = eb_strategy b, ce_hostname = eb_hostname b,
                  ce_config = eb_config b\<rparr>)) (\<lambda>e. send 201 (PEnv e []))))"

definition handleListEnvs :: "hctx \<Rightarrow> reply" where
  "handleListEnvs h = addressed h ''stack'' authorizeStack (\<lambda>st w.
     send 200 (PEnvs (ListEnvironments st (core (ctl w)))) w)"

definition handleListOrgEnvs :: "hctx \<Rightarrow> reply" where
  "handleListOrgEnvs h = addressed h ''org'' authorizeOrg (\<lambda>org w.
     send 200 (POrgEnvs (ListOrgEnvironments org (core (ctl w)))) w)"

section \<open>\<open>deployments.go\<close>\<close>

text \<open>The version a request names, or the latest of the stack.\<close>

definition pick_version :: "hctx \<Rightarrow> string \<Rightarrow> uuid \<Rightarrow> (uuid \<Rightarrow> reply) \<Rightarrow> reply" where
  "pick_version h named st k =
     (if named \<noteq> [] then
        (case x_uuid (hx h) named of
           None \<Rightarrow> refuse (writeError 400 ''invalid stack_version_id'')
         | Some i \<Rightarrow> k i)
      else fetch (\<lambda>s. LatestStackVersion st (core s)) (\<lambda>v. k (sv_id v)))"

definition need_secrets :: "string \<Rightarrow> deployment_spec \<Rightarrow> (control \<Rightarrow> string list) \<Rightarrow> reply \<Rightarrow> reply" where
  "need_secrets msg sp have k w =
     (let missing = filter (\<lambda>x. x \<notin> set (have (ctl w))) (RequiredSecrets sp) in
      if missing \<noteq> [] then (\<lparr>rs_status = 422, rs_body = PError msg missing\<rparr>, w) else k w)"

definition handleCreateDeployment :: "hctx \<Rightarrow> reply" where
  "handleCreateDeployment h = addressed h ''env'' authorizeEnv (\<lambda>e.
     with_body (b_deployment (bd h)) (\<lambda>(named, created_by).
       fetch (\<lambda>s. GetEnvironment e (core s)) (\<lambda>(env, _).
         pick_version h named (env_stack_id env) (\<lambda>vi.
           fetch (\<lambda>s. getStackVersion vi (Some (env_stack_id env)) (core s)) (\<lambda>v.
             let resolved = applyEnvConfig (sv_spec v) (env_config env) in
             need_secrets ''environment is missing required secrets'' resolved
               (\<lambda>s. map meta_key (SecretKeysForEnv e (core s)))
               (commit (in_core (CreateDeployment (caller h) (r_id (hr h))
                         \<lparr>cd_env = e, cd_version = vi, cd_spec = resolved, cd_created_by = created_by\<rparr>))
                  (\<lambda>d. send 202 (PDeployment d (PeakMemoryBytes resolved)))))))))"

definition handleGetDeployment :: "hctx \<Rightarrow> reply" where
  "handleGetDeployment h = addressed h ''id'' authorizeDeployment (\<lambda>i.
     fetch (\<lambda>s. GetDeployment i (core s)) (\<lambda>(d, _). send 200 (PDeployment d (PeakMemoryBytes (dep_spec d)))))"

definition handleListDeployments :: "hctx \<Rightarrow> reply" where
  "handleListDeployments h = addressed h ''env'' authorizeEnv (\<lambda>e w.
     send 200 (PDeployments (ListDeployments e (atoi (query_get (hq h) ''limit'')) (core (ctl w)))) w)"

definition handlePromote :: "hctx \<Rightarrow> reply" where
  "handlePromote h = addressed h ''id'' authorizeDeployment (\<lambda>i.
     commit (in_core (PromoteDeployment (caller h) i)) (\<lambda>sup. send 200 (PPromoted i sup)))"

section \<open>\<open>nodes.go\<close>\<close>

definition enrolmentOrg :: "hctx \<Rightarrow> string \<Rightarrow> control \<Rightarrow> response + organization" where
  "enrolmentOrg h bodyOrg s =
     (case hid h of
        Some (IdJoin org) \<Rightarrow>
          (case GetOrganization org (core s) of
             Inl e \<Rightarrow> Inl (writeStoreError e)
           | Inr g \<Rightarrow>
               if bodyOrg \<noteq> [] \<and> bodyOrg \<noteq> org_slug g
               then Inl (writeError 400 (''this join token admits nodes to organization '' @ org_slug g @ '', not '' @ bodyOrg))
               else Inr g)
      | _ \<Rightarrow>
          if hid h = Some IdService \<and> requireJoinToken (hs h)
          then Inl (writeError 403 ''this control plane requires a node join token; create one with `navarch node join-token create ORG`'')
          else if bodyOrg = [] then Inl (writeError 400 ''org is required'')
          else (case GetOrganizationBySlug bodyOrg (core s) of
                  Inl e \<Rightarrow> Inl (writeStoreError e)
                | Inr g \<Rightarrow>
                    (case hid h of
                       Some (IdOperator _) \<Rightarrow>
                         (case authorizeOrg h (org_id g) s of Some r \<Rightarrow> Inl r | None \<Rightarrow> Inr g)
                     | _ \<Rightarrow> Inr g)))"

definition handleRegisterNode :: "hctx \<Rightarrow> reply" where
  "handleRegisterNode h = with_body (b_register (bd h)) (\<lambda>b w.
     case enrolmentOrg h (rb_org b) (ctl w) of
       Inl r \<Rightarrow> (r, w)
     | Inr g \<Rightarrow>
         if rb_recipient b \<noteq> [] \<and> \<not> x_recipient (hx h) (rb_recipient b)
         then (writeError 400 ''age_recipient is not a valid X25519 recipient'', w)
         else commit (in_core (RegisterNode (x_inet (hx h)) (x_sha (hx h)) (caller h) (r_id (hr h)) (r_plain (hr h))
                \<lparr>rn_org = org_id g, rn_hostname = rb_hostname b, rn_addr = rb_addr b, rn_cpu = rb_cpu b,
                 rn_mem = rb_mem b, rn_labels = rb_labels b, rn_agent_version = rb_agent_version b,
                 rn_recipient = rb_recipient b\<rparr>)) (\<lambda>(n, issued). send 201 (PNode n issued)) w)"

definition handleHeartbeat :: "hctx \<Rightarrow> reply" where
  "handleHeartbeat h = with_id h ''id'' (\<lambda>nd.
     with_body (b_heartbeat (bd h)) (\<lambda>_.
       commit (in_core (Heartbeat (caller h) nd)) (\<lambda>_. send 200 (PStatus ''ok''))))"

text \<open>\<open>rollout.TombstoneRetention\<close>.\<close>

definition TombstoneRetention :: int where
  "TombstoneRetention = 24 * hour"

definition handleDesiredState :: "hctx \<Rightarrow> reply" where
  "handleDesiredState h = with_id h ''id'' (\<lambda>nd w.
     send 200 (PDesired (DesiredStateForNode nd (core (ctl w))) (EncryptedSecretsForNode nd (core (ctl w)))
       (TombstonesForNode (caller h) nd TombstoneRetention (core (ctl w)))
       (LogRequestsForNode (caller h) nd (ctl w))) w)"

definition parse_instance_state :: "string \<Rightarrow> instance_state option" where
  "parse_instance_state x = List.find (\<lambda>st. instance_state_text st = x)
     [InstancePending, InstancePulling, InstanceStarting, InstanceRunning, InstanceUnhealthy,
      InstanceStopped, InstanceFailed]"

definition report_one :: "hctx \<Rightarrow> uuid \<Rightarrow> instance_report \<Rightarrow> db \<Rightarrow> store_error + (unit \<times> db)" where
  "report_one h nd i s =
     (case parse_instance_state (ir_state i) of
        None \<Rightarrow> Inl (DbOther ''invalid input value for enum instance_state'')
      | Some st \<Rightarrow> ReportInstance (caller h) nd (ir_id i) ((ir_observed i)\<lparr>oi_state := st\<rparr>) s)"

fun report_all :: "hctx \<Rightarrow> uuid \<Rightarrow> instance_report list \<Rightarrow> reply" where
  "report_all h nd [] w = send 200 (PStatus ''ok'') w"
| "report_all h nd (i # rest) w =
     (case in_core (report_one h nd i) (ctl w) of
        Inr (_, s) \<Rightarrow> report_all h nd rest (w\<lparr>ctl := s\<rparr>)
      | Inl e \<Rightarrow> if e = ErrNotFound then report_all h nd rest w else (writeStoreError e, w))"

definition handleInstanceReport :: "hctx \<Rightarrow> reply" where
  "handleInstanceReport h = with_id h ''id'' (\<lambda>nd. with_body (b_report (bd h)) (report_all h nd))"

definition handleGetNode :: "hctx \<Rightarrow> reply" where
  "handleGetNode h = addressed h ''id'' authorizeNode (\<lambda>i.
     fetch (\<lambda>s. GetNode i (core s)) (\<lambda>n. send 200 (PNode n [])))"

fun drain_homes ::
  "hctx \<Rightarrow> homed_environment list \<Rightarrow> (uuid \<times> string) list \<Rightarrow> (uuid \<times> string \<times> string list) list \<Rightarrow> reply" where
  "drain_homes h [] released stranded w = send 200 (PDrained released stranded) w"
| "drain_homes h (e # rest) released stranded w =
     (let p = he_app e @ ''/'' @ he_stack e @ ''/'' @ he_slug e in
      if he_reasons e \<noteq> [] then drain_homes h rest released (stranded @ [(he_id e, p, he_reasons e)]) w
      else (case in_core (ReleaseEnvironmentHome (caller h) (he_id e)) (ctl w) of
              Inl err \<Rightarrow> drain_homes h rest released (stranded @ [(he_id e, p, [error_text err])]) w
            | Inr (_, s) \<Rightarrow> drain_homes h rest (released @ [(he_id e, p)]) stranded (w\<lparr>ctl := s\<rparr>)))"

definition handleDrainNode :: "hctx \<Rightarrow> reply" where
  "handleDrainNode h = addressed h ''id'' authorizeNode (\<lambda>i.
     commit (in_core (DrainNode i)) (\<lambda>_ w. drain_homes h (EnvironmentsHomedOnNode i (core (ctl w))) [] [] w))"

definition handleRotateNodeRecipient :: "hctx \<Rightarrow> reply" where
  "handleRotateNodeRecipient h = addressed h ''id'' authorizeNode (\<lambda>i.
     commit (in_core (RotateNodeRecipient (caller h) i)) (\<lambda>n. send 200 (PNode n [])))"

definition node_state_text :: "node_state \<Rightarrow> string" where
  "node_state_text st = (case st of
      NodePending \<Rightarrow> ''pending'' | NodeReady \<Rightarrow> ''ready'' | NodeDraining \<Rightarrow> ''draining''
    | NodeUnreachable \<Rightarrow> ''unreachable'' | NodeRetired \<Rightarrow> ''retired'')"

definition handleUncordonNode :: "hctx \<Rightarrow> reply" where
  "handleUncordonNode h = addressed h ''id'' authorizeNode (\<lambda>i.
     commit (in_core (UncordonNode (caller h) i)) (\<lambda>_.
       fetch (\<lambda>s. GetNode i (core s)) (\<lambda>n. send 200 (PStatus (node_state_text (node_state n))))))"

definition handleListNodes :: "hctx \<Rightarrow> reply" where
  "handleListNodes h =
     (case x_uuid (hx h) (query_get (hq h) ''org'') of
        None \<Rightarrow> refuse (writeError 400 ''org query parameter is required'')
      | Some org \<Rightarrow> checked (authorizeOrg h org) (\<lambda>w. send 200 (PNodes (ListNodes org (core (ctl w)))) w))"

definition handleRollback :: "hctx \<Rightarrow> reply" where
  "handleRollback h = addressed h ''env'' authorizeEnv (\<lambda>e.
     with_body (b_rollback (bd h)) (\<lambda>rev1.
       commit (in_core (RollbackDeployment (caller h) (r_id (hr h)) e rev1)) (\<lambda>d. send 202 (PRollback d))))"

text \<open>\<open>time.Now ().Add (time.Duration (days) * 24 * time.Hour)\<close>, only for a positive number of days.\<close>

definition expires_in :: "hctx \<Rightarrow> int \<Rightarrow> time option" where
  "expires_in h days = (if days > 0 then Some (ht h + i64 (i64 (days * 24) * hour)) else None)"

definition operator_id :: "hctx \<Rightarrow> uuid option" where
  "operator_id h = (case hid h of Some (IdOperator r) \<Rightarrow> Some (opr_id r) | _ \<Rightarrow> None)"

definition handleCreateJoinToken :: "hctx \<Rightarrow> reply" where
  "handleCreateJoinToken h = addressed h ''org'' authorizeOrg (\<lambda>org.
     optional_body h (b_join_token (bd h)) ([], 0, 0) (\<lambda>(name, days, uses).
       commit (CreateJoinToken (x_sha (hx h)) (caller h) (r_id (hr h)) (r_plain (hr h))
           \<lparr>cj_org = org, cj_name = name, cj_expires_at = expires_in h days,
            cj_max_uses = (if uses > 0 then Some uses else None), cj_created_by = operator_id h\<rparr>)
         (\<lambda>(t, plain). send 201 (PJoinToken t plain))))"

definition handleListJoinTokens :: "hctx \<Rightarrow> reply" where
  "handleListJoinTokens h = addressed h ''org'' authorizeOrg (\<lambda>org w.
     send 200 (PJoinTokens (ListJoinTokens org (ctl w))) w)"

definition handleRevokeJoinToken :: "hctx \<Rightarrow> reply" where
  "handleRevokeJoinToken h = addressed h ''org'' authorizeOrg (\<lambda>org.
     with_id h ''id'' (\<lambda>i. commit (RevokeJoinToken org i) (\<lambda>_. send 204 PEmpty)))"

definition handleNodeRoutes :: "hctx \<Rightarrow> reply" where
  "handleNodeRoutes h = with_id h ''id'' (\<lambda>nd.
     fetch (\<lambda>s. GetNode nd (core s)) (\<lambda>n w.
       send 200 (PRoutes (map (\<lambda>l. (lr_env8 l, lr_hostname l, lr_node_addr l, lr_published_port l))
         (filter (\<lambda>l. lr_node_addr l \<noteq> [] \<and> lr_published_port l \<noteq> 0)
           (liveRoutes (caller h) (Some (node_org n)) (routeStrand (hs h)) (core (ctl w)))))) w))"

end
