(* ===== verification/Api_Accounts.thy ===== *)
theory Api_Accounts
  imports Api_Handlers
begin

text \<open>
  The rest of the handlers of \<open>internal/api\<close>: previews, secrets, logs, operators and their tokens,
  invitations and access requests, with the messages they mail, and what the server does at startup.
\<close>

section \<open>\<open>previews.go\<close>\<close>

definition defaultPreviewTTLHours :: int where "defaultPreviewTTLHours = 24"
definition maxPreviewTTLHours :: int where "maxPreviewTTLHours = 168"
definition maxDNSLabel :: nat where "maxDNSLabel = 63"
definition env8Len :: nat where "env8Len = 8"

definition previewHostname :: "string \<Rightarrow> string \<Rightarrow> string \<Rightarrow> string \<Rightarrow> string" where
  "previewHostname sl stackSlug env8 domain = sl @ ''-'' @ stackSlug @ ''-'' @ env8 @ ''.'' @ domain"

definition validatePreviewLabel :: "string \<Rightarrow> string \<Rightarrow> string option" where
  "validatePreviewLabel sl stackSlug =
     (let n = length sl + 1 + length stackSlug + 1 + env8Len in
      if n > maxDNSLabel
      then Some (''generated hostname label is '' @ show_nat n @ '' characters; DNS allows '' @ show_nat maxDNSLabel)
      else None)"

text \<open>The domain of a preview: the organization's own, else the server's.\<close>

definition preview_domain :: "hctx \<Rightarrow> uuid \<Rightarrow> control \<Rightarrow> string" where
  "preview_domain h st s =
     (case OrgForStack st s of
        Inl _ \<Rightarrow> previewDomain (hs h)
      | Inr org \<Rightarrow> (case GetOrganization org (core s) of
          Inl _ \<Rightarrow> previewDomain (hs h)
        | Inr g \<Rightarrow> (case org_preview_domain g of
            None \<Rightarrow> previewDomain (hs h)
          | Some d \<Rightarrow> if d = [] then previewDomain (hs h) else d)))"

text \<open>The source environment of inherited secrets, by slug, with the keys it has.\<close>

definition secret_source :: "uuid \<Rightarrow> string \<Rightarrow> ((uuid option \<times> string list) \<Rightarrow> reply) \<Rightarrow> reply" where
  "secret_source st from1 k =
     (if from1 = [] then k (None, [])
      else fetch (\<lambda>s. case GetEnvironmentBySlug st from1 (core s) of
               Inl e \<Rightarrow> Inl e
             | Inr src \<Rightarrow> Inr (Some (env_id src), map meta_key (SecretKeysForEnv (env_id src) (core s)))) k)"

definition handleCreatePreview :: "hctx \<Rightarrow> reply" where
  "handleCreatePreview h = addressed h ''stack'' authorizeStack (\<lambda>st.
     with_body (b_preview (bd h)) (\<lambda>b.
       let ttl = (if pb_ttl_hours b = 0 then defaultPreviewTTLHours else pb_ttl_hours b) in
       if ttl < 0 \<or> ttl > maxPreviewTTLHours
       then refuse (writeError 400 (''ttl_hours must be between 1 and '' @ show_int maxPreviewTTLHours))
       else fetch (\<lambda>s. GetStack st (core s)) (\<lambda>stk.
         case validatePreviewLabel (pb_slug b) (stk_slug stk) of
           Some m \<Rightarrow> refuse (writeError 400 m)
         | None \<Rightarrow>
             pick_version h (pb_version b) st (\<lambda>vi.
               fetch (\<lambda>s. getStackVersion vi (Some st) (core s)) (\<lambda>v.
                 secret_source st (pb_inherit b) (\<lambda>(src, keys1).
                   let resolved = applyEnvConfig (sv_spec v) [] in
                   need_secrets ''preview would be missing required secrets'' resolved (\<lambda>_. keys1) (\<lambda>w.
                     commit (in_core (CreatePreview (caller h) (r_id2 (hr h)) (r_ids (hr h))
                         \<lparr>cp_env = r_id (hr h), cp_stack = st, cp_slug = pb_slug b,
                          cp_hostname = previewHostname (pb_slug b) (stk_slug stk) (take env8Len (r_id (hr h)))
                            (preview_domain h (stk_id stk) (ctl w)),
                          cp_ttl = ttl * hour, cp_inherit = src, cp_version = vi, cp_spec = resolved,
                          cp_created_by = pb_created_by b\<rparr>))
                       (\<lambda>(e, d). send 201 (PPreview (env_id e)
                          (case env_hostname e of None \<Rightarrow> [] | Some x \<Rightarrow> x) (dep_id d) (env_expires_at e))) w)))))))"

section \<open>\<open>secrets.go\<close>\<close>

definition secretKeyPattern :: re where
  "secretKeyPattern = Plus (Cls secret_key_char)"

definition handleSetSecret :: "hctx \<Rightarrow> reply" where
  "handleSetSecret h = addressed h ''env'' authorizeEnv (\<lambda>e.
     with_body (b_secret (bd h)) (\<lambda>(key, val).
       if \<not> re_match secretKeyPattern key then refuse (writeError 400 ''invalid secret key'')
       else fetch (\<lambda>s. RecipientsForEnvironment (caller h) e (core s)) (\<lambda>recipients.
         case recipients of
           [] \<Rightarrow> refuse (writeError 422 ''no ready node with an encryption key; is an agent running?'')
         | first # _ \<Rightarrow>
             (case x_encrypt (hx h) val recipients of
                None \<Rightarrow> refuse (writeError 500 ''failed to encrypt secret'')
              | Some ct \<Rightarrow> commit (in_core (SetSecret (caller h) (r_id (hr h)) e key ct first))
                  (\<lambda>_. send 201 (PSecretKey key))))))"

definition handleListSecrets :: "hctx \<Rightarrow> reply" where
  "handleListSecrets h = addressed h ''env'' authorizeEnv (\<lambda>e w.
     send 200 (PSecrets (SecretKeysForEnv e (core (ctl w)))) w)"

definition path_value :: "hctx \<Rightarrow> string \<Rightarrow> string" where
  "path_value h name = (case map_of (hp h) name of None \<Rightarrow> [] | Some v \<Rightarrow> v)"

definition handleDeleteSecret :: "hctx \<Rightarrow> reply" where
  "handleDeleteSecret h = addressed h ''env'' authorizeEnv (\<lambda>e.
     commit (in_core (DeleteSecret (caller h) e (path_value h ''key''))) (\<lambda>_. send 204 PEmpty))"

section \<open>\<open>logs.go\<close>\<close>

definition handleCreateLogRequest :: "hctx \<Rightarrow> reply" where
  "handleCreateLogRequest h = addressed h ''env'' authorizeEnv (\<lambda>e.
     with_body (b_log (bd h)) (\<lambda>(svc, tail, follow).
       commit (CreateLogRequest (caller h) (r_id (hr h))
           \<lparr>cl_env = e, cl_service = svc, cl_tail = tail, cl_follow = follow\<rparr>) (\<lambda>l. send 202 (PLogRequest l))))"

text \<open>Ownership first, then the content, then the completion of the row.\<close>

definition deliver :: "hctx \<Rightarrow> uuid \<Rightarrow> uuid \<times> string \<times> string \<Rightarrow> world \<Rightarrow> world" where
  "deliver h nd = (\<lambda>(i, data, failure) w.
     if \<not> LogRequestOwnedByNode nd i (ctl w) then w
     else
       let w1 = (if data \<noteq> [] then w\<lparr>wd_logs := map_option (\<lambda>b. snd (Write (ht h) i data b)) (wd_logs w)\<rparr> else w)
       in (case CompleteLogRequest (caller h) nd i failure (ctl w1) of
             Inl _ \<Rightarrow> w1
           | Inr (_, s) \<Rightarrow> w1\<lparr>ctl := s\<rparr>))"

definition handleLogDelivery :: "hctx \<Rightarrow> reply" where
  "handleLogDelivery h = with_id h ''id'' (\<lambda>nd.
     with_body (b_deliveries (bd h)) (\<lambda>ds w. send 200 (PStatus ''ok'') (fold (deliver h nd) ds w)))"

definition read_logs :: "hctx \<Rightarrow> uuid \<Rightarrow> log_request \<Rightarrow> int \<Rightarrow> reply" where
  "read_logs h i l cursor w =
     (case wd_logs w of
        None \<Rightarrow> send 200 (PLogs l [] cursor False) w
      | Some b \<Rightarrow> (case Read (ht h) i cursor b of
          ((got, nxt, dropped), b1) \<Rightarrow> send 200 (PLogs l got nxt dropped) (w\<lparr>wd_logs := Some b1\<rparr>)))"

definition handleGetLogs :: "hctx \<Rightarrow> reply" where
  "handleGetLogs h = addressed h ''id'' authorizeLogRequest (\<lambda>i.
     fetch (GetLogRequest i) (\<lambda>l.
       let v = query_get (hq h) ''cursor'' in
       if v = [] then read_logs h i l 0
       else (case parse_int v of
               None \<Rightarrow> refuse (writeError 400 ''cursor must be a non-negative integer'')
             | Some n \<Rightarrow> if n < 0 then refuse (writeError 400 ''cursor must be a non-negative integer'')
                         else read_logs h i l n)))"

definition handleCloseLogRequest :: "hctx \<Rightarrow> reply" where
  "handleCloseLogRequest h = addressed h ''id'' authorizeLogRequest (\<lambda>i w.
     send 200 (PStatus ''closed'')
       (w\<lparr>ctl := CloseLogRequest (caller h) i (ctl w), wd_logs := map_option (Drop i) (wd_logs w)\<rparr>))"

section \<open>\<open>operators.go\<close>\<close>

definition as_operator :: "hctx \<Rightarrow> (operator \<Rightarrow> reply) \<Rightarrow> reply" where
  "as_operator h k =
     (case hid h of
        Some (IdOperator r) \<Rightarrow> k r
      | _ \<Rightarrow> refuse (writeError 404 ''not an operator identity''))"

definition handleWhoami :: "hctx \<Rightarrow> reply" where
  "handleWhoami h = as_operator h (\<lambda>r w. send 200 (PWhoami r (OrgsForOperator (opr_id r) (ctl w))) w)"

text \<open>An operator found by address, or created with a first token; the token is shown once.\<close>

definition find_or_create_operator :: "hctx \<Rightarrow> string \<Rightarrow> string \<Rightarrow> (operator \<times> string \<Rightarrow> reply) \<Rightarrow> reply" where
  "find_or_create_operator h email name k w =
     (case GetOperatorByEmail (x_lower (hx h)) email (ctl w) of
        Inr r \<Rightarrow> k (r, []) w
      | Inl e \<Rightarrow>
          if e \<noteq> ErrNotFound then (writeStoreError e, w)
          else commit (CreateOperator (x_lower (hx h)) (caller h) (r_id (hr h)) email name) (\<lambda>r.
                 commit (IssueOperatorToken (x_sha (hx h)) (caller h) (r_id2 (hr h)) (r_plain (hr h)) (opr_id r) ''initial'' None)
                   (\<lambda>(t, plain). k (r, plain))) w)"

definition handleAddMember :: "hctx \<Rightarrow> reply" where
  "handleAddMember h = addressed h ''org'' authorizeOrg (\<lambda>org.
     with_body (b_member (bd h)) (\<lambda>(email, name, role).
       find_or_create_operator h email name (\<lambda>(r, token).
         commit (AddOrgMember (caller h) org (opr_id r) role) (\<lambda>_ w.
           case List.find (\<lambda>m. mem_operator (mv_member m) = opr_id r) (ListOrgMembers org (ctl w)) of
             Some m \<Rightarrow> send 201 (PMember m token) w
           | None \<Rightarrow> (writeError 500 ''member was added but could not be read back'', w)))))"

definition handleListMembers :: "hctx \<Rightarrow> reply" where
  "handleListMembers h = addressed h ''org'' authorizeOrg (\<lambda>org w.
     send 200 (PMembers (ListOrgMembers org (ctl w))) w)"

text \<open>The check that a member remains, and the removal: two separate reads of the database.\<close>

definition last_member :: "uuid \<Rightarrow> control \<Rightarrow> response option" where
  "last_member org s =
     (if length (ListOrgMembers org s) \<le> 1
      then Some (writeError 409 ''an organization must keep at least one member; add another before removing this one'')
      else None)"

definition handleRemoveMember :: "hctx \<Rightarrow> reply" where
  "handleRemoveMember h = addressed h ''org'' authorizeOrg (\<lambda>org.
     with_id h ''operator'' (\<lambda>opr.
       checked (last_member org) (commit (RemoveOrgMember org opr) (\<lambda>_. send 204 PEmpty))))"

definition handleCreateToken :: "hctx \<Rightarrow> reply" where
  "handleCreateToken h = as_operator h (\<lambda>r.
     optional_body h (b_token (bd h)) ([], 0) (\<lambda>(name, days).
       commit (IssueOperatorToken (x_sha (hx h)) (caller h) (r_id (hr h)) (r_plain (hr h)) (opr_id r) name
           (expires_in h days)) (\<lambda>(t, plain). send 201 (PToken t plain))))"

definition handleListTokens :: "hctx \<Rightarrow> reply" where
  "handleListTokens h = as_operator h (\<lambda>r w. send 200 (PTokens (ListOperatorTokens (opr_id r) (ctl w))) w)"

definition last_token :: "uuid \<Rightarrow> control \<Rightarrow> response option" where
  "last_token opr s =
     (if length (ListOperatorTokens opr s) \<le> 1
      then Some (writeError 409 ''this is your only token; create another before revoking it or you will lock yourself out'')
      else None)"

definition handleRevokeToken :: "hctx \<Rightarrow> reply" where
  "handleRevokeToken h = as_operator h (\<lambda>r.
     with_id h ''id'' (\<lambda>i.
       checked (last_token (opr_id r)) (commit (RevokeOperatorToken (opr_id r) i) (\<lambda>_. send 204 PEmpty))))"

section \<open>\<open>invites.go\<close>\<close>

definition inviteURL :: "hctx \<Rightarrow> string \<Rightarrow> string" where
  "inviteURL h token =
     (let base = trim_suffix (consoleURL (hs h)) ''/'' in
      if base = [] then ''navarch invite accept '' @ token else base @ ''/invite?token='' @ token)"

definition nl :: string where
  "nl = [char_of (10 :: nat)]"

definition em_dash :: string where
  "em_dash = map char_of [226 :: nat, 128, 148]"

definition inviteMessage ::
  "hctx \<Rightarrow> operator_invite \<Rightarrow> organization option \<Rightarrow> operator option \<Rightarrow> string \<Rightarrow> message" where
  "inviteMessage h i org by_whom url =
     (let orgName = (case org of
            None \<Rightarrow> ''an organization''
          | Some g \<Rightarrow> if org_name g = [] then org_slug g else org_name g) in
      \<lparr>ms_to = [inv_email i],
       ms_subject = ''You have been invited to '' @ orgName @ '' on Navarch'',
       ms_body =
         (case by_whom of
            Some r \<Rightarrow> opr_email r @ '' has invited you to '' @ orgName @ '' on Navarch.''
          | None \<Rightarrow> ''You have been invited to '' @ orgName @ '' on Navarch.'') @ nl @ nl @
         ''  '' @ url @ nl @ nl @
         ''The link works once and expires '' @ x_rfc1123 (hx h) (inv_expires_at i) @ ''.'' @ nl @
         ''Opening it signs you in and creates your own credentials; the link'' @ nl @
         ''itself is worth nothing afterwards.'' @ nl @ nl @
         ''If you were not expecting this, ignore it '' @ em_dash @ '' nothing happens until'' @ nl @
         ''the link is opened, and it stops working on the date above.'' @ nl\<rparr>)"

definition operator_of :: "hctx \<Rightarrow> operator option" where
  "operator_of h = (case hid h of Some (IdOperator r) \<Rightarrow> Some r | _ \<Rightarrow> None)"

text \<open>Whether the message went, and the error of the mailer when it did not.\<close>

definition mail_invite :: "hctx \<Rightarrow> uuid \<Rightarrow> operator_invite \<Rightarrow> string \<Rightarrow> control \<Rightarrow> bool \<times> string" where
  "mail_invite h org i url s =
     (case mailer (hs h) of
        None \<Rightarrow> (False, [])
      | Some f \<Rightarrow>
          (case f (inviteMessage h i (get_org (core s) org) (operator_of h) url) of
             None \<Rightarrow> (True, [])
           | Some e \<Rightarrow> (False, e)))"

definition handleCreateInvite :: "hctx \<Rightarrow> reply" where
  "handleCreateInvite h = addressed h ''org'' authorizeOrg (\<lambda>org.
     with_body (b_invite (bd h)) (\<lambda>(email, role, hours).
       commit (CreateInvite (x_lower (hx h)) (x_sha (hx h)) (caller h) (r_id (hr h)) (r_plain (hr h))
           \<lparr>ci_org = org, ci_email = email, ci_role = role, ci_ttl = i64 (hours * hour),
            ci_invited_by = operator_id h\<rparr>) (\<lambda>(i, plain) w.
         case mail_invite h org i (inviteURL h plain) (ctl w) of
           (emailed, err) \<Rightarrow> send 201 (PInvite i (inviteURL h plain) emailed err) w)))"

definition handleListInvites :: "hctx \<Rightarrow> reply" where
  "handleListInvites h = addressed h ''org'' authorizeOrg (\<lambda>org w.
     send 200 (PInvites (ListInvites org (ctl w))) w)"

definition handleRevokeInvite :: "hctx \<Rightarrow> reply" where
  "handleRevokeInvite h = addressed h ''org'' authorizeOrg (\<lambda>org.
     with_id h ''invite'' (\<lambda>i. commit (RevokeInvite (caller h) org i) (\<lambda>_. send 204 PEmpty)))"

definition handleRedeemInvite :: "hctx \<Rightarrow> reply" where
  "handleRedeemInvite h = with_body (b_redeem (bd h)) (\<lambda>(token, name).
     commit (RedeemInvite (x_lower (hx h)) (x_sha (hx h)) (caller h)
         \<lparr>rf_operator = r_id (hr h), rf_token = r_id2 (hr h), rf_plain = r_plain (hr h)\<rparr> (trim_space token) name)
       (\<lambda>(r, t, plain). send 200 (PRedeemed r plain)))"

section \<open>\<open>access_requests.go\<close>\<close>

definition accessRequestMessage :: "access_request \<Rightarrow> organization \<Rightarrow> string list \<Rightarrow> string \<Rightarrow> message" where
  "accessRequestMessage r org to_whom url =
     (let orgName = (if org_name org \<noteq> [] then org_name org else ''Navarch'');
          who = (if ar_name r \<noteq> [] then ar_name r @ '' <'' @ ar_email r @ ''>'' else ar_email r) in
      \<lparr>ms_to = to_whom, ms_subject = ''Access request: '' @ ar_email r,
       ms_body =
         who @ '' asked for access to '' @ orgName @ ''.'' @ nl @ nl @
         (if ar_note r \<noteq> [] then ''They said:'' @ nl @ ''  '' @ ar_note r @ nl @ nl else []) @
         (if url \<noteq> [] then ''Review it: '' @ url @ ''/access-requests'' @ nl @ nl else []) @
         ''Nothing has been granted. Approving sends them an invitation,'' @ nl @
         ''which is what actually creates their account.'' @ nl\<rparr>)"

text \<open>Nothing the mailer answers changes the response, so its call is not part of the result.\<close>

definition handleCreateAccessRequest :: "hctx \<Rightarrow> reply" where
  "handleCreateAccessRequest h w =
     (if signupOrg (hs h) = [] then (notFound, w)
      else (case GetOrganizationBySlug (signupOrg (hs h)) (core (ctl w)) of
              Inl _ \<Rightarrow> (writeError 503 ''access requests are not available'', w)
            | Inr g \<Rightarrow>
                with_body (b_access (bd h)) (\<lambda>(email, name, note).
                  commit (CreateAccessRequest (x_lower (hx h)) (caller h) (r_id (hr h))
                      \<lparr>ca_org = org_id g, ca_email = email, ca_name = name, ca_note = note\<rparr>)
                    (\<lambda>_. send 202 (PStatus ''received''))) w))"

definition handleListAccessRequests :: "hctx \<Rightarrow> reply" where
  "handleListAccessRequests h = addressed h ''org'' authorizeOrg (\<lambda>org w.
     send 200 (PAccessRequests (ListAccessRequests org (ctl w))) w)"

definition handleApproveAccessRequest :: "hctx \<Rightarrow> reply" where
  "handleApproveAccessRequest h = with_id h ''org'' (\<lambda>org. with_id h ''request'' (\<lambda>i.
     checked (authorizeOrg h org) (optional_body h (b_approve (bd h)) ([], 0) (\<lambda>(role, hours).
       commit (ApproveAccessRequest (x_lower (hx h)) (x_sha (hx h)) (caller h) (r_id (hr h)) (r_plain (hr h))
           \<lparr>ap_org = org, ap_request = i, ap_role = role, ap_ttl = i64 (hours * hour),
            ap_decided_by = operator_id h\<rparr>) (\<lambda>(r, inv, plain) w.
         case mail_invite h org inv (inviteURL h plain) (ctl w) of
           (emailed, err) \<Rightarrow> send 201 (PApproved r inv (inviteURL h plain) emailed err) w)))))"

definition handleDeclineAccessRequest :: "hctx \<Rightarrow> reply" where
  "handleDeclineAccessRequest h = with_id h ''org'' (\<lambda>org. with_id h ''request'' (\<lambda>i.
     checked (authorizeOrg h org)
       (commit (DeclineAccessRequest (caller h) org i (operator_id h)) (\<lambda>r. send 200 (PAccessRequest r)))))"

section \<open>Startup\<close>

text \<open>Each of these logs an error and goes on; \<open>attempt\<close> keeps the state where it was.\<close>

definition attempt :: "(control \<Rightarrow> store_error + ('a \<times> control)) \<Rightarrow> control \<Rightarrow> control" where
  "attempt f s = (case f s of Inl _ \<Rightarrow> s | Inr (_, t) \<Rightarrow> t)"

definition BootstrapDevOrg :: "call \<Rightarrow> uuid \<Rightarrow> control \<Rightarrow> control" where
  "BootstrapDevOrg c new_id = attempt (in_core (CreateOrganization c new_id ''dev'' ''Development''))"

definition bootstrap_account ::
  "outside \<Rightarrow> call \<Rightarrow> uuid \<Rightarrow> string \<Rightarrow> control \<Rightarrow> store_error + (operator \<times> control)" where
  "bootstrap_account x c new_id email s =
     (case GetOperatorByEmail (x_lower x) email s of
        Inr r \<Rightarrow> Inr (r, s)
      | Inl e \<Rightarrow> if e = ErrNotFound then CreateOperator (x_lower x) c new_id email email s else Inl e)"

definition BootstrapOperator ::
  "outside \<Rightarrow> call \<Rightarrow> randoms \<Rightarrow> string \<Rightarrow> string \<Rightarrow> control \<Rightarrow> control" where
  "BootstrapOperator x c rnd email token s =
     (if email = [] then s
      else case bootstrap_account x c (r_id rnd) email s of
        Inl _ \<Rightarrow> s
      | Inr (r, s1) \<Rightarrow>
          let s2 = (case GetOrganizationBySlug ''dev'' (core s1) of
                      Inl _ \<Rightarrow> s1
                    | Inr g \<Rightarrow> attempt (AddOrgMember c (org_id g) (opr_id r) ''owner'') s1)
          in if token \<noteq> [] then attempt (EnsureOperatorToken (x_sha x) c (r_id2 rnd) (opr_id r) ''bootstrap'' token) s2
             else if ListOperatorTokens (opr_id r) s2 \<noteq> [] then s2
             else attempt (IssueOperatorToken (x_sha x) c (r_id2 rnd) (r_plain rnd) (opr_id r) ''bootstrap'' None) s2)"

definition BootstrapJoinToken ::
  "outside \<Rightarrow> call \<Rightarrow> uuid \<Rightarrow> string \<Rightarrow> string \<Rightarrow> control \<Rightarrow> control" where
  "BootstrapJoinToken x c new_id orgSlug token s =
     (if token = [] then s
      else case GetOrganizationBySlug orgSlug (core s) of
        Inl _ \<Rightarrow> s
      | Inr g \<Rightarrow> attempt (EnsureJoinToken (x_sha x) c new_id (org_id g) ''bootstrap'' token) s)"

end
