(* ===== verification/Api_Routes.thy ===== *)
theory Api_Routes
  imports Api_Accounts
begin

text \<open>
  The route table of \<open>Server.routes\<close> and the way a request finds its handler: \<open>ServeHTTP\<close> decides who is
  calling, then \<open>http.ServeMux\<close> matches method and path. A \<open>GET\<close> pattern also accepts \<open>HEAD\<close>. The multiplexer
  prefers the most specific pattern; no two patterns of this table match the same request, so the first
  that matches is the only one.
\<close>

section \<open>Patterns\<close>

datatype seg = Lit string | Wild string

fun matches :: "seg list \<Rightarrow> string list \<Rightarrow> string gomap option" where
  "matches [] [] = Some []"
| "matches (Lit x # ps) (y # ys) = (if x = y then matches ps ys else None)"
| "matches (Wild n # ps) (y # ys) = (if y = [] then None else map_option (\<lambda>vs. (n, y) # vs) (matches ps ys))"
| "matches (p # ps) [] = None"
| "matches [] (y # ys) = None"

definition accepts :: "http_method \<Rightarrow> http_method \<Rightarrow> bool" where
  "accepts pat m \<longleftrightarrow> pat = m \<or> pat = GET \<and> m = HEAD"

type_synonym route_entry = "http_method \<times> seg list \<times> (hctx \<Rightarrow> reply)"

definition selects :: "request \<Rightarrow> route_entry \<Rightarrow> bool" where
  "selects r = (\<lambda>(m, p, f). accepts m (rq_method r) \<and> matches p (rq_segments r) \<noteq> None)"

section \<open>The table\<close>

definition routes :: "route_entry list" where
  "routes =
     [(GET, [Lit ''healthz''], handleHealth),
      (GET, [Lit ''metrics''], handleMetrics),
      (GET, [Lit ''v1'', Lit ''whoami''], handleWhoami),
      (GET, [Lit ''v1'', Lit ''operators'', Lit ''me'', Lit ''tokens''], handleListTokens),
      (POST, [Lit ''v1'', Lit ''operators'', Lit ''me'', Lit ''tokens''], handleCreateToken),
      (DELETE, [Lit ''v1'', Lit ''operators'', Lit ''me'', Lit ''tokens'', Wild ''id''], handleRevokeToken),
      (GET, [Lit ''v1'', Lit ''orgs'', Wild ''org'', Lit ''members''], handleListMembers),
      (POST, [Lit ''v1'', Lit ''orgs'', Wild ''org'', Lit ''members''], handleAddMember),
      (DELETE, [Lit ''v1'', Lit ''orgs'', Wild ''org'', Lit ''members'', Wild ''operator''], handleRemoveMember),
      (POST, [Lit ''v1'', Lit ''orgs'', Wild ''org'', Lit ''invites''], handleCreateInvite),
      (GET, [Lit ''v1'', Lit ''orgs'', Wild ''org'', Lit ''invites''], handleListInvites),
      (DELETE, [Lit ''v1'', Lit ''orgs'', Wild ''org'', Lit ''invites'', Wild ''invite''], handleRevokeInvite),
      (POST, [Lit ''v1'', Lit ''invites'', Lit ''redeem''], handleRedeemInvite),
      (POST, [Lit ''v1'', Lit ''access-requests''], handleCreateAccessRequest),
      (GET, [Lit ''v1'', Lit ''orgs'', Wild ''org'', Lit ''access-requests''], handleListAccessRequests),
      (POST, [Lit ''v1'', Lit ''orgs'', Wild ''org'', Lit ''access-requests'', Wild ''request'', Lit ''approve''], handleApproveAccessRequest),
      (POST, [Lit ''v1'', Lit ''orgs'', Wild ''org'', Lit ''access-requests'', Wild ''request'', Lit ''decline''], handleDeclineAccessRequest),
      (POST, [Lit ''v1'', Lit ''orgs''], handleCreateOrg),
      (GET, [Lit ''v1'', Lit ''orgs''], handleListOrgs),
      (GET, [Lit ''v1'', Lit ''orgs'', Wild ''org'', Lit ''events''], handleListEvents),
      (POST, [Lit ''v1'', Lit ''orgs'', Wild ''org'', Lit ''apps''], handleCreateApp),
      (GET, [Lit ''v1'', Lit ''orgs'', Wild ''org'', Lit ''apps''], handleListApps),
      (GET, [Lit ''v1'', Lit ''orgs'', Wild ''org'', Lit ''environments''], handleListOrgEnvs),
      (POST, [Lit ''v1'', Lit ''apps'', Wild ''app'', Lit ''stacks''], handleCreateStack),
      (GET, [Lit ''v1'', Lit ''apps'', Wild ''app'', Lit ''stacks''], handleListStacks),
      (GET, [Lit ''v1'', Lit ''stacks'', Wild ''stack''], handleGetStack),
      (POST, [Lit ''v1'', Lit ''stacks'', Wild ''stack'', Lit ''versions''], handleCreateStackVersion),
      (GET, [Lit ''v1'', Lit ''stacks'', Wild ''stack'', Lit ''versions''], handleListStackVersions),
      (POST, [Lit ''v1'', Lit ''validate''], handleValidate),
      (POST, [Lit ''v1'', Lit ''stacks'', Wild ''stack'', Lit ''envs''], handleCreateEnv),
      (GET, [Lit ''v1'', Lit ''stacks'', Wild ''stack'', Lit ''envs''], handleListEnvs),
      (GET, [Lit ''v1'', Lit ''envs'', Wild ''env''], handleGetEnv),
      (POST, [Lit ''v1'', Lit ''stacks'', Wild ''stack'', Lit ''previews''], handleCreatePreview),
      (POST, [Lit ''v1'', Lit ''envs'', Wild ''env'', Lit ''deployments''], handleCreateDeployment),
      (GET, [Lit ''v1'', Lit ''envs'', Wild ''env'', Lit ''deployments''], handleListDeployments),
      (GET, [Lit ''v1'', Lit ''deployments'', Wild ''id''], handleGetDeployment),
      (POST, [Lit ''v1'', Lit ''deployments'', Wild ''id'', Lit ''promote''], handlePromote),
      (POST, [Lit ''v1'', Lit ''envs'', Wild ''env'', Lit ''rollback''], handleRollback),
      (POST, [Lit ''v1'', Lit ''nodes'', Lit ''register''], handleRegisterNode),
      (POST, [Lit ''v1'', Lit ''nodes'', Wild ''id'', Lit ''heartbeat''], handleHeartbeat),
      (GET, [Lit ''v1'', Lit ''nodes'', Wild ''id'', Lit ''desired-state''], handleDesiredState),
      (GET, [Lit ''v1'', Lit ''nodes'', Wild ''id'', Lit ''routes''], handleNodeRoutes),
      (POST, [Lit ''v1'', Lit ''nodes'', Wild ''id'', Lit ''report''], handleInstanceReport),
      (GET, [Lit ''v1'', Lit ''nodes''], handleListNodes),
      (GET, [Lit ''v1'', Lit ''nodes'', Wild ''id''], handleGetNode),
      (POST, [Lit ''v1'', Lit ''nodes'', Wild ''id'', Lit ''logs''], handleLogDelivery),
      (POST, [Lit ''v1'', Lit ''nodes'', Wild ''id'', Lit ''drain''], handleDrainNode),
      (POST, [Lit ''v1'', Lit ''nodes'', Wild ''id'', Lit ''uncordon''], handleUncordonNode),
      (POST, [Lit ''v1'', Lit ''nodes'', Wild ''id'', Lit ''rotate-recipient''], handleRotateNodeRecipient),
      (GET, [Lit ''v1'', Lit ''orgs'', Wild ''org'', Lit ''join-tokens''], handleListJoinTokens),
      (POST, [Lit ''v1'', Lit ''orgs'', Wild ''org'', Lit ''join-tokens''], handleCreateJoinToken),
      (DELETE, [Lit ''v1'', Lit ''orgs'', Wild ''org'', Lit ''join-tokens'', Wild ''id''], handleRevokeJoinToken),
      (POST, [Lit ''v1'', Lit ''envs'', Wild ''env'', Lit ''secrets''], handleSetSecret),
      (GET, [Lit ''v1'', Lit ''envs'', Wild ''env'', Lit ''secrets''], handleListSecrets),
      (DELETE, [Lit ''v1'', Lit ''envs'', Wild ''env'', Lit ''secrets'', Wild ''key''], handleDeleteSecret),
      (POST, [Lit ''v1'', Lit ''envs'', Wild ''env'', Lit ''logs''], handleCreateLogRequest),
      (GET, [Lit ''v1'', Lit ''logs'', Wild ''id''], handleGetLogs),
      (DELETE, [Lit ''v1'', Lit ''logs'', Wild ''id''], handleCloseLogRequest)]"

section \<open>Serving\<close>

text \<open>
  A path that \<open>path.Clean\<close> would change is redirected; a path no pattern has is not found; one that only
  other methods have is not allowed.
\<close>

definition mux :: "hctx \<Rightarrow> reply" where
  "mux h w =
     (let r = hq h in
      if \<not> rq_clean r then send 301 PEmpty w
      else (case List.find (selects r) routes of
              Some (m, p, f) \<Rightarrow>
                f (h\<lparr>hp := (case matches p (rq_segments r) of None \<Rightarrow> [] | Some vs \<Rightarrow> vs)\<rparr>) w
            | None \<Rightarrow>
                if list_ex (\<lambda>(m, p, f). matches p (rq_segments r) \<noteq> None) routes
                then send 405 (PPlain ''Method Not Allowed'') w
                else send 404 (PPlain ''404 page not found'') w))"

definition unauthorized :: response where
  "unauthorized = writeError 401 ''authentication required''"

definition ServeHTTP :: "outside \<Rightarrow> server \<Rightarrow> randoms \<Rightarrow> time \<Rightarrow> request \<Rightarrow> reply" where
  "ServeHTTP x cfg rnd t r w =
     (let h = \<lparr>hx = x, hs = cfg, hr = rnd, ht = t, hid = None, hp = [], hq = r\<rparr> in
      if \<not> publicPath (url_path r) \<and> cfg_bearer cfg \<noteq> [] then
        (case authenticate x cfg t r (ctl w) of
           (None, s) \<Rightarrow> (unauthorized, w\<lparr>ctl := s\<rparr>)
         | (Some i, s) \<Rightarrow> mux (h\<lparr>hid := Some i\<rparr>) (w\<lparr>ctl := s\<rparr>))
      else mux h w)"

section \<open>One route for every request\<close>

text \<open>Whether some path matches both patterns.\<close>

fun overlap :: "seg list \<Rightarrow> seg list \<Rightarrow> bool" where
  "overlap [] [] = True"
| "overlap (Lit x # ps) (Lit y # qs) = (x = y \<and> overlap ps qs)"
| "overlap (Wild n # ps) (q # qs) = overlap ps qs"
| "overlap (Lit x # ps) (Wild n # qs) = overlap ps qs"
| "overlap (p # ps) [] = False"
| "overlap [] (q # qs) = False"

lemma matches_overlap: "matches p ys \<noteq> None \<Longrightarrow> matches q ys \<noteq> None \<Longrightarrow> overlap p q"
proof (induction p q arbitrary: ys rule: overlap.induct)
  case (2 x ps y qs)
  then show ?case by (cases ys) (auto split: if_splits)
next
  case (3 n ps q qs)
  then show ?case by (cases ys; cases q) (auto split: if_splits)
next
  case (4 x ps n qs)
  then show ?case by (cases ys) (auto split: if_splits)
next
  case (5 p ps)
  then show ?case by (cases ys; cases p) auto
next
  case (6 q qs)
  then show ?case by (cases ys; cases q) auto
qed simp

definition clash :: "http_method \<times> seg list \<Rightarrow> http_method \<times> seg list \<Rightarrow> bool" where
  "clash = (\<lambda>(m, p) (n, q). m = n \<and> overlap p q)"

fun no_clash :: "(http_method \<times> seg list) list \<Rightarrow> bool" where
  "no_clash [] = True"
| "no_clash (e # es) = (list_all (\<lambda>e'. \<not> clash e e') es \<and> no_clash es)"

definition pattern_of :: "route_entry \<Rightarrow> http_method \<times> seg list" where
  "pattern_of = (\<lambda>(m, p, f). (m, p))"

lemma accepts_eq: "accepts m a \<Longrightarrow> accepts n a \<Longrightarrow> m \<noteq> HEAD \<Longrightarrow> n \<noteq> HEAD \<Longrightarrow> m = n"
  by (auto simp: accepts_def)

lemma no_clash_unique:
  assumes "no_clash (map pattern_of es)" "list_all (\<lambda>(m, p, f). m \<noteq> HEAD) es"
  shows "length (filter (selects r) es) \<le> 1"
  using assms
proof (induction es)
  case (Cons e es)
  show ?case
  proof (cases "selects r e")
    case True
    have "\<not> selects r e'" if "e' \<in> set es" for e'
    proof
      assume sel: "selects r e'"
      obtain m p f where e: "e = (m, p, f)" by (cases e)
      obtain n q g where e': "e' = (n, q, g)" by (cases e')
      from Cons.prems(2) that e e' have "m \<noteq> HEAD" "n \<noteq> HEAD" by (auto simp: list_all_iff)
      with True sel e e' have "m = n" by (auto simp: selects_def intro: accepts_eq)
      with True sel e e' have "clash (pattern_of e) (pattern_of e')"
        by (auto simp: clash_def pattern_of_def selects_def intro: matches_overlap)
      with Cons.prems(1) that show False by (auto simp: list_all_iff)
    qed
    then have "filter (selects r) es = []" by (auto simp: filter_empty_conv)
    with True show ?thesis by simp
  next
    case False
    with Cons show ?thesis by (auto simp: list_all_iff)
  qed
qed simp

lemma routes_no_clash: "no_clash (map pattern_of routes)"
  unfolding routes_def pattern_of_def by code_simp

text \<open>
  No two patterns of the route table match the same request, whatever its method and path, so the
  handler that serves it does not depend on the multiplexer's precedence rules.
\<close>

theorem one_route_per_request: "length (filter (selects r) routes) \<le> 1"
proof -
  have "list_all (\<lambda>(m, p, f). m \<noteq> HEAD) routes" by (simp add: routes_def)
  with routes_no_clash show ?thesis by (rule no_clash_unique)
qed

end
