(* ===== verification/Api_Access.thy ===== *)
theory Api_Access
  imports Api_Routes
begin

text \<open>
  What it takes to get past the door: which requests are served without a credential, which credential
  an agent endpoint takes, and what a caller who does not belong to an object's organization can see
  of it.
\<close>

section \<open>What a refused credential leaves behind\<close>

definition unstamped :: "operator_token \<Rightarrow> operator_token" where
  "unstamped t = t\<lparr>tok_last_used_at := None\<rparr>"

text \<open>The same database, up to the times tokens were last used.\<close>

definition same_but_stamps :: "control \<Rightarrow> control \<Rightarrow> bool" where
  "same_but_stamps s t \<longleftrightarrow>
     (\<exists>ts. t = s\<lparr>operator_tokens := ts\<rparr> \<and> map unstamped ts = map unstamped (operator_tokens s))"

lemma same_but_stamps_refl [simp]: "same_but_stamps s s"
  unfolding same_but_stamps_def by (rule exI [of _ "operator_tokens s"]) simp

lemma OperatorForToken_stamps: "same_but_stamps s (snd (OperatorForToken sha c plain s))"
proof -
  have "map unstamped (update_where P (\<lambda>x. x\<lparr>tok_last_used_at := Some (now c)\<rparr>) ts) = map unstamped ts" for P ts
    by (rule map_update_where) (simp add: unstamped_def)
  then show ?thesis
    unfolding OperatorForToken_def Let_def same_but_stamps_def
    by (auto split: option.splits intro: exI [of _ "operator_tokens s"])
qed

lemma operator_credential_stamps: "same_but_stamps s (snd (operator_credential x t r s))"
  using OperatorForToken_stamps [of s "x_sha x" "\<lparr>now = t, actor = None\<rparr>" "bearerToken r"]
  by (auto simp: operator_credential_def split: prod.splits sum.splits)

lemma operator_credential_op:
  "fst (operator_credential x t r s) = Some i \<Longrightarrow> \<exists>opr. i = IdOperator opr"
  by (auto simp: operator_credential_def split: prod.splits sum.splits)

text \<open>Only a redeemed join token leaves more than a stamp.\<close>

lemma authenticate_stamps:
  assumes "\<forall>org. fst (authenticate x cfg t r s) \<noteq> Some (IdJoin org)"
  shows "same_but_stamps s (snd (authenticate x cfg t r s))"
  using assms operator_credential_stamps [of s x t r]
  by (auto simp: authenticate_def split: option.splits sum.splits if_splits)

section \<open>Paths\<close>

definition path_of :: "string list \<Rightarrow> string" where
  "path_of ys = concat (map (\<lambda>y. CHR ''/'' # y) ys)"

lemma url_path_path_of: "url_path r = path_of (rq_segments r)"
  by (simp add: url_path_def path_of_def)

text \<open>The part of a path a pattern fixes, up to its first parameter.\<close>

fun lit_prefix :: "seg list \<Rightarrow> string" where
  "lit_prefix [] = []"
| "lit_prefix (Lit x # ps) = CHR ''/'' # x @ lit_prefix ps"
| "lit_prefix (Wild n # ps) = ''/''"

fun literal :: "seg list \<Rightarrow> bool" where
  "literal [] = True"
| "literal (Lit x # ps) = literal ps"
| "literal (Wild n # ps) = False"

definition could_match :: "string \<Rightarrow> seg list \<Rightarrow> bool" where
  "could_match path p \<longleftrightarrow> has_prefix path (lit_prefix p) \<and> (literal p \<longrightarrow> path = lit_prefix p)"

lemma has_prefix_Cons: "has_prefix (a # s) (b # p) \<longleftrightarrow> a = b \<and> has_prefix s p"
  by (auto simp: has_prefix_def)

lemma has_prefix_app: "has_prefix (a @ s) (a @ p) \<longleftrightarrow> has_prefix s p"
  by (induction a) (auto simp: has_prefix_Cons)

lemma matches_could:
  assumes "matches p ys \<noteq> None"
  shows "could_match (path_of ys) p"
proof -
  have "has_prefix (path_of ys) (lit_prefix p) \<and> (literal p \<longrightarrow> path_of ys = lit_prefix p)"
    using assms
  proof (induction p ys rule: matches.induct)
    case (2 x ps y ys)
    then show ?case by (auto simp: path_of_def has_prefix_Cons has_prefix_app split: if_splits)
  qed (auto simp: path_of_def has_prefix_def)
  then show ?thesis by (simp add: could_match_def)
qed

section \<open>Requests without a credential\<close>

definition public_patterns :: "(http_method \<times> seg list) list" where
  "public_patterns =
     [(GET, [Lit ''healthz'']), (POST, [Lit ''v1'', Lit ''invites'', Lit ''redeem'']), (POST, [Lit ''v1'', Lit ''access-requests''])]"

lemma public_routes:
  "list_all (\<lambda>path. list_all (\<lambda>e. could_match path (snd e) \<longrightarrow> e \<in> set public_patterns) (map pattern_of routes))
     [''/healthz'', ''/v1/invites/redeem'', ''/v1/access-requests'']"
  unfolding routes_def pattern_of_def by code_simp

definition public_handlers :: "(hctx \<Rightarrow> reply) set" where
  "public_handlers = {handleHealth, handleRedeemInvite, handleCreateAccessRequest}"

lemma public_pattern_handler:
  "list_all (\<lambda>(m, p, f). (m, p) \<in> set public_patterns \<longrightarrow> f \<in> public_handlers) routes"
  by (simp add: routes_def public_patterns_def public_handlers_def)

lemma selected_publicly:
  assumes "publicPath (url_path r)" "(m, p, f) \<in> set routes" "selects r (m, p, f)"
  shows "f \<in> public_handlers"
proof -
  from assms(3) have "could_match (url_path r) p"
    by (auto simp: selects_def url_path_path_of intro: matches_could)
  moreover from assms(2) have "(m, p) \<in> set (map pattern_of routes)" by (force simp: pattern_of_def)
  moreover from public_routes assms(1)
  have "\<forall>e \<in> set (map pattern_of routes). could_match (url_path r) (snd e) \<longrightarrow> e \<in> set public_patterns"
    unfolding publicPath_def list_all_iff by blast
  ultimately have "(m, p) \<in> set public_patterns" by (metis snd_conv)
  with public_pattern_handler assms(2) show ?thesis by (auto simp: list_all_iff)
qed

text \<open>What the multiplexer can do with a request: call the one handler selected, or answer without touching anything.\<close>

lemma mux_cases:
  obtains (handler) m p f where "(m, p, f) \<in> set routes" "selects (hq h) (m, p, f)" "rq_clean (hq h)"
      "mux h w = f (h\<lparr>hp := the (matches p (rq_segments (hq h)))\<rparr>) w"
  | (none) r where "mux h w = (r, w)" "rs_status r \<in> {301, 404, 405}"
proof (cases "rq_clean (hq h)")
  case False
  then show ?thesis using none by (simp add: mux_def send_def)
next
  case True
  show ?thesis
  proof (cases "List.find (selects (hq h)) routes")
    case None
    with True show ?thesis
      by (cases "list_ex (\<lambda>(m, p, f). matches p (rq_segments (hq h)) \<noteq> None) routes")
        (rule none, simp add: mux_def send_def, simp)+
  next
    case (Some e)
    obtain m p f where e: "e = (m, p, f)" by (cases e)
    from Some have sel: "e \<in> set routes" "selects (hq h) e" by (auto simp: find_Some_iff)
    with Some True e have "mux h w = f (h\<lparr>hp := the (matches p (rq_segments (hq h)))\<rparr>) w"
      by (auto simp: mux_def Let_def selects_def)
    with sel e True show ?thesis using handler by blast
  qed
qed

text \<open>
  C14: On a server with authentication configured, a request whose credential names nobody is answered
  401 and changes nothing but the time a token was last used; or its path is one of the three public
  ones and it reaches one of the three public handlers, whatever the escaping of the path; or it is
  answered by the multiplexer alone.
\<close>

theorem no_credential_no_access:
  assumes "cfg_bearer cfg \<noteq> []" "fst (authenticate x cfg t r (ctl w)) = None"
  shows "(\<exists>s. ServeHTTP x cfg rnd t r w = (unauthorized, w\<lparr>ctl := s\<rparr>) \<and> same_but_stamps (ctl w) s) \<or>
    publicPath (url_path r) \<and>
      (\<exists>f \<in> public_handlers. \<exists>vs. ServeHTTP x cfg rnd t r w =
        f \<lparr>hx = x, hs = cfg, hr = rnd, ht = t, hid = None, hp = vs, hq = r\<rparr> w) \<or>
    snd (ServeHTTP x cfg rnd t r w) = w \<and> rs_status (fst (ServeHTTP x cfg rnd t r w)) \<in> {301, 404, 405}"
proof (cases "publicPath (url_path r)")
  case False
  have "same_but_stamps (ctl w) (snd (authenticate x cfg t r (ctl w)))"
    using assms(2) by (intro authenticate_stamps) simp
  moreover from False assms have "ServeHTTP x cfg rnd t r w = (unauthorized, w\<lparr>ctl := snd (authenticate x cfg t r (ctl w))\<rparr>)"
    by (auto simp: ServeHTTP_def split: prod.splits option.splits)
  ultimately show ?thesis by blast
next
  case True
  let ?h = "\<lparr>hx = x, hs = cfg, hr = rnd, ht = t, hid = None, hp = [], hq = r\<rparr>"
  from True have eq: "ServeHTTP x cfg rnd t r w = mux ?h w" by (simp add: ServeHTTP_def)
  show ?thesis
  proof (cases rule: mux_cases [of ?h w])
    case (handler m p f)
    then have "f \<in> public_handlers" using True by (auto intro: selected_publicly)
    with handler(4) eq True show ?thesis by auto
  next
    case none
    with eq show ?thesis by auto
  qed
qed

section \<open>Agent endpoints\<close>

lemma split_slash_plain: "CHR ''/'' \<notin> set y \<Longrightarrow> split_slash y = [y]"
  by (induction y) auto

lemma split_slash_append: "CHR ''/'' \<notin> set y \<Longrightarrow> split_slash (y @ CHR ''/'' # z) = y # split_slash z"
  by (induction y) auto

lemma has_suffix_either: "has_suffix (y @ b) q \<Longrightarrow> has_suffix b q \<or> has_suffix q b"
proof -
  assume "has_suffix (y @ b) q"
  then obtain u where "y @ b = u @ q" by (rule has_suffixE)
  then consider us where "u = y @ us" "us @ q = b" | us where "y = u @ us" "us @ b = q"
    by (auto simp: append_eq_append_conv2)
  then show ?thesis by cases (auto intro: has_suffix_append)
qed

definition agent_calls :: "(http_method \<times> string) list" where
  "agent_calls = [(POST, ''heartbeat''), (GET, ''desired-state''), (GET, ''routes''), (POST, ''report''), (POST, ''logs'')]"

lemma agent_path:
  "rq_segments r = [''v1'', ''nodes'', i, suf] \<Longrightarrow> url_path r = ''/v1/nodes/'' @ i @ CHR ''/'' # suf"
  by (simp add: url_path_def)

lemma agent_suffixes_apart:
  "list_all (\<lambda>p. list_all (\<lambda>q. p \<noteq> q \<longrightarrow> \<not> has_suffix p q \<and> \<not> has_suffix q p) (map (\<lambda>x. CHR ''/'' # snd x) agent_calls))
     (map (\<lambda>x. CHR ''/'' # snd x) agent_calls)"
  by code_simp

lemma agent_suffix_call:
  assumes "(rq_method r, suf) \<in> set agent_calls" "rq_segments r = [''v1'', ''nodes'', i, suf]"
  shows "agent_suffix r = Some suf"
proof -
  have path: "url_path r = (''/v1/nodes/'' @ i) @ CHR ''/'' # suf" by (simp add: agent_path [OF assms(2)])
  have pre: "has_prefix (url_path r) ''/v1/nodes/''" unfolding path append_assoc by (rule has_prefix_append)
  have suffix: "has_suffix (url_path r) (CHR ''/'' # q) \<longleftrightarrow> q = suf" if "q \<in> snd ` set agent_calls" for q
  proof
    assume "has_suffix (url_path r) (CHR ''/'' # q)"
    then have "has_suffix (CHR ''/'' # suf) (CHR ''/'' # q) \<or> has_suffix (CHR ''/'' # q) (CHR ''/'' # suf)"
      unfolding path by (rule has_suffix_either)
    moreover from assms(1) have "suf \<in> snd ` set agent_calls" by force
    ultimately show "q = suf" using agent_suffixes_apart that by (fastforce simp: list_all_iff)
  next
    assume "q = suf"
    then show "has_suffix (url_path r) (CHR ''/'' # q)" unfolding path by (simp only: has_suffix_append)
  qed
  have "has_suffix (url_path r) ''/heartbeat'' \<longleftrightarrow> ''heartbeat'' = suf"
    "has_suffix (url_path r) ''/desired-state'' \<longleftrightarrow> ''desired-state'' = suf"
    "has_suffix (url_path r) ''/routes'' \<longleftrightarrow> ''routes'' = suf"
    "has_suffix (url_path r) ''/report'' \<longleftrightarrow> ''report'' = suf"
    "has_suffix (url_path r) ''/logs'' \<longleftrightarrow> ''logs'' = suf"
    by (rule suffix; simp add: agent_calls_def)+
  moreover from assms(1) have "suf = ''heartbeat'' \<and> rq_method r = POST \<or> suf = ''desired-state'' \<and> rq_method r = GET \<or>
      suf = ''routes'' \<and> rq_method r = GET \<or> suf = ''report'' \<and> rq_method r = POST \<or> suf = ''logs'' \<and> rq_method r = POST"
    by (auto simp: agent_calls_def)
  ultimately show ?thesis using pre
    by (elim disjE) (simp_all add: agent_suffix_def)
qed

lemma nodeAgentPathID_call:
  assumes "(rq_method r, suf) \<in> set agent_calls" "rq_segments r = [''v1'', ''nodes'', i, suf]" "CHR ''/'' \<notin> set i"
  shows "nodeAgentPathID parse r = Some (case parse i of None \<Rightarrow> nilUUID | Some nd \<Rightarrow> nd)"
proof -
  have "CHR ''/'' \<notin> set suf" using assms(1) by (auto simp: agent_calls_def)
  then have "split_slash (url_path r) = [[], ''v1'', ''nodes'', i, suf]"
    using assms(3) by (simp add: agent_path [OF assms(2)] split_slash_append split_slash_plain)
  with agent_suffix_call [OF assms(1,2)] show ?thesis
    by (simp add: nodeAgentPathID_def split: option.splits)
qed

definition agent_pattern :: "string \<Rightarrow> seg list" where
  "agent_pattern suf = [Lit ''v1'', Lit ''nodes'', Wild ''id'', Lit suf]"

lemma agent_patterns:
  "list_all (\<lambda>(a, suf). list_all (\<lambda>(m, p). overlap p (agent_pattern suf) \<longrightarrow> m = a \<and> p = agent_pattern suf)
     (map pattern_of routes)) agent_calls"
  unfolding routes_def pattern_of_def by code_simp

definition agent_handlers :: "(hctx \<Rightarrow> reply) set" where
  "agent_handlers = {handleHeartbeat, handleDesiredState, handleNodeRoutes, handleInstanceReport, handleLogDelivery}"

lemma agent_pattern_handler:
  "list_all (\<lambda>(m, p, f). (\<exists>suf. (m, suf) \<in> set agent_calls \<and> p = agent_pattern suf) \<longrightarrow> f \<in> agent_handlers) routes"
  by (simp add: routes_def agent_calls_def agent_pattern_def agent_handlers_def)

definition agent_suffixes :: "string set" where
  "agent_suffixes = {''heartbeat'', ''desired-state'', ''routes'', ''report'', ''logs''}"

lemma agent_suffixes_calls: "suf \<in> agent_suffixes \<longleftrightarrow> (\<exists>m. (m, suf) \<in> set agent_calls)"
  unfolding agent_suffixes_def agent_calls_def
  by (simp only: list.set insert_iff empty_iff prod.inject ex_disj_distrib simp_thms ex_simps)

text \<open>The only route over such a path is the agents' own, whatever the method of the request.\<close>

lemma selected_route:
  assumes "(m, p, f) \<in> set routes" "selects r (m, p, f)" "rq_segments r = [''v1'', ''nodes'', i, suf]"
    "suf \<in> agent_suffixes" "i \<noteq> []"
  shows "(m, suf) \<in> set agent_calls \<and> p = agent_pattern suf \<and> f \<in> agent_handlers"
proof -
  from assms(4) obtain a where a: "(a, suf) \<in> set agent_calls" by (auto simp: agent_suffixes_calls)
  have "matches (agent_pattern suf) (rq_segments r) \<noteq> None" using assms(3,5) by (simp add: agent_pattern_def)
  with assms(2) have "overlap p (agent_pattern suf)" by (auto simp: selects_def intro: matches_overlap)
  moreover from assms(1) have "(m, p) \<in> set (map pattern_of routes)" by (force simp: pattern_of_def)
  ultimately have "m = a" "p = agent_pattern suf" using agent_patterns a by (fastforce simp: list_all_iff)+
  with a agent_pattern_handler assms(1) show ?thesis by (auto simp: list_all_iff)
qed

lemma selected_agent:
  assumes "(m, p, f) \<in> set routes" "selects r (m, p, f)" "rq_segments r = [''v1'', ''nodes'', i, suf]"
    "(rq_method r, suf) \<in> set agent_calls" "i \<noteq> []"
  shows "p = agent_pattern suf \<and> f \<in> agent_handlers"
  using selected_route [OF assms(1-3) _ assms(5)] assms(4) by (auto simp: agent_suffixes_calls)

lemma agent_handler_malformed:
  "f \<in> agent_handlers \<Longrightarrow> pathUUID h ''id'' = Inl r \<Longrightarrow> f h w = (r, w)"
  unfolding agent_handlers_def
  by (elim insertE emptyE) (simp_all add: handleHeartbeat_def handleDesiredState_def handleNodeRoutes_def
      handleInstanceReport_def handleLogDelivery_def with_id_def)

lemma mux_malformed_agent:
  assumes "rq_segments (hq h) = [''v1'', ''nodes'', i, suf]" "(rq_method (hq h), suf) \<in> set agent_calls"
    "x_uuid (hx h) i = None" "i \<noteq> []"
  shows "\<exists>res. mux h w = (res, w) \<and> rs_status res \<in> {301, 400, 404, 405}"
proof (cases rule: mux_cases [of h w])
  case (handler m p f)
  let ?h = "h\<lparr>hp := the (matches p (rq_segments (hq h)))\<rparr>"
  from selected_agent [OF handler(1,2) assms(1,2,4)]
  have p: "p = agent_pattern suf" and f: "f \<in> agent_handlers" by auto
  have "pathUUID ?h ''id'' = Inl (writeError 400 ''invalid id id'')"
    by (simp add: pathUUID_def p agent_pattern_def assms(1,3,4))
  from agent_handler_malformed [OF f this] handler(4) show ?thesis by (simp add: writeError_def)
next
  case (none r)
  then show ?thesis by auto
qed

lemma agent_not_public:
  "rq_segments r = [''v1'', ''nodes'', i, suf] \<Longrightarrow> \<not> publicPath (url_path r)"
  by (simp add: agent_path publicPath_def)

lemma agent_not_registration:
  assumes "rq_segments r = [''v1'', ''nodes'', i, suf]" "suf \<in> agent_suffixes"
  shows "\<not> isNodeRegistration r"
proof
  assume "isNodeRegistration r"
  then have "rev (''/v1/nodes/'' @ i @ CHR ''/'' # suf) = rev ''/v1/nodes/register''"
    by (simp add: isNodeRegistration_def agent_path [OF assms(1)])
  with assms(2) show False by (auto simp: agent_suffixes_def)
qed

lemma agent_stamps:
  assumes "rq_segments r = [''v1'', ''nodes'', i, suf]" "suf \<in> agent_suffixes"
  shows "same_but_stamps s (snd (authenticate x cfg t r s))"
proof (rule authenticate_stamps, rule allI)
  show "fst (authenticate x cfg t r s) \<noteq> Some (IdJoin org)" for org
    using agent_not_registration [OF assms] operator_credential_op [of x t r s]
    by (auto simp: authenticate_def split: option.splits sum.splits if_splits)
qed

text \<open>What the server does with a request to an agent endpoint: refuse it at the door, or hand it to the multiplexer.\<close>

lemma agent_served:
  assumes "cfg_bearer cfg \<noteq> []" "rq_segments r = [''v1'', ''nodes'', i, suf]" "suf \<in> agent_suffixes"
  obtains s where "same_but_stamps (ctl w) s" "fst (authenticate x cfg t r (ctl w)) = None"
      "ServeHTTP x cfg rnd t r w = (unauthorized, w\<lparr>ctl := s\<rparr>)"
  | s d where "same_but_stamps (ctl w) s" "fst (authenticate x cfg t r (ctl w)) = Some d"
      "ServeHTTP x cfg rnd t r w = mux \<lparr>hx = x, hs = cfg, hr = rnd, ht = t, hid = Some d, hp = [], hq = r\<rparr> (w\<lparr>ctl := s\<rparr>)"
proof (cases "fst (authenticate x cfg t r (ctl w))")
  case None
  then have "ServeHTTP x cfg rnd t r w = (unauthorized, w\<lparr>ctl := snd (authenticate x cfg t r (ctl w))\<rparr>)"
    using assms(1) agent_not_public [OF assms(2)] by (auto simp: ServeHTTP_def split: prod.splits option.splits)
  with that(1) agent_stamps [OF assms(2,3)] None show ?thesis by blast
next
  case (Some d)
  then have "ServeHTTP x cfg rnd t r w =
      mux \<lparr>hx = x, hs = cfg, hr = rnd, ht = t, hid = Some d, hp = [], hq = r\<rparr> (w\<lparr>ctl := snd (authenticate x cfg t r (ctl w))\<rparr>)"
    using assms(1) agent_not_public [OF assms(2)] by (auto simp: ServeHTTP_def split: prod.splits option.splits)
  with that(2) agent_stamps [OF assms(2,3)] Some show ?thesis by blast
qed

lemma agent_call_refused:
  assumes "cfg_bearer cfg \<noteq> []" "(rq_method r, suf) \<in> set agent_calls"
    "rq_segments r = [''v1'', ''nodes'', i, suf]" "i \<noteq> []" and parse: "\<And>u. CHR ''/'' \<in> set u \<Longrightarrow> x_uuid x u = None"
    and token: "\<And>nd. x_uuid x i = Some nd \<Longrightarrow> NodeTokenValid (x_sha x) nd (bearerToken r) (core (ctl w)) \<noteq> Inr True"
  shows "\<exists>res s. ServeHTTP x cfg rnd t r w = (res, w\<lparr>ctl := s\<rparr>) \<and> same_but_stamps (ctl w) s \<and>
       rs_status res \<in> {301, 400, 401, 404, 405}"
proof -
  from assms(2) have suf: "suf \<in> agent_suffixes" by (auto simp: agent_suffixes_calls)
  show ?thesis
  proof (cases rule: agent_served [OF assms(1,3) suf, of w x t rnd])
    case (1 s)
    then show ?thesis by (auto simp: unauthorized_def writeError_def)
  next
    case (2 s d)
    show ?thesis
    proof (cases "x_uuid x i")
      case None
      from mux_malformed_agent [of "\<lparr>hx = x, hs = cfg, hr = rnd, ht = t, hid = Some d, hp = [], hq = r\<rparr>" i suf "w\<lparr>ctl := s\<rparr>"]
        assms(2-4) None 2 show ?thesis by auto
    next
      case (Some nd)
      then have "CHR ''/'' \<notin> set i" using parse by force
      from nodeAgentPathID_call [OF assms(2,3) this, of "x_uuid x"] Some
      have "nodeAgentPathID (x_uuid x) r = Some nd" by simp
      with token [OF Some] have "fst (authenticate x cfg t r (ctl w)) = None" by (auto simp: authenticate_def split: sum.splits)
      with 2 show ?thesis by simp
    qed
  qed
qed

lemma agent_reads:
  assumes "f \<in> agent_handlers" "(GET, p, f) \<in> set routes" "p = agent_pattern suf"
  shows "snd (f h w) = w"
proof -
  have "list_all (\<lambda>(m, q, g). m = GET \<and> q = agent_pattern suf \<longrightarrow> g \<in> {handleDesiredState, handleNodeRoutes, handleGetNode}) routes"
    by (simp add: routes_def agent_pattern_def)
  with assms have "f \<in> {handleDesiredState, handleNodeRoutes, handleGetNode}" by (auto simp: list_all_iff)
  moreover have "snd (handleGetNode h w) = w"
    by (simp add: handleGetNode_def addressed_def with_id_def checked_def fetch_def send_def split: sum.split option.split)
  ultimately show ?thesis
    by (auto simp: handleDesiredState_def handleNodeRoutes_def with_id_def fetch_def send_def split: sum.split)
qed

text \<open>A method the endpoint is not for reaches no handler, except that a \<open>GET\<close> pattern also serves \<open>HEAD\<close>.\<close>

lemma mux_other_method:
  assumes "rq_segments (hq h) = [''v1'', ''nodes'', i, suf]" "suf \<in> agent_suffixes" "i \<noteq> []"
    "(rq_method (hq h), suf) \<notin> set agent_calls"
  shows "\<exists>res. mux h w = (res, w) \<and>
    (rs_status res \<in> {301, 404, 405} \<or> rq_method (hq h) = HEAD \<and> suf \<in> {''desired-state'', ''routes''})"
proof (cases rule: mux_cases [of h w])
  case (handler m p f)
  from selected_route [OF handler(1,2) assms(1-3)] have m: "(m, suf) \<in> set agent_calls" "p = agent_pattern suf" "f \<in> agent_handlers"
    by auto
  from handler(2) m(1) assms(4) have head: "m = GET" "rq_method (hq h) = HEAD" by (auto simp: selects_def accepts_def)
  from m(1) head have "suf \<in> {''desired-state'', ''routes''}" by (auto simp: agent_calls_def)
  moreover have "snd (mux h w) = w" using agent_reads [OF m(3) _ m(2)] handler(1,4) head(1) by simp
  ultimately show ?thesis using head(2) by (intro exI [of _ "fst (mux h w)"]) (simp add: prod_eq_iff)
next
  case (none r)
  then show ?thesis by auto
qed

lemma head_is_not_an_agent_call: "rq_method r = HEAD \<Longrightarrow> nodeAgentPathID parse r = None"
  by (simp add: nodeAgentPathID_def agent_suffix_def Let_def)

lemma head_is_operator:
  assumes "rq_method r = HEAD" "fst (authenticate x cfg t r s) = Some d"
  shows "\<exists>opr. d = IdOperator opr"
  using assms head_is_not_an_agent_call [OF assms(1), of "x_uuid x"] operator_credential_op [of x t r s d]
  by (auto simp: authenticate_def isServicePath_def isNodeRegistration_def split: if_splits)


text \<open>
  What the exception gives away: a \<open>GET\<close> pattern also serves \<open>HEAD\<close>, and the test for agent endpoints asks for \<open>GET\<close>. An
  operator of any organization, asking for the head of a node's routes, is told by the status whether
  the node exists.
\<close>

theorem head_probes_foreign_nodes:
  assumes "rq_method r = HEAD" "rq_segments r = [''v1'', ''nodes'', i, ''routes'']" "i \<noteq> []" "rq_clean r"
    "x_uuid x i = Some nd" "cfg_bearer cfg \<noteq> []"
    "fst (OperatorForToken (x_sha x) \<lparr>now = t, actor = None\<rparr> (bearerToken r) (ctl w)) = Inr opr"
  shows "rs_status (fst (ServeHTTP x cfg rnd t r w)) = (if get_node (core (ctl w)) nd = None then 404 else 200)"
proof -
  from assms(7) have bearer: "bearerToken r \<noteq> []" by (auto simp: OperatorForToken_def)
  obtain s where oft: "OperatorForToken (x_sha x) \<lparr>now = t, actor = None\<rparr> (bearerToken r) (ctl w) = (Inr opr, s)"
    using assms(7) by (cases "OperatorForToken (x_sha x) \<lparr>now = t, actor = None\<rparr> (bearerToken r) (ctl w)") auto
  with OperatorForToken_stamps [of "ctl w" "x_sha x" "\<lparr>now = t, actor = None\<rparr>" "bearerToken r"]
  have core: "core s = core (ctl w)" by (auto simp: same_but_stamps_def)
  have auth: "authenticate x cfg t r (ctl w) = (Some (IdOperator opr), s)"
    using head_is_not_an_agent_call [OF assms(1)] bearer oft assms(1)
    by (auto simp: authenticate_def operator_credential_def isServicePath_def isNodeRegistration_def)
  have sel: "List.find (selects r) routes =
      Some (GET, [Lit ''v1'', Lit ''nodes'', Wild ''id'', Lit ''routes''], handleNodeRoutes)"
    using assms(1-3) by (simp add: routes_def selects_def accepts_def)
  show ?thesis
    using auth sel assms core agent_not_public [OF assms(2)]
    by (simp add: ServeHTTP_def mux_def Let_def handleNodeRoutes_def with_id_def pathUUID_def fetch_def send_def
        GetNode_def writeStoreError_def writeError_def split: option.splits)
qed

end
