(* ===== verification/Store_Accounts.thy ===== *)
theory Store_Accounts
  imports Store_Enrolment Store_Invariant
begin

text \<open>
  The invariant of the tables of identity and enrolment, kept by every operation on them: the unique
  indexes of the schema, the foreign keys of tokens and memberships, at most one open invitation and
  one pending request per address, and join tokens used no more often than they allow.
\<close>

section \<open>The invariant\<close>

definition is_pending :: "access_request \<Rightarrow> bool" where
  "is_pending r \<longleftrightarrow> ar_state r = AccessPending"

definition operators_inv :: "(string \<Rightarrow> string) \<Rightarrow> operator list \<Rightarrow> bool" where
  "operators_inv lower t \<longleftrightarrow> distinct (map opr_id t) \<and> distinct (map (\<lambda>r. lower (opr_email r)) t)"

definition tokens_inv :: "operator list \<Rightarrow> operator_token list \<Rightarrow> bool" where
  "tokens_inv ops t \<longleftrightarrow>
     distinct (map tok_id t) \<and> distinct (map tok_hash t) \<and> tok_operator ` set t \<subseteq> opr_id ` set ops"

definition members_inv :: "organization list \<Rightarrow> operator list \<Rightarrow> org_member list \<Rightarrow> bool" where
  "members_inv orgs ops t \<longleftrightarrow>
     distinct (map (\<lambda>m. (mem_org m, mem_operator m)) t) \<and>
     mem_operator ` set t \<subseteq> opr_id ` set ops \<and> mem_org ` set t \<subseteq> org_id ` set orgs"

definition within_uses :: "join_token \<Rightarrow> bool" where
  "within_uses j \<longleftrightarrow> 0 \<le> jt_uses j \<and> (case jt_max_uses j of None \<Rightarrow> True | Some k \<Rightarrow> jt_uses j \<le> k \<and> in_i32 k)"

definition joins_inv :: "join_token list \<Rightarrow> bool" where
  "joins_inv t \<longleftrightarrow> distinct (map jt_id t) \<and> distinct (map jt_hash t) \<and> (\<forall>j \<in> set t. within_uses j)"

definition requests_inv :: "(string \<Rightarrow> string) \<Rightarrow> access_request list \<Rightarrow> bool" where
  "requests_inv lower t \<longleftrightarrow>
     distinct (map ar_id t) \<and> unique_on is_pending (\<lambda>r. (ar_org r, lower (ar_email r))) t"

definition accounts_inv :: "(string \<Rightarrow> string) \<Rightarrow> control \<Rightarrow> bool" where
  "accounts_inv lower s \<longleftrightarrow>
     operators_inv lower (operators s) \<and> tokens_inv (operators s) (operator_tokens s) \<and>
     members_inv (organizations (core s)) (operators s) (organization_members s) \<and>
     joins_inv (node_join_tokens s) \<and> invite_indexes_ok lower (operator_invites s) \<and>
     requests_inv lower (access_requests s)"

lemma get_operator_None: "get_operator s i = None \<longleftrightarrow> i \<notin> opr_id ` set (operators s)"
  by (auto simp: get_operator_def find_row_None_iff)

lemma get_org_None: "get_org s i = None \<longleftrightarrow> i \<notin> org_id ` set (organizations s)"
  by (auto simp: get_org_def find_row_None_iff)

lemma list_ex_iff_image: "list_ex (\<lambda>x. P x \<or> Q x) t \<longleftrightarrow> list_ex P t \<or> list_ex Q t"
  by (induction t) auto

section \<open>Operators, tokens, members\<close>

lemma accounts_CreateOperator:
  assumes inv: "accounts_inv lower s" and run: "CreateOperator lower c i email nm s = Inr (r, t)"
  shows "accounts_inv lower t"
proof -
  from run have t: "t = s\<lparr>operators := operators s @ [r]\<rparr>"
    and new: "\<forall>x \<in> set (operators s). opr_id x \<noteq> opr_id r \<and> lower (opr_email x) \<noteq> lower (opr_email r)"
    by (auto simp: CreateOperator_def Let_def new_operator_def same_email_def list_ex_iff split: option.splits if_splits)
  then show ?thesis
    using inv by (auto simp: accounts_inv_def operators_inv_def tokens_inv_def members_inv_def image_iff)
qed

lemma accounts_DisableOperator:
  assumes inv: "accounts_inv lower s" and run: "DisableOperator c i s = Inr (u, t)"
  shows "accounts_inv lower t"
proof -
  let ?f = "\<lambda>r. r\<lparr>opr_disabled_at := (case opr_disabled_at r of None \<Rightarrow> Some (now c) | Some x \<Rightarrow> Some x)\<rparr>"
  from run have t: "t = s\<lparr>operators := update_where (\<lambda>r. opr_id r = i) ?f (operators s)\<rparr>"
    by (auto simp: DisableOperator_def split: if_splits)
  have ids: "map opr_id (operators t) = map opr_id (operators s)"
    unfolding t by (simp add: map_update_where)
  have mails: "map (\<lambda>r. lower (opr_email r)) (operators t) = map (\<lambda>r. lower (opr_email r)) (operators s)"
    unfolding t by (simp add: map_update_where)
  have "opr_id ` set (operators t) = opr_id ` set (operators s)"
    using ids by (metis list.set_map)
  with inv ids mails show ?thesis
    by (simp add: accounts_inv_def operators_inv_def tokens_inv_def members_inv_def t)
qed

lemma insert_token_ok:
  "insert_token x s = Inr t \<Longrightarrow> t = s\<lparr>operator_tokens := operator_tokens s @ [x]\<rparr> \<and>
     (\<forall>y \<in> set (operator_tokens s). tok_id y \<noteq> tok_id x \<and> tok_hash y \<noteq> tok_hash x) \<and> get_operator s (tok_operator x) \<noteq> None"
  by (auto simp: insert_token_def list_ex_iff split: if_splits)

lemma accounts_insert_token:
  assumes inv: "accounts_inv lower s" and run: "insert_token x s = Inr t"
  shows "accounts_inv lower t"
  using inv insert_token_ok [OF run]
  by (auto simp: accounts_inv_def tokens_inv_def get_operator_None)

lemma accounts_IssueOperatorToken:
  "accounts_inv lower s \<Longrightarrow> IssueOperatorToken sha c i plain opr nm ex s = Inr (r, t) \<Longrightarrow> accounts_inv lower t"
  by (auto simp: IssueOperatorToken_def Let_def intro: accounts_insert_token)

lemma accounts_EnsureOperatorToken:
  "accounts_inv lower s \<Longrightarrow> EnsureOperatorToken sha c i opr nm plain s = Inr (r, t) \<Longrightarrow> accounts_inv lower t"
  by (auto simp: EnsureOperatorToken_def split: if_splits intro: accounts_insert_token)

lemma accounts_OperatorForToken:
  assumes inv: "accounts_inv lower s"
  shows "accounts_inv lower (snd (OperatorForToken sha c plain s))"
proof -
  have "map g (update_where P (\<lambda>x. x\<lparr>tok_last_used_at := u\<rparr>) ts) = map g ts"
    if "g = tok_id \<or> g = tok_hash \<or> g = tok_operator" for g P u ts
    using that by (auto intro: map_update_where)
  note keep = this
  have "tokens_inv ops (update_where P (\<lambda>x. x\<lparr>tok_last_used_at := u\<rparr>) ts)" if "tokens_inv ops ts" for ops P u ts
  proof -
    have "tok_operator ` set (update_where P (\<lambda>x. x\<lparr>tok_last_used_at := u\<rparr>) ts) = tok_operator ` set ts"
      using keep [of tok_operator P u ts] by (metis list.set_map)
    with that show ?thesis by (simp add: tokens_inv_def keep)
  qed
  with inv show ?thesis
    by (auto simp: OperatorForToken_def Let_def accounts_inv_def split: option.splits)
qed

lemma accounts_RevokeOperatorToken:
  "accounts_inv lower s \<Longrightarrow> RevokeOperatorToken opr i s = Inr (u, t) \<Longrightarrow> accounts_inv lower t"
  by (auto simp: RevokeOperatorToken_def Let_def accounts_inv_def tokens_inv_def distinct_delete_where image_subset_iff
      split: if_splits)

lemma insert_member_ok:
  "insert_member c org opr role s = Inr t \<Longrightarrow>
     get_org (core s) org \<noteq> None \<and> get_operator s opr \<noteq> None \<and>
     t = s\<lparr>organization_members := organization_members s @
            [\<lparr>mem_org = org, mem_operator = opr, mem_role = role, mem_created_at = now c\<rparr>]\<rparr>"
  by (auto simp: insert_member_def split: if_splits)

lemma accounts_insert_member:
  assumes inv: "accounts_inv lower s" and run: "insert_member c org opr role s = Inr t"
    and new: "\<not> list_ex (is_member org opr) (organization_members s)"
  shows "accounts_inv lower t"
  using inv new insert_member_ok [OF run]
  by (auto simp: accounts_inv_def members_inv_def get_operator_None get_org_None list_ex_iff is_member_def)

lemma accounts_AddOrgMember:
  assumes inv: "accounts_inv lower s" and run: "AddOrgMember c org opr role s = Inr (u, t)"
  shows "accounts_inv lower t"
proof (cases "list_ex (is_member org opr) (organization_members s)")
  case True
  let ?t = "update_where (is_member org opr) (\<lambda>m. m\<lparr>mem_role := if role = [] then ''owner'' else role\<rparr>) (organization_members s)"
  have keep: "map g ?t = map g (organization_members s)"
    if "g = mem_org \<or> g = mem_operator" for g
    using that by (auto intro!: map_update_where)
  have "map (\<lambda>m. (mem_org m, mem_operator m)) ?t = map (\<lambda>m. (mem_org m, mem_operator m)) (organization_members s)"
    by (rule map_update_where) simp
  moreover have "mem_operator ` set ?t = mem_operator ` set (organization_members s)" "mem_org ` set ?t = mem_org ` set (organization_members s)"
    using keep [of mem_operator] keep [of mem_org] by (metis list.set_map)+
  moreover from run True have "t = s\<lparr>organization_members := ?t\<rparr>" by (auto simp: AddOrgMember_def Let_def)
  ultimately show ?thesis using inv by (simp add: accounts_inv_def members_inv_def)
next
  case False
  with run show ?thesis
    by (auto simp: AddOrgMember_def Let_def intro: accounts_insert_member [OF inv])
qed

lemma accounts_RemoveOrgMember:
  "accounts_inv lower s \<Longrightarrow> RemoveOrgMember org opr s = Inr (u, t) \<Longrightarrow> accounts_inv lower t"
  by (auto simp: RemoveOrgMember_def accounts_inv_def members_inv_def distinct_delete_where image_subset_iff
      split: if_splits)

section \<open>Join tokens\<close>

lemma insert_join_token_ok:
  "insert_join_token x s = Inr t \<Longrightarrow> t = s\<lparr>node_join_tokens := node_join_tokens s @ [x]\<rparr> \<and>
     (\<forall>y \<in> set (node_join_tokens s). jt_id y \<noteq> jt_id x \<and> jt_hash y \<noteq> jt_hash x)"
  by (auto simp: insert_join_token_def list_ex_iff split: if_splits)

lemma accounts_insert_join_token:
  assumes "accounts_inv lower s" "insert_join_token x s = Inr t" "within_uses x"
  shows "accounts_inv lower t"
  using assms(1,3) insert_join_token_ok [OF assms(2)] by (auto simp: accounts_inv_def joins_inv_def)

lemma accounts_CreateJoinToken:
  assumes inv: "accounts_inv lower s" and run: "CreateJoinToken sha c i plain p s = Inr (r, t)"
  shows "accounts_inv lower t"
proof -
  let ?p = "if cj_name p = [] then p\<lparr>cj_name := ''default''\<rparr> else p"
  let ?x = "new_join_token c i (sha plain) ?p"
  from run have ins: "insert_join_token ?x s = Inr t"
    unfolding CreateJoinToken_def Let_def by (simp split: if_splits sum.splits)
  from run have "\<not> (case cj_max_uses ?p of None \<Rightarrow> False | Some k \<Rightarrow> k < 1)"
    unfolding CreateJoinToken_def Let_def by (rule contrapos_pn) simp
  moreover from this run have "\<not> (case cj_max_uses ?p of None \<Rightarrow> False | Some k \<Rightarrow> \<not> in_i32 k)"
    unfolding CreateJoinToken_def Let_def by (intro notI) simp
  moreover have "cj_max_uses ?p = cj_max_uses p" by simp
  ultimately have "within_uses ?x"
    by (simp only: within_uses_def new_join_token_def) (simp split: option.splits)
  then show ?thesis by (rule accounts_insert_join_token [OF inv ins])
qed

lemma accounts_EnsureJoinToken:
  assumes inv: "accounts_inv lower s" and run: "EnsureJoinToken sha c i org nm plain s = Inr (u, t)"
  shows "accounts_inv lower t"
proof (cases "list_ex (\<lambda>x. jt_hash x = sha plain) (node_join_tokens s)")
  case True
  with run inv show ?thesis by (simp add: EnsureJoinToken_def split: if_splits)
next
  case False
  let ?x = "new_join_token c i (sha plain)
    \<lparr>cj_org = org, cj_name = nm, cj_expires_at = None, cj_max_uses = None, cj_created_by = None\<rparr>"
  from run False have ins: "insert_join_token ?x s = Inr t"
    unfolding EnsureJoinToken_def by (simp split: if_splits sum.splits)
  have "within_uses ?x" by (simp add: within_uses_def new_join_token_def)
  then show ?thesis by (rule accounts_insert_join_token [OF inv ins])
qed

lemma accounts_RevokeJoinToken:
  "accounts_inv lower s \<Longrightarrow> RevokeJoinToken org i s = Inr (u, t) \<Longrightarrow> accounts_inv lower t"
  by (auto simp: RevokeJoinToken_def Let_def accounts_inv_def joins_inv_def distinct_delete_where split: if_splits)

lemma joins_inv_redeem:
  assumes "joins_inv t"
  shows "joins_inv (update_where (redeemable c h) (\<lambda>x. x\<lparr>jt_uses := jt_uses x + 1\<rparr>) t)"
proof -
  let ?t = "update_where (redeemable c h) (\<lambda>x. x\<lparr>jt_uses := jt_uses x + 1\<rparr>) t"
  have "map jt_id ?t = map jt_id t" "map jt_hash ?t = map jt_hash t" by (simp_all add: map_update_where)
  moreover have "\<forall>j \<in> set ?t. within_uses j"
    unfolding ball_update_where using assms
    by (auto simp: joins_inv_def within_uses_def redeemable_def split: option.splits)
  ultimately show ?thesis using assms by (simp add: joins_inv_def)
qed

lemma accounts_RedeemJoinToken:
  assumes inv: "accounts_inv lower s" and run: "RedeemJoinToken sha c plain s = Inr (org, t)"
  shows "accounts_inv lower t"
proof -
  from run have "t = s\<lparr>node_join_tokens := update_where (redeemable c (sha plain)) (\<lambda>x. x\<lparr>jt_uses := jt_uses x + 1\<rparr>)
      (node_join_tokens s)\<rparr>"
    by (auto simp: RedeemJoinToken_def split: if_splits option.splits)
  with inv show ?thesis by (simp add: accounts_inv_def joins_inv_redeem)
qed

section \<open>Invitations and access requests\<close>

lemma append_event_ok:
  assumes "append_event c og kind msg p s = Inr t"
  obtains u where "t = s\<lparr>core := u\<rparr>" "organizations u = organizations (core s)"
  using assms by (auto simp: append_event_def split: sum.splits elim!: appendEventTx_ok)

lemma accounts_append_event:
  assumes "accounts_inv lower s" "append_event c og kind msg p s = Inr t"
  shows "accounts_inv lower t"
  using assms(2,1) by (auto elim!: append_event_ok simp: accounts_inv_def)

lemma accounts_insert_invite:
  assumes "accounts_inv lower s"
    and "insert_invite lower i (s\<lparr>operator_invites := u\<rparr>) = Inr t"
  shows "accounts_inv lower t"
  using assms by (auto simp: insert_invite_def accounts_inv_def split: if_splits)

lemma accounts_createInviteTx:
  assumes inv: "accounts_inv lower s" and run: "createInviteTx lower sha c i plain p s = Inr (r, t)"
  shows "accounts_inv lower t"
  using run unfolding createInviteTx_def Let_def
  by (auto split: sum.splits intro: accounts_append_event accounts_insert_invite [OF inv])

lemma accounts_CreateInvite:
  assumes inv: "accounts_inv lower s" and run: "CreateInvite lower sha c i plain p s = Inr (r, t)"
  shows "accounts_inv lower t"
  using run unfolding CreateInvite_def Let_def
  by (auto simp: map_result_Inr split: option.splits sum.splits intro: accounts_createInviteTx [OF inv])

lemma invites_update:
  assumes "invite_indexes_ok lower t"
    and "\<And>x. P x \<Longrightarrow> inv_id (f x) = inv_id x \<and> inv_hash (f x) = inv_hash x \<and>
       inv_org (f x) = inv_org x \<and> inv_email (f x) = inv_email x"
    and "\<And>x. P x \<Longrightarrow> open_invite (f x) \<Longrightarrow> open_invite x"
  shows "invite_indexes_ok lower (update_where P f t)"
  unfolding invite_indexes_ok_def
proof (intro conjI)
  have ids: "map inv_id (update_where P f t) = map inv_id t" using assms(2) by (simp add: map_update_where)
  have hashes: "map inv_hash (update_where P f t) = map inv_hash t" using assms(2) by (simp add: map_update_where)
  show "distinct (map inv_id (update_where P f t))" "distinct (map inv_hash (update_where P f t))"
    using assms(1) by (simp_all add: ids hashes invite_indexes_ok_def)
  show "unique_on open_invite (\<lambda>i. (inv_org i, lower (inv_email i))) (update_where P f t)"
    using assms by (intro unique_on_update_where) (auto simp: invite_indexes_ok_def)
qed

lemma accounts_RevokeInvite:
  assumes inv: "accounts_inv lower s" and run: "RevokeInvite c og i s = Inr (u, t)"
  shows "accounts_inv lower t"
proof -
  let ?t = "update_where (\<lambda>x. inv_id x = i \<and> inv_org x = og \<and> open_invite x) (\<lambda>x. x\<lparr>inv_revoked_at := Some (now c)\<rparr>)
    (operator_invites s)"
  have "invite_indexes_ok lower ?t"
    using inv by (intro invites_update) (auto simp: accounts_inv_def open_invite_def)
  moreover from run have "t = s\<lparr>operator_invites := ?t\<rparr>"
    by (auto simp: RevokeInvite_def Let_def split: if_splits)
  ultimately show ?thesis using inv by (simp add: accounts_inv_def)
qed

lemma accounts_upsert_operator:
  assumes inv: "accounts_inv lower s" and run: "upsert_operator lower c i email s = Inr (r, t)"
  shows "accounts_inv lower t"
proof (cases "find_row (same_email lower email) (operators s)")
  case None
  with run have t: "t = s\<lparr>operators := operators s @ [r]\<rparr>"
    and new: "opr_id r \<notin> opr_id ` set (operators s)"
    and mail: "lower (opr_email r) \<notin> (\<lambda>x. lower (opr_email x)) ` set (operators s)"
    by (auto simp: upsert_operator_def Let_def new_operator_def find_row_None_iff same_email_def get_operator_None
        simp del: split_paired_Ex split: if_splits)
  with inv show ?thesis
    by (auto simp: accounts_inv_def operators_inv_def tokens_inv_def members_inv_def)
qed (use run inv in \<open>simp add: upsert_operator_def\<close>)

lemma accounts_join_if_absent:
  assumes inv: "accounts_inv lower s" and run: "join_if_absent c og opr role s = Inr t"
  shows "accounts_inv lower t"
  using run inv by (auto simp: join_if_absent_def split: if_splits intro: accounts_insert_member)

lemma accounts_admit:
  assumes inv: "accounts_inv lower s" and run: "admit lower sha c f i nm s = Inr (r, t)"
  shows "accounts_inv lower t"
proof -
  obtain x s2 where up: "upsert_operator lower c (rf_operator f) (inv_email i) s = Inr (x, s2)"
    using run by (auto simp: admit_def split: sum.splits)
  let ?s3 = "s2\<lparr>operator_invites := update_where (\<lambda>x. inv_hash x = inv_hash i)
    (\<lambda>y. y\<lparr>inv_redeemed_by := Some (opr_id x)\<rparr>) (operator_invites s2)\<rparr>"
  have s2: "accounts_inv lower s2" by (rule accounts_upsert_operator [OF inv up])
  then have "invite_indexes_ok lower (operator_invites ?s3)"
    by (auto simp: accounts_inv_def open_invite_def intro: invites_update)
  with s2 have s3: "accounts_inv lower ?s3" by (simp add: accounts_inv_def)
  from run obtain s4 s5 tok ev where
    "join_if_absent c (inv_org i) (opr_id x) (inv_role i) ?s3 = Inr s4" "insert_token tok s4 = Inr s5"
    "append_event c (inv_org i) ''operator.joined'' (fst ev) (snd ev) s5 = Inr t"
    unfolding admit_def up by (auto simp: Let_def split: sum.splits if_splits)
  from this(3) accounts_insert_token [OF accounts_join_if_absent [OF s3 this(1)] this(2)]
  show ?thesis by (rule accounts_append_event [rotated])
qed

lemma accounts_RedeemInvite:
  assumes inv: "accounts_inv lower s" and run: "RedeemInvite lower sha c f plain nm s = Inr (r, t)"
  shows "accounts_inv lower t"
proof -
  let ?s = "s\<lparr>operator_invites := update_where (claimable_invite c (sha plain))
    (\<lambda>x. x\<lparr>inv_redeemed_at := Some (now c)\<rparr>) (operator_invites s)\<rparr>"
  have "invite_indexes_ok lower (operator_invites ?s)"
    using inv by (auto simp: accounts_inv_def open_invite_def intro: invites_update)
  with inv have "accounts_inv lower ?s" by (simp add: accounts_inv_def)
  with run show ?thesis
    by (auto simp: RedeemInvite_def Let_def map_result_Inr split: if_splits option.splits intro: accounts_admit)
qed

lemma requests_update:
  assumes "requests_inv lower t"
    and "\<And>x. P x \<Longrightarrow> ar_id (f x) = ar_id x \<and> ar_org (f x) = ar_org x \<and> ar_email (f x) = ar_email x"
    and "\<And>x. P x \<Longrightarrow> is_pending (f x) \<Longrightarrow> is_pending x"
  shows "requests_inv lower (update_where P f t)"
  unfolding requests_inv_def
proof (intro conjI)
  have "map ar_id (update_where P f t) = map ar_id t" using assms(2) by (simp add: map_update_where)
  with assms(1) show "distinct (map ar_id (update_where P f t))" by (simp add: requests_inv_def)
  show "unique_on is_pending (\<lambda>r. (ar_org r, lower (ar_email r))) (update_where P f t)"
    using assms by (intro unique_on_update_where) (auto simp: requests_inv_def)
qed

lemma accounts_requests:
  "accounts_inv lower s \<Longrightarrow> requests_inv lower u \<Longrightarrow> accounts_inv lower (s\<lparr>access_requests := u\<rparr>)"
  by (simp add: accounts_inv_def)

lemma accounts_upsert_access_request:
  assumes inv: "accounts_inv lower s" and run: "upsert_access_request lower c i p s = Inr (r, t)"
  shows "accounts_inv lower t"
proof (cases "find_row (pending_for lower (ca_org p) (ca_email p)) (access_requests s)")
  case None
  with run have t: "t = s\<lparr>access_requests := access_requests s @ [new_access_request c i p]\<rparr>"
    and new: "\<forall>x \<in> set (access_requests s). ar_id x \<noteq> i"
    by (auto simp: upsert_access_request_def Let_def list_ex_iff split: if_splits)
  from None have "\<forall>x \<in> set (access_requests s). \<not> pending_for lower (ca_org p) (ca_email p) x"
    by (simp add: find_row_None_iff)
  with new inv have "requests_inv lower (access_requests s @ [new_access_request c i p])"
    by (auto simp: requests_inv_def unique_on_append accounts_inv_def new_access_request_def pending_for_def is_pending_def)
  with inv show ?thesis unfolding t by (rule accounts_requests)
next
  case (Some x)
  with run have t: "t = s\<lparr>access_requests := update_where (pending_for lower (ca_org p) (ca_email p)) (resubmitted p)
      (access_requests s)\<rparr>"
    by (auto simp: upsert_access_request_def Let_def)
  show ?thesis unfolding t
    using inv by (intro accounts_requests requests_update)
      (auto simp: accounts_inv_def resubmitted_def is_pending_def)
qed

lemma accounts_CreateAccessRequest:
  assumes inv: "accounts_inv lower s" and run: "CreateAccessRequest lower c i p s = Inr (r, t)"
  shows "accounts_inv lower t"
proof -
  let ?p = "p\<lparr>ca_email := trim_space (ca_email p), ca_name := trim_space (ca_name p), ca_note := trim_space (ca_note p)\<rparr>"
  from run obtain x s1 where up: "upsert_access_request lower c i ?p s = Inr (x, s1)"
    and rest: "s1 = t \<or> (\<exists>og kind msg q. append_event c og kind msg q s1 = Inr t)"
    unfolding CreateAccessRequest_def Let_def
    by (simp split: option.splits sum.splits if_splits prod.splits) blast+
  have "accounts_inv lower s1" by (rule accounts_upsert_access_request [OF inv up])
  with rest show ?thesis by (elim disjE exE) (simp, rule accounts_append_event)
qed

lemma accounts_decide:
  assumes inv: "accounts_inv lower s" and run: "decide c v og i b s = Inr (r, t)" and v: "v \<noteq> AccessPending"
  shows "accounts_inv lower t"
proof -
  let ?P = "\<lambda>r. ar_id r = i \<and> ar_org r = og \<and> ar_state r = AccessPending"
  let ?f = "\<lambda>r. r\<lparr>ar_state := v, ar_decided_at := Some (now c), ar_decided_by := b\<rparr>"
  from run have t: "t = s\<lparr>access_requests := update_where ?P ?f (access_requests s)\<rparr>"
    unfolding decide_def Let_def by (simp split: option.splits if_splits)
  show ?thesis unfolding t
    using inv v by (intro accounts_requests requests_update) (auto simp: accounts_inv_def is_pending_def)
qed

lemma accounts_DeclineAccessRequest:
  assumes inv: "accounts_inv lower s" and run: "DeclineAccessRequest c og i b s = Inr (r, t)"
  shows "accounts_inv lower t"
  using run unfolding DeclineAccessRequest_def
  by (auto simp: map_result_Inr split: sum.splits intro: accounts_append_event accounts_decide [OF inv])

lemma accounts_ApproveAccessRequest:
  assumes inv: "accounts_inv lower s" and run: "ApproveAccessRequest lower sha c i plain p s = Inr (r, t)"
  shows "accounts_inv lower t"
proof -
  from run obtain x s1 q y s2 kind msg where
    d: "decide c AccessApproved (ap_org p) (ap_request p) (ap_decided_by p) s = Inr (x, s1)"
    and ci: "createInviteTx lower sha c i plain q s1 = Inr (y, s2)"
    and ev: "append_event c (ap_org p) kind (fst msg) (snd msg)
       (s2\<lparr>access_requests := update_where (\<lambda>a. ar_id a = ar_id x) (\<lambda>a. a\<lparr>ar_invite := Some (inv_id (fst y))\<rparr>)
          (access_requests s2)\<rparr>) = Inr t"
    unfolding ApproveAccessRequest_def map_result_Inr
    by (auto simp: map_result_Inr Let_def split: sum.splits)
  have "accounts_inv lower s1" by (rule accounts_decide [OF inv d]) simp
  then have "accounts_inv lower s2" using ci by (rule accounts_createInviteTx)
  then have "accounts_inv lower (s2\<lparr>access_requests := update_where (\<lambda>a. ar_id a = ar_id x)
      (\<lambda>a. a\<lparr>ar_invite := Some (inv_id (fst y))\<rparr>) (access_requests s2)\<rparr>)"
    by (intro accounts_requests requests_update) (auto simp: accounts_inv_def is_pending_def)
  from accounts_append_event [OF this ev] show ?thesis .
qed

end
