(* ===== verification/Control_Steps.thy ===== *)
theory Control_Steps
  imports Store_Accounts Store_Logs
begin

text \<open>
  The transition system of the whole database: a step of the tables of \<open>db\<close>, or one call on operators,
  tokens, members, join tokens, invitations, access requests and log requests. Its reachable states
  satisfy the invariant of both halves.
\<close>

section \<open>No call removes an organization\<close>

lemma orgs_insert_environment: "insert_environment e s = Inr t \<Longrightarrow> organizations t = organizations s"
  by (auto dest: insert_environment_ok)

lemma orgs_createDeploymentTx: "createDeploymentTx c i p s = Inr (d, t) \<Longrightarrow> organizations t = organizations s"
  by (erule createDeploymentTx_ok) auto

lemma orgs_catalog:
  "CreateApplication c i og sl nm s = Inr (r2, t) \<Longrightarrow> organizations t = organizations s"
  "CreateStack c i ap sl s = Inr (r3, t) \<Longrightarrow> organizations t = organizations s"
  "CreateStackVersion digest c i st raw sp cb s = Inr (r4, t) \<Longrightarrow> organizations t = organizations s"
  "CreateEnvironment c i pe s = Inr (r5, t) \<Longrightarrow> organizations t = organizations s"
  subgoal by (auto simp: CreateApplication_def Let_def split: option.splits if_splits)
  subgoal by (auto simp: CreateStack_def Let_def split: option.splits if_splits)
  subgoal by (auto simp: CreateStackVersion_def insert_stack_version_def Let_def split: option.splits if_splits sum.splits)
  subgoal by (auto simp: CreateEnvironment_def Let_def split: option.splits if_splits intro: orgs_insert_environment)
  done

lemma orgs_CreatePreview:
  assumes run: "CreatePreview c i ids p s = Inr (r, t)"
  shows "organizations t = organizations s"
proof -
  from run obtain e s1 s2 d q where
    "insert_environment e s = Inr s1" "inherit_secrets c ids (cp_inherit p) (cp_env p) s1 = Inr s2"
    "createDeploymentTx c i q s2 = Inr (d, t)"
    by (fastforce simp: CreatePreview_def Let_def split: option.splits prod.splits)
  then show ?thesis
    using orgs_insert_environment inherit_secrets_ok orgs_createDeploymentTx by fastforce
qed

lemma orgs_reap_victims: "reap_victims c vs s = Inr (done1, t) \<Longrightarrow> organizations t = organizations s"
proof (induction c vs s arbitrary: done1 rule: reap_victims.induct)
  case (2 c e og rest s)
  from 2(2) obtain s1 done2 where
    app: "appendEventTx c og None None ''preview.expired'' ''preview environment expired''
      [(''environment_id'', JStr e), (''env8'', JStr (shortID e))] s = Inr s1" and
    rest: "reap_victims c rest (delete_environment e (add_tombstone c (shortID e) og s1)) = Inr (done2, t)"
    by (auto split: prod.splits)
  from app have "organizations s1 = organizations s" by (rule appendEventTx_ok) simp
  with 2(1) [OF app rest] show ?case
    by (simp add: delete_environment_def add_tombstone_def Let_def)
qed simp

lemma orgs_deployments:
  "CreateDeployment c i pd s = Inr (r8, t) \<Longrightarrow> organizations t = organizations s"
  "RollbackDeployment c i e rev1 s = Inr (r9, t) \<Longrightarrow> organizations t = organizations s"
  "UpdateDeploymentState c d to why s = Inr (u, t) \<Longrightarrow> organizations t = organizations s"
  "PromoteDeployment c d s = Inr (r10, t) \<Longrightarrow> organizations t = organizations s"
  "PlaceDeployment c d nd insts cpu mem s = Inr (u1, t) \<Longrightarrow> organizations t = organizations s"
  "ReportInstance c nd i ob s = Inr (u1, t) \<Longrightarrow> organizations t = organizations s"
  "DeleteInstances d s = Inr (u1, t) \<Longrightarrow> organizations t = organizations s"
  "ReleaseEnvironmentHome c e s = Inr (u1, t) \<Longrightarrow> organizations t = organizations s"
  subgoal by (auto simp: CreateDeployment_def intro: orgs_createDeploymentTx)
  subgoal by (auto simp: RollbackDeployment_def CreateDeployment_def Let_def split: option.splits if_splits
      intro: orgs_createDeploymentTx)
  subgoal by (erule UpdateDeploymentState_ok) auto
  subgoal by (erule PromoteDeployment_ok) auto
  subgoal by (erule PlaceDeployment_ok) (auto dest: arg_cong [where f = organizations])
  subgoal by (auto simp: ReportInstance_def Let_def split: if_splits)
  subgoal by (erule DeleteInstances_ok) (auto dest: arg_cong [where f = organizations])
  subgoal by (erule ReleaseEnvironmentHome_ok) auto
  done

lemma orgs_nodes_secrets:
  "RegisterNode inet sha c i tok pn s = Inr (r11, t) \<Longrightarrow> organizations t = organizations s"
  "Heartbeat c nd s = Inr (u, t) \<Longrightarrow> organizations t = organizations s"
  "DrainNode nd s = Inr (u, t) \<Longrightarrow> organizations t = organizations s"
  "UncordonNode c nd s = Inr (u, t) \<Longrightarrow> organizations t = organizations s"
  "RotateNodeRecipient c nd s = Inr (r12, t) \<Longrightarrow> organizations t = organizations s"
  "SetSecret c i e k ct kid s = Inr (u, t) \<Longrightarrow> organizations t = organizations s"
  "DeleteSecret c e k s = Inr (u, t) \<Longrightarrow> organizations t = organizations s"
  subgoal by (cases r11, hypsubst, erule RegisterNode_ok) simp_all
  subgoal by (auto simp: Heartbeat_def dest: update_node_ok)
  subgoal by (auto simp: DrainNode_def dest: update_node_ok)
  subgoal by (erule UncordonNode_ok) simp_all
  subgoal by (erule RotateNodeRecipient_ok) simp
  subgoal by (auto simp: SetSecret_def Let_def split: option.splits if_splits sum.splits elim!: appendEnvironmentEventTx_ok)
  subgoal by (auto simp: DeleteSecret_def Let_def split: option.splits if_splits sum.splits elim!: appendEnvironmentEventTx_ok)
  done

lemma store_step_orgs:
  assumes "store_step inet sha digest s t"
  shows "\<exists>x. organizations t = organizations s @ x"
  using assms
proof (cases rule: store_step.cases)
  case (st_org c i sl nm r)
  then show ?thesis by (auto simp: CreateOrganization_def Let_def split: option.splits if_splits)
qed (auto simp: expireEnvironments_def sweepTombstones_def claimPreviewsForExpiryWarning_def
    MarkStaleNodesUnreachable_def PruneSecretVersions_def
    dest: orgs_catalog orgs_CreatePreview orgs_deployments orgs_nodes_secrets orgs_reap_victims)

section \<open>Accounts change the core tables only by appending events\<close>

definition events_only :: "control \<Rightarrow> control \<Rightarrow> bool" where
  "events_only s t \<longleftrightarrow> (\<exists>ev. core t = (core s)\<lparr>events := ev\<rparr>)"

lemma events_only_refl: "core t = core s \<Longrightarrow> events_only s t"
  unfolding events_only_def by (intro exI [of _ "events (core s)"]) simp

lemma events_only_trans [trans]: "events_only s t \<Longrightarrow> events_only t u \<Longrightarrow> events_only s u"
  by (auto simp: events_only_def)

lemma events_only_inv: "events_only s t \<Longrightarrow> store_inv (core s) \<Longrightarrow> store_inv (core t)"
  by (auto simp: events_only_def intro: store_inv_events)

lemma events_append_event: "append_event c og kind msg p s = Inr t \<Longrightarrow> events_only s t"
  by (auto simp: append_event_def events_only_def split: sum.splits elim!: appendEventTx_ok)

lemma core_insert_invite: "insert_invite lower i s = Inr t \<Longrightarrow> core t = core s"
  by (auto simp: insert_invite_def split: if_splits)

lemma events_createInviteTx:
  assumes "createInviteTx lower sha c i plain p s = Inr (r, t)"
  shows "events_only s t"
proof -
  from assms obtain x s1 og kind msg q where
    "insert_invite lower x (s\<lparr>operator_invites := update_where (superseded_invite lower p)
       (\<lambda>x. x\<lparr>inv_revoked_at := Some (now c)\<rparr>) (operator_invites s)\<rparr>) = Inr s1"
    and ev: "append_event c og kind msg q s1 = Inr t"
    unfolding createInviteTx_def Let_def by (auto split: sum.splits)
  then have "core s1 = core s" by (auto dest: core_insert_invite)
  then show ?thesis by (rule events_only_trans [OF events_only_refl events_append_event [OF ev]])
qed

lemma events_CreateInvite: "CreateInvite lower sha c i plain p s = Inr (r, t) \<Longrightarrow> events_only s t"
  by (auto simp: CreateInvite_def Let_def split: option.splits sum.splits dest: events_createInviteTx)

lemma core_insert_token: "insert_token x s = Inr t \<Longrightarrow> core t = core s"
  by (auto simp: insert_token_def split: if_splits)

lemma core_join_if_absent: "join_if_absent c og opr role s = Inr t \<Longrightarrow> core t = core s"
  by (auto simp: join_if_absent_def insert_member_def split: if_splits)

lemma core_upsert_operator: "upsert_operator lower c i email s = Inr (r, t) \<Longrightarrow> core t = core s"
  by (auto simp: upsert_operator_def Let_def split: if_splits option.splits)

lemma events_admit:
  assumes "admit lower sha c f i nm s = Inr (r, t)"
  shows "events_only s t"
proof -
  from assms obtain x s2 where up: "upsert_operator lower c (rf_operator f) (inv_email i) s = Inr (x, s2)"
    by (auto simp: admit_def split: sum.splits)
  from assms obtain y s4 s5 tok ev where
    step: "join_if_absent c (inv_org i) (opr_id x) (inv_role i) (s2\<lparr>operator_invites := y\<rparr>) = Inr s4"
      "insert_token tok s4 = Inr s5"
    and ev: "append_event c (inv_org i) ''operator.joined'' (fst ev) (snd ev) s5 = Inr t"
    unfolding admit_def up by (auto simp: Let_def split: sum.splits if_splits)
  with core_upsert_operator [OF up] core_join_if_absent [OF step(1)] core_insert_token [OF step(2)]
  have "core s5 = core s" by simp
  then show ?thesis by (rule events_only_trans [OF events_only_refl events_append_event [OF ev]])
qed

lemma events_RedeemInvite:
  assumes "RedeemInvite lower sha c f plain nm s = Inr (r, t)"
  shows "events_only s t"
proof -
  from assms obtain i y n where "admit lower sha c f i n (s\<lparr>operator_invites := y\<rparr>) = Inr (r, t)"
    by (auto simp: RedeemInvite_def Let_def split: if_splits option.splits)
  then show ?thesis by (auto dest: events_admit simp: events_only_def)
qed

lemma core_decide: "decide c v og i b s = Inr (r, t) \<Longrightarrow> core t = core s"
  by (auto simp: decide_def Let_def split: option.splits if_splits)

lemma events_DeclineAccessRequest: "DeclineAccessRequest c og i b s = Inr (r, t) \<Longrightarrow> events_only s t"
  by (auto simp: DeclineAccessRequest_def split: sum.splits
      intro: events_only_trans [OF events_only_refl events_append_event] dest: core_decide)

lemma events_CreateAccessRequest:
  assumes "CreateAccessRequest lower c i p s = Inr (r, t)"
  shows "events_only s t"
proof -
  from assms obtain q x s1 where up: "upsert_access_request lower c i q s = Inr (x, s1)"
    and rest: "s1 = t \<or> (\<exists>og kind msg p. append_event c og kind msg p s1 = Inr t)"
    unfolding CreateAccessRequest_def Let_def
    by (simp split: option.splits sum.splits if_splits prod.splits) blast+
  from up have "core s1 = core s"
    by (auto simp: upsert_access_request_def Let_def split: option.splits if_splits)
  then have "events_only s s1" by (rule events_only_refl)
  moreover from rest have "events_only s1 t"
    by (elim disjE exE) (simp_all add: events_only_refl events_append_event)
  ultimately show ?thesis by (rule events_only_trans)
qed

lemma events_ApproveAccessRequest:
  assumes "ApproveAccessRequest lower sha c i plain p s = Inr (r, t)"
  shows "events_only s t"
proof -
  from assms obtain x s1 q y s2 z kind msg where
    d: "decide c AccessApproved (ap_org p) (ap_request p) (ap_decided_by p) s = Inr (x, s1)"
    and ci: "createInviteTx lower sha c i plain q s1 = Inr (y, s2)"
    and ev: "append_event c (ap_org p) kind (fst msg) (snd msg) (s2\<lparr>access_requests := z\<rparr>) = Inr t"
    unfolding ApproveAccessRequest_def by (auto simp: Let_def split: sum.splits)
  from events_only_refl [OF core_decide [OF d]] events_createInviteTx [OF ci] have "events_only s s2"
    by (rule events_only_trans)
  also from events_append_event [OF ev] have "events_only s2 t" by (simp add: events_only_def)
  finally show ?thesis .
qed

section \<open>The transition system\<close>

text \<open>
  One rule per store call. \<open>OperatorForToken\<close> is a step whether or not it finds somebody, since it
  stamps the token it looked up.
\<close>

inductive control_step ::
  "(string \<Rightarrow> string) \<Rightarrow> (string \<Rightarrow> string option) \<Rightarrow> (string \<Rightarrow> string) \<Rightarrow> (deployment_spec \<Rightarrow> string) \<Rightarrow>
   control \<Rightarrow> control \<Rightarrow> bool"
  for lower inet sha digest where
  ct_core: "store_step inet sha digest (core s) t \<Longrightarrow>
     control_step lower inet sha digest s (cascade_logs (s\<lparr>core := t\<rparr>))"
| ct_operator: "CreateOperator lower c i email nm s = Inr (r1, t) \<Longrightarrow> control_step lower inet sha digest s t"
| ct_disable: "DisableOperator c i s = Inr (u, t) \<Longrightarrow> control_step lower inet sha digest s t"
| ct_issue: "IssueOperatorToken sha c i plain opr nm ex s = Inr (r2, t) \<Longrightarrow> control_step lower inet sha digest s t"
| ct_ensure: "EnsureOperatorToken sha c i opr nm plain s = Inr (u, t) \<Longrightarrow> control_step lower inet sha digest s t"
| ct_present: "control_step lower inet sha digest s (snd (OperatorForToken sha c plain s))"
| ct_revoke: "RevokeOperatorToken opr i s = Inr (u, t) \<Longrightarrow> control_step lower inet sha digest s t"
| ct_add_member: "AddOrgMember c og opr role s = Inr (u, t) \<Longrightarrow> control_step lower inet sha digest s t"
| ct_remove_member: "RemoveOrgMember og opr s = Inr (u, t) \<Longrightarrow> control_step lower inet sha digest s t"
| ct_join: "CreateJoinToken sha c i plain pj s = Inr (r3, t) \<Longrightarrow> control_step lower inet sha digest s t"
| ct_ensure_join: "EnsureJoinToken sha c i og nm plain s = Inr (u, t) \<Longrightarrow> control_step lower inet sha digest s t"
| ct_revoke_join: "RevokeJoinToken og i s = Inr (u, t) \<Longrightarrow> control_step lower inet sha digest s t"
| ct_redeem_join: "RedeemJoinToken sha c plain s = Inr (og, t) \<Longrightarrow> control_step lower inet sha digest s t"
| ct_invite: "CreateInvite lower sha c i plain pc s = Inr (r4, t) \<Longrightarrow> control_step lower inet sha digest s t"
| ct_redeem: "RedeemInvite lower sha c f plain nm s = Inr (r5, t) \<Longrightarrow> control_step lower inet sha digest s t"
| ct_revoke_invite: "RevokeInvite c og i s = Inr (u, t) \<Longrightarrow> control_step lower inet sha digest s t"
| ct_request: "CreateAccessRequest lower c i pa s = Inr (r6, t) \<Longrightarrow> control_step lower inet sha digest s t"
| ct_approve: "ApproveAccessRequest lower sha c i plain pp s = Inr (r7, t) \<Longrightarrow> control_step lower inet sha digest s t"
| ct_decline: "DeclineAccessRequest c og i b s = Inr (r8, t) \<Longrightarrow> control_step lower inet sha digest s t"
| ct_log: "CreateLogRequest c i pl s = Inr (r9, t) \<Longrightarrow> control_step lower inet sha digest s t"
| ct_log_done: "CompleteLogRequest c nd i why s = Inr (u, t) \<Longrightarrow> control_step lower inet sha digest s t"
| ct_log_close: "control_step lower inet sha digest s (CloseLogRequest c i s)"
| ct_log_sweep: "control_step lower inet sha digest s (snd (SweepLogRequests c s))"

definition control_inv :: "(string \<Rightarrow> string) \<Rightarrow> control \<Rightarrow> bool" where
  "control_inv lower s \<longleftrightarrow> store_inv (core s) \<and> accounts_inv lower s"

lemma core_accounts:
  "CreateOperator lower c i email nm s = Inr (r1, t) \<Longrightarrow> core t = core s"
  "DisableOperator c i s = Inr (u, t) \<Longrightarrow> core t = core s"
  "IssueOperatorToken sha c i plain opr nm ex s = Inr (r2, t) \<Longrightarrow> core t = core s"
  "EnsureOperatorToken sha c i opr nm plain s = Inr (u, t) \<Longrightarrow> core t = core s"
  "core (snd (OperatorForToken sha c plain s)) = core s"
  "RevokeOperatorToken opr i s = Inr (u, t) \<Longrightarrow> core t = core s"
  "AddOrgMember c og opr role s = Inr (u, t) \<Longrightarrow> core t = core s"
  "RemoveOrgMember og opr s = Inr (u, t) \<Longrightarrow> core t = core s"
  by (auto simp: CreateOperator_def DisableOperator_def IssueOperatorToken_def EnsureOperatorToken_def
      OperatorForToken_def RevokeOperatorToken_def AddOrgMember_def RemoveOrgMember_def insert_member_def Let_def
      split: option.splits if_splits sum.splits dest: core_insert_token)

lemma core_insert_join_token: "insert_join_token x s = Inr t \<Longrightarrow> core t = core s"
  by (auto dest: insert_join_token_ok)

lemma core_join_tokens:
  "CreateJoinToken sha c i plain pj s = Inr (r3, t) \<Longrightarrow> core t = core s"
  "EnsureJoinToken sha c i og nm plain s = Inr (u, t) \<Longrightarrow> core t = core s"
  "RevokeJoinToken og i s = Inr (u, t) \<Longrightarrow> core t = core s"
  "RedeemJoinToken sha c plain s = Inr (og, t) \<Longrightarrow> core t = core s"
  "RevokeInvite c og i s = Inr (u, t) \<Longrightarrow> core t = core s"
  subgoal by (auto simp: CreateJoinToken_def Let_def split: if_splits sum.splits dest: core_insert_join_token)
  subgoal by (auto simp: EnsureJoinToken_def split: if_splits sum.splits dest: core_insert_join_token)
  subgoal by (auto simp: RevokeJoinToken_def Let_def split: if_splits)
  subgoal by (auto simp: RedeemJoinToken_def split: if_splits option.splits)
  subgoal by (auto simp: RevokeInvite_def Let_def split: if_splits)
  done

lemma logs_only:
  "CreateLogRequest c i pl s = Inr (r9, t) \<Longrightarrow> \<exists>x. t = s\<lparr>log_requests := x\<rparr>"
  "CompleteLogRequest c nd i why s = Inr (u, t) \<Longrightarrow> \<exists>x. t = s\<lparr>log_requests := x\<rparr>"
  "\<exists>x. CloseLogRequest c i s = s\<lparr>log_requests := x\<rparr>"
  "\<exists>x. snd (SweepLogRequests c s) = s\<lparr>log_requests := x\<rparr>"
  by (auto simp: CreateLogRequest_def CompleteLogRequest_def CloseLogRequest_def SweepLogRequests_def Let_def
      split: option.splits if_splits)

lemma accounts_inv_logs: "accounts_inv lower (s\<lparr>log_requests := x\<rparr>) \<longleftrightarrow> accounts_inv lower s"
  by (simp add: accounts_inv_def)

lemma control_inv_logs: "control_inv lower s \<Longrightarrow> \<exists>x. t = s\<lparr>log_requests := x\<rparr> \<Longrightarrow> control_inv lower t"
  by (auto simp: control_inv_def accounts_inv_logs)

lemma control_invI:
  "events_only s t \<Longrightarrow> control_inv lower s \<Longrightarrow> (accounts_inv lower s \<Longrightarrow> accounts_inv lower t) \<Longrightarrow> control_inv lower t"
  by (auto simp: control_inv_def intro: events_only_inv)

lemma control_inv_core:
  assumes "control_inv lower s" "store_step inet sha digest (core s) t"
  shows "control_inv lower (cascade_logs (s\<lparr>core := t\<rparr>))"
proof -
  from store_step_orgs [OF assms(2)] obtain x where "organizations t = organizations (core s) @ x" ..
  with assms(1) have "accounts_inv lower (s\<lparr>core := t\<rparr>)"
    by (auto simp: control_inv_def accounts_inv_def members_inv_def)
  with assms show ?thesis
    by (auto simp: control_inv_def cascade_logs_def accounts_inv_logs intro: store_inv_step)
qed

lemmas account_cores = core_accounts core_join_tokens

lemmas account_events =
  events_CreateInvite events_RedeemInvite events_CreateAccessRequest events_ApproveAccessRequest
  events_DeclineAccessRequest

lemmas control_invs =
  account_events [THEN control_invI] account_cores [THEN events_only_refl, THEN control_invI]

lemmas accounts_kept =
  accounts_CreateOperator accounts_DisableOperator accounts_IssueOperatorToken accounts_EnsureOperatorToken
  accounts_RevokeOperatorToken accounts_AddOrgMember accounts_RemoveOrgMember accounts_CreateJoinToken
  accounts_EnsureJoinToken accounts_RevokeJoinToken accounts_RedeemJoinToken accounts_CreateInvite
  accounts_RedeemInvite accounts_RevokeInvite accounts_CreateAccessRequest accounts_ApproveAccessRequest
  accounts_DeclineAccessRequest

lemma control_inv_step:
  assumes "control_step lower inet sha digest s t" "control_inv lower s"
  shows "control_inv lower t"
  using assms
proof (cases rule: control_step.cases)
  case (ct_core t)
  with assms(2) show ?thesis by (simp add: control_inv_core)
next
  case (ct_present c plain)
  with assms(2) show ?thesis by (simp add: control_inv_def core_accounts accounts_OperatorForToken)
next
  case (ct_log c i pl r)
  then show ?thesis using assms(2) logs_only(1) control_inv_logs by blast
next
  case (ct_log_done c nd i why u)
  then show ?thesis using assms(2) logs_only(2) control_inv_logs by blast
next
  case (ct_log_close c i)
  then show ?thesis using assms(2) logs_only(3) control_inv_logs by blast
next
  case (ct_log_sweep c)
  then show ?thesis using assms(2) logs_only(4) control_inv_logs by blast
qed (rule control_invs, assumption, use assms(2) in assumption, rule accounts_kept, assumption, assumption)+

definition empty_control :: control where
  "empty_control = \<lparr>core = empty_db, operators = [], operator_tokens = [], organization_members = [],
     node_join_tokens = [], operator_invites = [], access_requests = [], log_requests = []\<rparr>"

lemma control_inv_empty: "control_inv lower empty_control"
  by (simp add: control_inv_def empty_control_def store_inv_empty accounts_inv_def operators_inv_def tokens_inv_def
      members_inv_def joins_inv_def requests_inv_def invite_indexes_ok_def unique_on_def)

interpretation control: invariant_system "\<lambda>s. s = empty_control" "control_step lower inet sha digest" "control_inv lower"
  for lower inet sha digest
  by unfold_locales (auto simp: control_inv_empty intro: control_inv_step)

end
