(* ===== verification/Account_Properties.thy ===== *)
theory Account_Properties
  imports Control_Steps Store_Example
begin

text \<open>
  What holds of accounts over whole histories: a disabled operator stays locked out, an invitation admits
  once, and a join token never admits more machines than it was issued for.
\<close>

section \<open>What is spent stays spent\<close>

text \<open>
  Operators are never deleted and never enabled again; an invitation that was redeemed or revoked is
  never open again.
\<close>

definition spent_kept :: "control \<Rightarrow> control \<Rightarrow> bool" where
  "spent_kept s t \<longleftrightarrow>
     (\<forall>r \<in> set (operators s). opr_disabled_at r \<noteq> None \<longrightarrow>
        (\<exists>r' \<in> set (operators t). opr_id r' = opr_id r \<and> opr_disabled_at r' \<noteq> None)) \<and>
     (\<forall>i \<in> set (operator_invites s). \<not> open_invite i \<longrightarrow>
        (\<exists>i' \<in> set (operator_invites t). inv_hash i' = inv_hash i \<and> \<not> open_invite i'))"

lemma spent_kept_same: "operators t = operators s \<Longrightarrow> operator_invites t = operator_invites s \<Longrightarrow> spent_kept s t"
  by (auto simp: spent_kept_def)

lemma spent_kept_trans: "spent_kept s t \<Longrightarrow> spent_kept t u \<Longrightarrow> spent_kept s u"
  unfolding spent_kept_def by (elim conjE, intro conjI; metis)

lemma spent_kept_update:
  assumes "operators t = update_where P f (operators s) @ xs" "operator_invites t = update_where Q g (operator_invites s) @ ys"
    and "\<And>r. P r \<Longrightarrow> opr_id (f r) = opr_id r \<and> (opr_disabled_at r \<noteq> None \<longrightarrow> opr_disabled_at (f r) \<noteq> None)"
    and "\<And>i. Q i \<Longrightarrow> inv_hash (g i) = inv_hash i \<and> (\<not> open_invite i \<longrightarrow> \<not> open_invite (g i))"
  shows "spent_kept s t"
  unfolding spent_kept_def
proof (intro conjI ballI impI)
  fix r assume r: "r \<in> set (operators s)" "opr_disabled_at r \<noteq> None"
  let ?r = "if P r then f r else r"
  from r(1) have "?r \<in> set (operators t)" by (auto simp: assms(1) update_where_def)
  moreover from r(2) assms(3) have "opr_id ?r = opr_id r \<and> opr_disabled_at ?r \<noteq> None" by simp
  ultimately show "\<exists>r' \<in> set (operators t). opr_id r' = opr_id r \<and> opr_disabled_at r' \<noteq> None" ..
next
  fix i assume i: "i \<in> set (operator_invites s)" "\<not> open_invite i"
  let ?i = "if Q i then g i else i"
  from i(1) have "?i \<in> set (operator_invites t)" by (auto simp: assms(2) update_where_def)
  moreover from i(2) assms(4) have "inv_hash ?i = inv_hash i \<and> \<not> open_invite ?i" by simp
  ultimately show "\<exists>i' \<in> set (operator_invites t). inv_hash i' = inv_hash i \<and> \<not> open_invite i'" ..
qed

lemma update_where_none [simp]: "update_where (\<lambda>x. False) f t = t"
  by (simp add: update_where_def)

lemma rows_append_event:
  "append_event c og kind msg p s = Inr t \<Longrightarrow> operators t = operators s \<and> operator_invites t = operator_invites s"
  by (auto elim: append_event_ok)

lemma spent_append_event: "append_event c og kind msg p s = Inr t \<Longrightarrow> spent_kept s t"
  by (simp add: rows_append_event spent_kept_same)

lemma spent_DisableOperator: "DisableOperator c i s = Inr (u, t) \<Longrightarrow> spent_kept s t"
  by (rule spent_kept_update [where Q = "\<lambda>x. False" and xs = "[]" and ys = "[]" and P = "\<lambda>r. opr_id r = i" and
      f = "\<lambda>r. r\<lparr>opr_disabled_at := (case opr_disabled_at r of None \<Rightarrow> Some (now c) | Some t \<Rightarrow> Some t)\<rparr>"])
     (auto simp: DisableOperator_def split: if_splits)

lemma spent_CreateOperator: "CreateOperator lower c i email nm s = Inr (r, t) \<Longrightarrow> spent_kept s t"
  by (rule spent_kept_update [where P = "\<lambda>x. False" and Q = "\<lambda>x. False" and xs = "[r]" and ys = "[]"])
     (auto simp: CreateOperator_def Let_def split: option.splits if_splits)

lemma spent_upsert_operator: "upsert_operator lower c i email s = Inr (r, t) \<Longrightarrow> spent_kept s t"
  by (cases "find_row (same_email lower email) (operators s)")
     (auto simp: upsert_operator_def Let_def spent_kept_def split: if_splits)

lemma spent_invites:
  assumes "\<And>i. Q i \<Longrightarrow> inv_hash (g i) = inv_hash i \<and> (\<not> open_invite i \<longrightarrow> \<not> open_invite (g i))"
  shows "spent_kept s (s\<lparr>operator_invites := update_where Q g (operator_invites s) @ ys\<rparr>)"
  by (rule spent_kept_update [where P = "\<lambda>x. False" and xs = "[]" and Q = Q and g = g]) (use assms in auto)

lemma spent_createInviteTx:
  assumes "createInviteTx lower sha c i plain p s = Inr (r, t)"
  shows "spent_kept s t"
proof -
  let ?f = "\<lambda>x. x\<lparr>inv_revoked_at := Some (now c)\<rparr>"
  from assms obtain y og kind msg q where
    ev: "append_event c og kind msg q (s\<lparr>operator_invites := update_where (superseded_invite lower p) ?f (operator_invites s) @ [y]\<rparr>) = Inr t"
    unfolding createInviteTx_def insert_invite_def Let_def by (auto split: sum.splits if_splits)
  have "spent_kept s (s\<lparr>operator_invites := update_where (superseded_invite lower p) ?f (operator_invites s) @ [y]\<rparr>)"
    by (rule spent_invites) (simp add: open_invite_def)
  from this spent_append_event [OF ev] show ?thesis by (rule spent_kept_trans)
qed

lemma rows_unchanged:
  "IssueOperatorToken sha c i plain opr nm ex s = Inr (r2, t) \<Longrightarrow> operators t = operators s \<and> operator_invites t = operator_invites s"
  "EnsureOperatorToken sha c i opr nm plain s = Inr (u, t) \<Longrightarrow> operators t = operators s \<and> operator_invites t = operator_invites s"
  "RevokeOperatorToken opr i s = Inr (u, t) \<Longrightarrow> operators t = operators s \<and> operator_invites t = operator_invites s"
  "AddOrgMember c og opr role s = Inr (u, t) \<Longrightarrow> operators t = operators s \<and> operator_invites t = operator_invites s"
  "RemoveOrgMember og opr s = Inr (u, t) \<Longrightarrow> operators t = operators s \<and> operator_invites t = operator_invites s"
  "CreateJoinToken sha c i plain pj s = Inr (r3, t) \<Longrightarrow> operators t = operators s \<and> operator_invites t = operator_invites s"
  "EnsureJoinToken sha c i og nm plain s = Inr (u, t) \<Longrightarrow> operators t = operators s \<and> operator_invites t = operator_invites s"
  "RevokeJoinToken og i s = Inr (u, t) \<Longrightarrow> operators t = operators s \<and> operator_invites t = operator_invites s"
  "RedeemJoinToken sha c plain s = Inr (og, t) \<Longrightarrow> operators t = operators s \<and> operator_invites t = operator_invites s"
  subgoal by (auto simp: IssueOperatorToken_def Let_def split: sum.splits dest: insert_token_ok)
  subgoal by (auto simp: EnsureOperatorToken_def split: if_splits sum.splits dest: insert_token_ok)
  subgoal by (auto simp: RevokeOperatorToken_def Let_def split: if_splits)
  subgoal by (auto simp: AddOrgMember_def Let_def split: if_splits sum.splits dest: insert_member_ok)
  subgoal by (auto simp: RemoveOrgMember_def split: if_splits)
  subgoal by (auto simp: CreateJoinToken_def Let_def split: if_splits sum.splits dest: insert_join_token_ok)
  subgoal by (auto simp: EnsureJoinToken_def split: if_splits sum.splits dest: insert_join_token_ok)
  subgoal by (auto simp: RevokeJoinToken_def Let_def split: if_splits)
  subgoal by (auto simp: RedeemJoinToken_def split: if_splits option.splits)
  done

lemma rows_decide: "decide c v og i b s = Inr (r, t) \<Longrightarrow> operators t = operators s \<and> operator_invites t = operator_invites s"
  by (auto simp: decide_def Let_def split: option.splits if_splits)

lemma rows_DeclineAccessRequest:
  "DeclineAccessRequest c og i b s = Inr (r, t) \<Longrightarrow> operators t = operators s \<and> operator_invites t = operator_invites s"
  by (auto simp: DeclineAccessRequest_def split: sum.splits dest!: rows_decide rows_append_event)

lemma rows_CreateAccessRequest:
  assumes "CreateAccessRequest lower c i p s = Inr (r, t)"
  shows "operators t = operators s \<and> operator_invites t = operator_invites s"
proof -
  from assms obtain q x s1 where up: "upsert_access_request lower c i q s = Inr (x, s1)"
    and rest: "s1 = t \<or> (\<exists>og kind msg p. append_event c og kind msg p s1 = Inr t)"
    unfolding CreateAccessRequest_def Let_def
    by (simp split: option.splits sum.splits if_splits prod.splits) blast+
  from up have "operators s1 = operators s \<and> operator_invites s1 = operator_invites s"
    by (auto simp: upsert_access_request_def Let_def split: option.splits if_splits)
  with rest show ?thesis by (auto dest: rows_append_event)
qed

lemma spent_CreateInvite: "CreateInvite lower sha c i plain p s = Inr (r, t) \<Longrightarrow> spent_kept s t"
  by (auto simp: CreateInvite_def Let_def split: option.splits sum.splits dest: spent_createInviteTx)

lemma spent_ApproveAccessRequest:
  assumes "ApproveAccessRequest lower sha c i plain p s = Inr (r, t)"
  shows "spent_kept s t"
proof -
  from assms obtain x s1 q y s2 z kind msg where
    d: "decide c AccessApproved (ap_org p) (ap_request p) (ap_decided_by p) s = Inr (x, s1)"
    and ci: "createInviteTx lower sha c i plain q s1 = Inr (y, s2)"
    and ev: "append_event c (ap_org p) kind (fst msg) (snd msg) (s2\<lparr>access_requests := z\<rparr>) = Inr t"
    unfolding ApproveAccessRequest_def by (auto simp: Let_def split: sum.splits)
  from rows_append_event [OF ev] have "spent_kept s2 t" by (intro spent_kept_same) simp_all
  moreover from rows_decide [OF d] have "spent_kept s s1" by (intro spent_kept_same) simp_all
  ultimately show ?thesis using spent_createInviteTx [OF ci] by (blast intro: spent_kept_trans)
qed

lemma spent_RevokeInvite:
  assumes "RevokeInvite c og i s = Inr (u, t)"
  shows "spent_kept s t"
proof -
  from assms have "t = s\<lparr>operator_invites := update_where (\<lambda>x. inv_id x = i \<and> inv_org x = og \<and> open_invite x)
      (\<lambda>x. x\<lparr>inv_revoked_at := Some (now c)\<rparr>) (operator_invites s) @ []\<rparr>"
    by (auto simp: RevokeInvite_def Let_def split: if_splits)
  then show ?thesis by (simp only:) (rule spent_invites, simp add: open_invite_def)
qed

text \<open>What \<open>admit\<close> does, once the invitation is claimed.\<close>

lemma admit_ok:
  assumes "admit lower sha c f i nm s = Inr ((r, tok, plain), t)"
  obtains s2 s4 s5 where
    "upsert_operator lower c (rf_operator f) (inv_email i) s = Inr (r, s2)" "opr_disabled_at r = None"
    "tok = new_token c (rf_token f) (opr_id r) (sha (rf_plain f)) nm None" "plain = rf_plain f"
    "join_if_absent c (inv_org i) (opr_id r) (inv_role i)
       (s2\<lparr>operator_invites := update_where (\<lambda>x. inv_hash x = inv_hash i)
          (\<lambda>x. x\<lparr>inv_redeemed_by := Some (opr_id r)\<rparr>) (operator_invites s2)\<rparr>) = Inr s4"
    "insert_token tok s4 = Inr s5" "operators t = operators s5" "operator_tokens t = operator_tokens s5"
    "organization_members t = organization_members s5" "operator_invites t = operator_invites s5"
proof -
  from assms obtain s2 where up: "upsert_operator lower c (rf_operator f) (inv_email i) s = Inr (r, s2)"
    and live: "opr_disabled_at r = None" and tok: "tok = new_token c (rf_token f) (opr_id r) (sha (rf_plain f)) nm None"
    and plain: "plain = rf_plain f"
    by (auto simp: admit_def Let_def split: sum.splits if_splits)
  from assms obtain s4 s5 og kind msg q where
    j: "join_if_absent c (inv_org i) (opr_id r) (inv_role i)
       (s2\<lparr>operator_invites := update_where (\<lambda>x. inv_hash x = inv_hash i)
          (\<lambda>x. x\<lparr>inv_redeemed_by := Some (opr_id r)\<rparr>) (operator_invites s2)\<rparr>) = Inr s4"
    and ins: "insert_token tok s4 = Inr s5" and ev: "append_event c og kind msg q s5 = Inr t"
    unfolding admit_def up tok by (auto simp: Let_def split: sum.splits if_splits)
  from ev that [OF up live tok plain j ins] show ?thesis by (auto elim!: append_event_ok)
qed

lemma rows_join_if_absent:
  "join_if_absent c og opr role s = Inr t \<Longrightarrow> operators t = operators s \<and> operator_invites t = operator_invites s \<and>
     operator_tokens t = operator_tokens s"
  by (auto simp: join_if_absent_def split: if_splits dest: insert_member_ok)

lemma RedeemInvite_ok:
  assumes "RedeemInvite lower sha c f plain nm s = Inr (r, t)"
  obtains i n where "plain \<noteq> []" "find_row (claimable_invite c (sha plain)) (operator_invites s) = Some i"
    "admit lower sha c f i n (s\<lparr>operator_invites := update_where (claimable_invite c (sha plain))
       (\<lambda>x. x\<lparr>inv_redeemed_at := Some (now c)\<rparr>) (operator_invites s)\<rparr>) = Inr (r, t)"
  using assms by (auto simp: RedeemInvite_def Let_def split: if_splits option.splits)

lemma spent_admit:
  assumes "admit lower sha c f i nm s = Inr (r, t)"
  shows "spent_kept s t"
proof -
  obtain r1 tok plain where "r = (r1, tok, plain)" by (metis prod_cases3)
  with assms have "admit lower sha c f i nm s = Inr ((r1, tok, plain), t)" by simp
  then show ?thesis
  proof (rule admit_ok)
    fix s2 s4 s5 :: control
    let ?s3 = "s2\<lparr>operator_invites := update_where (\<lambda>x. inv_hash x = inv_hash i)
          (\<lambda>x. x\<lparr>inv_redeemed_by := Some (opr_id r1)\<rparr>) (operator_invites s2) @ []\<rparr>"
    assume up: "upsert_operator lower c (rf_operator f) (inv_email i) s = Inr (r1, s2)"
      and j: "join_if_absent c (inv_org i) (opr_id r1) (inv_role i)
       (s2\<lparr>operator_invites := update_where (\<lambda>x. inv_hash x = inv_hash i)
          (\<lambda>x. x\<lparr>inv_redeemed_by := Some (opr_id r1)\<rparr>) (operator_invites s2)\<rparr>) = Inr s4"
      and ins: "insert_token tok s4 = Inr s5" and t: "operators t = operators s5" "operator_invites t = operator_invites s5"
    have "spent_kept s2 ?s3" by (rule spent_invites) (simp add: open_invite_def)
    moreover from rows_join_if_absent [OF j] insert_token_ok [OF ins] t have "spent_kept ?s3 t"
      by (intro spent_kept_same) simp_all
    ultimately show "spent_kept s t" using spent_upsert_operator [OF up] by (blast intro: spent_kept_trans)
  qed
qed

lemma spent_RedeemInvite:
  assumes "RedeemInvite lower sha c f plain nm s = Inr (r, t)"
  shows "spent_kept s t"
  using assms
proof (rule RedeemInvite_ok)
  fix i n
  assume ad: "admit lower sha c f i n (s\<lparr>operator_invites := update_where (claimable_invite c (sha plain))
       (\<lambda>x. x\<lparr>inv_redeemed_at := Some (now c)\<rparr>) (operator_invites s)\<rparr>) = Inr (r, t)"
  have "spent_kept s (s\<lparr>operator_invites := update_where (claimable_invite c (sha plain))
       (\<lambda>x. x\<lparr>inv_redeemed_at := Some (now c)\<rparr>) (operator_invites s) @ []\<rparr>)"
    by (rule spent_invites) (simp add: open_invite_def)
  with spent_admit [OF ad] show ?thesis by (auto intro: spent_kept_trans)
qed

lemmas spent_rows = rows_unchanged rows_DeclineAccessRequest rows_CreateAccessRequest

lemmas spent_ops =
  spent_DisableOperator spent_CreateOperator spent_CreateInvite spent_ApproveAccessRequest spent_RevokeInvite
  spent_RedeemInvite

lemma spent_step:
  assumes "control_step lower inet sha digest s t"
  shows "spent_kept s t"
  using assms
proof (cases rule: control_step.cases)
  case (ct_core t)
  then show ?thesis by (auto simp: cascade_logs_def intro: spent_kept_same)
next
  case (ct_present c plain)
  then show ?thesis by (auto simp: OperatorForToken_def Let_def spent_kept_same split: option.splits)
next
  case (ct_log c i pl r)
  then show ?thesis using logs_only(1) by (metis spent_kept_same control.ext_inject control.surjective control.update_convs(8))
next
  case (ct_log_done c nd i why u)
  then show ?thesis by (auto simp: CompleteLogRequest_def Let_def spent_kept_same split: if_splits)
next
  case (ct_log_close c i)
  then show ?thesis by (auto simp: CloseLogRequest_def spent_kept_same)
next
  case (ct_log_sweep c)
  then show ?thesis by (auto simp: SweepLogRequests_def spent_kept_same)
qed ((rule spent_ops, assumption) | (rule spent_kept_same; drule spent_rows; simp))+

section \<open>The invariant of reachable databases\<close>

definition reachable_control ::
  "(string \<Rightarrow> string) \<Rightarrow> (string \<Rightarrow> string option) \<Rightarrow> (string \<Rightarrow> string) \<Rightarrow> (deployment_spec \<Rightarrow> string) \<Rightarrow> control \<Rightarrow> bool" where
  "reachable_control lower inet sha digest s \<longleftrightarrow> (control_step lower inet sha digest)\<^sup>*\<^sup>* empty_control s"

lemma reachable_control_inv: "reachable_control lower inet sha digest s \<Longrightarrow> control_inv lower s"
  unfolding reachable_control_def by (rule control.reachable_inv [OF refl])

lemma spent_steps:
  assumes "(control_step lower inet sha digest)\<^sup>*\<^sup>* s t"
  shows "spent_kept s t"
  using assms
  by (induction rule: rtranclp_induct) (auto intro: spent_kept_same spent_kept_trans dest: spent_step)

text \<open>
  C28: in every database the program can reach, an address has at most one open invitation and one
  pending access request per organization, two operators never share an address, two tokens never
  share a hash, every token and membership belongs to an operator that exists, and no join token was
  used more often than it allows.
\<close>

theorem reachable_accounts:
  assumes "reachable_control lower inet sha digest s"
  shows "(\<forall>i \<in> set (operator_invites s). \<forall>j \<in> set (operator_invites s). open_invite i \<longrightarrow> open_invite j \<longrightarrow>
           inv_org i = inv_org j \<longrightarrow> lower (inv_email i) = lower (inv_email j) \<longrightarrow> i = j) \<and>
    (\<forall>r \<in> set (access_requests s). \<forall>q \<in> set (access_requests s). ar_state r = AccessPending \<longrightarrow>
           ar_state q = AccessPending \<longrightarrow> ar_org r = ar_org q \<longrightarrow> lower (ar_email r) = lower (ar_email q) \<longrightarrow> r = q) \<and>
    (\<forall>a \<in> set (operators s). \<forall>b \<in> set (operators s). lower (opr_email a) = lower (opr_email b) \<longrightarrow> a = b) \<and>
    (\<forall>x \<in> set (operator_tokens s). \<forall>y \<in> set (operator_tokens s). tok_hash x = tok_hash y \<longrightarrow> x = y) \<and>
    (\<forall>x \<in> set (operator_tokens s). get_operator s (tok_operator x) \<noteq> None) \<and>
    (\<forall>m \<in> set (organization_members s). get_operator s (mem_operator m) \<noteq> None \<and> get_org (core s) (mem_org m) \<noteq> None) \<and>
    (\<forall>j \<in> set (node_join_tokens s). \<forall>k. jt_max_uses j = Some k \<longrightarrow> 0 \<le> jt_uses j \<and> jt_uses j \<le> k)"
proof (intro conjI)
  from reachable_control_inv [OF assms] have inv: "accounts_inv lower s" by (simp add: control_inv_def)
  show "\<forall>i \<in> set (operator_invites s). \<forall>j \<in> set (operator_invites s). open_invite i \<longrightarrow> open_invite j \<longrightarrow>
      inv_org i = inv_org j \<longrightarrow> lower (inv_email i) = lower (inv_email j) \<longrightarrow> i = j"
    using inv by (auto simp: accounts_inv_def invite_indexes_ok_def dest: unique_onD)
  show "\<forall>r \<in> set (access_requests s). \<forall>q \<in> set (access_requests s). ar_state r = AccessPending \<longrightarrow>
      ar_state q = AccessPending \<longrightarrow> ar_org r = ar_org q \<longrightarrow> lower (ar_email r) = lower (ar_email q) \<longrightarrow> r = q"
    using inv by (auto simp: accounts_inv_def requests_inv_def is_pending_def dest: unique_onD)
  show "\<forall>a \<in> set (operators s). \<forall>b \<in> set (operators s). lower (opr_email a) = lower (opr_email b) \<longrightarrow> a = b"
    using inv by (auto simp: accounts_inv_def operators_inv_def distinct_map inj_on_def)
  show "\<forall>x \<in> set (operator_tokens s). \<forall>y \<in> set (operator_tokens s). tok_hash x = tok_hash y \<longrightarrow> x = y"
    using inv by (auto simp: accounts_inv_def tokens_inv_def distinct_map inj_on_def)
  show "\<forall>x \<in> set (operator_tokens s). get_operator s (tok_operator x) \<noteq> None"
    using inv by (auto simp: accounts_inv_def tokens_inv_def get_operator_None simp del: not_None_eq)
  show "\<forall>m \<in> set (organization_members s). get_operator s (mem_operator m) \<noteq> None \<and> get_org (core s) (mem_org m) \<noteq> None"
    using inv by (auto simp: accounts_inv_def members_inv_def get_operator_None get_org_None simp del: not_None_eq)
  show "\<forall>j \<in> set (node_join_tokens s). \<forall>k. jt_max_uses j = Some k \<longrightarrow> 0 \<le> jt_uses j \<and> jt_uses j \<le> k"
    using inv by (auto simp: accounts_inv_def joins_inv_def within_uses_def)
qed

section \<open>A disabled operator stays out\<close>

lemma find_row_unique:
  assumes "r \<in> set t" "P r" and only: "\<And>x. x \<in> set t \<Longrightarrow> P x \<Longrightarrow> x = r"
  shows "find_row P t = Some r"
proof (cases "find_row P t")
  case (Some x)
  with only find_row_SomeD [OF Some] show ?thesis by simp
qed (use assms(1,2) in \<open>auto simp: find_row_None_iff\<close>)

lemma disabled_row:
  assumes "DisableOperator c opr s = Inr (u, t)"
  obtains r where "r \<in> set (operators t)" "opr_id r = opr" "opr_disabled_at r \<noteq> None"
proof -
  from assms obtain r where r: "r \<in> set (operators s)" "opr_id r = opr"
    by (auto simp: DisableOperator_def get_operator_def split: if_splits dest!: find_row_SomeD)
  let ?r = "r\<lparr>opr_disabled_at := (case opr_disabled_at r of None \<Rightarrow> Some (now c) | Some t \<Rightarrow> Some t)\<rparr>"
  from assms r have "?r \<in> set (operators t)"
    by (auto simp: DisableOperator_def update_where_def split: if_splits)
  moreover have "opr_id ?r = opr" "opr_disabled_at ?r \<noteq> None" using r(2) by (auto split: option.split)
  ultimately show thesis by (rule that)
qed

lemma operator_ids:
  "accounts_inv lower s \<Longrightarrow> a \<in> set (operators s) \<Longrightarrow> b \<in> set (operators s) \<Longrightarrow> opr_id a = opr_id b \<Longrightarrow> a = b"
  by (auto simp: accounts_inv_def operators_inv_def distinct_map inj_on_def)

text \<open>
  C26: once an operator is disabled, no credential answers for that operator again, whatever calls are
  made afterwards, and no redemption of an invitation admits the account.
\<close>

theorem disabled_stays_out:
  assumes reach: "reachable_control lower inet sha digest s" and off: "DisableOperator c opr s = Inr ((), t)"
    and later: "(control_step lower inet sha digest)\<^sup>*\<^sup>* t v"
  shows "(\<forall>c' plain r. fst (OperatorForToken sha c' plain v) = Inr r \<longrightarrow> opr_id r \<noteq> opr) \<and>
    (\<forall>c' f plain nm r tok w. RedeemInvite lower sha c' f plain nm v = Inr ((r, tok), w) \<longrightarrow> opr_id r \<noteq> opr)"
proof (intro conjI allI impI)
  from reach off later have "reachable_control lower inet sha digest v"
    unfolding reachable_control_def by (meson ct_disable rtranclp.rtrancl_into_rtrancl rtranclp_trans)
  then have inv: "accounts_inv lower v" using reachable_control_inv control_inv_def by blast
  obtain d where d: "d \<in> set (operators v)" "opr_id d = opr" "opr_disabled_at d \<noteq> None"
    using disabled_row [OF off] spent_steps [OF later] unfolding spent_kept_def by metis
  have only: "opr_id x \<noteq> opr" if "x \<in> set (operators v)" "opr_disabled_at x = None" for x
    using d that operator_ids [OF inv that(1) d(1)] by auto
  show "opr_id r \<noteq> opr" if "fst (OperatorForToken sha c' plain v) = Inr r" for c' plain r
    using that by (intro only) (auto simp: OperatorForToken_def Let_def split: if_splits option.splits dest!: find_row_SomeD)
  fix c' f plain nm r tok w
  assume run: "RedeemInvite lower sha c' f plain nm v = Inr ((r, tok), w)"
  obtain x n where tok: "tok = (x, n)" by (cases tok)
  from run [unfolded tok] obtain i y m where "admit lower sha c' f i m (v\<lparr>operator_invites := y\<rparr>) = Inr ((r, x, n), w)"
    by (rule RedeemInvite_ok)
  then obtain s2 where "upsert_operator lower c' (rf_operator f) (inv_email i) (v\<lparr>operator_invites := y\<rparr>) = Inr (r, s2)"
    "opr_disabled_at r = None" by (rule admit_ok)
  then show "opr_id r \<noteq> opr"
    using only d by (auto simp: upsert_operator_def new_operator_def Let_def get_operator_None
        simp del: not_None_eq split: option.splits if_splits dest!: find_row_SomeD)
qed

section \<open>An invitation admits once\<close>

lemma upsert_operator_ok:
  assumes "upsert_operator lower c i email s = Inr (r, t)"
  shows "r \<in> set (operators t)" "lower (opr_email r) = lower email" "operator_tokens t = operator_tokens s"
    "organization_members t = organization_members s" "operator_invites t = operator_invites s"
  using assms by (auto simp: upsert_operator_def new_operator_def Let_def same_email_def
      split: option.splits if_splits dest!: find_row_SomeD)

lemma admit_grants:
  assumes "admit lower sha c f i nm s = Inr ((r, tok, new), t)"
  shows "r \<in> set (operators t)" "opr_disabled_at r = None" "lower (opr_email r) = lower (inv_email i)"
    "OperatorInOrg (inv_org i) (opr_id r) t"
    "\<exists>x \<in> set (operator_tokens t). tok_hash x = sha new \<and> tok_operator x = opr_id r \<and> tok_expires_at x = None"
proof -
  from assms obtain s2 y s4 s5 where
    up: "upsert_operator lower c (rf_operator f) (inv_email i) s = Inr (r, s2)" and off: "opr_disabled_at r = None"
    and tok: "tok = new_token c (rf_token f) (opr_id r) (sha (rf_plain f)) nm None" "new = rf_plain f"
    and j: "join_if_absent c (inv_org i) (opr_id r) (inv_role i) (s2\<lparr>operator_invites := y\<rparr>) = Inr s4" and ins: "insert_token tok s4 = Inr s5"
    and t: "operators t = operators s5" "operator_tokens t = operator_tokens s5"
      "organization_members t = organization_members s5"
    by (rule admit_ok)
  from ins have s5: "operators s5 = operators s4" "organization_members s5 = organization_members s4"
    "tok \<in> set (operator_tokens s5)" by (auto dest: insert_token_ok)
  from j have "OperatorInOrg (inv_org i) (opr_id r) s4" "operators s4 = operators s2"
    by (auto simp: join_if_absent_def OperatorInOrg_def is_member_def split: if_splits dest: insert_member_ok)
  with s5 t tok upsert_operator_ok [OF up] off
  show "r \<in> set (operators t)" "opr_disabled_at r = None" "lower (opr_email r) = lower (inv_email i)"
    "OperatorInOrg (inv_org i) (opr_id r) t"
    "\<exists>x \<in> set (operator_tokens t). tok_hash x = sha new \<and> tok_operator x = opr_id r \<and> tok_expires_at x = None"
    by (auto simp: OperatorInOrg_def new_token_def intro!: bexI [of _ tok])
qed

lemma present_token:
  assumes inv: "accounts_inv lower s" and r: "r \<in> set (operators s)" "opr_disabled_at r = None"
    and x: "x \<in> set (operator_tokens s)" "tok_hash x = sha plain" "tok_operator x = opr_id r" "tok_expires_at x = None"
    and some: "plain \<noteq> []"
  shows "fst (OperatorForToken sha c plain s) = Inr r"
proof -
  have same: "y = x" if "y \<in> set (operator_tokens s)" "tok_hash y = sha plain" for y
    using inv that x by (auto simp: accounts_inv_def tokens_inv_def distinct_map inj_on_def)
  have "list_ex (\<lambda>y. live_token c (sha plain) y \<and> tok_operator y = opr_id r) (operator_tokens s)"
    unfolding list_ex_iff using x by (intro bexI [of _ x]) (simp_all add: live_token_def)
  then have "find_row (\<lambda>q. opr_disabled_at q = None \<and>
      list_ex (\<lambda>y. live_token c (sha plain) y \<and> tok_operator y = opr_id q) (operator_tokens s)) (operators s) = Some r"
    using r x(3) by (intro find_row_unique)
      (auto simp: list_ex_iff live_token_def dest!: same intro: operator_ids [OF inv])
  then show ?thesis using some by (simp add: OperatorForToken_def Let_def)
qed

text \<open>
  C16: a redemption takes a plaintext whose invitation is open and not expired. It admits the operator
  with the invited address to that organization, hands out a token that authenticates as that operator,
  and uses the invitation up: after any further calls, redeeming it again is refused.
\<close>

theorem invite_admits_once:
  assumes reach: "reachable_control lower inet sha digest s"
    and run: "RedeemInvite lower sha c f plain nm s = Inr ((r, tok, new), t)"
  shows "(\<exists>i \<in> set (operator_invites s). inv_hash i = sha plain \<and> open_invite i \<and> now c < inv_expires_at i \<and>
      lower (opr_email r) = lower (inv_email i) \<and> OperatorInOrg (inv_org i) (opr_id r) t) \<and>
    (new \<noteq> [] \<longrightarrow> (\<forall>c'. fst (OperatorForToken sha c' new t) = Inr r)) \<and>
    (\<forall>v c' f' nm'. (control_step lower inet sha digest)\<^sup>*\<^sup>* t v \<longrightarrow>
      RedeemInvite lower sha c' f' plain nm' v = Inl ErrNotFound)"
proof -
  let ?s = "s\<lparr>operator_invites := update_where (claimable_invite c (sha plain))
    (\<lambda>x. x\<lparr>inv_redeemed_at := Some (now c)\<rparr>) (operator_invites s)\<rparr>"
  from run obtain i n where plain: "plain \<noteq> []"
    and i: "find_row (claimable_invite c (sha plain)) (operator_invites s) = Some i"
    and ad: "admit lower sha c f i n ?s = Inr ((r, tok, new), t)" by (rule RedeemInvite_ok)
  from find_row_SomeD [OF i] have claim: "i \<in> set (operator_invites s)" "claimable_invite c (sha plain) i" by auto
  from reach run have reach': "reachable_control lower inet sha digest t"
    unfolding reachable_control_def by (meson ct_redeem rtranclp.rtrancl_into_rtrancl)
  then have inv: "accounts_inv lower t" using reachable_control_inv control_inv_def by blast
  from claim admit_grants [OF ad] have one: "\<exists>i \<in> set (operator_invites s). inv_hash i = sha plain \<and> open_invite i \<and>
      now c < inv_expires_at i \<and> lower (opr_email r) = lower (inv_email i) \<and> OperatorInOrg (inv_org i) (opr_id r) t"
    by (auto simp: claimable_invite_def)
  from admit_grants [OF ad] have two: "fst (OperatorForToken sha c' new t) = Inr r" if "new \<noteq> []" for c'
    using that present_token [OF inv] by blast
  have three: "RedeemInvite lower sha c' f' plain nm' v = Inl ErrNotFound"
    if steps: "(control_step lower inet sha digest)\<^sup>*\<^sup>* t v" for v c' f' nm'
  proof -
    have "\<exists>x \<in> set (operator_invites ?s). inv_hash x = sha plain \<and> \<not> open_invite x"
      using claim(2)
      by (intro bexI [of _ "i\<lparr>inv_redeemed_at := Some (now c)\<rparr>"])
        (simp_all add: open_invite_def claimable_invite_def in_update_where,
         intro bexI [OF _ claim(1)], simp)
    with spent_kept_trans [OF spent_admit [OF ad] spent_steps [OF steps]]
    obtain x where x: "x \<in> set (operator_invites v)" "inv_hash x = sha plain" "\<not> open_invite x"
      unfolding spent_kept_def by metis
    from reach' steps have "accounts_inv lower v"
      unfolding reachable_control_def using reachable_control_inv control_inv_def
      by (metis reachable_control_def rtranclp_trans)
    with x have "find_row (claimable_invite c' (sha plain)) (operator_invites v) = None"
      by (auto simp: find_row_None_iff claimable_invite_def accounts_inv_def invite_indexes_ok_def distinct_map inj_on_def)
    with plain show ?thesis by (simp add: RedeemInvite_def map_result_def mapErr_def)
  qed
  from one two three show ?thesis by blast
qed

section \<open>A join token admits as many machines as it allows\<close>

text \<open>The organizations that successive attempts to join with one plaintext are let into.\<close>

fun join_attempts :: "(string \<Rightarrow> string) \<Rightarrow> string \<Rightarrow> call list \<Rightarrow> control \<Rightarrow> uuid option list" where
  "join_attempts sha plain [] s = []"
| "join_attempts sha plain (c # cs) s =
     (case RedeemJoinToken sha c plain s of
        Inl e \<Rightarrow> None # join_attempts sha plain cs s
      | Inr (org1, t) \<Rightarrow> Some org1 # join_attempts sha plain cs t)"

definition unexpired :: "call \<Rightarrow> join_token \<Rightarrow> bool" where
  "unexpired c j = (case jt_expires_at j of None \<Rightarrow> True | Some x \<Rightarrow> x > now c)"

lemma redeem_join_once:
  assumes inv: "joins_inv (node_join_tokens s)" and j: "j \<in> set (node_join_tokens s)" "jt_hash j = sha plain"
    and live: "unexpired c j" and k: "jt_max_uses j = Some k" and plain: "plain \<noteq> []"
  shows "RedeemJoinToken sha c plain s =
    (if jt_uses j < k
     then Inr (jt_org j, s\<lparr>node_join_tokens := update_where (redeemable c (sha plain))
            (\<lambda>x. x\<lparr>jt_uses := jt_uses x + 1\<rparr>) (node_join_tokens s)\<rparr>)
     else Inl ErrNotFound)"
proof -
  have same: "x = j" if "x \<in> set (node_join_tokens s)" "jt_hash x = sha plain" for x
    using inv j that by (auto simp: joins_inv_def distinct_map inj_on_def)
  from inv j(1) k have fits: "in_i32 (jt_uses j + 1)" if "jt_uses j < k"
    using that by (auto simp: joins_inv_def within_uses_def in_i32_def)
  show ?thesis
  proof (cases "jt_uses j < k")
    case True
    have "find_row (redeemable c (sha plain)) (node_join_tokens s) = Some j"
      using True j live k by (intro find_row_unique) (auto simp: redeemable_def unexpired_def dest: same)
    with True fits plain show ?thesis by (simp add: RedeemJoinToken_def)
  next
    case False
    then have "find_row (redeemable c (sha plain)) (node_join_tokens s) = None"
      using k by (auto simp: find_row_None_iff redeemable_def dest!: same)
    with False plain show ?thesis by (simp add: RedeemJoinToken_def)
  qed
qed

lemma join_attempts_exact:
  assumes "joins_inv (node_join_tokens s)" "j \<in> set (node_join_tokens s)" "jt_hash j = sha plain"
    "\<forall>c \<in> set cs. unexpired c j" "jt_max_uses j = Some k" "plain \<noteq> []"
  shows "join_attempts sha plain cs s =
    replicate (min (length cs) (nat (k - jt_uses j))) (Some (jt_org j)) @
    replicate (length cs - nat (k - jt_uses j)) None"
  using assms
proof (induction cs arbitrary: s j)
  case (Cons c cs)
  from Cons.prems(4) have live: "unexpired c j" by simp
  note once = redeem_join_once [of s j sha plain c k, OF Cons.prems(1-3) live Cons.prems(5,6)]
  show ?case
  proof (cases "jt_uses j < k")
    case True
    let ?j = "j\<lparr>jt_uses := jt_uses j + 1\<rparr>"
    let ?t = "update_where (redeemable c (sha plain)) (\<lambda>x. x\<lparr>jt_uses := jt_uses x + 1\<rparr>) (node_join_tokens s)"
    have "redeemable c (sha plain) j"
      using True Cons.prems(3,5) live by (auto simp: redeemable_def unexpired_def)
    then have mem: "?j \<in> set ?t" using Cons.prems(2) by (auto simp: in_update_where intro!: bexI [of _ j])
    have IH: "join_attempts sha plain cs (s\<lparr>node_join_tokens := ?t\<rparr>) =
        replicate (min (length cs) (nat (k - jt_uses ?j))) (Some (jt_org ?j)) @
        replicate (length cs - nat (k - jt_uses ?j)) None"
      by (rule Cons.IH) (use Cons.prems mem in \<open>simp_all add: joins_inv_redeem unexpired_def\<close>)
    have "nat (k - jt_uses j) = Suc (nat (k - (jt_uses j + 1)))" using True by simp
    with IH True once show ?thesis by simp
  next
    case False
    have "join_attempts sha plain cs s =
        replicate (min (length cs) (nat (k - jt_uses j))) (Some (jt_org j)) @
        replicate (length cs - nat (k - jt_uses j)) None"
      by (rule Cons.IH) (use Cons.prems in simp_all)
    with once False show ?thesis by simp
  qed
qed simp

text \<open>
  C27: of any number of attempts to join with a token that allows \<open>k\<close> uses and has \<open>jt_uses\<close> behind
  it, made before it expires, exactly the first \<open>k - jt_uses\<close> are admitted, each to the token's
  organization, and every one after them is refused.
\<close>

theorem join_token_admits_its_quota:
  assumes reach: "reachable_control lower inet sha digest s"
    and j: "j \<in> set (node_join_tokens s)" "jt_hash j = sha plain" "jt_max_uses j = Some k"
    and live: "\<forall>c \<in> set cs. unexpired c j" and plain: "plain \<noteq> []"
  shows "join_attempts sha plain cs s =
    replicate (min (length cs) (nat (k - jt_uses j))) (Some (jt_org j)) @
    replicate (length cs - nat (k - jt_uses j)) None"
  using reachable_control_inv [OF reach] j live plain
  by (intro join_attempts_exact) (auto simp: control_inv_def accounts_inv_def)

section \<open>An example\<close>

text \<open>
  An organization that invites one operator and issues one join token for two machines; the operator
  redeems the invitation.
\<close>

definition ex_lower :: "string \<Rightarrow> string" where
  "ex_lower s = s"

definition ok_control :: "store_error + ('a \<times> control) \<Rightarrow> control" where
  "ok_control r = (case r of Inl e \<Rightarrow> empty_control | Inr (x, t) \<Rightarrow> t)"

definition ex_org :: control where
  "ex_org = cascade_logs (empty_control\<lparr>core := ok_db op1\<rparr>)"

definition ex_invite_params :: create_invite_params where
  "ex_invite_params = \<lparr>ci_org = ''o1'', ci_email = ''ada@acme.io'', ci_role = [], ci_ttl = 0, ci_invited_by = None\<rparr>"

definition ex_join_params :: create_join_token_params where
  "ex_join_params = \<lparr>cj_org = ''o1'', cj_name = [], cj_expires_at = None, cj_max_uses = Some 2, cj_created_by = None\<rparr>"

definition ex_fresh :: redeem_fresh where
  "ex_fresh = \<lparr>rf_operator = ''u1'', rf_token = ''k1'', rf_plain = ''secret''\<rparr>"

definition "ac1 = CreateJoinToken ex_sha ex_call ''j1'' ''join'' ex_join_params ex_org"
definition "ac2 = CreateInvite ex_lower ex_sha ex_call ''i1'' ''hello'' ex_invite_params (ok_control ac1)"
definition "ac3 = RedeemInvite ex_lower ex_sha ex_call ex_fresh ''hello'' [] (ok_control ac2)"
definition "ac4 = DisableOperator ex_call ''u1'' (ok_control ac3)"

lemma acs_succeed: "succeeded ac1" "succeeded ac2" "succeeded ac3" "succeeded ac4"
  subgoal by code_simp
  subgoal by code_simp
  subgoal by code_simp
  subgoal by code_simp
  done

lemma succeeded_control: "succeeded r \<Longrightarrow> \<exists>x. r = Inr (x, ok_control r)"
  by (cases r) (auto simp: succeeded_def ok_control_def)

abbreviation ex_control_reach :: "control \<Rightarrow> bool" where
  "ex_control_reach s \<equiv> reachable_control ex_lower ex_inet ex_sha ex_digest s"

lemma reach_control:
  assumes "ex_control_reach s" "succeeded r" "\<And>x t. r = Inr (x, t) \<Longrightarrow> control_step ex_lower ex_inet ex_sha ex_digest s t"
  shows "ex_control_reach (ok_control r)"
proof -
  obtain x where "r = Inr (x, ok_control r)" using succeeded_control [OF assms(2)] by blast
  from assms(1) assms(3) [OF this] show ?thesis
    unfolding reachable_control_def by (rule rtranclp.rtrancl_into_rtrancl)
qed

lemma ex_control_reach_2: "ex_control_reach (ok_control ac2)"
proof -
  have "store_step ex_inet ex_sha ex_digest (core empty_control) (ok_db op1)"
    using succeeded_ok [OF ops_succeed(1)] unfolding op1_def by (auto simp: empty_control_def intro: st_org)
  from ct_core [OF this] have "ex_control_reach ex_org"
    unfolding reachable_control_def ex_org_def by (rule r_into_rtranclp)
  then have "ex_control_reach (ok_control ac1)"
    by (rule reach_control [OF _ acs_succeed(1)]) (unfold ac1_def, erule ct_join)
  then show ?thesis by (rule reach_control [OF _ acs_succeed(2)]) (unfold ac2_def, erule ct_invite)
qed

lemma ex_control_reach_3: "ex_control_reach (ok_control ac3)"
  by (rule reach_control [OF ex_control_reach_2 acs_succeed(3)]) (unfold ac3_def, erule ct_redeem)

theorem reachable_accounts_witness:
  "list_all (\<lambda>x. get_operator (ok_control ac3) (tok_operator x) \<noteq> None) (operator_tokens (ok_control ac3)) \<and>
   length (operator_tokens (ok_control ac3)) = 1"
proof
  from reachable_accounts [OF ex_control_reach_3]
  show "list_all (\<lambda>x. get_operator (ok_control ac3) (tok_operator x) \<noteq> None) (operator_tokens (ok_control ac3))"
    unfolding list_all_iff by (elim conjE)
qed code_simp

theorem disabled_stays_out_witness:
  "(\<nexists>r. fst (OperatorForToken ex_sha ex_call ''secret'' (ok_control ac4)) = Inr r \<and> opr_id r = ''u1'') \<and>
   map_sum id opr_id (fst (OperatorForToken ex_sha ex_call ''secret'' (ok_control ac3))) = Inr ''u1''"
proof
  have "DisableOperator ex_call ''u1'' (ok_control ac3) = Inr ((), ok_control ac4)"
    using succeeded_control [OF acs_succeed(4)] unfolding ac4_def by simp
  from disabled_stays_out [OF ex_control_reach_3 this rtranclp.rtrancl_refl]
  show "\<nexists>r. fst (OperatorForToken ex_sha ex_call ''secret'' (ok_control ac4)) = Inr r \<and> opr_id r = ''u1''" by blast
qed code_simp

theorem invite_admits_once_witness:
  "fst (OperatorForToken ex_sha ex_call ''secret'' (ok_control ac3)) \<noteq> Inl ErrNotFound \<and>
   RedeemInvite ex_lower ex_sha ex_call ex_fresh ''hello'' [] (ok_control ac3) = Inl ErrNotFound"
proof -
  obtain r tok new where ac3: "ac3 = Inr ((r, tok, new), ok_control ac3)"
    using succeeded_control [OF acs_succeed(3)] by (metis prod_cases3)
  have "(case ac3 of Inl e \<Rightarrow> [] | Inr ((r, tok, new), t) \<Rightarrow> new) = ''secret''" by code_simp
  with arg_cong [OF ac3, of "\<lambda>x. case x of Inl e \<Rightarrow> [] | Inr ((r, tok, new), t) \<Rightarrow> new"]
  have "new = ''secret''" by simp
  with ac3 have run: "RedeemInvite ex_lower ex_sha ex_call ex_fresh ''hello'' [] (ok_control ac2)
      = Inr ((r, tok, ''secret''), ok_control ac3)" unfolding ac3_def by simp
  from invite_admits_once [OF ex_control_reach_2 run] show ?thesis by (auto simp: rtranclp.rtrancl_refl)
qed

theorem join_token_admits_its_quota_witness:
  "join_attempts ex_sha ''join'' [ex_call, ex_call, ex_call] (ok_control ac3) = [Some ''o1'', Some ''o1'', None]"
proof -
  have "map (\<lambda>j. (jt_hash j, jt_max_uses j, jt_uses j, jt_org j, jt_expires_at j)) (node_join_tokens (ok_control ac3)) =
      [(ex_sha ''join'', Some 2, 0, ''o1'', None)]" by code_simp
  then obtain j where j: "j \<in> set (node_join_tokens (ok_control ac3))" "jt_hash j = ex_sha ''join''"
    "jt_max_uses j = Some 2" "jt_uses j = 0" "jt_org j = ''o1''" "jt_expires_at j = None" by auto
  have "\<forall>c \<in> set [ex_call, ex_call, ex_call]. unexpired c j" by (simp add: unexpired_def j)
  from join_token_admits_its_quota [OF ex_control_reach_3 j(1-3) this] j(4,5) show ?thesis
    by (simp add: numeral_2_eq_2)
qed

end
