(* ===== verification/Api_Steps.thy ===== *)
theory Api_Steps
  imports Api_Access Account_Properties
begin

text \<open>
  What a request does to the database is a sequence of store calls: serving it is a run of the
  transition system of the whole database. Every invariant of reachable databases therefore holds of a
  server that has served any requests, whoever sent them.
\<close>

section \<open>Replies and what they do to the database\<close>

definition stays :: "(control \<Rightarrow> control \<Rightarrow> bool) \<Rightarrow> reply \<Rightarrow> world \<Rightarrow> bool" where
  "stays R f w \<longleftrightarrow> R (ctl w) (ctl (snd (f w)))"

text \<open>
  Handlers are composed of a few combinators. A relation between databases that is reflexive and
  transitive holds across a handler when it holds across each of its writes.
\<close>

locale reply_relation =
  fixes R :: "control \<Rightarrow> control \<Rightarrow> bool"
  assumes refl: "R s s" and trans: "R s t \<Longrightarrow> R t u \<Longrightarrow> R s u"
begin

lemma stays_send: "stays R (send c p) w"
  by (simp add: stays_def send_def refl)

lemma stays_refuse: "stays R (refuse r) w"
  by (simp add: stays_def refuse_def refl)

lemma stays_read: "stays R (\<lambda>w. send c (p w) w) w"
  by (simp add: stays_def send_def refl)

lemma stays_with_id: "(\<And>i. pathUUID h n = Inr i \<Longrightarrow> stays R (k i) w) \<Longrightarrow> stays R (with_id h n k) w"
  by (auto simp: stays_def with_id_def refl split: sum.splits)

lemma stays_checked: "(auth (ctl w) = None \<Longrightarrow> stays R k w) \<Longrightarrow> stays R (checked auth k) w"
  by (auto simp: stays_def checked_def refl split: option.splits)

lemma stays_with_body: "(\<And>v. stays R (k v) w) \<Longrightarrow> stays R (with_body b k) w"
  by (auto simp: stays_def with_body_def refl split: option.splits)

lemma stays_optional_body: "(\<And>v. stays R (k v) w) \<Longrightarrow> stays R (optional_body h b z k) w"
  by (auto simp: optional_body_def intro: stays_with_body)

lemma stays_fetch: "(\<And>v. f (ctl w) = Inr v \<Longrightarrow> stays R (k v) w) \<Longrightarrow> stays R (fetch f k) w"
  by (auto simp: stays_def fetch_def refl split: sum.splits)

lemma stays_commit:
  assumes "\<And>v s. f (ctl w) = Inr (v, s) \<Longrightarrow> R (ctl w) s"
    and "\<And>v s. f (ctl w) = Inr (v, s) \<Longrightarrow> stays R (k v) (w\<lparr>ctl := s\<rparr>)"
  shows "stays R (commit f k) w"
proof (cases "f (ctl w)")
  case (Inl e)
  then show ?thesis by (simp add: stays_def commit_def refl)
next
  case (Inr x)
  obtain v s where "x = (v, s)" by (cases x)
  with assms [of v s] Inr show ?thesis by (auto simp: stays_def commit_def intro: trans)
qed

lemma stays_prod: "(\<And>a b. v = (a, b) \<Longrightarrow> stays R (k a b) w) \<Longrightarrow> stays R (case v of (a, b) \<Rightarrow> k a b) w"
  by (cases v) simp

lemma stays_if: "(b \<Longrightarrow> stays R f w) \<Longrightarrow> (\<not> b \<Longrightarrow> stays R g w) \<Longrightarrow> stays R (if b then f else g) w"
  by simp

lemma stays_option:
  "(v = None \<Longrightarrow> stays R f w) \<Longrightarrow> (\<And>a. v = Some a \<Longrightarrow> stays R (k a) w) \<Longrightarrow>
     stays R (case v of None \<Rightarrow> f | Some a \<Rightarrow> k a) w"
  by (cases v) simp_all

lemma stays_sum:
  "(\<And>e. v = Inl e \<Longrightarrow> stays R (f e) w) \<Longrightarrow> (\<And>a. v = Inr a \<Longrightarrow> stays R (k a) w) \<Longrightarrow>
     stays R (case v of Inl e \<Rightarrow> f e | Inr a \<Rightarrow> k a) w"
  by (cases v) simp_all

lemma stays_list:
  "(v = [] \<Longrightarrow> stays R f w) \<Longrightarrow> (\<And>a b. v = a # b \<Longrightarrow> stays R (k a b) w) \<Longrightarrow>
     stays R (case v of [] \<Rightarrow> f | a # b \<Rightarrow> k a b) w"
  by (cases v) simp_all

lemma stays_identity:
  "(\<And>r. v = Some (IdOperator r) \<Longrightarrow> stays R (k r) w) \<Longrightarrow> stays R f w \<Longrightarrow>
     stays R (case v of Some (IdOperator r) \<Rightarrow> k r | _ \<Rightarrow> f) w"
  by (auto split: option.splits identity.splits)

lemma stays_as_operator: "(\<And>r. hid h = Some (IdOperator r) \<Longrightarrow> stays R (k r) w) \<Longrightarrow> stays R (as_operator h k) w"
  unfolding as_operator_def by (intro stays_identity stays_refuse)

lemma stays_mail: "stays R (\<lambda>w. case mail_invite h org i u (ctl w) of (a, b) \<Rightarrow> send c (p a b) w) w"
  by (simp add: stays_def send_def refl split: prod.splits)

lemma stays_commit_state: "stays R (commit (f w) k) w \<Longrightarrow> stays R (\<lambda>v. commit (f v) k v) w"
  by (simp add: stays_def)

lemma stays_pick_version: "(\<And>i. stays R (k i) w) \<Longrightarrow> stays R (pick_version h n st k) w"
  unfolding pick_version_def by (intro stays_if stays_option stays_refuse stays_fetch)

lemma stays_need_secrets: "stays R k w \<Longrightarrow> stays R (need_secrets m sp have k) w"
  by (auto simp: stays_def need_secrets_def Let_def refl)

lemma stays_secret_source: "(\<And>v. stays R (k v) w) \<Longrightarrow> stays R (secret_source st n k) w"
  unfolding secret_source_def by (intro stays_if stays_fetch)

lemma stays_find_or_create:
  assumes "\<And>r s. CreateOperator (x_lower (hx h)) (caller h) (r_id (hr h)) email name (ctl w) = Inr (r, s) \<Longrightarrow> R (ctl w) s"
    and "\<And>r s v t. CreateOperator (x_lower (hx h)) (caller h) (r_id (hr h)) email name (ctl w) = Inr (r, s) \<Longrightarrow>
      IssueOperatorToken (x_sha (hx h)) (caller h) (r_id2 (hr h)) (r_plain (hr h)) (opr_id r) ''initial'' None s = Inr (v, t) \<Longrightarrow> R s t"
    and "\<And>v w. stays R (k v) w"
  shows "stays R (find_or_create_operator h email name k) w"
proof (cases "GetOperatorByEmail (x_lower (hx h)) email (ctl w)")
  case (Inl e)
  have "stays R (commit (CreateOperator (x_lower (hx h)) (caller h) (r_id (hr h)) email name) (\<lambda>r.
      commit (IssueOperatorToken (x_sha (hx h)) (caller h) (r_id2 (hr h)) (r_plain (hr h)) (opr_id r) ''initial'' None)
        (\<lambda>(t, plain). k (r, plain)))) w"
    using assms by (intro stays_commit stays_prod) auto
  with Inl show ?thesis by (auto simp: stays_def find_or_create_operator_def refl)
next
  case (Inr r)
  with assms(3) show ?thesis by (simp add: stays_def find_or_create_operator_def)
qed

lemmas stays_rules =
  stays_send stays_refuse stays_read stays_with_id stays_checked stays_with_body stays_optional_body stays_fetch
  stays_commit stays_prod stays_if stays_option stays_sum stays_list stays_identity stays_as_operator
  stays_pick_version stays_need_secrets stays_secret_source stays_find_or_create
  stays_mail

lemma stays_reads:
  "stays R (handleHealth h) w" "stays R (handleMetrics h) w" "stays R (handleListEvents h) w"
  "stays R (handleValidate h) w" "stays R (handleListApps h) w" "stays R (handleListStacks h) w"
  "stays R (handleGetStack h) w" "stays R (handleGetEnv h) w" "stays R (handleListStackVersions h) w"
  "stays R (handleListEnvs h) w" "stays R (handleListOrgEnvs h) w" "stays R (handleGetDeployment h) w"
  "stays R (handleListDeployments h) w" "stays R (handleDesiredState h) w" "stays R (handleGetNode h) w"
  "stays R (handleListNodes h) w" "stays R (handleListJoinTokens h) w" "stays R (handleNodeRoutes h) w"
  "stays R (handleListSecrets h) w" "stays R (handleWhoami h) w" "stays R (handleListMembers h) w"
  "stays R (handleListTokens h) w" "stays R (handleListInvites h) w" "stays R (handleListAccessRequests h) w"
  unfolding handleHealth_def handleMetrics_def handleListEvents_def handleValidate_def handleListApps_def
  handleListStacks_def handleGetStack_def handleGetEnv_def handleListStackVersions_def handleListEnvs_def
  handleListOrgEnvs_def handleGetDeployment_def handleListDeployments_def handleDesiredState_def
  handleGetNode_def handleListNodes_def handleListJoinTokens_def handleNodeRoutes_def handleListSecrets_def
  handleWhoami_def handleListMembers_def handleListTokens_def handleListInvites_def
  handleListAccessRequests_def addressed_def
  by (intro stays_rules)+

lemma stays_world_read: "stays R (handleListOrgs h) w" "stays R (read_logs h i l n) w"
  by (auto simp: stays_def handleListOrgs_def read_logs_def send_def refl split: option.splits prod.splits)

lemma stays_get_logs: "stays R (handleGetLogs h) w"
  unfolding handleGetLogs_def addressed_def Let_def by (intro stays_rules stays_world_read)

lemmas stays_all_reads = stays_reads stays_world_read(1) stays_get_logs

end

section \<open>Runs of the transition system\<close>

definition runs :: "outside \<Rightarrow> control \<Rightarrow> control \<Rightarrow> bool" where
  "runs x = (control_step (x_lower x) (x_inet x) (x_sha x) (x_digest x))\<^sup>*\<^sup>*"

interpretation runs: reply_relation "runs x" for x
  by unfold_locales (auto simp: runs_def)

lemma runs_step: "control_step (x_lower x) (x_inet x) (x_sha x) (x_digest x) s t \<Longrightarrow> runs x s t"
  by (auto simp: runs_def)

lemma runs_core:
  assumes "in_core f s = Inr (v, t)" "\<And>u. f (core s) = Inr (v, u) \<Longrightarrow> store_step (x_inet x) (x_sha x) (x_digest x) (core s) u"
  shows "runs x s t"
  using assms by (auto simp: in_core_def split: sum.splits intro!: runs_step ct_core)

lemmas core_runs =
  runs_core [OF _ st_org] runs_core [OF _ st_app] runs_core [OF _ st_stack] runs_core [OF _ st_version]
  runs_core [OF _ st_env] runs_core [OF _ st_preview] runs_core [OF _ st_deploy] runs_core [OF _ st_rollback]
  runs_core [OF _ st_promote] runs_core [OF _ st_release] runs_core [OF _ st_register] runs_core [OF _ st_heartbeat]
  runs_core [OF _ st_drain] runs_core [OF _ st_uncordon] runs_core [OF _ st_rotate] runs_core [OF _ st_set_secret]
  runs_core [OF _ st_del_secret] runs_core [OF _ st_report]

lemmas account_runs =
  ct_operator [THEN runs_step] ct_issue [THEN runs_step] ct_revoke [THEN runs_step] ct_add_member [THEN runs_step]
  ct_remove_member [THEN runs_step] ct_join [THEN runs_step] ct_revoke_join [THEN runs_step] ct_redeem_join [THEN runs_step]
  ct_invite [THEN runs_step] ct_redeem [THEN runs_step] ct_revoke_invite [THEN runs_step] ct_request [THEN runs_step]
  ct_approve [THEN runs_step] ct_decline [THEN runs_step] ct_log [THEN runs_step] ct_log_done [THEN runs_step]

lemmas handler_runs = runs.stays_rules core_runs account_runs

lemma runs_catalog:
  "stays (runs (hx h)) (handleCreateOrg h) w" "stays (runs (hx h)) (handleCreateApp h) w"
  "stays (runs (hx h)) (handleCreateStack h) w" "stays (runs (hx h)) (handleCreateStackVersion h) w"
  "stays (runs (hx h)) (handleCreateEnv h) w"
  unfolding handleCreateOrg_def handleCreateApp_def handleCreateStack_def handleCreateStackVersion_def handleCreateEnv_def
    addressed_def
  by (intro runs.stays_rules; erule core_runs account_runs; assumption)+

lemma runs_deployments:
  "stays (runs (hx h)) (handleCreateDeployment h) w" "stays (runs (hx h)) (handlePromote h) w"
  "stays (runs (hx h)) (handleRollback h) w"
  unfolding handleCreateDeployment_def handlePromote_def handleRollback_def addressed_def Let_def
  by (intro runs.stays_rules; erule core_runs account_runs; assumption)+

lemma runs_secrets:
  "stays (runs (hx h)) (handleSetSecret h) w" "stays (runs (hx h)) (handleDeleteSecret h) w"
  unfolding handleSetSecret_def handleDeleteSecret_def addressed_def
  by (intro runs.stays_rules; erule core_runs account_runs; assumption)+

lemma runs_nodes:
  "stays (runs (hx h)) (handleHeartbeat h) w" "stays (runs (hx h)) (handleRotateNodeRecipient h) w"
  "stays (runs (hx h)) (handleUncordonNode h) w" "stays (runs (hx h)) (handleCreateJoinToken h) w"
  "stays (runs (hx h)) (handleRevokeJoinToken h) w"
  unfolding handleHeartbeat_def handleRotateNodeRecipient_def handleUncordonNode_def handleCreateJoinToken_def
    handleRevokeJoinToken_def addressed_def
  by (intro runs.stays_rules; erule core_runs account_runs; assumption)+

lemma runs_tokens_and_members:
  "stays (runs (hx h)) (handleRemoveMember h) w" "stays (runs (hx h)) (handleCreateToken h) w"
  "stays (runs (hx h)) (handleRevokeToken h) w" "stays (runs (hx h)) (handleRevokeInvite h) w"
  "stays (runs (hx h)) (handleRedeemInvite h) w" "stays (runs (hx h)) (handleDeclineAccessRequest h) w"
  "stays (runs (hx h)) (handleCreateLogRequest h) w"
  unfolding handleRemoveMember_def handleCreateToken_def handleRevokeToken_def handleRevokeInvite_def
    handleRedeemInvite_def handleDeclineAccessRequest_def handleCreateLogRequest_def addressed_def
  by (intro runs.stays_rules; erule core_runs account_runs; assumption)+

lemma runs_invitations:
  "stays (runs (hx h)) (handleCreateInvite h) w" "stays (runs (hx h)) (handleApproveAccessRequest h) w"
  unfolding handleCreateInvite_def handleApproveAccessRequest_def addressed_def
  by (intro runs.stays_rules; erule core_runs account_runs; assumption)+

lemma runs_CreateAccessRequest: "stays (runs (hx h)) (handleCreateAccessRequest h) w"
proof -
  have "stays (runs (hx h)) (with_body (b_access (bd h)) (\<lambda>(email, name, note).
      commit (CreateAccessRequest (x_lower (hx h)) (caller h) (r_id (hr h))
          \<lparr>ca_org = og, ca_email = email, ca_name = name, ca_note = note\<rparr>)
        (\<lambda>_. send 202 (PStatus ''received'')))) w" for og
    by (intro runs.stays_rules; erule account_runs)
  then show ?thesis
    by (auto simp: stays_def handleCreateAccessRequest_def runs.refl split: sum.splits)
qed

lemma runs_CreatePreview: "stays (runs (hx h)) (handleCreatePreview h) w"
  unfolding handleCreatePreview_def addressed_def Let_def
  by (intro runs.stays_rules runs.stays_commit_state; erule core_runs; assumption)

lemma runs_RegisterNode: "stays (runs (hx h)) (handleRegisterNode h) w"
proof -
  have "stays (runs (hx h)) (commit (in_core (RegisterNode (x_inet (hx h)) (x_sha (hx h)) (caller h) (r_id (hr h))
      (r_plain (hr h)) p)) (\<lambda>(n, issued). send 201 (PNode n issued))) w" for p
    by (intro runs.stays_rules; erule core_runs; assumption)
  then show ?thesis
    by (auto simp: stays_def handleRegisterNode_def with_body_def runs.refl split: option.splits sum.splits)
qed

lemma runs_report_all: "stays (runs (hx h)) (report_all h nd is) w"
proof (induction "is" arbitrary: w)
  case (Cons i rest w)
  have "runs (hx h) (ctl w) s" if "in_core (report_one h nd i) (ctl w) = Inr (u, s)" for u s
    using that by (rule runs_core) (auto simp: report_one_def split: option.splits intro: st_report)
  moreover have "runs (hx h) s (ctl (snd (report_all h nd rest (w\<lparr>ctl := s\<rparr>))))" for s
    using Cons [of "w\<lparr>ctl := s\<rparr>"] by (simp add: stays_def)
  ultimately show ?case
    using Cons [of w] by (auto simp: stays_def runs.refl split: sum.splits intro: runs.trans)
qed (simp add: stays_def send_def runs.refl)

lemma runs_drain_homes: "stays (runs (hx h)) (drain_homes h es a b) w"
proof (induction es arbitrary: a b w)
  case (Cons e rest a b w)
  have "runs (hx h) (ctl w) s" if "in_core (ReleaseEnvironmentHome (caller h) (he_id e)) (ctl w) = Inr (u, s)" for u s
    using that by (rule core_runs)
  moreover have "runs (hx h) s (ctl (snd (drain_homes h rest a b (w\<lparr>ctl := s\<rparr>))))" for s a b
    using Cons [of a b "w\<lparr>ctl := s\<rparr>"] by (simp add: stays_def)
  ultimately show ?case
    using Cons [of _ _ w] by (auto simp: stays_def Let_def split: sum.splits intro: runs.trans)
qed (simp add: stays_def send_def runs.refl)

lemma runs_drain_now: "stays (runs (hx h)) (\<lambda>w. drain_homes h (g w) a b w) w"
  using runs_drain_homes [of h "g w" a b w] by (simp add: stays_def)

lemma runs_agent_reports:
  "stays (runs (hx h)) (handleInstanceReport h) w" "stays (runs (hx h)) (handleDrainNode h) w"
  unfolding handleInstanceReport_def handleDrainNode_def addressed_def
  subgoal by (intro runs.stays_rules runs_report_all)
  subgoal by (intro runs.stays_rules runs_drain_now; erule core_runs; assumption)
  done

lemma runs_deliver: "runs (hx h) (ctl w) (ctl (deliver h nd d w))"
  by (cases d) (auto simp: deliver_def Let_def runs.refl split: sum.splits intro: account_runs)

lemma runs_deliveries: "runs (hx h) (ctl w) (ctl (fold (deliver h nd) ds w))"
proof (induction ds arbitrary: w)
  case (Cons d ds)
  from runs.trans [OF runs_deliver Cons.IH] show ?case by simp
qed (simp add: runs.refl)

lemma runs_logs: "stays (runs (hx h)) (handleLogDelivery h) w" "stays (runs (hx h)) (handleCloseLogRequest h) w"
  unfolding handleLogDelivery_def handleCloseLogRequest_def addressed_def
  subgoal by (intro runs.stays_rules) (simp add: stays_def send_def runs_deliveries)
  subgoal by (intro runs.stays_rules) (simp add: stays_def send_def runs_step ct_log_close)
  done

lemma runs_AddMember: "stays (runs (hx h)) (handleAddMember h) w"
  unfolding handleAddMember_def addressed_def
  apply (intro runs.stays_rules; (erule account_runs)?)
  apply (simp add: stays_def send_def runs.refl split: option.splits)
  done

lemmas handlers_run =
  runs.stays_all_reads runs_catalog runs_deployments runs_secrets runs_nodes runs_tokens_and_members runs_invitations
  runs_CreateAccessRequest runs_CreatePreview runs_RegisterNode runs_agent_reports runs_logs runs_AddMember

definition always_runs :: "(hctx \<Rightarrow> reply) \<Rightarrow> bool" where
  "always_runs f \<longleftrightarrow> (\<forall>h w. stays (runs (hx h)) (f h) w)"

lemma always_runsI: "(\<And>h w. stays (runs (hx h)) (f h) w) \<Longrightarrow> always_runs f"
  by (simp add: always_runs_def)

lemma routes_run: "list_all (\<lambda>(m, p, f). always_runs f) routes"
  by (simp add: routes_def handlers_run [THEN always_runsI])

lemma runs_mux: "runs (hx h) (ctl w) (ctl (snd (mux h w)))"
proof (cases rule: mux_cases [of h w])
  case (handler m p f)
  from handler(1) routes_run have "always_runs f" by (auto simp: list_all_iff)
  then have "stays (runs (hx (h\<lparr>hp := vs\<rparr>))) (f (h\<lparr>hp := vs\<rparr>)) w" for vs
    unfolding always_runs_def by blast
  with handler(4) show ?thesis by (simp add: stays_def)
qed (simp add: runs.refl)

lemma runs_operator_credential: "runs x s (snd (operator_credential x t r s))"
  using ct_present [THEN runs_step, of x s "\<lparr>now = t, actor = None\<rparr>" "bearerToken r"]
  by (cases "OperatorForToken (x_sha x) \<lparr>now = t, actor = None\<rparr> (bearerToken r) s")
     (auto simp: operator_credential_def split: sum.splits)

lemma runs_authenticate: "runs x s (snd (authenticate x cfg t r s))"
  using runs_operator_credential [of x s t r]
  by (auto simp: authenticate_def runs.refl split: option.splits sum.splits intro: account_runs)

lemma runs_ServeHTTP: "runs x (ctl w) (ctl (snd (ServeHTTP x cfg rnd t r w)))"
proof -
  let ?h = "\<lambda>i. \<lparr>hx = x, hs = cfg, hr = rnd, ht = t, hid = i, hp = [], hq = r\<rparr>"
  obtain i s where auth: "authenticate x cfg t r (ctl w) = (i, s)" by (cases "authenticate x cfg t r (ctl w)")
  with runs_authenticate [of x "ctl w" cfg t r] have s: "runs x (ctl w) s" by simp
  have mux: "runs x (ctl w) (ctl (snd (mux (?h i) w)))" for i and w :: world using runs_mux [of "?h i" w] by simp
  from mux [of "w\<lparr>ctl := s\<rparr>" i] s have "runs x (ctl w) (ctl (snd (mux (?h i) (w\<lparr>ctl := s\<rparr>))))"
    by (auto intro: runs.trans)
  with mux [of w None] s auth show ?thesis
    by (auto simp: ServeHTTP_def Let_def split: option.splits)
qed

section \<open>A server that has served any requests\<close>

text \<open>Requests served one after another, each at its time and with its random values.\<close>

definition serve :: "outside \<Rightarrow> server \<Rightarrow> (randoms \<times> time \<times> request) list \<Rightarrow> world \<Rightarrow> world" where
  "serve x cfg = fold (\<lambda>(rnd, t, r) w. snd (ServeHTTP x cfg rnd t r w))"

lemma runs_serve: "runs x (ctl w) (ctl (serve x cfg rs w))"
  unfolding serve_def
proof (induction rs arbitrary: w)
  case (Cons q rs w)
  obtain rnd t r where q: "q = (rnd, t, r)" by (cases q)
  from runs.trans [OF runs_ServeHTTP Cons.IH] show ?case by (simp add: q)
qed (simp add: runs.refl)

text \<open>
  Whatever requests a server serves, from whomever and in whatever order, the database it leaves is
  one the transition system of the store reaches, so the tables of catalog, deployments, nodes and
  accounts satisfy their invariant.
\<close>

theorem requests_keep_the_invariant:
  assumes "reachable_control (x_lower x) (x_inet x) (x_sha x) (x_digest x) (ctl w)"
  shows "reachable_control (x_lower x) (x_inet x) (x_sha x) (x_digest x) (ctl (serve x cfg rs w)) \<and>
    store_inv (core (ctl (serve x cfg rs w))) \<and> accounts_inv (x_lower x) (ctl (serve x cfg rs w))"
proof -
  have "reachable_control (x_lower x) (x_inet x) (x_sha x) (x_digest x) (ctl (serve x cfg rs w))"
    using assms runs_serve [of x w cfg rs] unfolding reachable_control_def runs_def by (rule rtranclp_trans)
  with reachable_control_inv show ?thesis by (auto simp: control_inv_def)
qed

end
