(* ===== verification/Store_Previews.thy ===== *)
theory Store_Previews
  imports Store_Gaps
begin

text \<open>
  The end of a preview environment: exactly the expired ones are removed, with everything that hangs
  on them, and each leaves a tombstone by which the agents remove its containers; the warning that
  precedes it is claimed once.
\<close>

section \<open>What a reap removes\<close>

lemma map_filter_id: "List.map_filter (\<lambda>e. if P e then Some (f e) else None) xs = map f (filter P xs)"
  by (induction xs) (auto simp: List.map_filter_def)

lemma map_filter_cong: "(\<And>x. x \<in> set xs \<Longrightarrow> f x = g x) \<Longrightarrow> List.map_filter f xs = List.map_filter g xs"
  by (induction xs) (auto simp: List.map_filter_def)

definition expiring :: "call \<Rightarrow> uuid option \<Rightarrow> db \<Rightarrow> environment \<Rightarrow> bool" where
  "expiring c org s e \<longleftrightarrow> expired c e \<and> (org = None \<or> org = org_of_stack s (env_stack_id e))"

lemma expiry_victims_eq:
  assumes "store_inv s"
  shows "map fst (expiry_victims c org s) = map env_id (filter (expiring c org s) (environments s))"
proof -
  have "\<exists>o1. org_of_stack s (env_stack_id e) = Some o1" if "e \<in> set (environments s)" for e
    using assms chain_inv_stack chain_inv_env [OF _ that] by (fastforce simp: store_inv_def)
  then have "expiry_victims c org s = List.map_filter
      (\<lambda>e. if expiring c org s e then Some (env_id e, the (org_of_stack s (env_stack_id e))) else None) (environments s)"
    unfolding expiry_victims_def
    by (intro map_filter_cong) (fastforce simp: expiring_def split: option.splits)
  then show ?thesis by (simp add: map_filter_id)
qed

lemma delete_where_twice: "delete_where P (delete_where Q xs) = delete_where (\<lambda>x. Q x \<or> P x) xs"
  by (simp add: delete_where_def)

lemma add_tombstone_simps [simp]:
  "environments (add_tombstone c x org s) = environments s" "deployments (add_tombstone c x org s) = deployments s"
  "service_instances (add_tombstone c x org s) = service_instances s" "secrets (add_tombstone c x org s) = secrets s"
  by (simp_all add: add_tombstone_def)

lemma add_tombstone_adds: "tomb_env8 ` set (tombstones (add_tombstone c x org s)) = insert x (tomb_env8 ` set (tombstones s))"
  by (auto simp: add_tombstone_def list_ex_iff)

lemma delete_environment_simps [simp]:
  "tombstones (delete_environment e s) = tombstones s"
  "environments (delete_environment e s) = delete_where (\<lambda>r. env_id r = e) (environments s)"
  "deployments (delete_environment e s) = delete_where (\<lambda>d. dep_env d = e) (deployments s)"
  "secrets (delete_environment e s) = delete_where (\<lambda>r. sec_env r = e) (secrets s)"
  by (simp_all add: delete_environment_def Let_def)

lemma reap_victims_effect:
  assumes "reap_victims c vs s = Inr (done1, t)"
  shows "environments t = delete_where (\<lambda>e. env_id e \<in> fst ` set vs) (environments s) \<and>
    deployments t = delete_where (\<lambda>d. dep_env d \<in> fst ` set vs) (deployments s) \<and>
    secrets t = delete_where (\<lambda>r. sec_env r \<in> fst ` set vs) (secrets s) \<and>
    done1 = map (shortID \<circ> fst) vs \<and> set (service_instances t) \<subseteq> set (service_instances s) \<and>
    tomb_env8 ` set (tombstones t) = set done1 \<union> tomb_env8 ` set (tombstones s)"
  using assms
proof (induction c vs s arbitrary: done1 t rule: reap_victims.induct)
  case (1 c s)
  then show ?case by (simp add: delete_where_def)
next
  case (2 c e org rest s)
  from "2.prems" obtain s1 d1 where
    s1: "appendEventTx c org None None ''preview.expired'' ''preview environment expired''
      [(''environment_id'', JStr e), (''env8'', JStr (shortID e))] s = Inr s1" and
    rest: "reap_victims c rest (delete_environment e (add_tombstone c (shortID e) org s1)) = Inr (d1, t)"
    and done1: "done1 = shortID e # d1"
    by (auto split: sum.splits prod.splits)
  obtain ev where ev: "s1 = s\<lparr>events := events s @ [ev]\<rparr>" using s1 by (rule appendEventTx_ok)
  note IH = "2.IH" [OF s1 rest]
  have "set (service_instances (delete_environment e (add_tombstone c (shortID e) org s1))) \<subseteq> set (service_instances s)"
    by (auto simp: delete_environment_def Let_def ev)
  with IH show ?case
    by (auto simp: ev done1 delete_where_twice add_tombstone_adds)
qed

lemma expireEnvironments_effect:
  assumes inv: "store_inv s" and exp: "expireEnvironments c org s = Inr (done1, t)"
  shows "environments t = delete_where (expiring c org s) (environments s) \<and>
    deployments t = delete_where (\<lambda>d. \<exists>e \<in> set (environments s). env_id e = dep_env d \<and> expiring c org s e) (deployments s) \<and>
    secrets t = delete_where (\<lambda>r. \<exists>e \<in> set (environments s). env_id e = sec_env r \<and> expiring c org s e) (secrets s) \<and>
    (\<forall>i \<in> set (service_instances t). i \<in> set (service_instances s) \<and> inst_dep i \<in> dep_id ` set (deployments t)) \<and>
    done1 = map (\<lambda>e. shortID (env_id e)) (filter (expiring c org s) (environments s)) \<and>
    set done1 \<subseteq> tomb_env8 ` set (tombstones t)"
proof -
  have run: "reap_victims c (expiry_victims c org s) s = Inr (done1, t)"
    using exp by (simp add: expireEnvironments_def)
  note eff = reap_victims_effect [OF run]
  note vs = expiry_victims_eq [OF inv, of c org]
  have ids: "distinct (map env_id (environments s))" using inv by (simp add: store_inv_def live_inv_def)
  have V: "x \<in> fst ` set (expiry_victims c org s) \<longleftrightarrow> (\<exists>e \<in> set (environments s). env_id e = x \<and> expiring c org s e)" for x
    using arg_cong [OF vs, of set] by auto
  have "env_id e \<in> fst ` set (expiry_victims c org s) \<longleftrightarrow> expiring c org s e" if "e \<in> set (environments s)" for e
    unfolding V using that ids by (auto simp: distinct_map inj_on_def)
  then have "delete_where (\<lambda>e. env_id e \<in> fst ` set (expiry_victims c org s)) (environments s) =
      delete_where (expiring c org s) (environments s)"
    unfolding delete_where_def by (intro filter_cong refl) simp
  with eff have "environments t = delete_where (expiring c org s) (environments s)" by simp
  moreover have "done1 = map (\<lambda>e. shortID (env_id e)) (filter (expiring c org s) (environments s))"
    using eff arg_cong [OF vs, of "map shortID"] by (simp add: comp_def)
  moreover have "place_inv (deployments t) (service_instances t)"
    using inv_expireEnvironments [OF inv exp] by (simp add: store_inv_def)
  then have "inst_dep i \<in> dep_id ` set (deployments t)" if "i \<in> set (service_instances t)" for i
    using that unfolding place_inv_def by force
  ultimately show ?thesis
    using eff by (simp add: V subset_eq)
qed

lemma reap_victims_total:
  "(\<And>v. v \<in> set vs \<Longrightarrow> get_org s (snd v) \<noteq> None) \<Longrightarrow> \<exists>r. reap_victims c vs s = Inr r"
proof (induction c vs s rule: reap_victims.induct)
  case (2 c e og rest s)
  then obtain g where org: "get_org s og = Some g" by force
  then obtain s1 where s1: "appendEventTx c og None None ''preview.expired'' ''preview environment expired''
      [(''environment_id'', JStr e), (''env8'', JStr (shortID e))] s = Inr s1"
    by (simp add: appendEventTx_def)
  then have "get_org (delete_environment e (add_tombstone c (shortID e) og s1)) x = get_org s x" for x
    by (auto simp: appendEventTx_def delete_environment_def add_tombstone_def get_org_def Let_def split: if_splits)
  with "2.IH" [OF s1] "2.prems" obtain r where "reap_victims c rest (delete_environment e (add_tombstone c (shortID e) og s1)) = Inr r"
    by force
  with s1 show ?case by (cases r) simp
qed simp

lemma expireEnvironments_total:
  assumes "store_inv s"
  obtains done1 t where "expireEnvironments c org s = Inr (done1, t)"
proof -
  have "get_org s (snd v) \<noteq> None" if "v \<in> set (expiry_victims c org s)" for v
  proof -
    from that obtain e where e: "e \<in> set (environments s)" "org_of_stack s (env_stack_id e) = Some (snd v)"
      by (auto simp: expiry_victims_def in_map_filter split: option.splits if_splits)
    from assms chain_inv_env [OF _ e(1)] chain_inv_stack e(2) show ?thesis
      by (fastforce simp: store_inv_def)
  qed
  from reap_victims_total [of "expiry_victims c org s" s, OF this] that show thesis
    by (auto simp: expireEnvironments_def)
qed

lemma preview_placed_reach: "ex_reach (ok_db preview_placed)"
proof -
  have ok: "succeeded preview_created" "succeeded preview_placed" by code_simp+
  have made: "ex_reach (ok_db preview_created)"
    by (rule reach_op [OF ex_reach_6 ok(1)]) (unfold preview_created_def, erule st_preview)
  have "map_option dep_spec (get_dep (ok_db preview_created) ''d9'') = Some (json_spec ex_resolved)" by code_simp
  then obtain d where d: "get_dep (ok_db preview_created) ''d9'' = Some d" "dep_spec d = json_spec ex_resolved" by auto
  show ?thesis
    by (rule reach_op [OF made ok(2)], rule st_place [OF d(1), of ex_insts])
       (simp_all add: preview_placed_def ex_insts_spec d(2))
qed

text \<open>
  A reap removes exactly the environments whose time has come (of the organization it is scoped
  to): every other environment, its deployments and its secrets are untouched, nothing of a removed
  one is left, no instance outlives its deployment, and the reported identifiers, one per removed
  environment, all have a tombstone.
\<close>

theorem expiry_is_exact:
  assumes "reachable_db inet sha digest s" "expireEnvironments c org s = Inr (done1, t)"
  shows "environments t = delete_where (expiring c org s) (environments s) \<and>
    deployments t = delete_where (\<lambda>d. \<exists>e \<in> set (environments s). env_id e = dep_env d \<and> expiring c org s e) (deployments s) \<and>
    secrets t = delete_where (\<lambda>r. \<exists>e \<in> set (environments s). env_id e = sec_env r \<and> expiring c org s e) (secrets s) \<and>
    (\<forall>i \<in> set (service_instances t). i \<in> set (service_instances s) \<and> inst_dep i \<in> dep_id ` set (deployments t)) \<and>
    done1 = map (\<lambda>e. shortID (env_id e)) (filter (expiring c org s) (environments s)) \<and>
    set done1 \<subseteq> tomb_env8 ` set (tombstones t)"
  using assms expireEnvironments_effect reachable_store_inv by blast

theorem expiry_is_exact_witness:
  "fst (projr preview_expired) = [''pre00001''] \<and>
   ''pre00001'' \<in> tomb_env8 ` set (tombstones (ok_db preview_expired))"
proof -
  have ok: "succeeded preview_expired" by code_simp
  note reach = preview_placed_reach
  obtain dn where dn: "preview_expired = Inr (dn, ok_db preview_expired)"
    using succeeded_ok [OF ok] by blast
  then have run: "expireEnvironments (ex_call\<lparr>now := 2000\<rparr>) None (ok_db preview_placed) = Inr (dn, ok_db preview_expired)"
    by (simp only: preview_expired_def)
  have one: "fst (projr preview_expired) = [''pre00001'']" by code_simp
  moreover have "dn = [''pre00001'']" using one by (subst (asm) dn) simp
  moreover have "set dn \<subseteq> tomb_env8 ` set (tombstones (ok_db preview_expired))"
    using expiry_is_exact [OF reach run] by (elim conjE)
  ultimately show ?thesis by simp
qed

section \<open>Warnings\<close>

text \<open>
  The claim of expiry warnings returns the previews that end within the window and were not
  warned before, and a warning is claimed at most once: whatever window and organization a later
  claim has, it returns none of the environments this one returned.
\<close>

theorem warning_claimed_once:
  assumes "reachable_db inet sha digest s" "claimPreviewsForExpiryWarning c within org s = (claimed, t)"
  shows "(\<forall>(i, end1) \<in> set claimed. \<exists>e \<in> set (environments s). env_id e = i \<and> env_ephemeral e \<and>
      env_warned_at e = None \<and> env_expires_at e = Some end1 \<and> now c < end1 \<and> end1 < now c + within) \<and>
    (\<forall>c2 w2 o2. fst ` set (fst (claimPreviewsForExpiryWarning c2 w2 o2 t)) \<inter> fst ` set claimed = {})"
proof
  have cl: "claimed = map (\<lambda>e. (env_id e, the (env_expires_at e))) (filter (claimable c within org s) (environments s))"
    and t: "environments t = update_where (claimable c within org s) (\<lambda>e. e\<lparr>env_warned_at := Some (now c)\<rparr>) (environments s)"
    using assms(2) by (auto simp: claimPreviewsForExpiryWarning_def)
  show "\<forall>(i, end1) \<in> set claimed. \<exists>e \<in> set (environments s). env_id e = i \<and> env_ephemeral e \<and>
      env_warned_at e = None \<and> env_expires_at e = Some end1 \<and> now c < end1 \<and> end1 < now c + within"
    by (auto simp: cl claimable_def split: option.splits)
  have ids: "distinct (map env_id (environments s))"
    using reachable_store_inv [OF assms(1)] by (simp add: store_inv_def live_inv_def)
  have "e \<in> set (environments s) \<and> \<not> claimable c within org s e"
    if e: "e \<in> set (environments t)" "env_warned_at e = None" for e
    using e by (auto simp: t update_where_def split: if_splits)
  moreover have "env_id e \<noteq> env_id e'" if "e \<in> set (environments s)" "e' \<in> set (environments s)"
    "\<not> claimable c within org s e" "claimable c within org s e'" for e e'
    using that ids by (auto simp: distinct_map inj_on_def)
  ultimately show "\<forall>c2 w2 o2. fst ` set (fst (claimPreviewsForExpiryWarning c2 w2 o2 t)) \<inter> fst ` set claimed = {}"
    by (fastforce simp: cl claimPreviewsForExpiryWarning_def claimable_def [of _ _ _ t])
qed

theorem warning_claimed_once_witness:
  "map fst (fst (claimPreviewsForExpiryWarning ex_call 3600 None (ok_db preview_created))) = [''pre00001-b''] \<and>
   fst ` set (fst (claimPreviewsForExpiryWarning ex_call 7200 None
     (snd (claimPreviewsForExpiryWarning ex_call 3600 None (ok_db preview_created))))) \<inter> {''pre00001-b''} = {}"
proof -
  let ?p = "claimPreviewsForExpiryWarning ex_call 3600 None (ok_db preview_created)"
  have "succeeded preview_created" by code_simp
  then have reach: "ex_reach (ok_db preview_created)"
    by (rule reach_op [OF ex_reach_6]) (unfold preview_created_def, erule st_preview)
  have one: "map fst (fst ?p) = [''pre00001-b'']" by code_simp
  have "?p = (fst ?p, snd ?p)" by simp
  from warning_claimed_once [OF reach this]
  have "fst ` set (fst (claimPreviewsForExpiryWarning ex_call 7200 None (snd ?p))) \<inter> set (map fst (fst ?p)) = {}"
    by simp
  with one show ?thesis by simp
qed

end
