(* ===== verification/Rollout_Reaper.thy ===== *)
theory Rollout_Reaper
  imports Api_Steps Store_Previews
begin

text \<open>
  \<open>internal/rollout/reaper.go\<close>: the loop that ends things. A tick destroys expired previews, warns about
  the ones that are close, drops expired log requests together with the memory of their answers,
  prunes superseded secrets and forgets old teardown instructions. \<open>WithLogBuffer\<close> is the buffer of the
  world, \<open>WithNotifier\<close> the mailer. The layout of a time in a message is an argument.
\<close>

section \<open>Constants and messages\<close>

definition ExpiryWarning :: int where
  "ExpiryWarning = hour"

definition LogBufferIdleTTL :: int where
  "LogBufferIdleTTL = seconds 600"

definition SecretVersionRetention :: int where
  "SecretVersionRetention = 30 * 24 * hour"

record reaper =
  rp_org :: "uuid option"
  rp_notify :: "(message \<Rightarrow> string option) option"

text \<open>The clocks of one tick: each statement reads the database's, the buffer reads the process's.\<close>

record reap_clock =
  at_expire :: call
  at_warn :: call
  at_logs :: call
  at_prune :: call
  at_tombs :: call
  at_wall :: time

definition expiryMessage :: "(time \<Rightarrow> string) \<Rightarrow> notify_target \<Rightarrow> uuid \<times> time \<Rightarrow> message" where
  "expiryMessage rfc3339 t p =
     \<lparr>ms_to = nt_emails t,
      ms_subject = ''[navarch] preview expiring in under 1h0m0s: '' @ Path t,
      ms_body =
        ''The preview environment '' @ Path t @ '' expires at '' @ rfc3339 (snd p) @ ''.'' @ nl @ nl @
        (if nt_hostname t \<noteq> [] then ''  hostname     '' @ nt_hostname t @ nl else []) @
        ''  environment  '' @ Path t @ nl @ nl @
        ''When it expires the environment is destroyed: its containers, its'' @ nl @
        ''pinned services and its named volumes, all of it. Preview data is not'' @ nl @
        ''backed up and is not recoverable afterwards.'' @ nl @ nl @
        ''TTL is the only lifecycle control a preview has '' @ em_dash @ '' there is no extend.'' @ nl @
        ''If the work is still open, create a new preview.'' @ nl\<rparr>"

section \<open>One tick\<close>

text \<open>A statement on the tables of \<open>db\<close>, with the cascade to the log requests.\<close>

definition on_core :: "(db \<Rightarrow> db) \<Rightarrow> control \<Rightarrow> control" where
  "on_core f s = cascade_logs (s\<lparr>core := f (core s)\<rparr>)"

text \<open>
  One round of the loop of \<open>warnExpiring\<close>: no message when the recipients cannot be resolved or there are
  none; else the message and what the mailer answered, which is only logged.
\<close>

definition warn_one ::
  "(time \<Rightarrow> string) \<Rightarrow> (message \<Rightarrow> string option) \<Rightarrow> control \<Rightarrow> uuid \<times> time \<Rightarrow> (message \<times> string option) option" where
  "warn_one rfc3339 notify s p =
     (case NotifyTargetsForEnvironment (fst p) s of
        Inl e \<Rightarrow> None
      | Inr target \<Rightarrow>
          if nt_emails target = [] then None
          else (let m = expiryMessage rfc3339 target p in Some (m, notify m)))"

definition warnExpiring ::
  "(time \<Rightarrow> string) \<Rightarrow> reap_clock \<Rightarrow> reaper \<Rightarrow> control \<Rightarrow> (message \<times> string option) list \<times> control" where
  "warnExpiring rfc3339 k r s =
     (case rp_notify r of
        None \<Rightarrow> ([], s)
      | Some notify \<Rightarrow>
          (let due = fst (claimPreviewsForExpiryWarning (at_warn k) ExpiryWarning (rp_org r) (core s));
               t = on_core (\<lambda>d. snd (claimPreviewsForExpiryWarning (at_warn k) ExpiryWarning (rp_org r) d)) s
           in (List.map_filter (warn_one rfc3339 notify t) due, t)))"

definition free_buffers :: "time \<Rightarrow> uuid list \<Rightarrow> buffer option \<Rightarrow> buffer option" where
  "free_buffers wall swept logs =
     map_option (\<lambda>b. snd (Expire wall LogBufferIdleTTL (fold Drop swept b))) logs"

definition ReapOnce ::
  "(time \<Rightarrow> string) \<Rightarrow> reap_clock \<Rightarrow> reaper \<Rightarrow> world \<Rightarrow> store_error option \<times> (message \<times> string option) list \<times> world" where
  "ReapOnce rfc3339 k r w =
     (case in_core (expireEnvironments (at_expire k) (rp_org r)) (ctl w) of
        Inl e \<Rightarrow> (Some e, [], w)
      | Inr (reaped, s1) \<Rightarrow>
          (let (mail, s2) = warnExpiring rfc3339 k r s1;
               (swept, s3) = SweepLogRequests (at_logs k) s2;
               s4 = on_core (\<lambda>d. snd (PruneSecretVersions (at_prune k) (rp_org r) SecretVersionRetention d)) s3;
               s5 = on_core (sweepTombstones (at_tombs k) (rp_org r) TombstoneRetention) s4
           in (None, mail, w\<lparr>ctl := s5, wd_logs := free_buffers (at_wall k) swept (wd_logs w)\<rparr>)))"

section \<open>A tick is a run of the store\<close>

lemma runs_on_core:
  "store_step (x_inet x) (x_sha x) (x_digest x) (core s) (f (core s)) \<Longrightarrow> runs x s (on_core f s)"
  by (auto simp: on_core_def intro!: runs_step ct_core)

lemma runs_warnExpiring: "runs x s (snd (warnExpiring rfc3339 k r s))"
  by (auto simp: warnExpiring_def Let_def runs.refl split: option.split intro!: runs_on_core st_claim)

lemma runs_ReapOnce: "runs x (ctl w) (ctl (snd (snd (ReapOnce rfc3339 k r w))))"
proof (cases "in_core (expireEnvironments (at_expire k) (rp_org r)) (ctl w)")
  case (Inr p)
  note [trans] = runs.trans
  obtain reaped s1 where p: "p = (reaped, s1)" by (cases p)
  obtain mail s2 where s2: "warnExpiring rfc3339 k r s1 = (mail, s2)" by fastforce
  obtain swept s3 where s3: "SweepLogRequests (at_logs k) s2 = (swept, s3)" by fastforce
  let ?s4 = "on_core (\<lambda>d. snd (PruneSecretVersions (at_prune k) (rp_org r) SecretVersionRetention d)) s3"
  have "runs x (ctl w) s1" by (rule runs_core [OF Inr [unfolded p] st_expire])
  also have "runs x s1 s2" using runs_warnExpiring [of x s1 rfc3339 k r] by (simp add: s2)
  also have "runs x s2 s3" using ct_log_sweep [THEN runs_step, of x s2 "at_logs k"] by (simp add: s3)
  also have "runs x s3 ?s4" by (rule runs_on_core) (rule st_prune)
  also have "runs x ?s4 (on_core (sweepTombstones (at_tombs k) (rp_org r) TombstoneRetention) ?s4)"
    by (rule runs_on_core) (rule st_sweep)
  finally show ?thesis by (simp add: ReapOnce_def Inr p s2 s3)
qed (simp add: ReapOnce_def runs.refl)

section \<open>Nothing overdue is left\<close>

lemma warnExpiring_core:
  "core (snd (warnExpiring rfc3339 k r s)) = (core s)\<lparr>environments :=
     update_where (\<lambda>e. rp_notify r \<noteq> None \<and> claimable (at_warn k) ExpiryWarning (rp_org r) (core s) e)
       (\<lambda>e. e\<lparr>env_warned_at := Some (now (at_warn k))\<rparr>) (environments (core s))\<rparr>"
  by (simp add: warnExpiring_def Let_def on_core_def cascade_logs_def claimPreviewsForExpiryWarning_def update_where_def
      split: option.split)

lemma cascaded_logs:
  "set (log_requests (cascade_logs s)) =
   {l \<in> set (log_requests s). (\<exists>i \<in> set (service_instances (core s)). inst_id i = lq_instance l) \<and>
      (\<exists>e \<in> set (environments (core s)). env_id e = lq_env l)}"
  by (auto simp: cascade_logs_def list_ex_iff)

lemma warnExpiring_logs:
  "set (log_requests (snd (warnExpiring rfc3339 k r s))) \<subseteq> set (log_requests s)"
  "l \<in> set (log_requests s) \<Longrightarrow> \<exists>i \<in> set (service_instances (core s)). inst_id i = lq_instance l \<Longrightarrow>
   \<exists>e \<in> set (environments (core s)). env_id e = lq_env l \<Longrightarrow> l \<in> set (log_requests (snd (warnExpiring rfc3339 k r s)))"
  by (auto simp: warnExpiring_def Let_def on_core_def cascaded_logs claimPreviewsForExpiryWarning_def bex_update_where
      split: option.split)

lemma entries_fold_Drop: "buf_entries (fold Drop is b) = filter (\<lambda>(i, e). i \<notin> set is) (buf_entries b)"
  by (induction "is" arbitrary: b) (auto simp: Drop_def AList.delete_eq intro!: filter_cong)

lemma entries_free_buffers:
  "free_buffers wall swept logs = Some b \<Longrightarrow> (i, e) \<in> set (buf_entries b) \<Longrightarrow>
   i \<notin> set swept \<and> wall - LogBufferIdleTTL \<le> en_seen e"
  by (auto simp: free_buffers_def Expire_def Let_def entries_fold_Drop)

lemma on_core_simps [simp]:
  "core (on_core f s) = f (core s)" "operators (on_core f s) = operators s"
  by (simp_all add: on_core_def cascade_logs_def)

lemma SweepLogRequests_simps [simp]:
  "core (snd (SweepLogRequests c s)) = core s"
  "set (log_requests (snd (SweepLogRequests c s))) = {l \<in> set (log_requests s). now c \<le> lq_expires_at l}"
  "set (fst (SweepLogRequests c s)) = lq_id ` {l \<in> set (log_requests s). lq_expires_at l < now c}"
  by (auto simp: SweepLogRequests_def delete_where_def)

lemma logs_on_core: "set (log_requests (on_core f s)) \<subseteq> set (log_requests s)"
  by (auto simp: on_core_def cascade_logs_def)

lemma logs_on_core_eq:
  "set (log_requests (on_core f s)) = {l \<in> set (log_requests s). lq_instance l \<in> inst_id ` set (service_instances (f (core s))) \<and>
     lq_env l \<in> env_id ` set (environments (f (core s)))}"
  by (simp add: on_core_def cascaded_logs) (auto simp: image_iff eq_commute)

text \<open>
  What a tick has to end and to keep, written over the tables it finds: a preview past its expiry, and
  with it everything that hangs on its environment; a preview to warn about; a secret version that is
  old and has been superseded.
\<close>

definition overdue :: "time \<Rightarrow> environment \<Rightarrow> bool" where
  "overdue t e \<longleftrightarrow> env_ephemeral e \<and> (\<exists>x. env_expires_at e = Some x \<and> x < t)"

definition ends :: "time \<Rightarrow> db \<Rightarrow> uuid \<Rightarrow> bool" where
  "ends t s i \<longleftrightarrow> (\<exists>e \<in> set (environments s). env_id e = i \<and> overdue t e)"

definition close_to_expiry :: "time \<Rightarrow> environment \<Rightarrow> bool" where
  "close_to_expiry t e \<longleftrightarrow> env_ephemeral e \<and> env_warned_at e = None \<and> (\<exists>x. env_expires_at e = Some x \<and> t < x \<and> x < t + seconds 3600)"

definition outdated :: "time \<Rightarrow> db \<Rightarrow> secret_row \<Rightarrow> bool" where
  "outdated t s x \<longleftrightarrow> sec_created_at x < t - seconds (30 * 24 * 3600) \<and>
     (\<exists>y \<in> set (secrets s). sec_env y = sec_env x \<and> sec_key y = sec_key x \<and> sec_version x < sec_version y)"

lemma expired_overdue: "expired c e = overdue (now c) e"
  by (auto simp: expired_def overdue_def split: option.splits)

lemma reap_victims_more:
  "reap_victims c vs s = Inr (done1, t) \<Longrightarrow>
   service_instances t = filter (\<lambda>i. \<not> (\<exists>d \<in> set (deployments s). dep_id d = inst_dep i \<and> dep_env d \<in> fst ` set vs)) (service_instances s) \<and>
   (\<exists>x. tombstones t = tombstones s @ x \<and> tomb_env8 ` set x \<subseteq> shortID ` fst ` set vs) \<and>
   nodes t = nodes s \<and> organizations t = organizations s \<and> applications t = applications s \<and> stacks t = stacks s \<and>
   stack_versions t = stack_versions s"
proof (induction c vs s arbitrary: done1 rule: reap_victims.induct)
  case (2 c e og rest s)
  from 2(2) obtain s1 done2 where
    app: "appendEventTx c og None None ''preview.expired'' ''preview environment expired''
      [(''environment_id'', JStr e), (''env8'', JStr (shortID e))] s = Inr s1" and
    rest: "reap_victims c rest (delete_environment e (add_tombstone c (shortID e) og s1)) = Inr (done2, t)"
    by (auto split: prod.splits)
  let ?s = "delete_environment e (add_tombstone c (shortID e) og s1)"
  from app obtain ev where ev: "s1 = s\<lparr>events := events s @ [ev]\<rparr>" by (rule appendEventTx_ok)
  note IH = 2(1) [OF app rest]
  have "service_instances t = filter (\<lambda>i. \<not> (\<exists>d \<in> set (deployments s). dep_id d = inst_dep i \<and> dep_env d \<in> fst ` set ((e, og) # rest)))
      (service_instances s)"
  proof -
    have "service_instances ?s = filter (\<lambda>i. \<not> (\<exists>d \<in> set (deployments s). dep_id d = inst_dep i \<and> dep_env d = e)) (service_instances s)"
      "deployments ?s = filter (\<lambda>d. dep_env d \<noteq> e) (deployments s)"
      by (force simp: delete_environment_def Let_def ev add_tombstone_def delete_where_def intro!: filter_cong)+
    with IH show ?thesis by (simp only: filter_filter set_filter mem_Collect_eq) (rule filter_cong, auto)
  qed
  moreover obtain y where "tombstones ?s = tombstones s @ y" "tomb_env8 ` set y \<subseteq> {shortID e}"
    by (cases "list_ex (\<lambda>t. tomb_env8 t = shortID e) (tombstones s)") (auto simp: add_tombstone_def ev)
  moreover have "nodes ?s = nodes s" "organizations ?s = organizations s" "applications ?s = applications s" "stacks ?s = stacks s"
    "stack_versions ?s = stack_versions s"
    by (simp_all add: delete_environment_def Let_def add_tombstone_def ev)
  ultimately show ?case using IH by (auto simp: image_subset_iff)
qed simp

text \<open>The tables after the expiry of previews, over the whole plane.\<close>

lemma expire_tables:
  assumes inv: "store_inv s" and run: "expireEnvironments c None s = Inr (reaped, t)"
  shows "environments t = filter (\<lambda>e. \<not> overdue (now c) e) (environments s)"
    "deployments t = filter (\<lambda>d. \<not> ends (now c) s (dep_env d)) (deployments s)"
    "secrets t = filter (\<lambda>x. \<not> ends (now c) s (sec_env x)) (secrets s)"
    "service_instances t = filter (\<lambda>i. \<not> (\<exists>d \<in> set (deployments s). dep_id d = inst_dep i \<and> ends (now c) s (dep_env d))) (service_instances s)"
    "\<exists>x. tombstones t = tombstones s @ x \<and> tomb_env8 ` set x \<subseteq> {take 8 (env_id e) |e. e \<in> set (environments s) \<and> overdue (now c) e}"
    "nodes t = nodes s" "organizations t = organizations s" "applications t = applications s" "stacks t = stacks s"
    "stack_versions t = stack_versions s"
proof -
  note eff = expireEnvironments_effect [OF inv run]
  have ends: "ends (now c) s i \<longleftrightarrow> (\<exists>e \<in> set (environments s). env_id e = i \<and> expiring c None s e)" for i
    by (simp add: ends_def expiring_def expired_overdue)
  show "environments t = filter (\<lambda>e. \<not> overdue (now c) e) (environments s)"
    "deployments t = filter (\<lambda>d. \<not> ends (now c) s (dep_env d)) (deployments s)"
    "secrets t = filter (\<lambda>x. \<not> ends (now c) s (sec_env x)) (secrets s)"
    using eff by (simp_all add: delete_where_def ends) (simp add: expiring_def expired_overdue)
  have victims: "fst ` set (expiry_victims c None s) = {i. ends (now c) s i}"
    using arg_cong [OF expiry_victims_eq [OF inv, of c None], of set] by (auto simp: ends)
  have rows: "reap_victims c (expiry_victims c None s) s = Inr (reaped, t)" using run by (simp add: expireEnvironments_def)
  from reap_victims_more [OF rows] show
    "service_instances t = filter (\<lambda>i. \<not> (\<exists>d \<in> set (deployments s). dep_id d = inst_dep i \<and> ends (now c) s (dep_env d))) (service_instances s)"
    "nodes t = nodes s" "organizations t = organizations s" "applications t = applications s" "stacks t = stacks s"
    "stack_versions t = stack_versions s"
    by (simp_all add: victims)
  have "shortID ` {i. ends (now c) s i} = {take 8 (env_id e) |e. e \<in> set (environments s) \<and> overdue (now c) e}"
    by (auto simp: ends_def shortID_def)
  with reap_victims_more [OF rows] show
    "\<exists>x. tombstones t = tombstones s @ x \<and> tomb_env8 ` set x \<subseteq> {take 8 (env_id e) |e. e \<in> set (environments s) \<and> overdue (now c) e}"
    by (simp add: victims)
qed

lemma claimable_close:
  assumes "store_inv t" "e \<in> set (environments t)"
  shows "claimable c ExpiryWarning None t e = close_to_expiry (now c) e"
proof -
  obtain o1 where "org_of_stack t (env_stack_id e) = Some o1"
    using assms chain_inv_stack chain_inv_env [OF _ assms(2)] by (fastforce simp: store_inv_def)
  then show ?thesis by (auto simp: claimable_def close_to_expiry_def ExpiryWarning_def hour_def split: option.split)
qed

lemma prunable_outdated:
  "x \<in> set (secrets t) \<Longrightarrow> prunable c None SecretVersionRetention t x = outdated (now c) t x"
proof -
  assume "x \<in> set (secrets t)"
  then have "x \<in> set (secret_versions (sec_env x) (sec_key x) t)" by (simp add: secret_versions_def)
  then have "sec_version x < Max (sec_version ` set (secret_versions (sec_env x) (sec_key x) t)) \<longleftrightarrow>
      (\<exists>y \<in> set (secret_versions (sec_env x) (sec_key x) t). sec_version x < sec_version y)"
    by (subst Max_gr_iff) auto
  then show ?thesis
    by (auto simp: prunable_def outdated_def secret_versions_def SecretVersionRetention_def hour_def seconds_def)
qed

text \<open>What a tick does when the database is consistent: it cannot fail.\<close>

lemma ReapOnce_world:
  assumes "store_inv (core (ctl w))" "ReapOnce rfc3339 k r w = (err, mail, w')"
  obtains reaped t s2 where
    "err = None" "expireEnvironments (at_expire k) (rp_org r) (core (ctl w)) = Inr (reaped, t)"
    "s2 = snd (warnExpiring rfc3339 k r (cascade_logs ((ctl w)\<lparr>core := t\<rparr>)))"
    "w' = w\<lparr>ctl := on_core (sweepTombstones (at_tombs k) (rp_org r) TombstoneRetention)
         (on_core (\<lambda>d. snd (PruneSecretVersions (at_prune k) (rp_org r) SecretVersionRetention d))
           (snd (SweepLogRequests (at_logs k) s2))),
       wd_logs := free_buffers (at_wall k) (fst (SweepLogRequests (at_logs k) s2)) (wd_logs w)\<rparr>"
proof -
  obtain reaped t where ex: "expireEnvironments (at_expire k) (rp_org r) (core (ctl w)) = Inr (reaped, t)"
    using assms(1) by (rule expireEnvironments_total)
  show thesis
    by (rule that [OF _ ex refl]) (use assms(2) in \<open>auto simp: ReapOnce_def in_core_def ex case_prod_unfold Let_def\<close>)
qed

text \<open>The tables of the database after the tick.\<close>

lemma ReapOnce_core:
  assumes inv: "store_inv (core (ctl w))" and ex: "expireEnvironments (at_expire k) None (core (ctl w)) = Inr (reaped, t)"
    and s2: "s2 = snd (warnExpiring rfc3339 k r (cascade_logs ((ctl w)\<lparr>core := t\<rparr>)))" and org: "rp_org r = None"
    and u: "u = sweepTombstones (at_tombs k) None TombstoneRetention (snd (PruneSecretVersions (at_prune k) None SecretVersionRetention (core s2)))"
  shows "environments u = map (\<lambda>e. if rp_notify r \<noteq> None \<and> close_to_expiry (now (at_warn k)) e
        then e\<lparr>env_warned_at := Some (now (at_warn k))\<rparr> else e) (environments t)"
    "deployments u = deployments t" "service_instances u = service_instances t"
    "secrets u = filter (\<lambda>x. \<not> outdated (now (at_prune k)) t x) (secrets t)"
    "tombstones u = filter (\<lambda>b. now (at_tombs k) - seconds 86400 \<le> tomb_created_at b) (tombstones t)"
    "nodes u = nodes t" "organizations u = organizations t" "applications u = applications t" "stacks u = stacks t"
    "stack_versions u = stack_versions t"
proof -
  have core: "core s2 = t\<lparr>environments := update_where (\<lambda>e. rp_notify r \<noteq> None \<and> claimable (at_warn k) ExpiryWarning None t e)
      (\<lambda>e. e\<lparr>env_warned_at := Some (now (at_warn k))\<rparr>) (environments t)\<rparr>"
    by (simp add: s2 warnExpiring_core org cascade_logs_def)
  show "environments u = map (\<lambda>e. if rp_notify r \<noteq> None \<and> close_to_expiry (now (at_warn k)) e
        then e\<lparr>env_warned_at := Some (now (at_warn k))\<rparr> else e) (environments t)"
    using claimable_close [OF inv_expireEnvironments [OF inv ex]]
    by (auto simp: u core sweepTombstones_def PruneSecretVersions_def update_where_def)
  have "prunable (at_prune k) None SecretVersionRetention (core s2) x = outdated (now (at_prune k)) t x" if "x \<in> set (secrets t)" for x
    using that prunable_outdated [of x "core s2" "at_prune k"] by (simp add: core outdated_def)
  then show "secrets u = filter (\<lambda>x. \<not> outdated (now (at_prune k)) t x) (secrets t)"
    by (auto simp: u sweepTombstones_def PruneSecretVersions_def delete_where_def core intro!: filter_cong)
  show "tombstones u = filter (\<lambda>b. now (at_tombs k) - seconds 86400 \<le> tomb_created_at b) (tombstones t)"
    by (auto simp: u core sweepTombstones_def PruneSecretVersions_def delete_where_def TombstoneRetention_def hour_def seconds_def
        intro!: filter_cong)
qed (simp_all add: u s2 warnExpiring_core cascade_logs_def sweepTombstones_def PruneSecretVersions_def)

lemma ReapOnce_logs:
  assumes s2: "s2 = snd (warnExpiring rfc3339 k r (cascade_logs ((ctl w)\<lparr>core := t\<rparr>)))"
    and u: "environments u = map f (environments t)" "\<And>e. env_id (f e) = env_id e" "service_instances u = service_instances t"
    and ctl: "core v = u" "set (log_requests v) = {l \<in> set (log_requests s2). now (at_logs k) \<le> lq_expires_at l \<and>
       lq_instance l \<in> inst_id ` set (service_instances u) \<and> lq_env l \<in> env_id ` set (environments u)}"
  shows "set (log_requests v) = {l \<in> set (log_requests (ctl w)). now (at_logs k) \<le> lq_expires_at l \<and>
       lq_instance l \<in> inst_id ` set (service_instances u) \<and> lq_env l \<in> env_id ` set (environments u)}"
    "\<And>l. l \<in> set (log_requests (ctl w)) \<Longrightarrow> lq_instance l \<in> inst_id ` set (service_instances u) \<Longrightarrow>
       lq_env l \<in> env_id ` set (environments u) \<Longrightarrow> l \<in> set (log_requests s2)"
proof -
  have envs: "env_id ` set (environments u) = env_id ` set (environments t)" using u(1,2) by (simp add: image_image)
  show in_s2: "l \<in> set (log_requests s2)" if "l \<in> set (log_requests (ctl w))" "lq_instance l \<in> inst_id ` set (service_instances u)"
    "lq_env l \<in> env_id ` set (environments u)" for l
    unfolding s2 by (rule warnExpiring_logs(2)) (use that in \<open>auto simp: envs u(3) cascaded_logs cascade_logs_def list_ex_iff\<close>)
  have "set (log_requests s2) \<subseteq> set (log_requests (ctl w))"
    using warnExpiring_logs(1) [of rfc3339 k r "cascade_logs ((ctl w)\<lparr>core := t\<rparr>)"] by (auto simp: s2 cascade_logs_def)
  with in_s2 show "set (log_requests v) = {l \<in> set (log_requests (ctl w)). now (at_logs k) \<le> lq_expires_at l \<and>
       lq_instance l \<in> inst_id ` set (service_instances u) \<and> lq_env l \<in> env_id ` set (environments u)}"
    by (auto simp: ctl(2))
qed

lemma ReapOnce_accounts:
  "on_core f (on_core g (snd (SweepLogRequests c (snd (warnExpiring rfc3339 k r (cascade_logs (x\<lparr>core := t\<rparr>))))))) =
   x\<lparr>core := f (g (core (snd (warnExpiring rfc3339 k r (cascade_logs (x\<lparr>core := t\<rparr>)))))),
     log_requests := log_requests (on_core f (on_core g (snd (SweepLogRequests c (snd (warnExpiring rfc3339 k r (cascade_logs (x\<lparr>core := t\<rparr>))))))))\<rparr>"
  by (simp add: on_core_def cascade_logs_def SweepLogRequests_def warnExpiring_def Let_def split: option.split)

text \<open>
  C12: a tick of the reaper cannot fail, ends exactly what is overdue and changes nothing else.
  Environments: those that are not previews past their expiry remain as they were, in order, except that
  a preview within an hour of its expiry is marked as warned, once and only if a mailer is configured.
  Deployments, instances and secrets: exactly those of the ended environments go, and of the other
  secrets exactly the versions older than thirty days of which there is a newer one. Teardown
  instructions: none older than a day is left, no younger one is lost, and each is an earlier one or
  names an ended environment. Log requests: exactly those remain that have not expired and whose
  environment and instance remain. A buffer that remains was touched in the last ten minutes, and it
  belongs to no expired request, unless the request's row had gone with its environment or instance
  already. Nodes, organizations, applications, stacks, versions and the accounts are untouched; the
  event log, where the expiries are recorded, is left out. None of it depends on what the mailer answers.
\<close>

theorem reap_leaves_nothing_overdue:
  assumes "reachable_control lower inet sha digest (ctl w)" "rp_org r = None"
    "ReapOnce rfc3339 k r w = (err, mail, w')"
  shows "let s = core (ctl w); t = core (ctl w') in
    err = None \<and>
    environments t = map (\<lambda>e. if rp_notify r \<noteq> None \<and> close_to_expiry (now (at_warn k)) e
        then e\<lparr>env_warned_at := Some (now (at_warn k))\<rparr> else e) (filter (\<lambda>e. \<not> overdue (now (at_expire k)) e) (environments s)) \<and>
    deployments t = filter (\<lambda>d. \<not> ends (now (at_expire k)) s (dep_env d)) (deployments s) \<and>
    service_instances t = filter (\<lambda>i. \<not> (\<exists>d \<in> set (deployments s). dep_id d = inst_dep i \<and> ends (now (at_expire k)) s (dep_env d)))
      (service_instances s) \<and>
    secrets t = filter (\<lambda>x. \<not> ends (now (at_expire k)) s (sec_env x) \<and> \<not> outdated (now (at_prune k)) s x) (secrets s) \<and>
    (\<forall>b \<in> set (tombstones t). now (at_tombs k) - seconds 86400 \<le> tomb_created_at b \<and>
      (b \<in> set (tombstones s) \<or> (\<exists>e \<in> set (environments s). overdue (now (at_expire k)) e \<and> tomb_env8 b = take 8 (env_id e)))) \<and>
    (\<forall>b \<in> set (tombstones s). now (at_tombs k) - seconds 86400 \<le> tomb_created_at b \<longrightarrow> b \<in> set (tombstones t)) \<and>
    nodes t = nodes s \<and> organizations t = organizations s \<and> applications t = applications s \<and> stacks t = stacks s \<and>
    stack_versions t = stack_versions s \<and>
    ctl w' = (ctl w)\<lparr>core := t, log_requests := log_requests (ctl w')\<rparr> \<and>
    set (log_requests (ctl w')) = {l \<in> set (log_requests (ctl w)). now (at_logs k) \<le> lq_expires_at l \<and>
      lq_instance l \<in> inst_id ` set (service_instances t) \<and> lq_env l \<in> env_id ` set (environments t)} \<and>
    (\<forall>b i e. wd_logs w' = Some b \<longrightarrow> (i, e) \<in> set (buf_entries b) \<longrightarrow>
      at_wall k - seconds 600 \<le> en_seen e \<and>
      (\<forall>l \<in> set (log_requests (ctl w)). lq_id l = i \<longrightarrow> now (at_logs k) \<le> lq_expires_at l \<or>
        lq_env l \<notin> env_id ` set (environments t) \<or> lq_instance l \<notin> inst_id ` set (service_instances t)))"
proof -
  from reachable_control_inv [OF assms(1)] have inv: "store_inv (core (ctl w))" by (simp add: control_inv_def)
  obtain reaped t s2 where none: "err = None"
    and ex: "expireEnvironments (at_expire k) None (core (ctl w)) = Inr (reaped, t)"
    and s2: "s2 = snd (warnExpiring rfc3339 k r (cascade_logs ((ctl w)\<lparr>core := t\<rparr>)))"
    and w': "w' = w\<lparr>ctl := on_core (sweepTombstones (at_tombs k) None TombstoneRetention)
         (on_core (\<lambda>d. snd (PruneSecretVersions (at_prune k) None SecretVersionRetention d)) (snd (SweepLogRequests (at_logs k) s2))),
       wd_logs := free_buffers (at_wall k) (fst (SweepLogRequests (at_logs k) s2)) (wd_logs w)\<rparr>"
    using ReapOnce_world [OF inv assms(3)] unfolding assms(2) by metis
  define u where "u = sweepTombstones (at_tombs k) None TombstoneRetention (snd (PruneSecretVersions (at_prune k) None SecretVersionRetention (core s2)))"
  have core: "core (ctl w') = u" by (simp add: w' u_def)
  note exp = expire_tables [OF inv ex] and tab = ReapOnce_core [OF inv ex s2 assms(2) u_def]
  have logs: "set (log_requests (ctl w')) = {l \<in> set (log_requests s2). now (at_logs k) \<le> lq_expires_at l \<and>
       lq_instance l \<in> inst_id ` set (service_instances u) \<and> lq_env l \<in> env_id ` set (environments u)}"
    by (auto simp: w' logs_on_core_eq u_def sweepTombstones_def PruneSecretVersions_def)
  note log = ReapOnce_logs [OF s2 tab(1) _ tab(3) core logs, simplified]
  have accounts: "ctl w' = (ctl w)\<lparr>core := u, log_requests := log_requests (ctl w')\<rparr>"
    unfolding u_def w' s2 using ReapOnce_accounts by simp
  have secs: "secrets u = filter (\<lambda>x. \<not> ends (now (at_expire k)) (core (ctl w)) (sec_env x) \<and> \<not> outdated (now (at_prune k)) (core (ctl w)) x)
      (secrets (core (ctl w)))"
    by (auto simp: tab(4) exp(3) outdated_def intro!: filter_cong)
  have bufs: "at_wall k - seconds 600 \<le> en_seen e \<and> (\<forall>l \<in> set (log_requests (ctl w)). lq_id l = i \<longrightarrow> now (at_logs k) \<le> lq_expires_at l \<or>
      lq_env l \<notin> env_id ` set (environments u) \<or> lq_instance l \<notin> inst_id ` set (service_instances u))"
    if "wd_logs w' = Some b" "(i, e) \<in> set (buf_entries b)" for b i e
    using entries_free_buffers [OF _ that(2)] that(1) log(2) by (fastforce simp: w' LogBufferIdleTTL_def)
  obtain x where x: "tombstones t = tombstones (core (ctl w)) @ x"
    "tomb_env8 ` set x \<subseteq> {take 8 (env_id e) |e. e \<in> set (environments (core (ctl w))) \<and> overdue (now (at_expire k)) e}" using exp(5) by blast
  have tombs: "now (at_tombs k) - seconds 86400 \<le> tomb_created_at b \<and> (b \<in> set (tombstones (core (ctl w))) \<or>
      (\<exists>e \<in> set (environments (core (ctl w))). overdue (now (at_expire k)) e \<and> tomb_env8 b = take 8 (env_id e)))"
    if "b \<in> set (tombstones u)" for b
    using that x(2) by (auto simp: tab(5) x(1))
  have young: "\<forall>b \<in> set (tombstones (core (ctl w))). now (at_tombs k) - seconds 86400 \<le> tomb_created_at b \<longrightarrow> b \<in> set (tombstones u)"
    by (simp add: tab(5) x(1))
  show ?thesis
    unfolding Let_def core using none tab(1-3) secs exp(1,2,4) tab(6-) exp(6-) accounts log(1) bufs tombs young by simp
qed

lemma reachable_core:
  assumes "reachable_db inet sha digest d"
  shows "reachable_control lower inet sha digest (empty_control\<lparr>core := d\<rparr>)"
  using assms unfolding reachable_db_def
proof (induction rule: rtranclp_induct)
  case base
  have "empty_control\<lparr>core := empty_db\<rparr> = empty_control" by (simp add: empty_control_def)
  then show ?case by (simp add: reachable_control_def)
next
  case (step y z)
  from step(2) have "control_step lower inet sha digest (empty_control\<lparr>core := y\<rparr>)
      (cascade_logs ((empty_control\<lparr>core := y\<rparr>)\<lparr>core := z\<rparr>))" by (intro ct_core) simp
  moreover have "cascade_logs ((empty_control\<lparr>core := y\<rparr>)\<lparr>core := z\<rparr>) = empty_control\<lparr>core := z\<rparr>"
    by (simp add: cascade_logs_def empty_control_def)
  ultimately show ?case using step(3) unfolding reachable_control_def by (simp add: rtranclp.rtrancl_into_rtrancl)
qed

definition ex_overdue :: world where
  "ex_overdue = \<lparr>ctl = empty_control\<lparr>core := ok_db preview_placed\<rparr>, wd_logs = Some New\<rparr>"

definition ex_reap_clock :: reap_clock where
  "ex_reap_clock = (let c = ex_call\<lparr>now := 2000\<rparr> in
     \<lparr>at_expire = c, at_warn = c, at_logs = c, at_prune = c, at_tombs = c, at_wall = 2000\<rparr>)"

abbreviation ex_reap :: "store_error option \<times> (message \<times> string option) list \<times> world" where
  "ex_reap \<equiv> ReapOnce (\<lambda>_. []) ex_reap_clock \<lparr>rp_org = None, rp_notify = Some (\<lambda>_. None)\<rparr> ex_overdue"

theorem reap_leaves_nothing_overdue_witness:
  "fst ex_reap = None \<and>
   map env_id (environments (core (ctl (snd (snd ex_reap))))) =
     map env_id (filter (\<lambda>e. \<not> overdue 2000 e) (environments (ok_db preview_placed))) \<and>
   length (filter (overdue 2000) (environments (ok_db preview_placed))) = 1"
proof (intro conjI)
  obtain err mail w' where run: "ex_reap = (err, mail, w')" by (cases ex_reap)
  have reach: "reachable_control ex_lower ex_inet ex_sha ex_digest (ctl ex_overdue)"
    unfolding ex_overdue_def using reachable_core [OF preview_placed_reach] by simp
  have clock: "now (at_expire ex_reap_clock) = 2000" "core (ctl ex_overdue) = ok_db preview_placed"
    by (simp_all add: ex_reap_clock_def Let_def ex_overdue_def)
  note all = reap_leaves_nothing_overdue [OF reach _ run, unfolded Let_def clock, OF reaper.select_convs(1)]
  from all show "fst ex_reap = None" by (simp only: run fst_conv)
  from all have "environments (core (ctl w')) = map (\<lambda>e. if rp_notify \<lparr>rp_org = None, rp_notify = Some (\<lambda>_. None)\<rparr> \<noteq> None \<and>
      close_to_expiry (now (at_warn ex_reap_clock)) e then e\<lparr>env_warned_at := Some (now (at_warn ex_reap_clock))\<rparr> else e)
      (filter (\<lambda>e. \<not> overdue 2000 e) (environments (ok_db preview_placed)))" by blast
  then show "map env_id (environments (core (ctl (snd (snd ex_reap))))) =
      map env_id (filter (\<lambda>e. \<not> overdue 2000 e) (environments (ok_db preview_placed)))"
    by (simp add: run)
  have "length (filter (expired (ex_call\<lparr>now := 2000\<rparr>)) (environments (ok_db preview_placed))) = 1" by code_simp
  then show "length (filter (overdue 2000) (environments (ok_db preview_placed))) = 1"
    by (simp add: expired_overdue [abs_def])
qed

end
