(* ===== verification/Store_Progress.thy ===== *)
theory Store_Progress
  imports Store_Placement
begin

text \<open>
  When the store's operations succeed. The loops of \<open>internal/rollout\<close> only propose legal steps; the
  lemmas here say that on a database satisfying the invariant such a step is never refused, and what
  the row of the deployment is afterwards.
\<close>

section \<open>State changes\<close>

lemma get_dep_touch:
  assumes "\<And>d. dep_id (f d) = dep_id d"
  shows "get_dep (s\<lparr>deployments := touch_dep c P f (deployments s)\<rparr>) i =
    map_option (\<lambda>d. if P d then (f d)\<lparr>dep_updated_at := now c\<rparr> else d) (get_dep s i)"
  unfolding touch_dep_map by (subst get_dep_map) (simp_all add: assms get_dep_def)

lemma touch_indexes:
  assumes ix: "dep_indexes_ok D" and to: "to \<noteq> DeployLive"
    and act: "\<And>d. P d \<Longrightarrow> to \<in> set ActiveDeployStates \<Longrightarrow> is_active d"
    and f: "\<And>d. f d = d\<lparr>dep_state := to, dep_failure := x\<rparr>"
  shows "dep_indexes_ok (touch_dep c P f D)"
proof -
  let ?g = "\<lambda>d. if P d then (f d)\<lparr>dep_updated_at := now c\<rparr> else d"
  have "unique_on is_live dep_env (update_where (\<lambda>_. True) ?g D)"
    using ix to by (intro unique_on_update_where) (auto simp: dep_indexes_ok_def is_live_def f split: if_splits)
  then have "unique_on is_live dep_env (map ?g D)" by (simp add: update_where_def)
  with ix act have "dep_indexes_ok (map ?g D)"
    by (intro map_g_indexes) (auto simp: f is_active_def split: if_splits)
  then show ?thesis by (simp add: touch_dep_map)
qed

definition moved :: "call \<Rightarrow> deployment_state \<Rightarrow> string option \<Rightarrow> deployment \<Rightarrow> deployment" where
  "moved c to why d = d\<lparr>dep_state := to, dep_failure := why, dep_updated_at := now c\<rparr>"

lemma moved_simps [simp]:
  "dep_state (moved c to why d) = to" "dep_id (moved c to why d) = dep_id d" "dep_env (moved c to why d) = dep_env d"
  "dep_spec (moved c to why d) = dep_spec d" "dep_failure (moved c to why d) = why"
  by (simp_all add: moved_def)

lemma UpdateDeploymentState_total:
  assumes inv: "store_inv s" and d: "get_dep s i = Some d"
    and to: "validTransitions to = Some allowed" "dep_state d \<in> set allowed" "to \<in> {DeployStarting, DeployHealthy, DeployFailed}"
  obtains t where "UpdateDeploymentState c i to why s = Inr ((), t)" "get_dep t i = Some (moved c to (nullif why) d)"
    "service_instances t = service_instances s" "environments t = environments s" "nodes t = nodes s"
proof -
  let ?P = "\<lambda>d. dep_id d = i \<and> dep_state d \<in> set allowed"
  let ?f = "\<lambda>d. d\<lparr>dep_state := to, dep_failure := nullif why\<rparr>"
  let ?s1 = "s\<lparr>deployments := touch_dep c ?P ?f (deployments s)\<rparr>"
  have id: "dep_id d = i" and mem: "d \<in> set (deployments s)" using get_depD [OF d] by auto
  have ix: "dep_indexes_ok (touch_dep c ?P ?f (deployments s))"
    using to store_inv_indexes [OF inv]
    by (intro touch_indexes [where to = to]) (auto simp: validTransitions_def is_active_def ActiveDeployStates_def)
  have g1: "get_dep ?s1 i = Some (moved c to (nullif why) d)"
    using id to(2) d by (subst get_dep_touch) (simp_all add: moved_def)
  from inv have live: "live_inv (environments s) (deployments s)" by (simp add: store_inv_def)
  obtain e where e: "e \<in> set (environments s)" "env_id e = dep_env d" using live_inv_env [OF live mem] by blast
  then have "get_env s (dep_env d) = Some e" using get_env_iff [OF live_inv_distinct [OF live]] by blast
  then have "org_known s (dep_env d)" by (rule org_known_env [OF inv])
  moreover have "org_known ?s1 (dep_env d) = org_known s (dep_env d)" by (rule org_known_cong) (simp_all add: get_env_def)
  ultimately have "\<exists>t. appendDeploymentEventTx c i kind msg pl ?s1 = Inr t" for kind msg pl
    by (intro appendDeploymentEventTx_total [OF g1]) simp
  then obtain t where t: "appendDeploymentEventTx c i ''deployment.state_changed''
      (''deployment entered '' @ state_text to) [(''state'', JStr (state_text to)), (''reason'', JStr why)] ?s1 = Inr t" by blast
  have run: "UpdateDeploymentState c i to why s = Inr ((), t)"
    using t ix mem id to(1,2)
    by (auto simp: UpdateDeploymentState_def Let_def map_result_def write_deps_def find_row_None_iff)
  from t obtain ev where "t = ?s1\<lparr>events := events ?s1 @ [ev]\<rparr>" by (rule appendDeploymentEventTx_ok)
  with that [OF run] g1 show ?thesis by (simp add: get_dep_def)
qed

section \<open>Placement\<close>

lemma insertInstancesTx_total:
  assumes "get_dep s dep \<noteq> None" "get_node s nd \<noteq> None" "distinct (map fst insts)"
    "\<forall>(i, ni) \<in> set insts. \<forall>r \<in> set (service_instances s). inst_id r \<noteq> i"
  shows "\<exists>t. insertInstancesTx c dep nd insts s = Inr t"
  using assms
proof (induction c dep nd insts s rule: insertInstancesTx.induct)
  case (2 c dep nd i ni rest s)
  show ?case
  proof (cases "list_ex (\<lambda>r. inst_dep r = dep \<and> inst_service r = ni_service ni) (service_instances s)")
    case True
    with 2 show ?thesis by simp
  next
    case False
    let ?s1 = "s\<lparr>service_instances := service_instances s @ [instance_row c i dep nd ni]\<rparr>"
    from "2.prems" have fresh: "\<not> list_ex (\<lambda>r. inst_id r = i) (service_instances s)"
      and fk: "\<not> (get_dep s dep = None \<or> get_node s nd = None)" by (auto simp: list_ex_iff)
    have "get_dep ?s1 dep \<noteq> None" "get_node ?s1 nd \<noteq> None" using fk by (simp_all add: get_dep_def get_node_def)
    moreover have "\<forall>(j, nj) \<in> set rest. \<forall>r \<in> set (service_instances ?s1). inst_id r \<noteq> j"
      using "2.prems"(3,4) by (force simp: instance_row_def)
    ultimately show ?thesis
      using "2.IH"(2) [OF False fresh fk] "2.prems"(3) False fresh fk by simp
  qed
qed simp

lemma PlaceDeployment_total:
  assumes inv: "store_inv s" and d: "get_dep s i = Some d" "dep_state d = DeployPending"
    and e: "get_env s (dep_env d) = Some e" "env_home e = None \<or> env_home e = Some nd"
    and n: "get_node s nd = Some n" "\<not> lacks_capacity n cpu mem"
    and range: "in_i32 cpu" "in_i32 (node_alloc_cpu n + cpu)" "in_i64 (node_alloc_mem n + mem)"
    and ids: "distinct (map fst insts)" "\<forall>(j, ni) \<in> set insts. \<forall>r \<in> set (service_instances s). inst_id r \<noteq> j"
  shows "\<exists>t. PlaceDeployment c i nd insts cpu mem s = Inr ((), t)"
proof -
  obtain s1 where s1: "insertInstancesTx c i nd insts s = Inr s1"
    using insertInstancesTx_total [of s i nd insts c] d(1) n(1) ids by auto
  then obtain new where s1': "s1 = s\<lparr>service_instances := service_instances s @ new\<rparr>"
    by (rule insertInstancesTx_frame)
  let ?s1 = "if env_home e = None then bind_home (dep_env d) nd s1 else s1"
  have same: "get_node ?s1 nd = Some n" "deployments ?s1 = deployments s" "nodes ?s1 = nodes s"
    using n(1) by (auto simp: s1' bind_home_def get_node_def)
  define s2 where "s2 = ?s1\<lparr>nodes := update_where (\<lambda>r. node_id r = nd)
      (\<lambda>r. r\<lparr>node_alloc_cpu := node_alloc_cpu r + cpu, node_alloc_mem := node_alloc_mem r + mem\<rparr>) (nodes ?s1)\<rparr>"
  have s2: "reserve nd cpu mem ?s1 = Inr s2" using same range by (simp add: reserve_def s2_def)
  have deps: "deployments s2 = deployments s" by (simp add: s2_def same)
  let ?P = "\<lambda>r. dep_id r = i \<and> dep_state r = DeployPending"
  let ?f = "\<lambda>r. r\<lparr>dep_state := DeployScheduling, dep_failure := None\<rparr>"
  let ?s3 = "s2\<lparr>deployments := touch_dep c ?P ?f (deployments s2)\<rparr>"
  have ix: "dep_indexes_ok (touch_dep c ?P ?f (deployments s2))"
    unfolding deps by (rule touch_indexes [OF store_inv_indexes [OF inv], where to = DeployScheduling])
      (auto simp: is_active_def ActiveDeployStates_def)
  have id: "dep_id d = i" using get_depD [OF d(1)] by simp
  have "get_dep s2 i = Some d" using d(1) by (simp add: get_dep_def deps)
  then have g3: "get_dep ?s3 i = Some (moved c DeployScheduling None d)"
    using id d(2) by (subst get_dep_touch) (simp_all add: moved_def)
  have "map_option env_stack_id (get_env ?s3 (dep_env d)) = map_option env_stack_id (get_env s (dep_env d))"
    using e(1) by (auto simp: s2_def s1' bind_home_def get_env_def bind.lookup_update)
  then have "org_known ?s3 (dep_env d) = org_known s (dep_env d)"
    by (intro org_known_cong) (auto simp: s2_def s1' bind_home_def)
  then have "org_known ?s3 (dep_env d)" using org_known_env [OF inv e(1)] by simp
  then obtain t where "appendDeploymentEventTx c i ''deployment.state_changed'' ''deployment entered scheduling''
      [(''state'', JStr ''scheduling'')] ?s3 = Inr t"
    using appendDeploymentEventTx_total [OF g3] by fastforce
  with e d n s1 s2 ix show ?thesis by (auto simp: PlaceDeployment_def write_deps_def)
qed

end
