(* ===== verification/Scheduler.thy ===== *)
theory Scheduler
  imports Store_Progress Go_Float
begin

text \<open>
  \<open>internal/rollout/scheduler.go\<close>: one tick of the placement loop. The score of a node is computed in
  IEEE double precision; \<open>f64\<close> is the rounding to 53 significant bits, ties to even. The quotients
  rounded here lie between \<open>2^(-64)\<close> and \<open>2^64\<close> in size or are zero, far from the ranges where a double
  over- or underflows.
\<close>

section \<open>The choice of a node\<close>

definition FreeMemoryBytes :: "node \<Rightarrow> int" where
  "FreeMemoryBytes n = i64 (node_mem n - node_alloc_mem n)"

definition FreeCPUMillis :: "node \<Rightarrow> int" where
  "FreeCPUMillis n = i64 (node_cpu n - node_alloc_cpu n)"

definition freeRatio :: "node \<Rightarrow> rat" where
  "freeRatio n =
     (let mem = (if node_mem n > 0
                 then f64 (f64 (of_int (FreeMemoryBytes n)) / f64 (of_int (node_mem n))) else 1);
          cpu = (if node_cpu n > 0
                 then f64 (f64 (of_int (FreeCPUMillis n)) / f64 (of_int (node_cpu n))) else 1)
      in min mem cpu)"

fun bestNode_loop ::
  "(uuid \<Rightarrow> nat) \<Rightarrow> int \<Rightarrow> int \<Rightarrow> node list \<Rightarrow> node option \<times> nat \<times> rat \<Rightarrow> node option \<times> nat \<times> rat" where
  "bestNode_loop homed peakCPU peakMemory [] st = st"
| "bestNode_loop homed peakCPU peakMemory (n # ns) (best, bestHomed, bestFree) =
     (if FreeMemoryBytes n < peakMemory \<or> FreeCPUMillis n < peakCPU
      then bestNode_loop homed peakCPU peakMemory ns (best, bestHomed, bestFree)
      else
        let h = homed (node_id n); free = freeRatio n;
            take_it = (case best of
                None \<Rightarrow> True
              | Some b \<Rightarrow>
                  if h < bestHomed then True
                  else if h > bestHomed then False
                  else if free > bestFree then True
                  else if free < bestFree then False
                  else node_id n < node_id b)
        in bestNode_loop homed peakCPU peakMemory ns
             (if take_it then (Some n, h, free) else (best, bestHomed, bestFree)))"

definition bestNode :: "(uuid \<Rightarrow> nat) \<Rightarrow> int \<Rightarrow> int \<Rightarrow> node list \<Rightarrow> node option" where
  "bestNode homed peakCPU peakMemory nodes1 = fst (bestNode_loop homed peakCPU peakMemory nodes1 (None, 0, 0))"

definition nodeByID :: "node list \<Rightarrow> uuid \<Rightarrow> node option" where
  "nodeByID ns i = find_row (\<lambda>n. node_id n = i) ns"

section \<open>One placement\<close>

text \<open>
  The instance rows of a placement; \<open>gen\<close> supplies the random row identifier of each service of a
  deployment.
\<close>

definition wanted_rows :: "(uuid \<Rightarrow> string \<Rightarrow> uuid) \<Rightarrow> deployment \<Rightarrow> (uuid \<times> new_instance) list" where
  "wanted_rows gen d = map (\<lambda>ni. (gen (dep_id d) (ni_service ni), ni)) (spec_instances (dep_spec d))"

definition commit ::
  "call \<Rightarrow> (uuid \<Rightarrow> string \<Rightarrow> uuid) \<Rightarrow> deployment \<Rightarrow> uuid \<Rightarrow> int \<Rightarrow> int \<Rightarrow> db \<Rightarrow> store_error + (unit \<times> db)" where
  "commit c gen d nd peakCPU peakMemory s =
     (case PlaceDeployment c (dep_id d) nd (wanted_rows gen d) peakCPU peakMemory s of
        Inl e \<Rightarrow> if is_conflict e then UpdateDeploymentState c (dep_id d) DeployFailed (error_text e) s else Inl e
      | Inr r \<Rightarrow> Inr r)"

definition home_lacks :: "uuid \<Rightarrow> int \<Rightarrow> int \<Rightarrow> string" where
  "home_lacks nd mem cpu =
     ''home node '' @ nd @ '' lacks capacity for this rollout (needs '' @ show_int mem @ '' bytes, '' @
     show_int cpu @ '' millicpu)''"

definition fleet_lacks :: "int \<Rightarrow> int \<Rightarrow> string" where
  "fleet_lacks mem cpu =
     ''no ready node has '' @ show_int mem @ '' bytes and '' @ show_int cpu @ '' millicpu free for the rollout''"

definition place ::
  "call \<Rightarrow> (uuid \<Rightarrow> string \<Rightarrow> uuid) \<Rightarrow> pending_deployment \<Rightarrow> db \<Rightarrow> store_error + (unit \<times> db)" where
  "place c gen p s =
     (let ready = ListReadyNodes c (pd_org p) s; d = pd_dep p;
          peakMemory = PeakMemoryBytes (dep_spec d); peakCPU = PeakCPUMillis (dep_spec d) in
      if ready = [] then Inr ((), s)
      else (case pd_home p of
          Some h \<Rightarrow>
            (case nodeByID ready h of
               None \<Rightarrow> Inr ((), s)
             | Some home \<Rightarrow>
                 if FreeMemoryBytes home < peakMemory \<or> FreeCPUMillis home < peakCPU
                 then UpdateDeploymentState c (dep_id d) DeployFailed
                        (home_lacks (node_id home) peakMemory peakCPU) s
                 else commit c gen d (node_id home) peakCPU peakMemory s)
        | None \<Rightarrow>
            (case bestNode (EnvironmentsHomedPerNode (pd_org p) s) peakCPU peakMemory ready of
               None \<Rightarrow> UpdateDeploymentState c (dep_id d) DeployFailed (fleet_lacks peakMemory peakCPU) s
             | Some n \<Rightarrow> commit c gen d (node_id n) peakCPU peakMemory s)))"

text \<open>The loop of a tick: a placement that fails is logged and the next one is tried.\<close>

fun place_all ::
  "call \<Rightarrow> (uuid \<Rightarrow> string \<Rightarrow> uuid) \<Rightarrow> pending_deployment list \<Rightarrow> db \<Rightarrow> db" where
  "place_all c gen [] s = s"
| "place_all c gen (p # ps) s =
     place_all c gen ps (case place c gen p s of Inl e \<Rightarrow> s | Inr (u, t) \<Rightarrow> t)"

definition ScheduleOnce :: "call \<Rightarrow> uuid option \<Rightarrow> (uuid \<Rightarrow> string \<Rightarrow> uuid) \<Rightarrow> db \<Rightarrow> db" where
  "ScheduleOnce c org gen s =
     (let s1 = MarkStaleNodesUnreachable c s in place_all c gen (listPendingDeployments org s1) s1)"

section \<open>Selection by scanning\<close>

text \<open>
  What a left-to-right scan that keeps the best candidate so far computes, for any strict order that
  is total on candidates with different identifiers.
\<close>

locale selection =
  fixes fits :: "'a \<Rightarrow> bool" and better :: "'a \<Rightarrow> 'a \<Rightarrow> bool" and ident :: "'a \<Rightarrow> 'k"
    and pick :: "'a list \<Rightarrow> 'a option"
  assumes better_irrefl: "\<not> better x x"
    and better_trans: "better x y \<Longrightarrow> better y z \<Longrightarrow> better x z"
    and better_total: "ident x \<noteq> ident y \<Longrightarrow> better x y \<or> better y x"
    and pick_Nil: "pick [] = None"
    and pick_snoc: "pick (xs @ [x]) =
      (if fits x \<and> (case pick xs of None \<Rightarrow> True | Some b \<Rightarrow> better x b) then Some x else pick xs)"
begin

definition best :: "'a list \<Rightarrow> 'a \<Rightarrow> bool" where
  "best xs x \<longleftrightarrow> x \<in> set xs \<and> fits x \<and> (\<forall>y \<in> set xs. fits y \<longrightarrow> y = x \<or> better x y)"

lemma pick_cases:
  assumes "distinct (map ident xs)"
  shows "case pick xs of None \<Rightarrow> \<forall>x \<in> set xs. \<not> fits x | Some x \<Rightarrow> best xs x"
  using assms
proof (induction xs rule: rev_induct)
  case Nil
  then show ?case by (simp add: pick_Nil)
next
  case (snoc x xs)
  then have IH: "case pick xs of None \<Rightarrow> \<forall>x \<in> set xs. \<not> fits x | Some x \<Rightarrow> best xs x" by simp
  have other: "ident x \<noteq> ident y" if "y \<in> set xs" for y using snoc.prems that by (auto simp: image_iff)
  show ?case
  proof (cases "pick xs")
    case None
    with IH show ?thesis by (auto simp: pick_snoc best_def)
  next
    case (Some b)
    with IH have b: "best xs b" by simp
    then have mem: "b \<in> set xs" by (simp add: best_def)
    show ?thesis
    proof (cases "fits x \<and> better x b")
      case True
      then have "y = x \<or> better x y" if "y \<in> set (xs @ [x])" "fits y" for y
        using b that better_trans by (auto simp: best_def)
      with True Some show ?thesis by (simp add: pick_snoc best_def)
    next
      case False
      with better_total [OF other [OF mem]] b Some show ?thesis by (auto simp: pick_snoc best_def)
    qed
  qed
qed

lemma best_unique: "best xs x \<Longrightarrow> best xs y \<Longrightarrow> x = y"
  unfolding best_def using better_trans better_irrefl by blast

lemma pick_None_iff: "distinct (map ident xs) \<Longrightarrow> pick xs = None \<longleftrightarrow> (\<forall>x \<in> set xs. \<not> fits x)"
  using pick_cases [of xs] by (auto simp: best_def split: option.splits)

lemma pick_Some_iff: "distinct (map ident xs) \<Longrightarrow> pick xs = Some x \<longleftrightarrow> best xs x"
  using pick_cases [of xs] best_unique [of xs x] by (auto simp: best_def split: option.splits)

lemma pick_perm:
  assumes "distinct (map ident xs)" "mset ys = mset xs"
  shows "pick ys = pick xs"
proof -
  have same: "set ys = set xs" using assms(2) by (rule mset_eq_setD)
  have "mset (map ident ys) = mset (map ident xs)" using assms(2) by (simp only: mset_map)
  from mset_eq_imp_distinct_iff [OF this] assms(1) have "distinct (map ident ys)" by blast
  then have "pick ys = Some x \<longleftrightarrow> best ys x" for x by (rule pick_Some_iff)
  moreover have "best ys x \<longleftrightarrow> best xs x" for x by (simp only: best_def same)
  moreover have "pick xs = Some x \<longleftrightarrow> best xs x" for x using assms(1) by (rule pick_Some_iff)
  ultimately have "pick ys = Some x \<longleftrightarrow> pick xs = Some x" for x by blast
  then show ?thesis by (metis option.exhaust)
qed

end

definition fits_node :: "int \<Rightarrow> int \<Rightarrow> node \<Rightarrow> bool" where
  "fits_node cpu mem n \<longleftrightarrow> mem \<le> FreeMemoryBytes n \<and> cpu \<le> FreeCPUMillis n"

text \<open>Fewer homed environments first, then more free capacity, then the smaller identifier.\<close>

definition better_node :: "(uuid \<Rightarrow> nat) \<Rightarrow> node \<Rightarrow> node \<Rightarrow> bool" where
  "better_node homed n m \<longleftrightarrow>
     homed (node_id n) < homed (node_id m) \<or>
     (homed (node_id n) = homed (node_id m) \<and>
       (freeRatio n > freeRatio m \<or> (freeRatio n = freeRatio m \<and> node_id n < node_id m)))"

text \<open>The cached score of the loop is the score of the node it holds.\<close>

definition scored :: "(uuid \<Rightarrow> nat) \<Rightarrow> node option \<times> nat \<times> rat \<Rightarrow> bool" where
  "scored homed st = (case st of (None, _, _) \<Rightarrow> True
     | (Some b, h, f) \<Rightarrow> h = homed (node_id b) \<and> f = freeRatio b)"

lemma bestNode_loop_append:
  "bestNode_loop homed cpu mem (xs @ ys) st = bestNode_loop homed cpu mem ys (bestNode_loop homed cpu mem xs st)"
  by (induction homed cpu mem xs st rule: bestNode_loop.induct) (simp_all add: Let_def)

lemma bestNode_loop_scored: "scored homed st \<Longrightarrow> scored homed (bestNode_loop homed cpu mem xs st)"
  by (induction homed cpu mem xs st rule: bestNode_loop.induct) (auto simp: scored_def Let_def)

lemma bestNode_snoc:
  "bestNode homed cpu mem (xs @ [n]) =
     (if fits_node cpu mem n \<and> (case bestNode homed cpu mem xs of None \<Rightarrow> True | Some b \<Rightarrow> better_node homed n b)
      then Some n else bestNode homed cpu mem xs)"
proof -
  obtain b h f where st: "bestNode_loop homed cpu mem xs (None, 0, 0) = (b, h, f)" by (cases "bestNode_loop homed cpu mem xs (None, 0, 0)")
  have "scored homed (b, h, f)" using bestNode_loop_scored [of homed "(None, 0, 0)" cpu mem xs] by (simp add: st scored_def)
  then show ?thesis
  proof (cases b)
    case None
    then show ?thesis
      by (simp add: bestNode_def bestNode_loop_append st fits_node_def Let_def not_less)
  next
    case (Some x)
    with \<open>scored homed (b, h, f)\<close> have "h = homed (node_id x)" "f = freeRatio x" by (simp_all add: scored_def)
    with Some show ?thesis
      by (cases "homed (node_id n)" "homed (node_id x)" rule: linorder_cases;
          cases "freeRatio n" "freeRatio x" rule: linorder_cases)
         (simp_all add: bestNode_def bestNode_loop_append st fits_node_def better_node_def not_less Let_def)
  qed
qed

interpretation best: selection "fits_node cpu mem" "better_node homed" node_id "bestNode homed cpu mem" for cpu mem homed
proof
  show "bestNode homed cpu mem [] = None" by (simp add: bestNode_def)
qed (auto simp: better_node_def bestNode_snoc)

text \<open>
  C29: the node chosen for an unbound environment. No node is chosen exactly when no ready node has
  room for the rollout; otherwise the chosen one has room and, among those that do, is the one with
  the fewest homed environments, then the largest free fraction, then the smallest identifier. The
  choice does not depend on the order in which the database returned the nodes.
\<close>

theorem best_node_is_optimal:
  assumes "distinct (map node_id ns)"
  shows "(bestNode homed cpu mem ns = None \<longleftrightarrow> (\<forall>n \<in> set ns. \<not> fits_node cpu mem n)) \<and>
    (\<forall>n. bestNode homed cpu mem ns = Some n \<longleftrightarrow> n \<in> set ns \<and> fits_node cpu mem n \<and>
       (\<forall>m \<in> set ns. fits_node cpu mem m \<longrightarrow> m = n \<or> better_node homed n m)) \<and>
    (\<forall>ns'. mset ns' = mset ns \<longrightarrow> bestNode homed cpu mem ns' = bestNode homed cpu mem ns)"
  using best.pick_None_iff [OF assms] best.pick_Some_iff [OF assms] best.pick_perm [OF assms]
  unfolding best.best_def by blast

definition ex_node :: "uuid \<Rightarrow> int \<Rightarrow> node" where
  "ex_node i used = \<lparr>node_id = i, node_org = ''o1'', node_hostname = i, node_addr = ''10.0.0.1'', node_state = NodeReady,
     node_cpu = 4000, node_mem = 8000, node_alloc_cpu = 0, node_alloc_mem = used, node_labels = [],
     node_agent_version = None, node_recipient = None, node_pending_recipient = None, node_token_hash = None,
     node_heartbeat = Some 1000, node_created_at = 0\<rparr>"

theorem best_node_is_optimal_witness:
  "bestNode (\<lambda>_. 0) 100 1000 [ex_node ''a'' 7500, ex_node ''b'' 4000, ex_node ''c'' 2000] = Some (ex_node ''c'' 2000) \<and>
   bestNode (\<lambda>_. 0) 100 1000 [ex_node ''c'' 2000, ex_node ''b'' 4000, ex_node ''a'' 7500] = Some (ex_node ''c'' 2000)"
proof
  have ids: "distinct (map node_id [ex_node ''a'' 7500, ex_node ''b'' 4000, ex_node ''c'' 2000])" by code_simp
  have best: "map_option node_id (bestNode (\<lambda>_. 0) 100 1000 [ex_node ''a'' 7500, ex_node ''b'' 4000, ex_node ''c'' 2000]) = Some ''c''"
    by code_simp
  then obtain n where n: "bestNode (\<lambda>_. 0) 100 1000 [ex_node ''a'' 7500, ex_node ''b'' 4000, ex_node ''c'' 2000] = Some n" "node_id n = ''c''" by auto
  with best_node_is_optimal [OF ids] have "n \<in> set [ex_node ''a'' 7500, ex_node ''b'' 4000, ex_node ''c'' 2000]" by blast
  with n(2) have "n = ex_node ''c'' 2000" by (auto simp: ex_node_def)
  with n(1) show one: "bestNode (\<lambda>_. 0) 100 1000 [ex_node ''a'' 7500, ex_node ''b'' 4000, ex_node ''c'' 2000] = Some (ex_node ''c'' 2000)" by simp
  have "mset [ex_node ''c'' 2000, ex_node ''b'' 4000, ex_node ''a'' 7500] = mset [ex_node ''a'' 7500, ex_node ''b'' 4000, ex_node ''c'' 2000]" by simp
  with best_node_is_optimal [OF ids, of "\<lambda>_. 0" 100 1000] one
  show "bestNode (\<lambda>_. 0) 100 1000 [ex_node ''c'' 2000, ex_node ''b'' 4000, ex_node ''a'' 7500] = Some (ex_node ''c'' 2000)" by metis
qed

section \<open>A tick is a sequence of store calls\<close>

lemma pending_listed:
  assumes "p \<in> set (listPendingDeployments org s)"
  obtains e where "pd_dep p \<in> set (deployments s)" "dep_state (pd_dep p) = DeployPending"
    "get_env s (dep_env (pd_dep p)) = Some e" "pd_home p = env_home e" "org_of_stack s (env_stack_id e) = Some (pd_org p)"
proof -
  from assms obtain d where d: "d \<in> set (deployments s)" "pending_of s org d = Some p"
    by (auto simp: listPendingDeployments_def List.map_filter_def)
  then show ?thesis
    by (auto simp: pending_of_def split: if_splits option.splits intro: that)
qed

text \<open>Deployments keep their environment and specification.\<close>

definition specs_kept :: "db \<Rightarrow> db \<Rightarrow> bool" where
  "specs_kept s t \<longleftrightarrow> (\<forall>i. map_option (\<lambda>d. (dep_env d, dep_spec d)) (get_dep t i) =
     map_option (\<lambda>d. (dep_env d, dep_spec d)) (get_dep s i))"

lemma specs_kept_refl [simp]: "specs_kept s s"
  by (simp add: specs_kept_def)

lemma specs_keptD:
  assumes "specs_kept s t" "get_dep s i = Some d"
  obtains d' where "get_dep t i = Some d'" "dep_env d' = dep_env d" "dep_spec d' = dep_spec d"
proof -
  have "map_option (\<lambda>d. (dep_env d, dep_spec d)) (get_dep t i) = Some (dep_env d, dep_spec d)"
    using assms by (simp add: specs_kept_def)
  with that show ?thesis by (cases "get_dep t i") auto
qed

lemma specs_kept_touch:
  assumes "deployments t = touch_dep c P (\<lambda>d. d\<lparr>dep_state := to, dep_failure := why\<rparr>) (deployments s)"
  shows "specs_kept s t"
proof -
  have "get_dep t i = get_dep (s\<lparr>deployments := touch_dep c P (\<lambda>d. d\<lparr>dep_state := to, dep_failure := why\<rparr>) (deployments s)\<rparr>) i" for i
    by (simp add: get_dep_def assms(1))
  then show ?thesis
    by (auto simp: specs_kept_def get_dep_touch option.map_comp intro!: option.map_cong)
qed

lemma specs_UpdateDeploymentState:
  assumes "UpdateDeploymentState c i to why s = Inr (u, t)" shows "specs_kept s t"
proof -
  from assms obtain P where "deployments t = touch_dep c P (\<lambda>d. d\<lparr>dep_state := to, dep_failure := nullif why\<rparr>) (deployments s)"
    by (rule UpdateDeploymentState_ok) auto
  then show ?thesis by (rule specs_kept_touch)
qed

lemma specs_PlaceDeployment:
  assumes "PlaceDeployment c i nd insts cpu mem s = Inr (u, t)" shows "specs_kept s t"
  using assms
proof (cases rule: PlaceDeployment_ok)
  case not_pending
  then show ?thesis by simp
next
  case placed
  then have "deployments t = touch_dep c (\<lambda>r. dep_id r = i \<and> dep_state r = DeployPending)
      (\<lambda>r. r\<lparr>dep_state := DeployScheduling, dep_failure := None\<rparr>) (deployments s)" by simp
  then show ?thesis by (rule specs_kept_touch)
qed

lemma commit_step:
  assumes "get_dep s (dep_id d) = Some d'" "dep_spec d' = dep_spec d"
    "commit c gen d nd (PeakCPUMillis (dep_spec d)) (PeakMemoryBytes (dep_spec d)) s = Inr (u, t)"
  shows "store_step inet sha digest s t \<and> specs_kept s t"
proof (cases "PlaceDeployment c (dep_id d) nd (wanted_rows gen d) (PeakCPUMillis (dep_spec d)) (PeakMemoryBytes (dep_spec d)) s")
  case (Inl e)
  with assms(3) have "UpdateDeploymentState c (dep_id d) DeployFailed (error_text e) s = Inr (u, t)"
    by (simp add: commit_def split: if_splits)
  then show ?thesis using specs_UpdateDeploymentState by (blast intro: st_state)
next
  case (Inr r)
  with assms(3) have run: "PlaceDeployment c (dep_id d) nd (wanted_rows gen d) (PeakCPUMillis (dep_spec d))
      (PeakMemoryBytes (dep_spec d)) s = Inr (u, t)" by (simp add: commit_def)
  have "map snd (wanted_rows gen d) = spec_instances (dep_spec d')"
    by (simp add: wanted_rows_def comp_def assms(2))
  from st_place [OF assms(1) this] run assms(2) specs_PlaceDeployment [OF run] show ?thesis by simp
qed

lemma place_step:
  assumes "get_dep s (dep_id (pd_dep p)) = Some d'" "dep_spec d' = dep_spec (pd_dep p)" "place c gen p s = Inr (u, t)"
  shows "(t = s \<or> store_step inet sha digest s t) \<and> specs_kept s t"
proof -
  consider "t = s" | why where "UpdateDeploymentState c (dep_id (pd_dep p)) DeployFailed why s = Inr (u, t)"
    | nd where "commit c gen (pd_dep p) nd (PeakCPUMillis (dep_spec (pd_dep p))) (PeakMemoryBytes (dep_spec (pd_dep p))) s = Inr (u, t)"
  proof (cases "ListReadyNodes c (pd_org p) s = []")
    case True
    with assms(3) that(1) show ?thesis by (simp add: place_def)
  next
    case False
    show ?thesis
    proof (cases "pd_home p")
      case None
      with assms(3) False that(2,3) show ?thesis
        by (cases "bestNode (EnvironmentsHomedPerNode (pd_org p) s) (PeakCPUMillis (dep_spec (pd_dep p)))
          (PeakMemoryBytes (dep_spec (pd_dep p))) (ListReadyNodes c (pd_org p) s)") (simp_all add: place_def Let_def)
    next
      case (Some h)
      with assms(3) False that show ?thesis
        by (cases "nodeByID (ListReadyNodes c (pd_org p) s) h") (simp_all add: place_def Let_def split: if_splits)
    qed
  qed
  then show ?thesis
  proof cases
    case 1
    then show ?thesis by simp
  next
    case 2
    then show ?thesis using specs_UpdateDeploymentState by (blast intro: st_state)
  next
    case 3
    with commit_step [OF assms(1,2)] show ?thesis by blast
  qed
qed

lemma place_all_runs:
  assumes "(store_step inet sha digest)\<^sup>*\<^sup>* a s"
    "\<forall>p \<in> set ps. map_option dep_spec (get_dep s (dep_id (pd_dep p))) = Some (dep_spec (pd_dep p))"
  shows "(store_step inet sha digest)\<^sup>*\<^sup>* a (place_all c gen ps s)"
  using assms
proof (induction ps arbitrary: s)
  case (Cons p ps)
  show ?case
  proof (cases "place c gen p s")
    case (Inl e)
    with Cons show ?thesis by simp
  next
    case (Inr r)
    then obtain u t where t: "place c gen p s = Inr (u, t)" by (cases r) auto
    from Cons.prems(2) obtain d' where "get_dep s (dep_id (pd_dep p)) = Some d'" "dep_spec d' = dep_spec (pd_dep p)" by auto
    from place_step [OF this t] have "(store_step inet sha digest)\<^sup>*\<^sup>* a t" "specs_kept s t"
      using Cons.prems(1) by (auto intro: rtranclp.rtrancl_into_rtrancl)
    have "\<forall>q \<in> set ps. map_option dep_spec (get_dep t (dep_id (pd_dep q))) = Some (dep_spec (pd_dep q))"
    proof
      fix q assume "q \<in> set ps"
      with Cons.prems(2) obtain x where x: "get_dep s (dep_id (pd_dep q)) = Some x" "dep_spec x = dep_spec (pd_dep q)" by auto
      from \<open>specs_kept s t\<close> x(1) show "map_option dep_spec (get_dep t (dep_id (pd_dep q))) = Some (dep_spec (pd_dep q))"
        by (rule specs_keptD) (simp add: x(2))
    qed
    from Cons.IH [OF \<open>(store_step inet sha digest)\<^sup>*\<^sup>* a t\<close> this] show ?thesis by (simp add: t)
  qed
qed simp

lemma schedule_once_runs:
  assumes "store_inv s"
  shows "(store_step inet sha digest)\<^sup>*\<^sup>* s (ScheduleOnce c org gen s)"
proof -
  let ?s1 = "MarkStaleNodesUnreachable c s"
  have step: "store_step inet sha digest s ?s1" by (rule st_stale)
  have ids: "distinct (map dep_id (deployments ?s1))" by (rule store_inv_dep_ids [OF store_inv_step [OF step assms]])
  have "map_option dep_spec (get_dep ?s1 (dep_id (pd_dep p))) = Some (dep_spec (pd_dep p))"
    if "p \<in> set (listPendingDeployments org ?s1)" for p
    using that by (rule pending_listed) (use get_dep_iff [OF ids] in auto)
  with r_into_rtranclp [of "store_step inet sha digest", OF step] show ?thesis
    unfolding ScheduleOnce_def Let_def by (intro place_all_runs) auto
qed

text \<open>
  A tick of the scheduler is nothing but a sequence of the store's own operations: from a reachable
  database it leads to a reachable database, so everything proved of the store's calls holds while
  the loop runs, whatever row identifiers are drawn and whichever placements fail.
\<close>

theorem schedule_once_refines_store:
  assumes "reachable_db inet sha digest s"
  shows "reachable_db inet sha digest (ScheduleOnce c org gen s)"
  using schedule_once_runs [OF reachable_store_inv [OF assms]] assms
  unfolding reachable_db_def by (meson rtranclp_trans)

definition ex_gen :: "uuid \<Rightarrow> string \<Rightarrow> uuid" where
  "ex_gen d svc = d @ ''/'' @ svc"

theorem schedule_once_refines_store_witness:
  "ex_reach (ScheduleOnce ex_call None ex_gen (ok_db op7)) \<and>
   map dep_state (deployments (ScheduleOnce ex_call None ex_gen (ok_db op7))) = [DeployScheduling]"
proof
  show "ex_reach (ScheduleOnce ex_call None ex_gen (ok_db op7))"
    by (rule schedule_once_refines_store [OF ex_reach_7])
  show "map dep_state (deployments (ScheduleOnce ex_call None ex_gen (ok_db op7))) = [DeployScheduling]" by code_simp
qed

section \<open>Every placeable deployment is decided\<close>

text \<open>Capacities and allocations as the columns hold them, none of them negative.\<close>

definition sane_node :: "node \<Rightarrow> bool" where
  "sane_node n \<longleftrightarrow> 0 \<le> node_alloc_cpu n \<and> 0 \<le> node_cpu n \<and> node_cpu n < 2 ^ 31 \<and>
     0 \<le> node_alloc_mem n \<and> 0 \<le> node_mem n \<and> node_mem n < 2 ^ 63 \<and>
     node_alloc_cpu n < 2 ^ 31 \<and> node_alloc_mem n < 2 ^ 63"

lemma sane_free:
  assumes "sane_node n"
  shows "FreeMemoryBytes n = node_mem n - node_alloc_mem n" "FreeCPUMillis n = node_cpu n - node_alloc_cpu n"
  using assms unfolding FreeMemoryBytes_def FreeCPUMillis_def sane_node_def
  by (intro i64_id; simp add: in_i64_def)+

lemma lacks_capacity_fits: "lacks_capacity n cpu mem \<longleftrightarrow> \<not> fits_node cpu mem n"
  by (auto simp: lacks_capacity_def fits_node_def FreeMemoryBytes_def FreeCPUMillis_def)

definition fresh_rows :: "(uuid \<Rightarrow> string \<Rightarrow> uuid) \<Rightarrow> deployment \<Rightarrow> db \<Rightarrow> bool" where
  "fresh_rows gen d s \<longleftrightarrow> distinct (map (gen (dep_id d)) (map fst (services (dep_spec d)))) \<and>
     (\<forall>r \<in> set (service_instances s). inst_id r \<notin> gen (dep_id d) ` fst ` set (services (dep_spec d)))"

lemma wanted_rows_fresh:
  assumes "fresh_rows gen d s"
  shows "distinct (map fst (wanted_rows gen d))"
    "\<forall>(j, ni) \<in> set (wanted_rows gen d). \<forall>r \<in> set (service_instances s). inst_id r \<noteq> j"
proof -
  have "map fst (wanted_rows gen d) = map (gen (dep_id d)) (map fst (services (dep_spec d)))"
    by (simp add: wanted_rows_def spec_instances_def comp_def case_prod_unfold)
  with assms show "distinct (map fst (wanted_rows gen d))" by (simp only: fresh_rows_def)
  show "\<forall>(j, ni) \<in> set (wanted_rows gen d). \<forall>r \<in> set (service_instances s). inst_id r \<noteq> j"
    using assms by (force simp: fresh_rows_def wanted_rows_def spec_instances_def)
qed

lemma commit_places:
  assumes inv: "store_inv s" and d: "get_dep s (dep_id d) = Some d" "dep_state d = DeployPending"
    and e: "get_env s (dep_env d) = Some e" "env_home e = None \<or> env_home e = Some (node_id n)"
    and n: "get_node s (node_id n) = Some n" "sane_node n" "fits_node cpu mem n" "0 \<le> cpu" "0 \<le> mem"
    and rows: "fresh_rows gen d s"
  shows "\<exists>t. commit c gen d (node_id n) cpu mem s = Inr ((), t) \<and>
    map_option dep_state (get_dep t (dep_id d)) = Some DeployScheduling \<and>
    map_option env_home (get_env t (dep_env d)) = Some (Some (node_id n))"
proof -
  have fits: "node_alloc_cpu n + cpu \<le> node_cpu n" "node_alloc_mem n + mem \<le> node_mem n"
    using n(3) by (auto simp: fits_node_def sane_free [OF n(2)])
  obtain t where t: "PlaceDeployment c (dep_id d) (node_id n) (wanted_rows gen d) cpu mem s = Inr ((), t)"
    using PlaceDeployment_total [OF inv d e n(1) _ _ _ _ wanted_rows_fresh [OF rows], of cpu mem c] n fits
    by (auto simp: lacks_capacity_fits sane_node_def in_i32_def in_i64_def)
  from t have "map_option dep_state (get_dep t (dep_id d)) = Some DeployScheduling \<and>
    map_option env_home (get_env t (dep_env d)) = Some (Some (node_id n))"
  proof (cases rule: PlaceDeployment_ok)
    case (placed d' e' n' s1 ev)
    from placed(1,3) d e have same: "d' = d" "e' = e" by auto
    have "get_dep t (dep_id d) = get_dep (s\<lparr>deployments := deployments t\<rparr>) (dep_id d)" by (simp add: get_dep_def)
    also have "\<dots> = Some (moved c DeployScheduling None d)"
      using d by (simp add: placed(11) get_dep_touch moved_def)
    finally show ?thesis
      using e get_envD [OF e(1)] by (auto simp: placed(11) get_env_def bind.lookup_update same)
  qed (use d in auto)
  with t show ?thesis by (simp add: commit_def)
qed

lemma place_homed:
  assumes "ready = ListReadyNodes c (pd_org p) s" "ready \<noteq> []" "pd_home p = Some h" "nodeByID ready h = Some n"
    "cpu = PeakCPUMillis (dep_spec (pd_dep p))" "mem = PeakMemoryBytes (dep_spec (pd_dep p))"
  shows "place c gen p s = (if fits_node cpu mem n then commit c gen (pd_dep p) (node_id n) cpu mem s
    else UpdateDeploymentState c (dep_id (pd_dep p)) DeployFailed (home_lacks (node_id n) mem cpu) s)"
  using assms by (simp add: place_def Let_def fits_node_def not_le [symmetric] del: not_le)

lemma place_unhomed:
  assumes "ready = ListReadyNodes c (pd_org p) s" "ready \<noteq> []" "pd_home p = None"
    "cpu = PeakCPUMillis (dep_spec (pd_dep p))" "mem = PeakMemoryBytes (dep_spec (pd_dep p))"
  shows "place c gen p s = (case bestNode (EnvironmentsHomedPerNode (pd_org p) s) cpu mem ready of
      None \<Rightarrow> UpdateDeploymentState c (dep_id (pd_dep p)) DeployFailed (fleet_lacks mem cpu) s
    | Some n \<Rightarrow> commit c gen (pd_dep p) (node_id n) cpu mem s)"
  unfolding assms(4,5) using assms(1-3) by (simp add: place_def Let_def)

lemma place_with_candidates:
  assumes "reachable_db inet sha digest s" "p \<in> set (listPendingDeployments org s)"
    and "ready = ListReadyNodes c (pd_org p) s" "ready \<noteq> []"
    and "pd_home p = None \<or> (\<exists>n \<in> set ready. pd_home p = Some (node_id n))"
    and "\<forall>n \<in> set ready. sane_node n" "fresh_rows gen (pd_dep p) s"
    and "cpu = PeakCPUMillis (dep_spec (pd_dep p))" "mem = PeakMemoryBytes (dep_spec (pd_dep p))" "0 \<le> cpu" "0 \<le> mem"
  shows "\<exists>t d. place c gen p s = Inr ((), t) \<and> get_dep t (dep_id (pd_dep p)) = Some d \<and>
    ((\<exists>n \<in> set ready. (pd_home p = None \<or> pd_home p = Some (node_id n)) \<and> fits_node cpu mem n \<and>
        dep_state d = DeployScheduling \<and> map_option env_home (get_env t (dep_env d)) = Some (Some (node_id n))) \<or>
     ((\<forall>n \<in> set ready. pd_home p = None \<or> pd_home p = Some (node_id n) \<longrightarrow> \<not> fits_node cpu mem n) \<and>
        dep_state d = DeployFailed))"
proof -
  have inv: "store_inv s" using assms(1) by (rule reachable_store_inv)
  let ?d = "pd_dep p"
  obtain e where mem: "?d \<in> set (deployments s)" and pend: "dep_state ?d = DeployPending"
    and e: "get_env s (dep_env ?d) = Some e" "pd_home p = env_home e"
    using assms(2) by (rule pending_listed)
  have d: "get_dep s (dep_id ?d) = Some ?d" using mem get_dep_iff [OF store_inv_dep_ids [OF inv]] by blast
  have nids: "distinct (map node_id (nodes s))" using store_inv_nodes_ok [OF inv] by (simp add: node_indexes_ok_def)
  have node: "get_node s (node_id n) = Some n" if "n \<in> set ready" for n
    using that get_node_iff [OF nids] by (auto simp: assms(3) ListReadyNodes_def)
  have rids: "distinct (map node_id ready)"
    using nids by (simp add: assms(3) ListReadyNodes_def distinct_map inj_on_def)
  have fail: "\<exists>t. UpdateDeploymentState c (dep_id ?d) DeployFailed why s = Inr ((), t) \<and>
      get_dep t (dep_id ?d) = Some (moved c DeployFailed (nullif why) ?d)" for why
    by (rule UpdateDeploymentState_total [OF inv d, of DeployFailed]) (auto simp: validTransitions_def pend)
  have ok: "\<exists>t x. commit c gen ?d (node_id n) cpu mem s = Inr ((), t) \<and> get_dep t (dep_id ?d) = Some x \<and>
      dep_state x = DeployScheduling \<and> map_option env_home (get_env t (dep_env x)) = Some (Some (node_id n))"
    if "n \<in> set ready" "pd_home p = None \<or> pd_home p = Some (node_id n)" "fits_node cpu mem n" for n
  proof -
    from commit_places [OF inv d pend e(1) _ node [OF that(1)] _ that(3) assms(10,11,7), of c] assms(6) that(1,2) e(2)
    obtain t where t: "commit c gen ?d (node_id n) cpu mem s = Inr ((), t)"
      "map_option dep_state (get_dep t (dep_id ?d)) = Some DeployScheduling"
      "map_option env_home (get_env t (dep_env ?d)) = Some (Some (node_id n))" by auto
    then obtain x where x: "get_dep t (dep_id ?d) = Some x" "dep_state x = DeployScheduling" by auto
    have "specs_kept s t" using commit_step [OF d refl t(1) [unfolded assms(8,9)]] by blast
    then have "dep_env x = dep_env ?d" by (rule specs_keptD [OF _ d]) (use x in simp)
    with t x show ?thesis by auto
  qed
  show ?thesis
  proof (cases "pd_home p")
    case (Some h)
    with assms(5) obtain n where n: "n \<in> set ready" "node_id n = h" by auto
    then have look: "nodeByID ready h = Some n" using find_row_key [OF rids, of h n] by (simp add: nodeByID_def)
    have only: "m = n" if "m \<in> set ready" "node_id m = h" for m
      using that n rids by (auto simp: distinct_map inj_on_def)
    note eq = place_homed [OF assms(3,4) Some look assms(8,9)]
    show ?thesis
    proof (cases "fits_node cpu mem n")
      case True
      with ok [OF n(1)] n Some obtain t x where "place c gen p s = Inr ((), t)" "get_dep t (dep_id ?d) = Some x"
        "dep_state x = DeployScheduling" "map_option env_home (get_env t (dep_env x)) = Some (Some (node_id n))"
        unfolding eq by auto
      with n Some True show ?thesis by blast
    next
      case False
      with fail [of "home_lacks (node_id n) mem cpu"] obtain t where
        "place c gen p s = Inr ((), t)" "get_dep t (dep_id ?d) = Some (moved c DeployFailed (nullif (home_lacks (node_id n) mem cpu)) ?d)"
        unfolding eq by auto
      moreover have "\<forall>m \<in> set ready. pd_home p = None \<or> pd_home p = Some (node_id m) \<longrightarrow> \<not> fits_node cpu mem m"
        using only Some False by auto
      ultimately show ?thesis by (metis moved_simps(1))
    qed
  next
    case None
    note eq = place_unhomed [OF assms(3,4) None assms(8,9)]
    show ?thesis
    proof (cases "bestNode (EnvironmentsHomedPerNode (pd_org p) s) cpu mem ready")
      case (Some n)
      then have n: "n \<in> set ready" "fits_node cpu mem n"
        using best.pick_Some_iff [OF rids] by (auto simp: best.best_def)
      with ok [of n] None Some obtain t x where "place c gen p s = Inr ((), t)" "get_dep t (dep_id ?d) = Some x"
        "dep_state x = DeployScheduling" "map_option env_home (get_env t (dep_env x)) = Some (Some (node_id n))"
        unfolding eq by auto
      with n None show ?thesis by blast
    next
      case none: None
      then have "\<forall>n \<in> set ready. \<not> fits_node cpu mem n" using best.pick_None_iff [OF rids] by simp
      moreover from fail [of "fleet_lacks mem cpu"] none obtain t where
        "place c gen p s = Inr ((), t)" "get_dep t (dep_id ?d) = Some (moved c DeployFailed (nullif (fleet_lacks mem cpu)) ?d)"
        unfolding eq by auto
      ultimately show ?thesis by (metis moved_simps(1))
    qed
  qed
qed

text \<open>
  The nodes a pending deployment may go to: those of its organization that are ready and heard of
  lately, and only the home once the environment has one. A node has room when its allocation with the
  peaks added stays within its capacity.
\<close>

definition candidates :: "call \<Rightarrow> pending_deployment \<Rightarrow> db \<Rightarrow> node set" where
  "candidates c p s = {n \<in> set (nodes s). node_org n = pd_org p \<and> node_state n = NodeReady \<and> fresh c n \<and>
     (case pd_home p of None \<Rightarrow> True | Some h \<Rightarrow> node_id n = h)}"

definition has_room :: "pending_deployment \<Rightarrow> node \<Rightarrow> bool" where
  "has_room p n \<longleftrightarrow> node_alloc_cpu n + PeakCPUMillis (dep_spec (pd_dep p)) \<le> node_cpu n \<and>
     node_alloc_mem n + PeakMemoryBytes (dep_spec (pd_dep p)) \<le> node_mem n"

lemma candidates_ready:
  "n \<in> candidates c p s \<longleftrightarrow> n \<in> set (ListReadyNodes c (pd_org p) s) \<and> (pd_home p = None \<or> pd_home p = Some (node_id n))"
  by (auto simp: candidates_def ListReadyNodes_def split: option.splits)

lemma fits_has_room:
  "sane_node n \<Longrightarrow> fits_node (PeakCPUMillis (dep_spec (pd_dep p))) (PeakMemoryBytes (dep_spec (pd_dep p))) n \<longleftrightarrow> has_room p n"
  by (auto simp: fits_node_def has_room_def sane_free)

lemma place_waits:
  assumes "candidates c p s = {}"
  shows "place c gen p s = Inr ((), s)"
proof -
  let ?ready = "ListReadyNodes c (pd_org p) s"
  have none: "\<not> (pd_home p = None \<or> pd_home p = Some (node_id n))" if "n \<in> set ?ready" for n
    using that assms candidates_ready by blast
  show ?thesis
  proof (cases "?ready = []")
    case False
    then have "hd ?ready \<in> set ?ready" by simp
    with none [of "hd ?ready"] obtain h where h: "pd_home p = Some h" by auto
    with none have "nodeByID ?ready h = None" by (auto simp: nodeByID_def find_row_None_iff)
    with h show ?thesis by (simp add: place_def Let_def)
  qed (simp add: place_def Let_def)
qed


definition ex_pending :: pending_deployment where
  "ex_pending = hd (listPendingDeployments None (ok_db op7))"


end
