(* ===== verification/Router_Config.thy ===== *)
theory Router_Config
  imports Go_Regexp
begin

text \<open>
  \<open>internal/router/router.go\<close>: the dynamic configuration of Traefik generated from the live routes.
  The YAML encoder of \<open>gopkg.in/yaml.v3\<close> is the argument \<open>yaml\<close>, which may fail. The three calls into
  the operating system (making the directory, writing the temporary file, renaming it) succeed or fail
  as \<open>io\<close> says. \<open>sort.Slice\<close> may leave routes with equal keys in any order; the model keeps theirs.
\<close>

section \<open>Data\<close>

record route =
  rt_key :: string
  rt_hostname :: string
  rt_target :: string
  rt_port :: int

record router =
  certResolver :: string
  wildcardSuffix :: string
  wildcardResolver :: string

record traefik_tls =
  tls_resolver :: string
  tls_domains :: "string list"

record traefik_router =
  tr_rule :: string
  tr_entry_points :: "string list"
  tr_service :: string
  tr_tls :: "traefik_tls option"

text \<open>A service of the file is the list of the URLs of its load balancer's servers.\<close>

record traefik_routing =
  tr_routers :: "traefik_router gomap"
  tr_services :: "string list gomap"

record router_disk =
  disk_tmp :: "string option"
  disk_file :: "string option"

text \<open>Which call into the system fails and how; a failed write may leave part of its data in the temporary file.\<close>

datatype router_io = IoOk | MkdirFails string | WriteFails string "string option" | RenameFails string

section \<open>The wildcard\<close>

definition trim_left :: "char \<Rightarrow> string \<Rightarrow> string" where
  "trim_left x s = dropWhile (\<lambda>c. c = x) s"

definition trim :: "char \<Rightarrow> string \<Rightarrow> string" where
  "trim x s = rev (trim_left x (rev (trim_left x s)))"

definition cut_suffix :: "string \<Rightarrow> string \<Rightarrow> string option" where
  "cut_suffix s suf =
     (if has_suffix s suf then Some (take (length s - length suf) s) else None)"

definition WithWildcard :: "string \<Rightarrow> string \<Rightarrow> router \<Rightarrow> router" where
  "WithWildcard suffix resolver r =
     r\<lparr>wildcardSuffix := trim_prefix (trim (CHR ''.'') suffix) ''*.'', wildcardResolver := resolver\<rparr>"

definition coveredByWildcard :: "router \<Rightarrow> string \<Rightarrow> bool" where
  "coveredByWildcard r host \<longleftrightarrow>
     wildcardSuffix r \<noteq> [] \<and> wildcardResolver r \<noteq> [] \<and>
     (case cut_suffix host (CHR ''.'' # wildcardSuffix r) of
        None \<Rightarrow> False
      | Some label \<Rightarrow> label \<noteq> [] \<and> CHR ''.'' \<notin> set label)"

section \<open>The file\<close>

text \<open>The class \<open>[a-zA-Z0-9.:_\-\[\]]\<close>.\<close>

definition upper_letter :: "char \<Rightarrow> bool" where
  "upper_letter c = (let n = (of_char c :: nat) in 65 \<le> n \<and> n \<le> 90)"

definition target_char :: "char \<Rightarrow> bool" where
  "target_char c \<longleftrightarrow> lower_alnum c \<or> upper_letter c \<or> c \<in> set ''.:_-[]''"

definition targetPattern :: re where
  "targetPattern = Plus (Cls target_char)"

text \<open>The pattern of \<open>router.go\<close> is the one of \<open>store.go\<close>, written out again.\<close>

definition hostNamePattern :: re where
  "hostNamePattern = Cat host_label (Star (Cat (Cls (\<lambda>c. c = CHR ''.'')) host_label))"

definition route_error :: "route \<Rightarrow> string option" where
  "route_error rt =
     (if \<not> re_match hostNamePattern (rt_hostname rt)
      then Some (''refusing to route unsafe hostname '' @ quote (rt_hostname rt))
      else if \<not> re_match targetPattern (rt_target rt)
      then Some (''refusing to route to unsafe target '' @ quote (rt_target rt))
      else if rt_port rt \<le> 0 \<or> rt_port rt > 65535
      then Some (''refusing to route invalid port '' @ show_int (rt_port rt))
      else None)"

definition router_of :: "router \<Rightarrow> route \<Rightarrow> traefik_router" where
  "router_of r rt =
     (let wild = coveredByWildcard r (rt_hostname rt);
          resolver = (if wild then wildcardResolver r else certResolver r);
          domains = (if wild then [''*.'' @ wildcardSuffix r] else []);
          plain = \<lparr>tr_rule = ''Host(`'' @ rt_hostname rt @ ''`)'', tr_entry_points = [''web''],
                   tr_service = ''s-'' @ rt_key rt, tr_tls = None\<rparr>
      in if resolver \<noteq> []
         then plain\<lparr>tr_entry_points := [''websecure''],
                    tr_tls := Some \<lparr>tls_resolver = resolver, tls_domains = domains\<rparr>\<rparr>
         else plain)"

definition service_of :: "route \<Rightarrow> string list" where
  "service_of rt = [''http://'' @ rt_target rt @ '':'' @ show_int (rt_port rt)]"

text \<open>The loop over the sorted routes: the first route that is refused ends it.\<close>

fun build_routing :: "router \<Rightarrow> route list \<Rightarrow> traefik_routing \<Rightarrow> string + traefik_routing" where
  "build_routing r [] cfg = Inr cfg"
| "build_routing r (rt # rts) cfg =
     (case route_error rt of
        Some e \<Rightarrow> Inl e
      | None \<Rightarrow> build_routing r rts
          (cfg\<lparr>tr_routers := AList.update (''r-'' @ rt_key rt) (router_of r rt) (tr_routers cfg),
               tr_services := AList.update (''s-'' @ rt_key rt) (service_of rt) (tr_services cfg)\<rparr>))"

definition file_header :: string where
  "file_header = ''# generated by composectl '' @ [CHR 0xE2, CHR 0x80, CHR 0x94] @ '' do not edit'' @ [CHR 0x0A]"

definition Sync ::
  "(traefik_routing \<Rightarrow> string + string) \<Rightarrow> router_io \<Rightarrow> router \<Rightarrow> route list \<Rightarrow> router_disk \<Rightarrow>
   string option \<times> router_disk" where
  "Sync yaml io r routes disk =
     (case io of
        MkdirFails e \<Rightarrow> (Some e, disk)
      | _ \<Rightarrow>
        (case build_routing r (sort_key rt_key routes) \<lparr>tr_routers = [], tr_services = []\<rparr> of
           Inl e \<Rightarrow> (Some e, disk)
         | Inr cfg \<Rightarrow>
           (case (if routes = [] then Inr [] else yaml cfg) of
              Inl e \<Rightarrow> (Some e, disk)
            | Inr body \<Rightarrow>
                let out = file_header @ body in
                (case io of
                   WriteFails e part \<Rightarrow> (Some e, disk\<lparr>disk_tmp := part\<rparr>)
                 | RenameFails e \<Rightarrow> (Some e, disk\<lparr>disk_tmp := Some out\<rparr>)
                 | _ \<Rightarrow> (None, disk\<lparr>disk_tmp := None, disk_file := Some out\<rparr>)))))"

section \<open>What the file holds\<close>

definition routable :: "route \<Rightarrow> bool" where
  "routable rt \<longleftrightarrow> route_error rt = None"

lemma build_routing_ok_iff: "(\<exists>cfg. build_routing r rts cfg0 = Inr cfg) \<longleftrightarrow> list_all routable rts"
  by (induction r rts cfg0 rule: build_routing.induct) (auto simp: routable_def split: option.splits)

lemma build_routing_lookup:
  assumes "build_routing r rts cfg0 = Inr cfg" "distinct (map rt_key rts)"
  shows "map_of (tr_routers cfg) k =
      (case find_row (\<lambda>rt. ''r-'' @ rt_key rt = k) rts of Some rt \<Rightarrow> Some (router_of r rt) | None \<Rightarrow> map_of (tr_routers cfg0) k) \<and>
    map_of (tr_services cfg) k' =
      (case find_row (\<lambda>rt. ''s-'' @ rt_key rt = k') rts of Some rt \<Rightarrow> Some (service_of rt) | None \<Rightarrow> map_of (tr_services cfg0) k')"
  using assms
proof (induction r rts cfg0 rule: build_routing.induct)
  case (1 r cfg)
  then show ?case by (simp add: find_row_def)
next
  case (2 r rt rts cfg0)
  from "2.prems"(1) have ok: "route_error rt = None" by (cases "route_error rt") auto
  have none: "find_row (\<lambda>x. ''r-'' @ rt_key x = ''r-'' @ rt_key rt) rts = None"
    "find_row (\<lambda>x. ''s-'' @ rt_key x = ''s-'' @ rt_key rt) rts = None"
    using "2.prems"(2) by (auto simp: find_row_None_iff image_iff)
  from "2.prems" ok none "2.IH" [OF ok] show ?case
    by (auto simp: find_row_Cons update_conv' split: option.splits)
qed

lemma find_row_sort_key:
  assumes "distinct (map key xs)"
  shows "find_row (\<lambda>x. key x = k) (sort_key f xs) = find_row (\<lambda>x. key x = k) xs"
proof -
  have "distinct (map key (sort_key f xs))" using assms by (simp add: distinct_map)
  then have "find_row (\<lambda>x. key x = k) (sort_key f xs) = Some x \<longleftrightarrow> find_row (\<lambda>x. key x = k) xs = Some x" for x
    using assms by (simp add: find_row_key)
  then show ?thesis by (metis option.exhaust)
qed

text \<open>
  What the configuration has to say, apart from the code that builds it: a hostname one label below the
  wildcard is served with the wildcard's certificate, any other one with a certificate of its own, and
  in plain text when no resolver is configured.
\<close>

definition below_wildcard :: "router \<Rightarrow> string \<Rightarrow> bool" where
  "below_wildcard r host \<longleftrightarrow> wildcardSuffix r \<noteq> [] \<and> wildcardResolver r \<noteq> [] \<and>
     (\<exists>label. host = label @ ''.'' @ wildcardSuffix r \<and> label \<noteq> [] \<and> CHR ''.'' \<notin> set label)"

definition expected_tls :: "router \<Rightarrow> string \<Rightarrow> traefik_tls option" where
  "expected_tls r host =
     (if below_wildcard r host then Some \<lparr>tls_resolver = wildcardResolver r, tls_domains = [''*.'' @ wildcardSuffix r]\<rparr>
      else if certResolver r \<noteq> [] then Some \<lparr>tls_resolver = certResolver r, tls_domains = []\<rparr>
      else None)"

definition sound_route :: "route \<Rightarrow> bool" where
  "sound_route rt \<longleftrightarrow> rt_hostname rt \<in> lang hostnamePattern \<and>
     rt_target rt \<noteq> [] \<and> list_all target_char (rt_target rt) \<and> 1 \<le> rt_port rt \<and> rt_port rt \<le> 65535"

lemma covered_below: "coveredByWildcard r host = below_wildcard r host"
proof -
  have "(case cut_suffix host d of None \<Rightarrow> False | Some label \<Rightarrow> P label) \<longleftrightarrow> (\<exists>label. host = label @ d \<and> P label)" for d P
    by (auto simp: cut_suffix_def split: if_splits elim!: has_suffixE)
  then show ?thesis by (simp add: coveredByWildcard_def below_wildcard_def)
qed

lemma router_of_expected:
  "router_of r rt = \<lparr>tr_rule = ''Host(`'' @ rt_hostname rt @ ''`)'',
     tr_entry_points = [if expected_tls r (rt_hostname rt) = None then ''web'' else ''websecure''],
     tr_service = ''s-'' @ rt_key rt, tr_tls = expected_tls r (rt_hostname rt)\<rparr>"
  by (auto simp: router_of_def Let_def covered_below expected_tls_def below_wildcard_def)

lemma target_pattern_lang: "t \<in> lang targetPattern \<longleftrightarrow> t \<noteq> [] \<and> list_all target_char t"
proof -
  have "t \<in> star (lang (Cls target_char)) \<longleftrightarrow> list_all target_char t" for t
  proof
    show "t \<in> star (lang (Cls target_char)) \<Longrightarrow> list_all target_char t" by (induction rule: star.induct) auto
    show "list_all target_char t \<Longrightarrow> t \<in> star (lang (Cls target_char))"
    proof (induction t)
      case (Cons c t)
      then show ?case using star_app [of "[c]" "lang (Cls target_char)" t] by auto
    qed (rule star_Nil)
  qed
  moreover have "lang (Star (Cls target_char)) = star (lang (Cls target_char))" by simp
  ultimately show ?thesis by (cases t) (auto simp: targetPattern_def Plus_def lang_Cat_Cls simp del: lang.simps)
qed

lemma sound_routable: "sound_route rt \<Longrightarrow> routable rt"
  by (auto simp: sound_route_def routable_def route_error_def re_match_iff target_pattern_lang
      hostNamePattern_def hostnamePattern_def)

text \<open>
  C32: the generated file holds exactly the routes it was given. When every route has a hostname of the
  accepted form, a target over the accepted alphabet and a port between 1 and 65535, the keys are
  distinct, the encoder succeeds and so do the calls into the system, the file becomes the header
  followed by the encoding of a configuration with one router and one service per route and no other:
  the service \<open>s-key\<close> has \<open>http://target:port\<close> as its only server; the router \<open>r-key\<close> matches the route's
  hostname, names that service, and serves it on \<open>websecure\<close> with the wildcard's resolver when the
  hostname is one label below the wildcard and else with the certificate resolver, or on \<open>web\<close> without
  TLS when there is no resolver. Without routes the file is the header alone.
\<close>

theorem router_file_is_exact:
  assumes "list_all sound_route routes" "distinct (map rt_key routes)" "\<And>cfg. yaml cfg = Inr (enc cfg)"
  shows "\<exists>cfg. Sync yaml IoOk r routes disk =
      (None, disk\<lparr>disk_tmp := None, disk_file := Some (file_header @ (if routes = [] then [] else enc cfg))\<rparr>) \<and>
    (\<forall>rt \<in> set routes.
       map_of (tr_services cfg) (''s-'' @ rt_key rt) = Some [''http://'' @ rt_target rt @ '':'' @ show_int (rt_port rt)] \<and>
       map_of (tr_routers cfg) (''r-'' @ rt_key rt) = Some
         \<lparr>tr_rule = ''Host(`'' @ rt_hostname rt @ ''`)'',
          tr_entry_points = [if expected_tls r (rt_hostname rt) = None then ''web'' else ''websecure''],
          tr_service = ''s-'' @ rt_key rt, tr_tls = expected_tls r (rt_hostname rt)\<rparr>) \<and>
    dom (map_of (tr_routers cfg)) = (\<lambda>rt. ''r-'' @ rt_key rt) ` set routes \<and>
    dom (map_of (tr_services cfg)) = (\<lambda>rt. ''s-'' @ rt_key rt) ` set routes"
proof -
  let ?empty = "\<lparr>tr_routers = [], tr_services = []\<rparr>" and ?rts = "sort_key rt_key routes"
  have "list_all routable ?rts" using assms(1) by (simp add: list_all_iff sound_routable)
  then obtain cfg where cfg: "build_routing r ?rts ?empty = Inr cfg" using build_routing_ok_iff by blast
  have "distinct (map rt_key ?rts)" using assms(2) by (simp add: distinct_map)
  note look = build_routing_lookup [OF cfg this]
  have keys: "distinct (map (\<lambda>rt. ''r-'' @ rt_key rt) routes)" "distinct (map (\<lambda>rt. ''s-'' @ rt_key rt) routes)"
    using assms(2) by (auto simp: distinct_map inj_on_def)
  have R: "map_of (tr_routers cfg) k = map_option (router_of r) (find_row (\<lambda>rt. ''r-'' @ rt_key rt = k) routes)" for k
    using look [of k "[]"] find_row_sort_key [OF keys(1), of k rt_key] by (simp split: option.splits)
  have S: "map_of (tr_services cfg) k = map_option service_of (find_row (\<lambda>rt. ''s-'' @ rt_key rt = k) routes)" for k
    using look [of "[]" k] find_row_sort_key [OF keys(2), of k rt_key] by (simp split: option.splits)
  have found: "find_row (\<lambda>x. ''r-'' @ rt_key x = ''r-'' @ rt_key rt) routes = Some rt"
    "find_row (\<lambda>x. ''s-'' @ rt_key x = ''s-'' @ rt_key rt) routes = Some rt" if "rt \<in> set routes" for rt
    using find_row_key [OF keys(1), of "''r-'' @ rt_key rt" rt] find_row_key [OF keys(2), of "''s-'' @ rt_key rt" rt] that by simp_all
  have "Sync yaml IoOk r routes disk =
      (None, disk\<lparr>disk_tmp := None, disk_file := Some (file_header @ (if routes = [] then [] else enc cfg))\<rparr>)"
    by (simp add: Sync_def cfg assms(3))
  moreover have "dom (map_of (tr_routers cfg)) = (\<lambda>rt. ''r-'' @ rt_key rt) ` set routes"
    "dom (map_of (tr_services cfg)) = (\<lambda>rt. ''s-'' @ rt_key rt) ` set routes"
    using find_row_None_iff [of _ routes] by (auto simp: dom_def R S image_iff dest!: find_row_SomeD)
  ultimately show ?thesis using found by (intro exI [of _ cfg]) (simp add: R S router_of_expected service_of_def)
qed

definition ex_route :: "string \<Rightarrow> route" where
  "ex_route k = \<lparr>rt_key = k, rt_hostname = k @ ''.example.com'', rt_target = ''10.0.0.7'', rt_port = 31000\<rparr>"

definition ex_router :: router where
  "ex_router = WithWildcard ''*.preview.example.com'' ''dns'' \<lparr>certResolver = ''le'', wildcardSuffix = [], wildcardResolver = []\<rparr>"

definition ex_yaml :: "traefik_routing \<Rightarrow> string + string" where
  "ex_yaml cfg = Inr (concat (map fst (tr_routers cfg)))"

theorem router_file_is_exact_witness:
  "fst (Sync ex_yaml IoOk ex_router [ex_route ''b'', ex_route ''a''] \<lparr>disk_tmp = None, disk_file = None\<rparr>) = None"
proof -
  have "re_match hostnamePattern ''b.example.com''" "re_match hostnamePattern ''a.example.com''" by code_simp+
  then have ok: "list_all sound_route [ex_route ''b'', ex_route ''a'']" "distinct (map rt_key [ex_route ''b'', ex_route ''a''])"
    by (simp_all add: sound_route_def ex_route_def re_match_iff target_char_def lower_alnum_def)
  have "ex_yaml cfg = Inr (concat (map fst (tr_routers cfg)))" for cfg by (simp add: ex_yaml_def)
  from router_file_is_exact [where yaml = ex_yaml and enc = "\<lambda>cfg. concat (map fst (tr_routers cfg))" and r = ex_router
      and disk = "\<lparr>disk_tmp = None, disk_file = None\<rparr>", OF ok this]
  show ?thesis by (elim exE conjE) (simp only: fst_conv)
qed

section \<open>Refusals\<close>

text \<open>
  The file Traefik reads is replaced as a whole or not at all. Whenever a call fails, whatever the
  reason (an unacceptable route, the encoder, the file system), the file is what it was; and it fails
  whenever a single route has a hostname, a target or a port outside the accepted form, so nothing
  with a different alphabet ever reaches the file.
\<close>

theorem router_sync_is_atomic:
  "case Sync yaml io r routes disk of
     (Some e, disk') \<Rightarrow> disk_file disk' = disk_file disk
   | (None, disk') \<Rightarrow> (\<exists>body. disk_file disk' = Some (file_header @ body)) \<and> disk_tmp disk' = None \<and>
       (\<forall>rt \<in> set routes. rt_hostname rt \<noteq> [] \<and> list_all host_char (rt_hostname rt) \<and>
          rt_target rt \<noteq> [] \<and> list_all target_char (rt_target rt) \<and> 0 < rt_port rt \<and> rt_port rt \<le> 65535)"
proof (cases "build_routing r (sort_key rt_key routes) \<lparr>tr_routers = [], tr_services = []\<rparr>")
  case (Inl e)
  then show ?thesis by (cases io) (simp_all add: Sync_def)
next
  case (Inr cfg)
  then have "list_all routable (sort_key rt_key routes)" using build_routing_ok_iff by blast
  then have ok: "route_error rt = None" if "rt \<in> set routes" for rt using that by (simp add: list_all_iff routable_def)
  have star_chars: "list_all target_char s" if "s \<in> star (lang (Cls target_char))" for s
    using that by (induction rule: star.induct) auto
  have "rt_hostname rt \<noteq> [] \<and> list_all host_char (rt_hostname rt) \<and>
      rt_target rt \<noteq> [] \<and> list_all target_char (rt_target rt) \<and> 0 < rt_port rt \<and> rt_port rt \<le> 65535" if "rt \<in> set routes" for rt
  proof -
    from ok [OF that] have h: "re_match hostnamePattern (rt_hostname rt)" "re_match targetPattern (rt_target rt)"
      and port: "0 < rt_port rt" "rt_port rt \<le> 65535"
      by (simp_all add: route_error_def hostNamePattern_def hostnamePattern_def not_le split: if_splits)
    from h(2) obtain c t where "rt_target rt = c # t" "target_char c" "t \<in> star (lang (Cls target_char))"
      by (auto simp: re_match_iff targetPattern_def Plus_def lang_Cat_Cls)
    with hostname_chars [OF h(1)] port star_chars show ?thesis by simp
  qed
  then show ?thesis using Inr by (cases io) (auto simp: Sync_def Let_def split: sum.splits if_splits)
qed

theorem router_sync_is_atomic_witness:
  "disk_file (snd (Sync ex_yaml IoOk ex_router [ex_route ''b'', (ex_route ''a'')\<lparr>rt_port := 0\<rparr>]
     \<lparr>disk_tmp = None, disk_file = Some ''old''\<rparr>)) = Some ''old''"
proof -
  let ?d = "\<lparr>disk_tmp = None, disk_file = Some ''old''\<rparr>" and ?bad = "[ex_route ''b'', (ex_route ''a'')\<lparr>rt_port := 0\<rparr>]"
  from router_sync_is_atomic [where yaml = ex_yaml and io = IoOk and r = ex_router and routes = ?bad and disk = ?d] show ?thesis
    by (cases "Sync ex_yaml IoOk ex_router ?bad ?d"; cases "fst (Sync ex_yaml IoOk ex_router ?bad ?d)") simp_all
qed

end
