(* ===== verification/Rollout_Controller.thy ===== *)
theory Rollout_Controller
  imports Scheduler Router_Config
begin

text \<open>
  \<open>internal/rollout/controller.go\<close>: one tick of the control loop. Every active rollout is advanced by the
  aggregate of its instances, the router is repointed, and deployments that left the live path are
  torn down once they have been terminal for the grace period. \<open>c\<close> is the database's clock (with the
  actor), \<open>wall\<close> the clock of the process. The mail sent for a failed rollout goes to an outside
  service; a tick records which deployments it is sent for and with which reason, and \<open>Control_Plane\<close> has its text.
\<close>

section \<open>Advancing one rollout\<close>

record controller =
  routeStrand :: int
  teardownGrace :: int
  startTimeout :: int
  ctl_org :: "uuid option"
  firstTerminal :: "time gomap"

definition generic_failure :: string where
  "generic_failure = ''an instance failed to start''"

definition failure_part :: "instance_failure \<Rightarrow> string" where
  "failure_part f =
     (if if_error f \<noteq> [] then if_service f @ '': '' @ if_error f
      else if_service f @ '': '' @ instance_state_text (if_state f))"

definition failureReason :: "uuid \<Rightarrow> db \<Rightarrow> string" where
  "failureReason d s =
     (let failures = FailedInstances d s in
      if failures = [] then generic_failure
      else generic_failure @ '': '' @ str_join ''; '' (map failure_part failures))"

definition count_state :: "instance_state list \<Rightarrow> instance_state list \<Rightarrow> nat" where
  "count_state wanted states = length (filter (\<lambda>x. x \<in> set wanted) states)"

type_synonym notices = "(uuid \<times> string) list"

definition advance ::
  "call \<Rightarrow> time \<Rightarrow> controller \<Rightarrow> deployment \<Rightarrow> db \<Rightarrow> store_error + (notices \<times> db)" where
  "advance c wall ctl dep s =
     (let states = InstanceStates (dep_id dep) s;
          pending = count_state [InstancePending] states;
          failed = count_state [InstanceFailed, InstanceUnhealthy] states;
          healthy = count_state [InstanceRunning] states;
          move = (\<lambda>to why. case UpdateDeploymentState c (dep_id dep) to why s of
                    Inl e \<Rightarrow> Inl e | Inr (u, t) \<Rightarrow> Inr ([], t))
      in if states = [] then Inr ([], s)
         else if failed > 0 then
           (let reason = failureReason (dep_id dep) s in
            case UpdateDeploymentState c (dep_id dep) DeployFailed reason s of
              Inl e \<Rightarrow> Inl e
            | Inr (u, t) \<Rightarrow> Inr ([(dep_id dep, reason)], t))
         else if dep_state dep = DeployScheduling \<and> pending = 0 then move DeployStarting []
         else if dep_state dep = DeployStarting \<and> healthy = length states then move DeployHealthy []
         else if dep_state dep = DeployStarting \<and> wall - dep_updated_at dep > startTimeout ctl
         then move DeployFailed ''timed out waiting for health''
         else if dep_state dep = DeployHealthy then
           (case PromoteDeployment c (dep_id dep) s of Inl e \<Rightarrow> Inl e | Inr (prev, t) \<Rightarrow> Inr ([], t))
         else Inr ([], s))"

text \<open>The loop over the active rollouts: an error is logged and the next one is advanced.\<close>

fun advance_all :: "call \<Rightarrow> time \<Rightarrow> controller \<Rightarrow> deployment list \<Rightarrow> db \<Rightarrow> notices \<times> db" where
  "advance_all c wall ctl [] s = ([], s)"
| "advance_all c wall ctl (d # ds) s =
     (case advance c wall ctl d s of
        Inl e \<Rightarrow> advance_all c wall ctl ds s
      | Inr (mail, t) \<Rightarrow> (case advance_all c wall ctl ds t of (rest, u) \<Rightarrow> (mail @ rest, u)))"

section \<open>Routing and teardown\<close>

definition served_routes :: "live_route list \<Rightarrow> route list" where
  "served_routes lrs =
     map (\<lambda>lr. \<lparr>rt_key = lr_env8 lr, rt_hostname = lr_hostname lr, rt_target = lr_node_addr lr,
                rt_port = lr_published_port lr\<rparr>)
       (filter (\<lambda>lr. \<not> (lr_node_addr lr = [] \<or> lr_published_port lr = 0)) lrs)"

definition syncRouter ::
  "call \<Rightarrow> controller \<Rightarrow> (route list \<Rightarrow> router_disk \<Rightarrow> string option \<times> router_disk) \<Rightarrow> db \<Rightarrow> router_disk \<Rightarrow>
   string option \<times> router_disk" where
  "syncRouter c ctl sync s disk = sync (served_routes (liveRoutes c None (routeStrand ctl) s)) disk"

fun teardown ::
  "time \<Rightarrow> controller \<Rightarrow> deployment list \<Rightarrow> time gomap \<Rightarrow> db \<Rightarrow> time gomap \<times> db" where
  "teardown wall ctl [] seen s = (seen, s)"
| "teardown wall ctl (dep # deps) seen s =
     (let first = (case map_of (firstTerminal ctl) (dep_id dep) of None \<Rightarrow> wall | Some t \<Rightarrow> t) in
      if wall - first < teardownGrace ctl
      then teardown wall ctl deps (AList.update (dep_id dep) first seen) s
      else (case DeleteInstances (dep_id dep) s of
              Inl e \<Rightarrow> teardown wall ctl deps (AList.update (dep_id dep) first seen) s
            | Inr (u, t) \<Rightarrow> teardown wall ctl deps seen t))"

record tick =
  tick_ctl :: controller
  tick_db :: db
  tick_disk :: router_disk
  tick_mail :: notices

definition active_states :: "deployment_state list" where
  "active_states = [DeployScheduling, DeployStarting, DeployHealthy]"

definition terminal_states :: "deployment_state list" where
  "terminal_states = [DeploySuperseded, DeployFailed]"

text \<open>\<open>sync\<close> is the router, \<open>None\<close> when none is configured.\<close>

definition ReconcileOnce ::
  "call \<Rightarrow> time \<Rightarrow> (route list \<Rightarrow> router_disk \<Rightarrow> string option \<times> router_disk) option \<Rightarrow>
   controller \<Rightarrow> db \<Rightarrow> router_disk \<Rightarrow> tick" where
  "ReconcileOnce c wall sync ctl s disk =
     (let (mail, s1) = advance_all c wall ctl (listRolloutsInState (ctl_org ctl) active_states s) s;
          (err, disk1) = (case sync of None \<Rightarrow> (None, disk) | Some f \<Rightarrow> syncRouter c ctl f s1 disk)
      in case err of
           Some e \<Rightarrow> \<lparr>tick_ctl = ctl, tick_db = s1, tick_disk = disk1, tick_mail = mail\<rparr>
         | None \<Rightarrow>
             let (seen, s2) = teardown wall ctl (listRolloutsInState (ctl_org ctl) terminal_states s1) [] s1
             in \<lparr>tick_ctl = ctl\<lparr>firstTerminal := seen\<rparr>, tick_db = s2, tick_disk = disk1, tick_mail = mail\<rparr>)"

section \<open>A tick is a sequence of store calls\<close>

lemma advance_cases:
  assumes "advance c wall ctl dep s = Inr (mail, t)"
  obtains "t = s" "mail = []"
  | to why u where "UpdateDeploymentState c (dep_id dep) to why s = Inr (u, t)" "to \<in> {DeployStarting, DeployHealthy, DeployFailed}"
      "InstanceStates (dep_id dep) s \<noteq> []"
  | prev where "PromoteDeployment c (dep_id dep) s = Inr (prev, t)" "dep_state dep = DeployHealthy"
  using assms unfolding advance_def Let_def by (auto split: if_splits)

lemma advance_instances:
  assumes "advance c wall ctl dep s = Inr (mail, t)"
  shows "service_instances t = service_instances s"
  using assms
  by (cases rule: advance_cases) (auto elim!: UpdateDeploymentState_ok PromoteDeployment_ok)

lemma advance_runs:
  assumes "(store_step inet sha digest)\<^sup>*\<^sup>* a s" "advance c wall ctl dep s = Inr (mail, t)"
  shows "(store_step inet sha digest)\<^sup>*\<^sup>* a t"
  using assms(2)
proof (cases rule: advance_cases)
  case 1
  with assms(1) show ?thesis by simp
next
  case 2
  with assms(1) show ?thesis by (blast intro: rtranclp.rtrancl_into_rtrancl st_state)
next
  case 3
  with assms(1) show ?thesis by (blast intro: rtranclp.rtrancl_into_rtrancl st_promote)
qed

lemma advance_all_runs:
  "(store_step inet sha digest)\<^sup>*\<^sup>* a s \<Longrightarrow> advance_all c wall ctl ds s = (mail, t) \<Longrightarrow>
   (store_step inet sha digest)\<^sup>*\<^sup>* a t \<and> service_instances t = service_instances s"
proof (induction ds arbitrary: s mail)
  case (Cons d ds)
  show ?case
  proof (cases "advance c wall ctl d s")
    case (Inl e)
    with Cons show ?thesis by simp
  next
    case (Inr r)
    then obtain m1 s1 where r: "advance c wall ctl d s = Inr (m1, s1)" by (cases r) auto
    with Cons.prems(2) obtain m2 where "advance_all c wall ctl ds s1 = (m2, t)" by (auto split: prod.splits)
    with Cons.IH [OF advance_runs [OF Cons.prems(1) r]] advance_instances [OF r] show ?thesis by simp
  qed
qed simp

lemma teardown_runs:
  "(store_step inet sha digest)\<^sup>*\<^sup>* a s \<Longrightarrow> (store_step inet sha digest)\<^sup>*\<^sup>* a (snd (teardown wall ctl ds seen s))"
proof (induction wall ctl ds seen s rule: teardown.induct)
  case (2 wall ctl dep deps seen s)
  let ?first = "case map_of (firstTerminal ctl) (dep_id dep) of None \<Rightarrow> wall | Some t \<Rightarrow> t"
  show ?case
  proof (cases "wall - ?first < teardownGrace ctl")
    case True
    with "2.IH"(1) [OF refl True "2.prems"] show ?thesis by (simp add: Let_def)
  next
    case False
    show ?thesis
    proof (cases "DeleteInstances (dep_id dep) s")
      case (Inl e)
      with "2.IH"(2) [OF refl False Inl "2.prems"] False show ?thesis by (simp add: Let_def)
    next
      case (Inr r)
      then obtain u t where r: "DeleteInstances (dep_id dep) s = Inr (u, t)" by (cases r) auto
      from "2.prems" st_teardown [OF r] have "(store_step inet sha digest)\<^sup>*\<^sup>* a t" by (rule rtranclp.rtrancl_into_rtrancl)
      with "2.IH"(3) [OF refl False r refl] False r show ?thesis by (simp add: Let_def)
    qed
  qed
qed simp

lemmas advance_reachable = advance_runs [where a = empty_db, folded reachable_db_def]

lemmas advance_all_keeps = advance_all_runs [where a = empty_db, folded reachable_db_def]

lemma reconcile_db:
  assumes "advance_all c wall ctl (listRolloutsInState (ctl_org ctl) active_states s) s = (mail, s1)"
    "(case sync of None \<Rightarrow> (None, disk) | Some f \<Rightarrow> syncRouter c ctl f s1 disk) = (err, disk1)"
  shows "tick_db (ReconcileOnce c wall sync ctl s disk) =
    (if err = None then snd (teardown wall ctl (listRolloutsInState (ctl_org ctl) terminal_states s1) [] s1) else s1)"
  by (cases err; cases "teardown wall ctl (listRolloutsInState (ctl_org ctl) terminal_states s1) [] s1")
     (simp_all add: ReconcileOnce_def assms)

lemma reconcile_once_runs: "(store_step inet sha digest)\<^sup>*\<^sup>* s (tick_db (ReconcileOnce c wall sync ctl s disk))"
proof -
  obtain mail s1 where adv: "advance_all c wall ctl (listRolloutsInState (ctl_org ctl) active_states s) s = (mail, s1)"
    by fastforce
  obtain err disk1 where rt: "(case sync of None \<Rightarrow> (None, disk) | Some f \<Rightarrow> syncRouter c ctl f s1 disk) = (err, disk1)"
    by fastforce
  have "(store_step inet sha digest)\<^sup>*\<^sup>* s s1" using advance_all_runs [OF rtranclp.rtrancl_refl adv] by simp
  with teardown_runs [OF this] show ?thesis by (simp add: reconcile_db [OF adv rt])
qed

text \<open>
  A tick of the controller is a sequence of the store's own operations: from a reachable database it
  leads to a reachable database, whatever the router answers, whichever calls fail and whatever the
  clocks say.
\<close>

theorem reconcile_once_refines_store:
  assumes "reachable_db inet sha digest s"
  shows "reachable_db inet sha digest (tick_db (ReconcileOnce c wall sync ctl s disk))"
  using reconcile_once_runs assms unfolding reachable_db_def by (meson rtranclp_trans)

definition ex_ctl :: controller where
  "ex_ctl = \<lparr>routeStrand = 120, teardownGrace = 5, startTimeout = 300, ctl_org = None, firstTerminal = []\<rparr>"

theorem reconcile_once_refines_store_witness:
  "ex_reach (tick_db (ReconcileOnce ex_call 1000 None ex_ctl (ok_db op11) \<lparr>disk_tmp = None, disk_file = None\<rparr>)) \<and>
   map dep_state (deployments (tick_db (ReconcileOnce ex_call 1000 None ex_ctl (ok_db op11) \<lparr>disk_tmp = None, disk_file = None\<rparr>))) = [DeployLive]"
proof
  show "ex_reach (tick_db (ReconcileOnce ex_call 1000 None ex_ctl (ok_db op11) \<lparr>disk_tmp = None, disk_file = None\<rparr>))"
    by (rule reconcile_once_refines_store [OF ex_reach_11])
qed code_simp

section \<open>Teardown waits\<close>

definition first_seen :: "time \<Rightarrow> controller \<Rightarrow> uuid \<Rightarrow> time" where
  "first_seen wall ctl i = (case map_of (firstTerminal ctl) i of None \<Rightarrow> wall | Some t \<Rightarrow> t)"

lemma DeleteInstances_rows:
  "DeleteInstances d s = Inr (u, t) \<Longrightarrow> service_instances t = delete_where (\<lambda>i. inst_dep i = d) (service_instances s)"
  by (auto simp: DeleteInstances_def Let_def release_capacity_def split: option.splits if_splits)

lemma teardown_removes:
  "r \<in> set (service_instances s) \<Longrightarrow> r \<notin> set (service_instances (snd (teardown wall ctl ds seen s))) \<Longrightarrow>
   \<exists>d \<in> set ds. dep_id d = inst_dep r \<and> teardownGrace ctl \<le> wall - first_seen wall ctl (dep_id d)"
proof (induction ds arbitrary: seen s)
  case (Cons d ds)
  show ?case
  proof (cases "wall - first_seen wall ctl (dep_id d) < teardownGrace ctl")
    case True
    with Cons.prems(2) have "r \<notin> set (service_instances (snd (teardown wall ctl ds
        (AList.update (dep_id d) (first_seen wall ctl (dep_id d)) seen) s)))"
      by (simp add: Let_def first_seen_def)
    with Cons.IH [OF Cons.prems(1)] show ?thesis by fastforce
  next
    case False
    show ?thesis
    proof (cases "DeleteInstances (dep_id d) s")
      case (Inl e)
      with False Cons.prems(2) have "r \<notin> set (service_instances (snd (teardown wall ctl ds
          (AList.update (dep_id d) (first_seen wall ctl (dep_id d)) seen) s)))"
        by (simp add: Let_def first_seen_def)
      with Cons.IH [OF Cons.prems(1)] show ?thesis by fastforce
    next
      case (Inr x)
      then obtain u t where run: "DeleteInstances (dep_id d) s = Inr (u, t)" by (cases x) auto
      show ?thesis
      proof (cases "inst_dep r = dep_id d")
        case True
        with False show ?thesis by auto
      next
        case other: False
        have "service_instances t = delete_where (\<lambda>i. inst_dep i = dep_id d) (service_instances s)"
          using run by (rule DeleteInstances_rows)
        with other Cons.prems(1) have "r \<in> set (service_instances t)" by simp
        moreover from False Cons.prems(2) run have "r \<notin> set (service_instances (snd (teardown wall ctl ds seen t)))"
          by (simp add: Let_def first_seen_def)
        ultimately show ?thesis using Cons.IH by fastforce
      qed
    qed
  qed
qed simp

lemma in_set_if: "x \<in> set (if P then xs else []) \<longleftrightarrow> P \<and> x \<in> set xs"
  by simp

lemma in_set_option: "x \<in> set (case m of None \<Rightarrow> [] | Some a \<Rightarrow> f a) \<longleftrightarrow> (\<exists>a. m = Some a \<and> x \<in> set (f a))"
  by (cases m) simp_all

lemma routes_of_live:
  assumes "lr \<in> set (routes_of c org strand s d)"
  shows "dep_state d = DeployLive \<and> lr_project lr = dep_project d \<and> lr_env8 lr = shortID (dep_env d)"
  using assms unfolding routes_of_def Let_def in_set_option in_set_if set_map by auto

lemma routes_live:
  assumes "lr \<in> set (liveRoutes c org strand s)"
  obtains d where "d \<in> set (deployments s)" "dep_state d = DeployLive" "lr_project lr = dep_project d"
    "lr_env8 lr = shortID (dep_env d)" "lr \<in> set (routes_of c org strand s d)"
proof -
  from assms obtain d where "d \<in> set (deployments s)" "lr \<in> set (routes_of c org strand s d)"
    by (auto simp: liveRoutes_def)
  with that routes_of_live [OF this(2)] show ?thesis by blast
qed

text \<open>
  C11: no container is taken away from under traffic. When a tick deletes an instance row, the row's
  deployment is superseded or failed, no route of the database names its project, the router (if
  there is one) has accepted the current routes in this very tick, before the deletion, and the
  deployment was already seen terminal by an earlier tick at least the grace period ago (or there is
  no grace period).
\<close>

theorem teardown_waits_for_router:
  assumes "reachable_db inet sha digest s"
    and "s1 = snd (advance_all c wall ctl (listRolloutsInState (ctl_org ctl) active_states s) s)"
    and "r \<in> set (service_instances s)"
    and "r \<notin> set (service_instances (tick_db (ReconcileOnce c wall sync ctl s disk)))"
  shows "\<exists>d \<in> set (deployments s1). dep_id d = inst_dep r \<and> dep_state d \<in> {DeploySuperseded, DeployFailed} \<and>
    dep_project d \<notin> lr_project ` set (liveRoutes c None (routeStrand ctl) s1) \<and>
    (\<forall>f. sync = Some f \<longrightarrow> fst (syncRouter c ctl f s1 disk) = None) \<and>
    (teardownGrace ctl \<le> 0 \<or>
     (\<exists>first. map_of (firstTerminal ctl) (inst_dep r) = Some first \<and> first + teardownGrace ctl \<le> wall))"
proof -
  obtain mail where adv: "advance_all c wall ctl (listRolloutsInState (ctl_org ctl) active_states s) s = (mail, s1)"
    using assms(2) by (metis prod.collapse)
  have keep: "reachable_db inet sha digest s1" "service_instances s1 = service_instances s"
    using advance_all_keeps [OF assms(1) adv] by auto
  obtain err disk1 where rt: "(case sync of None \<Rightarrow> (None, disk) | Some f \<Rightarrow> syncRouter c ctl f s1 disk) = (err, disk1)"
    by fastforce
  have synced: "err = None"
  proof (rule ccontr)
    assume "err \<noteq> None"
    with assms(3,4) keep show False by (simp add: reconcile_db [OF adv rt])
  qed
  let ?ds = "listRolloutsInState (ctl_org ctl) terminal_states s1"
  from assms(4) have "r \<notin> set (service_instances (snd (teardown wall ctl ?ds [] s1)))"
    by (simp add: reconcile_db [OF adv rt] synced)
  then obtain d where d: "d \<in> set ?ds" "dep_id d = inst_dep r" "teardownGrace ctl \<le> wall - first_seen wall ctl (dep_id d)"
    using teardown_removes assms(3) keep(2) by (metis (no_types, lifting))
  have mem: "d \<in> set (deployments s1)" "dep_state d \<in> {DeploySuperseded, DeployFailed}"
    using d(1) by (auto simp: listRolloutsInState_def terminal_states_def)
  have "distinct (map dep_project (deployments s1))"
    using store_inv_indexes [OF reachable_store_inv [OF keep(1)]] by (simp add: dep_indexes_ok_def)
  then have "x = d" if "x \<in> set (deployments s1)" "dep_project x = dep_project d" for x
    using that mem(1) by (auto simp: distinct_map inj_on_def)
  then have unrouted: "dep_project d \<notin> lr_project ` set (liveRoutes c None (routeStrand ctl) s1)"
    using mem(2) by (auto elim!: routes_live)
  have "\<forall>f. sync = Some f \<longrightarrow> fst (syncRouter c ctl f s1 disk) = None" using rt synced by auto
  with mem d unrouted show ?thesis
    by (intro bexI [of _ d]) (auto simp: first_seen_def split: option.splits)
qed

definition ex_gave_up :: db where
  "ex_gave_up = ok_db (UpdateDeploymentState ex_call ''d1'' DeployFailed ''no'' (ok_db op8))"

definition ex_late_ctl :: controller where
  "ex_late_ctl = ex_ctl\<lparr>firstTerminal := [(''d1'', 990)]\<rparr>"

theorem teardown_waits_for_router_witness:
  "\<exists>r \<in> set (service_instances ex_gave_up). inst_dep r = ''d1'' \<and>
     r \<notin> set (service_instances (tick_db (ReconcileOnce ex_call 1000 None ex_late_ctl ex_gave_up \<lparr>disk_tmp = None, disk_file = None\<rparr>))) \<and>
     (\<exists>first. map_of (firstTerminal ex_late_ctl) (inst_dep r) = Some first \<and> first + 5 \<le> 1000)"
proof -
  have "succeeded (UpdateDeploymentState ex_call ''d1'' DeployFailed ''no'' (ok_db op8))" by code_simp
  then have reach: "ex_reach ex_gave_up"
    unfolding ex_gave_up_def by (rule reach_op [OF ex_reach_8]) (erule st_state, simp)
  let ?r = "hd (service_instances ex_gave_up)"
  let ?t = "ReconcileOnce ex_call 1000 None ex_late_ctl ex_gave_up \<lparr>disk_tmp = None, disk_file = None\<rparr>"
  have "length (service_instances ex_gave_up) = 2" by code_simp
  then have mem: "?r \<in> set (service_instances ex_gave_up)" by (intro hd_in_set) auto
  have gone: "service_instances (tick_db ?t) = []" and dep: "inst_dep ?r = ''d1''" by code_simp+
  from gone have out: "?r \<notin> set (service_instances (tick_db ?t))" by simp
  have "teardownGrace ex_late_ctl = 5" by (simp add: ex_late_ctl_def ex_ctl_def)
  with teardown_waits_for_router [OF reach refl mem out] have "\<exists>first. map_of (firstTerminal ex_late_ctl) (inst_dep ?r) = Some first \<and> first + 5 \<le> 1000"
    by fastforce
  with mem out dep show ?thesis by blast
qed

section \<open>Rollouts make progress\<close>

lemma get_env_move:
  assumes "environments t = environments s" shows "get_env t i = get_env s i"
  by (simp add: get_env_def assms)

lemma all_running_counts:
  assumes "set states \<subseteq> {InstanceRunning}"
  shows "count_state [InstancePending] states = 0" "count_state [InstanceFailed, InstanceUnhealthy] states = 0"
    "count_state [InstanceRunning] states = length states"
  using assms by (auto simp: count_state_def filter_empty_conv intro!: filter_True [THEN arg_cong [where f = length]])

lemma InstanceStates_cong: "service_instances t = service_instances s \<Longrightarrow> InstanceStates i t = InstanceStates i s"
  by (simp add: InstanceStates_def)

text \<open>
  C19: a rollout whose containers all run reaches traffic. When every instance of a scheduling
  deployment has reported running, three passes of the controller, at whatever times and with
  whatever happens to the clocks in between, take it through starting and healthy to live, and its
  environment's live pointer then names it. None of the three calls can be refused.
\<close>

theorem running_rollout_goes_live:
  assumes "reachable_db inet sha digest s" "get_dep s i = Some d" "dep_state d = DeployScheduling"
    and "InstanceStates i s \<noteq> []" "set (InstanceStates i s) \<subseteq> {InstanceRunning}"
  shows "\<exists>s1 d1 s2 d2 s3 d3.
    advance c1 w1 ctl d s = Inr ([], s1) \<and> get_dep s1 i = Some d1 \<and> dep_state d1 = DeployStarting \<and>
    advance c2 w2 ctl d1 s1 = Inr ([], s2) \<and> get_dep s2 i = Some d2 \<and> dep_state d2 = DeployHealthy \<and>
    advance c3 w3 ctl d2 s2 = Inr ([], s3) \<and> get_dep s3 i = Some d3 \<and> dep_state d3 = DeployLive \<and>
    map_option env_live (get_env s3 (dep_env d)) = Some (Some i)"
proof -
  have inv: "store_inv s" using assms(1) by (rule reachable_store_inv)
  have id: "dep_id d = i" using get_depD [OF assms(2)] by simp
  note run = all_running_counts [OF assms(5)]
  obtain s1 where s1: "UpdateDeploymentState c1 i DeployStarting [] s = Inr ((), s1)"
    "get_dep s1 i = Some (moved c1 DeployStarting (nullif []) d)" "service_instances s1 = service_instances s"
    by (rule UpdateDeploymentState_total [OF inv assms(2), of DeployStarting]) (auto simp: validTransitions_def assms(3))
  let ?d1 = "moved c1 DeployStarting (nullif []) d"
  have a1: "advance c1 w1 ctl d s = Inr ([], s1)"
    by (simp add: advance_def Let_def id assms(3,4) run s1(1))
  have inv1: "store_inv s1" using advance_reachable [OF assms(1) a1] by (rule reachable_store_inv)
  have st1: "InstanceStates i s1 = InstanceStates i s" using s1(3) by (rule InstanceStates_cong)
  obtain s2 where s2: "UpdateDeploymentState c2 i DeployHealthy [] s1 = Inr ((), s2)"
    "get_dep s2 i = Some (moved c2 DeployHealthy (nullif []) ?d1)" "service_instances s2 = service_instances s1"
    by (rule UpdateDeploymentState_total [OF inv1 s1(2), of DeployHealthy]) (auto simp: validTransitions_def)
  let ?d2 = "moved c2 DeployHealthy (nullif []) ?d1"
  have a2: "advance c2 w2 ctl ?d1 s1 = Inr ([], s2)"
    by (simp add: advance_def Let_def id assms(4) run st1 s2(1))
  have inv2: "store_inv s2"
    using advance_reachable [OF advance_reachable [OF assms(1) a1] a2] by (rule reachable_store_inv)
  have st2: "InstanceStates i s2 = InstanceStates i s" using InstanceStates_cong [OF s2(3)] st1 by simp
  obtain prev s3 where s3: "PromoteDeployment c3 i s2 = Inr (prev, s3)"
    using PromoteDeployment_total [OF inv2 s2(2), of c3] by auto
  have a3: "advance c3 w3 ctl ?d2 s2 = Inr ([], s3)"
    by (simp add: advance_def Let_def id assms(4) run st2 s3)
  obtain d' e es where d': "get_dep s2 i = Some d'" and e': "get_env s2 (dep_env d') = Some e"
    and t': "s3 = s2\<lparr>deployments := map (promoted_row c3 prev i) (deployments s2),
      environments := update_where (\<lambda>r. env_id r = dep_env d') (\<lambda>r. r\<lparr>env_live := Some i\<rparr>) (environments s2),
      events := events s2 @ es\<rparr>"
    using s3 by (rule PromoteDeployment_ok)
  from d' s2(2) have "dep_env d' = dep_env d" by auto
  note e = e' [unfolded this] and t = t' [unfolded this]
  have "get_dep s3 i = Some (promoted_row c3 prev i ?d2)"
    using s2(2) get_dep_map [where g = "promoted_row c3 prev i" and s = s3 and D = "deployments s2" and i = i]
    by (simp add: t get_dep_def)
  moreover have "dep_state (promoted_row c3 prev i ?d2) = DeployLive" by (simp add: promoted_row_def Let_def id)
  moreover have "map_option env_live (get_env s3 (dep_env d)) = Some (Some i)"
    using e get_envD [OF e] by (simp add: t get_env_def set_live.lookup_update)
  ultimately show ?thesis using a1 a2 a3 s1(2) s2(2)
    by (intro exI [of _ s1] exI [of _ ?d1] exI [of _ s2] exI [of _ ?d2] exI [of _ s3]
        exI [of _ "promoted_row c3 prev i ?d2"]) simp
qed

definition ex_all_running :: db where
  "ex_all_running = ok_db (ReportInstance ex_call ''n1'' ''i2'' ex_running (ok_db op9))"

theorem running_rollout_goes_live_witness:
  "\<exists>d s1. get_dep ex_all_running ''d1'' = Some d \<and> dep_state d = DeployScheduling \<and>
     advance ex_call 1000 ex_ctl d ex_all_running = Inr ([], s1)"
proof -
  have r9: "ex_reach (ok_db op9)"
    by (rule reach_op [OF ex_reach_8 ops_succeed(9)]) (unfold op9_def, erule st_report)
  have "succeeded (ReportInstance ex_call ''n1'' ''i2'' ex_running (ok_db op9))" by code_simp
  then have reach: "ex_reach ex_all_running"
    unfolding ex_all_running_def by (rule reach_op [OF r9]) (erule st_report)
  have "map_option dep_state (get_dep ex_all_running ''d1'') = Some DeployScheduling" by code_simp
  then obtain d where d: "get_dep ex_all_running ''d1'' = Some d" "dep_state d = DeployScheduling" by auto
  have st: "InstanceStates ''d1'' ex_all_running = [InstanceRunning, InstanceRunning]" by code_simp
  have "InstanceStates ''d1'' ex_all_running \<noteq> []" "set (InstanceStates ''d1'' ex_all_running) \<subseteq> {InstanceRunning}"
    by (simp_all add: st)
  from running_rollout_goes_live [OF reach d this] d show ?thesis by blast
qed

text \<open>
  What is told of a broken instance: its service and the error its agent reported, or its state when the
  agent reported none. The instances are listed by service name.
\<close>

definition account_of :: "service_instance \<Rightarrow> string" where
  "account_of x = inst_service x @ '': '' @
     (case inst_error x of
        Some (c # e) \<Rightarrow> c # e
      | _ \<Rightarrow> if inst_state x = InstanceUnhealthy then ''unhealthy'' else ''failed'')"

definition broken_instances :: "uuid \<Rightarrow> db \<Rightarrow> service_instance list" where
  "broken_instances i s = sort_key inst_service
     (filter (\<lambda>x. inst_dep x = i \<and> inst_state x \<in> {InstanceFailed, InstanceUnhealthy}) (service_instances s))"

definition reason_text :: "uuid \<Rightarrow> db \<Rightarrow> string" where
  "reason_text i s = ''an instance failed to start: '' @ str_join ''; '' (map account_of (broken_instances i s))"

lemma failureReason_text: "broken_instances i s \<noteq> [] \<Longrightarrow> failureReason i s = reason_text i s"
proof -
  assume ne: "broken_instances i s \<noteq> []"
  have fi: "FailedInstances i s = map (\<lambda>x. \<lparr>if_service = inst_service x, if_state = inst_state x,
      if_error = (case inst_error x of None \<Rightarrow> [] | Some e \<Rightarrow> e)\<rparr>) (broken_instances i s)"
    by (simp add: FailedInstances_def broken_instances_def)
  have "inst_state x \<in> {InstanceFailed, InstanceUnhealthy}" if "x \<in> set (broken_instances i s)" for x
    using that by (simp add: broken_instances_def)
  then have "map failure_part (FailedInstances i s) = map account_of (broken_instances i s)"
    by (fastforce simp: fi failure_part_def account_of_def instance_state_text_def split: option.splits list.splits)
  moreover have "FailedInstances i s \<noteq> []" using ne fi by simp
  ultimately show ?thesis by (simp add: failureReason_def generic_failure_def reason_text_def)
qed

lemma deployment_event:
  assumes "appendDeploymentEventTx c i kind msg payload s = Inr t"
  obtains ev where "t = s\<lparr>events := events s @ [ev]\<rparr>" "ev_kind ev = kind" "ev_dep ev = Some i" "ev_message ev = msg"
  using assms by (auto simp: appendDeploymentEventTx_def appendEventTx_def split: option.splits if_splits)

text \<open>Failing a rollout rewrites its row and appends one event, and that is all.\<close>

lemma fail_rollout_exact:
  assumes inv: "store_inv s" and d: "get_dep s i = Some d" "dep_state d \<in> set active_states" and why: "why \<noteq> []"
  obtains ev where "UpdateDeploymentState c i DeployFailed why s = Inr ((), s\<lparr>
      deployments := map (\<lambda>r. if dep_id r = i then r\<lparr>dep_state := DeployFailed, dep_failure := Some why, dep_updated_at := now c\<rparr> else r)
        (deployments s), events := events s @ [ev]\<rparr>)"
    "ev_kind ev = ''deployment.state_changed''" "ev_dep ev = Some i" "ev_message ev = ''deployment entered failed''"
proof -
  obtain t where run: "UpdateDeploymentState c i DeployFailed why s = Inr ((), t)"
    by (rule UpdateDeploymentState_total [OF inv d(1), of DeployFailed])
      (use d(2) in \<open>auto simp: validTransitions_def active_states_def\<close>)
  then obtain allowed where a: "validTransitions DeployFailed = Some allowed"
    by (auto simp: UpdateDeploymentState_def split: option.splits)
  let ?t = "touch_dep c (\<lambda>d. dep_id d = i \<and> dep_state d \<in> set allowed)
      (\<lambda>d. d\<lparr>dep_state := DeployFailed, dep_failure := nullif why\<rparr>) (deployments s)"
  from run a have "appendDeploymentEventTx c i ''deployment.state_changed'' (''deployment entered '' @ state_text DeployFailed)
      [(''state'', JStr (state_text DeployFailed)), (''reason'', JStr why)] (s\<lparr>deployments := ?t\<rparr>) = Inr t"
    by (auto simp: UpdateDeploymentState_def Let_def write_deps_def split: if_splits sum.splits option.splits)
  then obtain ev where ev: "t = s\<lparr>deployments := ?t, events := events s @ [ev]\<rparr>" "ev_kind ev = ''deployment.state_changed''"
    "ev_dep ev = Some i" "ev_message ev = ''deployment entered failed''"
    by (rule deployment_event) (simp add: state_text_def)
  have "dep_state r \<in> set allowed" if "r \<in> set (deployments s)" "dep_id r = i" for r
  proof -
    have "get_dep s i = Some r" using that by (simp add: get_dep_iff [OF store_inv_dep_ids [OF inv]])
    with d(1) have "r = d" by simp
    with d(2) a show ?thesis by (auto simp: validTransitions_def active_states_def)
  qed
  then have "?t = map (\<lambda>r. if dep_id r = i then r\<lparr>dep_state := DeployFailed, dep_failure := Some why, dep_updated_at := now c\<rparr> else r)
      (deployments s)"
    using why unfolding touch_dep_def update_where_def by (intro map_cong refl) (simp add: nullif_def)
  with run ev(1) show ?thesis by (intro that [OF _ ev(2-4)]) simp
qed

text \<open>
  C31: a rollout with a failed or unhealthy instance is failed, and the revision that was serving is not
  touched. The call succeeds from each state the controller advances (scheduling, starting, healthy).
  The recorded reason, which is also the one mailed, lists every broken instance by service name, with
  the error its agent reported or else its state. The deployment's own row and one appended event are
  all that changes: every other row of every table is the same.
\<close>

theorem broken_rollout_fails:
  assumes "reachable_db inet sha digest s" "get_dep s i = Some d" "dep_state d \<in> {DeployScheduling, DeployStarting, DeployHealthy}"
    and "x \<in> set (service_instances s)" "inst_dep x = i" "inst_state x \<in> {InstanceFailed, InstanceUnhealthy}"
  shows "\<exists>ev. advance c wall ctl d s = Inr ([(i, reason_text i s)], s\<lparr>
      deployments := map (\<lambda>r. if dep_id r = i
        then r\<lparr>dep_state := DeployFailed, dep_failure := Some (reason_text i s), dep_updated_at := now c\<rparr> else r) (deployments s),
      events := events s @ [ev]\<rparr>) \<and>
    ev_kind ev = ''deployment.state_changed'' \<and> ev_dep ev = Some i \<and> ev_message ev = ''deployment entered failed'' \<and>
    x \<in> set (broken_instances i s)"
proof -
  have inv: "store_inv s" using assms(1) by (rule reachable_store_inv)
  have id: "dep_id d = i" using get_depD [OF assms(2)] by simp
  have listed: "x \<in> set (broken_instances i s)" using assms(4-6) by (simp add: broken_instances_def)
  then have reason: "failureReason i s = reason_text i s" by (intro failureReason_text) auto
  have "inst_state x \<in> set (InstanceStates i s)" using assms(4,5) by (auto simp: InstanceStates_def)
  with assms(6) have bad: "InstanceStates i s \<noteq> []" "0 < count_state [InstanceFailed, InstanceUnhealthy] (InstanceStates i s)"
    by (auto simp: count_state_def filter_empty_conv)
  have "dep_state d \<in> set active_states" "reason_text i s \<noteq> []" using assms(3) by (auto simp: active_states_def reason_text_def)
  from fail_rollout_exact [OF inv assms(2) this, of c] obtain ev where
    ev: "UpdateDeploymentState c i DeployFailed (reason_text i s) s = Inr ((), s\<lparr>
      deployments := map (\<lambda>r. if dep_id r = i
        then r\<lparr>dep_state := DeployFailed, dep_failure := Some (reason_text i s), dep_updated_at := now c\<rparr> else r) (deployments s),
      events := events s @ [ev]\<rparr>)"
    "ev_kind ev = ''deployment.state_changed''" "ev_dep ev = Some i" "ev_message ev = ''deployment entered failed''" .
  with bad listed show ?thesis by (intro exI [of _ ev]) (simp add: advance_def Let_def id reason)
qed

definition ex_broken :: observed_instance where
  "ex_broken = ex_running\<lparr>oi_state := InstanceFailed, oi_error := ''pull access denied''\<rparr>"

definition ex_broken_db :: db where
  "ex_broken_db = ok_db (ReportInstance ex_call ''n1'' ''i1'' ex_broken (ok_db op8))"

theorem broken_rollout_fails_witness:
  "\<exists>d t. get_dep ex_broken_db ''d1'' = Some d \<and> advance ex_call 1000 ex_ctl d ex_broken_db =
     Inr ([(''d1'', ''an instance failed to start: '' @ inst_service (hd (service_instances ex_broken_db)) @ '': pull access denied'')], t)"
proof -
  have "succeeded (ReportInstance ex_call ''n1'' ''i1'' ex_broken (ok_db op8))" by code_simp
  then have reach: "ex_reach ex_broken_db"
    unfolding ex_broken_db_def by (rule reach_op [OF ex_reach_8]) (erule st_report)
  have "map_option dep_state (get_dep ex_broken_db ''d1'') = Some DeployScheduling" by code_simp
  then obtain d where d: "get_dep ex_broken_db ''d1'' = Some d"
    "dep_state d \<in> {DeployScheduling, DeployStarting, DeployHealthy}" by auto
  let ?x = "hd (service_instances ex_broken_db)"
  have "length (service_instances ex_broken_db) = 2" and x: "inst_dep ?x = ''d1''" "inst_state ?x = InstanceFailed" by code_simp+
  then have "?x \<in> set (service_instances ex_broken_db)" by (intro hd_in_set) auto
  note run = broken_rollout_fails [OF reach d this x(1), of ex_call 1000 ex_ctl]
  have "reason_text ''d1'' ex_broken_db = ''an instance failed to start: '' @ inst_service ?x @ '': pull access denied''"
    by code_simp
  with run x(2) d show ?thesis by auto
qed

section \<open>A rollout that never starts\<close>

text \<open>
  The start timeout covers only the starting state. A scheduling deployment one of whose instances
  is still pending and none of whose instances failed is left as it is by every pass, however late:
  when its node is lost before the containers are created the rollout is never failed, and since it
  stays active no other revision can be deployed to the environment.
\<close>

theorem scheduling_never_times_out:
  assumes "dep_state d = DeployScheduling" "InstancePending \<in> set (InstanceStates (dep_id d) s)"
    and "InstanceFailed \<notin> set (InstanceStates (dep_id d) s)" "InstanceUnhealthy \<notin> set (InstanceStates (dep_id d) s)"
  shows "advance c wall ctl d s = Inr ([], s)"
proof -
  have "count_state [InstanceFailed, InstanceUnhealthy] (InstanceStates (dep_id d) s) = 0"
    "0 < count_state [InstancePending] (InstanceStates (dep_id d) s)"
    using assms by (auto simp: count_state_def filter_empty_conv)
  with assms show ?thesis by (auto simp: advance_def Let_def)
qed

theorem scheduling_never_times_out_witness:
  "\<exists>d. get_dep (ok_db op8) ''d1'' = Some d \<and> advance (ex_call\<lparr>now := 1000000\<rparr>) 1000000 ex_ctl d (ok_db op8) = Inr ([], ok_db op8) \<and>
     \<not> succeeded (CreateDeployment (ex_call\<lparr>now := 1000000\<rparr>) ''d2'' ex_deploy_params (ok_db op8))"
proof -
  have "map_option (\<lambda>d. (dep_id d, dep_state d)) (get_dep (ok_db op8) ''d1'') = Some (''d1'', DeployScheduling)" by code_simp
  then obtain d where d: "get_dep (ok_db op8) ''d1'' = Some d" "dep_id d = ''d1''" "dep_state d = DeployScheduling" by auto
  have st: "InstanceStates ''d1'' (ok_db op8) = [InstancePending, InstancePending]" by code_simp
  have "advance (ex_call\<lparr>now := 1000000\<rparr>) 1000000 ex_ctl d (ok_db op8) = Inr ([], ok_db op8)"
    by (rule scheduling_never_times_out) (simp_all add: d(2,3) st)
  moreover have "\<not> succeeded (CreateDeployment (ex_call\<lparr>now := 1000000\<rparr>) ''d2'' ex_deploy_params (ok_db op8))" by code_simp
  ultimately show ?thesis using d(1) by blast
qed

end
