(* ===== verification/Rollout_Routing.thy ===== *)
theory Rollout_Routing
  imports Rollout_Controller Store_Previews
begin

text \<open>
  What the composition of store, controller and router serves: hostnames that reach the router have
  been validated when their environment was created, so a tick is refused by the router only for an
  address or a port an agent supplied; and which routes a node's state withdraws.
\<close>

section \<open>Hostnames in the database are valid\<close>

definition hostnames_from :: "db \<Rightarrow> db \<Rightarrow> bool" where
  "hostnames_from s t \<longleftrightarrow> env_hostname ` set (environments t) \<subseteq> env_hostname ` set (environments s)"

definition hostnames_ok :: "db \<Rightarrow> bool" where
  "hostnames_ok s \<longleftrightarrow> (\<forall>e \<in> set (environments s). \<forall>h. env_hostname e = Some h \<longrightarrow> re_match hostnamePattern h)"

lemma hostnames_frame: "environments t = environments s \<Longrightarrow> hostnames_from s t"
  by (simp add: hostnames_from_def)

lemma hostnames_update:
  "environments t = update_where P f (environments s) \<Longrightarrow> (\<And>e. env_hostname (f e) = env_hostname e) \<Longrightarrow> hostnames_from s t"
  by (auto simp: hostnames_from_def update_where_def)

lemma hostnames_delete: "environments t = delete_where P (environments s) \<Longrightarrow> hostnames_from s t"
  by (auto simp: hostnames_from_def)

lemma hostnames_ok_from: "hostnames_ok s \<Longrightarrow> hostnames_from s t \<Longrightarrow> hostnames_ok t"
  unfolding hostnames_ok_def hostnames_from_def by (metis image_iff subsetD)

lemma hostnames_node_operations:
  "RegisterNode inet sha c i tok pn s = Inr (r, t) \<Longrightarrow> hostnames_from s t"
  "Heartbeat c i s = Inr (u, t) \<Longrightarrow> hostnames_from s t"
  "DrainNode i s = Inr (u, t) \<Longrightarrow> hostnames_from s t"
  "UncordonNode c i s = Inr (u, t) \<Longrightarrow> hostnames_from s t"
  "RotateNodeRecipient c i s = Inr (n, t) \<Longrightarrow> hostnames_from s t"
  "hostnames_from s (MarkStaleNodesUnreachable c s)"
proof -
  show "hostnames_from s t" if "RegisterNode inet sha c i tok pn s = Inr (r, t)"
  proof (cases r)
    case (Pair n issued)
    from that [unfolded Pair] show ?thesis by (cases rule: RegisterNode_ok) (auto intro: hostnames_frame)
  qed
  show "hostnames_from s t" if "Heartbeat c i s = Inr (u, t)"
    using that unfolding Heartbeat_def by (auto dest!: update_node_ok intro: hostnames_frame)
  show "hostnames_from s t" if "DrainNode i s = Inr (u, t)"
    using that unfolding DrainNode_def by (auto dest!: update_node_ok intro: hostnames_frame)
  show "hostnames_from s t" if "UncordonNode c i s = Inr (u, t)"
    using that by (rule UncordonNode_ok) (auto intro: hostnames_frame)
  show "hostnames_from s t" if "RotateNodeRecipient c i s = Inr (n, t)"
    using that by (rule RotateNodeRecipient_ok) (auto intro: hostnames_frame)
  show "hostnames_from s (MarkStaleNodesUnreachable c s)"
    by (rule hostnames_frame) (simp add: MarkStaleNodesUnreachable_def)
qed

lemma hostnames_catalog_operations:
  "CreateOrganization c i sl nm s = Inr (r1, t) \<Longrightarrow> hostnames_from s t"
  "CreateApplication c i og sl nm s = Inr (r2, t) \<Longrightarrow> hostnames_from s t"
  "CreateStack c i ap sl s = Inr (r3, t) \<Longrightarrow> hostnames_from s t"
  "CreateStackVersion digest c i st raw sp cb s = Inr (r4, t) \<Longrightarrow> hostnames_from s t"
  "SetSecret c i e k ct kid s = Inr (u, t) \<Longrightarrow> hostnames_from s t"
  "DeleteSecret c e k s = Inr (u, t) \<Longrightarrow> hostnames_from s t"
  "ReportInstance c nd i ob s = Inr (u, t) \<Longrightarrow> hostnames_from s t"
  "DeleteInstances d s = Inr (u, t) \<Longrightarrow> hostnames_from s t"
  by (rule hostnames_frame; auto simp: CreateOrganization_def CreateApplication_def CreateStack_def
      CreateStackVersion_def insert_stack_version_def SetSecret_def DeleteSecret_def ReportInstance_def
      DeleteInstances_def release_capacity_def Let_def
      split: option.splits sum.splits if_splits elim!: appendEnvironmentEventTx_ok)+

lemma hostnames_sweeps:
  "hostnames_from s (sweepTombstones c og age s)"
  "hostnames_from s (snd (claimPreviewsForExpiryWarning c age og s))"
  "hostnames_from s (snd (PruneSecretVersions c og age s))"
  by (auto simp: hostnames_from_def sweepTombstones_def claimPreviewsForExpiryWarning_def
      PruneSecretVersions_def update_where_def)

lemma hostnames_rollout_operations:
  "createDeploymentTx c i p s = Inr (d, t) \<Longrightarrow> environments t = environments s"
  "CreateDeployment c i p s = Inr (r8, t) \<Longrightarrow> hostnames_from s t"
  "RollbackDeployment c i e rev1 s = Inr (r9, t) \<Longrightarrow> hostnames_from s t"
  "UpdateDeploymentState c j to why s = Inr (u, t) \<Longrightarrow> hostnames_from s t"
  "PromoteDeployment c i s = Inr (prev, t) \<Longrightarrow> hostnames_from s t"
  "PlaceDeployment c j nd insts cpu mem s = Inr (u, t) \<Longrightarrow> hostnames_from s t"
  "ReleaseEnvironmentHome c e s = Inr (u, t) \<Longrightarrow> hostnames_from s t"
  "expireEnvironments c og s = Inr (r7, t) \<Longrightarrow> hostnames_from s t"
proof -
  show tx: "environments t = environments s" if "createDeploymentTx c i p s = Inr (d, t)" for p d
    using that by (rule createDeploymentTx_ok) simp
  show create: "hostnames_from s t" if "CreateDeployment c i p s = Inr (r8, t)" for p r8
    using that by (cases r8) (auto simp: CreateDeployment_def intro: hostnames_frame tx)
  show "hostnames_from s t" if "RollbackDeployment c i e rev1 s = Inr (r9, t)"
    using that create by (auto simp: RollbackDeployment_def Let_def split: option.splits if_splits)
  show "hostnames_from s t" if "UpdateDeploymentState c j to why s = Inr (u, t)"
    using that by (rule UpdateDeploymentState_ok) (auto intro: hostnames_frame)
  show "hostnames_from s t" if "PromoteDeployment c i s = Inr (prev, t)"
    using that by (rule PromoteDeployment_ok) (auto simp: hostnames_from_def update_where_def)
  show "hostnames_from s t" if "PlaceDeployment c j nd insts cpu mem s = Inr (u, t)"
    using that
  proof (cases rule: PlaceDeployment_ok)
    case (placed d e n s1 ev)
    then show ?thesis
      by (cases "env_home e") (auto simp: hostnames_from_def in_update_where)
  qed (simp add: hostnames_frame)
  show "hostnames_from s t" if "ReleaseEnvironmentHome c e s = Inr (u, t)"
    using that by (rule ReleaseEnvironmentHome_ok) (auto simp: hostnames_from_def update_where_def)
  show "hostnames_from s t" if "expireEnvironments c og s = Inr (r7, t)"
    using that reap_victims_effect [of c "expiry_victims c og s" s "r7" t]
    by (intro hostnames_delete) (auto simp: expireEnvironments_def)
qed

lemma validateHostname_ok: "validateHostname h = None \<Longrightarrow> nullif h = Some x \<Longrightarrow> re_match hostnamePattern x"
  by (auto simp: validateHostname_def nullif_def split: if_splits)

lemma hostnames_append:
  assumes "hostnames_ok s" "environments t = environments s @ [e]" "env_hostname e = nullif h" "validateHostname h = None"
  shows "hostnames_ok t"
  using assms validateHostname_ok [OF assms(4)] by (auto simp: hostnames_ok_def)

lemma hostnames_create:
  "CreateEnvironment c i pe s = Inr (r5, t) \<Longrightarrow> hostnames_ok s \<Longrightarrow> hostnames_ok t"
  "CreatePreview c i ids pp s = Inr (r6, t) \<Longrightarrow> hostnames_ok s \<Longrightarrow> hostnames_ok t"
proof -
  assume ok: "hostnames_ok s"
  show "hostnames_ok t" if "CreateEnvironment c i pe s = Inr (r5, t)"
  proof -
    from that obtain e where "environments t = environments s @ [e]" "env_hostname e = nullif (ce_hostname pe)"
      "validateHostname (ce_hostname pe) = None"
      by (auto simp: CreateEnvironment_def Let_def split: option.splits if_splits dest!: insert_environment_ok)
    with ok show ?thesis by (rule hostnames_append)
  qed
  show "hostnames_ok t" if "CreatePreview c i ids pp s = Inr (r6, t)"
  proof -
    from that have valid: "validateHostname (cp_hostname pp) = None"
      by (simp add: CreatePreview_def split: option.splits)
    let ?e = "\<lparr>env_id = cp_env pp, env_stack_id = cp_stack pp, env_slug = cp_slug pp, env_strategy = BlueGreen,
      env_hostname = nullif (cp_hostname pp), env_config = [], env_live = None, env_ephemeral = True,
      env_expires_at = Some (now c + cp_ttl pp), env_warned_at = None, env_home = None, env_created_at = now c\<rparr>"
    from that valid obtain s1 s2 d p where
      run: "insert_environment ?e s = Inr s1" "inherit_secrets c ids (cp_inherit pp) (cp_env pp) s1 = Inr s2"
      "createDeploymentTx c i p s2 = Inr (d, t)"
      by (auto simp: CreatePreview_def Let_def split: option.splits)
    from run have "environments t = environments s @ [?e]"
      by (auto dest!: insert_environment_ok inherit_secrets_ok hostnames_rollout_operations(1))
    from hostnames_append [OF ok this _ valid] show ?thesis by simp
  qed
qed

lemma hostnames_step: "store_step inet sha digest s t \<Longrightarrow> hostnames_ok s \<Longrightarrow> hostnames_ok t"
proof -
  assume ok: "hostnames_ok s" and step: "store_step inet sha digest s t"
  from step show ?thesis
  proof (cases rule: store_step.cases)
    case st_env
    with ok show ?thesis by (blast intro: hostnames_create)
  next
    case st_preview
    with ok show ?thesis by (blast intro: hostnames_create)
  qed (blast intro: hostnames_ok_from [OF ok] hostnames_node_operations hostnames_catalog_operations
      hostnames_sweeps hostnames_rollout_operations)+
qed

lemma hostnames_empty: "hostnames_ok empty_db"
  by (simp add: hostnames_ok_def empty_db_def)

interpretation hostnames: invariant_system "\<lambda>s. s = empty_db" "store_step inet sha digest" hostnames_ok
  for inet sha digest
  by unfold_locales (auto simp: hostnames_empty intro: hostnames_step)

lemma reachable_hostnames: "reachable_db inet sha digest s \<Longrightarrow> hostnames_ok s"
  unfolding reachable_db_def by (rule hostnames.reachable_inv [OF refl])

section \<open>What a tick serves\<close>

lemma star_target: "list_all target_char t \<Longrightarrow> t \<in> star (lang (Cls target_char))"
proof (induction t)
  case (Cons x t)
  then have "[x] @ t \<in> star (lang (Cls target_char))" by (intro star_app) auto
  then show ?case by simp
qed (rule star_Nil)

lemma target_ok: "x \<noteq> [] \<Longrightarrow> list_all target_char x \<Longrightarrow> re_match targetPattern x"
proof -
  assume x: "x \<noteq> []" "list_all target_char x"
  then obtain c t where "x = c # t" by (cases x) auto
  with x star_target [of t] show ?thesis
    by (simp add: re_match_iff targetPattern_def Plus_def lang_Cat_Cls del: lang.simps(4))
qed

definition addresses_ok :: "db \<Rightarrow> bool" where
  "addresses_ok s \<longleftrightarrow> (\<forall>n \<in> set (nodes s). node_addr n \<noteq> [] \<and> list_all target_char (node_addr n))"

lemma route_of_live:
  assumes "lr \<in> set (routes_of c org strand s d)"
  obtains e where "get_env s (dep_env d) = Some e" "dep_state d = DeployLive" "env_hostname e = Some (lr_hostname lr)"
    "lr_node_addr lr = (case env_home e of None \<Rightarrow> [] | Some h \<Rightarrow> (case get_node s h of None \<Rightarrow> [] | Some n \<Rightarrow> node_addr n))"
    "reachable_node c strand (case env_home e of None \<Rightarrow> None | Some h \<Rightarrow> get_node s h)"
    "lr_published_port lr \<in> set (ingress_ports (dep_id d) s)"
  using assms that unfolding routes_of_def Let_def in_set_option in_set_if set_map
  by (cases "env_home (the (get_env s (dep_env d)))") (auto split: option.splits)

text \<open>
  The router never refuses what the store serves because of a name. From a reachable database, with
  node addresses as Postgres renders them, every route handed to the router has a hostname and a target
  the router accepts, so the only thing that can make it refuse the file is a port an agent reported
  outside 1 to 65535; when all are within, every route is acceptable.
\<close>

theorem store_routes_are_routable:
  assumes "reachable_db inet sha digest s" "addresses_ok s"
    and "\<forall>i \<in> set (service_instances s). \<forall>p. inst_ingress_port i = Some p \<longrightarrow> 0 < p \<and> p \<le> 65535"
  shows "list_all routable (served_routes (liveRoutes c org strand s))"
  unfolding list_all_iff
proof
  fix rt assume "rt \<in> set (served_routes (liveRoutes c org strand s))"
  then obtain lr where lr: "lr \<in> set (liveRoutes c org strand s)" "lr_node_addr lr \<noteq> []" "lr_published_port lr \<noteq> 0"
    and rt: "rt_hostname rt = lr_hostname lr" "rt_target rt = lr_node_addr lr" "rt_port rt = lr_published_port lr"
    by (auto simp: served_routes_def)
  from lr(1) obtain d where "lr \<in> set (routes_of c org strand s d)" by (rule routes_live)
  then obtain e where e: "get_env s (dep_env d) = Some e" "env_hostname e = Some (lr_hostname lr)"
    and addr: "lr_node_addr lr = (case env_home e of None \<Rightarrow> [] | Some h \<Rightarrow> (case get_node s h of None \<Rightarrow> [] | Some n \<Rightarrow> node_addr n))"
    and port: "lr_published_port lr \<in> set (ingress_ports (dep_id d) s)"
    by (rule route_of_live)
  have host: "re_match hostnamePattern (lr_hostname lr)"
    using reachable_hostnames [OF assms(1)] get_envD [OF e(1)] e(2) by (auto simp: hostnames_ok_def)
  from addr lr(2) obtain n where "n \<in> set (nodes s)" "lr_node_addr lr = node_addr n"
    by (auto split: option.splits dest: get_nodeD)
  with assms(2) have target: "re_match targetPattern (lr_node_addr lr)" by (auto simp: addresses_ok_def intro: target_ok)
  from port lr(3) obtain x where "x \<in> set (service_instances s)" "inst_ingress_port x = Some (lr_published_port lr)"
    by (auto simp: ingress_ports_def Let_def List.map_filter_def split: if_splits)
  with assms(3) have "0 < lr_published_port lr" "lr_published_port lr \<le> 65535" by auto
  with host target rt show "routable rt"
    by (simp add: routable_def route_error_def hostNamePattern_def hostnamePattern_def)
qed

definition ex_published :: observed_instance where
  "ex_published = ex_running\<lparr>oi_ingress_port := 31000\<rparr>"

definition ex_serving :: db where
  "ex_serving = ok_db (ReportInstance ex_call ''n1'' ''i1'' ex_published (ok_db op12))"

lemma ex_serving_reach: "ex_reach ex_serving"
proof -
  have "succeeded (ReportInstance ex_call ''n1'' ''i1'' ex_published (ok_db op12))" by code_simp
  then show ?thesis unfolding ex_serving_def by (rule reach_op [OF ex_reach_12]) (erule st_report)
qed

theorem store_routes_are_routable_witness:
  "list_all routable (served_routes (liveRoutes ex_call None 120 ex_serving)) \<and>
   map rt_hostname (served_routes (liveRoutes ex_call None 120 ex_serving)) = [''shop.example.com'']"
proof
  have "list_all (\<lambda>n. node_addr n \<noteq> [] \<and> list_all target_char (node_addr n)) (nodes ex_serving)" by code_simp
  then have addr: "addresses_ok ex_serving" by (simp add: addresses_ok_def list_all_iff)
  have "list_all (\<lambda>i. case inst_ingress_port i of None \<Rightarrow> True | Some p \<Rightarrow> 0 < p \<and> p \<le> 65535) (service_instances ex_serving)"
    by code_simp
  then have port: "\<forall>i \<in> set (service_instances ex_serving). \<forall>p. inst_ingress_port i = Some p \<longrightarrow> 0 < p \<and> p \<le> 65535"
    by (auto simp: list_all_iff)
  show "list_all routable (served_routes (liveRoutes ex_call None 120 ex_serving))"
    by (rule store_routes_are_routable [OF ex_serving_reach addr port])
  show "map rt_hostname (served_routes (liveRoutes ex_call None 120 ex_serving)) = [''shop.example.com'']" by code_simp
qed

section \<open>One report stops the router\<close>

text \<open>
  A port is not checked where an agent reports it, and the router refuses the whole file for one bad
  route. While a single live environment of the installation has a reported port above 65535, every
  tick of the controller leaves the router's file as it is and tears nothing down, for all environments.
\<close>

theorem bad_port_stops_all_routing:
  assumes "s1 = snd (advance_all c wall ctl (listRolloutsInState (ctl_org ctl) active_states s) s)"
    and "rt \<in> set (served_routes (liveRoutes c None (routeStrand ctl) s1))" "rt_port rt > 65535"
    and "tk = ReconcileOnce c wall (Some (Sync yaml io r)) ctl s disk"
  shows "disk_file (tick_disk tk) = disk_file disk \<and> service_instances (tick_db tk) = service_instances s1"
proof -
  obtain mail where adv: "advance_all c wall ctl (listRolloutsInState (ctl_org ctl) active_states s) s = (mail, s1)"
    using assms(1) by (metis prod.collapse)
  let ?routes = "served_routes (liveRoutes c None (routeStrand ctl) s1)"
  have "\<not> list_all routable (sort_key rt_key ?routes)"
    using assms(2,3) by (auto simp: list_all_iff routable_def route_error_def split: if_splits)
  then obtain e where "build_routing r (sort_key rt_key ?routes) \<lparr>tr_routers = [], tr_services = []\<rparr> = Inl e"
    using build_routing_ok_iff by (metis sum.exhaust)
  then have "\<exists>e. syncRouter c ctl (Sync yaml io r) s1 disk = (Some e, disk)"
    by (cases io) (simp_all add: syncRouter_def Sync_def)
  then show ?thesis by (auto simp: assms(4) ReconcileOnce_def adv)
qed

definition ex_bad_port :: db where
  "ex_bad_port = ok_db (ReportInstance ex_call ''n1'' ''i1'' (ex_running\<lparr>oi_ingress_port := 70000\<rparr>) (ok_db op12))"

theorem bad_port_stops_all_routing_witness:
  "disk_file (tick_disk (ReconcileOnce ex_call 1000 (Some (Sync ex_yaml IoOk ex_router)) ex_ctl ex_bad_port
     \<lparr>disk_tmp = None, disk_file = Some ''old''\<rparr>)) = Some ''old''"
proof -
  let ?s1 = "snd (advance_all ex_call 1000 ex_ctl (listRolloutsInState (ctl_org ex_ctl) active_states ex_bad_port) ex_bad_port)"
  let ?rts = "served_routes (liveRoutes ex_call None (routeStrand ex_ctl) ?s1)"
  have port: "map rt_port ?rts = [70000]" by code_simp
  then obtain x where x: "?rts = [x]" "rt_port x = 70000" by auto
  then have mem: "x \<in> set ?rts" and big: "rt_port x > 65535" by simp_all
  from bad_port_stops_all_routing [OF refl mem big refl, of ex_yaml IoOk ex_router "\<lparr>disk_tmp = None, disk_file = Some ''old''\<rparr>"]
  show ?thesis by simp
qed

section \<open>Draining withdraws live routes\<close>

text \<open>
  Cordoning a node cuts the traffic of everything that runs on it. The run has one live environment
  served by a node whose heartbeat is current; after the drain the node still runs the deployment and
  is still heard from, nothing was superseded, and the environment has no route any more.
\<close>

theorem drain_withdraws_routes:
  "map lr_hostname (liveRoutes ex_call None 120 ex_serving) = [''shop.example.com''] \<and>
   succeeded (DrainNode ''n1'' ex_serving) \<and>
   succeeded (Heartbeat ex_call ''n1'' (ok_db (DrainNode ''n1'' ex_serving))) \<and>
   map dep_state (deployments (ok_db (Heartbeat ex_call ''n1'' (ok_db (DrainNode ''n1'' ex_serving))))) = [DeployLive] \<and>
   liveRoutes ex_call None 120 (ok_db (Heartbeat ex_call ''n1'' (ok_db (DrainNode ''n1'' ex_serving)))) = []"
  by code_simp

end
