(* ===== verification/Tenancy.thy ===== *)
theory Tenancy
  imports Store_Invariant Store_Enrolment Store_Logs
begin

text \<open>
  What it means for a change of the database to leave one organization alone, and that every operation
  an operator can cause leaves alone each organization but the one it was authorized for. The
  organization of an environment, a deployment or a secret is found through the catalog, as in the
  source, so the catalog itself must keep its paths.
\<close>

section \<open>Leaving an organization alone\<close>

text \<open>
  Nodes, environments, their secrets and deployments that belong to the organization are the same rows
  as before. Only the home of an environment may have been released, by a drain of the node it was on.
\<close>

definition tenant_kept :: "uuid \<Rightarrow> db \<Rightarrow> db \<Rightarrow> bool" where
  "tenant_kept og s t \<longleftrightarrow>
     (\<forall>i n. get_node s i = Some n \<longrightarrow> node_org n = og \<longrightarrow> get_node t i = Some n) \<and>
     (\<forall>i. org_of_stack s i = Some og \<longrightarrow> org_of_stack t i = Some og) \<and>
     (\<forall>i e. get_env s i = Some e \<longrightarrow> org_of_stack s (env_stack_id e) = Some og \<longrightarrow>
        (\<exists>e'. get_env t i = Some e' \<and> e'\<lparr>env_home := env_home e\<rparr> = e) \<and>
        filter (\<lambda>r. sec_env r = i) (secrets t) = filter (\<lambda>r. sec_env r = i) (secrets s)) \<and>
     (\<forall>i d. get_dep s i = Some d \<longrightarrow> org_of_env s (dep_env d) = Some og \<longrightarrow> get_dep t i = Some d)"

definition foreign_kept :: "uuid \<Rightarrow> control \<Rightarrow> control \<Rightarrow> bool" where
  "foreign_kept og s t \<longleftrightarrow>
     tenant_kept og (core s) (core t) \<and>
     filter (\<lambda>m. mem_org m = og) (organization_members t) = filter (\<lambda>m. mem_org m = og) (organization_members s) \<and>
     filter (\<lambda>j. jt_org j = og) (node_join_tokens t) = filter (\<lambda>j. jt_org j = og) (node_join_tokens s) \<and>
     filter (\<lambda>i. inv_org i = og) (operator_invites t) = filter (\<lambda>i. inv_org i = og) (operator_invites s) \<and>
     filter (\<lambda>r. ar_org r = og) (access_requests t) = filter (\<lambda>r. ar_org r = og) (access_requests s)"

lemma org_of_env_kept:
  assumes "tenant_kept og s t" "org_of_env s i = Some og"
  shows "org_of_env t i = Some og"
proof -
  from assms(2) obtain e where e: "get_env s i = Some e" "org_of_stack s (env_stack_id e) = Some og"
    by (auto simp: org_of_env_def split: option.splits)
  with assms(1) obtain e' where e': "get_env t i = Some e'" "e'\<lparr>env_home := env_home e\<rparr> = e"
    unfolding tenant_kept_def by blast
  from e' have "env_stack_id e' = env_stack_id e"
    by (metis environment.ext_inject environment.surjective environment.update_convs(11))
  with e e' assms(1) show ?thesis by (auto simp: org_of_env_def tenant_kept_def)
qed

lemma tenant_kept_refl [simp]: "tenant_kept og s s"
  by (auto simp: tenant_kept_def)

lemma env_home_trans:
  "e'\<lparr>env_home := env_home e\<rparr> = e \<Longrightarrow> e''\<lparr>env_home := env_home e'\<rparr> = e' \<Longrightarrow> e''\<lparr>env_home := env_home e\<rparr> = e"
  for e :: environment
  by (cases e; cases e'; cases e'') simp

lemma env_home_stack: "e'\<lparr>env_home := h\<rparr> = e \<Longrightarrow> env_stack_id e' = env_stack_id e" for e :: environment
  by auto

lemma tenant_kept_trans [trans]:
  assumes st: "tenant_kept og s t" and tu: "tenant_kept og t u"
  shows "tenant_kept og s u"
  unfolding tenant_kept_def
proof (intro conjI allI impI)
  show "get_node u i = Some n" if "get_node s i = Some n" "node_org n = og" for i n
    using that st tu unfolding tenant_kept_def by blast
  show "org_of_stack u i = Some og" if "org_of_stack s i = Some og" for i
    using that st tu unfolding tenant_kept_def by blast
  fix i
  show "\<exists>e'. get_env u i = Some e' \<and> e'\<lparr>env_home := env_home e\<rparr> = e"
    and "filter (\<lambda>r. sec_env r = i) (secrets u) = filter (\<lambda>r. sec_env r = i) (secrets s)"
    if e: "get_env s i = Some e" "org_of_stack s (env_stack_id e) = Some og" for e
  proof -
    from st e obtain e' where e': "get_env t i = Some e'" "e'\<lparr>env_home := env_home e\<rparr> = e"
      and sec: "filter (\<lambda>r. sec_env r = i) (secrets t) = filter (\<lambda>r. sec_env r = i) (secrets s)"
      unfolding tenant_kept_def by blast
    from e' e st have "org_of_stack t (env_stack_id e') = Some og"
      using env_home_stack [OF e'(2)] unfolding tenant_kept_def by metis
    with tu e' obtain e'' where e'': "get_env u i = Some e''" "e''\<lparr>env_home := env_home e'\<rparr> = e'"
      and sec': "filter (\<lambda>r. sec_env r = i) (secrets u) = filter (\<lambda>r. sec_env r = i) (secrets t)"
      unfolding tenant_kept_def by blast
    from e'' env_home_trans [OF e'(2) e''(2)] show "\<exists>e'. get_env u i = Some e' \<and> e'\<lparr>env_home := env_home e\<rparr> = e" by blast
    from sec sec' show "filter (\<lambda>r. sec_env r = i) (secrets u) = filter (\<lambda>r. sec_env r = i) (secrets s)" by simp
  qed
  show "get_dep u i = Some d" if "get_dep s i = Some d" "org_of_env s (dep_env d) = Some og" for d
    using that st tu org_of_env_kept [OF st that(2)] unfolding tenant_kept_def by blast
qed

lemma foreign_kept_refl [simp]: "foreign_kept og s s"
  by (simp add: foreign_kept_def)

lemma foreign_kept_trans [trans]: "foreign_kept og s t \<Longrightarrow> foreign_kept og t u \<Longrightarrow> foreign_kept og s u"
  by (auto simp: foreign_kept_def intro: tenant_kept_trans)

section \<open>Tables that grow and rows that are rewritten\<close>

lemma find_row_map_append:
  assumes "\<And>r. key (h r) = key r" "find_row (\<lambda>r. key r = k) t = Some r"
  shows "find_row (\<lambda>r. key r = k) (map h t @ x) = Some (h r)"
  by (simp add: find_row_append find_row_map [of key h, OF assms(1)] assms(2))

text \<open>
  Every operation below rewrites rows by their key and appends new ones. It leaves the organization alone
  when the rows it rewrites are not the organization's.
\<close>

lemma tenant_keptI:
  assumes catalog: "applications t = applications s @ xa" "stacks t = stacks s @ xs"
    and nodes: "nodes t = map f (nodes s) @ xn" "\<And>n. node_id (f n) = node_id n"
      "\<And>n. n \<in> set (nodes s) \<Longrightarrow> node_org n = og \<Longrightarrow> f n = n"
    and envs: "environments t = map g (environments s) @ xe" "\<And>e. env_id (g e) = env_id e"
      "\<And>e. e \<in> set (environments s) \<Longrightarrow> org_of_stack s (env_stack_id e) = Some og \<Longrightarrow> (g e)\<lparr>env_home := env_home e\<rparr> = e"
    and deps: "deployments t = map k (deployments s) @ xd" "\<And>d. dep_id (k d) = dep_id d"
      "\<And>d. d \<in> set (deployments s) \<Longrightarrow> org_of_env s (dep_env d) = Some og \<Longrightarrow> k d = d"
    and secs: "\<And>i e. get_env s i = Some e \<Longrightarrow> org_of_stack s (env_stack_id e) = Some og \<Longrightarrow>
      filter (\<lambda>r. sec_env r = i) (secrets t) = filter (\<lambda>r. sec_env r = i) (secrets s)"
  shows "tenant_kept og s t"
  unfolding tenant_kept_def
proof (intro conjI allI impI)
  show "get_node t i = Some n" if "get_node s i = Some n" "node_org n = og" for i n
    using that find_row_map_append [of node_id f, OF nodes(2), of i "nodes s" n xn] get_nodeD [OF that(1)] nodes(3) [of n]
    by (simp add: get_node_def nodes(1))
  show "org_of_stack t i = Some og" if "org_of_stack s i = Some og" for i
    using that by (auto simp: org_of_stack_def get_stack_def get_app_def catalog find_row_append split: option.splits)
  show "\<exists>e'. get_env t i = Some e' \<and> e'\<lparr>env_home := env_home e\<rparr> = e"
    if "get_env s i = Some e" "org_of_stack s (env_stack_id e) = Some og" for i e
    using that find_row_map_append [of env_id g, OF envs(2), of i "environments s" e xe] get_envD [OF that(1)] envs(3) [of e]
    by (simp add: get_env_def envs(1))
  show "filter (\<lambda>r. sec_env r = i) (secrets t) = filter (\<lambda>r. sec_env r = i) (secrets s)"
    if "get_env s i = Some e" "org_of_stack s (env_stack_id e) = Some og" for i e
    using that by (rule secs)
  show "get_dep t i = Some d" if "get_dep s i = Some d" "org_of_env s (dep_env d) = Some og" for i d
    using that find_row_map_append [of dep_id k, OF deps(2), of i "deployments s" d xd] get_depD [OF that(1)] deps(3) [of d]
    by (simp add: get_dep_def deps(1))
qed

text \<open>The common case: nothing is rewritten, rows are only added.\<close>

lemma tenant_kept_grow:
  assumes "applications t = applications s @ xa" "stacks t = stacks s @ xs" "nodes t = nodes s @ xn"
    "environments t = environments s @ xe" "deployments t = deployments s @ xd"
    and "\<And>i e. get_env s i = Some e \<Longrightarrow> org_of_stack s (env_stack_id e) = Some og \<Longrightarrow>
      filter (\<lambda>r. sec_env r = i) (secrets t) = filter (\<lambda>r. sec_env r = i) (secrets s)"
  shows "tenant_kept og s t"
  by (rule tenant_keptI [where f = "\<lambda>n. n" and g = "\<lambda>e. e" and k = "\<lambda>d. d"]) (use assms in auto)

section \<open>The operations\<close>

lemma kept_CreateOrganization: "CreateOrganization c i sl nm s = Inr (r, t) \<Longrightarrow> tenant_kept og s t"
  by (rule tenant_kept_grow) (auto simp: CreateOrganization_def Let_def split: option.splits if_splits)

lemma kept_CreateApplication: "CreateApplication c i p sl nm s = Inr (r, t) \<Longrightarrow> tenant_kept og s t"
  by (rule tenant_kept_grow) (auto simp: CreateApplication_def Let_def split: option.splits if_splits)

lemma kept_CreateStack: "CreateStack c i a sl s = Inr (r, t) \<Longrightarrow> tenant_kept og s t"
  by (rule tenant_kept_grow) (auto simp: CreateStack_def Let_def split: option.splits if_splits)

lemma kept_CreateStackVersion: "CreateStackVersion digest c i st raw sp cb s = Inr (r, t) \<Longrightarrow> tenant_kept og s t"
  by (rule tenant_kept_grow)
    (auto simp: CreateStackVersion_def insert_stack_version_def Let_def split: sum.splits if_splits)

lemma kept_insert_environment: "insert_environment e s = Inr t \<Longrightarrow> tenant_kept og s t"
  by (rule tenant_kept_grow) (auto simp: insert_environment_def split: if_splits)

lemma kept_CreateEnvironment: "CreateEnvironment c i p s = Inr (e, t) \<Longrightarrow> tenant_kept og s t"
  by (auto simp: CreateEnvironment_def Let_def split: option.splits if_splits intro: kept_insert_environment)

lemma kept_createDeploymentTx:
  assumes "createDeploymentTx c i p s = Inr (d, t)"
  shows "tenant_kept og s t"
  using assms by (rule createDeploymentTx_ok) (auto intro!: tenant_kept_grow)

lemma kept_CreateDeployment: "CreateDeployment c i p s = Inr (d, t) \<Longrightarrow> tenant_kept og s t"
  by (auto simp: CreateDeployment_def intro: kept_createDeploymentTx)

lemma kept_RollbackDeployment: "RollbackDeployment c i e rev1 s = Inr (d, t) \<Longrightarrow> tenant_kept og s t"
  by (auto simp: RollbackDeployment_def Let_def split: option.splits if_splits intro: kept_CreateDeployment)

text \<open>A preview is a new environment, so the secrets copied into it are nobody else's.\<close>

lemma kept_inherit_secrets:
  assumes "inherit_secrets c ids src new s = Inr t" "\<And>e. get_env s new = Some e \<Longrightarrow> org_of_stack s (env_stack_id e) \<noteq> Some og"
  shows "tenant_kept og s t"
proof (rule tenant_kept_grow)
  fix i e
  assume e: "get_env s i = Some e" "org_of_stack s (env_stack_id e) = Some og"
  with assms(2) have "i \<noteq> new" by auto
  then have "filter (\<lambda>r. sec_env r = i) (inherited_secrets c ids x new s) = []" for x
    by (auto simp: inherited_secrets_def filter_empty_conv)
  then show "filter (\<lambda>r. sec_env r = i) (secrets t) = filter (\<lambda>r. sec_env r = i) (secrets s)"
    using assms(1) by (auto simp: inherit_secrets_def Let_def split: option.splits if_splits)
qed (use assms(1) in \<open>auto simp: inherit_secrets_def Let_def split: option.splits if_splits\<close>)

lemma kept_CreatePreview:
  assumes run: "CreatePreview c i ids p s = Inr (r, t)" and org: "org_of_stack s (cp_stack p) \<noteq> Some og"
  shows "tenant_kept og s t"
proof -
  from run obtain e s1 s2 d where
    1: "insert_environment e s = Inr s1" "env_id e = cp_env p" "env_stack_id e = cp_stack p" and
    2: "inherit_secrets c ids (cp_inherit p) (cp_env p) s1 = Inr s2" and
    3: "createDeploymentTx c i \<lparr>cd_env = cp_env p, cd_version = cp_version p, cd_spec = cp_spec p,
         cd_created_by = cp_created_by p\<rparr> s2 = Inr (d, t)"
    by (fastforce simp: CreatePreview_def Let_def split: option.splits prod.splits)
  from insert_environment_ok [OF 1(1)] have ix: "env_indexes_ok (environments s @ [e])"
    and s1: "s1 = s\<lparr>environments := environments s @ [e]\<rparr>" by auto
  from ix have "distinct (map env_id (environments s1))" by (simp add: env_indexes_ok_def s1)
  then have "get_env s1 (cp_env p) = Some e" using 1(2) by (auto simp: get_env_iff s1)
  moreover have "org_of_stack s1 (cp_stack p) = org_of_stack s (cp_stack p)"
    by (simp add: org_of_stack_def get_stack_def get_app_def s1 split: option.splits)
  ultimately have "tenant_kept og s1 s2"
    using 2 org 1(3) by (intro kept_inherit_secrets) auto
  with kept_insert_environment [OF 1(1)] kept_createDeploymentTx [OF 3] show ?thesis
    by (blast intro: tenant_kept_trans)
qed

lemma kept_secret_table:
  assumes "get_env s e = Some r" "org_of_stack s (env_stack_id r) \<noteq> Some og"
    "\<And>i. i \<noteq> e \<Longrightarrow> filter (\<lambda>r. sec_env r = i) x = filter (\<lambda>r. sec_env r = i) (secrets s)"
  shows "tenant_kept og s (s\<lparr>secrets := x, events := ev\<rparr>)"
proof (rule tenant_kept_grow)
  fix i e'
  assume "get_env s i = Some e'" "org_of_stack s (env_stack_id e') = Some og"
  with assms(1,2) have "i \<noteq> e" by auto
  then show "filter (\<lambda>r. sec_env r = i) (secrets (s\<lparr>secrets := x, events := ev\<rparr>)) = filter (\<lambda>r. sec_env r = i) (secrets s)"
    using assms(3) by simp
qed auto

lemma kept_SetSecret:
  assumes run: "SetSecret c i e k ct kid s = Inr (u, t)" and org: "org_of_env s e \<noteq> Some og"
  shows "tenant_kept og s t"
proof -
  let ?row = "\<lparr>sec_id = i, sec_env = e, sec_key = k, sec_ciphertext = ct, sec_key_id = kid,
      sec_version = max_version e k s + 1, sec_created_at = now c\<rparr>"
  from run have "get_env s e \<noteq> None" by (auto simp: SetSecret_def Let_def split: if_splits)
  then obtain r where r: "get_env s e = Some r" by blast
  from run obtain kind msg pl where
    "appendEnvironmentEventTx c e kind msg pl (s\<lparr>secrets := secrets s @ [?row]\<rparr>) = Inr t"
    by (auto simp: SetSecret_def Let_def split: if_splits sum.splits)
  then obtain ev where "t = s\<lparr>secrets := secrets s @ [?row], events := ev\<rparr>"
    by (rule appendEnvironmentEventTx_ok) simp
  with r org show ?thesis by (auto simp: org_of_env_def intro!: kept_secret_table)
qed

lemma kept_DeleteSecret:
  assumes run: "DeleteSecret c e k s = Inr (u, t)" and org: "org_of_env s e \<noteq> Some og"
  shows "tenant_kept og s t"
proof -
  from run obtain kind msg pl where
    app: "appendEnvironmentEventTx c e kind msg pl (s\<lparr>secrets := delete_where (\<lambda>r. sec_env r = e \<and> sec_key r = k) (secrets s)\<rparr>) = Inr t"
    by (auto simp: DeleteSecret_def split: if_splits sum.splits)
  then have "get_env s e \<noteq> None"
    by (auto simp: appendEnvironmentEventTx_def org_of_env_def get_env_def split: option.splits)
  then obtain r where r: "get_env s e = Some r" by blast
  from app obtain ev where "t = s\<lparr>secrets := delete_where (\<lambda>r. sec_env r = e \<and> sec_key r = k) (secrets s), events := ev\<rparr>"
    by (rule appendEnvironmentEventTx_ok) simp
  moreover have "filter (\<lambda>r. sec_env r = i) (delete_where (\<lambda>r. sec_env r = e \<and> sec_key r = k) (secrets s)) =
      filter (\<lambda>r. sec_env r = i) (secrets s)" if "i \<noteq> e" for i
    using that by (auto simp: delete_where_def intro!: filter_cong)
  ultimately show ?thesis using r org by (auto simp: org_of_env_def intro!: kept_secret_table)
qed

lemma kept_PromoteDeployment:
  assumes inv: "store_inv s" and run: "PromoteDeployment c i s = Inr (prev, t)" and org: "org_of_dep s i \<noteq> Some og"
  shows "tenant_kept og s t"
  using run
proof (rule PromoteDeployment_ok)
  fix d e es
  assume d: "get_dep s i = Some d" and e: "get_env s (dep_env d) = Some e" and prev: "prev = env_live e"
    and t: "t = s\<lparr>deployments := map (promoted_row c prev i) (deployments s),
      environments := update_where (\<lambda>r. env_id r = dep_env d) (\<lambda>r. r\<lparr>env_live := Some i\<rparr>) (environments s),
      events := events s @ es\<rparr>"
  have foreign: "org_of_env s (dep_env d) \<noteq> Some og" using org d by (simp add: org_of_dep_def)
  have same: "dep_env x = dep_env d" if x: "x \<in> set (deployments s)" "prev = Some (dep_id x) \<or> dep_id x = i" for x
  proof -
    have uniq: "x = y" if "y \<in> set (deployments s)" "dep_id y = dep_id x" for y
      using x(1) that store_inv_dep_ids [OF inv] by (auto simp: distinct_map inj_on_def)
    from x(2) show ?thesis
    proof
      assume "prev = Some (dep_id x)"
      moreover have "e \<in> set (environments s)" "env_id e = dep_env d" using get_envD [OF e] by auto
      ultimately show ?thesis
        using live_inv_pointer [of "environments s" "deployments s" e "dep_id x"] inv prev uniq
        by (auto simp: store_inv_def)
    next
      assume "dep_id x = i"
      with uniq get_depD [OF d] show ?thesis by auto
    qed
  qed
  show ?thesis
  proof (rule tenant_keptI [where f = "\<lambda>n. n" and k = "promoted_row c prev i" and
        g = "\<lambda>r. if env_id r = dep_env d then r\<lparr>env_live := Some i\<rparr> else r"])
    show "promoted_row c prev i x = x" if "x \<in> set (deployments s)" "org_of_env s (dep_env x) = Some og" for x
      using that same [of x] foreign by (auto simp: promoted_row_def superseded_row_def Let_def)
    show "(if env_id r = dep_env d then r\<lparr>env_live := Some i\<rparr> else r)\<lparr>env_home := env_home r\<rparr> = r"
      if "r \<in> set (environments s)" "org_of_stack s (env_stack_id r) = Some og" for r
    proof -
      have "env_id r \<noteq> dep_env d"
      proof
        assume eq: "env_id r = dep_env d"
        have "get_env s (env_id r) = Some r"
          using that(1) inv by (simp add: get_env_iff store_inv_def env_indexes_ok_def)
        with that(2) foreign eq show False by (simp add: org_of_env_def)
      qed
      then show ?thesis by simp
    qed
  qed (auto simp: t update_where_def)
qed

lemma kept_update_node:
  assumes run: "update_node i P f s = Inr (u, t)" and org: "map_option node_org (get_node s i) \<noteq> Some og"
    and ids: "distinct (map node_id (nodes s))" and key: "\<And>r. node_id (f r) = node_id r"
  shows "tenant_kept og s t"
proof (rule tenant_keptI [where f = "\<lambda>r. if node_id r = i \<and> P r then f r else r" and g = "\<lambda>e. e" and k = "\<lambda>d. d"])
  show "(if node_id r = i \<and> P r then f r else r) = r" if "r \<in> set (nodes s)" "node_org r = og" for r
    using that org get_node_iff [OF ids, of i r] by auto
qed (use update_node_ok [OF run] key in \<open>auto simp: update_where_def\<close>)

lemma kept_DrainNode:
  "store_inv s \<Longrightarrow> DrainNode i s = Inr (u, t) \<Longrightarrow> map_option node_org (get_node s i) \<noteq> Some og \<Longrightarrow> tenant_kept og s t"
  unfolding DrainNode_def
  by (rule kept_update_node, assumption) (auto simp: store_inv_def node_indexes_ok_def)

lemma kept_node_table:
  assumes ids: "distinct (map node_id (nodes s))" and org: "map_option node_org (get_node s i) \<noteq> Some og"
    and t: "t = s\<lparr>nodes := update_where P f (nodes s), events := ev\<rparr>"
    and P: "\<And>r. P r \<Longrightarrow> node_id r = i" and key: "\<And>r. node_id (f r) = node_id r"
  shows "tenant_kept og s t"
proof (rule tenant_keptI [where f = "\<lambda>r. if P r then f r else r" and g = "\<lambda>e. e" and k = "\<lambda>d. d"])
  show "(if P r then f r else r) = r" if "r \<in> set (nodes s)" "node_org r = og" for r
    using that org get_node_iff [OF ids, of i r] P [of r] by auto
qed (auto simp: t update_where_def key)

lemma kept_UncordonNode:
  assumes inv: "store_inv s" and run: "UncordonNode c i s = Inr (u, t)" and org: "map_option node_org (get_node s i) \<noteq> Some og"
  shows "tenant_kept og s t"
  using run
proof (cases rule: UncordonNode_ok)
  case (2 r)
  show ?thesis
    by (rule kept_node_table [OF _ org, where ev = "events s" and P = "\<lambda>r. node_id r = i" and
          f = "\<lambda>r. r\<lparr>node_state := if fresh c r then NodeReady else NodeUnreachable\<rparr>"])
      (use inv 2 in \<open>auto simp: store_inv_def node_indexes_ok_def\<close>)
qed simp

lemma kept_RotateNodeRecipient:
  assumes inv: "store_inv s" and run: "RotateNodeRecipient c i s = Inr (r, t)" and org: "map_option node_org (get_node s i) \<noteq> Some og"
  shows "tenant_kept og s t"
  using run
proof (cases rule: RotateNodeRecipient_ok)
  case (1 ev)
  show ?thesis
    by (rule kept_node_table [OF _ org 1]) (use inv in \<open>auto simp: store_inv_def node_indexes_ok_def\<close>)
qed

lemma kept_RegisterNode:
  assumes run: "RegisterNode inet sha c i tok p s = Inr (r, t)" and org: "rn_org p \<noteq> og"
  shows "tenant_kept og s t"
proof -
  obtain n issued where r: "r = (n, issued)" by (cases r)
  from run [unfolded r] show ?thesis
  proof (cases rule: RegisterNode_ok)
    case (first addr es)
    then show ?thesis by (intro tenant_kept_grow) auto
  next
    case (again addr n0 es)
    show ?thesis
      by (rule tenant_keptI [where g = "\<lambda>e. e" and k = "\<lambda>d. d" and
          f = "\<lambda>n. if node_org n = rn_org p \<and> node_hostname n = rn_hostname p then reregister c addr (sha tok) p n else n"])
        (use again(5) org in \<open>auto simp: update_where_def reregister_def\<close>)
  qed
qed

lemma kept_ReleaseEnvironmentHome:
  assumes run: "ReleaseEnvironmentHome c e s = Inr (u, t)"
  shows "tenant_kept og s t"
  using run
proof (cases rule: ReleaseEnvironmentHome_ok)
  case (2 r home ev)
  show ?thesis
    by (rule tenant_keptI [where f = "\<lambda>n. n" and k = "\<lambda>d. d" and
          g = "\<lambda>x. if env_id x = e then x\<lparr>env_home := None\<rparr> else x"])
      (auto simp: 2(4) update_where_def)
qed simp

end
