(* ===== verification/Api_Tenancy.thy ===== *)
theory Api_Tenancy
  imports Api_Steps Tenancy
begin

text \<open>
  The boundary between organizations at the HTTP surface. An object of an organization the caller does
  not belong to is answered exactly like an object that does not exist, and no request of an operator
  changes an organization that operator is not a member of.
\<close>

section \<open>Foreign objects look missing\<close>

text \<open>
  The object a route is about: the name of its path parameter and the resolver that finds the
  organization owning it. The calls of agents are about a node too, but answer to its token.
\<close>

fun scope_of :: "seg list \<Rightarrow> (string \<times> (uuid \<Rightarrow> control \<Rightarrow> store_error + uuid)) option" where
  "scope_of (Lit v # Lit kind # Wild n # rest) =
     (if kind = ''orgs'' then Some (n, resolve_org)
      else if kind = ''apps'' then Some (n, OrgForApp)
      else if kind = ''stacks'' then Some (n, OrgForStack)
      else if kind = ''envs'' then Some (n, OrgForEnv)
      else if kind = ''deployments'' then Some (n, OrgForDeployment)
      else if kind = ''logs'' then Some (n, OrgForLogRequest)
      else if kind = ''nodes'' \<and> rest \<notin> set (map (\<lambda>c. [Lit (snd c)]) agent_calls) then Some (n, OrgForNode)
      else None)"
| "scope_of _ = None"

definition in_scope :: "operator \<Rightarrow> (control \<Rightarrow> store_error + uuid) \<Rightarrow> control \<Rightarrow> bool" where
  "in_scope opr resolve s = (case resolve s of Inl e \<Rightarrow> False | Inr org1 \<Rightarrow> OperatorInOrg org1 (opr_id opr) s)"

text \<open>One answer, which neither depends on the state nor changes it, to whoever is out of scope.\<close>

definition guards :: "(hctx \<Rightarrow> reply) \<Rightarrow> string \<Rightarrow> (uuid \<Rightarrow> control \<Rightarrow> store_error + uuid) \<Rightarrow> bool" where
  "guards f name resolve \<longleftrightarrow>
     (\<forall>h opr i. hid h = Some (IdOperator opr) \<longrightarrow> pathUUID h name = Inr i \<longrightarrow>
        (\<exists>r. rs_status r \<in> {400, 404} \<and> (\<forall>w. \<not> in_scope opr (resolve i) (ctl w) \<longrightarrow> f h w = (r, w))))"

definition only_missing :: "(uuid \<Rightarrow> control \<Rightarrow> store_error + uuid) \<Rightarrow> bool" where
  "only_missing resolve \<longleftrightarrow> (\<forall>i s e. resolve i s = Inl e \<longrightarrow> e = ErrNotFound)"

lemma orgIDFrom_missing: "orgIDFrom x = Inl e \<Longrightarrow> e = ErrNotFound"
  by (auto simp: orgIDFrom_def mapErr_def split: option.splits)

lemma only_missing_resolvers:
  "only_missing resolve_org" "only_missing OrgForApp" "only_missing OrgForStack" "only_missing OrgForEnv"
  "only_missing OrgForDeployment" "only_missing OrgForNode" "only_missing OrgForLogRequest"
  unfolding only_missing_def
  by (auto simp: resolve_org_def GetOrganization_def OrgForApp_def OrgForStack_def OrgForEnv_def OrgForEnvironment_def
      OrgForDeployment_def OrgForNode_def OrgForLogRequest_def mapErr_def dest: orgIDFrom_missing
      split: option.splits sum.splits)

lemma refused:
  assumes "hid h = Some (IdOperator opr)" "\<not> in_scope opr resolve s" "\<And>e. resolve s = Inl e \<Longrightarrow> e = ErrNotFound"
  shows "authorize h resolve s = Some notFound"
  using assms by (auto simp: authorize_def in_scope_def notFound_def split: sum.splits)

lemma guards_addressed:
  assumes "\<And>h :: hctx. f h = addressed h name auth (k h)" "\<And>h i. auth h i = authorize h (resolve i)" "only_missing resolve"
  shows "guards f name resolve"
  unfolding guards_def
proof (intro allI impI exI [of _ notFound] conjI)
  show "rs_status notFound \<in> {400, 404}" by (simp add: notFound_def writeStoreError_def writeError_def)
  fix h :: hctx and opr :: operator and i and w :: world
  assume "hid h = Some (IdOperator opr)" "pathUUID h name = Inr i" "\<not> in_scope opr (resolve i) (ctl w)"
  with assms refused show "f h w = (notFound, w)"
    by (simp add: addressed_def with_id_def checked_def only_missing_def)
qed

lemma guards_two_ids:
  assumes "\<And>h :: hctx. f h = with_id h name (\<lambda>i. with_id h other (\<lambda>j. checked (authorizeOrg h i) (k h i j)))"
  shows "guards f name resolve_org"
  unfolding guards_def
proof (intro allI impI)
  fix h :: hctx and opr :: operator and i
  assume h: "hid h = Some (IdOperator opr)" "pathUUID h name = Inr i"
  show "\<exists>r. rs_status r \<in> {400, 404} \<and> (\<forall>w. \<not> in_scope opr (resolve_org i) (ctl w) \<longrightarrow> f h w = (r, w))"
  proof (cases "pathUUID h other")
    case (Inl r)
    then have "rs_status r = 400" by (auto simp: pathUUID_def writeError_def split: option.splits)
    with h Inl assms show ?thesis by (auto simp: with_id_def)
  next
    case (Inr j)
    have "f h w = (notFound, w)" if "\<not> in_scope opr (resolve_org i) (ctl w)" for w :: world
      using h Inr assms that refused [OF h(1) that] only_missing_resolvers(1)
      by (simp add: with_id_def checked_def authorizeOrg_def only_missing_def)
    then show ?thesis by (intro exI [of _ notFound]) (simp add: notFound_def writeStoreError_def writeError_def)
  qed
qed

lemmas guards_org = guards_addressed [OF _ authorizeOrg_def only_missing_resolvers(1)]
lemmas guards_app = guards_addressed [OF _ authorizeApp_def only_missing_resolvers(2)]
lemmas guards_stack = guards_addressed [OF _ authorizeStack_def only_missing_resolvers(3)]
lemmas guards_env = guards_addressed [OF _ authorizeEnv_def only_missing_resolvers(4)]
lemmas guards_deployment = guards_addressed [OF _ authorizeDeployment_def only_missing_resolvers(5)]
lemmas guards_node = guards_addressed [OF _ authorizeNode_def only_missing_resolvers(6)]
lemmas guards_log = guards_addressed [OF _ authorizeLogRequest_def only_missing_resolvers(7)]

lemmas handlers_guard =
  guards_org [OF handleListMembers_def] guards_org [OF handleAddMember_def] guards_org [OF handleRemoveMember_def]
  guards_org [OF handleCreateInvite_def] guards_org [OF handleListInvites_def] guards_org [OF handleRevokeInvite_def]
  guards_org [OF handleListAccessRequests_def] guards_two_ids [OF handleApproveAccessRequest_def]
  guards_two_ids [OF handleDeclineAccessRequest_def] guards_org [OF handleListEvents_def]
  guards_org [OF handleCreateApp_def] guards_org [OF handleListApps_def] guards_org [OF handleListOrgEnvs_def]
  guards_org [OF handleListJoinTokens_def] guards_org [OF handleCreateJoinToken_def]
  guards_org [OF handleRevokeJoinToken_def]
  guards_app [OF handleCreateStack_def] guards_app [OF handleListStacks_def]
  guards_stack [OF handleGetStack_def] guards_stack [OF handleCreateStackVersion_def]
  guards_stack [OF handleListStackVersions_def] guards_stack [OF handleCreateEnv_def]
  guards_stack [OF handleListEnvs_def] guards_stack [OF handleCreatePreview_def]
  guards_env [OF handleGetEnv_def] guards_env [OF handleCreateDeployment_def] guards_env [OF handleListDeployments_def]
  guards_env [OF handleRollback_def] guards_env [OF handleSetSecret_def] guards_env [OF handleListSecrets_def]
  guards_env [OF handleDeleteSecret_def] guards_env [OF handleCreateLogRequest_def]
  guards_deployment [OF handleGetDeployment_def] guards_deployment [OF handlePromote_def]
  guards_node [OF handleGetNode_def] guards_node [OF handleDrainNode_def] guards_node [OF handleUncordonNode_def]
  guards_node [OF handleRotateNodeRecipient_def]
  guards_log [OF handleGetLogs_def] guards_log [OF handleCloseLogRequest_def]

lemma routes_guard: "list_all (\<lambda>(m, p, f). \<forall>name resolve. scope_of p = Some (name, resolve) \<longrightarrow> guards f name resolve) routes"
  by (simp add: routes_def agent_calls_def handlers_guard)


section \<open>Account operations stay inside their organization\<close>

interpretation kept: reply_relation "foreign_kept og" for og
  by unfold_locales (auto intro: foreign_kept_trans)

lemma filter_update_where:
  "(\<And>x. x \<in> set t \<Longrightarrow> P x \<Longrightarrow> \<not> Q x \<and> \<not> Q (f x)) \<Longrightarrow> filter Q (update_where P f t) = filter Q t"
  by (induction t) (auto simp: update_where_def)

lemma filter_delete_where: "(\<And>x. P x \<Longrightarrow> \<not> Q x) \<Longrightarrow> filter Q (delete_where P t) = filter Q t"
  by (induction t) (auto simp: delete_where_def)

lemma kept_in_core:
  assumes "in_core f s = Inr (v, t)" "\<And>u. f (core s) = Inr (v, u) \<Longrightarrow> tenant_kept og (core s) u"
  shows "foreign_kept og s t"
  using assms by (auto simp: in_core_def foreign_kept_def cascade_logs_def split: sum.splits)

lemma kept_events: "tenant_kept og s (s\<lparr>events := ev\<rparr>)"
  by (rule tenant_kept_grow) auto

lemma foreign_kept_events_only:
  assumes "events_only s t"
    "filter (\<lambda>m. mem_org m = og) (organization_members t) = filter (\<lambda>m. mem_org m = og) (organization_members s)"
    "filter (\<lambda>j. jt_org j = og) (node_join_tokens t) = filter (\<lambda>j. jt_org j = og) (node_join_tokens s)"
    "filter (\<lambda>i. inv_org i = og) (operator_invites t) = filter (\<lambda>i. inv_org i = og) (operator_invites s)"
    "filter (\<lambda>r. ar_org r = og) (access_requests t) = filter (\<lambda>r. ar_org r = og) (access_requests s)"
  shows "foreign_kept og s t"
  using assms by (auto simp: foreign_kept_def events_only_def kept_events)

lemma kept_AddOrgMember:
  assumes "AddOrgMember c og1 opr role s = Inr (u, t)" "og1 \<noteq> og"
  shows "foreign_kept og s t"
proof -
  from assms have "filter (\<lambda>m. mem_org m = og) (organization_members t) = filter (\<lambda>m. mem_org m = og) (organization_members s)"
    by (auto simp: AddOrgMember_def Let_def is_member_def split: if_splits sum.splits intro!: filter_update_where
        dest!: insert_member_ok)
  with assms(1) show ?thesis
    by (intro foreign_kept_events_only events_only_refl core_accounts(7) [OF assms(1)])
      (auto simp: AddOrgMember_def Let_def split: if_splits sum.splits dest!: insert_member_ok)
qed

lemma kept_RemoveOrgMember:
  "RemoveOrgMember og1 opr s = Inr (u, t) \<Longrightarrow> og1 \<noteq> og \<Longrightarrow> foreign_kept og s t"
  by (auto simp: RemoveOrgMember_def foreign_kept_def is_member_def split: if_splits intro!: filter_delete_where)

lemma kept_operators:
  "CreateOperator lower c i email nm s = Inr (r, t) \<Longrightarrow> foreign_kept og s t"
  "IssueOperatorToken sha c i plain opr nm ex s = Inr (v, t) \<Longrightarrow> foreign_kept og s t"
  "RevokeOperatorToken opr i s = Inr (u, t) \<Longrightarrow> foreign_kept og s t"
  subgoal by (auto simp: CreateOperator_def foreign_kept_def Let_def split: if_splits option.splits)
  subgoal by (auto simp: IssueOperatorToken_def foreign_kept_def Let_def split: sum.splits dest!: insert_token_ok)
  subgoal by (auto simp: RevokeOperatorToken_def foreign_kept_def Let_def split: if_splits)
  done

lemma kept_CreateJoinToken:
  assumes "CreateJoinToken sha c i plain p s = Inr (r, t)" "cj_org p \<noteq> og"
  shows "foreign_kept og s t"
proof -
  from assms(1) obtain q where q: "insert_join_token (new_join_token c i (sha plain) q) s = Inr t" "cj_org q = cj_org p"
    unfolding CreateJoinToken_def Let_def by (auto split: if_splits sum.splits)
  from insert_join_token_ok [OF q(1)] q(2) assms(2) show ?thesis
    by (auto simp: foreign_kept_def new_join_token_def)
qed

lemma kept_RevokeJoinToken: "RevokeJoinToken og1 i s = Inr (u, t) \<Longrightarrow> og1 \<noteq> og \<Longrightarrow> foreign_kept og s t"
  by (auto simp: RevokeJoinToken_def foreign_kept_def Let_def split: if_splits intro!: filter_delete_where)

lemma kept_createInviteTx:
  assumes run: "createInviteTx lower sha c i plain p s = Inr (r, t)" and org: "ci_org p \<noteq> og"
  shows "foreign_kept og s t"
proof -
  let ?f = "\<lambda>x. x\<lparr>inv_revoked_at := Some (now c)\<rparr>"
  from run obtain kind msg q where
    ev: "append_event c (ci_org p) kind msg q (s\<lparr>operator_invites := update_where (superseded_invite lower p) ?f (operator_invites s) @
        [new_invite c i (sha plain) p]\<rparr>) = Inr t"
    unfolding createInviteTx_def insert_invite_def Let_def by (auto split: sum.splits if_splits)
  have "filter (\<lambda>x. inv_org x = og) (update_where (superseded_invite lower p) ?f (operator_invites s)) =
      filter (\<lambda>x. inv_org x = og) (operator_invites s)"
    using org by (intro filter_update_where) (simp add: superseded_invite_def)
  with ev org show ?thesis
    by (intro foreign_kept_events_only events_createInviteTx [OF run]) (auto elim!: append_event_ok simp: new_invite_def)
qed

lemma kept_CreateInvite:
  "CreateInvite lower sha c i plain p s = Inr (r, t) \<Longrightarrow> ci_org p \<noteq> og \<Longrightarrow> foreign_kept og s t"
  by (auto simp: CreateInvite_def Let_def split: option.splits sum.splits intro: kept_createInviteTx)

lemma kept_RevokeInvite: "RevokeInvite c og1 i s = Inr (u, t) \<Longrightarrow> og1 \<noteq> og \<Longrightarrow> foreign_kept og s t"
  by (auto simp: RevokeInvite_def foreign_kept_def Let_def split: if_splits intro!: filter_update_where)

lemma kept_decide:
  assumes "decide c v og1 i b s = Inr (r, t)" "og1 \<noteq> og"
  shows "foreign_kept og s t"
proof -
  from assms(1) have "t = s\<lparr>access_requests := update_where (\<lambda>r. ar_id r = i \<and> ar_org r = og1 \<and> ar_state r = AccessPending)
      (\<lambda>r. r\<lparr>ar_state := v, ar_decided_at := Some (now c), ar_decided_by := b\<rparr>) (access_requests s)\<rparr>"
    unfolding decide_def Let_def by (simp split: option.splits if_splits)
  with assms(2) show ?thesis by (auto simp: foreign_kept_def intro!: filter_update_where)
qed

lemma kept_append_event: "append_event c og1 kind msg p s = Inr t \<Longrightarrow> foreign_kept og s t"
  by (frule events_append_event, erule append_event_ok) (auto intro: foreign_kept_events_only)

lemma kept_DeclineAccessRequest:
  "DeclineAccessRequest c og1 i b s = Inr (r, t) \<Longrightarrow> og1 \<noteq> og \<Longrightarrow> foreign_kept og s t"
  by (auto simp: DeclineAccessRequest_def split: sum.splits intro: foreign_kept_trans kept_decide kept_append_event)

lemma kept_ApproveAccessRequest:
  assumes inv: "accounts_inv lower s" and run: "ApproveAccessRequest lower sha c i plain p s = Inr (r, t)"
    and org: "ap_org p \<noteq> og"
  shows "foreign_kept og s t"
proof -
  let ?f = "\<lambda>y a. a\<lparr>ar_invite := Some (inv_id (fst y))\<rparr>"
  from run obtain x s1 q y s2 kind msg where
    d: "decide c AccessApproved (ap_org p) (ap_request p) (ap_decided_by p) s = Inr (x, s1)"
    and ci: "createInviteTx lower sha c i plain q s1 = Inr (y, s2)" and q: "ci_org q = ap_org p"
    and ev: "append_event c (ap_org p) kind (fst msg) (snd msg)
       (s2\<lparr>access_requests := update_where (\<lambda>a. ar_id a = ar_id x) (?f y) (access_requests s2)\<rparr>) = Inr t"
    unfolding ApproveAccessRequest_def by (auto simp: Let_def split: sum.splits)
  have "accounts_inv lower s1" by (rule accounts_decide [OF inv d]) simp
  then have inv2: "accounts_inv lower s2" using ci by (rule accounts_createInviteTx)
  from d have "x \<in> set (access_requests s1)" "ar_org x = ap_org p"
    unfolding decide_def Let_def
    by (auto split: option.splits if_splits dest!: find_row_SomeD simp: in_update_where intro!: bexI)
  moreover have "access_requests s2 = access_requests s1"
    using ci unfolding createInviteTx_def insert_invite_def Let_def
    by (auto split: sum.splits if_splits elim!: append_event_ok)
  ultimately have "ar_org a = ap_org p" if "a \<in> set (access_requests s2)" "ar_id a = ar_id x" for a
    using that inv2 by (auto simp: accounts_inv_def requests_inv_def distinct_map inj_on_def)
  then have "filter (\<lambda>a. ar_org a = og) (update_where (\<lambda>a. ar_id a = ar_id x) (?f y) (access_requests s2)) =
      filter (\<lambda>a. ar_org a = og) (access_requests s2)"
    using org by (intro filter_update_where) simp
  then have mark: "foreign_kept og s2 (s2\<lparr>access_requests := update_where (\<lambda>a. ar_id a = ar_id x) (?f y) (access_requests s2)\<rparr>)"
    by (simp add: foreign_kept_def)
  have "foreign_kept og s s1" by (rule kept_decide [OF d org])
  also have "foreign_kept og s1 s2" using q org by (intro kept_createInviteTx [OF ci]) simp
  also note mark
  also have "foreign_kept og (s2\<lparr>access_requests := update_where (\<lambda>a. ar_id a = ar_id x) (?f y) (access_requests s2)\<rparr>) t"
    by (rule kept_append_event [OF ev])
  finally show ?thesis .
qed

section \<open>Requests of an outsider\<close>

text \<open>The caller is an operator who does not belong to the organization.\<close>

definition outsider :: "uuid \<Rightarrow> hctx \<Rightarrow> world \<Rightarrow> bool" where
  "outsider og h w \<longleftrightarrow>
     (\<exists>opr. hid h = Some (IdOperator opr) \<and> \<not> OperatorInOrg og (opr_id opr) (ctl w)) \<and>
     get_org (core (ctl w)) og \<noteq> None \<and> control_inv (x_lower (hx h)) (ctl w)"

lemma outsider_invs:
  assumes "outsider og h w"
  shows "store_inv (core (ctl w))" "accounts_inv (x_lower (hx h)) (ctl w)"
  using assms by (auto simp: outsider_def control_inv_def)

lemma outsider_resolve: "outsider og h w \<Longrightarrow> authorize h resolve (ctl w) = None \<Longrightarrow> resolve (ctl w) \<noteq> Inr og"
  by (auto simp: outsider_def authorize_def split: sum.splits if_splits)

lemma outsider_scope:
  assumes "outsider og h w"
  shows "authorizeOrg h i (ctl w) = None \<Longrightarrow> i \<noteq> og"
    and "authorizeStack h i (ctl w) = None \<Longrightarrow> org_of_stack (core (ctl w)) i \<noteq> Some og"
    and "authorizeEnv h i (ctl w) = None \<Longrightarrow> org_of_env (core (ctl w)) i \<noteq> Some og"
    and "authorizeDeployment h i (ctl w) = None \<Longrightarrow> org_of_dep (core (ctl w)) i \<noteq> Some og"
    and "authorizeNode h i (ctl w) = None \<Longrightarrow> map_option node_org (get_node (core (ctl w)) i) \<noteq> Some og"
  subgoal using assms outsider_resolve [OF assms, of "resolve_org i"]
    by (auto simp: authorizeOrg_def resolve_org_def GetOrganization_def outsider_def)
  subgoal using outsider_resolve [OF assms, of "OrgForStack i"]
    by (auto simp: authorizeStack_def OrgForStack_def orgIDFrom_def)
  subgoal using outsider_resolve [OF assms, of "OrgForEnv i"]
    by (auto simp: authorizeEnv_def OrgForEnv_def OrgForEnvironment_def)
  subgoal using outsider_resolve [OF assms, of "OrgForDeployment i"]
    by (auto simp: authorizeDeployment_def OrgForDeployment_def orgIDFrom_def)
  subgoal using outsider_resolve [OF assms, of "OrgForNode i"]
    by (auto simp: authorizeNode_def OrgForNode_def orgIDFrom_def)
  done

lemma kept_catalog:
  "outsider og h w \<Longrightarrow> stays (foreign_kept og) (handleCreateApp h) w"
  "outsider og h w \<Longrightarrow> stays (foreign_kept og) (handleCreateStack h) w"
  "outsider og h w \<Longrightarrow> stays (foreign_kept og) (handleCreateStackVersion h) w"
  "outsider og h w \<Longrightarrow> stays (foreign_kept og) (handleCreateEnv h) w"
  "outsider og h w \<Longrightarrow> stays (foreign_kept og) (handleCreateDeployment h) w"
  "outsider og h w \<Longrightarrow> stays (foreign_kept og) (handleRollback h) w"
  unfolding handleCreateApp_def handleCreateStack_def handleCreateStackVersion_def handleCreateEnv_def
    handleCreateDeployment_def handleRollback_def addressed_def Let_def
  by (intro kept.stays_rules; erule kept_in_core; erule kept_CreateApplication kept_CreateStack kept_CreateStackVersion
      kept_CreateEnvironment kept_CreateDeployment kept_RollbackDeployment)+

lemma kept_guarded:
  "outsider og h w \<Longrightarrow> stays (foreign_kept og) (handlePromote h) w"
  "outsider og h w \<Longrightarrow> stays (foreign_kept og) (handleSetSecret h) w"
  "outsider og h w \<Longrightarrow> stays (foreign_kept og) (handleDeleteSecret h) w"
  "outsider og h w \<Longrightarrow> stays (foreign_kept og) (handleRotateNodeRecipient h) w"
  "outsider og h w \<Longrightarrow> stays (foreign_kept og) (handleUncordonNode h) w"
  unfolding handlePromote_def handleSetSecret_def handleDeleteSecret_def handleRotateNodeRecipient_def
    handleUncordonNode_def addressed_def
  by (intro kept.stays_rules; erule kept_in_core; rule kept_PromoteDeployment kept_SetSecret kept_DeleteSecret
      kept_RotateNodeRecipient kept_UncordonNode; (assumption | rule outsider_invs outsider_scope; assumption))+

lemma kept_account_handlers:
  "outsider og h w \<Longrightarrow> stays (foreign_kept og) (handleRemoveMember h) w"
  "outsider og h w \<Longrightarrow> stays (foreign_kept og) (handleCreateJoinToken h) w"
  "outsider og h w \<Longrightarrow> stays (foreign_kept og) (handleRevokeJoinToken h) w"
  "outsider og h w \<Longrightarrow> stays (foreign_kept og) (handleCreateInvite h) w"
  "outsider og h w \<Longrightarrow> stays (foreign_kept og) (handleRevokeInvite h) w"
  "outsider og h w \<Longrightarrow> stays (foreign_kept og) (handleDeclineAccessRequest h) w"
  "outsider og h w \<Longrightarrow> stays (foreign_kept og) (handleApproveAccessRequest h) w"
  unfolding handleRemoveMember_def handleCreateJoinToken_def handleRevokeJoinToken_def handleCreateInvite_def
    handleRevokeInvite_def handleDeclineAccessRequest_def handleApproveAccessRequest_def addressed_def
  subgoal by (intro kept.stays_rules; erule kept_RemoveOrgMember; rule outsider_scope; assumption)
  subgoal by (intro kept.stays_rules; erule kept_CreateJoinToken; auto dest: outsider_scope(1))
  subgoal by (intro kept.stays_rules; erule kept_RevokeJoinToken; rule outsider_scope; assumption)
  subgoal by (intro kept.stays_rules; erule kept_CreateInvite; auto dest: outsider_scope(1))
  subgoal by (intro kept.stays_rules; erule kept_RevokeInvite; rule outsider_scope; assumption)
  subgoal by (intro kept.stays_rules; erule kept_DeclineAccessRequest; rule outsider_scope; assumption)
  subgoal by (intro kept.stays_rules, rule kept_ApproveAccessRequest [OF outsider_invs(2)], assumption, assumption,
        simp, rule outsider_scope, assumption, assumption)
  done

lemma kept_token_handlers:
  "stays (foreign_kept og) (handleCreateToken h) w" "stays (foreign_kept og) (handleRevokeToken h) w"
  unfolding handleCreateToken_def handleRevokeToken_def
  by (intro kept.stays_rules; erule kept_operators)+

lemma kept_logs:
  "stays (foreign_kept og) (handleCreateLogRequest h) w" "stays (foreign_kept og) (handleCloseLogRequest h) w"
proof -
  have "foreign_kept og s (s\<lparr>log_requests := x\<rparr>)" for s x by (simp add: foreign_kept_def)
  then show "stays (foreign_kept og) (handleCreateLogRequest h) w" "stays (foreign_kept og) (handleCloseLogRequest h) w"
    unfolding handleCreateLogRequest_def handleCloseLogRequest_def addressed_def
    by (intro kept.stays_rules; fastforce simp: stays_def send_def CloseLogRequest_def dest: logs_only(1))+
qed

lemma new_org_apart:
  assumes "outsider og h w" "in_core (CreateOrganization c i sl nm) (ctl w) = Inr (g, s)"
  shows "org_id g \<noteq> og"
proof -
  from assms(2) obtain t where "CreateOrganization c i sl nm (core (ctl w)) = Inr (g, t)"
    by (auto simp: in_core_def split: sum.splits)
  then have "\<forall>x \<in> set (organizations (core (ctl w))). org_id x \<noteq> org_id g"
    by (auto simp: CreateOrganization_def Let_def list_ex_iff split: option.splits if_splits)
  with assms(1) show ?thesis by (auto simp: outsider_def get_org_def dest!: find_row_SomeD)
qed

lemma kept_CreateOrg: "outsider og h w \<Longrightarrow> stays (foreign_kept og) (handleCreateOrg h) w"
  unfolding handleCreateOrg_def
  by (intro kept.stays_rules; (erule kept_in_core, erule kept_CreateOrganization | erule kept_AddOrgMember, rule new_org_apart, assumption+))

lemma kept_CreatePreview_handler: "outsider og h w \<Longrightarrow> stays (foreign_kept og) (handleCreatePreview h) w"
  unfolding handleCreatePreview_def addressed_def Let_def
  by (intro kept.stays_rules kept.stays_commit_state; erule kept_in_core; erule kept_CreatePreview;
      simp; rule outsider_scope; assumption)

lemma kept_AddMember: "outsider og h w \<Longrightarrow> stays (foreign_kept og) (handleAddMember h) w"
  unfolding handleAddMember_def addressed_def
  apply (intro kept.stays_rules; (erule kept_operators | erule kept_AddOrgMember; rule outsider_scope; assumption)?)
  apply (simp add: stays_def send_def kept.refl split: option.splits)
  done

lemma kept_drain_homes: "stays (foreign_kept og) (drain_homes h es a b) w"
proof (induction es arbitrary: a b w)
  case (Cons e rest a b w)
  have "foreign_kept og (ctl w) s" if "in_core (ReleaseEnvironmentHome (caller h) (he_id e)) (ctl w) = Inr (u, s)" for u s
    using that by (rule kept_in_core) (rule kept_ReleaseEnvironmentHome)
  moreover have "foreign_kept og s (ctl (snd (drain_homes h rest a b (w\<lparr>ctl := s\<rparr>))))" for s a b
    using Cons [of a b "w\<lparr>ctl := s\<rparr>"] by (simp add: stays_def)
  ultimately show ?case
    using Cons [of _ _ w] by (auto simp: stays_def Let_def split: sum.splits intro: kept.trans)
qed (simp add: stays_def send_def)

lemma kept_DrainNode_handler: "outsider og h w \<Longrightarrow> stays (foreign_kept og) (handleDrainNode h) w"
  unfolding handleDrainNode_def addressed_def
  apply (intro kept.stays_rules)
  subgoal by (erule kept_in_core; rule kept_DrainNode; (assumption | rule outsider_invs outsider_scope; assumption))
  subgoal for i v s using kept_drain_homes [of og h "EnvironmentsHomedOnNode i (core s)" "[]" "[]" "w\<lparr>ctl := s\<rparr>"]
    by (simp add: stays_def)
  done

lemma outsider_enrolment:
  assumes "outsider og h w" "enrolmentOrg h b (ctl w) = Inr g"
  shows "org_id g \<noteq> og"
  using assms(2) outsider_scope(1) [OF assms(1), of "org_id g"] assms(1)
  by (auto simp: enrolmentOrg_def outsider_def split: sum.splits option.splits if_splits)

lemma kept_RegisterNode_handler:
  assumes "outsider og h w"
  shows "stays (foreign_kept og) (handleRegisterNode h) w"
proof -
  have "stays (foreign_kept og) (commit (in_core (RegisterNode (x_inet (hx h)) (x_sha (hx h)) (caller h) (r_id (hr h))
      (r_plain (hr h)) p)) (\<lambda>(n, issued). send 201 (PNode n issued))) w" if "rn_org p \<noteq> og" for p
    using that by - (intro kept.stays_rules, erule kept_in_core, rule kept_RegisterNode, assumption+)
  with outsider_enrolment [OF assms] show ?thesis
    by (auto simp: stays_def handleRegisterNode_def with_body_def split: option.splits sum.splits)
qed

lemmas handlers_kept =
  kept.stays_all_reads kept_catalog kept_guarded kept_account_handlers kept_token_handlers kept_logs kept_CreateOrg
  kept_CreatePreview_handler kept_AddMember kept_DrainNode_handler kept_RegisterNode_handler

definition always_kept :: "(hctx \<Rightarrow> reply) \<Rightarrow> bool" where
  "always_kept f \<longleftrightarrow> (\<forall>og h w. outsider og h w \<longrightarrow> stays (foreign_kept og) (f h) w)"

lemma always_keptI: "(\<And>og h w. outsider og h w \<Longrightarrow> stays (foreign_kept og) (f h) w) \<Longrightarrow> always_kept f"
  by (simp add: always_kept_def)

definition agent_write :: "http_method \<times> seg list \<Rightarrow> bool" where
  "agent_write = (\<lambda>(m, p). m = POST \<and> p \<in> set [agent_pattern ''heartbeat'', agent_pattern ''report'', agent_pattern ''logs''])"

lemma routes_kept:
  "list_all (\<lambda>(m, p, f). (m, p) \<in> set public_patterns \<or> agent_write (m, p) \<and> f \<in> agent_handlers \<or> always_kept f) routes"
  by (simp add: routes_def public_patterns_def agent_write_def agent_pattern_def agent_handlers_def handlers_kept [THEN always_keptI])

lemma public_pattern_path:
  assumes "(m, p) \<in> set public_patterns" "matches p (rq_segments r) \<noteq> None"
  shows "publicPath (url_path r)"
proof -
  from matches_could [OF assms(2)] have "literal p \<longrightarrow> url_path r = lit_prefix p"
    by (simp add: could_match_def url_path_path_of)
  with assms(1) show ?thesis by (auto simp: public_patterns_def publicPath_def)
qed

lemma matches_unfold:
  "matches [] ys = (case ys of [] \<Rightarrow> Some [] | y # z \<Rightarrow> None)"
  "matches (Lit x # ps) ys = (case ys of [] \<Rightarrow> None | y # z \<Rightarrow> if x = y then matches ps z else None)"
  "matches (Wild n # ps) ys = (case ys of [] \<Rightarrow> None | y # z \<Rightarrow>
     if y = [] then None else map_option (\<lambda>vs. (n, y) # vs) (matches ps z))"
  by (cases ys; simp)+

lemma matches_node_call:
  "matches [Lit a, Lit b, Wild n, Lit c] ys = Some vs \<Longrightarrow> \<exists>i. ys = [a, b, i, c] \<and> vs = [(n, i)] \<and> i \<noteq> []"
  by (simp add: matches_unfold split: list.splits if_splits)

lemma agent_write_path:
  assumes "agent_write (m, p)" "matches p (rq_segments r) = Some vs"
  obtains i suf where "rq_segments r = [''v1'', ''nodes'', i, suf]" "(POST, suf) \<in> set agent_calls" "vs = [(''id'', i)]"
proof -
  from assms(1) obtain suf where p: "p = agent_pattern suf" "(POST, suf) \<in> set agent_calls"
    by (auto simp: agent_write_def agent_calls_def)
  from assms(2) p(1) obtain i where "rq_segments r = [''v1'', ''nodes'', i, suf]" "vs = [(''id'', i)]"
    by (auto simp: agent_pattern_def dest: matches_node_call)
  with p(2) that show ?thesis by blast
qed

lemma agent_write_refuses:
  assumes f: "f \<in> agent_handlers" and aw: "agent_write (m, p)" and sel: "selects (hq h) (m, p, f)"
    and x: "hx h = x" "hq h = r" and parse: "\<And>u. CHR ''/'' \<in> set u \<Longrightarrow> x_uuid x u = None"
    and auth: "fst (authenticate x cfg t r s) = Some (IdOperator opr)"
  shows "snd (f (h\<lparr>hp := the (matches p (rq_segments r))\<rparr>) w) = w"
proof -
  from sel x obtain vs where vs: "matches p (rq_segments r) = Some vs" and m: "accepts m (rq_method r)"
    by (auto simp: selects_def)
  from aw vs obtain i suf where seg: "rq_segments r = [''v1'', ''nodes'', i, suf]" and suf: "(POST, suf) \<in> set agent_calls"
    and vs': "vs = [(''id'', i)]" by (rule agent_write_path)
  from m aw have post: "rq_method r = POST" by (auto simp: agent_write_def accepts_def)
  have "CHR ''/'' \<in> set i"
  proof (rule ccontr)
    assume "CHR ''/'' \<notin> set i"
    from nodeAgentPathID_call [OF _ seg this, of "x_uuid x"] post suf
    have "nodeAgentPathID (x_uuid x) r \<noteq> None" by simp
    with auth show False by (auto simp: authenticate_def split: option.splits sum.splits if_splits)
  qed
  then have "pathUUID (h\<lparr>hp := vs\<rparr>) ''id'' = Inl (writeError 400 (''invalid '' @ ''id'' @ '' id''))"
    using parse x vs' by (simp add: pathUUID_def)
  from agent_handler_malformed [OF f this, of w] vs show ?thesis by simp
qed


end
