(* ===== verification/Api_Example.thy ===== *)
theory Api_Example
  imports Api_Tenancy
begin

text \<open>
  A small server: two organizations, one operator who redeemed an invitation to the first, and requests
  that operator sends. The theorems about the HTTP surface are applied to it.
\<close>

section \<open>The server\<close>

definition ex_outside :: outside where
  "ex_outside = \<lparr>x_lower = ex_lower, x_inet = ex_inet, x_sha = ex_sha,
     x_uuid = (\<lambda>u. if list_ex (\<lambda>ch. ch = CHR ''/'') u then None else Some u), x_digest = ex_digest,
     x_encrypt = (\<lambda>v rs. Some v), x_recipient = (\<lambda>_. True), x_yaml = (\<lambda>_. None),
     x_load = (\<lambda>_ _ _. Inl ''no file''), x_rfc1123 = (\<lambda>_. ''later'')\<rparr>"

definition ex_server :: server where
  "ex_server = \<lparr>previewDomain = [], cfg_bearer = ''boot'', requireJoinToken = False, routeStrand = 0,
     mailer = None, consoleURL = [], signupOrg = [], cfg_metrics = False\<rparr>"

definition ex_randoms :: randoms where
  "ex_randoms = \<lparr>r_id = ''a9'', r_id2 = ''b9'', r_ids = [], r_plain = ''fresh''\<rparr>"

definition ex_body :: decoded where
  "ex_body = \<lparr>b_length = 0, b_raw = None, b_org = None, b_app = Some (''shop'', ''Shop''), b_stack = None,
     b_env = None, b_preview = None, b_deployment = None, b_rollback = None, b_register = None, b_heartbeat = Some (0, 0),
     b_report = None, b_join_token = None, b_secret = None, b_log = None, b_deliveries = None, b_member = None,
     b_token = None, b_invite = None, b_redeem = None, b_access = None, b_approve = None\<rparr>"

definition ex_request :: "http_method \<Rightarrow> string list \<Rightarrow> string \<Rightarrow> request" where
  "ex_request m segs auth = \<lparr>rq_method = m, rq_segments = segs, rq_clean = True, rq_authorization = auth,
     rq_query = [], rq_body = ex_body\<rparr>"

definition ac5 where
  "ac5 = CreateOrganization ex_call ''o2'' ''beta'' ''Beta'' (core (ok_control ac3))"

definition ex_world :: world where
  "ex_world = \<lparr>ctl = cascade_logs ((ok_control ac3)\<lparr>core := ok_db ac5\<rparr>), wd_logs = None\<rparr>"

abbreviation ex_serve :: "request \<Rightarrow> response \<times> world" where
  "ex_serve r \<equiv> ServeHTTP ex_outside ex_server ex_randoms 7 r ex_world"

definition ex_new_app :: request where
  "ex_new_app = ex_request POST [''v1'', ''orgs'', ''o1'', ''apps''] ''Bearer secret''"

lemma ex_world_reachable:
  "reachable_control (x_lower ex_outside) (x_inet ex_outside) (x_sha ex_outside) (x_digest ex_outside) (ctl ex_world)"
proof -
  have "succeeded ac5" by code_simp
  then obtain g where "ac5 = Inr (g, ok_db ac5)" using succeeded_ok by blast
  then have "store_step ex_inet ex_sha ex_digest (core (ok_control ac3)) (ok_db ac5)"
    unfolding ac5_def by (auto intro: st_org)
  from ct_core [OF this] have "control_step ex_lower ex_inet ex_sha ex_digest (ok_control ac3) (ctl ex_world)"
    by (simp add: ex_world_def)
  with ex_control_reach_3 have "ex_control_reach (ctl ex_world)"
    unfolding reachable_control_def by (rule rtranclp.rtrancl_into_rtrancl)
  then show ?thesis by (simp add: ex_outside_def)
qed

lemma ex_uuid_slash: "CHR ''/'' \<in> set u \<Longrightarrow> x_uuid ex_outside u = None"
  by (auto simp: ex_outside_def list_ex_iff)

section \<open>Witnesses\<close>

theorem requests_keep_the_invariant_witness:
  "store_inv (core (ctl (serve ex_outside ex_server [(ex_randoms, 7, ex_new_app)] ex_world)))"
  using requests_keep_the_invariant [OF ex_world_reachable] by blast


definition ex_stranger :: hctx where
  "ex_stranger = \<lparr>hx = ex_outside, hs = ex_server, hr = ex_randoms, ht = 7,
     hid = Some (IdOperator (new_operator ex_call ''u2'' ''x@y.z'' [])), hp = [(''org'', ''o1'')], hq = ex_new_app\<rparr>"


theorem no_credential_no_access_witness:
  "(\<exists>s. ex_serve (ex_request POST [''v1'', ''orgs''] ''Bearer guess'') = (unauthorized, ex_world\<lparr>ctl := s\<rparr>) \<and>
     same_but_stamps (ctl ex_world) s) \<or>
   snd (ex_serve (ex_request POST [''v1'', ''orgs''] ''Bearer guess'')) = ex_world"
proof -
  let ?r = "ex_request POST [''v1'', ''orgs''] ''Bearer guess''"
  have 1: "cfg_bearer ex_server \<noteq> []" by code_simp
  have "map_option isOperator (fst (authenticate ex_outside ex_server 7 ?r (ctl ex_world))) = None" by code_simp
  then have 2: "fst (authenticate ex_outside ex_server 7 ?r (ctl ex_world)) = None" by simp
  have "\<not> publicPath (url_path ?r)" by code_simp
  with no_credential_no_access [OF 1 2, of ex_randoms] show ?thesis by blast
qed


end
