(* ===== verification/Control_Plane.thy ===== *)
theory Control_Plane
  imports Rollout_Reaper Rollout_Routing Api_Example
begin

text \<open>
  The control plane as \<open>cmd/controlplane/main.go\<close> puts it together: a server that answers requests and
  three loops over the same database, log buffer and mailer. The invariants of the store, of the
  accounts and of the hostnames hold in every state the process reaches.
\<close>

section \<open>Mail about failed rollouts\<close>

definition failureMessage :: "notify_target \<Rightarrow> deployment \<Rightarrow> string \<Rightarrow> message" where
  "failureMessage t dep reason =
     \<lparr>ms_to = nt_emails t,
      ms_subject = ''[navarch] rollout failed: '' @ Path t @ '' (revision '' @ show_int (dep_revision dep) @ '')'',
      ms_body =
        ''Deployment of '' @ Path t @ '' failed.'' @ nl @ nl @
        ''  environment  '' @ Path t @ nl @
        (if nt_hostname t \<noteq> [] then ''  hostname     '' @ nt_hostname t @ nl else []) @
        ''  revision     '' @ show_int (dep_revision dep) @ nl @
        ''  deployment   '' @ dep_id dep @ nl @ nl @
        ''Reason reported by the node agent:'' @ nl @ nl @ ''  '' @ reason @ nl @ nl @
        ''The previously live revision is untouched and still serving.'' @ nl @
        ''Deployments are append-only: nothing was rolled back because nothing changed.'' @ nl @ nl @
        ''  navarch deployment get '' @ dep_id dep @ nl @
        ''  navarch logs '' @ Path t @ nl\<rparr>"

definition notifyFailure ::
  "(message \<Rightarrow> string option) option \<Rightarrow> deployment \<Rightarrow> string \<Rightarrow> control \<Rightarrow> (message \<times> string option) option" where
  "notifyFailure notify dep reason s =
     (case notify of
        None \<Rightarrow> None
      | Some f \<Rightarrow>
          (case NotifyTargetsForDeployment (dep_id dep) s of
             Inl e \<Rightarrow> None
           | Inr target \<Rightarrow>
               if nt_emails target = [] then None
               else (let m = failureMessage target dep reason in Some (m, f m))))"

text \<open>Nobody outside the organization, and no disabled operator, is told of a failure.\<close>

lemma notifyFailure_to:
  assumes "notifyFailure notify dep reason s = Some (m, answer)"
  shows "\<exists>org1. org_of_dep (core s) (dep_id dep) = Some org1 \<and> ms_to m = OrgOperatorEmails org1 s \<and> ms_to m \<noteq> []"
  using assms
  by (auto simp: notifyFailure_def failureMessage_def NotifyTargetsForDeployment_def NotifyTargetsForEnvironment_def
      org_of_dep_def org_of_env_def org_of_stack_def Let_def get_org_def
      split: option.splits sum.splits if_splits dest: find_row_SomeD)

section \<open>The process\<close>

record boot =
  bt_call :: call
  bt_org :: uuid
  bt_randoms :: randoms
  bt_join_id :: uuid
  bt_email :: string
  bt_token :: string
  bt_join :: string

definition bootstrap :: "outside \<Rightarrow> boot \<Rightarrow> control \<Rightarrow> control" where
  "bootstrap x b s =
     BootstrapJoinToken x (bt_call b) (bt_join_id b) ''dev'' (bt_join b)
       (BootstrapOperator x (bt_call b) (bt_randoms b) (bt_email b) (bt_token b)
         (BootstrapDevOrg (bt_call b) (bt_org b) s))"

record plane =
  pl_world :: world
  pl_ctl :: controller
  pl_disk :: router_disk

definition DefaultTeardownGrace :: int where
  "DefaultTeardownGrace = seconds 5"

definition NewController :: "int \<Rightarrow> controller" where
  "NewController strand = \<lparr>routeStrand = strand, teardownGrace = DefaultTeardownGrace, startTimeout = seconds 300,
     ctl_org = None, firstTerminal = []\<rparr>"

definition start :: "outside \<Rightarrow> server \<Rightarrow> boot \<Rightarrow> router_disk \<Rightarrow> control \<Rightarrow> plane" where
  "start x cfg b disk s = \<lparr>pl_world = \<lparr>ctl = bootstrap x b s, wd_logs = Some New\<rparr>,
     pl_ctl = NewController (server.routeStrand cfg), pl_disk = disk\<rparr>"

definition core_of :: "plane \<Rightarrow> db" where
  "core_of p = core (ctl (pl_world p))"

definition with_core :: "db \<Rightarrow> plane \<Rightarrow> plane" where
  "with_core d p = p\<lparr>pl_world := (pl_world p)\<lparr>ctl := on_core (\<lambda>_. d) (ctl (pl_world p))\<rparr>\<rparr>"

text \<open>
  One request or one tick of a loop. Every time, random value and answer of the router is free, so
  the loops and the requests come in any order; each call they make is a transaction of its own and
  keeps the invariants by itself.
\<close>

inductive plane_step :: "outside \<Rightarrow> server \<Rightarrow> plane \<Rightarrow> plane \<Rightarrow> bool" for x cfg where
  pl_request: "plane_step x cfg p (p\<lparr>pl_world := snd (ServeHTTP x cfg rnd t r (pl_world p))\<rparr>)"
| pl_schedule: "plane_step x cfg p (with_core (ScheduleOnce c None gen (core_of p)) p)"
| pl_reconcile: "tk = ReconcileOnce c wall sync (pl_ctl p) (core_of p) (pl_disk p) \<Longrightarrow>
    plane_step x cfg p ((with_core (tick_db tk) p)\<lparr>pl_ctl := tick_ctl tk, pl_disk := tick_disk tk\<rparr>)"
| pl_reap: "plane_step x cfg p
    (p\<lparr>pl_world := snd (snd (ReapOnce fmt k \<lparr>rp_org = None, rp_notify = mailer cfg\<rparr> (pl_world p)))\<rparr>)"

section \<open>What every state satisfies\<close>

definition plane_inv :: "(string \<Rightarrow> string) \<Rightarrow> control \<Rightarrow> bool" where
  "plane_inv lower s \<longleftrightarrow> control_inv lower s \<and> hostnames_ok (core s)"

lemma control_step_core:
  assumes "control_step lower inet sha digest s t"
  obtains u where "store_step inet sha digest (core s) u" "core t = u" | "events_only s t"
  using assms
proof (cases rule: control_step.cases)
  case (ct_core u)
  then show ?thesis using that(1) by (simp add: cascade_logs_def)
next
  case (ct_present c plain)
  then show ?thesis using that(2) by (simp add: events_only_refl core_accounts)
next
  case ct_log
  then show ?thesis using that(2) logs_only(1) by (fastforce intro: events_only_refl)
next
  case ct_log_done
  then show ?thesis using that(2) logs_only(2) by (fastforce intro: events_only_refl)
next
  case (ct_log_close c i)
  then show ?thesis using that(2) by (simp add: events_only_refl CloseLogRequest_def)
next
  case (ct_log_sweep c)
  then show ?thesis using that(2) by (simp add: events_only_refl)
qed (rule that(2), rule account_events account_cores [THEN events_only_refl], assumption)+

lemma plane_inv_step:
  assumes step: "control_step lower inet sha digest s t" and inv: "plane_inv lower s"
  shows "plane_inv lower t"
proof -
  have "hostnames_ok (core t)"
    using step
  proof (cases rule: control_step_core)
    case (1 u)
    then show ?thesis using inv hostnames_step by (simp add: plane_inv_def)
  next
    case 2
    then show ?thesis using inv by (auto simp: events_only_def plane_inv_def hostnames_ok_def)
  qed
  with control_inv_step [OF step] inv show ?thesis by (simp add: plane_inv_def)
qed

lemma plane_inv_empty: "plane_inv lower empty_control"
  by (simp add: plane_inv_def control_inv_empty) (simp add: empty_control_def hostnames_empty)

interpretation process: invariant_system "\<lambda>s. s = empty_control" "control_step lower inet sha digest" "plane_inv lower"
  for lower inet sha digest
  by unfold_locales (auto simp: plane_inv_empty intro: plane_inv_step)

lemma plane_inv_runs: "runs x s t \<Longrightarrow> plane_inv (x_lower x) s \<Longrightarrow> plane_inv (x_lower x) t"
  unfolding runs_def by (rule process.steps_inv)

text \<open>A tick of the scheduler or the controller is a run of the core tables alone.\<close>

lemma plane_inv_core_runs:
  assumes "(store_step inet sha digest)\<^sup>*\<^sup>* (core s) d" "plane_inv lower s"
  shows "plane_inv lower (on_core (\<lambda>_. d) s)"
  using assms(1)
proof (induction rule: rtranclp_induct)
  case base
  with assms(2) show ?case
    by (auto simp: plane_inv_def control_inv_def on_core_def cascade_logs_def accounts_inv_logs)
next
  case (step y z)
  have "control_step lower inet sha digest (on_core (\<lambda>_. y) s) (on_core (\<lambda>_. z) (on_core (\<lambda>_. y) s))"
    unfolding on_core_def [of _ "on_core (\<lambda>_. y) s"] by (rule ct_core) (use step(2) in simp)
  from plane_inv_step [OF this step(3)] have "plane_inv lower (on_core (\<lambda>_. z) (on_core (\<lambda>_. y) s))" .
  then show ?case by (auto simp: plane_inv_def control_inv_def on_core_def cascade_logs_def accounts_inv_logs)
qed

lemma runs_attempt: "(\<And>v t. f s = Inr (v, t) \<Longrightarrow> runs x s t) \<Longrightarrow> runs x s (attempt f s)"
  by (auto simp: attempt_def runs.refl split: sum.splits)

lemma runs_BootstrapOperator: "runs x s (BootstrapOperator x c rnd email token s)"
proof (cases "bootstrap_account x c (r_id rnd) email s")
  case (Inr p)
  obtain r s1 where p: "p = (r, s1)" by (cases p)
  note [trans] = runs.trans
  define s2 where "s2 = (case GetOrganizationBySlug ''dev'' (core s1) of
      Inl _ \<Rightarrow> s1 | Inr g \<Rightarrow> attempt (AddOrgMember c (org_id g) (opr_id r) ''owner'') s1)"
  from Inr p have "runs x s s1"
    by (auto simp: bootstrap_account_def runs.refl split: sum.splits if_splits intro: ct_operator [THEN runs_step])
  also have "runs x s1 s2"
    by (auto simp: s2_def runs.refl split: sum.split intro: runs_attempt ct_add_member [THEN runs_step])
  finally have "runs x s s2" .
  moreover have "runs x s2 (attempt (EnsureOperatorToken (x_sha x) c (r_id2 rnd) (opr_id r) ''bootstrap'' token) s2)"
    "runs x s2 (attempt (IssueOperatorToken (x_sha x) c (r_id2 rnd) (r_plain rnd) (opr_id r) ''bootstrap'' None) s2)"
    by (auto intro: runs_attempt ct_ensure [THEN runs_step] ct_issue [THEN runs_step])
  ultimately show ?thesis by (auto simp: BootstrapOperator_def Inr p Let_def s2_def [symmetric] runs.refl intro: runs.trans)
qed (simp add: BootstrapOperator_def runs.refl)

lemma runs_bootstrap: "runs x s (bootstrap x b s)"
proof -
  note [trans] = runs.trans
  let ?s1 = "BootstrapDevOrg (bt_call b) (bt_org b) s"
  let ?s2 = "BootstrapOperator x (bt_call b) (bt_randoms b) (bt_email b) (bt_token b) ?s1"
  have "runs x s ?s1" unfolding BootstrapDevOrg_def by (intro runs_attempt) (erule runs_core [OF _ st_org])
  also have "runs x ?s1 ?s2" by (rule runs_BootstrapOperator)
  also have "runs x ?s2 (bootstrap x b s)"
    by (auto simp: bootstrap_def BootstrapJoinToken_def runs.refl split: sum.splits
        intro: runs_attempt ct_ensure_join [THEN runs_step])
  finally show ?thesis .
qed

lemma plane_steps_inv:
  assumes "(plane_step x cfg)\<^sup>*\<^sup>* p q" "plane_inv (x_lower x) (ctl (pl_world p))"
  shows "plane_inv (x_lower x) (ctl (pl_world q))"
  using assms(1)
proof (induction rule: rtranclp_induct)
  case base
  show ?case by (rule assms(2))
next
  case (step y z)
  have inv: "store_inv (core_of y)" using step(3) by (simp add: plane_inv_def control_inv_def core_of_def)
  from step(2) show ?case
  proof (cases rule: plane_step.cases)
    case (pl_request rnd t r)
    then show ?thesis using plane_inv_runs [OF runs_ServeHTTP step(3)] by simp
  next
    case (pl_schedule c gen)
    from plane_inv_core_runs [OF schedule_once_runs [OF inv, unfolded core_of_def] step(3)] show ?thesis
      unfolding pl_schedule by (simp add: with_core_def core_of_def)
  next
    case (pl_reconcile tk c wall sync)
    from plane_inv_core_runs [OF reconcile_once_runs step(3)] show ?thesis
      unfolding pl_reconcile by (simp add: with_core_def core_of_def)
  next
    case (pl_reap fmt k)
    then show ?thesis using plane_inv_runs [OF runs_ReapOnce step(3)] by simp
  qed
qed

lemma served_hostnames:
  assumes "hostnames_ok s"
  shows "list_all (\<lambda>rt. re_match hostnamePattern (rt_hostname rt)) (served_routes (liveRoutes c org strand s))"
  unfolding list_all_iff
proof
  fix rt assume "rt \<in> set (served_routes (liveRoutes c org strand s))"
  then obtain lr where lr: "lr \<in> set (liveRoutes c org strand s)" "rt_hostname rt = lr_hostname lr"
    by (auto simp: served_routes_def)
  from lr(1) obtain d where "lr \<in> set (routes_of c org strand s d)" by (rule routes_live)
  then obtain e where "get_env s (dep_env d) = Some e" "env_hostname e = Some (lr_hostname lr)" by (rule route_of_live)
  with assms lr(2) show "re_match hostnamePattern (rt_hostname rt)" by (auto simp: hostnames_ok_def dest: get_envD)
qed

text \<open>
  C8: the control plane as a whole stays consistent. Started on any database it could have left, and
  whatever requests it then serves and ticks its three loops make, in whatever order, with whatever
  answers of the router and the mailer, its tables satisfy the invariants of the store and of the
  accounts, and the hostname of every route it serves is one the router accepts.
\<close>

theorem control_plane_stays_consistent:
  assumes "reachable_control (x_lower x) (x_inet x) (x_sha x) (x_digest x) s"
    "(plane_step x cfg)\<^sup>*\<^sup>* (start x cfg b disk s) p"
  shows "store_inv (core_of p) \<and> accounts_inv (x_lower x) (ctl (pl_world p)) \<and>
    list_all (\<lambda>rt. re_match hostnamePattern (rt_hostname rt)) (served_routes (liveRoutes c org strand (core_of p)))"
proof -
  from assms(1) have "plane_inv (x_lower x) s"
    unfolding reachable_control_def by (rule process.reachable_inv [OF refl])
  then have "plane_inv (x_lower x) (bootstrap x b s)" by (rule plane_inv_runs [OF runs_bootstrap])
  then have "plane_inv (x_lower x) (ctl (pl_world p))" using plane_steps_inv [OF assms(2)] by (simp add: start_def)
  with served_hostnames show ?thesis by (auto simp: plane_inv_def control_inv_def core_of_def)
qed

definition ex_boot :: boot where
  "ex_boot = \<lparr>bt_call = ex_call, bt_org = ''o1'', bt_randoms = ex_randoms, bt_join_id = ''j1'', bt_email = ''ada@acme.io'',
     bt_token = ''secret'', bt_join = ''join''\<rparr>"

definition ex_started :: plane where
  "ex_started = start ex_outside ex_server ex_boot \<lparr>disk_tmp = None, disk_file = None\<rparr> empty_control"

definition ex_asked :: plane where
  "ex_asked = ex_started\<lparr>pl_world := snd (ServeHTTP ex_outside ex_server ex_randoms 7 ex_new_app (pl_world ex_started))\<rparr>"

theorem control_plane_stays_consistent_witness:
  "store_inv (core_of (with_core (ScheduleOnce ex_call None ex_gen (core_of ex_asked)) ex_asked)) \<and>
   map app_slug (applications (core_of ex_asked)) = [''shop'']"
proof
  have "reachable_control (x_lower ex_outside) (x_inet ex_outside) (x_sha ex_outside) (x_digest ex_outside) empty_control"
    by (simp add: reachable_control_def)
  moreover have "plane_step ex_outside ex_server ex_started ex_asked" unfolding ex_asked_def by (rule pl_request)
  then have "(plane_step ex_outside ex_server)\<^sup>*\<^sup>* ex_started
      (with_core (ScheduleOnce ex_call None ex_gen (core_of ex_asked)) ex_asked)"
    by (rule rtranclp.rtrancl_into_rtrancl [OF r_into_rtranclp]) (rule pl_schedule)
  ultimately show "store_inv (core_of (with_core (ScheduleOnce ex_call None ex_gen (core_of ex_asked)) ex_asked))"
    using control_plane_stays_consistent [of ex_outside empty_control ex_server ex_boot "\<lparr>disk_tmp = None, disk_file = None\<rparr>"]
    unfolding ex_started_def by blast
qed code_simp

end
