(* ===== verification/Agent_Order.thy ===== *)
theory Agent_Order
  imports Depends_Graph Store_Instances
begin

text \<open>
  The order in which an agent starts instances, \<open>orderDesired\<close> and \<open>topoGroup\<close> of
  \<open>internal/agent/reconcile.go\<close>. The recursion of \<open>topoGroup\<close>'s closure is bounded by a fuel argument, and
  the number of instances is shown to be enough.
\<close>

section \<open>The search\<close>

definition zero_desired :: desired_instance where
  "zero_desired = \<lparr>di_instance = [], di_dep = [], di_env8 = [], di_project = [], di_slot = Blue, di_revision = 0,
     di_name = [], di_swappable = False, di_service = zero_service, di_state = InstancePending, di_container = []\<rparr>"

definition byName :: "desired_instance list \<Rightarrow> string \<Rightarrow> desired_instance option" where
  "byName ins = map_of (rev (map (\<lambda>di. (di_name di, di)) ins))"

definition named :: "(string \<Rightarrow> desired_instance option) \<Rightarrow> string \<Rightarrow> desired_instance" where
  "named idx n = (case idx n of Some di \<Rightarrow> di | None \<Rightarrow> zero_desired)"

record topo =
  tp_color :: "string \<Rightarrow> color"
  tp_out :: "desired_instance list"

fun topo_visit :: "nat \<Rightarrow> (string \<Rightarrow> desired_instance option) \<Rightarrow> string \<Rightarrow> topo \<Rightarrow> topo option"
  and topo_deps :: "nat \<Rightarrow> (string \<Rightarrow> desired_instance option) \<Rightarrow> string list \<Rightarrow> topo \<Rightarrow> topo option" where
  "topo_visit 0 idx n st = (if tp_color st n \<noteq> White then Some st else None)"
| "topo_visit (Suc k) idx n st =
     (if tp_color st n \<noteq> White then Some st
      else case topo_deps k idx (svc_depends (di_service (named idx n))) (st\<lparr>tp_color := (tp_color st)(n := Grey)\<rparr>) of
        None \<Rightarrow> None
      | Some t \<Rightarrow> Some (t\<lparr>tp_color := (tp_color t)(n := Black), tp_out := tp_out t @ [named idx n]\<rparr>))"
| "topo_deps k idx [] st = Some st"
| "topo_deps k idx (dep # deps) st =
     (if idx dep = None then topo_deps k idx deps st
      else case topo_visit k idx dep st of None \<Rightarrow> None | Some t \<Rightarrow> topo_deps k idx deps t)"

fun topo_loop :: "nat \<Rightarrow> (string \<Rightarrow> desired_instance option) \<Rightarrow> desired_instance list \<Rightarrow> topo \<Rightarrow> topo option" where
  "topo_loop k idx [] st = Some st"
| "topo_loop k idx (di # ins) st =
     (case topo_visit k idx (di_name di) st of None \<Rightarrow> None | Some t \<Rightarrow> topo_loop k idx ins t)"

definition topo_init :: topo where
  "topo_init = \<lparr>tp_color = (\<lambda>_. White), tp_out = []\<rparr>"

definition topoGroup :: "desired_instance list \<Rightarrow> desired_instance list" where
  "topoGroup ins = (case topo_loop (length ins) (byName ins) ins topo_init of Some t \<Rightarrow> tp_out t | None \<Rightarrow> [])"

definition group_key :: "desired_instance \<Rightarrow> string \<times> string" where
  "group_key di = (di_env8 di, di_project di)"

definition orderDesired :: "desired_instance list \<Rightarrow> desired_instance list" where
  "orderDesired desired =
     (if length desired < 2 then desired
      else concat (map (\<lambda>k. topoGroup (filter (\<lambda>di. group_key di = k) desired)) (rev (remdups (rev (map group_key desired))))))"

section \<open>It returns\<close>

definition open_names :: "(string \<Rightarrow> desired_instance option) \<Rightarrow> topo \<Rightarrow> string set" where
  "open_names idx st = {n \<in> dom idx. tp_color st n = White}"

lemma topo_open:
  "topo_visit k idx n st = Some t \<Longrightarrow> open_names idx t \<subseteq> open_names idx st"
  "topo_deps k idx deps st = Some t \<Longrightarrow> open_names idx t \<subseteq> open_names idx st"
proof (induction k idx n st and k idx deps st arbitrary: t and t rule: topo_visit_topo_deps.induct)
  case (2 k idx n st)
  then show ?case by (fastforce simp: open_names_def split: option.splits if_splits)
next
  case (4 k idx dep deps st)
  then show ?case by (fastforce split: option.splits if_splits)
qed (auto simp: open_names_def split: if_splits)

lemma topo_returns:
  "finite (dom idx) \<Longrightarrow> n \<in> dom idx \<Longrightarrow> card (open_names idx st) \<le> k \<Longrightarrow> topo_visit k idx n st \<noteq> None"
  "finite (dom idx) \<Longrightarrow> card (open_names idx st) \<le> k \<Longrightarrow> topo_deps k idx deps st \<noteq> None"
proof (induction k idx n st and k idx deps st rule: topo_visit_topo_deps.induct)
  case (1 idx n st)
  then have "open_names idx st = {}" by (simp add: open_names_def)
  with 1(2) show ?case by (auto simp: open_names_def)
next
  case (2 k idx n st)
  show ?case
  proof (cases "tp_color st n = White")
    case True
    let ?st = "st\<lparr>tp_color := (tp_color st)(n := Grey)\<rparr>"
    have "open_names idx ?st = open_names idx st - {n}" by (auto simp: open_names_def)
    moreover have "n \<in> open_names idx st" using True 2(3) by (simp add: open_names_def)
    ultimately have "card (open_names idx ?st) \<le> k" using 2(2,4) by (simp add: open_names_def card_Diff_singleton)
    with 2(1) [OF _ 2(2)] True show ?thesis by (auto split: option.splits)
  qed simp
next
  case (4 k idx dep deps st)
  show ?case
  proof (cases "idx dep = None")
    case False
    then obtain t where run: "topo_visit k idx dep st = Some t" using 4(2) [OF False 4(4) _ 4(5)] by auto
    have "finite (open_names idx st)" using 4(4) by (simp add: open_names_def)
    then have "card (open_names idx t) \<le> k" using topo_open(1) [OF run] 4(5) by (meson card_mono le_trans)
    with 4(3) [OF False run 4(4)] run False show ?thesis by auto
  qed (use 4 in simp)
qed simp

section \<open>Everything is started once\<close>

definition topo_ok :: "(string \<Rightarrow> desired_instance option) \<Rightarrow> topo \<Rightarrow> bool" where
  "topo_ok idx st \<longleftrightarrow> distinct (map di_name (tp_out st)) \<and> di_name ` set (tp_out st) = {n. tp_color st n = Black} \<and>
     (\<forall>x \<in> set (tp_out st). idx (di_name x) = Some x)"

definition topo_post :: "topo \<Rightarrow> topo \<Rightarrow> bool" where
  "topo_post st t \<longleftrightarrow> (\<forall>n. tp_color t n = Grey \<longleftrightarrow> tp_color st n = Grey) \<and>
     (\<forall>n. tp_color st n \<noteq> White \<longrightarrow> tp_color t n = tp_color st n)"

definition keyed :: "(string \<Rightarrow> desired_instance option) \<Rightarrow> bool" where
  "keyed idx \<longleftrightarrow> (\<forall>n x. idx n = Some x \<longrightarrow> di_name x = n)"

lemma topo_post_refl [simp]: "topo_post st st"
  by (simp add: topo_post_def)

lemma topo_post_trans: "topo_post st t \<Longrightarrow> topo_post t u \<Longrightarrow> topo_post st u"
  by (auto simp: topo_post_def)

lemma topo_once:
  "topo_visit k idx n st = Some t \<Longrightarrow> keyed idx \<Longrightarrow> n \<in> dom idx \<Longrightarrow> topo_ok idx st \<Longrightarrow>
   topo_ok idx t \<and> topo_post st t \<and> tp_color t n \<noteq> White"
  "topo_deps k idx deps st = Some t \<Longrightarrow> keyed idx \<Longrightarrow> topo_ok idx st \<Longrightarrow> topo_ok idx t \<and> topo_post st t"
proof (induction k idx n st and k idx deps st arbitrary: t and t rule: topo_visit_topo_deps.induct)
  case (2 k idx n st)
  show ?case
  proof (cases "tp_color st n = White")
    case True
    let ?st = "st\<lparr>tp_color := (tp_color st)(n := Grey)\<rparr>"
    from True 2(2) obtain u where run: "topo_deps k idx (svc_depends (di_service (named idx n))) ?st = Some u"
      and t: "t = u\<lparr>tp_color := (tp_color u)(n := Black), tp_out := tp_out u @ [named idx n]\<rparr>"
      by (auto split: option.splits)
    have "topo_ok idx ?st" using 2(5) True by (auto simp: topo_ok_def)
    with 2(1) [OF _ run 2(3)] True have u: "topo_ok idx u" "topo_post ?st u" by auto
    then have grey: "tp_color u n = Grey" by (simp add: topo_post_def)
    from 2(3,4) obtain x where x: "idx n = Some x" "di_name x = n" by (auto simp: keyed_def)
    have "topo_ok idx t" using u(1) grey x by (auto simp: t topo_ok_def named_def)
    moreover have "topo_post st t" using u(2) True by (auto simp: t topo_post_def split: if_splits)
    ultimately show ?thesis by (simp add: t)
  qed (use 2 in simp)
next
  case (4 k idx dep deps st)
  show ?case
  proof (cases "idx dep = None")
    case False
    with 4(4) obtain u where run: "topo_visit k idx dep st = Some u" "topo_deps k idx deps u = Some t" by (auto split: option.splits)
    from 4(2) [OF False run(1) 4(5) _ 4(6)] False have u: "topo_ok idx u" "topo_post st u" by auto
    with 4(3) [OF False run(1) run(2) 4(5)] show ?thesis by (auto intro: topo_post_trans)
  qed (use 4 in simp)
qed (auto split: if_splits)

section \<open>Dependencies come first\<close>

definition group_edges :: "(string \<Rightarrow> desired_instance option) \<Rightarrow> (string \<times> string) set" where
  "group_edges idx = {(a, b). \<exists>x. idx a = Some x \<and> b \<in> set (svc_depends (di_service x)) \<and> b \<in> dom idx}"

definition deps_first :: "(string \<Rightarrow> desired_instance option) \<Rightarrow> desired_instance list \<Rightarrow> bool" where
  "deps_first idx out \<longleftrightarrow>
     (\<forall>xs x ys. out = xs @ x # ys \<longrightarrow> (\<forall>d \<in> set (svc_depends (di_service x)). d \<in> dom idx \<longrightarrow> d \<in> di_name ` set xs))"

lemma deps_first_Nil [simp]: "deps_first idx []"
  by (simp add: deps_first_def)

lemma deps_first_snoc:
  assumes "deps_first idx out" "\<forall>d \<in> set (svc_depends (di_service x)). d \<in> dom idx \<longrightarrow> d \<in> di_name ` set out"
  shows "deps_first idx (out @ [x])"
  unfolding deps_first_def
proof (intro allI impI)
  fix xs y ys assume eq: "out @ [x] = xs @ y # ys"
  show "\<forall>d \<in> set (svc_depends (di_service y)). d \<in> dom idx \<longrightarrow> d \<in> di_name ` set xs"
  proof (cases ys rule: rev_cases)
    case Nil
    with eq assms(2) show ?thesis by simp
  next
    case (snoc zs z)
    with eq have "out = xs @ y # zs" by simp
    with assms(1) show ?thesis unfolding deps_first_def by blast
  qed
qed

lemma topo_order:
  "topo_visit k idx n st = Some t \<Longrightarrow> keyed idx \<Longrightarrow> acyclic (group_edges idx) \<Longrightarrow> n \<in> dom idx \<Longrightarrow> topo_ok idx st \<Longrightarrow>
   deps_first idx (tp_out st) \<Longrightarrow> (\<forall>g. tp_color st g = Grey \<longrightarrow> (g, n) \<in> (group_edges idx)\<^sup>+) \<Longrightarrow>
   deps_first idx (tp_out t) \<and> tp_color t n = Black"
  "topo_deps k idx deps st = Some t \<Longrightarrow> keyed idx \<Longrightarrow> acyclic (group_edges idx) \<Longrightarrow> topo_ok idx st \<Longrightarrow>
   deps_first idx (tp_out st) \<Longrightarrow> (\<forall>g. tp_color st g = Grey \<longrightarrow> (g, m) \<in> (group_edges idx)\<^sup>*) \<Longrightarrow>
   (\<forall>d \<in> set deps. d \<in> dom idx \<longrightarrow> (m, d) \<in> group_edges idx) \<Longrightarrow>
   deps_first idx (tp_out t) \<and> (\<forall>d \<in> set deps. d \<in> dom idx \<longrightarrow> tp_color t d = Black)"
proof (induction k idx n st and k idx deps st arbitrary: t and t m rule: topo_visit_topo_deps.induct)
  case (1 idx n st)
  then have "tp_color st n \<noteq> Grey" by (auto simp: acyclic_def)
  with 1 show ?case by (cases "tp_color st n") (auto split: if_splits)
next
  case (2 k idx n st)
  show ?case
  proof (cases "tp_color st n = White")
    case True
    let ?st = "st\<lparr>tp_color := (tp_color st)(n := Grey)\<rparr>"
    from True 2(2) obtain u where run: "topo_deps k idx (svc_depends (di_service (named idx n))) ?st = Some u"
      and t: "t = u\<lparr>tp_color := (tp_color u)(n := Black), tp_out := tp_out u @ [named idx n]\<rparr>"
      by (auto split: option.splits)
    have ok: "topo_ok idx ?st" using 2(6) True by (auto simp: topo_ok_def)
    have reach: "\<forall>g. tp_color ?st g = Grey \<longrightarrow> (g, n) \<in> (group_edges idx)\<^sup>*" using 2(8) by (auto intro: trancl_into_rtrancl)
    from 2(5) obtain x where x: "idx n = Some x" by auto
    then have out: "\<forall>d \<in> set (svc_depends (di_service (named idx n))). d \<in> dom idx \<longrightarrow> (n, d) \<in> group_edges idx"
      by (auto simp: group_edges_def named_def)
    have first: "deps_first idx (tp_out ?st)" using 2(7) by simp
    have nw: "\<not> tp_color st n \<noteq> White" using True by simp
    from 2(1) [OF nw run 2(3,4) ok first reach out] have u: "deps_first idx (tp_out u)"
      "\<forall>d \<in> set (svc_depends (di_service (named idx n))). d \<in> dom idx \<longrightarrow> tp_color u d = Black" by auto
    have "topo_ok idx u" using topo_once(2) [OF run 2(3) ok] by simp
    with u(2) have "\<forall>d \<in> set (svc_depends (di_service (named idx n))). d \<in> dom idx \<longrightarrow> d \<in> di_name ` set (tp_out u)"
      by (auto simp: topo_ok_def)
    from deps_first_snoc [OF u(1) this] show ?thesis by (simp add: t)
  next
    case False
    with 2(4,8) have "tp_color st n \<noteq> Grey" by (auto simp: acyclic_def)
    with False 2(2,7) show ?thesis by (cases "tp_color st n") auto
  qed
next
  case (4 k idx dep deps st)
  show ?case
  proof (cases "idx dep = None")
    case True
    with 4(1) [OF True _ 4(5,6,7,8,9)] 4(4,10) show ?thesis by auto
  next
    case False
    with 4(4) obtain u where run: "topo_visit k idx dep st = Some u" "topo_deps k idx deps u = Some t" by (auto split: option.splits)
    from False have dom: "dep \<in> dom idx" by auto
    have "\<forall>g. tp_color st g = Grey \<longrightarrow> (g, dep) \<in> (group_edges idx)\<^sup>+"
      using 4(9,10) dom by (auto intro: rtrancl_into_trancl1)
    from 4(2) [OF False run(1) 4(5,6) dom 4(7,8) this] have u: "deps_first idx (tp_out u)" "tp_color u dep = Black" by auto
    have once: "topo_ok idx u" "topo_post st u" using topo_once(1) [OF run(1) 4(5) dom 4(7)] by auto
    have reach: "\<forall>g. tp_color u g = Grey \<longrightarrow> (g, m) \<in> (group_edges idx)\<^sup>*" using once(2) 4(9) by (simp add: topo_post_def)
    have "deps_first idx (tp_out t) \<and> (\<forall>d \<in> set deps. d \<in> dom idx \<longrightarrow> tp_color t d = Black)"
      using 4(3) [OF False run(1) run(2) 4(5,6) once(1) u(1) reach] 4(10) by auto
    moreover have "tp_color t dep = Black" using topo_once(2) [OF run(2) 4(5) once(1)] u(2) by (auto simp: topo_post_def)
    ultimately show ?thesis by simp
  qed
qed auto

lemma topo_loop_correct:
  assumes "keyed idx" "finite (dom idx)" "di_name ` set ins \<subseteq> dom idx" "topo_ok idx st" "\<forall>n. tp_color st n \<noteq> Grey"
    "card (open_names idx st) \<le> k"
  shows "\<exists>t. topo_loop k idx ins st = Some t \<and> topo_ok idx t \<and> (\<forall>n. tp_color t n \<noteq> Grey) \<and>
    (\<forall>n. tp_color st n = Black \<longrightarrow> tp_color t n = Black) \<and> (\<forall>x \<in> set ins. tp_color t (di_name x) = Black) \<and>
    (acyclic (group_edges idx) \<longrightarrow> deps_first idx (tp_out st) \<longrightarrow> deps_first idx (tp_out t))"
  using assms(3-)
proof (induction ins arbitrary: st)
  case (Cons di ins)
  from Cons.prems(1) have dom: "di_name di \<in> dom idx" by simp
  obtain u where run: "topo_visit k idx (di_name di) st = Some u"
    using topo_returns(1) [OF assms(2) dom Cons.prems(4)] by auto
  have u: "topo_ok idx u" "topo_post st u" "tp_color u (di_name di) \<noteq> White"
    using topo_once(1) [OF run assms(1) dom Cons.prems(2)] by auto
  then have grey: "\<forall>n. tp_color u n \<noteq> Grey" using Cons.prems(3) by (simp add: topo_post_def)
  then have black: "tp_color u (di_name di) = Black" using u(3) by (cases "tp_color u (di_name di)") auto
  have first: "deps_first idx (tp_out u)" if "acyclic (group_edges idx)" "deps_first idx (tp_out st)"
    using topo_order(1) [OF run assms(1) that(1) dom Cons.prems(2) that(2)] Cons.prems(3) by auto
  have "finite (open_names idx st)" using assms(2) by (simp add: open_names_def)
  then have "card (open_names idx u) \<le> k" using topo_open(1) [OF run] Cons.prems(4) by (meson card_mono le_trans)
  from Cons.IH [OF _ u(1) grey this] Cons.prems(1) obtain t where t: "topo_loop k idx ins u = Some t" "topo_ok idx t"
    "\<forall>n. tp_color t n \<noteq> Grey" "\<forall>n. tp_color u n = Black \<longrightarrow> tp_color t n = Black" "\<forall>x \<in> set ins. tp_color t (di_name x) = Black"
    "acyclic (group_edges idx) \<longrightarrow> deps_first idx (tp_out u) \<longrightarrow> deps_first idx (tp_out t)" by auto
  have "tp_color u n = Black" if "tp_color st n = Black" for n using u(2) that by (simp add: topo_post_def)
  with t run first black show ?case by auto
qed simp

section \<open>Groups\<close>

lemma byName_dom: "dom (byName ins) = di_name ` set ins"
  by (auto simp: byName_def dom_map_of_conv_image_fst image_comp)

lemma byName_keyed: "keyed (byName ins)"
  by (auto simp: keyed_def byName_def dest: map_of_SomeD)

lemma byName_iff:
  assumes "distinct (map di_name ins)"
  shows "byName ins n = Some x \<longleftrightarrow> x \<in> set ins \<and> di_name x = n"
proof -
  have "distinct (map fst (rev (map (\<lambda>di. (di_name di, di)) ins)))"
    using assms by (simp add: comp_def rev_map [symmetric])
  then show ?thesis unfolding byName_def by (subst map_of_eq_Some_iff) auto
qed

lemma topoGroup_correct:
  assumes "distinct (map di_name ins)"
  shows "mset (topoGroup ins) = mset ins"
    and "acyclic (group_edges (byName ins)) \<Longrightarrow> deps_first (byName ins) (topoGroup ins)"
    and "\<exists>t. topo_loop (length ins) (byName ins) ins topo_init = Some t"
proof -
  let ?idx = "byName ins"
  have fin: "finite (dom ?idx)" by (simp add: byName_dom)
  have "card (open_names ?idx topo_init) \<le> length ins"
    using card_length [of "map di_name ins"] by (simp add: open_names_def topo_init_def byName_dom)
  moreover have "topo_ok ?idx topo_init" "\<forall>n. tp_color topo_init n \<noteq> Grey" by (simp_all add: topo_ok_def topo_init_def)
  ultimately obtain t where t: "topo_loop (length ins) ?idx ins topo_init = Some t" "topo_ok ?idx t"
      "\<forall>x \<in> set ins. tp_color t (di_name x) = Black"
      "acyclic (group_edges ?idx) \<longrightarrow> deps_first ?idx (tp_out topo_init) \<longrightarrow> deps_first ?idx (tp_out t)"
    using topo_loop_correct [OF byName_keyed fin, of ins topo_init "length ins"] byName_dom [of ins] by auto
  then have out: "topoGroup ins = tp_out t" by (simp add: topoGroup_def)
  have sub: "set (tp_out t) \<subseteq> set ins" using t(2) byName_iff [OF assms] by (auto simp: topo_ok_def)
  have "set ins \<subseteq> set (tp_out t)"
  proof
    fix x assume x: "x \<in> set ins"
    with t(2,3) have "di_name x \<in> di_name ` set (tp_out t)" by (simp add: topo_ok_def)
    then obtain y where "y \<in> set (tp_out t)" "di_name y = di_name x" by auto
    with sub x assms show "x \<in> set (tp_out t)" by (metis subsetD distinct_map inj_onD)
  qed
  moreover have "distinct (tp_out t)" "distinct ins" using t(2) assms by (auto simp: topo_ok_def distinct_map)
  ultimately show "mset (topoGroup ins) = mset ins" using sub out by (simp add: set_eq_iff_mset_eq_distinct [symmetric] subset_antisym)
  show "deps_first ?idx (topoGroup ins)" if "acyclic (group_edges ?idx)" using t(4) that out by (simp add: topo_init_def)
  show "\<exists>t. topo_loop (length ins) ?idx ins topo_init = Some t" using t(1) by blast
qed

abbreviation group :: "desired_instance list \<Rightarrow> string \<times> string \<Rightarrow> desired_instance list" where
  "group desired k \<equiv> filter (\<lambda>di. group_key di = k) desired"

lemma mset_groups:
  assumes "distinct ks" "group_key ` set desired \<subseteq> set ks"
  shows "mset (concat (map (group desired) ks)) = mset desired"
  using assms
proof (induction ks arbitrary: desired)
  case (Cons k ks)
  let ?rest = "filter (\<lambda>di. group_key di \<noteq> k) desired"
  have "map (group desired) ks = map (group ?rest) ks"
    using Cons.prems(1) by (auto intro!: filter_cong)
  moreover have "mset (concat (map (group ?rest) ks)) = mset ?rest"
    using Cons.prems by (intro Cons.IH) auto
  ultimately have "mset (concat (map (group desired) (k # ks))) = mset (group desired k) + mset ?rest" by (simp only: list.map concat.simps mset_append)
  also have "\<dots> = mset desired" by simp
  finally show ?case .
qed simp

lemma mset_concat_cong: "(\<And>k. k \<in> set ks \<Longrightarrow> mset (f k) = mset (g k)) \<Longrightarrow> mset (concat (map f ks)) = mset (concat (map g ks))"
  by (induction ks) auto

text \<open>Where a concatenation is cut, one of its parts is cut.\<close>

lemma concat_cut:
  "concat xss = xs @ x # ys \<Longrightarrow> \<exists>pre post as bs. xss = pre @ (as @ x # bs) # post \<and> xs = concat pre @ as"
proof (induction xss arbitrary: xs)
  case (Cons zs xss)
  show ?case
  proof (cases "length xs < length zs")
    case True
    with Cons.prems obtain us where us: "zs = xs @ us" "us \<noteq> []" "us @ concat xss = x # ys"
      by (auto simp: append_eq_append_conv2)
    then obtain bs where "zs = xs @ x # bs" by (cases us) auto
    then show ?thesis by (intro exI [of _ "[]"] exI [of _ xss] exI [of _ xs] exI [of _ bs]) simp
  next
    case False
    with Cons.prems obtain us where us: "xs = zs @ us" "concat xss = us @ x # ys"
      by (auto simp: append_eq_append_conv2 Cons_eq_append_conv)
    from Cons.IH [OF us(2)] obtain pre post as bs where "xss = pre @ (as @ x # bs) # post" "us = concat pre @ as" by blast
    with us show ?thesis by (intro exI [of _ "zs # pre"] exI [of _ post] exI [of _ as] exI [of _ bs]) simp
  qed
qed simp

section \<open>The whole desired state\<close>

definition starts_before :: "desired_instance list \<Rightarrow> bool" where
  "starts_before out \<longleftrightarrow>
     (\<forall>xs x ys. out = xs @ x # ys \<longrightarrow>
        (\<forall>y \<in> set out. group_key y = group_key x \<and> di_name y \<in> set (svc_depends (di_service x)) \<longrightarrow> y \<in> set xs))"

lemma order_is_concat:
  "2 \<le> length desired \<Longrightarrow>
   orderDesired desired = concat (map (\<lambda>k. topoGroup (group desired k)) (rev (remdups (rev (map group_key desired)))))"
  by (simp add: orderDesired_def)

lemma group_names:
  assumes "distinct (map (\<lambda>di. (group_key di, di_name di)) desired)"
  shows "distinct (map di_name (group desired k))"
  using assms by (induction desired) (auto simp: image_iff)

lemma order_perm:
  assumes "distinct (map (\<lambda>di. (group_key di, di_name di)) desired)"
  shows "mset (orderDesired desired) = mset desired"
proof (cases "2 \<le> length desired")
  case True
  show ?thesis
    unfolding order_is_concat [OF True] mset_concat_cong [OF topoGroup_correct(1) [OF group_names [OF assms]]]
    by (rule mset_groups) auto
qed (simp add: orderDesired_def)

lemma order_starts_before:
  assumes "distinct (map (\<lambda>di. (group_key di, di_name di)) desired)"
    and "\<And>k. acyclic (group_edges (byName (group desired k)))"
  shows "starts_before (orderDesired desired)"
proof (cases "2 \<le> length desired")
  case False
  have "starts_before [x]" if "desired = [x]" for x
  proof -
    have "(di_name x, di_name x) \<notin> group_edges (byName [x])" using assms(2) [of "group_key x"] that by (auto simp: acyclic_def)
    then have "di_name x \<notin> set (svc_depends (di_service x))" by (auto simp: group_edges_def byName_def)
    then show ?thesis by (auto simp: starts_before_def Cons_eq_append_conv)
  qed
  moreover have "starts_before []" by (simp add: starts_before_def)
  ultimately show ?thesis using False by (cases desired; cases "tl desired") (auto simp: orderDesired_def)
next
  case True
  let ?ks = "rev (remdups (rev (map group_key desired)))"
  have names: "distinct (map di_name (group desired k))" for k by (rule group_names [OF assms(1)])
  note grp = topoGroup_correct [OF names]
  have members: "set (topoGroup (group desired k)) = set (group desired k)" for k using grp(1) by (rule mset_eq_setD)
  note perm = order_perm [OF assms(1)]
  have "y \<in> set xs" if cut: "orderDesired desired = xs @ x # ys" and y: "y \<in> set (orderDesired desired)"
    and same: "group_key y = group_key x" and dep: "di_name y \<in> set (svc_depends (di_service x))" for xs x ys y
  proof -
    from concat_cut [OF cut [unfolded order_is_concat [OF True]]] obtain pre post as bs where
      split: "map (\<lambda>k. topoGroup (group desired k)) ?ks = pre @ (as @ x # bs) # post" and xs: "xs = concat pre @ as" by blast
    then obtain k where k: "topoGroup (group desired k) = as @ x # bs" by (metis (no_types, lifting) map_eq_append_conv map_eq_Cons_conv)
    then have "x \<in> set (group desired k)" unfolding members [symmetric] by simp
    with same perm y have "y \<in> set (group desired k)" by (auto dest: mset_eq_setD)
    then have dom: "di_name y \<in> dom (byName (group desired k))" by (auto simp: byName_dom)
    from grp(2) [OF assms(2), of k] dep dom k have "di_name y \<in> di_name ` set as" by (auto simp: deps_first_def)
    then obtain z where z: "z \<in> set as" "di_name z = di_name y" by auto
    have "z \<in> set (group desired k)" using z(1) k unfolding members [symmetric] by simp
    with names [of k] z(2) \<open>y \<in> set (group desired k)\<close> have "z = y" by (auto simp: distinct_map inj_on_def)
    with z(1) xs show ?thesis by simp
  qed
  then show ?thesis unfolding starts_before_def by blast
qed

text \<open>
  The order in which an agent starts what it is given. When no environment and revision names a
  service twice, every desired instance is started exactly once; and when the dependencies within
  each revision are acyclic, which is what the parser demands of every stored specification, each
  instance comes after all instances of its revision it depends on.
\<close>

theorem start_order_respects_dependencies:
  assumes "distinct (map (\<lambda>di. (group_key di, di_name di)) desired)"
    and "\<And>k. acyclic (group_edges (byName (group desired k)))"
  shows "mset (orderDesired desired) = mset desired \<and> starts_before (orderDesired desired)"
  using order_perm [OF assms(1)] order_starts_before [OF assms] by blast

lemma group_edges_spec:
  assumes "\<And>x. x \<in> set ins \<Longrightarrow> \<exists>svc. map_of (services s) (di_name x) = Some svc \<and> svc_depends (di_service x) = svc_depends svc"
    and "acyclic (edges s)"
  shows "acyclic (group_edges (byName ins))"
proof (rule acyclic_subset [OF assms(2)])
  have "x \<in> set ins \<and> di_name x = n" if "byName ins n = Some x" for n x
    using that by (auto simp: byName_def dest: map_of_SomeD)
  then show "group_edges (byName ins) \<subseteq> edges s"
    using assms(1) by (fastforce simp: group_edges_def edges_def byName_dom service_at_def)
qed

definition ex_ordered_spec :: deployment_spec where
  "ex_ordered_spec = ex_spec\<lparr>services := [(''web'', ex_service\<lparr>svc_depends := [''db'']\<rparr>), (''db'', ex_db_service)]\<rparr>"

definition ex_desired :: "string \<Rightarrow> desired_instance" where
  "ex_desired n = zero_desired\<lparr>di_instance := n, di_env8 := ''env00001'', di_project := ''cc-env00001-r1'', di_name := n,
     di_service := service_at ex_ordered_spec n, di_swappable := svc_swappable (service_at ex_ordered_spec n)\<rparr>"

theorem start_order_respects_dependencies_witness:
  "starts_before (orderDesired [ex_desired ''web'', ex_desired ''db'']) \<and>
   map di_name (orderDesired [ex_desired ''web'', ex_desired ''db'']) = [''db'', ''web'']"
proof
  let ?ds = "[ex_desired ''web'', ex_desired ''db'']"
  have "findCycle ex_ordered_spec = []" by code_simp
  then have acyclic: "acyclic (edges ex_ordered_spec)" using find_cycle_facts [of ex_ordered_spec] by simp
  have "map_of (services ex_ordered_spec) (di_name x) = Some (di_service x)" if "x \<in> set ?ds" for x
    using that by (auto simp: ex_desired_def ex_ordered_spec_def service_at_def)
  then have "acyclic (group_edges (byName (group ?ds k)))" for k
    using acyclic by (intro group_edges_spec [of _ ex_ordered_spec]) (auto split: if_splits)
  moreover have "distinct (map (\<lambda>di. (group_key di, di_name di)) ?ds)" by (simp add: ex_desired_def)
  ultimately show "starts_before (orderDesired ?ds)" using start_order_respects_dependencies [of ?ds] by blast
  show "map di_name (orderDesired ?ds) = [''db'', ''web'']" by code_simp
qed

end
