(* ===== verification/Agent_Reconcile.thy ===== *)
theory Agent_Reconcile
  imports Agent_Order "HOL-Library.Sublist"
begin

text \<open>
  \<open>internal/agent/reconcile.go\<close>: one tick of a node's reconciler. The Docker driver is an interface there;
  here every call is recorded in a history and its answer is a function of the history up to and
  including the call, so the theorems hold for every behaviour of Docker. The clock is read from the
  history in the same way. Go visits the environments to clean up in an unspecified order; the model
  visits them in the order of the lists that stand for the sets.
\<close>

section \<open>Calls and answers\<close>

record volume_mount =
  vm_volume :: string
  vm_target :: string
  vm_read_only :: bool

record container_spec =
  con_name :: string
  con_image :: string
  con_env :: "string gomap option"
  con_secret_env :: "string gomap option"
  con_cmd :: "string list"
  con_entrypoint :: "string list"
  con_working_dir :: string
  con_user :: string
  con_mounts :: "volume_mount list"
  con_health :: "health_check option"
  con_labels :: "string gomap"
  con_network :: string
  con_restart :: string
  con_cpu_millis :: int
  con_memory_bytes :: int
  con_publish_port :: int

record ensured =
  ens_id :: string
  ens_created :: bool
  ens_recreated :: bool

record health =
  h_running :: bool
  h_status :: string
  h_exit_code :: int
  h_restart_count :: int
  h_published_port :: int

record managed =
  mg_id :: string
  mg_name :: string
  mg_service :: string
  mg_swappable :: bool

datatype drv_call =
    EnsureImage string
  | EnsureNetwork string "string gomap"
  | EnsureVolume string "string gomap"
  | EnsureContainer container_spec secret_source
  | AttachNetwork string string string
  | InspectHealth string
  | StopRemove string
  | ListManaged string
  | PruneRevisionNetworks string "string list"
  | RemoveEnv string

type_synonym history = "drv_call list"

record driver =
  ans_image :: "history \<Rightarrow> string + string"
  ans_network :: "history \<Rightarrow> string + string"
  ans_volume :: "history \<Rightarrow> string option"
  ans_container :: "history \<Rightarrow> string + ensured"
  ans_attach :: "history \<Rightarrow> string option"
  ans_health :: "history \<Rightarrow> string + health"
  ans_stop :: "history \<Rightarrow> string option"
  ans_managed :: "history \<Rightarrow> string + managed list"
  ans_prune :: "history \<Rightarrow> string option"
  ans_remove_env :: "history \<Rightarrow> string option"
  drv_clock :: "history \<Rightarrow> time"

record report =
  rep_instance :: uuid
  rep_state :: instance_state
  rep_container :: string
  rep_health :: string
  rep_error :: string
  rep_restarts :: int
  rep_set_started :: bool
  rep_recreated :: bool
  rep_ingress_port :: int

record reconciler =
  debounce :: time
  firstRunning :: "time gomap"
  tornDown :: "string list"
  knownEnvs :: "string list"

datatype env_op = opTeardown | opNetworkCleanup

record env_failure =
  ef_env8 :: string
  ef_op :: env_op
  ef_err :: string

definition NewReconciler :: reconciler where
  "NewReconciler = \<lparr>debounce = 5, firstRunning = [], tornDown = [], knownEnvs = []\<rparr>"

section \<open>One instance\<close>

definition containerName :: "desired_instance \<Rightarrow> string" where
  "containerName di =
     (if di_swappable di then di_project di @ ''-'' @ di_name di
      else ''cc-'' @ di_env8 di @ ''-pinned-'' @ di_name di)"

definition boolStr :: "bool \<Rightarrow> string" where
  "boolStr b = (if b then ''true'' else ''false'')"

definition containerSpec :: "desired_instance \<Rightarrow> string \<Rightarrow> container_spec" where
  "containerSpec di name =
     (let svc = di_service di;
          mounts = map (\<lambda>m. \<lparr>vm_volume = ''cc-'' @ di_env8 di @ ''-'' @ mnt_source m, vm_target = mnt_target m,
                              vm_read_only = mnt_read_only m\<rparr>)
                     (filter (\<lambda>m. mnt_kind m = MountVolume) (svc_mounts svc));
          publish = (case svc_ingress svc of None \<Rightarrow> 0 | Some i \<Rightarrow> ing_port i)
      in \<lparr>con_name = name, con_image = svc_image svc, con_env = svc_env svc, con_secret_env = svc_secret_env svc,
          con_cmd = svc_command svc, con_entrypoint = svc_entrypoint svc, con_working_dir = svc_working_dir svc,
          con_user = svc_user svc, con_mounts = mounts, con_health = svc_health svc,
          con_labels = [(''cc.env'', di_env8 di), (''cc.deployment'', di_dep di), (''cc.service'', di_name di),
                        (''cc.swappable'', boolStr (di_swappable di))],
          con_network = di_project di, con_restart = svc_restart svc, con_cpu_millis = cpu_millis (svc_limits svc),
          con_memory_bytes = memory_bytes (svc_limits svc), con_publish_port = publish\<rparr>)"

definition mapHealth :: "bool \<Rightarrow> health \<Rightarrow> instance_state \<times> string" where
  "mapHealth hasHealthcheck h =
     (if \<not> h_running h then
        (if h_exit_code h \<noteq> 0 then (InstanceFailed, ''exited'') else (InstanceStopped, ''stopped''))
      else if hasHealthcheck then
        (if h_status h = ''healthy'' then (InstanceRunning, ''healthy'')
         else if h_status h = ''unhealthy'' then (InstanceUnhealthy, ''unhealthy'')
         else (InstanceStarting, ''starting''))
      else (InstanceRunning, ''running''))"

definition has_healthcheck :: "desired_instance \<Rightarrow> bool" where
  "has_healthcheck di = (case svc_health (di_service di) of None \<Rightarrow> False | Some hc \<Rightarrow> hc_test hc \<noteq> [])"

definition observe ::
  "time \<Rightarrow> desired_instance \<Rightarrow> health \<Rightarrow> reconciler \<Rightarrow> (instance_state \<times> string) \<times> reconciler" where
  "observe now1 di h r =
     (let hc = has_healthcheck di in
      if \<not> h_running h then
        (mapHealth hc h, r\<lparr>firstRunning := remove_key (di_instance di) (firstRunning r)\<rparr>)
      else if hc then (mapHealth True h, r)
      else
        let first = (case map_of (firstRunning r) (di_instance di) of None \<Rightarrow> now1 | Some t \<Rightarrow> t);
            r1 = r\<lparr>firstRunning := put (di_instance di) first (firstRunning r)\<rparr>
        in if now1 - first < debounce r then ((InstanceStarting, ''starting''), r1)
           else ((InstanceRunning, ''running''), r1))"

fun ensure_volumes :: "driver \<Rightarrow> string \<Rightarrow> volume_mount list \<Rightarrow> history \<Rightarrow> string option \<times> history" where
  "ensure_volumes drv env8 [] h = (None, h)"
| "ensure_volumes drv env8 (m # ms) h =
     (let h1 = h @ [EnsureVolume (vm_volume m) [(''cc.env'', env8)]] in
      case ans_volume drv h1 of Some e \<Rightarrow> (Some e, h1) | None \<Rightarrow> ensure_volumes drv env8 ms h1)"

definition zero_report :: "uuid \<Rightarrow> report" where
  "zero_report i = \<lparr>rep_instance = i, rep_state = InstancePending, rep_container = [], rep_health = [], rep_error = [],
     rep_restarts = 0, rep_set_started = False, rep_recreated = False, rep_ingress_port = 0\<rparr>"

definition failed_report :: "report \<Rightarrow> string \<Rightarrow> report" where
  "failed_report rep e = rep\<lparr>rep_state := InstanceFailed, rep_error := e\<rparr>"

text \<open>After the container exists: pinned ones are attached to the revision's network, then all are inspected.\<close>

definition inspect_instance ::
  "driver \<Rightarrow> desired_instance \<Rightarrow> ensured \<Rightarrow> report \<Rightarrow> reconciler \<Rightarrow> history \<Rightarrow> report \<times> reconciler \<times> history" where
  "inspect_instance drv di en rep r h =
     (let rep1 = rep\<lparr>rep_container := ens_id en, rep_set_started := True\<rparr>;
          h1 = h @ [InspectHealth (ens_id en)]
      in case ans_health drv h1 of
           Inl e \<Rightarrow> (failed_report rep1 e, r, h1)
         | Inr he \<Rightarrow>
             (case observe (drv_clock drv h1) di he r of
                ((st, status), r1) \<Rightarrow>
                  (rep1\<lparr>rep_restarts := h_restart_count he, rep_ingress_port := h_published_port he,
                        rep_state := st, rep_health := status\<rparr>, r1, h1)))"

definition ensure_instance ::
  "driver \<Rightarrow> desired_instance \<Rightarrow> string \<Rightarrow> secret_source \<Rightarrow> reconciler \<Rightarrow> history \<Rightarrow> report \<times> reconciler \<times> history" where
  "ensure_instance drv di name src r h =
     (let rep = zero_report (di_instance di);
          h1 = h @ [EnsureImage (svc_image (di_service di))]
      in case ans_image drv h1 of
        Inl e \<Rightarrow> (failed_report rep e, r, h1)
      | Inr digest \<Rightarrow>
        let h2 = h1 @ [EnsureNetwork (di_project di) [(''cc.env'', di_env8 di)]] in
        (case ans_network drv h2 of
          Inl e \<Rightarrow> (failed_report rep e, r, h2)
        | Inr _ \<Rightarrow>
          let cs0 = containerSpec di name;
              cs = (if digest \<noteq> [] then cs0\<lparr>con_image := digest\<rparr> else cs0)
          in (case ensure_volumes drv (di_env8 di) (con_mounts cs) h2 of
            (Some e, h3) \<Rightarrow> (failed_report rep e, r, h3)
          | (None, h3) \<Rightarrow>
            let h4 = h3 @ [EnsureContainer cs src] in
            (case ans_container drv h4 of
              Inl e \<Rightarrow> (failed_report rep e, r, h4)
            | Inr en \<Rightarrow>
              let rep1 = rep\<lparr>rep_recreated := ens_recreated en\<rparr> in
              if di_swappable di then inspect_instance drv di en rep1 r h4
              else
                let h5 = h4 @ [AttachNetwork (ens_id en) (di_project di) (di_name di)] in
                (case ans_attach drv h5 of
                  Some e \<Rightarrow> (failed_report rep1 e, r, h5)
                | None \<Rightarrow> inspect_instance drv di en rep1 r h5)))))"

section \<open>The tick\<close>

fun ensure_all ::
  "driver \<Rightarrow> (string \<Rightarrow> secret_source) \<Rightarrow> desired_instance list \<Rightarrow> reconciler \<Rightarrow> history \<Rightarrow>
   report list \<times> reconciler \<times> history" where
  "ensure_all drv src [] r h = ([], r, h)"
| "ensure_all drv src (di # dis) r h =
     (case ensure_instance drv di (containerName di) (src (di_env8 di)) r h of
        (rep, r1, h1) \<Rightarrow> (case ensure_all drv src dis r1 h1 of (reps, r2, h2) \<Rightarrow> (rep # reps, r2, h2)))"

definition cleanup_failure :: "string \<Rightarrow> string \<Rightarrow> env_failure" where
  "cleanup_failure env8 e = \<lparr>ef_env8 = env8, ef_op = opNetworkCleanup, ef_err = e\<rparr>"

fun remove_orphans ::
  "driver \<Rightarrow> string list \<Rightarrow> string \<Rightarrow> managed list \<Rightarrow> history \<Rightarrow> env_failure list \<times> history" where
  "remove_orphans drv wanted env8 [] h = ([], h)"
| "remove_orphans drv wanted env8 (m # ms) h =
     (if mg_name m \<notin> set wanted \<and> mg_swappable m then
        let h1 = h @ [StopRemove (mg_id m)];
            err = (case ans_stop drv h1 of
                     Some e \<Rightarrow> [cleanup_failure env8 (''remove orphaned container '' @ mg_name m @ '': '' @ e)]
                   | None \<Rightarrow> [])
        in (case remove_orphans drv wanted env8 ms h1 of (errs, h2) \<Rightarrow> (err @ errs, h2))
      else remove_orphans drv wanted env8 ms h)"

definition cleanup_env ::
  "driver \<Rightarrow> string list \<Rightarrow> string list \<Rightarrow> string \<Rightarrow> history \<Rightarrow> env_failure list \<times> history" where
  "cleanup_env drv wanted nets env8 h =
     (let h1 = h @ [ListManaged env8];
          (errs, h2) = (case ans_managed drv h1 of
                          Inl e \<Rightarrow> ([cleanup_failure env8 (''list managed containers: '' @ e)], h1)
                        | Inr ms \<Rightarrow> remove_orphans drv wanted env8 ms h1);
          h3 = h2 @ [PruneRevisionNetworks env8 nets]
      in (errs @ (case ans_prune drv h3 of Some e \<Rightarrow> [cleanup_failure env8 e] | None \<Rightarrow> []), h3))"

text \<open>The second component is the set of environments whose cleanup failed.\<close>

fun cleanup_all ::
  "driver \<Rightarrow> string list \<Rightarrow> string list \<Rightarrow> string list \<Rightarrow> history \<Rightarrow> env_failure list \<times> string list \<times> history" where
  "cleanup_all drv wanted nets [] h = ([], [], h)"
| "cleanup_all drv wanted nets (env8 # envs) h =
     (case cleanup_env drv wanted nets env8 h of
        (errs, h1) \<Rightarrow>
          (case cleanup_all drv wanted nets envs h1 of
             (errs2, failed, h2) \<Rightarrow> (errs @ errs2, if errs \<noteq> [] then env8 # failed else failed, h2)))"

fun teardown_all ::
  "driver \<Rightarrow> string list \<Rightarrow> string list \<Rightarrow> history \<Rightarrow> env_failure list \<times> string list \<times> history" where
  "teardown_all drv [] torn h = ([], torn, h)"
| "teardown_all drv (env8 # envs) torn h =
     (if env8 \<in> set torn then teardown_all drv envs torn h
      else
        let h1 = h @ [RemoveEnv env8] in
        (case ans_remove_env drv h1 of
           Some e \<Rightarrow>
             (case teardown_all drv envs torn h1 of
                (errs, torn2, h2) \<Rightarrow> (\<lparr>ef_env8 = env8, ef_op = opTeardown, ef_err = e\<rparr> # errs, torn2, h2))
         | None \<Rightarrow> teardown_all drv envs (torn @ [env8]) h1))"

definition Reconcile ::
  "driver \<Rightarrow> desired_instance list \<Rightarrow> (string \<Rightarrow> secret_source) \<Rightarrow> string list \<Rightarrow> reconciler \<Rightarrow> history \<Rightarrow>
   report list \<times> env_failure list \<times> reconciler \<times> history" where
  "Reconcile drv desired src teardownEnvs r h =
     (let ordered = orderDesired desired;
          wanted = map containerName ordered;
          envs = remdups (map di_env8 ordered);
          nets = map di_project ordered;
          (reports, r1, h1) = ensure_all drv src ordered r h;
          live = map di_instance ordered;
          first = filter (\<lambda>(i, _). i \<in> set live) (firstRunning r1);
          (errs, failed, h2) = cleanup_all drv wanted nets (remdups (knownEnvs r1 @ envs)) h1;
          (errs2, torn, h3) = teardown_all drv teardownEnvs (tornDown r1) h2;
          torn2 = (if length torn > length teardownEnvs then filter (\<lambda>e. e \<in> set teardownEnvs) torn else torn)
      in (reports, errs @ errs2,
          r1\<lparr>firstRunning := first, knownEnvs := remdups (envs @ failed), tornDown := torn2\<rparr>, h3))"

section \<open>What is reserved on the node\<close>

fun desiredAllocations_loop :: "desired_instance list \<Rightarrow> string list \<Rightarrow> int \<times> int \<Rightarrow> int \<times> int" where
  "desiredAllocations_loop [] seen acc = acc"
| "desiredAllocations_loop (di # dis) seen acc =
     (if containerName di \<in> set seen then desiredAllocations_loop dis seen acc
      else desiredAllocations_loop dis (containerName di # seen)
        (i64 (fst acc + cpu_millis (svc_limits (di_service di))), i64 (snd acc + memory_bytes (svc_limits (di_service di)))))"

definition desiredAllocations :: "desired_instance list \<Rightarrow> int \<times> int" where
  "desiredAllocations desired = desiredAllocations_loop desired [] (0, 0)"

section \<open>Runs of authorized calls\<close>

text \<open>\<open>runs P h h'\<close>: the history grew from \<open>h\<close> to \<open>h'\<close> by calls each of which satisfied \<open>P\<close> at the history it was made at.\<close>

inductive runs :: "(history \<Rightarrow> drv_call \<Rightarrow> bool) \<Rightarrow> history \<Rightarrow> history \<Rightarrow> bool" for P where
  runs_refl: "runs P h h"
| runs_step: "runs P h h1 \<Longrightarrow> P h1 c \<Longrightarrow> runs P h (h1 @ [c])"

lemma runs_trans: "runs P h2 h3 \<Longrightarrow> runs P h1 h2 \<Longrightarrow> runs P h1 h3"
  by (induction rule: runs.induct) (auto intro: runs.intros)

lemma runs_one: "P h c \<Longrightarrow> runs P h (h @ [c])"
  by (rule runs_step [OF runs_refl])

lemma runs_weaken: "runs P h h' \<Longrightarrow> (\<And>h c. P h c \<Longrightarrow> Q h c) \<Longrightarrow> runs Q h h'"
  by (induction rule: runs.induct) (auto intro: runs.intros)

lemma runs_prefix: "runs P h h' \<Longrightarrow> \<exists>cs. h' = h @ cs"
  by (induction rule: runs.induct) auto

lemma runs_calls: "runs P h h' \<Longrightarrow> h' = h @ cs \<Longrightarrow> c \<in> set cs \<Longrightarrow> \<exists>hp. prefix h hp \<and> prefix hp h' \<and> P hp c"
proof (induction arbitrary: cs rule: runs.induct)
  case (runs_step h h1 c')
  then obtain cs1 where h1: "h1 = h @ cs1" using runs_prefix by blast
  with runs_step.prems have "c \<in> set cs1 \<or> c = c'" by auto
  then show ?case
  proof
    assume "c \<in> set cs1"
    with runs_step.IH [OF h1] show ?thesis by (meson prefix_order.trans prefixI)
  next
    assume "c = c'"
    with runs_step.hyps(2) h1 show ?thesis by (intro exI [of _ h1]) auto
  qed
qed simp

definition benign :: "drv_call \<Rightarrow> bool" where
  "benign c = (case c of EnsureContainer _ _ \<Rightarrow> False | StopRemove _ \<Rightarrow> False | RemoveEnv _ \<Rightarrow> False
     | PruneRevisionNetworks _ _ \<Rightarrow> False | _ \<Rightarrow> True)"

lemma benign_simps [simp]:
  "benign (EnsureImage i)" "benign (EnsureNetwork n l)" "benign (EnsureVolume v l)" "benign (AttachNetwork i n a)"
  "benign (InspectHealth i)" "benign (ListManaged e)" "\<not> benign (EnsureContainer cs s)" "\<not> benign (StopRemove i)"
  "\<not> benign (RemoveEnv e)" "\<not> benign (PruneRevisionNetworks e ns)"
  by (simp_all add: benign_def)

lemma ensure_volumes_runs:
  "(\<And>h c. benign c \<Longrightarrow> P h c) \<Longrightarrow> ensure_volumes drv env8 ms h = (e, h') \<Longrightarrow> runs P h h'"
proof (induction drv env8 ms h rule: ensure_volumes.induct)
  case (2 drv env8 m ms h)
  then show ?case by (auto simp: Let_def split: option.splits intro: runs_one runs_trans [OF _ runs_one])
qed (simp add: runs_refl)

lemma inspect_instance_runs:
  "(\<And>h c. benign c \<Longrightarrow> P h c) \<Longrightarrow> inspect_instance drv di en rep r h = (rep', r', h') \<Longrightarrow> runs P h h'"
  by (auto simp: inspect_instance_def Let_def split: sum.splits prod.splits intro: runs_one)

definition container_of :: "desired_instance \<Rightarrow> container_spec \<Rightarrow> bool" where
  "container_of di cs \<longleftrightarrow> (\<exists>img. cs = (containerSpec di (containerName di))\<lparr>con_image := img\<rparr>)"

lemma ensure_instance_runs:
  assumes benign: "\<And>h c. benign c \<Longrightarrow> P h c"
    and create: "\<And>h cs. container_of di cs \<Longrightarrow> P h (EnsureContainer cs src)"
    and run: "ensure_instance drv di (containerName di) src r h = (rep, r', h')"
  shows "runs P h h'"
proof -
  let ?h1 = "h @ [EnsureImage (svc_image (di_service di))]"
  let ?h2 = "?h1 @ [EnsureNetwork (di_project di) [(''cc.env'', di_env8 di)]]"
  have h1: "runs P h ?h1" by (intro runs_one benign) simp
  have h2: "runs P h ?h2" by (rule runs_step [OF h1 benign]) simp
  show ?thesis
  proof (cases "ans_image drv ?h1")
    case (Inl e)
    with run h1 show ?thesis by (simp add: ensure_instance_def Let_def)
  next
    case image: (Inr digest)
    let ?cs = "if digest \<noteq> [] then (containerSpec di (containerName di))\<lparr>con_image := digest\<rparr> else containerSpec di (containerName di)"
    have cs: "container_of di ?cs"
      by (cases "digest = []") (auto simp: container_of_def intro: exI [of _ "con_image (containerSpec di (containerName di))"])
    show ?thesis
    proof (cases "ans_network drv ?h2")
      case (Inl e)
      with image run h2 show ?thesis by (simp add: ensure_instance_def Let_def)
    next
      case net: (Inr nid)
      obtain e h3 where vols: "ensure_volumes drv (di_env8 di) (con_mounts ?cs) ?h2 = (e, h3)" by fastforce
      have h3: "runs P h h3" by (rule runs_trans [OF ensure_volumes_runs [OF benign vols] h2])
      let ?h4 = "h3 @ [EnsureContainer ?cs src]"
      have h4: "runs P h ?h4" by (rule runs_step [OF h3 create [OF cs]])
      have h5: "runs P h (?h4 @ [AttachNetwork i n a])" for i n a by (rule runs_step [OF h4 benign]) simp
      show ?thesis
        using run image net vols h3 h4 h5
        by (auto simp: ensure_instance_def Let_def split: option.splits sum.splits if_splits
            intro: runs_trans [OF inspect_instance_runs [OF benign]])
    qed
  qed
qed

lemma ensure_all_runs:
  assumes "\<And>h c. benign c \<Longrightarrow> P h c"
    and "\<And>di h cs. di \<in> set dis \<Longrightarrow> container_of di cs \<Longrightarrow> P h (EnsureContainer cs (src (di_env8 di)))"
    and "ensure_all drv src dis r h = (reps, r', h')"
  shows "runs P h h'"
  using assms(2-)
proof (induction dis arbitrary: r h reps)
  case (Cons di dis)
  obtain rep r1 h1 where one: "ensure_instance drv di (containerName di) (src (di_env8 di)) r h = (rep, r1, h1)"
    by (metis prod_cases3)
  with Cons.prems(2) obtain reps1 where rest: "ensure_all drv src dis r1 h1 = (reps1, r', h')" by (auto split: prod.splits)
  have "runs P h1 h'" by (rule Cons.IH [OF Cons.prems(1) rest]) simp_all
  moreover have "runs P h h1" by (rule ensure_instance_runs [OF assms(1) _ one]) (use Cons.prems(1) in auto)
  ultimately show ?case by (rule runs_trans)
qed (simp add: runs_refl)

lemma remove_orphans_runs:
  assumes "\<And>h m. m \<in> set ms \<Longrightarrow> mg_swappable m \<Longrightarrow> mg_name m \<notin> set wanted \<Longrightarrow> prefix h0 h \<Longrightarrow> P h (StopRemove (mg_id m))"
    and "prefix h0 h" "remove_orphans drv wanted env8 ms h = (errs, h')"
  shows "runs P h h'"
  using assms
proof (induction ms arbitrary: h errs)
  case (Cons m ms)
  show ?case
  proof (cases "mg_name m \<notin> set wanted \<and> mg_swappable m")
    case True
    let ?h1 = "h @ [StopRemove (mg_id m)]"
    from True Cons.prems(3) obtain errs2 where "remove_orphans drv wanted env8 ms ?h1 = (errs2, h')"
      by (auto simp: Let_def split: prod.splits)
    with Cons.prems(1,2) have "runs P ?h1 h'" by (intro Cons.IH) (auto simp: prefix_def)
    moreover have "runs P h ?h1" using True Cons.prems(1,2) by (intro runs_one) simp
    ultimately show ?thesis by (rule runs_trans)
  next
    case False
    with Cons.prems show ?thesis by (intro Cons.IH [of h errs]) auto
  qed
qed (simp add: runs_refl)

text \<open>The authority of a tick over the node.\<close>

definition may_remove :: "driver \<Rightarrow> desired_instance list \<Rightarrow> string list \<Rightarrow> history \<Rightarrow> string \<Rightarrow> bool" where
  "may_remove drv desired known h i \<longleftrightarrow>
     (\<exists>env8 hp ms m. prefix (hp @ [ListManaged env8]) h \<and> ans_managed drv (hp @ [ListManaged env8]) = Inr ms \<and>
        (env8 \<in> set known \<or> env8 \<in> di_env8 ` set desired) \<and>
        m \<in> set ms \<and> mg_id m = i \<and> mg_swappable m \<and> mg_name m \<notin> containerName ` set desired)"

definition may_create :: "desired_instance list \<Rightarrow> (string \<Rightarrow> secret_source) \<Rightarrow> container_spec \<Rightarrow> secret_source \<Rightarrow> bool" where
  "may_create desired src cs s \<longleftrightarrow>
     (\<exists>di \<in> set desired. container_of di cs \<and> s = src (di_env8 di) \<and> map_of (con_labels cs) ''cc.env'' = Some (di_env8 di) \<and>
        (\<forall>m \<in> set (con_mounts cs). prefix (''cc-'' @ di_env8 di @ ''-'') (vm_volume m)))"

definition may_call ::
  "driver \<Rightarrow> desired_instance list \<Rightarrow> (string \<Rightarrow> secret_source) \<Rightarrow> string list \<Rightarrow> reconciler \<Rightarrow> history \<Rightarrow> drv_call \<Rightarrow> bool" where
  "may_call drv desired src teardownEnvs r h c =
     (case c of
        StopRemove i \<Rightarrow> may_remove drv desired (knownEnvs r) h i
      | RemoveEnv e \<Rightarrow> e \<in> set teardownEnvs \<and> e \<notin> set (tornDown r)
      | EnsureContainer cs s \<Rightarrow> may_create desired src cs s
      | PruneRevisionNetworks e ns \<Rightarrow> (e \<in> set (knownEnvs r) \<or> e \<in> di_env8 ` set desired) \<and> set ns = di_project ` set desired
      | _ \<Rightarrow> True)"

lemma may_call_simps [simp]:
  "may_call drv desired src td r h (StopRemove i) \<longleftrightarrow> may_remove drv desired (knownEnvs r) h i"
  "may_call drv desired src td r h (RemoveEnv e) \<longleftrightarrow> e \<in> set td \<and> e \<notin> set (tornDown r)"
  "may_call drv desired src td r h (EnsureContainer cs s) \<longleftrightarrow> may_create desired src cs s"
  "may_call drv desired src td r h (PruneRevisionNetworks e ns) \<longleftrightarrow>
     (e \<in> set (knownEnvs r) \<or> e \<in> di_env8 ` set desired) \<and> set ns = di_project ` set desired"
  by (simp_all add: may_call_def)

lemma benign_may_call: "benign c \<Longrightarrow> may_call drv desired src td r h c"
  by (cases c) (simp_all add: may_call_def)

lemma container_may_create: "di \<in> set desired \<Longrightarrow> container_of di cs \<Longrightarrow> may_create desired src cs (src (di_env8 di))"
  unfolding may_create_def
  by (intro bexI [of _ di]) (auto simp: container_of_def containerSpec_def Let_def)

lemma cleanup_env_runs:
  assumes "set wanted = containerName ` set desired" "set nets = di_project ` set desired"
    and env: "env8 \<in> set (knownEnvs r) \<or> env8 \<in> di_env8 ` set desired"
    and "cleanup_env drv wanted nets env8 h = (errs, h')"
  shows "runs (may_call drv desired src td r) h h'"
proof -
  let ?P = "may_call drv desired src td r" and ?h1 = "h @ [ListManaged env8]"
  have h1: "runs ?P h ?h1" by (intro runs_one benign_may_call) simp
  obtain errs1 h2 where mid: "(case ans_managed drv ?h1 of Inl e \<Rightarrow> ([cleanup_failure env8 (''list managed containers: '' @ e)], ?h1)
      | Inr ms \<Rightarrow> remove_orphans drv wanted env8 ms ?h1) = (errs1, h2)" by fastforce
  have "runs ?P ?h1 h2"
  proof (cases "ans_managed drv ?h1")
    case (Inl e)
    with mid show ?thesis by (simp add: runs_refl)
  next
    case (Inr ms)
    then have run: "remove_orphans drv wanted env8 ms ?h1 = (errs1, h2)" using mid by simp
    show ?thesis
    proof (rule remove_orphans_runs [OF _ _ run])
      fix h3 m assume "m \<in> set ms" "mg_swappable m" "mg_name m \<notin> set wanted" "prefix ?h1 h3"
      then show "?P h3 (StopRemove (mg_id m))" using Inr env assms(1) by (auto simp: may_remove_def)
    qed simp
  qed
  then have "runs ?P h h2" using h1 by (rule runs_trans)
  then have "runs ?P h (h2 @ [PruneRevisionNetworks env8 nets])" by (rule runs_step) (use env assms(2) in simp)
  then show ?thesis using assms(4) mid by (simp add: cleanup_env_def Let_def)
qed

lemma cleanup_all_runs:
  assumes "set wanted = containerName ` set desired" "set nets = di_project ` set desired"
    and "set envs \<subseteq> set (knownEnvs r) \<union> di_env8 ` set desired" "cleanup_all drv wanted nets envs h = (errs, failed, h')"
  shows "runs (may_call drv desired src td r) h h'"
  using assms(3,4)
proof (induction envs arbitrary: h errs failed)
  case (Cons env8 envs)
  obtain errs1 h1 where one: "cleanup_env drv wanted nets env8 h = (errs1, h1)" by fastforce
  with Cons.prems(2) obtain errs2 failed2 where rest: "cleanup_all drv wanted nets envs h1 = (errs2, failed2, h')"
    by (auto split: prod.splits)
  have "runs (may_call drv desired src td r) h1 h'" by (rule Cons.IH [OF _ rest]) (use Cons.prems(1) in auto)
  moreover have "runs (may_call drv desired src td r) h h1"
    by (rule cleanup_env_runs [OF assms(1,2) _ one]) (use Cons.prems(1) in auto)
  ultimately show ?case by (rule runs_trans)
qed (simp add: runs_refl)

lemma teardown_all_runs:
  "set envs \<subseteq> set td \<Longrightarrow> set (tornDown r) \<subseteq> set torn \<Longrightarrow> teardown_all drv envs torn h = (errs, torn', h') \<Longrightarrow>
   runs (may_call drv desired src td r) h h'"
proof (induction drv envs torn h arbitrary: errs rule: teardown_all.induct)
  case (2 drv env8 envs torn h)
  show ?case
  proof (cases "env8 \<in> set torn")
    case True
    with 2 show ?thesis by simp
  next
    case False
    let ?h1 = "h @ [RemoveEnv env8]"
    have one: "runs (may_call drv desired src td r) h ?h1" using False 2(4,5) by (intro runs_one) auto
    show ?thesis
    proof (cases "ans_remove_env drv ?h1")
      case None
      then have "runs (may_call drv desired src td r) ?h1 h'" using False 2(4,5,6) by (intro 2(2) [OF False refl None]) auto
      then show ?thesis using one by (rule runs_trans)
    next
      case (Some e)
      with 2(6) False obtain errs2 where "teardown_all drv envs torn ?h1 = (errs2, torn', h')" by (auto simp: Let_def split: prod.splits)
      from 2(3) [OF False refl Some _ 2(5) this] 2(4) have "runs (may_call drv desired src td r) ?h1 h'" by simp
      then show ?thesis using one by (rule runs_trans)
    qed
  qed
qed (simp add: runs_refl)

lemma reconcile_unfold:
  assumes "Reconcile drv desired src td r h = (reps, errs, r', h')"
  obtains r1 h1 errs1 failed h2 errs2 torn where
    "ensure_all drv src (orderDesired desired) r h = (reps, r1, h1)"
    "cleanup_all drv (map containerName (orderDesired desired)) (map di_project (orderDesired desired))
       (remdups (knownEnvs r1 @ remdups (map di_env8 (orderDesired desired)))) h1 = (errs1, failed, h2)"
    "teardown_all drv td (tornDown r1) h2 = (errs2, torn, h')" "errs = errs1 @ errs2"
    "r' = r1\<lparr>firstRunning := filter (\<lambda>(i, _). i \<in> set (map di_instance (orderDesired desired))) (firstRunning r1),
             knownEnvs := remdups (remdups (map di_env8 (orderDesired desired)) @ failed),
             tornDown := if length torn > length td then filter (\<lambda>e. e \<in> set td) torn else torn\<rparr>"
  using assms unfolding Reconcile_def Let_def by (auto split: prod.splits)

text \<open>Starting instances changes nothing of the reconciler but the times of first observation.\<close>

lemma observe_frame: "observe n di he r = (x, r') \<Longrightarrow> knownEnvs r' = knownEnvs r \<and> tornDown r' = tornDown r \<and> debounce r' = debounce r"
  by (auto simp: observe_def Let_def split: if_splits)

lemma inspect_frame:
  "inspect_instance drv di en rep r h = (rep', r', h') \<Longrightarrow>
   knownEnvs r' = knownEnvs r \<and> tornDown r' = tornDown r \<and> debounce r' = debounce r \<and> rep_instance rep' = rep_instance rep"
  by (auto simp: inspect_instance_def failed_report_def Let_def split: sum.splits prod.splits dest: observe_frame)

lemma ensure_frame:
  "ensure_instance drv di name s r h = (rep, r', h') \<Longrightarrow>
   knownEnvs r' = knownEnvs r \<and> tornDown r' = tornDown r \<and> debounce r' = debounce r \<and> rep_instance rep = di_instance di"
  by (auto simp: ensure_instance_def failed_report_def zero_report_def Let_def split: sum.splits prod.splits option.splits if_splits
      dest!: inspect_frame)

lemma ensure_all_frame:
  "ensure_all drv src dis r h = (reps, r', h') \<Longrightarrow>
   knownEnvs r' = knownEnvs r \<and> tornDown r' = tornDown r \<and> debounce r' = debounce r \<and> map rep_instance reps = map di_instance dis"
proof (induction dis arbitrary: r h reps)
  case (Cons di dis)
  obtain rep r1 h1 where one: "ensure_instance drv di (containerName di) (src (di_env8 di)) r h = (rep, r1, h1)"
    by (metis prod_cases3)
  with Cons.prems obtain reps1 where "ensure_all drv src dis r1 h1 = (reps1, r', h')" "reps = rep # reps1" by (auto split: prod.splits)
  with Cons.IH ensure_frame [OF one] show ?case by fastforce
qed simp

text \<open>
  C5: what a tick may do to a node, for every behaviour of Docker. It removes a single container only if
  Docker listed it as managed for an environment of this or the previous tick, it is swappable, and no
  desired instance has its name; it destroys a whole environment only if the control plane's
  tombstones name it and it has not been destroyed before; it creates only containers of desired
  instances, labelled with their environment, mounting only volumes named after it and given only
  its secrets; and it prunes networks with exactly the desired projects to keep. Every desired
  instance is reported once.
\<close>

theorem agent_calls_are_authorized:
  assumes "distinct (map (\<lambda>di. (group_key di, di_name di)) desired)"
    and "Reconcile drv desired src td r h = (reps, errs, r', h')"
  shows "runs (may_call drv desired src td r) h h' \<and> mset (map rep_instance reps) = mset (map di_instance desired)"
proof -
  note perm = order_perm [OF assms(1)]
  then have same: "set (orderDesired desired) = set desired" by (rule mset_eq_setD)
  from assms(2) show ?thesis
  proof (cases rule: reconcile_unfold)
    case (1 r1 h1 errs1 failed h2 errs2 torn)
    note frame = ensure_all_frame [OF 1(1)]
    have "runs (may_call drv desired src td r) h h1"
      by (rule ensure_all_runs [OF benign_may_call _ 1(1)]) (simp_all add: container_may_create same)
    moreover have "runs (may_call drv desired src td r) h1 h2"
      by (rule cleanup_all_runs [OF _ _ _ 1(2)]) (use same frame in auto)
    moreover have "runs (may_call drv desired src td r) h2 h'"
      by (rule teardown_all_runs [OF _ _ 1(3)]) (use frame in auto)
    moreover have "mset (map rep_instance reps) = mset (map di_instance desired)"
      using frame perm by (simp add: mset_map)
    ultimately show ?thesis by (blast intro: runs_trans)
  qed
qed

section \<open>Teardown is retried until it is done\<close>

definition removed_envs :: "history \<Rightarrow> string list" where
  "removed_envs cs = List.map_filter (\<lambda>c. case c of RemoveEnv e \<Rightarrow> Some e | _ \<Rightarrow> None) cs"

lemma removed_envs_append [simp]: "removed_envs (xs @ ys) = removed_envs xs @ removed_envs ys"
  by (simp add: removed_envs_def List.map_filter_def)

lemma removed_envs_map [simp]: "removed_envs (map RemoveEnv es) = es"
  by (simp add: removed_envs_def List.map_filter_def comp_def)

lemma no_tombstone_no_removal:
  assumes "runs (may_call drv desired src [] r) h h'"
  shows "\<exists>cs. h' = h @ cs \<and> removed_envs cs = []"
proof -
  from runs_prefix [OF assms] obtain cs where cs: "h' = h @ cs" by blast
  have "\<forall>c \<in> set cs. \<forall>e. c \<noteq> RemoveEnv e"
  proof (intro ballI allI notI)
    fix c e assume "c \<in> set cs" "c = RemoveEnv e"
    with runs_calls [OF assms cs] show False by fastforce
  qed
  then have "removed_envs cs = []"
    by (auto simp: removed_envs_def List.map_filter_def filter_empty_conv split: drv_call.splits)
  with cs show ?thesis by blast
qed

lemma teardown_all_effect:
  assumes "distinct envs" "teardown_all drv envs torn h = (errs, torn', h')"
  shows "h' = h @ map RemoveEnv (filter (\<lambda>e. e \<notin> set torn) envs) \<and>
    set torn' = set torn \<union> (set envs - ef_env8 ` set errs) \<and>
    (\<forall>f \<in> set errs. ef_op f = opTeardown \<and> ef_env8 f \<in> set envs - set torn) \<and> (distinct torn \<longrightarrow> distinct torn')"
  using assms
proof (induction drv envs torn h arbitrary: errs rule: teardown_all.induct)
  case (2 drv env8 envs torn h)
  from 2(4) have d: "env8 \<notin> set envs" "distinct envs" by auto
  show ?case
  proof (cases "env8 \<in> set torn")
    case True
    with 2(1) [OF True d(2)] 2(5) show ?thesis by auto
  next
    case False
    let ?h1 = "h @ [RemoveEnv env8]"
    show ?thesis
    proof (cases "ans_remove_env drv ?h1")
      case None
      with 2(5) False have run: "teardown_all drv envs (torn @ [env8]) ?h1 = (errs, torn', h')" by (simp add: Let_def)
      have "filter (\<lambda>e. e \<notin> set (torn @ [env8])) envs = filter (\<lambda>e. e \<notin> set torn) envs"
        using d(1) by (auto intro!: filter_cong)
      with 2(2) [OF False refl None d(2) run] False d(1) show ?thesis by auto
    next
      case (Some e)
      with 2(5) False obtain errs2 where run: "teardown_all drv envs torn ?h1 = (errs2, torn', h')"
        "errs = \<lparr>ef_env8 = env8, ef_op = opTeardown, ef_err = e\<rparr> # errs2" by (auto simp: Let_def split: prod.splits)
      from 2(3) [OF False refl Some d(2) run(1)] False d(1) run(2) show ?thesis by auto
    qed
  qed
qed auto

lemma cleanup_ops: "cleanup_env drv wanted nets env8 h = (errs, h') \<Longrightarrow> f \<in> set errs \<Longrightarrow> ef_op f = opNetworkCleanup"
proof -
  have orphans: "f \<in> set (fst (remove_orphans drv wanted env8 ms h1)) \<Longrightarrow> ef_op f = opNetworkCleanup" for ms h1
    by (induction drv wanted env8 ms h1 rule: remove_orphans.induct)
      (auto simp: cleanup_failure_def Let_def split: option.splits prod.splits if_splits)
  assume run: "cleanup_env drv wanted nets env8 h = (errs, h')" "f \<in> set errs"
  show ?thesis
  proof (cases "ans_managed drv (h @ [ListManaged env8])")
    case (Inl e)
    with run show ?thesis by (auto simp: cleanup_env_def cleanup_failure_def Let_def split: option.splits)
  next
    case (Inr ms)
    obtain errs1 h2 where rm: "remove_orphans drv wanted env8 ms (h @ [ListManaged env8]) = (errs1, h2)" by fastforce
    with Inr run have "f \<in> set errs1 \<or> (\<exists>e. f = cleanup_failure env8 e)"
      by (auto simp: cleanup_env_def Let_def split: option.splits)
    with orphans [of ms "h @ [ListManaged env8]"] rm show ?thesis by (auto simp: cleanup_failure_def)
  qed
qed

lemma cleanup_all_ops: "cleanup_all drv wanted nets envs h = (errs, failed, h') \<Longrightarrow> f \<in> set errs \<Longrightarrow> ef_op f = opNetworkCleanup"
  by (induction drv wanted nets envs h arbitrary: errs failed rule: cleanup_all.induct)
    (auto split: prod.splits dest: cleanup_ops)


section \<open>A container without a probe must stay up\<close>

lemma observe_others: "observe n di he r = (x, r') \<Longrightarrow> j \<noteq> di_instance di \<Longrightarrow> map_of (firstRunning r') j = map_of (firstRunning r) j"
  by (auto simp: observe_def Let_def split: if_splits)

lemma ensure_others:
  "ensure_instance drv di name s r h = (rep, r', h') \<Longrightarrow> j \<noteq> di_instance di \<Longrightarrow> map_of (firstRunning r') j = map_of (firstRunning r) j"
  by (auto simp: ensure_instance_def inspect_instance_def Let_def split: sum.splits prod.splits option.splits if_splits
      dest: observe_others)

lemma observe_running:
  assumes "observe n di he r = ((InstanceRunning, st), r')" "\<not> has_healthcheck di" "0 < debounce r"
  shows "\<exists>t. map_of (firstRunning r) (di_instance di) = Some t \<and> debounce r \<le> n - t"
  using assms by (cases "map_of (firstRunning r) (di_instance di)") (auto simp: observe_def mapHealth_def Let_def split: if_splits)

lemma inspect_running:
  assumes "inspect_instance drv di en rep0 r h = (rep, r', h')" "rep_state rep = InstanceRunning" "\<not> has_healthcheck di" "0 < debounce r"
  shows "\<exists>t. map_of (firstRunning r) (di_instance di) = Some t \<and> debounce r \<le> drv_clock drv h' - t"
proof -
  let ?h1 = "h @ [InspectHealth (ens_id en)]"
  obtain he where he: "ans_health drv ?h1 = Inr he"
    using assms(1,2) by (cases "ans_health drv ?h1") (auto simp: inspect_instance_def failed_report_def Let_def)
  obtain x st r2 where ob: "observe (drv_clock drv ?h1) di he r = ((x, st), r2)" by (metis prod_cases3 surj_pair)
  with he assms(1,2) have "x = InstanceRunning" "h' = ?h1" by (auto simp: inspect_instance_def Let_def)
  with observe_running [OF ob [unfolded this(1)] assms(3,4)] show ?thesis by simp
qed

lemma ensure_running:
  assumes "ensure_instance drv di name s r h = (rep, r', h')" "rep_state rep = InstanceRunning" "\<not> has_healthcheck di" "0 < debounce r"
  shows "\<exists>t. map_of (firstRunning r) (di_instance di) = Some t \<and> debounce r \<le> drv_clock drv h' - t"
  using assms inspect_running [OF _ assms(2-4)]
  by (auto simp: ensure_instance_def failed_report_def Let_def split: sum.splits prod.splits option.splits if_splits)

lemma ensure_all_running:
  assumes "ensure_all drv src dis r h = (reps, r', h')" "distinct (map di_instance dis)" "0 < debounce r"
    and "di \<in> set dis" "rep \<in> set reps" "rep_instance rep = di_instance di" "rep_state rep = InstanceRunning" "\<not> has_healthcheck di"
  shows "\<exists>t hp. map_of (firstRunning r) (di_instance di) = Some t \<and> prefix hp h' \<and> debounce r \<le> drv_clock drv hp - t"
  using assms(1-5)
proof (induction dis arbitrary: r h reps)
  case (Cons d dis)
  obtain rep1 r1 h1 where one: "ensure_instance drv d (containerName d) (src (di_env8 d)) r h = (rep1, r1, h1)"
    by (metis prod_cases3)
  with Cons.prems(1) obtain reps1 where rest: "ensure_all drv src dis r1 h1 = (reps1, r', h')" "reps = rep1 # reps1"
    by (auto split: prod.splits)
  note f1 = ensure_frame [OF one] and f2 = ensure_all_frame [OF rest(1)]
  have ids: "rep_instance ` set reps1 = di_instance ` set dis" using f2 by (metis list.set_map)
  show ?case
  proof (cases "di = d")
    case True
    have "rep_instance rep \<notin> rep_instance ` set reps1" using True Cons.prems(2) ids assms(6) by auto
    with Cons.prems(5) rest(2) have "rep = rep1" by auto
    moreover have "prefix h1 h'" using runs_prefix [OF ensure_all_runs [OF _ _ rest(1), of "\<lambda>_ _. True"]] by auto
    ultimately show ?thesis using ensure_running [OF one _ _ Cons.prems(3)] assms(7,8) True by blast
  next
    case False
    with Cons.prems(4) have di: "di \<in> set dis" by simp
    then have other: "di_instance di \<noteq> di_instance d" using Cons.prems(2) by (metis distinct.simps(2) imageI list.simps(9) set_map)
    have rep: "rep \<in> set reps1" using Cons.prems(5) rest(2) f1 assms(6) other by auto
    have "0 < debounce r1" using Cons.prems(3) f1 by simp
    from Cons.IH [OF rest(1) _ this di rep] Cons.prems(2) ensure_others [OF one other] f1 show ?thesis by auto
  qed
qed simp

text \<open>
  A container without a health check is not taken for healthy on sight. A tick that reports its
  instance as running has found, in what earlier ticks recorded, a first observation of it running
  at least the debounce interval before a reading of this tick's clock; and afterwards only desired
  instances have such records.
\<close>

theorem unprobed_containers_are_debounced:
  assumes "distinct (map (\<lambda>di. (group_key di, di_name di)) desired)" "distinct (map di_instance desired)"
    and "Reconcile drv desired src td r h = (reps, errs, r', h')" "0 < debounce r"
    and "di \<in> set desired" "\<not> has_healthcheck di"
    and "rep \<in> set reps" "rep_instance rep = di_instance di" "rep_state rep = InstanceRunning"
  shows "(\<exists>t hp. map_of (firstRunning r) (di_instance di) = Some t \<and> prefix hp h' \<and> debounce r \<le> drv_clock drv hp - t) \<and>
    fst ` set (firstRunning r') \<subseteq> di_instance ` set desired"
  using assms(3)
proof (cases rule: reconcile_unfold)
  case (1 r1 h1 errs1 failed h2 errs2 torn)
  note perm = order_perm [OF assms(1)]
  have "mset (map di_instance (orderDesired desired)) = mset (map di_instance desired)" using perm by (simp add: mset_map)
  then have d: "distinct (map di_instance (orderDesired desired))" using assms(2) mset_eq_imp_distinct_iff by blast
  have same: "set (orderDesired desired) = set desired" using perm by (rule mset_eq_setD)
  with assms(5) have "di \<in> set (orderDesired desired)" by simp
  from ensure_all_running [OF 1(1) d assms(4) this assms(7,8,9,6)] obtain t hp where
    t: "map_of (firstRunning r) (di_instance di) = Some t" "prefix hp h1" "debounce r \<le> drv_clock drv hp - t" by blast
  have "runs (may_call drv (orderDesired desired) src td r1) h1 h2" by (rule cleanup_all_runs [OF _ _ _ 1(2)]) auto
  moreover have "runs (may_call drv (orderDesired desired) src td r1) h2 h'" by (rule teardown_all_runs [OF _ _ 1(3)]) auto
  ultimately have "prefix h1 h'" using runs_prefix runs_trans by (metis prefixI)
  with t have "prefix hp h'" by (meson prefix_order.trans)
  with t same show ?thesis by (auto simp: 1(5))
qed

section \<open>An example tick\<close>

definition ex_driver :: driver where
  "ex_driver = \<lparr>ans_image = (\<lambda>_. Inr []), ans_network = (\<lambda>_. Inr ''net''), ans_volume = (\<lambda>_. None),
     ans_container = (\<lambda>_. Inr \<lparr>ens_id = ''c1'', ens_created = False, ens_recreated = False\<rparr>), ans_attach = (\<lambda>_. None),
     ans_health = (\<lambda>_. Inr \<lparr>h_running = True, h_status = [], h_exit_code = 0, h_restart_count = 0, h_published_port = 0\<rparr>),
     ans_stop = (\<lambda>_. None),
     ans_managed = (\<lambda>_. Inr [\<lparr>mg_id = ''old'', mg_name = ''cc-env00001-r0-green-web'', mg_service = ''web'', mg_swappable = True\<rparr>,
                              \<lparr>mg_id = ''vol'', mg_name = ''cc-env00001-pinned-gone'', mg_service = ''gone'', mg_swappable = False\<rparr>]),
     ans_prune = (\<lambda>_. None), ans_remove_env = (\<lambda>h. if length h > 16 then Some ''busy'' else None), drv_clock = (\<lambda>_. 100)\<rparr>"

definition ex_reconciler :: reconciler where
  "ex_reconciler = NewReconciler\<lparr>firstRunning := [(''web'', 90), (''db'', 98)], tornDown := [''env00009'']\<rparr>"

definition ex_tick :: "report list \<times> env_failure list \<times> reconciler \<times> history" where
  "ex_tick = Reconcile ex_driver [ex_desired ''web'', ex_desired ''db''] (\<lambda>_. None) [''env00009'', ''env00002'', ''env00003''] ex_reconciler []"

definition stopped :: "history \<Rightarrow> string list" where
  "stopped h = List.map_filter (\<lambda>c. case c of StopRemove i \<Rightarrow> Some i | _ \<Rightarrow> None) h"

lemma ex_tick_split: obtains reps errs r' h' where "ex_tick = (reps, errs, r', h')"
  by (metis prod_cases4)

lemma ex_desired_distinct:
  "distinct (map (\<lambda>di. (group_key di, di_name di)) [ex_desired ''web'', ex_desired ''db''])"
  "distinct (map di_instance [ex_desired ''web'', ex_desired ''db''])"
  by (simp_all add: ex_desired_def)

theorem agent_calls_are_authorized_witness:
  "runs (may_call ex_driver [ex_desired ''web'', ex_desired ''db''] (\<lambda>_. None) [''env00009'', ''env00002'', ''env00003''] ex_reconciler)
     [] (snd (snd (snd ex_tick))) \<and> stopped (snd (snd (snd ex_tick))) = [''old'']"
proof
  obtain reps errs r' h' where t: "ex_tick = (reps, errs, r', h')" by (rule ex_tick_split)
  from agent_calls_are_authorized [OF ex_desired_distinct(1) t [unfolded ex_tick_def]]
  show "runs (may_call ex_driver [ex_desired ''web'', ex_desired ''db''] (\<lambda>_. None) [''env00009'', ''env00002'', ''env00003''] ex_reconciler)
     [] (snd (snd (snd ex_tick)))" by (simp add: t)
  show "stopped (snd (snd (snd ex_tick))) = [''old'']" by code_simp
qed


theorem unprobed_containers_are_debounced_witness:
  "map rep_state (fst ex_tick) = [InstanceStarting, InstanceRunning] \<and>
   (\<exists>t hp. map_of (firstRunning ex_reconciler) ''web'' = Some t \<and> debounce ex_reconciler \<le> drv_clock ex_driver hp - t)"
proof
  obtain reps errs r' h' where t: "ex_tick = (reps, errs, r', h')" by (rule ex_tick_split)
  have states: "map (\<lambda>rep. (rep_instance rep, rep_state rep)) (fst ex_tick) = [(''db'', InstanceStarting), (''web'', InstanceRunning)]"
    by code_simp
  then show "map rep_state (fst ex_tick) = [InstanceStarting, InstanceRunning]" by auto
  from states have "map (\<lambda>rep. (rep_instance rep, rep_state rep)) reps = [(''db'', InstanceStarting), (''web'', InstanceRunning)]" by (simp add: t)
  then have "(''web'', InstanceRunning) \<in> set (map (\<lambda>rep. (rep_instance rep, rep_state rep)) reps)" by (simp only: list.set insert_iff) simp
  then obtain rep where rep: "rep \<in> set reps" "rep_instance rep = ''web''" "rep_state rep = InstanceRunning" by auto
  have web: "di_instance (ex_desired ''web'') = ''web''" "\<not> has_healthcheck (ex_desired ''web'')" "0 < debounce ex_reconciler"
    by code_simp+
  from unprobed_containers_are_debounced [OF ex_desired_distinct t [unfolded ex_tick_def] web(3) _ web(2) rep(1) _ rep(3)] rep(2) web(1)
  show "\<exists>t hp. map_of (firstRunning ex_reconciler) ''web'' = Some t \<and> debounce ex_reconciler \<le> drv_clock ex_driver hp - t" by auto
qed

section \<open>The turns of a tick\<close>

text \<open>The containers the driver was asked to make sure of, in the order of the calls.\<close>

definition container_calls :: "drv_call list \<Rightarrow> (container_spec \<times> secret_source) list" where
  "container_calls cs = List.map_filter (\<lambda>c. case c of EnsureContainer x y \<Rightarrow> Some (x, y) | _ \<Rightarrow> None) cs"

lemma container_calls_append [simp]: "container_calls (xs @ ys) = container_calls xs @ container_calls ys"
  by (simp add: container_calls_def List.map_filter_def)

lemma container_calls_Nil [simp]: "container_calls [] = []"
  by (simp add: container_calls_def List.map_filter_def)

lemma container_calls_Cons:
  "container_calls (c # cs) = (case c of EnsureContainer x y \<Rightarrow> [(x, y)] | _ \<Rightarrow> []) @ container_calls cs"
  by (simp add: container_calls_def List.map_filter_def split: drv_call.split)

text \<open>
  The turn of one instance, begun at history \<open>h\<close>: its image is asked for first; its own container, with its
  own secrets, is asked for exactly once; or the driver refused the image, the network or a volume, and
  the instance is reported failed with that refusal.
\<close>

definition turn :: "driver \<Rightarrow> (string \<Rightarrow> secret_source) \<Rightarrow> history \<Rightarrow> desired_instance \<Rightarrow> report \<Rightarrow> drv_call list \<Rightarrow> bool" where
  "turn drv src h di rep calls \<longleftrightarrow>
     rep_instance rep = di_instance di \<and> (\<exists>cs. calls = EnsureImage (svc_image (di_service di)) # cs) \<and>
     ((\<exists>img. container_calls calls = [((containerSpec di (containerName di))\<lparr>con_image := img\<rparr>, src (di_env8 di))]) \<or>
      container_calls calls = [] \<and> rep_state rep = InstanceFailed \<and>
        (ans_image drv (h @ calls) = Inl (rep_error rep) \<or> ans_network drv (h @ calls) = Inl (rep_error rep) \<or>
         ans_volume drv (h @ calls) = Some (rep_error rep)))"

fun turns :: "driver \<Rightarrow> (string \<Rightarrow> secret_source) \<Rightarrow> history \<Rightarrow> (desired_instance \<times> report \<times> drv_call list) list \<Rightarrow> bool" where
  "turns drv src h [] = True"
| "turns drv src h ((di, rep, calls) # ts) \<longleftrightarrow> turn drv src h di rep calls \<and> turns drv src (h @ calls) ts"

lemma ensure_volumes_calls:
  "ensure_volumes drv env8 ms h = (x, h') \<Longrightarrow>
   \<exists>cs. h' = h @ cs \<and> container_calls cs = [] \<and> (\<forall>e. x = Some e \<longrightarrow> ans_volume drv h' = Some e)"
proof (induction drv env8 ms h arbitrary: x rule: ensure_volumes.induct)
  case (2 drv env8 m ms h)
  let ?c = "EnsureVolume (vm_volume m) [(''cc.env'', env8)]"
  show ?case
  proof (cases "ans_volume drv (h @ [?c])")
    case None
    with 2(2) have "ensure_volumes drv env8 ms (h @ [?c]) = (x, h')" by (simp add: Let_def)
    from 2(1) [OF refl None this] obtain cs where "h' = (h @ [?c]) @ cs" "container_calls cs = []"
      "\<forall>e. x = Some e \<longrightarrow> ans_volume drv h' = Some e" by blast
    then show ?thesis by (intro exI [of _ "?c # cs"]) (simp add: container_calls_Cons)
  next
    case (Some e)
    with 2(2) show ?thesis by (auto simp: Let_def container_calls_Cons)
  qed
qed simp

lemma inspect_calls:
  "inspect_instance drv di en rep r h = (rep', r', h') \<Longrightarrow> h' = h @ [InspectHealth (ens_id en)] \<and> rep_instance rep' = rep_instance rep"
  by (auto simp: inspect_instance_def failed_report_def Let_def split: sum.splits prod.splits)

text \<open>Once the container has been asked for, whatever follows asks for no other one.\<close>

lemma ensure_turn:
  assumes "ensure_instance drv di (containerName di) (src (di_env8 di)) r h = (rep, r', h')"
  shows "\<exists>calls. h' = h @ calls \<and> turn drv src h di rep calls"
proof -
  let ?img = "EnsureImage (svc_image (di_service di))" and ?net = "EnsureNetwork (di_project di) [(''cc.env'', di_env8 di)]"
  let ?rep = "zero_report (di_instance di)"
  note run = assms [unfolded ensure_instance_def Let_def]
  show ?thesis
  proof (cases "ans_image drv (h @ [?img])")
    case (Inl e)
    with run show ?thesis by (intro exI [of _ "[?img]"]) (auto simp: turn_def failed_report_def zero_report_def container_calls_Cons)
  next
    case image: (Inr digest)
    show ?thesis
    proof (cases "ans_network drv ((h @ [?img]) @ [?net])")
      case (Inl e)
      with run image show ?thesis
        by (intro exI [of _ "[?img, ?net]"]) (auto simp: turn_def failed_report_def zero_report_def container_calls_Cons)
    next
      case net: (Inr u)
      define cs where "cs = (if digest \<noteq> [] then (containerSpec di (containerName di))\<lparr>con_image := digest\<rparr> else containerSpec di (containerName di))"
      have own: "\<exists>img. cs = (containerSpec di (containerName di))\<lparr>con_image := img\<rparr>"
        by (cases "digest = []") (auto simp: cs_def intro: exI [of _ "con_image (containerSpec di (containerName di))"])
      obtain x h3 where vol: "ensure_volumes drv (di_env8 di) (con_mounts cs) ((h @ [?img]) @ [?net]) = (x, h3)" by fastforce
      from ensure_volumes_calls [OF vol] obtain vs where h3: "h3 = h @ [?img, ?net] @ vs" "container_calls vs = []"
        and err: "\<forall>e. x = Some e \<longrightarrow> ans_volume drv h3 = Some e" by auto
      note run3 = run [unfolded image net sum.case, folded cs_def, unfolded vol prod.case]
      show ?thesis
      proof (cases x)
        case (Some e)
        with run3 err h3 show ?thesis
          by (intro exI [of _ "[?img, ?net] @ vs"]) (auto simp: turn_def failed_report_def zero_report_def container_calls_Cons)
      next
        case None
        let ?c = "EnsureContainer cs (src (di_env8 di))"
        have "\<exists>zs. h' = h3 @ [?c] @ zs \<and> container_calls zs = [] \<and> rep_instance rep = di_instance di"
          using run3 None
          by (auto simp: failed_report_def zero_report_def container_calls_Cons split: sum.splits if_splits option.splits dest!: inspect_calls)
        with own h3 show ?thesis by (force simp: turn_def container_calls_Cons)
      qed
    qed
  qed
qed

lemma ensure_all_turns:
  "ensure_all drv src dis r h = (reps, r', h') \<Longrightarrow>
   \<exists>ts. map fst ts = dis \<and> map (\<lambda>t. fst (snd t)) ts = reps \<and> h' = h @ concat (map (\<lambda>t. snd (snd t)) ts) \<and> turns drv src h ts"
proof (induction dis arbitrary: r h reps)
  case (Cons di dis)
  obtain rep r1 h1 where one: "ensure_instance drv di (containerName di) (src (di_env8 di)) r h = (rep, r1, h1)"
    by (metis prod_cases3)
  with Cons.prems obtain reps1 where rest: "ensure_all drv src dis r1 h1 = (reps1, r', h')" "reps = rep # reps1"
    by (auto split: prod.splits)
  from ensure_turn [where src = src, OF one] obtain calls where "h1 = h @ calls" "turn drv src h di rep calls" by blast
  moreover from Cons.IH [OF rest(1)] obtain ts where "map fst ts = dis" "map (\<lambda>t. fst (snd t)) ts = reps1"
    "h' = h1 @ concat (map (\<lambda>t. snd (snd t)) ts)" "turns drv src h1 ts" by blast
  ultimately show ?case using rest(2) by (intro exI [of _ "(di, rep, calls) # ts"]) simp
qed (intro exI [of _ "[]"], simp)

lemma remove_orphans_calls: "remove_orphans drv wanted env8 ms h = (errs, h') \<Longrightarrow> \<exists>cs. h' = h @ cs \<and> container_calls cs = []"
proof (induction drv wanted env8 ms h arbitrary: errs rule: remove_orphans.induct)
  case (2 drv wanted env8 m ms h)
  show ?case
  proof (cases "mg_name m \<notin> set wanted \<and> mg_swappable m")
    case True
    with 2(3) obtain errs1 where "remove_orphans drv wanted env8 ms (h @ [StopRemove (mg_id m)]) = (errs1, h')"
      by (auto simp: Let_def split: prod.splits)
    from 2(1) [OF True refl refl this] show ?thesis by (auto simp: container_calls_Cons)
  next
    case False
    with 2(3) 2(2) [OF False] show ?thesis by auto
  qed
qed simp

lemma cleanup_env_calls: "cleanup_env drv wanted nets env8 h = (errs, h') \<Longrightarrow> \<exists>cs. h' = h @ cs \<and> container_calls cs = []"
  by (force simp: cleanup_env_def Let_def container_calls_Cons split: sum.splits prod.splits dest: remove_orphans_calls)

lemma cleanup_all_calls: "cleanup_all drv wanted nets envs h = (errs, failed, h') \<Longrightarrow> \<exists>cs. h' = h @ cs \<and> container_calls cs = []"
proof (induction envs arbitrary: h errs failed)
  case (Cons env8 envs)
  obtain errs1 h1 where one: "cleanup_env drv wanted nets env8 h = (errs1, h1)" by fastforce
  with Cons.prems obtain errs2 failed2 where "cleanup_all drv wanted nets envs h1 = (errs2, failed2, h')"
    by (auto split: prod.splits)
  from Cons.IH [OF this] cleanup_env_calls [OF one] show ?case by force
qed simp

lemma teardown_all_calls: "teardown_all drv envs torn h = (errs, torn', h') \<Longrightarrow> \<exists>cs. h' = h @ cs \<and> container_calls cs = []"
proof (induction drv envs torn h arbitrary: errs rule: teardown_all.induct)
  case (2 drv env8 envs torn h)
  show ?case
  proof (cases "env8 \<in> set torn")
    case True
    with 2(1) [OF True] 2(4) show ?thesis by auto
  next
    case False
    let ?h1 = "h @ [RemoveEnv env8]"
    have "\<exists>errs1 torn1. teardown_all drv envs torn1 ?h1 = (errs1, torn', h') \<and> (\<exists>cs. h' = ?h1 @ cs \<and> container_calls cs = [])"
    proof (cases "ans_remove_env drv ?h1")
      case None
      with 2(4) False have run: "teardown_all drv envs (torn @ [env8]) ?h1 = (errs, torn', h')" by (simp add: Let_def)
      with 2(2) [OF False refl None run] show ?thesis by blast
    next
      case (Some e)
      with 2(4) False obtain errs2 where run: "teardown_all drv envs torn ?h1 = (errs2, torn', h')" by (auto simp: Let_def split: prod.splits)
      with 2(3) [OF False refl Some run] show ?thesis by blast
    qed
    then show ?thesis by (auto simp: container_calls_Cons)
  qed
qed simp

text \<open>A tick is the turns of the ordered instances, followed by calls that ask for no container.\<close>

lemma reconcile_turns:
  assumes "Reconcile drv desired src td r h = (reps, errs, r', h')"
  shows "\<exists>ts cs. map fst ts = orderDesired desired \<and> map (\<lambda>t. fst (snd t)) ts = reps \<and> turns drv src h ts \<and>
    h' = h @ concat (map (\<lambda>t. snd (snd t)) ts) @ cs \<and> container_calls cs = []"
  using assms
proof (cases rule: reconcile_unfold)
  case (1 r1 h1 errs1 failed h2 errs2 torn)
  from ensure_all_turns [OF 1(1)] cleanup_all_calls [OF 1(2)] teardown_all_calls [OF 1(3)] show ?thesis by force
qed

end
