(* ===== verification/Docker_Driver.thy ===== *)
theory Docker_Driver
  imports Agent_Reconcile Go_Strconv
begin

text \<open>
  \<open>internal/agent/dockerd/driver.go\<close>: what the agent asks of Docker. The Docker SDK is outside the
  program: a call to it is recorded in a trace, and its answer is a function of the trace up to and
  including the call, so the theorems hold for every daemon. An operation of the driver takes a trace
  and returns its result, an error text on the left, with the extended trace. Digests of container
  configurations are an argument.
\<close>

section \<open>The Docker SDK\<close>

datatype sdk_error = SdkNotFound string | SdkError string

fun sdk_text :: "sdk_error \<Rightarrow> string" where
  "sdk_text (SdkNotFound e) = e"
| "sdk_text (SdkError e) = e"

fun IsNotFound :: "sdk_error \<Rightarrow> bool" where
  "IsNotFound (SdkNotFound e) = True"
| "IsNotFound (SdkError e) = False"

record port_binding =
  pb_ip :: string
  pb_port :: string

text \<open>\<open>nat.PortMap\<close>: the number of the container port, as text, with its bindings.\<close>

type_synonym port_map = "(string \<times> port_binding list) list"

record health_config =
  hg_test :: "string list"
  hg_interval :: int
  hg_timeout :: int
  hg_retries :: int
  hg_start :: int

datatype restart_policy = RestartDisabled | RestartAlways | RestartUnlessStopped | RestartOnFailure int

text \<open>\<open>container.Config\<close>, \<open>container.HostConfig\<close> and the network of one \<open>ContainerCreate\<close>.\<close>

record create_config =
  cc_image :: string
  cc_env :: "string list"
  cc_cmd :: "string list"
  cc_entrypoint :: "string list"
  cc_working_dir :: string
  cc_user :: string
  cc_labels :: "string gomap"
  cc_health :: "health_config option"
  cc_exposed :: "string list"
  cc_binds :: "string list"
  cc_port_bindings :: port_map
  cc_restart :: restart_policy
  cc_nano_cpus :: int
  cc_memory :: int
  cc_memory_swap :: int
  cc_pids_limit :: int
  cc_security_opt :: "string list"
  cc_cap_drop :: "string list"
  cc_cap_add :: "string list"
  cc_networks :: "string list"

datatype sdk_call =
    ImageInspectWithRaw string
  | ImagePull string
  | NetworkListByName string
  | NetworkListByEnv string
  | NetworkCreate string "string gomap"
  | NetworkConnect string string "string list"
  | NetworkDisconnect string string
  | NetworkInspect string
  | NetworkRemove string
  | VolumeCreate string "string gomap"
  | VolumeListByEnv string
  | VolumeRemove string
  | ContainerListByName string
  | ContainerListByEnv string
  | ContainerInspect string
  | ContainerCreate create_config string
  | ContainerStart string
  | ContainerStop string
  | ContainerRemove string
  | ContainerLogs string string string

type_synonym trace = "sdk_call list"

record container_summary =
  sm_id :: string
  sm_names :: "string list"
  sm_labels :: "string gomap"

record inspected =
  in_labels :: "string gomap"
  in_bindings :: "port_map option"
  in_running :: bool
  in_exit_code :: int
  in_restarts :: int
  in_health :: "string option"
  in_ports :: "port_map option"

record docker =
  sdk_image :: "trace \<Rightarrow> sdk_error + (string \<times> string list)"
  sdk_networks :: "trace \<Rightarrow> sdk_error + (string \<times> string) list"
  sdk_attached :: "trace \<Rightarrow> sdk_error + string list"
  sdk_volumes :: "trace \<Rightarrow> sdk_error + string list"
  sdk_containers :: "trace \<Rightarrow> sdk_error + container_summary list"
  sdk_container :: "trace \<Rightarrow> sdk_error + inspected"
  sdk_created :: "trace \<Rightarrow> sdk_error + string"
  sdk_done :: "trace \<Rightarrow> sdk_error option"
  sdk_logs :: "trace \<Rightarrow> sdk_error + string"
  nat_port :: "int \<Rightarrow> string option"

type_synonym 'a io = "trace \<Rightarrow> (string + 'a) \<times> trace"

definition ret :: "'a \<Rightarrow> 'a io" where
  "ret v t = (Inr v, t)"

definition give_up :: "string \<Rightarrow> 'a io" where
  "give_up e t = (Inl e, t)"

definition ask :: "sdk_call \<Rightarrow> (trace \<Rightarrow> sdk_error + 'a) \<Rightarrow> ((sdk_error + 'a) \<Rightarrow> 'b io) \<Rightarrow> 'b io" where
  "ask c answer k t = k (answer (t @ [c])) (t @ [c])"

definition tell :: "sdk_call \<Rightarrow> (trace \<Rightarrow> sdk_error option) \<Rightarrow> (sdk_error option \<Rightarrow> 'b io) \<Rightarrow> 'b io" where
  "tell c answer k t = k (answer (t @ [c])) (t @ [c])"

definition or_fail :: "(sdk_error \<Rightarrow> string) \<Rightarrow> ('a \<Rightarrow> 'b io) \<Rightarrow> (sdk_error + 'a) \<Rightarrow> 'b io" where
  "or_fail wrap k r = (case r of Inl e \<Rightarrow> give_up (wrap e) | Inr v \<Rightarrow> k v)"

definition seq :: "'a io \<Rightarrow> ('a \<Rightarrow> 'b io) \<Rightarrow> 'b io" where
  "seq m k t = (case m t of (Inl e, t1) \<Rightarrow> (Inl e, t1) | (Inr v, t1) \<Rightarrow> k v t1)"

section \<open>Images, networks, volumes\<close>

definition contains :: "string \<Rightarrow> string \<Rightarrow> bool" where
  "contains s sub \<longleftrightarrow> list_ex (\<lambda>i. has_prefix (drop i s) sub) [0..<Suc (length s)]"

definition imageDigest :: "string \<Rightarrow> string list \<Rightarrow> string \<Rightarrow> string" where
  "imageDigest i repoDigests ref =
     (case List.find (\<lambda>d. contains d ''@sha256:'') repoDigests of
        Some d \<Rightarrow> d
      | None \<Rightarrow> if has_prefix i ''sha256:'' then i else ref)"

definition do_EnsureImage :: "docker \<Rightarrow> string \<Rightarrow> string io" where
  "do_EnsureImage d ref =
     ask (ImageInspectWithRaw ref) (sdk_image d) (\<lambda>r.
       case r of
         Inr (i, digests) \<Rightarrow> ret (imageDigest i digests ref)
       | Inl _ \<Rightarrow>
           tell (ImagePull ref) (sdk_done d) (\<lambda>p.
             case p of
               Some e \<Rightarrow> give_up (''pull '' @ ref @ '': '' @ sdk_text e)
             | None \<Rightarrow>
                 ask (ImageInspectWithRaw ref) (sdk_image d)
                   (or_fail (\<lambda>e. ''inspect '' @ ref @ '': '' @ sdk_text e)
                     (\<lambda>(i, digests). ret (imageDigest i digests ref)))))"

text \<open>Indexing a Go map: the empty string for an absent key.\<close>

definition label_of :: "string \<Rightarrow> string gomap \<Rightarrow> string" where
  "label_of k labels = (case map_of labels k of None \<Rightarrow> [] | Some v \<Rightarrow> v)"

definition isIngressRouter :: "string gomap \<Rightarrow> bool" where
  "isIngressRouter labels \<longleftrightarrow> label_of ''cc.role'' labels = ''ingress-router''"

definition do_EnsureNetwork :: "docker \<Rightarrow> string \<Rightarrow> string gomap \<Rightarrow> string io" where
  "do_EnsureNetwork d name labels =
     ask (NetworkListByName name) (sdk_networks d) (or_fail sdk_text (\<lambda>nets.
       case List.find (\<lambda>n. fst n = name) nets of
         Some n \<Rightarrow> ret (snd n)
       | None \<Rightarrow> ask (NetworkCreate name labels) (sdk_created d)
           (or_fail (\<lambda>e. ''create network '' @ name @ '': '' @ sdk_text e) ret)))"

definition do_EnsureVolume :: "docker \<Rightarrow> string \<Rightarrow> string gomap \<Rightarrow> unit io" where
  "do_EnsureVolume d name labels =
     tell (VolumeCreate name labels) (sdk_done d) (\<lambda>r. case r of Some e \<Rightarrow> give_up (sdk_text e) | None \<Rightarrow> ret ())"

definition removeNetwork :: "docker \<Rightarrow> string \<Rightarrow> unit io" where
  "removeNetwork d name =
     ask (NetworkListByName name) (sdk_networks d) (or_fail sdk_text (\<lambda>nets.
       case List.find (\<lambda>n. fst n = name) nets of
         None \<Rightarrow> ret ()
       | Some n \<Rightarrow> tell (NetworkRemove (snd n)) (sdk_done d)
           (\<lambda>r. case r of Some e \<Rightarrow> give_up (sdk_text e) | None \<Rightarrow> ret ())))"

definition do_AttachNetwork :: "docker \<Rightarrow> string \<Rightarrow> string \<Rightarrow> string list \<Rightarrow> unit io" where
  "do_AttachNetwork d containerID netName aliases =
     tell (NetworkConnect netName containerID aliases) (sdk_done d) (\<lambda>r.
       case r of
         None \<Rightarrow> ret ()
       | Some e \<Rightarrow> if contains (sdk_text e) ''already exists'' then ret () else give_up (sdk_text e))"

section \<open>Containers\<close>

definition findByName :: "docker \<Rightarrow> string \<Rightarrow> string io" where
  "findByName d name =
     ask (ContainerListByName (''^/'' @ name @ ''$'')) (sdk_containers d) (or_fail sdk_text (\<lambda>list.
       ret (case List.find (\<lambda>c. list_ex (\<lambda>n. trim_prefix n ''/'' = name) (sm_names c)) list of
              None \<Rightarrow> [] | Some c \<Rightarrow> sm_id c)))"

text \<open>The loop returns the first port with a binding whose number parses.\<close>

definition publishedPort :: "port_map option \<Rightarrow> int" where
  "publishedPort hostCfg =
     (case hostCfg of
        None \<Rightarrow> 0
      | Some ports \<Rightarrow>
          (case List.map_filter (\<lambda>(port, bindings). if bindings = [] then None else parse_int port) ports of
             [] \<Rightarrow> 0 | n # _ \<Rightarrow> n))"

fun bindings_port :: "port_binding list \<Rightarrow> int \<Rightarrow> int + int" where
  "bindings_port [] best = Inr best"
| "bindings_port (b # bs) best =
     (case parse_int (pb_port b) of
        None \<Rightarrow> bindings_port bs best
      | Some n \<Rightarrow>
          if n \<le> 0 then bindings_port bs best
          else if pb_ip b = ''0.0.0.0'' then Inl n
          else bindings_port bs n)"

fun first_port :: "port_map \<Rightarrow> int \<Rightarrow> int" where
  "first_port [] best = best"
| "first_port ((port, bs) # rest) best =
     (case bindings_port bs best of Inl n \<Rightarrow> n | Inr n \<Rightarrow> first_port rest n)"

definition firstPublishedPort :: "port_map \<Rightarrow> int" where
  "firstPublishedPort ports = first_port ports 0"

definition do_InspectHealth :: "docker \<Rightarrow> string \<Rightarrow> health io" where
  "do_InspectHealth d containerID =
     ask (ContainerInspect containerID) (sdk_container d) (or_fail sdk_text (\<lambda>c.
       ret \<lparr>h_running = in_running c, h_status = (case in_health c of None \<Rightarrow> [] | Some x \<Rightarrow> x),
            h_exit_code = in_exit_code c, h_restart_count = in_restarts c,
            h_published_port = (case in_ports c of None \<Rightarrow> 0 | Some p \<Rightarrow> firstPublishedPort p)\<rparr>))"

definition do_StopRemove :: "docker \<Rightarrow> string \<Rightarrow> unit io" where
  "do_StopRemove d containerID =
     tell (ContainerStop containerID) (sdk_done d) (\<lambda>_.
       tell (ContainerRemove containerID) (sdk_done d)
         (\<lambda>r. case r of Some e \<Rightarrow> give_up (sdk_text e) | None \<Rightarrow> ret ()))"

definition do_ListManaged :: "docker \<Rightarrow> string \<Rightarrow> managed list io" where
  "do_ListManaged d env8 =
     ask (ContainerListByEnv env8) (sdk_containers d) (or_fail sdk_text (\<lambda>list.
       ret (map (\<lambda>c. \<lparr>mg_id = sm_id c, mg_name = (case sm_names c of [] \<Rightarrow> [] | n # _ \<Rightarrow> trim_prefix n ''/''),
           mg_service = label_of ''cc.service'' (sm_labels c), mg_swappable = (label_of ''cc.swappable'' (sm_labels c) = ''true'')\<rparr>) list)))"

section \<open>Creating a container\<close>

definition durationSecs :: "int \<Rightarrow> int" where
  "durationSecs sec = i64 (seconds sec)"

definition restartPolicy :: "string \<Rightarrow> restart_policy" where
  "restartPolicy mode =
     (if mode = [] \<or> mode = ''no'' then RestartDisabled
      else if mode = ''always'' then RestartAlways
      else if mode = ''unless-stopped'' then RestartUnlessStopped
      else RestartOnFailure 3)"

text \<open>
  The value whose JSON is hashed; \<open>encoding/json\<close> writes the keys of a map in order, so the map of the
  environment counts by its contents. Network, labels and the published port are not part of it.
\<close>

record fingerprint_input =
  fi_image :: string
  fi_env :: "string gomap"
  fi_cmd :: "string list"
  fi_entrypoint :: "string list"
  fi_working_dir :: string
  fi_user :: string
  fi_mounts :: "volume_mount list"
  fi_health :: "health_check option"
  fi_restart :: string
  fi_cpu :: int
  fi_memory :: int

definition containerFingerprint :: "(fingerprint_input \<Rightarrow> string) \<Rightarrow> container_spec \<Rightarrow> string gomap \<Rightarrow> string" where
  "containerFingerprint digest cs resolvedEnv =
     digest \<lparr>fi_image = con_image cs, fi_env = sort_key fst resolvedEnv, fi_cmd = con_cmd cs,
       fi_entrypoint = con_entrypoint cs, fi_working_dir = con_working_dir cs, fi_user = con_user cs,
       fi_mounts = con_mounts cs, fi_health = con_health cs, fi_restart = con_restart cs,
       fi_cpu = con_cpu_millis cs, fi_memory = con_memory_bytes cs\<rparr>"

definition specFingerprintLabel :: string where
  "specFingerprintLabel = ''cc.spec-fingerprint''"

definition bind_of :: "volume_mount \<Rightarrow> string" where
  "bind_of m = vm_volume m @ '':'' @ vm_target m @ (if vm_read_only m then '':ro'' else [])"

definition health_of :: "health_check option \<Rightarrow> health_config option" where
  "health_of h =
     (case h of
        None \<Rightarrow> None
      | Some hc \<Rightarrow>
          if hc_test hc = [] then None
          else Some \<lparr>hg_test = hc_test hc, hg_interval = durationSecs (hc_interval_sec hc),
                 hg_timeout = durationSecs (hc_timeout_sec hc), hg_retries = hc_retries hc,
                 hg_start = durationSecs (hc_start_sec hc)\<rparr>)"

definition createConfig :: "container_spec \<Rightarrow> string gomap \<Rightarrow> string \<Rightarrow> create_config" where
  "createConfig cs env fingerprint =
     (let port = show_int (con_publish_port cs); publish = con_publish_port cs > 0 in
      \<lparr>cc_image = con_image cs, cc_env = map (\<lambda>(k, v). k @ ''='' @ v) env, cc_cmd = con_cmd cs,
       cc_entrypoint = con_entrypoint cs, cc_working_dir = con_working_dir cs, cc_user = con_user cs,
       cc_labels = put specFingerprintLabel fingerprint (con_labels cs), cc_health = health_of (con_health cs),
       cc_exposed = (if publish then [port] else []), cc_binds = map bind_of (con_mounts cs),
       cc_port_bindings = (if publish then [(port, [\<lparr>pb_ip = ''0.0.0.0'', pb_port = ''0''\<rparr>])] else []),
       cc_restart = restartPolicy (con_restart cs), cc_nano_cpus = i64 (con_cpu_millis cs * 1000000),
       cc_memory = con_memory_bytes cs, cc_memory_swap = con_memory_bytes cs, cc_pids_limit = 256,
       cc_security_opt = [''no-new-privileges:true''], cc_cap_drop = [''ALL''],
       cc_cap_add = [''CHOWN'', ''DAC_OVERRIDE'', ''FOWNER'', ''FSETID'', ''KILL'', ''NET_BIND_SERVICE'', ''SETFCAP'',
         ''SETGID'', ''SETPCAP'', ''SETUID''],
       cc_networks = (if con_network cs \<noteq> [] then [con_network cs] else [])\<rparr>)"

definition create_and_start :: "docker \<Rightarrow> container_spec \<Rightarrow> string gomap \<Rightarrow> string \<Rightarrow> bool \<Rightarrow> ensured io" where
  "create_and_start d cs env fingerprint recreated =
     (case (if con_publish_port cs > 0 then nat_port d (con_publish_port cs) else None) of
        Some e \<Rightarrow> give_up (''ingress port '' @ show_int (con_publish_port cs) @ '': '' @ e)
      | None \<Rightarrow>
          ask (ContainerCreate (createConfig cs env fingerprint) (con_name cs)) (sdk_created d)
            (or_fail (\<lambda>e. ''create '' @ con_name cs @ '': '' @ sdk_text e) (\<lambda>i.
              tell (ContainerStart i) (sdk_done d) (\<lambda>r.
                case r of
                  Some e \<Rightarrow> give_up (''start '' @ con_name cs @ '': '' @ sdk_text e)
                | None \<Rightarrow> ret \<lparr>ens_id = i, ens_created = (\<not> recreated), ens_recreated = recreated\<rparr>))))"

text \<open>\<open>%q\<close> of a name that needs no escapes.\<close>

definition quoted :: "string \<Rightarrow> string" where
  "quoted x = [char_of (34 :: nat)] @ x @ [char_of (34 :: nat)]"

definition env_or_empty :: "string gomap option \<Rightarrow> string gomap" where
  "env_or_empty m = (case m of None \<Rightarrow> [] | Some x \<Rightarrow> x)"

definition do_EnsureContainer ::
  "docker \<Rightarrow> (fingerprint_input \<Rightarrow> string) \<Rightarrow> container_spec \<Rightarrow> secret_source \<Rightarrow> ensured io" where
  "do_EnsureContainer d digest cs src =
     (case resolveEnv (env_or_empty (con_env cs)) (env_or_empty (con_secret_env cs)) src of
        Inl (missing, k) \<Rightarrow> give_up (''secret '' @ quoted missing @ '' referenced by '' @ k @ '' is not available'')
      | Inr env \<Rightarrow>
          (let fingerprint = containerFingerprint digest cs env in
           seq (findByName d (con_name cs)) (\<lambda>existing.
             if existing = [] then create_and_start d cs env fingerprint False
             else ask (ContainerInspect existing) (sdk_container d) (or_fail sdk_text (\<lambda>c.
               if label_of specFingerprintLabel (in_labels c) \<noteq> fingerprint
               then give_up (''container '' @ con_name cs @
                 '' configuration changed; automatic stateful recreation is not supported'')
               else if publishedPort (in_bindings c) \<noteq> con_publish_port cs then
                 (if label_of ''cc.swappable'' (con_labels cs) \<noteq> ''true''
                  then give_up (''container '' @ con_name cs @ '' publishes port '' @
                    show_int (publishedPort (in_bindings c)) @ '' but '' @ show_int (con_publish_port cs) @
                    '' is required, and a pinned container is not replaced automatically'')
                  else (\<lambda>t. case do_StopRemove d existing t of
                      (Inl e, t1) \<Rightarrow> (Inl (''replace '' @ con_name cs @ '' to correct its published port: '' @ e), t1)
                    | (Inr _, t1) \<Rightarrow> create_and_start d cs env fingerprint True t1))
               else ret \<lparr>ens_id = existing, ens_created = False, ens_recreated = False\<rparr>)))))"

section \<open>Removing networks and environments\<close>

text \<open>The loops collect the texts of what went wrong and go on.\<close>

fun detach_managed :: "docker \<Rightarrow> string \<Rightarrow> string \<Rightarrow> string \<Rightarrow> string list \<Rightarrow> unit io" where
  "detach_managed d env8 name i [] = ret ()"
| "detach_managed d env8 name i (c # cs) =
     ask (ContainerInspect c) (sdk_container d) (\<lambda>r.
       case r of
         Inl e \<Rightarrow>
           if IsNotFound e then detach_managed d env8 name i cs
           else give_up (''inspect container '' @ c @ '' on network '' @ name @ '': '' @ sdk_text e)
       | Inr ctr \<Rightarrow>
           if label_of ''cc.env'' (in_labels ctr) \<noteq> env8 \<and> \<not> isIngressRouter (in_labels ctr)
           then give_up (''refusing to prune network '' @ name @ '': unmanaged container '' @ c @ '' is attached'')
           else tell (NetworkDisconnect i c) (sdk_done d) (\<lambda>r.
             case r of
               Some e \<Rightarrow>
                 if IsNotFound e then detach_managed d env8 name i cs
                 else give_up (''disconnect container '' @ c @ '' from network '' @ name @ '': '' @ sdk_text e)
             | None \<Rightarrow> detach_managed d env8 name i cs))"

definition pruneNetwork :: "docker \<Rightarrow> string \<Rightarrow> string \<Rightarrow> string \<Rightarrow> unit io" where
  "pruneNetwork d env8 name i =
     ask (NetworkInspect i) (sdk_attached d) (\<lambda>r.
       case r of
         Inl e \<Rightarrow> if IsNotFound e then ret () else give_up (''inspect network '' @ name @ '': '' @ sdk_text e)
       | Inr cs \<Rightarrow>
           seq (detach_managed d env8 name i cs) (\<lambda>_.
             tell (NetworkRemove i) (sdk_done d) (\<lambda>r.
               case r of
                 Some e \<Rightarrow> if IsNotFound e then ret () else give_up (''remove network '' @ name @ '': '' @ sdk_text e)
               | None \<Rightarrow> ret ())))"

fun prune_all :: "docker \<Rightarrow> string \<Rightarrow> string list \<Rightarrow> (string \<times> string) list \<Rightarrow> trace \<Rightarrow> string list \<times> trace" where
  "prune_all d env8 wanted [] t = ([], t)"
| "prune_all d env8 wanted ((name, i) # nets) t =
     (if name \<in> set wanted then prune_all d env8 wanted nets t
      else case pruneNetwork d env8 name i t of
        (r, t1) \<Rightarrow> (case prune_all d env8 wanted nets t1 of
          (errs, t2) \<Rightarrow> ((case r of Inl e \<Rightarrow> e # errs | Inr _ \<Rightarrow> errs), t2)))"

text \<open>\<open>errors.Join\<close>: no error when there are none.\<close>

definition errors_join :: "string list \<Rightarrow> unit io" where
  "errors_join errs = (if errs = [] then ret () else give_up (str_join [char_of (10 :: nat)] errs))"

definition do_PruneRevisionNetworks :: "docker \<Rightarrow> string \<Rightarrow> string list \<Rightarrow> unit io" where
  "do_PruneRevisionNetworks d env8 wanted =
     ask (NetworkListByEnv env8) (sdk_networks d) (or_fail sdk_text (\<lambda>nets t.
       case prune_all d env8 wanted nets t of (errs, t1) \<Rightarrow> errors_join errs t1))"

fun remove_containers :: "docker \<Rightarrow> container_summary list \<Rightarrow> unit io" where
  "remove_containers d [] = ret ()"
| "remove_containers d (c # cs) =
     (\<lambda>t. case do_StopRemove d (sm_id c) t of
        (Inl e, t1) \<Rightarrow> (Inl (''remove container '' @ sm_id c @ '': '' @ e), t1)
      | (Inr _, t1) \<Rightarrow> remove_containers d cs t1)"

definition unless_gone :: "string \<Rightarrow> sdk_error option \<Rightarrow> string list" where
  "unless_gone what r = (case r of None \<Rightarrow> [] | Some e \<Rightarrow> if IsNotFound e then [] else [what @ sdk_text e])"

fun disconnect_all :: "docker \<Rightarrow> string \<Rightarrow> string \<Rightarrow> string list \<Rightarrow> trace \<Rightarrow> string list \<times> trace" where
  "disconnect_all d name i [] t = ([], t)"
| "disconnect_all d name i (c # cs) t =
     (let t1 = t @ [NetworkDisconnect i c] in
      case disconnect_all d name i cs t1 of
        (errs, t2) \<Rightarrow> (unless_gone (''disconnect '' @ c @ '' from network '' @ name @ '': '') (sdk_done d t1) @ errs, t2))"

definition remove_network :: "docker \<Rightarrow> string \<Rightarrow> string \<Rightarrow> trace \<Rightarrow> string list \<times> trace" where
  "remove_network d name i t =
     (let t1 = t @ [NetworkInspect i];
          finish = (\<lambda>cs. case disconnect_all d name i cs t1 of
            (errs, t2) \<Rightarrow>
              let t3 = t2 @ [NetworkRemove i]
              in (errs @ unless_gone (''remove network '' @ name @ '': '') (sdk_done d t3), t3))
      in case sdk_attached d t1 of
           Inl e \<Rightarrow> if IsNotFound e then finish [] else ([''inspect network '' @ name @ '': '' @ sdk_text e], t1)
         | Inr cs \<Rightarrow> finish cs)"

fun remove_networks :: "docker \<Rightarrow> (string \<times> string) list \<Rightarrow> trace \<Rightarrow> string list \<times> trace" where
  "remove_networks d [] t = ([], t)"
| "remove_networks d ((name, i) # nets) t =
     (case remove_network d name i t of
        (errs, t1) \<Rightarrow> (case remove_networks d nets t1 of (errs2, t2) \<Rightarrow> (errs @ errs2, t2)))"

fun remove_volumes :: "docker \<Rightarrow> string list \<Rightarrow> trace \<Rightarrow> string list \<times> trace" where
  "remove_volumes d [] t = ([], t)"
| "remove_volumes d (v # vs) t =
     (let t1 = t @ [VolumeRemove v] in
      case remove_volumes d vs t1 of
        (errs, t2) \<Rightarrow> (unless_gone (''remove volume '' @ v @ '': '') (sdk_done d t1) @ errs, t2))"

definition do_RemoveEnv :: "docker \<Rightarrow> string \<Rightarrow> unit io" where
  "do_RemoveEnv d env8 =
     ask (ContainerListByEnv env8) (sdk_containers d) (or_fail sdk_text (\<lambda>containers.
       seq (remove_containers d containers) (\<lambda>_.
         ask (NetworkListByEnv env8) (sdk_networks d) (or_fail sdk_text (\<lambda>nets t.
           case remove_networks d nets t of
             (problems, t1) \<Rightarrow>
               ask (VolumeListByEnv env8) (sdk_volumes d) (or_fail sdk_text (\<lambda>vols t2.
                 case remove_volumes d vols t2 of (errs, t3) \<Rightarrow> errors_join (problems @ errs) t3)) t1)))))"

section \<open>Logs\<close>

definition byte :: "char \<Rightarrow> nat" where
  "byte c = of_char c"

definition frame_size :: "string \<Rightarrow> nat" where
  "frame_size h = byte (h ! 4) * 2 ^ 24 + byte (h ! 5) * 2 ^ 16 + byte (h ! 6) * 2 ^ 8 + byte (h ! 7)"

definition framed :: "string \<Rightarrow> bool" where
  "framed raw \<longleftrightarrow> length raw \<ge> 8 \<and> byte (raw ! 0) \<le> 2 \<and> byte (raw ! 1) = 0 \<and> byte (raw ! 2) = 0 \<and> byte (raw ! 3) = 0"

function demux :: "string \<Rightarrow> string" where
  "demux raw =
     (if framed raw then
        (let body = drop 8 raw; n = min (frame_size raw) (length body) in take n body @ demux (drop n body))
      else raw)"
  by auto

termination demux
  by (relation "measure length") (auto simp: framed_def)

declare demux.simps [simp del]

definition MaxLogBytes :: nat where
  "MaxLogBytes = 1048576"

definition truncated_note :: string where
  "truncated_note = [char_of (10 :: nat)] @ ''[truncated: log read hit the size cap]'' @ [char_of (10 :: nat)]"

definition demuxLogs :: "string \<Rightarrow> nat \<Rightarrow> string" where
  "demuxLogs raw maxBytes =
     demux (take maxBytes raw) @ (if length raw > maxBytes then truncated_note else [])"

text \<open>Tail and since as the texts that go into the request; the reader stops one byte after the cap.\<close>

definition do_ContainerLogs :: "docker \<Rightarrow> (time \<Rightarrow> string) \<Rightarrow> string \<Rightarrow> int \<Rightarrow> time option \<Rightarrow> string io" where
  "do_ContainerLogs d rfc3339nano containerID tail since =
     ask (ContainerLogs containerID (if tail > 0 then show_int tail else [])
           (case since of None \<Rightarrow> [] | Some t \<Rightarrow> rfc3339nano t)) (sdk_logs d)
       (or_fail (\<lambda>e. ''read logs for '' @ containerID @ '': '' @ sdk_text e)
         (\<lambda>out. ret (demuxLogs (take (MaxLogBytes + 1) out) MaxLogBytes)))"

section \<open>Which calls an operation makes\<close>

text \<open>Every call the operation adds to the trace is allowed by \<open>P\<close>, which sees the trace before the call.\<close>

definition makes :: "(trace \<Rightarrow> sdk_call \<Rightarrow> bool) \<Rightarrow> (trace \<Rightarrow> 'r \<times> trace) \<Rightarrow> trace \<Rightarrow> bool" where
  "makes P m t \<longleftrightarrow> (\<exists>cs. snd (m t) = t @ cs \<and> (\<forall>i < length cs. P (t @ take i cs) (cs ! i)))"

lemma makes_none: "snd (m t) = t \<Longrightarrow> makes P m t"
  unfolding makes_def by (intro exI [of _ "[]"]) simp

lemma makes_ret [simp]: "makes P (ret v) t" "makes P (give_up e) t"
  by (simp_all add: makes_none ret_def give_up_def)

lemma makes_call:
  assumes "P t c" "makes P k (t @ [c])" "snd (m t) = snd (k (t @ [c]))"
  shows "makes P m t"
proof -
  from assms(2) obtain cs where cs: "snd (k (t @ [c])) = (t @ [c]) @ cs" "\<forall>i < length cs. P ((t @ [c]) @ take i cs) (cs ! i)"
    unfolding makes_def by blast
  have "P (t @ take i (c # cs)) ((c # cs) ! i)" if "i < length (c # cs)" for i
    using that assms(1) cs(2) by (cases i) auto
  with cs(1) assms(3) show ?thesis unfolding makes_def by (intro exI [of _ "c # cs"]) simp
qed

lemma makes_ask: "P t c \<Longrightarrow> makes P (k (answer (t @ [c]))) (t @ [c]) \<Longrightarrow> makes P (ask c answer k) t"
  by (rule makes_call [where k = "k (answer (t @ [c]))"]) (simp_all add: ask_def)

lemma makes_tell: "P t c \<Longrightarrow> makes P (k (answer (t @ [c]))) (t @ [c]) \<Longrightarrow> makes P (tell c answer k) t"
  by (rule makes_call [where k = "k (answer (t @ [c]))"]) (simp_all add: tell_def)

lemma makes_then:
  assumes "makes P m t" "\<And>r t1. m t = (r, t1) \<Longrightarrow> makes P (k r) t1" "snd (n t) = snd (k (fst (m t)) (snd (m t)))"
  shows "makes P n t"
proof -
  from assms(1) obtain cs where cs: "snd (m t) = t @ cs" "\<forall>i < length cs. P (t @ take i cs) (cs ! i)"
    unfolding makes_def by blast
  from assms(2) [of "fst (m t)" "t @ cs"] cs(1) have "makes P (k (fst (m t))) (t @ cs)" by (metis prod.collapse)
  then obtain ds where ds: "snd (k (fst (m t)) (t @ cs)) = (t @ cs) @ ds"
    "\<forall>i < length ds. P ((t @ cs) @ take i ds) (ds ! i)" unfolding makes_def by blast
  have "P (t @ take i (cs @ ds)) ((cs @ ds) ! i)" if "i < length (cs @ ds)" for i
    using that cs(2) ds(2) [rule_format, of "i - length cs"] by (cases "i < length cs") (auto simp: nth_append)
  with ds(1) cs(1) assms(3) show ?thesis unfolding makes_def by (intro exI [of _ "cs @ ds"]) simp
qed

lemma makes_seq:
  assumes "makes P m t" "\<And>v t1. m t = (Inr v, t1) \<Longrightarrow> makes P (k v) t1"
  shows "makes P (seq m k) t"
proof (rule makes_then [where k = "\<lambda>r. case r of Inl e \<Rightarrow> give_up e | Inr v \<Rightarrow> k v", OF assms(1)])
  show "makes P (case r of Inl e \<Rightarrow> give_up e | Inr v \<Rightarrow> k v) t1" if "m t = (r, t1)" for r t1
    using that assms(2) by (cases r) auto
qed (auto simp: seq_def give_up_def split: prod.split sum.split)

lemma makes_or_fail: "(\<And>v. r = Inr v \<Longrightarrow> makes P (k v) t) \<Longrightarrow> makes P (or_fail wrap k r) t"
  by (cases r) (simp_all add: or_fail_def)

lemma makes_mono: "makes P m t \<Longrightarrow> (\<And>tr c. P tr c \<Longrightarrow> Q tr c) \<Longrightarrow> makes Q m t"
  unfolding makes_def by blast

lemmas makes_rules = makes_ret makes_or_fail makes_seq makes_ask makes_tell

section \<open>What is created is confined, and pinned containers stay\<close>

text \<open>
  The isolation a container has to be created with, field by field: the limits of its service (CPU in
  billionths, memory with swap at the same limit, processes), no privilege but ten capabilities of the
  default set, its own volumes at its own mount points, its revision's network and no other, the
  ingress port if it has one with the host port left to Docker, and its image, user and environment.
\<close>

definition confined :: "container_spec \<Rightarrow> string gomap \<Rightarrow> string \<Rightarrow> create_config \<Rightarrow> bool" where
  "confined cs env fp cfg \<longleftrightarrow>
     (\<bar>con_cpu_millis cs\<bar> \<le> 9 * 10 ^ 12 \<longrightarrow> cc_nano_cpus cfg = con_cpu_millis cs * 1000000) \<and>
     cc_memory cfg = con_memory_bytes cs \<and> cc_memory_swap cfg = con_memory_bytes cs \<and> cc_pids_limit cfg = 256 \<and>
     cc_cap_drop cfg = [''ALL''] \<and> cc_security_opt cfg = [''no-new-privileges:true''] \<and>
     set (cc_cap_add cfg) = {''CHOWN'', ''DAC_OVERRIDE'', ''FOWNER'', ''FSETID'', ''KILL'', ''NET_BIND_SERVICE'', ''SETFCAP'',
       ''SETGID'', ''SETPCAP'', ''SETUID''} \<and>
     cc_networks cfg = (if con_network cs = [] then [] else [con_network cs]) \<and>
     cc_binds cfg = map (\<lambda>m. vm_volume m @ '':'' @ vm_target m @ (if vm_read_only m then '':ro'' else [])) (con_mounts cs) \<and>
     (if con_publish_port cs > 0
      then cc_port_bindings cfg = [(show_int (con_publish_port cs), [\<lparr>pb_ip = ''0.0.0.0'', pb_port = ''0''\<rparr>])] \<and>
        cc_exposed cfg = [show_int (con_publish_port cs)]
      else cc_port_bindings cfg = [] \<and> cc_exposed cfg = []) \<and>
     cc_image cfg = con_image cs \<and> cc_user cfg = con_user cs \<and> cc_cmd cfg = con_cmd cs \<and>
     cc_entrypoint cfg = con_entrypoint cs \<and> cc_working_dir cfg = con_working_dir cs \<and>
     cc_env cfg = map (\<lambda>kv. fst kv @ ''='' @ snd kv) env \<and>
     label_of specFingerprintLabel (cc_labels cfg) = fp \<and>
     (\<forall>l. l \<noteq> specFingerprintLabel \<longrightarrow> map_of (cc_labels cfg) l = map_of (con_labels cs) l)"

lemma createConfig_confined: "confined cs env fp (createConfig cs env fp)"
proof -
  have "i64 (con_cpu_millis cs * 1000000) = con_cpu_millis cs * 1000000" if "\<bar>con_cpu_millis cs\<bar> \<le> 9 * 10 ^ 12"
    using that by (intro i64_id) (auto simp: in_i64_def)
  then show ?thesis
    by (simp add: confined_def createConfig_def Let_def label_of_def bind_of_def case_prod_unfold comp_def update_conv')
qed

text \<open>A container seen to carry the wanted configuration and the wrong port, wanted as a swappable one.\<close>

definition replaceable :: "docker \<Rightarrow> container_spec \<Rightarrow> string \<Rightarrow> trace \<Rightarrow> string \<Rightarrow> bool" where
  "replaceable d cs fp tr x \<longleftrightarrow>
     label_of ''cc.swappable'' (con_labels cs) = ''true'' \<and> last tr = ContainerInspect x \<and>
     (\<exists>c. sdk_container d tr = Inr c \<and> label_of specFingerprintLabel (in_labels c) = fp \<and>
        publishedPort (in_bindings c) \<noteq> con_publish_port cs)"

definition ensure_allows :: "docker \<Rightarrow> container_spec \<Rightarrow> string gomap \<Rightarrow> string \<Rightarrow> trace \<Rightarrow> sdk_call \<Rightarrow> bool" where
  "ensure_allows d cs env fp tr c =
     (case c of
        ContainerListByName n \<Rightarrow> n = ''^/'' @ con_name cs @ ''$''
      | ContainerInspect x \<Rightarrow> True
      | ContainerStop x \<Rightarrow> replaceable d cs fp tr x
      | ContainerRemove x \<Rightarrow> last tr = ContainerStop x \<and> replaceable d cs fp (butlast tr) x
      | ContainerCreate cfg n \<Rightarrow> n = con_name cs \<and> confined cs env fp cfg
      | ContainerStart x \<Rightarrow> sdk_created d tr = Inr x
      | _ \<Rightarrow> False)"

lemma makes_create_and_start: "makes (ensure_allows d cs env fp) (create_and_start d cs env fp again) t"
  unfolding create_and_start_def
  by (auto split: option.split intro!: makes_rules simp: ensure_allows_def createConfig_confined)

lemma makes_StopRemove:
  "replaceable d cs fp t x \<Longrightarrow> makes (ensure_allows d cs env fp) (do_StopRemove d x) t"
  unfolding do_StopRemove_def by (intro makes_tell) (auto simp: ensure_allows_def split: option.split)

lemma makes_replace:
  assumes "replaceable d cs fp t x"
  shows "makes (ensure_allows d cs env fp) (\<lambda>t. case do_StopRemove d x t of
      (Inl e, t1) \<Rightarrow> (Inl (wrap e), t1) | (Inr _, t1) \<Rightarrow> create_and_start d cs env fp again t1) t"
  by (rule makes_then [OF makes_StopRemove [OF assms],
        where k = "\<lambda>r. case r of Inl e \<Rightarrow> give_up (wrap e) | Inr _ \<Rightarrow> create_and_start d cs env fp again"])
     (auto simp: give_up_def makes_create_and_start split: prod.split sum.split)

lemma makes_EnsureContainer:
  assumes env: "resolveEnv (env_or_empty (con_env cs)) (env_or_empty (con_secret_env cs)) src = Inr env"
  shows "makes (ensure_allows d cs env (containerFingerprint digest cs env)) (do_EnsureContainer d digest cs src) t"
  unfolding do_EnsureContainer_def env sum.case Let_def
proof (rule makes_seq)
  let ?P = "ensure_allows d cs env (containerFingerprint digest cs env)"
  show "makes ?P (findByName d (con_name cs)) t"
    unfolding findByName_def by (intro makes_rules) (simp add: ensure_allows_def)
  show "makes ?P (if existing = [] then create_and_start d cs env (containerFingerprint digest cs env) False
      else ask (ContainerInspect existing) (sdk_container d) (or_fail sdk_text (\<lambda>c.
        if label_of specFingerprintLabel (in_labels c) \<noteq> containerFingerprint digest cs env
        then give_up (''container '' @ con_name cs @ '' configuration changed; automatic stateful recreation is not supported'')
        else if publishedPort (in_bindings c) \<noteq> con_publish_port cs then
          (if label_of ''cc.swappable'' (con_labels cs) \<noteq> ''true''
           then give_up (''container '' @ con_name cs @ '' publishes port '' @ show_int (publishedPort (in_bindings c)) @
             '' but '' @ show_int (con_publish_port cs) @ '' is required, and a pinned container is not replaced automatically'')
           else (\<lambda>t. case do_StopRemove d existing t of
               (Inl e, t1) \<Rightarrow> (Inl (''replace '' @ con_name cs @ '' to correct its published port: '' @ e), t1)
             | (Inr _, t1) \<Rightarrow> create_and_start d cs env (containerFingerprint digest cs env) True t1))
        else ret \<lparr>ens_id = existing, ens_created = False, ens_recreated = False\<rparr>))) t1" for existing t1
  proof (cases "existing = []")
    case False
    then show ?thesis
      by simp (intro makes_ask makes_or_fail; auto simp: ensure_allows_def replaceable_def intro!: makes_replace)
  qed (simp add: makes_create_and_start)
qed

lemma makes_calls:
  assumes "makes P m t" "m t = (r, t @ cs)" "c \<in> set cs"
  obtains as bs where "cs = as @ c # bs" "P (t @ as) c"
proof -
  from assms(3) obtain i where i: "i < length cs" "cs ! i = c" by (auto simp: in_set_conv_nth)
  from assms(1,2) i have "P (t @ take i cs) c" by (auto simp: makes_def)
  with i show thesis by (intro that [of "take i cs" "drop (Suc i) cs"]) (auto simp: id_take_nth_drop)
qed

lemma EnsureContainer_adopts:
  assumes "do_EnsureContainer d digest cs src t = (Inr en, t')" "\<not> ens_created en" "\<not> ens_recreated en"
    "resolveEnv (env_or_empty (con_env cs)) (env_or_empty (con_secret_env cs)) src = Inr env"
  shows "last t' = ContainerInspect (ens_id en) \<and>
    (\<exists>c. sdk_container d t' = Inr c \<and> label_of specFingerprintLabel (in_labels c) = containerFingerprint digest cs env \<and>
       publishedPort (in_bindings c) = con_publish_port cs)"
  using assms
  by (auto simp: do_EnsureContainer_def Let_def seq_def ask_def tell_def or_fail_def create_and_start_def do_StopRemove_def
      ret_def give_up_def split: sum.splits if_splits option.splits prod.splits)

text \<open>
  C6: whatever the daemon answers, making sure of a container creates only containers of the wanted name
  that are confined: CPU, memory, swap and processes at the service's limits, all capabilities dropped
  but ten, no new privileges, only its own volumes, the network of its revision and no other, at most
  the ingress port published and the host port left to Docker, its own image, command, user and
  environment, and the fingerprint of this configuration as a label. (A CPU limit beyond nine billion
  processors would wrap.) A container is removed only to correct the port of a swappable one whose
  fingerprint agrees, so a pinned container never is. An adopted container was seen to have the
  fingerprint and the port.
\<close>

theorem containers_are_confined:
  assumes "resolveEnv (env_or_empty (con_env cs)) (env_or_empty (con_secret_env cs)) src = Inr env"
    "fp = containerFingerprint digest cs env" "do_EnsureContainer d digest cs src t = (r, t')"
  shows "\<exists>calls. t' = t @ calls \<and>
    (\<forall>cfg n. ContainerCreate cfg n \<in> set calls \<longrightarrow> n = con_name cs \<and> confined cs env fp cfg) \<and>
    (\<forall>x. ContainerRemove x \<in> set calls \<longrightarrow> (\<exists>tr. prefix tr t' \<and> replaceable d cs fp tr x)) \<and>
    (\<forall>x. VolumeRemove x \<notin> set calls \<and> NetworkRemove x \<notin> set calls) \<and>
    (\<forall>en. r = Inr en \<longrightarrow> \<not> ens_created en \<longrightarrow> \<not> ens_recreated en \<longrightarrow>
      last t' = ContainerInspect (ens_id en) \<and>
      (\<exists>c. sdk_container d t' = Inr c \<and> label_of specFingerprintLabel (in_labels c) = fp \<and>
         publishedPort (in_bindings c) = con_publish_port cs))"
proof -
  note mk = makes_EnsureContainer [OF assms(1), of d digest t, folded assms(2)]
  then obtain calls where calls: "t' = t @ calls" using assms(3) by (auto simp: makes_def)
  note run = assms(3) [unfolded calls]
  have "n = con_name cs \<and> confined cs env fp cfg" if "ContainerCreate cfg n \<in> set calls" for cfg n
    using makes_calls [OF mk run that] by (auto simp: ensure_allows_def)
  moreover have "\<exists>tr. prefix tr t' \<and> replaceable d cs fp tr x" if gone: "ContainerRemove x \<in> set calls" for x
  proof -
    obtain as bs where ab: "calls = as @ ContainerRemove x # bs" "ensure_allows d cs env fp (t @ as) (ContainerRemove x)"
      by (rule makes_calls [OF mk run gone])
    then have "replaceable d cs fp (butlast (t @ as)) x" by (simp add: ensure_allows_def)
    moreover have "prefix (butlast (t @ as)) (t @ as)" "prefix (t @ as) t'" using ab(1) calls by (simp_all add: prefixeq_butlast)
    then have "prefix (butlast (t @ as)) t'" by (rule prefix_order.trans)
    ultimately show ?thesis by blast
  qed
  moreover have "VolumeRemove x \<notin> set calls \<and> NetworkRemove x \<notin> set calls" for x
    by (auto simp: ensure_allows_def elim: makes_calls [OF mk run])
  moreover have "last t' = ContainerInspect (ens_id en) \<and>
      (\<exists>c. sdk_container d t' = Inr c \<and> label_of specFingerprintLabel (in_labels c) = fp \<and>
         publishedPort (in_bindings c) = con_publish_port cs)"
    if "r = Inr en" "\<not> ens_created en" "\<not> ens_recreated en" for en
    using EnsureContainer_adopts [OF _ that(2,3) assms(1)] assms(2,3) that(1) by simp
  ultimately show ?thesis using calls by blast
qed

definition ex_docker :: docker where
  "ex_docker = \<lparr>sdk_image = (\<lambda>_. Inr (''sha256:1'', [])), sdk_networks = (\<lambda>_. Inr [(''net'', ''n1'')]), sdk_attached = (\<lambda>_. Inr [''c1'']),
     sdk_volumes = (\<lambda>_. Inr [''data'']), sdk_containers = (\<lambda>_. Inr []),
     sdk_container = (\<lambda>_. Inl (SdkError ''gone'')), sdk_created = (\<lambda>_. Inr ''c1''),
     sdk_done = (\<lambda>t. case last t of NetworkRemove i \<Rightarrow> Some (SdkError ''in use'') | _ \<Rightarrow> None),
     sdk_logs = (\<lambda>_. Inr []), nat_port = (\<lambda>_. None)\<rparr>"

definition ex_con :: container_spec where
  "ex_con = \<lparr>con_name = ''web'', con_image = ''nginx'', con_env = None, con_secret_env = None, con_cmd = [],
     con_entrypoint = [], con_working_dir = [], con_user = [], con_mounts = [], con_health = None,
     con_labels = [(''cc.swappable'', ''true'')], con_network = ''net'', con_restart = [], con_cpu_millis = 250,
     con_memory_bytes = 1000, con_publish_port = 8080\<rparr>"

theorem containers_are_confined_witness:
  "\<exists>cfg. ContainerCreate cfg ''web'' \<in> set (snd (do_EnsureContainer ex_docker fi_image ex_con None [])) \<and>
     confined ex_con [] ''nginx'' cfg"
proof -
  have env: "resolveEnv (env_or_empty (con_env ex_con)) (env_or_empty (con_secret_env ex_con)) None = Inr []" by code_simp
  have fp: "''nginx'' = containerFingerprint fi_image ex_con []" by (simp add: containerFingerprint_def ex_con_def)
  have find: "findByName ex_docker n t = (Inr [], t @ [ContainerListByName (''^/'' @ n @ ''$'')])" for n t
    by (simp add: findByName_def ask_def or_fail_def ret_def ex_docker_def)
  have run: "do_EnsureContainer ex_docker fi_image ex_con None [] =
      (Inr \<lparr>ens_id = ''c1'', ens_created = True, ens_recreated = False\<rparr>,
       [ContainerListByName (''^/'' @ con_name ex_con @ ''$''), ContainerCreate (createConfig ex_con [] ''nginx'') ''web'', ContainerStart ''c1''])"
    unfolding do_EnsureContainer_def env fp [symmetric]
    by (simp add: Let_def seq_def find create_and_start_def ask_def tell_def or_fail_def ret_def)
       (simp add: ex_docker_def ex_con_def containerFingerprint_def ask_def tell_def or_fail_def ret_def)
  with containers_are_confined [OF env fp run] show ?thesis by auto
qed

text \<open>
  The other side of adoption: a container of the right configuration is taken as it is, running or
  not. One that was created and failed to start is found by its name on the next tick and is not
  started again.
\<close>

theorem stopped_container_is_not_started:
  assumes "resolveEnv (env_or_empty (con_env cs)) (env_or_empty (con_secret_env cs)) src = Inr env"
    "findByName d (con_name cs) t = (Inr x, t1)" "x \<noteq> []"
    "sdk_container d (t1 @ [ContainerInspect x]) = Inr c" "\<not> in_running c"
    "label_of specFingerprintLabel (in_labels c) = containerFingerprint digest cs env"
    "publishedPort (in_bindings c) = con_publish_port cs"
  shows "do_EnsureContainer d digest cs src t =
    (Inr \<lparr>ens_id = x, ens_created = False, ens_recreated = False\<rparr>, t1 @ [ContainerInspect x])"
  using assms by (simp add: do_EnsureContainer_def seq_def ask_def or_fail_def ret_def Let_def)

section \<open>Teardown reaches the volumes\<close>

definition gone :: "sdk_error option \<Rightarrow> bool" where
  "gone r \<longleftrightarrow> (case r of None \<Rightarrow> True | Some e \<Rightarrow> IsNotFound e)"

lemma unless_gone_Nil [simp]: "unless_gone what r = [] \<longleftrightarrow> gone r"
  by (auto simp: unless_gone_def gone_def split: option.split)

lemma remove_volumes_trace: "snd (remove_volumes d vs t) = t @ map VolumeRemove vs"
  by (induction d vs t rule: remove_volumes.induct) (auto simp: Let_def split: prod.split)

lemma remove_volumes_ok:
  "fst (remove_volumes d vs t) = [] \<Longrightarrow> j < length vs \<Longrightarrow> gone (sdk_done d (t @ map VolumeRemove (take (Suc j) vs)))"
proof (induction d vs t arbitrary: j rule: remove_volumes.induct)
  case (2 d v vs t)
  from "2.prems"(1) have now: "gone (sdk_done d (t @ [VolumeRemove v]))" and rest: "fst (remove_volumes d vs (t @ [VolumeRemove v])) = []"
    by (auto simp: Let_def split: prod.splits)
  show ?case
  proof (cases j)
    case (Suc i)
    with "2.IH" [OF refl rest, of i] "2.prems"(2) show ?thesis by simp
  qed (simp add: now)
qed simp

lemma remove_containers_stops:
  "remove_containers d cs t = (Inl e, t1) \<Longrightarrow> \<exists>x. last t1 = ContainerRemove x"
proof (induction cs arbitrary: t)
  case (Cons c cs)
  show ?case
  proof (cases "do_StopRemove d (sm_id c) t")
    case (Pair r u)
    then have "last u = ContainerRemove (sm_id c)"
      by (auto simp: do_StopRemove_def tell_def ret_def give_up_def split: option.splits)
    with Pair Cons show ?thesis by (cases r) auto
  qed
qed (simp add: ret_def)

text \<open>
  C33: destroying an environment either attempts every volume that is listed for it, as its last calls,
  or stopped at a list that was refused or a container that could not be removed; trouble with a
  network never keeps it from the volumes. When it reports success, every volume was removed or was
  gone already, whatever the daemon answered.
\<close>

theorem teardown_reaches_volumes:
  assumes "do_RemoveEnv d env8 t = (r, t')"
  shows "(\<exists>tv vs. t' = tv @ VolumeListByEnv env8 # map VolumeRemove vs \<and>
      sdk_volumes d (tv @ [VolumeListByEnv env8]) = Inr vs \<and>
      (r = Inr () \<longrightarrow> (\<forall>j < length vs. gone (sdk_done d (tv @ VolumeListByEnv env8 # map VolumeRemove (take (Suc j) vs)))))) \<or>
    (\<exists>e. r = Inl e) \<and> (last t' \<in> {ContainerListByEnv env8, NetworkListByEnv env8, VolumeListByEnv env8} \<or>
      (\<exists>x. last t' = ContainerRemove x))"
proof -
  define ta where "ta = t @ [ContainerListByEnv env8]"
  consider e where "sdk_containers d ta = Inl e"
    | cs e tb where "sdk_containers d ta = Inr cs" "remove_containers d cs ta = (Inl e, tb)"
    | cs tb where "sdk_containers d ta = Inr cs" "remove_containers d cs ta = (Inr (), tb)"
  proof (cases "sdk_containers d ta")
    case (Inr cs)
    obtain q tb where "remove_containers d cs ta = (q, tb)" by (cases "remove_containers d cs ta")
    with Inr that(2,3) show thesis by (cases q) auto
  qed (use that(1) in blast)
  then show ?thesis
  proof cases
    case (1 e)
    with assms show ?thesis by (auto simp: do_RemoveEnv_def ask_def or_fail_def give_up_def ta_def)
  next
    case (2 cs e tb)
    with assms have "r = Inl e" "t' = tb" by (auto simp: do_RemoveEnv_def ask_def or_fail_def seq_def ta_def)
    with remove_containers_stops [OF 2(2)] show ?thesis by blast
  next
    case (3 cs tb)
    define tn where "tn = tb @ [NetworkListByEnv env8]"
    from 3 have run: "do_RemoveEnv d env8 t = or_fail sdk_text (\<lambda>nets t. case remove_networks d nets t of
        (problems, t1) \<Rightarrow> ask (VolumeListByEnv env8) (sdk_volumes d) (or_fail sdk_text (\<lambda>vols t2.
          case remove_volumes d vols t2 of (errs, t3) \<Rightarrow> errors_join (problems @ errs) t3)) t1) (sdk_networks d tn) tn"
      by (simp add: do_RemoveEnv_def ask_def or_fail_def seq_def ta_def tn_def)
    show ?thesis
    proof (cases "sdk_networks d tn")
      case (Inl e)
      with assms run show ?thesis by (auto simp: or_fail_def give_up_def tn_def)
    next
      case (Inr nets)
      obtain problems tv where nets: "remove_networks d nets tn = (problems, tv)" by fastforce
      define tw where "tw = tv @ [VolumeListByEnv env8]"
      show ?thesis
      proof (cases "sdk_volumes d tw")
        case (Inl e)
        with assms run Inr nets show ?thesis by (auto simp: or_fail_def give_up_def ask_def tw_def)
      next
        case (Inr vs)
        obtain errs where vols: "remove_volumes d vs tw = (errs, tw @ map VolumeRemove vs)"
          using remove_volumes_trace [of d vs tw] by (cases "remove_volumes d vs tw") simp
        with assms run \<open>sdk_networks d tn = Inr nets\<close> nets Inr
        have res: "(r, t') = errors_join (problems @ errs) (tw @ map VolumeRemove vs)"
          by (simp add: or_fail_def ask_def tw_def)
        then have "t' = tw @ map VolumeRemove vs" "r = Inr () \<longrightarrow> errs = []"
          by (auto simp: errors_join_def ret_def give_up_def split: if_splits)
        with Inr remove_volumes_ok [of d vs tw] vols show ?thesis
          by (intro disjI1 exI [of _ tv] exI [of _ vs]) (auto simp: tw_def)
      qed
    qed
  qed
qed

theorem teardown_reaches_volumes_witness:
  "isl (fst (do_RemoveEnv ex_docker ''e1'' [])) \<and>
   (\<exists>tv vs. snd (do_RemoveEnv ex_docker ''e1'' []) = tv @ VolumeListByEnv ''e1'' # map VolumeRemove vs \<and> vs = [''data''])"
proof -
  have run: "do_RemoveEnv ex_docker ''e1'' [] = (Inl ''remove network net: in use'',
      [ContainerListByEnv ''e1'', NetworkListByEnv ''e1'', NetworkInspect ''n1'', NetworkDisconnect ''n1'' ''c1'', NetworkRemove ''n1'',
       VolumeListByEnv ''e1'', VolumeRemove ''data''])"
    by (simp add: do_RemoveEnv_def seq_def ask_def tell_def or_fail_def ret_def give_up_def remove_network_def
        unless_gone_def errors_join_def Let_def ex_docker_def)
  from teardown_reaches_volumes [OF run] show ?thesis
    unfolding run by (auto simp: ex_docker_def)
qed

section \<open>Routine cleanup spares strangers\<close>

definition unwanted :: "docker \<Rightarrow> string \<Rightarrow> string list \<Rightarrow> trace \<Rightarrow> string \<Rightarrow> bool" where
  "unwanted d env8 wanted tr i \<longleftrightarrow>
     (\<exists>tn nets name. prefix tn tr \<and> last tn = NetworkListByEnv env8 \<and> sdk_networks d tn = Inr nets \<and>
        (name, i) \<in> set nets \<and> name \<notin> set wanted)"

definition prune_allows :: "docker \<Rightarrow> string \<Rightarrow> string list \<Rightarrow> trace \<Rightarrow> sdk_call \<Rightarrow> bool" where
  "prune_allows d env8 wanted tr c =
     (case c of
        NetworkListByEnv e \<Rightarrow> e = env8
      | NetworkInspect i \<Rightarrow> True
      | ContainerInspect x \<Rightarrow> True
      | NetworkDisconnect i x \<Rightarrow>
          unwanted d env8 wanted tr i \<and> last tr = ContainerInspect x \<and>
          (\<exists>ctr. sdk_container d tr = Inr ctr \<and> (label_of ''cc.env'' (in_labels ctr) = env8 \<or> isIngressRouter (in_labels ctr)))
      | NetworkRemove i \<Rightarrow> unwanted d env8 wanted tr i
      | _ \<Rightarrow> False)"

lemma unwanted_later: "unwanted d env8 wanted tr i \<Longrightarrow> unwanted d env8 wanted (tr @ more1) i"
  unfolding unwanted_def by (meson prefix_order.trans prefixI)

lemma makes_extends: "makes P m t \<Longrightarrow> m t = (r, t1) \<Longrightarrow> \<exists>cs. t1 = t @ cs"
  by (auto simp: makes_def)

lemma makes_detach:
  "unwanted d env8 wanted t i \<Longrightarrow> makes (prune_allows d env8 wanted) (detach_managed d env8 name i cs) t"
proof (induction cs arbitrary: t)
  case (Cons c cs)
  have later: "makes (prune_allows d env8 wanted) (detach_managed d env8 name i cs) (t @ more1)" for more1
    using Cons by (blast intro: unwanted_later)
  show ?case
    unfolding detach_managed.simps
  proof (rule makes_ask)
    let ?t = "t @ [ContainerInspect c]"
    show "makes (prune_allows d env8 wanted) (case sdk_container d ?t of
        Inl e \<Rightarrow> if IsNotFound e then detach_managed d env8 name i cs
          else give_up (''inspect container '' @ c @ '' on network '' @ name @ '': '' @ sdk_text e)
      | Inr ctr \<Rightarrow>
          if label_of ''cc.env'' (in_labels ctr) \<noteq> env8 \<and> \<not> isIngressRouter (in_labels ctr)
          then give_up (''refusing to prune network '' @ name @ '': unmanaged container '' @ c @ '' is attached'')
          else tell (NetworkDisconnect i c) (sdk_done d) (\<lambda>r.
            case r of
              Some e \<Rightarrow>
                if IsNotFound e then detach_managed d env8 name i cs
                else give_up (''disconnect container '' @ c @ '' from network '' @ name @ '': '' @ sdk_text e)
            | None \<Rightarrow> detach_managed d env8 name i cs)) ?t"
    proof (cases "sdk_container d ?t")
      case (Inr ctr)
      have "makes (prune_allows d env8 wanted) (tell (NetworkDisconnect i c) (sdk_done d) (\<lambda>r.
            case r of
              Some e \<Rightarrow>
                if IsNotFound e then detach_managed d env8 name i cs
                else give_up (''disconnect container '' @ c @ '' from network '' @ name @ '': '' @ sdk_text e)
            | None \<Rightarrow> detach_managed d env8 name i cs)) ?t"
        if "label_of ''cc.env'' (in_labels ctr) = env8 \<or> isIngressRouter (in_labels ctr)"
      proof (rule makes_tell)
        show "prune_allows d env8 wanted ?t (NetworkDisconnect i c)"
          using that Inr unwanted_later [OF Cons.prems] by (simp add: prune_allows_def)
      qed (use later [of "[ContainerInspect c, NetworkDisconnect i c]"] in \<open>auto split: option.split\<close>)
      with Inr show ?thesis by simp
    qed (use later [of "[ContainerInspect c]"] in simp)
  qed (simp add: prune_allows_def)
qed simp

lemma makes_pruneNetwork:
  assumes "unwanted d env8 wanted t i"
  shows "makes (prune_allows d env8 wanted) (pruneNetwork d env8 name i) t"
  unfolding pruneNetwork_def
proof (rule makes_ask)
  let ?t = "t @ [NetworkInspect i]"
  note here = unwanted_later [OF assms, of "[NetworkInspect i]"]
  have "makes (prune_allows d env8 wanted) (seq (detach_managed d env8 name i cs) (\<lambda>_.
      tell (NetworkRemove i) (sdk_done d) (\<lambda>r. case r of
          Some e \<Rightarrow> if IsNotFound e then ret () else give_up (''remove network '' @ name @ '': '' @ sdk_text e)
        | None \<Rightarrow> ret ()))) ?t" for cs
  proof (rule makes_seq [OF makes_detach [OF here]])
    fix v t1 assume "detach_managed d env8 name i cs ?t = (Inr v, t1)"
    then obtain more1 where "t1 = ?t @ more1" using makes_extends [OF makes_detach [OF here]] by blast
    then have "unwanted d env8 wanted t1 i" using unwanted_later [OF here] by simp
    then show "makes (prune_allows d env8 wanted) (tell (NetworkRemove i) (sdk_done d) (\<lambda>r. case r of
          Some e \<Rightarrow> if IsNotFound e then ret () else give_up (''remove network '' @ name @ '': '' @ sdk_text e)
        | None \<Rightarrow> ret ())) t1"
      by (intro makes_tell) (auto simp: prune_allows_def split: option.split)
  qed
  then show "makes (prune_allows d env8 wanted) (case sdk_attached d ?t of
      Inl e \<Rightarrow> if IsNotFound e then ret () else give_up (''inspect network '' @ name @ '': '' @ sdk_text e)
    | Inr cs \<Rightarrow> seq (detach_managed d env8 name i cs) (\<lambda>_. tell (NetworkRemove i) (sdk_done d) (\<lambda>r. case r of
          Some e \<Rightarrow> if IsNotFound e then ret () else give_up (''remove network '' @ name @ '': '' @ sdk_text e)
        | None \<Rightarrow> ret ()))) ?t"
    by (auto split: sum.split)
qed (simp add: prune_allows_def)

lemma makes_prune_all:
  "(\<And>name i. (name, i) \<in> set nets \<Longrightarrow> name \<notin> set wanted \<Longrightarrow> unwanted d env8 wanted t i) \<Longrightarrow>
   makes (prune_allows d env8 wanted) (prune_all d env8 wanted nets) t"
proof (induction nets arbitrary: t)
  case (Cons n nets)
  obtain name i where n: "n = (name, i)" by (cases n)
  show ?case
  proof (cases "name \<in> set wanted")
    case True
    with Cons n have "makes (prune_allows d env8 wanted) (prune_all d env8 wanted nets) t" by auto
    then show ?thesis using n True by (simp add: makes_def)
  next
    case False
    have un: "unwanted d env8 wanted t i" by (rule Cons.prems) (use n False in auto)
    show ?thesis
    proof (rule makes_then [where m = "pruneNetwork d env8 name i" and k = "\<lambda>_. prune_all d env8 wanted nets"])
      show mk: "makes (prune_allows d env8 wanted) (pruneNetwork d env8 name i) t" by (rule makes_pruneNetwork [OF un])
      show "makes (prune_allows d env8 wanted) (prune_all d env8 wanted nets) t1" if ran: "pruneNetwork d env8 name i t = (r, t1)" for r t1
      proof -
        obtain more1 where t1: "t1 = t @ more1" using makes_extends [OF mk ran] by blast
        show ?thesis unfolding t1 by (rule Cons.IH) (use Cons.prems n in \<open>auto intro: unwanted_later\<close>)
      qed
      show "snd (prune_all d env8 wanted (n # nets) t) =
          snd (prune_all d env8 wanted nets (snd (pruneNetwork d env8 name i t)))"
        using n False by (simp split: prod.split)
    qed
  qed
qed (simp add: makes_none)

text \<open>
  C40: the cleanup that runs on every tick takes no network that is still wanted or belongs to another
  environment, and takes a container off one only after seeing that it is the environment's own or a
  router of the platform. It removes no container and no volume, whatever the daemon answers.
\<close>

theorem cleanup_spares_strangers:
  "makes (prune_allows d env8 wanted) (do_PruneRevisionNetworks d env8 wanted) t"
  unfolding do_PruneRevisionNetworks_def
proof (intro makes_ask makes_or_fail)
  let ?t = "t @ [NetworkListByEnv env8]"
  fix nets assume nets: "sdk_networks d ?t = Inr nets"
  have "unwanted d env8 wanted ?t i" if "(name, i) \<in> set nets" "name \<notin> set wanted" for name i
    unfolding unwanted_def using nets that by (intro exI [of _ ?t] exI [of _ nets] exI [of _ name]) simp
  then have "makes (prune_allows d env8 wanted) (prune_all d env8 wanted nets) ?t" by (rule makes_prune_all)
  then show "makes (prune_allows d env8 wanted)
      (\<lambda>t. case prune_all d env8 wanted nets t of (errs, t1) \<Rightarrow> errors_join errs t1) ?t"
    by (rule makes_then [where k = "errors_join"]) (auto simp: errors_join_def split: prod.split)
qed (simp add: prune_allows_def)

section \<open>Log frames\<close>

definition frame :: "nat \<times> string \<Rightarrow> string" where
  "frame m =
     (let n = length (snd m) in
      map char_of [fst m, 0, 0, 0, n div 2 ^ 24, n div 2 ^ 16 mod 256, n div 2 ^ 8 mod 256, n mod 256] @ snd m)"

lemma byte_char_of [simp]: "byte (char_of n) = n mod 256"
  by (simp add: byte_def)

lemma big_endian:
  fixes n :: nat
  shows "(n div 2 ^ 24) * 2 ^ 24 + (n div 2 ^ 16 mod 256) * 2 ^ 16 + (n div 2 ^ 8 mod 256) * 2 ^ 8 + n mod 256 = n"
proof -
  define a b c where abc: "a = n div 256" "b = a div 256" "c = b div 256"
  have "n = 256 * a + n mod 256" "a = 256 * b + a mod 256" "b = 256 * c + b mod 256" by (simp_all add: abc)
  moreover have "n div 2 ^ 8 = a" "n div 2 ^ 16 = b" "n div 2 ^ 24 = c" by (simp_all add: abc flip: div_mult2_eq)
  ultimately show ?thesis by simp
qed

lemma demux_frame:
  assumes "fst m \<le> 2" "length (snd m) < 2 ^ 32"
  shows "demux (frame m @ rest) = snd m @ demux rest"
proof -
  let ?n = "length (snd m)"
  have size: "frame_size (frame m @ rest) = ?n"
  proof -
    have "?n div 2 ^ 24 < 256" using assms(2) by simp
    then have "frame_size (frame m @ rest) =
        (?n div 2 ^ 24) * 2 ^ 24 + (?n div 2 ^ 16 mod 256) * 2 ^ 16 + (?n div 2 ^ 8 mod 256) * 2 ^ 8 + ?n mod 256"
      by (simp add: frame_size_def frame_def Let_def)
    also have "\<dots> = ?n" by (rule big_endian)
    finally show ?thesis .
  qed
  have "framed (frame m @ rest)" using assms(1) by (simp add: framed_def frame_def Let_def)
  then show ?thesis using size by (subst demux.simps) (simp add: frame_def Let_def)
qed

lemma length_demux: "length (demux raw) \<le> length raw"
proof (induction raw rule: demux.induct)
  case (1 raw)
  show ?case
  proof (cases "framed raw")
    case True
    let ?n = "min (frame_size raw) (length (drop 8 raw))"
    have "demux raw = take ?n (drop 8 raw) @ demux (drop ?n (drop 8 raw))"
      using True by (simp add: demux.simps [of raw] Let_def)
    then show ?thesis using 1 [OF True refl refl] by simp
  qed (simp add: demux.simps [of raw])
qed

text \<open>
  C35: reading back Docker's framing loses nothing and adds nothing: a stream of messages of stdout and
  stderr comes out as their contents in order. Whatever the bytes, framed or not, the answer is no longer
  than the cap and the note that it was cut.
\<close>

theorem log_frames_round_trip:
  assumes "\<forall>m \<in> set ms. fst m \<le> 2 \<and> length (snd m) < 2 ^ 32" "length (concat (map frame ms)) \<le> cap"
  shows "demuxLogs (concat (map frame ms)) cap = concat (map snd ms) \<and>
    length (demuxLogs raw cap) \<le> cap + length truncated_note"
proof
  have "demux (concat (map frame ms)) = concat (map snd ms)"
    using assms(1)
  proof (induction ms)
    case Nil
    show ?case by (simp add: demux.simps [of "[]"] framed_def)
  qed (simp add: demux_frame)
  with assms(2) show "demuxLogs (concat (map frame ms)) cap = concat (map snd ms)" by (simp add: demuxLogs_def)
  have "length (demux (take cap raw)) \<le> cap" using length_demux [of "take cap raw"] by simp
  then show "length (demuxLogs raw cap) \<le> cap + length truncated_note" unfolding demuxLogs_def by auto
qed

theorem log_frames_round_trip_witness:
  "demuxLogs (concat (map frame [(1, ''out''), (2, ''err'')])) 100 = ''outerr''"
  using log_frames_round_trip [of "[(1, ''out''), (2, ''err'')]" 100 "[]"] by (simp add: frame_def Let_def)

end
