(* ===== verification/Agent_Process.thy ===== *)
theory Agent_Process
  imports Docker_Driver Router_Config Store_Logs
begin

text \<open>
  \<open>internal/transport\<close>, \<open>internal/agent/config.go\<close>, \<open>agent.go\<close> and \<open>logs.go\<close>: where an agent may send its
  credentials, its configuration, registration, and one iteration of its loop around the reconciler.
  The control plane is seen through its answers, which are a function of the requests made so far;
  decryption, name resolution and the parsers of URLs and addresses are arguments.
\<close>

section \<open>Where credentials may be sent\<close>

text \<open>Host names and flags are ASCII, where \<open>strings.ToLower\<close> works byte by byte.\<close>

definition lower_char :: "char \<Rightarrow> char" where
  "lower_char ch = (let n = of_char ch :: nat in if 65 \<le> n \<and> n \<le> 90 then char_of (n + 32) else ch)"

definition to_lower :: "string \<Rightarrow> string" where
  "to_lower = map lower_char"

text \<open>\<open>parse_ip\<close> is \<open>net.ParseIP\<close>: nothing, or whether the address is loopback.\<close>

definition plaintextIsContained :: "(string \<Rightarrow> bool option) \<Rightarrow> string \<Rightarrow> bool" where
  "plaintextIsContained parse_ip host =
     (let h = to_lower (trim_suffix host ''.'') in
      case parse_ip h of
        Some loopback \<Rightarrow> loopback
      | None \<Rightarrow>
          if h = ''localhost'' \<or> has_suffix h ''.localhost'' then True
          else if has_suffix h ''.internal'' then True
          else \<not> contains h ''.'')"

datatype url_error = UrlError string | InsecureError string string

definition newline :: string where
  "newline = [char_of (10 :: nat)]"

definition insecure_text :: "string \<Rightarrow> string \<Rightarrow> string" where
  "insecure_text url host =
     ''refusing to send credentials in the clear to '' @ url @ '': '' @ host @ '' is not loopback '' @
     ''or a container network, so the bearer token and any age ciphertext would cross it unencrypted. '' @
     ''Use https:// (terminate TLS at a reverse proxy in front of the control plane), '' @
     ''or set the insecure opt-in if this network really is trusted''"

text \<open>\<open>parse_url\<close> is \<open>url.Parse\<close>: the text of its error, or scheme and host name.\<close>

definition CheckBaseURL :: "(string \<Rightarrow> string + string \<times> string) \<Rightarrow> (string \<Rightarrow> bool option) \<Rightarrow> string \<Rightarrow> url_error option" where
  "CheckBaseURL parse_url parse_ip raw =
     (case parse_url raw of
        Inl e \<Rightarrow> Some (UrlError (''invalid control plane URL '' @ quoted raw @ '': '' @ e))
      | Inr (scheme, host) \<Rightarrow>
          if scheme = ''https'' then None
          else if scheme = [] then
            Some (UrlError (''control plane URL '' @ quoted raw @ '' needs a scheme, e.g. https://host:8417''))
          else if scheme \<noteq> ''http'' then
            Some (UrlError (''control plane URL '' @ quoted raw @ '' has unsupported scheme '' @ quoted scheme @ ''; use https or http''))
          else if host = [] then Some (UrlError (''control plane URL '' @ quoted raw @ '' has no host''))
          else if plaintextIsContained parse_ip host then None
          else Some (InsecureError raw host))"

definition Insecure :: "string \<Rightarrow> bool" where
  "Insecure v \<longleftrightarrow> to_lower (trim_space v) \<in> set [''1'', ''true'', ''yes'', ''on'']"

section \<open>Configuration\<close>

text \<open>The environment of the process is a function; an unset variable is the empty string.\<close>

definition envOr :: "(string \<Rightarrow> string) \<Rightarrow> string \<Rightarrow> string \<Rightarrow> string" where
  "envOr getenv key def = (if getenv key \<noteq> [] then getenv key else def)"

definition intEnv :: "(string \<Rightarrow> string) \<Rightarrow> string \<Rightarrow> int \<Rightarrow> int" where
  "intEnv getenv key def =
     (if getenv key = [] then def else case parse_int (getenv key) of None \<Rightarrow> def | Some n \<Rightarrow> n)"

fun split_on :: "char \<Rightarrow> string \<Rightarrow> string list" where
  "split_on ch [] = [[]]"
| "split_on ch (x # xs) =
     (if x = ch then [] # split_on ch xs
      else case split_on ch xs of [] \<Rightarrow> [[x]] | p # ps \<Rightarrow> (x # p) # ps)"

definition cut :: "char \<Rightarrow> string \<Rightarrow> string \<times> string \<times> bool" where
  "cut ch s =
     (if ch \<in> set s then (takeWhile (\<lambda>x. x \<noteq> ch) s, tl (dropWhile (\<lambda>x. x \<noteq> ch) s), True) else (s, [], False))"

fun label_loop :: "string list \<Rightarrow> string gomap \<Rightarrow> string gomap" where
  "label_loop [] out = out"
| "label_loop (part # parts) out =
     (case cut (CHR ''='') (trim_space part) of
        (k, v, ok) \<Rightarrow>
          if \<not> ok \<or> trim_space k = [] then label_loop parts out
          else label_loop parts (put (trim_space k) (trim_space v) out))"

definition parseLabels :: "string \<Rightarrow> string gomap option" where
  "parseLabels s =
     (if s = [] then None
      else let out = label_loop (split_on (CHR '','') s) [] in if out = [] then None else Some out)"

text \<open>\<open>lookup\<close> is \<open>net.LookupIP\<close>: an error, or the addresses, each with the text of its IPv4 form if it has one.\<close>

definition resolveAdvertiseAddr ::
  "(string \<Rightarrow> bool option) \<Rightarrow> (string \<Rightarrow> string + (string \<times> string option) list) \<Rightarrow> string \<Rightarrow> string + string" where
  "resolveAdvertiseAddr parse_ip lookup addr =
     (if addr = [] then Inr []
      else if parse_ip addr \<noteq> None then Inr addr
      else case lookup addr of
        Inl e \<Rightarrow> Inl (''resolve advertise address '' @ quoted addr @ '': '' @ e)
      | Inr ips \<Rightarrow>
          (case List.find (\<lambda>x. snd x \<noteq> None) ips of
             Some x \<Rightarrow> Inr (the (snd x))
           | None \<Rightarrow> (case ips of
               x # _ \<Rightarrow> Inr (fst x)
             | [] \<Rightarrow> Inl (''advertise address '' @ quoted addr @ '' resolved to nothing''))))"

record agent_config =
  ag_url :: string
  ag_org :: string
  ag_hostname :: string
  ag_advertise :: string
  ag_token :: string
  ag_docker :: string
  ag_cpu :: int
  ag_memory :: int
  ag_poll :: int
  ag_identity :: string
  ag_token_file :: string
  ag_labels :: "string gomap option"
  ag_router_dir :: string
  ag_cert_resolver :: string
  ag_insecure :: bool

record agent_outside =
  ao_getenv :: "string \<Rightarrow> string"
  ao_hostname :: string
  ao_cpus :: int
  ao_parse_url :: "string \<Rightarrow> string + string \<times> string"
  ao_parse_ip :: "string \<Rightarrow> bool option"
  ao_lookup :: "string \<Rightarrow> string + (string \<times> string option) list"
  ao_token_path :: "string \<Rightarrow> string"

definition read_config :: "agent_outside \<Rightarrow> agent_config" where
  "read_config x =
     (let e = ao_getenv x; identity = envOr e ''COMPOSECTL_AGE_IDENTITY_FILE'' ''/identity/age.key'' in
      \<lparr>ag_url = envOr e ''COMPOSECTL_CONTROLPLANE_URL'' ''http://controlplane:8417'',
       ag_org = envOr e ''COMPOSECTL_ORG'' ''dev'',
       ag_hostname = envOr e ''COMPOSECTL_NODE_HOSTNAME'' (ao_hostname x),
       ag_advertise = envOr e ''COMPOSECTL_ADVERTISE_ADDR'' ''127.0.0.1'',
       ag_token = e ''COMPOSECTL_AGENT_TOKEN'', ag_docker = e ''DOCKER_HOST'',
       ag_cpu = intEnv e ''COMPOSECTL_NODE_CPU_MILLIS'' (ao_cpus x * 1000),
       ag_memory = i64 (intEnv e ''COMPOSECTL_NODE_MEMORY_MB'' 8192 * 2 ^ 20),
       ag_poll = i64 (intEnv e ''COMPOSECTL_POLL_SECONDS'' 2 * seconds 1),
       ag_identity = identity, ag_token_file = envOr e ''COMPOSECTL_NODE_TOKEN_FILE'' (ao_token_path x identity),
       ag_labels = parseLabels (e ''COMPOSECTL_NODE_LABELS''), ag_router_dir = e ''COMPOSECTL_ROUTER_DIR'',
       ag_cert_resolver = e ''COMPOSECTL_ROUTER_CERT_RESOLVER'', ag_insecure = False\<rparr>)"

definition check_transport :: "agent_outside \<Rightarrow> agent_config \<Rightarrow> string + agent_config" where
  "check_transport x cfg =
     (case CheckBaseURL (ao_parse_url x) (ao_parse_ip x) (ag_url cfg) of
        None \<Rightarrow> Inr cfg
      | Some (UrlError e) \<Rightarrow> Inl e
      | Some (InsecureError url host) \<Rightarrow>
          if Insecure (ao_getenv x ''COMPOSECTL_INSECURE'') then Inr (cfg\<lparr>ag_insecure := True\<rparr>)
          else Inl (insecure_text url host @ newline @ newline @ ''Set COMPOSECTL_INSECURE=1 to proceed anyway''))"

definition LoadConfig :: "agent_outside \<Rightarrow> string + agent_config" where
  "LoadConfig x =
     (let cfg = read_config x in
      if ag_url cfg = [] then Inl ''COMPOSECTL_CONTROLPLANE_URL is required''
      else if ag_token cfg = [] then Inl ''COMPOSECTL_AGENT_TOKEN is required''
      else case check_transport x cfg of
        Inl e \<Rightarrow> Inl e
      | Inr cfg1 \<Rightarrow>
          (case resolveAdvertiseAddr (ao_parse_ip x) (ao_lookup x) (ag_advertise cfg1) of
             Inl e \<Rightarrow> Inl e
           | Inr addr \<Rightarrow> Inr (cfg1\<lparr>ag_advertise := addr\<rparr>)))"

section \<open>Talking to the control plane\<close>

record log_delivery =
  ld_request :: uuid
  ld_data :: string
  ld_err :: string

datatype cp_body =
    NoBody
  | RegisterBody agent_config string
  | ReportBody "report list"
  | LogsBody "log_delivery list"
  | HeartbeatBody int int

record cp_request =
  cq_post :: bool
  cq_path :: string
  cq_token :: string
  cq_body :: cp_body

record desired_state =
  ds_instances :: "desired_instance list"
  ds_secrets :: "(string \<times> (string \<times> string) list) list"
  ds_teardown :: "string list"
  ds_logs :: "pending_log list"

type_synonym sent = "cp_request list"

text \<open>The left summand is an error of the transport or a status of 300 and above.\<close>

record control_plane =
  cp_register :: "sent \<Rightarrow> string + uuid \<times> string"
  cp_desired :: "sent \<Rightarrow> string + desired_state"
  cp_routes :: "sent \<Rightarrow> string + route list"
  cp_ack :: "sent \<Rightarrow> string option"

definition node_path :: "uuid \<Rightarrow> string \<Rightarrow> string" where
  "node_path node what = ''/v1/nodes/'' @ node @ ''/'' @ what"

text \<open>
  The file of the node's token: \<open>tf_write\<close> creates its directory and writes it, \<open>tf_read\<close> reads it.
\<close>

record token_file =
  tf_write :: "string \<Rightarrow> string \<Rightarrow> string option"
  tf_read :: "string \<Rightarrow> string option"

definition persistNodeToken :: "token_file \<Rightarrow> string \<Rightarrow> string \<Rightarrow> string option" where
  "persistNodeToken f path token = (if path = [] then None else tf_write f path (token @ newline))"

definition loadNodeToken :: "token_file \<Rightarrow> string \<Rightarrow> string" where
  "loadNodeToken f path =
     (if path = [] then [] else case tf_read f path of None \<Rightarrow> [] | Some b \<Rightarrow> trim_space b)"

text \<open>
  \<open>register\<close>: the answer may carry a token, which is saved and used from then on; else the saved one is
  used, if there is one. The result is the node and the token of the requests to come.
\<close>

definition register ::
  "control_plane \<Rightarrow> agent_config \<Rightarrow> string \<Rightarrow> token_file \<Rightarrow> sent \<Rightarrow> (string + uuid \<times> string) \<times> sent" where
  "register cp cfg recipient f ss =
     (let ss1 = ss @ [\<lparr>cq_post = True, cq_path = ''/v1/nodes/register'', cq_token = ag_token cfg,
                       cq_body = RegisterBody cfg recipient\<rparr>]
      in case cp_register cp ss1 of
           Inl e \<Rightarrow> (Inl e, ss1)
         | Inr (node, token) \<Rightarrow>
             if token \<noteq> [] then
               (case persistNodeToken f (ag_token_file cfg) token of
                  Some e \<Rightarrow> (Inl (''persist node token: '' @ e), ss1)
                | None \<Rightarrow> (Inr (node, token), ss1))
             else let saved = loadNodeToken f (ag_token_file cfg) in
               if saved \<noteq> [] then (Inr (node, saved), ss1) else (Inr (node, ag_token cfg), ss1))"

text \<open>A ciphertext that does not open is skipped; a later one for the same key wins.\<close>

fun decrypt_all :: "(string \<Rightarrow> string option) \<Rightarrow> (string \<times> string) list \<Rightarrow> string gomap \<Rightarrow> string gomap" where
  "decrypt_all decrypt [] m = m"
| "decrypt_all decrypt ((k, c) # list) m =
     (case decrypt c of None \<Rightarrow> decrypt_all decrypt list m | Some v \<Rightarrow> decrypt_all decrypt list (put k v m))"

definition secret_sources :: "(string \<Rightarrow> string option) \<Rightarrow> desired_state \<Rightarrow> string \<Rightarrow> secret_source" where
  "secret_sources decrypt ds env8 =
     map_option (\<lambda>list. map_of (decrypt_all decrypt list [])) (map_of (ds_secrets ds) env8)"

fun CollectLogs :: "docker \<Rightarrow> (time \<Rightarrow> string) \<Rightarrow> pending_log list \<Rightarrow> trace \<Rightarrow> log_delivery list \<times> trace" where
  "CollectLogs d fmt [] t = ([], t)"
| "CollectLogs d fmt (q # qs) t =
     (case do_ContainerLogs d fmt (pl_container q) (pl_tail q) (pl_since q) t of
        (r, t1) \<Rightarrow> (case CollectLogs d fmt qs t1 of
          (rest, t2) \<Rightarrow>
            ((case r of
                Inl e \<Rightarrow> \<lparr>ld_request = pl_id q, ld_data = [], ld_err = e\<rparr>
              | Inr data \<Rightarrow> \<lparr>ld_request = pl_id q, ld_data = data, ld_err = []\<rparr>) # rest, t2)))"

definition get_desired :: "uuid \<Rightarrow> string \<Rightarrow> cp_request" where
  "get_desired node tok = \<lparr>cq_post = False, cq_path = node_path node ''desired-state'', cq_token = tok, cq_body = NoBody\<rparr>"

definition post_report :: "uuid \<Rightarrow> string \<Rightarrow> report list \<Rightarrow> cp_request" where
  "post_report node tok reports = \<lparr>cq_post = True, cq_path = node_path node ''report'', cq_token = tok, cq_body = ReportBody reports\<rparr>"

definition heartbeat_of :: "uuid \<Rightarrow> string \<Rightarrow> desired_state \<Rightarrow> cp_request" where
  "heartbeat_of node tok ds = \<lparr>cq_post = True, cq_path = node_path node ''heartbeat'', cq_token = tok,
     cq_body = HeartbeatBody (fst (desiredAllocations (ds_instances ds))) (snd (desiredAllocations (ds_instances ds)))\<rparr>"

definition post_logs :: "uuid \<Rightarrow> string \<Rightarrow> log_delivery list \<Rightarrow> cp_request" where
  "post_logs node tok ds = \<lparr>cq_post = True, cq_path = node_path node ''logs'', cq_token = tok, cq_body = LogsBody ds\<rparr>"

record agent_state =
  as_rec :: reconciler
  as_driver :: history
  as_docker :: trace
  as_sent :: sent

record agent_env =
  ae_cp :: control_plane
  ae_driver :: driver
  ae_docker :: docker
  ae_time :: "time \<Rightarrow> string"
  ae_decrypt :: "string \<Rightarrow> string option"

definition finish_tick :: "agent_env \<Rightarrow> uuid \<Rightarrow> string \<Rightarrow> desired_state \<Rightarrow> agent_state \<Rightarrow> string option \<times> agent_state" where
  "finish_tick x node tok ds a =
     (case CollectLogs (ae_docker x) (ae_time x) (ds_logs ds) (as_docker a) of
        (deliveries, t1) \<Rightarrow>
          (let ss1 = (if deliveries = [] then as_sent a else as_sent a @ [post_logs node tok deliveries]);
               ss2 = ss1 @ [heartbeat_of node tok ds]
           in (cp_ack (ae_cp x) ss2, a\<lparr>as_docker := t1, as_sent := ss2\<rparr>)))"

definition reconcileTick :: "agent_env \<Rightarrow> uuid \<Rightarrow> string \<Rightarrow> agent_state \<Rightarrow> string option \<times> agent_state" where
  "reconcileTick x node tok a =
     (let ss1 = as_sent a @ [get_desired node tok]
      in case cp_desired (ae_cp x) ss1 of
           Inl e \<Rightarrow> (Some e, a\<lparr>as_sent := ss1\<rparr>)
         | Inr ds \<Rightarrow>
             (case Reconcile (ae_driver x) (ds_instances ds) (secret_sources (ae_decrypt x) ds) (ds_teardown ds)
                     (as_rec a) (as_driver a) of
                (reports, failures, r1, h1) \<Rightarrow>
                  let a1 = a\<lparr>as_rec := r1, as_driver := h1, as_sent := ss1\<rparr>;
                      ss2 = ss1 @ [post_report node tok reports]
                  in if reports = [] then finish_tick x node tok ds a1
                     else case cp_ack (ae_cp x) ss2 of
                       Some e \<Rightarrow> (Some e, a1\<lparr>as_sent := ss2\<rparr>)
                     | None \<Rightarrow> finish_tick x node tok ds (a1\<lparr>as_sent := ss2\<rparr>)))"

section \<open>Router mode\<close>

definition newRouter :: "agent_config \<Rightarrow> router option" where
  "newRouter cfg =
     (if ag_router_dir cfg = [] then None
      else Some \<lparr>certResolver = ag_cert_resolver cfg, wildcardSuffix = [], wildcardResolver = []\<rparr>)"

definition syncRoutes ::
  "control_plane \<Rightarrow> (traefik_routing \<Rightarrow> string + string) \<Rightarrow> router_io \<Rightarrow> router \<Rightarrow> uuid \<Rightarrow> string \<Rightarrow> sent \<Rightarrow> router_disk \<Rightarrow>
   string option \<times> sent \<times> router_disk" where
  "syncRoutes cp yaml io rtr node tok ss disk =
     (let ss1 = ss @ [\<lparr>cq_post = False, cq_path = node_path node ''routes'', cq_token = tok, cq_body = NoBody\<rparr>]
      in case cp_routes cp ss1 of
           Inl e \<Rightarrow> (Some e, ss1, disk)
         | Inr rr \<Rightarrow> (case Sync yaml io rtr rr disk of (e, disk1) \<Rightarrow> (e, ss1, disk1)))"

text \<open>
  One pass of the loop of \<open>Run\<close>: a tick, and in router mode the routes, whatever became of the tick. Both
  errors are only logged.
\<close>

definition run_pass ::
  "agent_env \<Rightarrow> (traefik_routing \<Rightarrow> string + string) \<Rightarrow> router_io \<Rightarrow> router option \<Rightarrow> uuid \<Rightarrow> string \<Rightarrow>
   agent_state \<times> router_disk \<Rightarrow> agent_state \<times> router_disk" where
  "run_pass x yaml io rtr node tok s =
     (case reconcileTick x node tok (fst s) of
        (_, a1) \<Rightarrow>
          (case rtr of
             None \<Rightarrow> (a1, snd s)
           | Some r \<Rightarrow>
               (case syncRoutes (ae_cp x) yaml io r node tok (as_sent a1) (snd s) of
                  (_, ss1, disk1) \<Rightarrow> (a1\<lparr>as_sent := ss1\<rparr>, disk1))))"

section \<open>Credentials do not travel in the clear\<close>

lemma CheckBaseURL_None:
  assumes "CheckBaseURL parse_url parse_ip raw = None"
  obtains scheme host where "parse_url raw = Inr (scheme, host)"
    "scheme = ''https'' \<or> scheme = ''http'' \<and> host \<noteq> [] \<and> plaintextIsContained parse_ip host"
proof (cases "parse_url raw")
  case (Inr p)
  obtain scheme host where p: "p = (scheme, host)" by (cases p)
  from assms Inr p show ?thesis by (intro that [OF Inr [unfolded p]]) (simp add: CheckBaseURL_def split: if_splits)
qed (use assms in \<open>simp add: CheckBaseURL_def\<close>)

lemma CheckBaseURL_Insecure:
  assumes "CheckBaseURL parse_url parse_ip raw = Some (InsecureError u h)"
  shows "parse_url raw = Inr (''http'', h) \<and> \<not> plaintextIsContained parse_ip h"
proof (cases "parse_url raw")
  case (Inr p)
  obtain scheme host where p: "p = (scheme, host)" by (cases p)
  from assms Inr p show ?thesis by (simp add: CheckBaseURL_def split: if_splits)
qed (use assms in \<open>simp add: CheckBaseURL_def\<close>)

lemma check_transport_ok:
  assumes "check_transport x cfg = Inr cfg1" "\<not> ag_insecure cfg"
  shows "\<exists>scheme host. ao_parse_url x (ag_url cfg) = Inr (scheme, host) \<and>
       (if ag_insecure cfg1
        then scheme = ''http'' \<and> \<not> plaintextIsContained (ao_parse_ip x) host \<and> Insecure (ao_getenv x ''COMPOSECTL_INSECURE'')
        else scheme = ''https'' \<or> scheme = ''http'' \<and> host \<noteq> [] \<and> plaintextIsContained (ao_parse_ip x) host)"
proof (cases "CheckBaseURL (ao_parse_url x) (ao_parse_ip x) (ag_url cfg)")
  case None
  then obtain scheme host where "ao_parse_url x (ag_url cfg) = Inr (scheme, host)"
    "scheme = ''https'' \<or> scheme = ''http'' \<and> host \<noteq> [] \<and> plaintextIsContained (ao_parse_ip x) host"
    by (rule CheckBaseURL_None)
  moreover have "cfg1 = cfg" using assms(1) None by (simp add: check_transport_def)
  ultimately show ?thesis using assms(2) by auto
next
  case (Some e)
  with assms(1) obtain u h where e: "e = InsecureError u h" and ins: "Insecure (ao_getenv x ''COMPOSECTL_INSECURE'')"
    and cfg1: "cfg1 = cfg\<lparr>ag_insecure := True\<rparr>"
    by (cases e) (auto simp: check_transport_def split: if_splits)
  from CheckBaseURL_Insecure [OF Some [unfolded e]] ins cfg1 show ?thesis by auto
qed

text \<open>
  The hosts plain HTTP is taken for without being asked, by their names: a loopback address; and, of what
  is not an address, \<open>localhost\<close> and the names below it, names below \<open>internal\<close>, and names without a dot.
  Case does not matter, nor one dot at the end.
\<close>

definition local_name :: "string \<Rightarrow> bool" where
  "local_name h \<longleftrightarrow> h = ''localhost'' \<or> (\<exists>p. h = p @ ''.localhost'') \<or> (\<exists>p. h = p @ ''.internal'') \<or> CHR ''.'' \<notin> set h"

definition clear_host :: "(string \<Rightarrow> bool option) \<Rightarrow> string \<Rightarrow> bool" where
  "clear_host parse_ip host \<longleftrightarrow>
     (\<exists>h. map lower_char host \<in> {h, h @ ''.''} \<and> (map lower_char host = h \<longrightarrow> \<not> (\<exists>q. h = q @ ''.'')) \<and>
        (parse_ip h = Some True \<or> parse_ip h = None \<and> local_name h))"

lemma has_suffix_iff: "has_suffix s p \<longleftrightarrow> (\<exists>q. s = q @ p)"
  by (auto elim: has_suffixE)

lemma contains_dot: "contains h ''.'' \<longleftrightarrow> CHR ''.'' \<in> set h"
proof -
  have "has_prefix (drop i h) ''.'' \<longleftrightarrow> i < length h \<and> h ! i = CHR ''.''" for i
    by (cases "i < length h") (simp_all add: has_prefix_def Cons_nth_drop_Suc [symmetric])
  then show ?thesis by (auto simp: contains_def list_ex_iff in_set_conv_nth simp del: upt_Suc)
qed

lemma lower_dot: "lower_char c = CHR ''.'' \<longleftrightarrow> c = CHR ''.''"
proof
  assume c: "lower_char c = CHR ''.''"
  show "c = CHR ''.''"
  proof (cases "65 \<le> (of_char c :: nat) \<and> (of_char c :: nat) \<le> 90")
    case True
    with c have "(of_char (char_of ((of_char c :: nat) + 32) :: char) :: nat) = of_char (CHR ''.'')" by (simp add: lower_char_def Let_def)
    with True show ?thesis by (simp add: of_char_of take_bit_eq_mod)
  qed (use c in \<open>auto simp: lower_char_def Let_def split: if_splits\<close>)
qed (simp add: lower_char_def Let_def)

lemma contained_iff: "plaintextIsContained parse_ip host \<longleftrightarrow> clear_host parse_ip host"
proof -
  have "local_name h \<longleftrightarrow> (if h = ''localhost'' \<or> has_suffix h ''.localhost'' then True
      else if has_suffix h ''.internal'' then True else \<not> contains h ''.'')" for h
    by (auto simp: local_name_def has_suffix_iff contains_dot)
  then have inner: "plaintextIsContained parse_ip host \<longleftrightarrow>
      (let h = to_lower (trim_suffix host ''.'') in parse_ip h = Some True \<or> parse_ip h = None \<and> local_name h)"
    by (simp add: plaintextIsContained_def Let_def split: option.split)
  show ?thesis
  proof (cases "\<exists>q. host = q @ ''.''")
    case True
    then obtain q where q: "host = q @ ''.''" by blast
    have "lower_char (CHR ''.'') = CHR ''.''" using lower_dot by blast
    then show ?thesis unfolding inner by (auto simp: q clear_host_def trim_suffix_def to_lower_def Let_def)
  next
    case False
    then have same: "trim_suffix host ''.'' = host" by (simp add: trim_suffix_def has_suffix_iff)
    have no: "map lower_char host \<noteq> q @ ''.''" for q
    proof
      assume "map lower_char host = q @ ''.''"
      then obtain a b where "host = a @ [b]" "lower_char b = CHR ''.''" by (auto simp: map_eq_append_conv)
      with lower_dot False show False by blast
    qed
    show ?thesis unfolding inner same by (auto simp: clear_host_def to_lower_def Let_def no)
  qed
qed


definition ex_agent_outside :: agent_outside where
  "ex_agent_outside = \<lparr>ao_getenv = (\<lambda>k. if k = ''COMPOSECTL_AGENT_TOKEN'' then ''t'' else []), ao_hostname = ''box'', ao_cpus = 4,
     ao_parse_url = (\<lambda>_. Inr (''http'', ''controlplane'')), ao_parse_ip = (\<lambda>h. if h = ''127.0.0.1'' then Some True else None),
     ao_lookup = (\<lambda>_. Inl ''no such host''), ao_token_path = (\<lambda>_. ''/identity/node.token'')\<rparr>"


text \<open>
  What the test for contained hosts misses: an IPv6 address with a zone is not an address to
  \<open>net.ParseIP\<close>, and having no dot it passes for a single-label name.
\<close>

theorem scoped_addresses_pass:
  assumes "\<And>h. CHR ''%'' \<in> set h \<Longrightarrow> parse_ip h = None"
  shows "plaintextIsContained parse_ip ''fe80::1%eth0''"
proof -
  have "trim_suffix ''fe80::1%eth0'' ''.'' = ''fe80::1%eth0''" "to_lower ''fe80::1%eth0'' = ''fe80::1%eth0''"
    "\<not> contains ''fe80::1%eth0'' ''.''" by code_simp+
  then show ?thesis using assms [of "''fe80::1%eth0''"] by (simp add: plaintextIsContained_def)
qed

section \<open>One iteration of the loop\<close>

lemma decrypt_all_lookup:
  "map_of (decrypt_all decrypt list m) k = Some v \<Longrightarrow> map_of m k \<noteq> Some v \<Longrightarrow> \<exists>c. (k, c) \<in> set list \<and> decrypt c = Some v"
  by (induction decrypt list m rule: decrypt_all.induct) (fastforce split: option.splits if_splits)+

text \<open>A container is offered only what was sealed for its own environment and opens with the node's key.\<close>

lemma secret_sources_own:
  assumes "secret_sources decrypt ds env8 = Some f" "f k = Some v"
  shows "\<exists>list c. map_of (ds_secrets ds) env8 = Some list \<and> (k, c) \<in> set list \<and> decrypt c = Some v"
  using assms decrypt_all_lookup [of decrypt _ "[]" k v] by (auto simp: secret_sources_def)

lemma CollectLogs_exclusive:
  "length (fst (CollectLogs d fmt qs t)) = length qs \<and> list_all (\<lambda>l. ld_data l = [] \<or> ld_err l = []) (fst (CollectLogs d fmt qs t))"
  by (induction d fmt qs t rule: CollectLogs.induct) (auto split: prod.split sum.split)

lemma finish_tick_sends:
  assumes "finish_tick x node tok ds a = (err, a')"
  shows "(\<exists>logs. as_sent a' = as_sent a @ logs @ [heartbeat_of node tok ds] \<and>
      (\<forall>q \<in> set logs. cq_token q = tok \<and> cq_path q = node_path node ''logs'')) \<and>
    err = cp_ack (ae_cp x) (as_sent a')"
  using assms by (auto simp: finish_tick_def post_logs_def Let_def split: prod.splits if_splits)

text \<open>
  C18: one iteration of the agent's loop. It speaks with its own token about its own node only. Without
  instructions it touches nothing. With them it runs the reconciler once, with the secrets it could
  decrypt, reports what that found, and ends with a heartbeat whose answer is the outcome; only a
  refused report stands in the way of the heartbeat, and trouble with logs never does.
\<close>

theorem agent_iteration:
  assumes "reconcileTick x node tok a = (err, a')"
  shows "\<exists>calls. as_sent a' = as_sent a @ get_desired node tok # calls \<and>
    (\<forall>q \<in> set calls. cq_token q = tok \<and> (\<exists>what. cq_path q = node_path node what)) \<and>
    (case cp_desired (ae_cp x) (as_sent a @ [get_desired node tok]) of
       Inl e \<Rightarrow> err = Some e \<and> calls = [] \<and> as_driver a' = as_driver a \<and> as_docker a' = as_docker a
     | Inr ds \<Rightarrow>
         (case Reconcile (ae_driver x) (ds_instances ds) (secret_sources (ae_decrypt x) ds) (ds_teardown ds)
                 (as_rec a) (as_driver a) of
            (reports, failures, r1, h1) \<Rightarrow>
              as_rec a' = r1 \<and> as_driver a' = h1 \<and>
              (let sent = as_sent a @ [get_desired node tok, post_report node tok reports] in
               if reports = [] \<or> cp_ack (ae_cp x) sent = None
               then last calls = heartbeat_of node tok ds \<and> err = cp_ack (ae_cp x) (as_sent a') \<and>
                 (reports \<noteq> [] \<longrightarrow> hd calls = post_report node tok reports)
               else calls = [post_report node tok reports] \<and> err = cp_ack (ae_cp x) sent)))"
proof (cases "cp_desired (ae_cp x) (as_sent a @ [get_desired node tok])")
  case (Inl e)
  with assms show ?thesis by (intro exI [of _ "[]"]) (auto simp: reconcileTick_def)
next
  case (Inr ds)
  obtain reports failures r1 h1 where rc: "Reconcile (ae_driver x) (ds_instances ds) (secret_sources (ae_decrypt x) ds)
      (ds_teardown ds) (as_rec a) (as_driver a) = (reports, failures, r1, h1)" by (metis prod_cases4)
  let ?ss1 = "as_sent a @ [get_desired node tok]" and ?rep = "post_report node tok reports"
  let ?a1 = "a\<lparr>as_rec := r1, as_driver := h1, as_sent := ?ss1\<rparr>"
  have kept: "as_rec b' = as_rec b \<and> as_driver b' = as_driver b" if "finish_tick x node tok ds b = (e, b')" for b b' e
    using that by (auto simp: finish_tick_def Let_def split: prod.splits)
  have run: "reconcileTick x node tok a =
      (if reports = [] then finish_tick x node tok ds ?a1
       else case cp_ack (ae_cp x) (?ss1 @ [?rep]) of
         Some e \<Rightarrow> (Some e, ?a1\<lparr>as_sent := ?ss1 @ [?rep]\<rparr>)
       | None \<Rightarrow> finish_tick x node tok ds (?a1\<lparr>as_sent := ?ss1 @ [?rep]\<rparr>))"
    using Inr rc by (simp add: reconcileTick_def Let_def split: option.split)
  consider "reports = []" "finish_tick x node tok ds ?a1 = (err, a')"
    | e where "reports \<noteq> []" "cp_ack (ae_cp x) (?ss1 @ [?rep]) = Some e" "err = Some e" "a' = ?a1\<lparr>as_sent := ?ss1 @ [?rep]\<rparr>"
    | "reports \<noteq> []" "cp_ack (ae_cp x) (?ss1 @ [?rep]) = None" "finish_tick x node tok ds (?a1\<lparr>as_sent := ?ss1 @ [?rep]\<rparr>) = (err, a')"
    using assms run by (auto split: if_splits option.splits)
  then show ?thesis
  proof cases
    case 1
    with finish_tick_sends [OF 1(2)] kept [OF 1(2)] Inr rc show ?thesis
      by (auto simp: heartbeat_of_def Let_def)
  next
    case (2 e)
    with Inr rc show ?thesis by (auto simp: post_report_def Let_def)
  next
    case 3
    with finish_tick_sends [OF 3(3)] kept [OF 3(3)] Inr rc show ?thesis
      by (auto simp: heartbeat_of_def post_report_def Let_def)
  qed
qed

definition ex_instructions :: desired_state where
  "ex_instructions = \<lparr>ds_instances = [], ds_secrets = [], ds_teardown = [], ds_logs =
     [\<lparr>pl_id = ''l1'', pl_container = ''c9'', pl_tail = 10, pl_since = None, pl_follow = False, pl_service = ''web''\<rparr>]\<rparr>"

text \<open>A control plane that refuses log deliveries and takes everything else.\<close>

definition ex_plane_answers :: control_plane where
  "ex_plane_answers = \<lparr>cp_register = (\<lambda>_. Inr (''n1'', [])), cp_desired = (\<lambda>_. Inr ex_instructions), cp_routes = (\<lambda>_. Inr []),
     cp_ack = (\<lambda>ss. case cq_body (last ss) of LogsBody _ \<Rightarrow> Some ''503'' | _ \<Rightarrow> None)\<rparr>"

definition ex_quiet_driver :: driver where
  "ex_quiet_driver = \<lparr>ans_image = (\<lambda>_. Inl []), ans_network = (\<lambda>_. Inl []), ans_volume = (\<lambda>_. None), ans_container = (\<lambda>_. Inl []),
     ans_attach = (\<lambda>_. None), ans_health = (\<lambda>_. Inl []), ans_stop = (\<lambda>_. None), ans_managed = (\<lambda>_. Inr []), ans_prune = (\<lambda>_. None),
     ans_remove_env = (\<lambda>_. None), drv_clock = (\<lambda>_. 0)\<rparr>"

definition ex_agent :: agent_env where
  "ex_agent = \<lparr>ae_cp = ex_plane_answers, ae_driver = ex_quiet_driver, ae_docker = ex_docker\<lparr>sdk_logs := (\<lambda>_. Inl (SdkError ''gone''))\<rparr>, ae_time = (\<lambda>_. []), ae_decrypt = (\<lambda>_. None)\<rparr>"

definition ex_agent_start :: agent_state where
  "ex_agent_start = \<lparr>as_rec = NewReconciler, as_driver = [], as_docker = [], as_sent = []\<rparr>"

theorem agent_iteration_witness:
  "\<exists>calls. as_sent (snd (reconcileTick ex_agent ''n1'' ''t'' ex_agent_start)) = get_desired ''n1'' ''t'' # calls \<and>
     last calls = heartbeat_of ''n1'' ''t'' ex_instructions"
proof -
  obtain err a' where run: "reconcileTick ex_agent ''n1'' ''t'' ex_agent_start = (err, a')" by fastforce
  have told: "cp_desired (ae_cp ex_agent) (as_sent ex_agent_start @ [get_desired ''n1'' ''t'']) = Inr ex_instructions"
    by (simp add: ex_agent_def ex_plane_answers_def)
  obtain reports failures r1 h1 where rc: "Reconcile (ae_driver ex_agent) (ds_instances ex_instructions)
      (secret_sources (ae_decrypt ex_agent) ex_instructions) (ds_teardown ex_instructions)
      (as_rec ex_agent_start) (as_driver ex_agent_start) = (reports, failures, r1, h1)" by (metis prod_cases4)
  have "fst (Reconcile (ae_driver ex_agent) (ds_instances ex_instructions) (secret_sources (ae_decrypt ex_agent) ex_instructions)
      (ds_teardown ex_instructions) (as_rec ex_agent_start) (as_driver ex_agent_start)) = []" by code_simp
  with rc have quiet: "reports = []" by simp
  have fresh: "as_sent ex_agent_start = []" by (simp add: ex_agent_start_def)
  from agent_iteration [OF run] show ?thesis
    by (auto simp: run told [simplified fresh, simplified] rc quiet fresh Let_def)
qed

end
