(* ===== verification/Go_Url.thy ===== *)
theory Go_Url
  imports Prelude
begin

text \<open>
  Go's \<open>net/url\<close>: escaping of a path segment and of a query value, and the unescaping a server applies.
  Strings are sequences of bytes. What was escaped is read back, and an escaped value contains none of
  the characters that delimit segments or parameters.
\<close>

section \<open>Hexadecimal digits\<close>

definition hex_digit :: "nat \<Rightarrow> char" where
  "hex_digit n = ''0123456789ABCDEF'' ! n"

definition hex_value :: "char \<Rightarrow> nat option" where
  "hex_value ch = (let n = of_char ch :: nat in
     if 48 \<le> n \<and> n \<le> 57 then Some (n - 48)
     else if 97 \<le> n \<and> n \<le> 102 then Some (n - 87)
     else if 65 \<le> n \<and> n \<le> 70 then Some (n - 55)
     else None)"

definition percent :: "char \<Rightarrow> string" where
  "percent ch = (let n = of_char ch :: nat in [CHR ''%'', hex_digit (n div 16), hex_digit (n mod 16)])"

section \<open>Escaping\<close>

definition alnum :: "char \<Rightarrow> bool" where
  "alnum ch = (let n = of_char ch :: nat in 48 \<le> n \<and> n \<le> 57 \<or> 65 \<le> n \<and> n \<le> 90 \<or> 97 \<le> n \<and> n \<le> 122)"

definition unreserved :: "char \<Rightarrow> bool" where
  "unreserved ch \<longleftrightarrow> alnum ch \<or> ch \<in> set ''-_.~''"

definition PathEscape :: "string \<Rightarrow> string" where
  "PathEscape s = concat (map (\<lambda>ch. if unreserved ch \<or> ch \<in> set ''$&+=:@'' then [ch] else percent ch) s)"

definition QueryEscape :: "string \<Rightarrow> string" where
  "QueryEscape s =
     concat (map (\<lambda>ch. if unreserved ch then [ch] else if ch = CHR '' '' then ''+'' else percent ch) s)"

text \<open>\<open>q\<close> distinguishes \<open>QueryUnescape\<close>, which reads a plus sign as a space, from \<open>PathUnescape\<close>.\<close>

fun unescape :: "bool \<Rightarrow> string \<Rightarrow> string option" where
  "unescape q [] = Some []"
| "unescape q (ch # cs) =
     (if ch = CHR ''%'' then
        (case cs of
           a # b # rest \<Rightarrow>
             (case (hex_value a, hex_value b) of
                (Some x, Some y) \<Rightarrow> map_option (\<lambda>s. char_of (16 * x + y) # s) (unescape q rest)
              | _ \<Rightarrow> None)
         | _ \<Rightarrow> None)
      else map_option (\<lambda>s. (if q \<and> ch = CHR ''+'' then CHR '' '' else ch) # s) (unescape q cs))"

text \<open>\<open>url.ParseQuery\<close>, of which \<open>Query\<close> keeps the pairs that can be read; the first value of a key counts.\<close>

definition cut_at :: "char \<Rightarrow> string \<Rightarrow> string \<times> string" where
  "cut_at ch s = (takeWhile (\<lambda>x. x \<noteq> ch) s, tl (dropWhile (\<lambda>x. x \<noteq> ch) s))"

fun split_at :: "char \<Rightarrow> string \<Rightarrow> string list" where
  "split_at ch [] = [[]]"
| "split_at ch (x # xs) =
     (if x = ch then [] # split_at ch xs else (x # hd (split_at ch xs)) # tl (split_at ch xs))"

definition query_pair :: "string \<Rightarrow> (string \<times> string) list" where
  "query_pair p =
     (if p = [] \<or> CHR '';'' \<in> set p then []
      else case (unescape True (fst (cut_at (CHR ''='') p)), unescape True (snd (cut_at (CHR ''='') p))) of
        (Some k, Some v) \<Rightarrow> [(k, v)]
      | _ \<Rightarrow> [])"

definition parse_query :: "string \<Rightarrow> (string \<times> string) list" where
  "parse_query s = concat (map query_pair (split_at (CHR ''&'') s))"

section \<open>Round trips\<close>

lemma hex_digits: "list_all (\<lambda>n. hex_value (hex_digit n) = Some n \<and> unreserved (hex_digit n)) [0..<16]"
  by code_simp

lemma hex_digit_inverse [simp]: "n < 16 \<Longrightarrow> hex_value (hex_digit n) = Some n"
  and hex_digit_unreserved: "n < 16 \<Longrightarrow> unreserved (hex_digit n)"
  using hex_digits by (auto simp: list_all_iff)

lemma byte_digits: "(of_char ch :: nat) div 16 < 16" "16 * ((of_char ch :: nat) div 16) + of_char ch mod 16 = of_char ch"
proof -
  have "(of_char ch :: nat) < 256" by (metis mod_less_divisor of_char_mod_256 zero_less_numeral)
  then show "(of_char ch :: nat) div 16 < 16" by linarith
qed simp

lemma unescape_percent: "unescape q (percent ch @ s) = map_option ((#) ch) (unescape q s)"
  by (simp add: percent_def Let_def byte_digits)

lemma unescape_plain: "ch \<noteq> CHR ''%'' \<Longrightarrow> \<not> (q \<and> ch = CHR ''+'') \<Longrightarrow> unescape q (ch # s) = map_option ((#) ch) (unescape q s)"
  by auto

lemma unreserved_delims: "unreserved ch \<Longrightarrow> ch \<notin> set ''%+/?#&=; ''"
  by (auto simp: unreserved_def alnum_def)

lemmas unescape_rules = unescape_percent unescape_plain option.map_comp comp_def

lemma PathEscape_inverse: "unescape False (PathEscape s) = Some s"
proof (induction s)
  case (Cons ch s)
  then show ?case
    by (cases "unreserved ch \<or> ch \<in> set ''$&+=:@''")
      (auto simp: PathEscape_def unescape_rules simp del: unescape.simps(2) dest: unreserved_delims)
qed (simp add: PathEscape_def)

lemma QueryEscape_inverse: "unescape True (QueryEscape s) = Some s"
proof (induction s)
  case (Cons ch s)
  consider "unreserved ch" | "\<not> unreserved ch" "ch = CHR '' ''" | "\<not> unreserved ch" "ch \<noteq> CHR '' ''" by blast
  then show ?case
  proof cases
    case 1
    with Cons unreserved_delims [OF 1] show ?thesis
      by (simp add: QueryEscape_def unescape_plain del: unescape.simps(2))
  next
    case 2
    with Cons show ?thesis by (simp add: QueryEscape_def)
  next
    case 3
    with Cons show ?thesis by (simp add: QueryEscape_def unescape_percent del: unescape.simps(2))
  qed
qed (simp add: QueryEscape_def)

lemma percent_chars: "set (percent ch) \<subseteq> {x. unreserved x \<or> x = CHR ''%''}"
  using hex_digit_unreserved [OF byte_digits(1)] hex_digit_unreserved [of "of_char ch mod 16"]
  by (auto simp: percent_def Let_def)

lemma PathEscape_chars: "set (PathEscape s) \<subseteq> {x. unreserved x \<or> x \<in> set ''%$&+=:@''}"
  using percent_chars by (fastforce simp: PathEscape_def split: if_splits)

lemma QueryEscape_chars: "set (QueryEscape s) \<subseteq> {x. unreserved x \<or> x \<in> set ''%+''}"
  using percent_chars by (fastforce simp: QueryEscape_def split: if_splits)

end
