(* ===== verification/Api_Wire.thy ===== *)
theory Api_Wire
  imports Api_Routes Agent_Process Go_Url "HOL-Library.Monad_Syntax"
begin

text \<open>
  What travels between the clients of the API and its server. A message is a method, a path with its
  query, and a body; a body is an object that \<open>encoding/json\<close> renders, or bytes as they are. The server
  reads the target with \<open>net/url\<close> and the body with \<open>decodeJSON\<close>: at most one MiB, fields matched without
  regard to case, an unknown field or a value of another type refused, an absent field left at its zero
  value. \<open>marshal\<close> and \<open>parse\<close> are the two directions of \<open>encoding/json\<close>.
\<close>

section \<open>Messages\<close>

datatype jval = JvNull | JvBool bool | JvInt int | JvStr string | JvList "jval list" | JvObj "(string \<times> jval) list"

type_synonym object = "(string \<times> jval) list"

datatype wire_body = WNone | WJson object | WRaw string

record wire =
  w_method :: http_method
  w_path :: string
  w_body :: wire_body

definition body_text :: "(object \<Rightarrow> string) \<Rightarrow> wire_body \<Rightarrow> string" where
  "body_text marshal b = (case b of WNone \<Rightarrow> [] | WJson v \<Rightarrow> marshal v | WRaw s \<Rightarrow> s)"

section \<open>Decoding into a structure\<close>

definition known_fields :: "string list \<Rightarrow> object \<Rightarrow> object option" where
  "known_fields names v =
     (if list_all (\<lambda>(k, _). to_lower k \<in> set names) v
      then Some (filter (\<lambda>(_, x). x \<noteq> JvNull) (map (\<lambda>(k, x). (to_lower k, x)) (rev v)))
      else None)"

definition str_field :: "string \<Rightarrow> object \<Rightarrow> string option" where
  "str_field k f = (case map_of f k of None \<Rightarrow> Some [] | Some (JvStr s) \<Rightarrow> Some s | Some _ \<Rightarrow> None)"

definition int_field :: "string \<Rightarrow> object \<Rightarrow> int option" where
  "int_field k f = (case map_of f k of None \<Rightarrow> Some 0 | Some (JvInt n) \<Rightarrow> if in_i64 n then Some n else None | Some _ \<Rightarrow> None)"

definition bool_field :: "string \<Rightarrow> object \<Rightarrow> bool option" where
  "bool_field k f = (case map_of f k of None \<Rightarrow> Some False | Some (JvBool b) \<Rightarrow> Some b | Some _ \<Rightarrow> None)"

fun str_map :: "object \<Rightarrow> string gomap option" where
  "str_map [] = Some []"
| "str_map ((k, x) # rest) =
     (case x of
        JvStr s \<Rightarrow> map_option (put k s) (str_map rest)
      | JvNull \<Rightarrow> map_option (put k []) (str_map rest)
      | _ \<Rightarrow> None)"

definition map_field :: "string \<Rightarrow> object \<Rightarrow> string gomap option" where
  "map_field k f = (case map_of f k of None \<Rightarrow> Some [] | Some (JvObj m) \<Rightarrow> str_map (rev m) | Some _ \<Rightarrow> None)"

definition uuid_field :: "(string \<Rightarrow> uuid option) \<Rightarrow> string \<Rightarrow> object \<Rightarrow> uuid option" where
  "uuid_field puuid k f = (case map_of f k of None \<Rightarrow> Some nilUUID | Some (JvStr s) \<Rightarrow> puuid s | Some _ \<Rightarrow> None)"

fun decode_list :: "(object \<Rightarrow> 'a option) \<Rightarrow> jval list \<Rightarrow> 'a list option" where
  "decode_list dec [] = Some []"
| "decode_list dec (x # xs) =
     (case x of
        JvObj v \<Rightarrow> do { a \<leftarrow> dec v; as \<leftarrow> decode_list dec xs; Some (a # as) }
      | JvNull \<Rightarrow> do { a \<leftarrow> dec []; as \<leftarrow> decode_list dec xs; Some (a # as) }
      | _ \<Rightarrow> None)"

definition list_field :: "(object \<Rightarrow> 'a option) \<Rightarrow> string \<Rightarrow> object \<Rightarrow> 'a list option" where
  "list_field dec k f = (case map_of f k of None \<Rightarrow> Some [] | Some (JvList xs) \<Rightarrow> decode_list dec xs | Some _ \<Rightarrow> None)"

section \<open>The bodies of the API\<close>

definition decode_slug_name :: "object \<Rightarrow> (string \<times> string) option" where
  "decode_slug_name v = do {
     f \<leftarrow> known_fields [''slug'', ''name''] v; a \<leftarrow> str_field ''slug'' f; b \<leftarrow> str_field ''name'' f; Some (a, b) }"

definition decode_stack :: "object \<Rightarrow> string option" where
  "decode_stack v = do { f \<leftarrow> known_fields [''slug''] v; str_field ''slug'' f }"

definition decode_env :: "object \<Rightarrow> env_body option" where
  "decode_env v = do {
     f \<leftarrow> known_fields [''slug'', ''strategy'', ''hostname'', ''config''] v;
     a \<leftarrow> str_field ''slug'' f; b \<leftarrow> str_field ''strategy'' f; c \<leftarrow> str_field ''hostname'' f; m \<leftarrow> map_field ''config'' f;
     Some \<lparr>eb_slug = a, eb_strategy = b, eb_hostname = c, eb_config = m\<rparr> }"

definition decode_preview :: "object \<Rightarrow> preview_body option" where
  "decode_preview v = do {
     f \<leftarrow> known_fields [''slug'', ''stack_version_id'', ''inherit_secrets_from'', ''ttl_hours'', ''created_by''] v;
     a \<leftarrow> str_field ''slug'' f; b \<leftarrow> str_field ''stack_version_id'' f; c \<leftarrow> str_field ''inherit_secrets_from'' f;
     n \<leftarrow> int_field ''ttl_hours'' f; d \<leftarrow> str_field ''created_by'' f;
     Some \<lparr>pb_slug = a, pb_version = b, pb_inherit = c, pb_ttl_hours = n, pb_created_by = d\<rparr> }"

definition decode_deployment :: "object \<Rightarrow> (string \<times> string) option" where
  "decode_deployment v = do {
     f \<leftarrow> known_fields [''stack_version_id'', ''created_by''] v;
     a \<leftarrow> str_field ''stack_version_id'' f; b \<leftarrow> str_field ''created_by'' f; Some (a, b) }"

definition decode_rollback :: "object \<Rightarrow> int option" where
  "decode_rollback v = do { f \<leftarrow> known_fields [''to_revision''] v; int_field ''to_revision'' f }"

definition decode_register :: "object \<Rightarrow> register_body option" where
  "decode_register v = do {
     f \<leftarrow> known_fields [''org'', ''hostname'', ''advertise_addr'', ''cpu_millis'', ''memory_bytes'', ''labels'', ''agent_version'', ''age_recipient''] v;
     a \<leftarrow> str_field ''org'' f; b \<leftarrow> str_field ''hostname'' f; c \<leftarrow> str_field ''advertise_addr'' f;
     n \<leftarrow> int_field ''cpu_millis'' f; k \<leftarrow> int_field ''memory_bytes'' f; m \<leftarrow> map_field ''labels'' f;
     d \<leftarrow> str_field ''agent_version'' f; e \<leftarrow> str_field ''age_recipient'' f;
     Some \<lparr>rb_org = a, rb_hostname = b, rb_addr = c, rb_cpu = n, rb_mem = k, rb_labels = m, rb_agent_version = d, rb_recipient = e\<rparr> }"

definition decode_heartbeat :: "object \<Rightarrow> (int \<times> int) option" where
  "decode_heartbeat v = do {
     f \<leftarrow> known_fields [''alloc_cpu_millis'', ''alloc_memory_bytes''] v;
     a \<leftarrow> int_field ''alloc_cpu_millis'' f; b \<leftarrow> int_field ''alloc_memory_bytes'' f; Some (a, b) }"

text \<open>The state of a report is read as text; the one in \<open>ir_observed\<close> is a placeholder until it is parsed.\<close>

definition decode_report_item :: "(string \<Rightarrow> uuid option) \<Rightarrow> object \<Rightarrow> instance_report option" where
  "decode_report_item puuid v = do {
     f \<leftarrow> known_fields [''instance_id'', ''state'', ''container_id'', ''health_status'', ''last_error'', ''restart_count'', ''set_started'', ''ingress_port''] v;
     i \<leftarrow> uuid_field puuid ''instance_id'' f; st \<leftarrow> str_field ''state'' f; c \<leftarrow> str_field ''container_id'' f;
     hs \<leftarrow> str_field ''health_status'' f; e \<leftarrow> str_field ''last_error'' f; n \<leftarrow> int_field ''restart_count'' f;
     b \<leftarrow> bool_field ''set_started'' f; p \<leftarrow> int_field ''ingress_port'' f;
     Some \<lparr>ir_id = i, ir_state = st, ir_observed = \<lparr>oi_state = InstancePending, oi_container = c, oi_health = hs, oi_error = e,
       oi_restarts = n, oi_set_started = b, oi_ingress_port = p\<rparr>\<rparr> }"

definition decode_report :: "(string \<Rightarrow> uuid option) \<Rightarrow> object \<Rightarrow> instance_report list option" where
  "decode_report puuid v = do { f \<leftarrow> known_fields [''instances''] v; list_field (decode_report_item puuid) ''instances'' f }"

definition decode_delivery :: "(string \<Rightarrow> uuid option) \<Rightarrow> object \<Rightarrow> (uuid \<times> string \<times> string) option" where
  "decode_delivery puuid v = do {
     f \<leftarrow> known_fields [''request_id'', ''data'', ''error''] v;
     i \<leftarrow> uuid_field puuid ''request_id'' f; d \<leftarrow> str_field ''data'' f; e \<leftarrow> str_field ''error'' f; Some (i, d, e) }"

definition decode_deliveries :: "(string \<Rightarrow> uuid option) \<Rightarrow> object \<Rightarrow> (uuid \<times> string \<times> string) list option" where
  "decode_deliveries puuid v = do { f \<leftarrow> known_fields [''deliveries''] v; list_field (decode_delivery puuid) ''deliveries'' f }"

definition decode_join_token :: "object \<Rightarrow> (string \<times> int \<times> int) option" where
  "decode_join_token v = do {
     f \<leftarrow> known_fields [''name'', ''expires_in_days'', ''max_uses''] v;
     a \<leftarrow> str_field ''name'' f; n \<leftarrow> int_field ''expires_in_days'' f; k \<leftarrow> int_field ''max_uses'' f; Some (a, n, k) }"

definition decode_secret :: "object \<Rightarrow> (string \<times> string) option" where
  "decode_secret v = do { f \<leftarrow> known_fields [''key'', ''value''] v; a \<leftarrow> str_field ''key'' f; b \<leftarrow> str_field ''value'' f; Some (a, b) }"

definition decode_log :: "object \<Rightarrow> (string \<times> int \<times> bool) option" where
  "decode_log v = do {
     f \<leftarrow> known_fields [''service'', ''tail'', ''follow''] v;
     a \<leftarrow> str_field ''service'' f; n \<leftarrow> int_field ''tail'' f; b \<leftarrow> bool_field ''follow'' f; Some (a, n, b) }"

definition decode_member :: "object \<Rightarrow> (string \<times> string \<times> string) option" where
  "decode_member v = do {
     f \<leftarrow> known_fields [''email'', ''name'', ''role''] v;
     a \<leftarrow> str_field ''email'' f; b \<leftarrow> str_field ''name'' f; c \<leftarrow> str_field ''role'' f; Some (a, b, c) }"

definition decode_token :: "object \<Rightarrow> (string \<times> int) option" where
  "decode_token v = do {
     f \<leftarrow> known_fields [''name'', ''expires_in_days''] v; a \<leftarrow> str_field ''name'' f; n \<leftarrow> int_field ''expires_in_days'' f; Some (a, n) }"

definition decode_invite :: "object \<Rightarrow> (string \<times> string \<times> int) option" where
  "decode_invite v = do {
     f \<leftarrow> known_fields [''email'', ''role'', ''ttl_hours''] v;
     a \<leftarrow> str_field ''email'' f; b \<leftarrow> str_field ''role'' f; n \<leftarrow> int_field ''ttl_hours'' f; Some (a, b, n) }"

definition decode_redeem :: "object \<Rightarrow> (string \<times> string) option" where
  "decode_redeem v = do {
     f \<leftarrow> known_fields [''token'', ''token_name''] v; a \<leftarrow> str_field ''token'' f; b \<leftarrow> str_field ''token_name'' f; Some (a, b) }"

definition decode_access :: "object \<Rightarrow> (string \<times> string \<times> string) option" where
  "decode_access v = do {
     f \<leftarrow> known_fields [''email'', ''name'', ''note''] v;
     a \<leftarrow> str_field ''email'' f; b \<leftarrow> str_field ''name'' f; c \<leftarrow> str_field ''note'' f; Some (a, b, c) }"

definition decode_approve :: "object \<Rightarrow> (string \<times> int) option" where
  "decode_approve v = do {
     f \<leftarrow> known_fields [''role'', ''ttl_hours''] v; a \<leftarrow> str_field ''role'' f; n \<leftarrow> int_field ''ttl_hours'' f; Some (a, n) }"

section \<open>Receiving\<close>

definition max_body :: nat where
  "max_body = 2 ^ 20"

definition decodeJSON :: "(string \<Rightarrow> uuid option) \<Rightarrow> (string \<Rightarrow> object option) \<Rightarrow> string \<Rightarrow> decoded" where
  "decodeJSON puuid parse text =
     (let ok = length text \<le> max_body; v = (if ok then parse text else None) in
      \<lparr>b_length = int (length text), b_raw = (if ok then Some text else None),
       b_org = Option.bind v decode_slug_name, b_app = Option.bind v decode_slug_name, b_stack = Option.bind v decode_stack,
       b_env = Option.bind v decode_env, b_preview = Option.bind v decode_preview, b_deployment = Option.bind v decode_deployment,
       b_rollback = Option.bind v decode_rollback, b_register = Option.bind v decode_register,
       b_heartbeat = Option.bind v decode_heartbeat, b_report = Option.bind v (decode_report puuid),
       b_join_token = Option.bind v decode_join_token, b_secret = Option.bind v decode_secret, b_log = Option.bind v decode_log,
       b_deliveries = Option.bind v (decode_deliveries puuid), b_member = Option.bind v decode_member,
       b_token = Option.bind v decode_token, b_invite = Option.bind v decode_invite, b_redeem = Option.bind v decode_redeem,
       b_access = Option.bind v decode_access, b_approve = Option.bind v decode_approve\<rparr>)"

fun all_some :: "'a option list \<Rightarrow> 'a list option" where
  "all_some [] = Some []"
| "all_some (x # xs) = do { a \<leftarrow> x; as \<leftarrow> all_some xs; Some (a # as) }"

definition clean_segments :: "string list \<Rightarrow> bool" where
  "clean_segments segs \<longleftrightarrow>
     list_all (\<lambda>x. x \<noteq> []) (butlast segs) \<and> list_all (\<lambda>x. x \<noteq> ''.'' \<and> x \<noteq> ''..'') segs"

text \<open>The request the server sees; a target that \<open>net/url\<close> cannot read is no request.\<close>

definition receive ::
  "(string \<Rightarrow> uuid option) \<Rightarrow> (object \<Rightarrow> string) \<Rightarrow> (string \<Rightarrow> object option) \<Rightarrow> string \<Rightarrow> wire \<Rightarrow> request option" where
  "receive puuid marshal parse token m =
     (let target = fst (cut_at (CHR ''#'') (w_path m));
          segs = tl (split_slash (fst (cut_at (CHR ''?'') target)))
      in case all_some (map (unescape False) segs) of
           None \<Rightarrow> None
         | Some names \<Rightarrow> Some \<lparr>rq_method = w_method m, rq_segments = names, rq_clean = clean_segments segs,
             rq_authorization = (if token = [] then [] else ''Bearer '' @ token),
             rq_query = parse_query (snd (cut_at (CHR ''?'') target)),
             rq_body = decodeJSON puuid parse (body_text marshal (w_body m))\<rparr>)"

end
