(* ===== verification/Api_Client.thy ===== *)
theory Api_Client
  imports Api_Wire Api_Access
begin

text \<open>
  \<open>internal/client/client.go\<close>: the operations of the API as its clients (the command line, the terminal
  and the web console) call them. Each operation is the message it sends; \<open>read_answer\<close> is what
  \<open>roundTrip\<close> makes of the response. The theorem at the end composes the client with the server: every
  operation arrives at the handler meant for it, with its arguments.
\<close>

section \<open>Sending\<close>

record api_client =
  cl_base :: string
  cl_token :: string

definition trim_right_slash :: "string \<Rightarrow> string" where
  "trim_right_slash s = rev (dropWhile (\<lambda>ch. ch = CHR ''/'') (rev s))"

text \<open>\<open>parse_uri\<close> is \<open>url.ParseRequestURI\<close>: the text of its error, if any.\<close>

definition New_client :: "(string \<Rightarrow> string option) \<Rightarrow> string \<Rightarrow> string \<Rightarrow> string + api_client" where
  "New_client parse_uri baseURL token =
     (let base = trim_right_slash (trim_space baseURL) in
      if base = [] then Inl ''control plane URL is required''
      else case parse_uri base of
        Some e \<Rightarrow> Inl (''invalid control plane URL '' @ quoted baseURL @ '': '' @ e)
      | None \<Rightarrow> Inr \<lparr>cl_base = base, cl_token = token\<rparr>)"

definition do_get :: "string \<Rightarrow> wire" where
  "do_get path = \<lparr>w_method = GET, w_path = path, w_body = WNone\<rparr>"

definition do_delete :: "string \<Rightarrow> wire" where
  "do_delete path = \<lparr>w_method = DELETE, w_path = path, w_body = WNone\<rparr>"

definition doJSON :: "string \<Rightarrow> object \<Rightarrow> wire" where
  "doJSON path v = \<lparr>w_method = POST, w_path = path, w_body = WJson v\<rparr>"

definition doRaw :: "string \<Rightarrow> string \<Rightarrow> wire" where
  "doRaw path s = \<lparr>w_method = POST, w_path = path, w_body = WRaw s\<rparr>"

text \<open>A field that is sent only when it is not its zero value.\<close>

definition opt_str :: "string \<Rightarrow> string \<Rightarrow> object" where
  "opt_str k s = (if s = [] then [] else [(k, JvStr s)])"

definition opt_int :: "string \<Rightarrow> int \<Rightarrow> object" where
  "opt_int k n = (if n = 0 then [] else [(k, JvInt n)])"

definition opt_map :: "string \<Rightarrow> string gomap \<Rightarrow> object" where
  "opt_map k m = (if m = [] then [] else [(k, JvObj (map (\<lambda>(x, v). (x, JvStr v)) m))])"

definition pos_int :: "string \<Rightarrow> int \<Rightarrow> object" where
  "pos_int k n = (if n > 0 then [(k, JvInt n)] else [])"

section \<open>Reading the answer\<close>

datatype client_error = APIError int string | DecodeError string

record answer =
  an_status :: int
  an_raw :: string

text \<open>
  \<open>unwrap\<close> reads the \<open>error\<close> field of a JSON object and is empty when there is none; \<open>decode\<close> is
  \<open>json.Unmarshal\<close> into the result. The result is absent when the operation expects none or the body is
  empty.
\<close>

definition read_answer ::
  "(string \<Rightarrow> string) \<Rightarrow> (string \<Rightarrow> string + 'a) option \<Rightarrow> answer \<Rightarrow> client_error + 'a option" where
  "read_answer unwrap decode a =
     (let raw = take max_body (an_raw a) in
      if an_status a \<ge> 300
      then Inl (APIError (an_status a) (if unwrap raw = [] then trim_space raw else unwrap raw))
      else case decode of
        None \<Rightarrow> Inr None
      | Some d \<Rightarrow>
          if an_status a = 204 \<or> trim_space raw = [] then Inr None
          else (case d raw of Inl e \<Rightarrow> Inl (DecodeError e) | Inr v \<Rightarrow> Inr (Some v)))"

definition Error_api :: "client_error \<Rightarrow> string" where
  "Error_api e = (case e of
      APIError n msg \<Rightarrow> ''HTTP '' @ show_int n @ (if msg = [] then [] else '': '' @ msg)
    | DecodeError m \<Rightarrow> m)"

section \<open>Operations\<close>

definition Health_msg :: wire where
  "Health_msg = do_get ''/healthz''"

definition Validate_msg :: "string \<Rightarrow> wire" where
  "Validate_msg compose = doRaw ''/v1/validate'' compose"

definition CreateOrg_msg :: "string \<Rightarrow> string \<Rightarrow> wire" where
  "CreateOrg_msg slug name = doJSON ''/v1/orgs'' [(''slug'', JvStr slug), (''name'', JvStr name)]"

definition ListOrgs_msg :: wire where
  "ListOrgs_msg = do_get ''/v1/orgs''"

definition CreateApp_msg :: "string \<Rightarrow> string \<Rightarrow> string \<Rightarrow> wire" where
  "CreateApp_msg org slug name = doJSON (''/v1/orgs/'' @ org @ ''/apps'') [(''slug'', JvStr slug), (''name'', JvStr name)]"

definition ListApps_msg :: "string \<Rightarrow> wire" where
  "ListApps_msg org = do_get (''/v1/orgs/'' @ org @ ''/apps'')"

definition CreateStack_msg :: "string \<Rightarrow> string \<Rightarrow> wire" where
  "CreateStack_msg app slug = doJSON (''/v1/apps/'' @ app @ ''/stacks'') [(''slug'', JvStr slug)]"

definition ListStacks_msg :: "string \<Rightarrow> wire" where
  "ListStacks_msg app = do_get (''/v1/apps/'' @ app @ ''/stacks'')"

definition GetStack_msg :: "string \<Rightarrow> wire" where
  "GetStack_msg i = do_get (''/v1/stacks/'' @ i)"

definition PushStack_msg :: "string \<Rightarrow> string \<Rightarrow> string \<Rightarrow> wire" where
  "PushStack_msg st compose createdBy =
     doRaw (''/v1/stacks/'' @ st @ ''/versions'' @ (if createdBy = [] then [] else ''?created_by='' @ QueryEscape createdBy)) compose"

definition ListStackVersions_msg :: "string \<Rightarrow> wire" where
  "ListStackVersions_msg st = do_get (''/v1/stacks/'' @ st @ ''/versions'')"

definition CreateEnv_msg :: "string \<Rightarrow> string \<Rightarrow> string \<Rightarrow> string \<Rightarrow> string gomap \<Rightarrow> wire" where
  "CreateEnv_msg st slug hostname strategy config = doJSON (''/v1/stacks/'' @ st @ ''/envs'')
     ((''slug'', JvStr slug) # opt_str ''hostname'' hostname @ opt_str ''strategy'' strategy @ opt_map ''config'' config)"

definition ListEnvs_msg :: "string \<Rightarrow> wire" where
  "ListEnvs_msg st = do_get (''/v1/stacks/'' @ st @ ''/envs'')"

definition ListOrgEnvironments_msg :: "string \<Rightarrow> wire" where
  "ListOrgEnvironments_msg org = do_get (''/v1/orgs/'' @ org @ ''/environments'')"

definition GetEnv_msg :: "string \<Rightarrow> wire" where
  "GetEnv_msg i = do_get (''/v1/envs/'' @ i)"

definition CreatePreview_msg :: "string \<Rightarrow> string \<Rightarrow> string \<Rightarrow> string \<Rightarrow> int \<Rightarrow> string \<Rightarrow> wire" where
  "CreatePreview_msg st slug version inherit ttl createdBy = doJSON (''/v1/stacks/'' @ st @ ''/previews'')
     ((''slug'', JvStr slug) # opt_str ''stack_version_id'' version @ opt_str ''inherit_secrets_from'' inherit @
      opt_int ''ttl_hours'' ttl @ opt_str ''created_by'' createdBy)"

definition Deploy_msg :: "string \<Rightarrow> string \<Rightarrow> string \<Rightarrow> wire" where
  "Deploy_msg env version createdBy =
     doJSON (''/v1/envs/'' @ env @ ''/deployments'') (opt_str ''stack_version_id'' version @ opt_str ''created_by'' createdBy)"

definition ListDeployments_msg :: "string \<Rightarrow> wire" where
  "ListDeployments_msg env = do_get (''/v1/envs/'' @ env @ ''/deployments'')"

definition GetDeployment_msg :: "string \<Rightarrow> wire" where
  "GetDeployment_msg i = do_get (''/v1/deployments/'' @ i)"

definition Promote_msg :: "string \<Rightarrow> wire" where
  "Promote_msg i = doJSON (''/v1/deployments/'' @ i @ ''/promote'') []"

definition Rollback_msg :: "string \<Rightarrow> int \<Rightarrow> wire" where
  "Rollback_msg env to = doJSON (''/v1/envs/'' @ env @ ''/rollback'') (pos_int ''to_revision'' to)"

definition SetSecret_msg :: "string \<Rightarrow> string \<Rightarrow> string \<Rightarrow> wire" where
  "SetSecret_msg env key val = doJSON (''/v1/envs/'' @ env @ ''/secrets'') [(''key'', JvStr key), (''value'', JvStr val)]"

definition ListSecrets_msg :: "string \<Rightarrow> wire" where
  "ListSecrets_msg env = do_get (''/v1/envs/'' @ env @ ''/secrets'')"

definition DeleteSecret_msg :: "string \<Rightarrow> string \<Rightarrow> wire" where
  "DeleteSecret_msg env key = do_delete (''/v1/envs/'' @ env @ ''/secrets/'' @ PathEscape key)"

definition ListNodes_msg :: "string \<Rightarrow> wire" where
  "ListNodes_msg org = do_get (''/v1/nodes?org='' @ QueryEscape org)"

definition GetNode_msg :: "string \<Rightarrow> wire" where
  "GetNode_msg i = do_get (''/v1/nodes/'' @ i)"

definition DrainNode_msg :: "string \<Rightarrow> wire" where
  "DrainNode_msg i = doJSON (''/v1/nodes/'' @ i @ ''/drain'') []"

definition UncordonNode_msg :: "string \<Rightarrow> wire" where
  "UncordonNode_msg i = doJSON (''/v1/nodes/'' @ i @ ''/uncordon'') []"

definition RotateNodeRecipient_msg :: "string \<Rightarrow> wire" where
  "RotateNodeRecipient_msg i = doJSON (''/v1/nodes/'' @ i @ ''/rotate-recipient'') []"

definition events_query :: "int \<Rightarrow> int \<Rightarrow> string" where
  "events_query limit before =
     (let parts = (if before > 0 then [''before_id='' @ show_int before] else []) @ (if limit > 0 then [''limit='' @ show_int limit] else []) in
      case parts of
        [] \<Rightarrow> []
      | p # ps \<Rightarrow> ''?'' @ p @ concat (map (\<lambda>q. CHR ''&'' # q) ps))"

definition ListEvents_msg :: "string \<Rightarrow> int \<Rightarrow> int \<Rightarrow> wire" where
  "ListEvents_msg org limit before = do_get (''/v1/orgs/'' @ org @ ''/events'' @ events_query limit before)"

definition OpenLogs_msg :: "string \<Rightarrow> string \<Rightarrow> int \<Rightarrow> bool \<Rightarrow> wire" where
  "OpenLogs_msg env service lines follow =
     doJSON (''/v1/envs/'' @ env @ ''/logs'') ([(''service'', JvStr service), (''follow'', JvBool follow)] @ pos_int ''tail'' lines)"

definition ReadLogs_msg :: "string \<Rightarrow> int \<Rightarrow> wire" where
  "ReadLogs_msg i cursor = do_get (''/v1/logs/'' @ i @ (if cursor > 0 then ''?cursor='' @ show_int cursor else []))"

definition CloseLogs_msg :: "string \<Rightarrow> wire" where
  "CloseLogs_msg i = do_delete (''/v1/logs/'' @ i)"

definition Whoami_msg :: wire where
  "Whoami_msg = do_get ''/v1/whoami''"

definition ListMembers_msg :: "string \<Rightarrow> wire" where
  "ListMembers_msg org = do_get (''/v1/orgs/'' @ org @ ''/members'')"

definition AddMember_msg :: "string \<Rightarrow> string \<Rightarrow> string \<Rightarrow> string \<Rightarrow> wire" where
  "AddMember_msg org email name role = doJSON (''/v1/orgs/'' @ org @ ''/members'')
     [(''email'', JvStr email), (''name'', JvStr name), (''role'', JvStr role)]"

definition RemoveMember_msg :: "string \<Rightarrow> string \<Rightarrow> wire" where
  "RemoveMember_msg org opr = do_delete (''/v1/orgs/'' @ org @ ''/members/'' @ opr)"

definition ListTokens_msg :: wire where
  "ListTokens_msg = do_get ''/v1/operators/me/tokens''"

definition CreateToken_msg :: "string \<Rightarrow> int \<Rightarrow> wire" where
  "CreateToken_msg name days = doJSON ''/v1/operators/me/tokens'' [(''name'', JvStr name), (''expires_in_days'', JvInt days)]"

definition RevokeToken_msg :: "string \<Rightarrow> wire" where
  "RevokeToken_msg i = do_delete (''/v1/operators/me/tokens/'' @ i)"

definition ListJoinTokens_msg :: "string \<Rightarrow> wire" where
  "ListJoinTokens_msg org = do_get (''/v1/orgs/'' @ org @ ''/join-tokens'')"

definition CreateJoinToken_msg :: "string \<Rightarrow> string \<Rightarrow> int \<Rightarrow> int \<Rightarrow> wire" where
  "CreateJoinToken_msg org name days uses = doJSON (''/v1/orgs/'' @ org @ ''/join-tokens'')
     [(''name'', JvStr name), (''expires_in_days'', JvInt days), (''max_uses'', JvInt uses)]"

definition RevokeJoinToken_msg :: "string \<Rightarrow> string \<Rightarrow> wire" where
  "RevokeJoinToken_msg org i = do_delete (''/v1/orgs/'' @ org @ ''/join-tokens/'' @ i)"

definition CreateInvite_msg :: "string \<Rightarrow> string \<Rightarrow> string \<Rightarrow> int \<Rightarrow> wire" where
  "CreateInvite_msg org email role ttl = doJSON (''/v1/orgs/'' @ org @ ''/invites'')
     ((''email'', JvStr email) # opt_str ''role'' role @ opt_int ''ttl_hours'' ttl)"

definition ListInvites_msg :: "string \<Rightarrow> wire" where
  "ListInvites_msg org = do_get (''/v1/orgs/'' @ org @ ''/invites'')"

definition RevokeInvite_msg :: "string \<Rightarrow> string \<Rightarrow> wire" where
  "RevokeInvite_msg org i = do_delete (''/v1/orgs/'' @ org @ ''/invites/'' @ i)"

definition RedeemInvite_msg :: "string \<Rightarrow> string \<Rightarrow> wire" where
  "RedeemInvite_msg tok name = doJSON ''/v1/invites/redeem'' [(''token'', JvStr tok), (''token_name'', JvStr name)]"

definition RequestAccess_msg :: "string \<Rightarrow> string \<Rightarrow> string \<Rightarrow> wire" where
  "RequestAccess_msg email name note =
     doJSON ''/v1/access-requests'' ((''email'', JvStr email) # opt_str ''name'' name @ opt_str ''note'' note)"

definition ListAccessRequests_msg :: "string \<Rightarrow> wire" where
  "ListAccessRequests_msg org = do_get (''/v1/orgs/'' @ org @ ''/access-requests'')"

definition ApproveAccessRequest_msg :: "string \<Rightarrow> string \<Rightarrow> string \<Rightarrow> int \<Rightarrow> wire" where
  "ApproveAccessRequest_msg org i role ttl =
     doJSON (''/v1/orgs/'' @ org @ ''/access-requests/'' @ i @ ''/approve'') (opt_str ''role'' role @ opt_int ''ttl_hours'' ttl)"

definition DeclineAccessRequest_msg :: "string \<Rightarrow> string \<Rightarrow> wire" where
  "DeclineAccessRequest_msg org i = doJSON (''/v1/orgs/'' @ org @ ''/access-requests/'' @ i @ ''/decline'') []"
section \<open>The interface as one type\<close>

text \<open>Every operation with its arguments, and the message it sends.\<close>

datatype (plugins only: ) api_call =
    C_Health
  | C_Validate string
  | C_CreateOrg string string
  | C_ListOrgs
  | C_CreateApp string string string
  | C_ListApps string
  | C_CreateStack string string
  | C_ListStacks string
  | C_GetStack string
  | C_PushStack string string string
  | C_ListStackVersions string
  | C_CreateEnv string string string string "string gomap"
  | C_ListEnvs string
  | C_ListOrgEnvironments string
  | C_GetEnv string
  | C_CreatePreview string string string string int string
  | C_Deploy string string string
  | C_ListDeployments string
  | C_GetDeployment string
  | C_Promote string
  | C_Rollback string int
  | C_SetSecret string string string
  | C_ListSecrets string
  | C_DeleteSecret string string
  | C_ListNodes string
  | C_GetNode string
  | C_DrainNode string
  | C_UncordonNode string
  | C_RotateNodeRecipient string
  | C_ListEvents string int int
  | C_OpenLogs string string int bool
  | C_ReadLogs string int
  | C_CloseLogs string
  | C_Whoami
  | C_ListMembers string
  | C_AddMember string string string string
  | C_RemoveMember string string
  | C_ListTokens
  | C_CreateToken string int
  | C_RevokeToken string
  | C_ListJoinTokens string
  | C_CreateJoinToken string string int int
  | C_RevokeJoinToken string string
  | C_CreateInvite string string string int
  | C_ListInvites string
  | C_RevokeInvite string string
  | C_RedeemInvite string string
  | C_RequestAccess string string string
  | C_ListAccessRequests string
  | C_ApproveAccessRequest string string string int
  | C_DeclineAccessRequest string string

primrec wire_of :: "api_call \<Rightarrow> wire" where
  "wire_of C_Health = Health_msg"
| "wire_of (C_Validate compose) = Validate_msg compose"
| "wire_of (C_CreateOrg slug name) = CreateOrg_msg slug name"
| "wire_of C_ListOrgs = ListOrgs_msg"
| "wire_of (C_CreateApp org slug name) = CreateApp_msg org slug name"
| "wire_of (C_ListApps org) = ListApps_msg org"
| "wire_of (C_CreateStack app slug) = CreateStack_msg app slug"
| "wire_of (C_ListStacks app) = ListStacks_msg app"
| "wire_of (C_GetStack i) = GetStack_msg i"
| "wire_of (C_PushStack st compose createdBy) = PushStack_msg st compose createdBy"
| "wire_of (C_ListStackVersions st) = ListStackVersions_msg st"
| "wire_of (C_CreateEnv st slug hostname strategy config) = CreateEnv_msg st slug hostname strategy config"
| "wire_of (C_ListEnvs st) = ListEnvs_msg st"
| "wire_of (C_ListOrgEnvironments org) = ListOrgEnvironments_msg org"
| "wire_of (C_GetEnv i) = GetEnv_msg i"
| "wire_of (C_CreatePreview st slug version inherit ttl createdBy) = CreatePreview_msg st slug version inherit ttl createdBy"
| "wire_of (C_Deploy env version createdBy) = Deploy_msg env version createdBy"
| "wire_of (C_ListDeployments env) = ListDeployments_msg env"
| "wire_of (C_GetDeployment i) = GetDeployment_msg i"
| "wire_of (C_Promote i) = Promote_msg i"
| "wire_of (C_Rollback env to) = Rollback_msg env to"
| "wire_of (C_SetSecret env key val) = SetSecret_msg env key val"
| "wire_of (C_ListSecrets env) = ListSecrets_msg env"
| "wire_of (C_DeleteSecret env key) = DeleteSecret_msg env key"
| "wire_of (C_ListNodes org) = ListNodes_msg org"
| "wire_of (C_GetNode i) = GetNode_msg i"
| "wire_of (C_DrainNode i) = DrainNode_msg i"
| "wire_of (C_UncordonNode i) = UncordonNode_msg i"
| "wire_of (C_RotateNodeRecipient i) = RotateNodeRecipient_msg i"
| "wire_of (C_ListEvents org limit before) = ListEvents_msg org limit before"
| "wire_of (C_OpenLogs env service lines follow) = OpenLogs_msg env service lines follow"
| "wire_of (C_ReadLogs i cursor) = ReadLogs_msg i cursor"
| "wire_of (C_CloseLogs i) = CloseLogs_msg i"
| "wire_of C_Whoami = Whoami_msg"
| "wire_of (C_ListMembers org) = ListMembers_msg org"
| "wire_of (C_AddMember org email name role) = AddMember_msg org email name role"
| "wire_of (C_RemoveMember org opr) = RemoveMember_msg org opr"
| "wire_of C_ListTokens = ListTokens_msg"
| "wire_of (C_CreateToken name days) = CreateToken_msg name days"
| "wire_of (C_RevokeToken i) = RevokeToken_msg i"
| "wire_of (C_ListJoinTokens org) = ListJoinTokens_msg org"
| "wire_of (C_CreateJoinToken org name days uses) = CreateJoinToken_msg org name days uses"
| "wire_of (C_RevokeJoinToken org i) = RevokeJoinToken_msg org i"
| "wire_of (C_CreateInvite org email role ttl) = CreateInvite_msg org email role ttl"
| "wire_of (C_ListInvites org) = ListInvites_msg org"
| "wire_of (C_RevokeInvite org i) = RevokeInvite_msg org i"
| "wire_of (C_RedeemInvite tok name) = RedeemInvite_msg tok name"
| "wire_of (C_RequestAccess email name note) = RequestAccess_msg email name note"
| "wire_of (C_ListAccessRequests org) = ListAccessRequests_msg org"
| "wire_of (C_ApproveAccessRequest org i role ttl) = ApproveAccessRequest_msg org i role ttl"
| "wire_of (C_DeclineAccessRequest org i) = DeclineAccessRequest_msg org i"

text \<open>
  What the operation is meant to reach: the handler, the path parameters it looks up, and the body or
  query it reads.
\<close>

primrec handler_of :: "api_call \<Rightarrow> hctx \<Rightarrow> reply" where
  "handler_of C_Health = handleHealth"
| "handler_of (C_Validate _) = handleValidate"
| "handler_of (C_CreateOrg _ _) = handleCreateOrg"
| "handler_of C_ListOrgs = handleListOrgs"
| "handler_of (C_CreateApp _ _ _) = handleCreateApp"
| "handler_of (C_ListApps _) = handleListApps"
| "handler_of (C_CreateStack _ _) = handleCreateStack"
| "handler_of (C_ListStacks _) = handleListStacks"
| "handler_of (C_GetStack _) = handleGetStack"
| "handler_of (C_PushStack _ _ _) = handleCreateStackVersion"
| "handler_of (C_ListStackVersions _) = handleListStackVersions"
| "handler_of (C_CreateEnv _ _ _ _ _) = handleCreateEnv"
| "handler_of (C_ListEnvs _) = handleListEnvs"
| "handler_of (C_ListOrgEnvironments _) = handleListOrgEnvs"
| "handler_of (C_GetEnv _) = handleGetEnv"
| "handler_of (C_CreatePreview _ _ _ _ _ _) = handleCreatePreview"
| "handler_of (C_Deploy _ _ _) = handleCreateDeployment"
| "handler_of (C_ListDeployments _) = handleListDeployments"
| "handler_of (C_GetDeployment _) = handleGetDeployment"
| "handler_of (C_Promote _) = handlePromote"
| "handler_of (C_Rollback _ _) = handleRollback"
| "handler_of (C_SetSecret _ _ _) = handleSetSecret"
| "handler_of (C_ListSecrets _) = handleListSecrets"
| "handler_of (C_DeleteSecret _ _) = handleDeleteSecret"
| "handler_of (C_ListNodes _) = handleListNodes"
| "handler_of (C_GetNode _) = handleGetNode"
| "handler_of (C_DrainNode _) = handleDrainNode"
| "handler_of (C_UncordonNode _) = handleUncordonNode"
| "handler_of (C_RotateNodeRecipient _) = handleRotateNodeRecipient"
| "handler_of (C_ListEvents _ _ _) = handleListEvents"
| "handler_of (C_OpenLogs _ _ _ _) = handleCreateLogRequest"
| "handler_of (C_ReadLogs _ _) = handleGetLogs"
| "handler_of (C_CloseLogs _) = handleCloseLogRequest"
| "handler_of C_Whoami = handleWhoami"
| "handler_of (C_ListMembers _) = handleListMembers"
| "handler_of (C_AddMember _ _ _ _) = handleAddMember"
| "handler_of (C_RemoveMember _ _) = handleRemoveMember"
| "handler_of C_ListTokens = handleListTokens"
| "handler_of (C_CreateToken _ _) = handleCreateToken"
| "handler_of (C_RevokeToken _) = handleRevokeToken"
| "handler_of (C_ListJoinTokens _) = handleListJoinTokens"
| "handler_of (C_CreateJoinToken _ _ _ _) = handleCreateJoinToken"
| "handler_of (C_RevokeJoinToken _ _) = handleRevokeJoinToken"
| "handler_of (C_CreateInvite _ _ _ _) = handleCreateInvite"
| "handler_of (C_ListInvites _) = handleListInvites"
| "handler_of (C_RevokeInvite _ _) = handleRevokeInvite"
| "handler_of (C_RedeemInvite _ _) = handleRedeemInvite"
| "handler_of (C_RequestAccess _ _ _) = handleCreateAccessRequest"
| "handler_of (C_ListAccessRequests _) = handleListAccessRequests"
| "handler_of (C_ApproveAccessRequest _ _ _ _) = handleApproveAccessRequest"
| "handler_of (C_DeclineAccessRequest _ _) = handleDeclineAccessRequest"

primrec params_of :: "api_call \<Rightarrow> string gomap" where
  "params_of C_Health = []"
| "params_of (C_Validate _) = []"
| "params_of (C_CreateOrg _ _) = []"
| "params_of C_ListOrgs = []"
| "params_of (C_CreateApp org _ _) = [(''org'', org)]"
| "params_of (C_ListApps org) = [(''org'', org)]"
| "params_of (C_CreateStack app _) = [(''app'', app)]"
| "params_of (C_ListStacks app) = [(''app'', app)]"
| "params_of (C_GetStack i) = [(''stack'', i)]"
| "params_of (C_PushStack st _ _) = [(''stack'', st)]"
| "params_of (C_ListStackVersions st) = [(''stack'', st)]"
| "params_of (C_CreateEnv st _ _ _ _) = [(''stack'', st)]"
| "params_of (C_ListEnvs st) = [(''stack'', st)]"
| "params_of (C_ListOrgEnvironments org) = [(''org'', org)]"
| "params_of (C_GetEnv i) = [(''env'', i)]"
| "params_of (C_CreatePreview st _ _ _ _ _) = [(''stack'', st)]"
| "params_of (C_Deploy env _ _) = [(''env'', env)]"
| "params_of (C_ListDeployments env) = [(''env'', env)]"
| "params_of (C_GetDeployment i) = [(''id'', i)]"
| "params_of (C_Promote i) = [(''id'', i)]"
| "params_of (C_Rollback env _) = [(''env'', env)]"
| "params_of (C_SetSecret env _ _) = [(''env'', env)]"
| "params_of (C_ListSecrets env) = [(''env'', env)]"
| "params_of (C_DeleteSecret env key) = [(''env'', env), (''key'', key)]"
| "params_of (C_ListNodes _) = []"
| "params_of (C_GetNode i) = [(''id'', i)]"
| "params_of (C_DrainNode i) = [(''id'', i)]"
| "params_of (C_UncordonNode i) = [(''id'', i)]"
| "params_of (C_RotateNodeRecipient i) = [(''id'', i)]"
| "params_of (C_ListEvents org _ _) = [(''org'', org)]"
| "params_of (C_OpenLogs env _ _ _) = [(''env'', env)]"
| "params_of (C_ReadLogs i _) = [(''id'', i)]"
| "params_of (C_CloseLogs i) = [(''id'', i)]"
| "params_of C_Whoami = []"
| "params_of (C_ListMembers org) = [(''org'', org)]"
| "params_of (C_AddMember org _ _ _) = [(''org'', org)]"
| "params_of (C_RemoveMember org opr) = [(''org'', org), (''operator'', opr)]"
| "params_of C_ListTokens = []"
| "params_of (C_CreateToken _ _) = []"
| "params_of (C_RevokeToken i) = [(''id'', i)]"
| "params_of (C_ListJoinTokens org) = [(''org'', org)]"
| "params_of (C_CreateJoinToken org _ _ _) = [(''org'', org)]"
| "params_of (C_RevokeJoinToken org i) = [(''org'', org), (''id'', i)]"
| "params_of (C_CreateInvite org _ _ _) = [(''org'', org)]"
| "params_of (C_ListInvites org) = [(''org'', org)]"
| "params_of (C_RevokeInvite org i) = [(''org'', org), (''invite'', i)]"
| "params_of (C_RedeemInvite _ _) = []"
| "params_of (C_RequestAccess _ _ _) = []"
| "params_of (C_ListAccessRequests org) = [(''org'', org)]"
| "params_of (C_ApproveAccessRequest org i _ _) = [(''org'', org), (''request'', i)]"
| "params_of (C_DeclineAccessRequest org i) = [(''org'', org), (''request'', i)]"

primrec delivered :: "api_call \<Rightarrow> request \<Rightarrow> bool" where
  "delivered C_Health r \<longleftrightarrow> True"
| "delivered (C_Validate compose) r \<longleftrightarrow> b_raw (rq_body r) = Some compose"
| "delivered (C_CreateOrg slug name) r \<longleftrightarrow> b_org (rq_body r) = Some (slug, name)"
| "delivered C_ListOrgs r \<longleftrightarrow> True"
| "delivered (C_CreateApp _ slug name) r \<longleftrightarrow> b_app (rq_body r) = Some (slug, name)"
| "delivered (C_ListApps _) r \<longleftrightarrow> True"
| "delivered (C_CreateStack _ slug) r \<longleftrightarrow> b_stack (rq_body r) = Some slug"
| "delivered (C_ListStacks _) r \<longleftrightarrow> True"
| "delivered (C_GetStack _) r \<longleftrightarrow> True"
| "delivered (C_PushStack _ compose createdBy) r \<longleftrightarrow> b_raw (rq_body r) = Some compose \<and> query_get r ''created_by'' = createdBy"
| "delivered (C_ListStackVersions _) r \<longleftrightarrow> True"
| "delivered (C_CreateEnv _ slug hostname strategy config) r \<longleftrightarrow> b_env (rq_body r) = Some \<lparr>eb_slug = slug, eb_strategy = strategy, eb_hostname = hostname, eb_config = config\<rparr>"
| "delivered (C_ListEnvs _) r \<longleftrightarrow> True"
| "delivered (C_ListOrgEnvironments _) r \<longleftrightarrow> True"
| "delivered (C_GetEnv _) r \<longleftrightarrow> True"
| "delivered (C_CreatePreview _ slug version inherit ttl createdBy) r \<longleftrightarrow> b_preview (rq_body r) =
       Some \<lparr>pb_slug = slug, pb_version = version, pb_inherit = inherit, pb_ttl_hours = ttl, pb_created_by = createdBy\<rparr>"
| "delivered (C_Deploy _ version createdBy) r \<longleftrightarrow> b_deployment (rq_body r) = Some (version, createdBy)"
| "delivered (C_ListDeployments _) r \<longleftrightarrow> True"
| "delivered (C_GetDeployment _) r \<longleftrightarrow> True"
| "delivered (C_Promote _) r \<longleftrightarrow> True"
| "delivered (C_Rollback _ to) r \<longleftrightarrow> b_rollback (rq_body r) = Some (max 0 to)"
| "delivered (C_SetSecret _ key val) r \<longleftrightarrow> b_secret (rq_body r) = Some (key, val)"
| "delivered (C_ListSecrets _) r \<longleftrightarrow> True"
| "delivered (C_DeleteSecret _ _) r \<longleftrightarrow> True"
| "delivered (C_ListNodes org) r \<longleftrightarrow> query_get r ''org'' = org"
| "delivered (C_GetNode _) r \<longleftrightarrow> True"
| "delivered (C_DrainNode _) r \<longleftrightarrow> True"
| "delivered (C_UncordonNode _) r \<longleftrightarrow> True"
| "delivered (C_RotateNodeRecipient _) r \<longleftrightarrow> True"
| "delivered (C_ListEvents _ limit before) r \<longleftrightarrow> query_get r ''limit'' = (if limit > 0 then show_int limit else []) \<and>
     query_get r ''before_id'' = (if before > 0 then show_int before else [])"
| "delivered (C_OpenLogs _ service lines follow) r \<longleftrightarrow> b_log (rq_body r) = Some (service, max 0 lines, follow)"
| "delivered (C_ReadLogs _ cursor) r \<longleftrightarrow> query_get r ''cursor'' = (if cursor > 0 then show_int cursor else [])"
| "delivered (C_CloseLogs _) r \<longleftrightarrow> True"
| "delivered C_Whoami r \<longleftrightarrow> True"
| "delivered (C_ListMembers _) r \<longleftrightarrow> True"
| "delivered (C_AddMember _ email name role) r \<longleftrightarrow> b_member (rq_body r) = Some (email, name, role)"
| "delivered (C_RemoveMember _ _) r \<longleftrightarrow> True"
| "delivered C_ListTokens r \<longleftrightarrow> True"
| "delivered (C_CreateToken name days) r \<longleftrightarrow> b_length (rq_body r) > 0 \<and> b_token (rq_body r) = Some (name, days)"
| "delivered (C_RevokeToken _) r \<longleftrightarrow> True"
| "delivered (C_ListJoinTokens _) r \<longleftrightarrow> True"
| "delivered (C_CreateJoinToken _ name days uses) r \<longleftrightarrow> b_length (rq_body r) > 0 \<and> b_join_token (rq_body r) = Some (name, days, uses)"
| "delivered (C_RevokeJoinToken _ _) r \<longleftrightarrow> True"
| "delivered (C_CreateInvite _ email role ttl) r \<longleftrightarrow> b_invite (rq_body r) = Some (email, role, ttl)"
| "delivered (C_ListInvites _) r \<longleftrightarrow> True"
| "delivered (C_RevokeInvite _ _) r \<longleftrightarrow> True"
| "delivered (C_RedeemInvite tok name) r \<longleftrightarrow> b_redeem (rq_body r) = Some (tok, name)"
| "delivered (C_RequestAccess email name note) r \<longleftrightarrow> b_access (rq_body r) = Some (email, name, note)"
| "delivered (C_ListAccessRequests _) r \<longleftrightarrow> True"
| "delivered (C_ApproveAccessRequest _ _ role ttl) r \<longleftrightarrow> b_length (rq_body r) > 0 \<and> b_approve (rq_body r) = Some (role, ttl)"
| "delivered (C_DeclineAccessRequest _ _) r \<longleftrightarrow> True"


section \<open>Where a message goes\<close>

primrec segments_of :: "api_call \<Rightarrow> string list" where
  "segments_of C_Health = [''healthz'']"
| "segments_of (C_Validate _) = [''v1'', ''validate'']"
| "segments_of (C_CreateOrg _ _) = [''v1'', ''orgs'']"
| "segments_of C_ListOrgs = [''v1'', ''orgs'']"
| "segments_of (C_CreateApp org _ _) = [''v1'', ''orgs'', org, ''apps'']"
| "segments_of (C_ListApps org) = [''v1'', ''orgs'', org, ''apps'']"
| "segments_of (C_CreateStack app _) = [''v1'', ''apps'', app, ''stacks'']"
| "segments_of (C_ListStacks app) = [''v1'', ''apps'', app, ''stacks'']"
| "segments_of (C_GetStack i) = [''v1'', ''stacks'', i]"
| "segments_of (C_PushStack st _ _) = [''v1'', ''stacks'', st, ''versions'']"
| "segments_of (C_ListStackVersions st) = [''v1'', ''stacks'', st, ''versions'']"
| "segments_of (C_CreateEnv st _ _ _ _) = [''v1'', ''stacks'', st, ''envs'']"
| "segments_of (C_ListEnvs st) = [''v1'', ''stacks'', st, ''envs'']"
| "segments_of (C_ListOrgEnvironments org) = [''v1'', ''orgs'', org, ''environments'']"
| "segments_of (C_GetEnv i) = [''v1'', ''envs'', i]"
| "segments_of (C_CreatePreview st _ _ _ _ _) = [''v1'', ''stacks'', st, ''previews'']"
| "segments_of (C_Deploy env _ _) = [''v1'', ''envs'', env, ''deployments'']"
| "segments_of (C_ListDeployments env) = [''v1'', ''envs'', env, ''deployments'']"
| "segments_of (C_GetDeployment i) = [''v1'', ''deployments'', i]"
| "segments_of (C_Promote i) = [''v1'', ''deployments'', i, ''promote'']"
| "segments_of (C_Rollback env _) = [''v1'', ''envs'', env, ''rollback'']"
| "segments_of (C_SetSecret env _ _) = [''v1'', ''envs'', env, ''secrets'']"
| "segments_of (C_ListSecrets env) = [''v1'', ''envs'', env, ''secrets'']"
| "segments_of (C_DeleteSecret env key) = [''v1'', ''envs'', env, ''secrets'', key]"
| "segments_of (C_ListNodes _) = [''v1'', ''nodes'']"
| "segments_of (C_GetNode i) = [''v1'', ''nodes'', i]"
| "segments_of (C_DrainNode i) = [''v1'', ''nodes'', i, ''drain'']"
| "segments_of (C_UncordonNode i) = [''v1'', ''nodes'', i, ''uncordon'']"
| "segments_of (C_RotateNodeRecipient i) = [''v1'', ''nodes'', i, ''rotate-recipient'']"
| "segments_of (C_ListEvents org _ _) = [''v1'', ''orgs'', org, ''events'']"
| "segments_of (C_OpenLogs env _ _ _) = [''v1'', ''envs'', env, ''logs'']"
| "segments_of (C_ReadLogs i _) = [''v1'', ''logs'', i]"
| "segments_of (C_CloseLogs i) = [''v1'', ''logs'', i]"
| "segments_of C_Whoami = [''v1'', ''whoami'']"
| "segments_of (C_ListMembers org) = [''v1'', ''orgs'', org, ''members'']"
| "segments_of (C_AddMember org _ _ _) = [''v1'', ''orgs'', org, ''members'']"
| "segments_of (C_RemoveMember org opr) = [''v1'', ''orgs'', org, ''members'', opr]"
| "segments_of C_ListTokens = [''v1'', ''operators'', ''me'', ''tokens'']"
| "segments_of (C_CreateToken _ _) = [''v1'', ''operators'', ''me'', ''tokens'']"
| "segments_of (C_RevokeToken i) = [''v1'', ''operators'', ''me'', ''tokens'', i]"
| "segments_of (C_ListJoinTokens org) = [''v1'', ''orgs'', org, ''join-tokens'']"
| "segments_of (C_CreateJoinToken org _ _ _) = [''v1'', ''orgs'', org, ''join-tokens'']"
| "segments_of (C_RevokeJoinToken org i) = [''v1'', ''orgs'', org, ''join-tokens'', i]"
| "segments_of (C_CreateInvite org _ _ _) = [''v1'', ''orgs'', org, ''invites'']"
| "segments_of (C_ListInvites org) = [''v1'', ''orgs'', org, ''invites'']"
| "segments_of (C_RevokeInvite org i) = [''v1'', ''orgs'', org, ''invites'', i]"
| "segments_of (C_RedeemInvite _ _) = [''v1'', ''invites'', ''redeem'']"
| "segments_of (C_RequestAccess _ _ _) = [''v1'', ''access-requests'']"
| "segments_of (C_ListAccessRequests org) = [''v1'', ''orgs'', org, ''access-requests'']"
| "segments_of (C_ApproveAccessRequest org i _ _) = [''v1'', ''orgs'', org, ''access-requests'', i, ''approve'']"
| "segments_of (C_DeclineAccessRequest org i) = [''v1'', ''orgs'', org, ''access-requests'', i, ''decline'']"

primrec route_no :: "api_call \<Rightarrow> nat" where
  "route_no C_Health = 0"
| "route_no (C_Validate _) = 28"
| "route_no (C_CreateOrg _ _) = 17"
| "route_no C_ListOrgs = 18"
| "route_no (C_CreateApp _ _ _) = 20"
| "route_no (C_ListApps _) = 21"
| "route_no (C_CreateStack _ _) = 23"
| "route_no (C_ListStacks _) = 24"
| "route_no (C_GetStack _) = 25"
| "route_no (C_PushStack _ _ _) = 26"
| "route_no (C_ListStackVersions _) = 27"
| "route_no (C_CreateEnv _ _ _ _ _) = 29"
| "route_no (C_ListEnvs _) = 30"
| "route_no (C_ListOrgEnvironments _) = 22"
| "route_no (C_GetEnv _) = 31"
| "route_no (C_CreatePreview _ _ _ _ _ _) = 32"
| "route_no (C_Deploy _ _ _) = 33"
| "route_no (C_ListDeployments _) = 34"
| "route_no (C_GetDeployment _) = 35"
| "route_no (C_Promote _) = 36"
| "route_no (C_Rollback _ _) = 37"
| "route_no (C_SetSecret _ _ _) = 52"
| "route_no (C_ListSecrets _) = 53"
| "route_no (C_DeleteSecret _ _) = 54"
| "route_no (C_ListNodes _) = 43"
| "route_no (C_GetNode _) = 44"
| "route_no (C_DrainNode _) = 46"
| "route_no (C_UncordonNode _) = 47"
| "route_no (C_RotateNodeRecipient _) = 48"
| "route_no (C_ListEvents _ _ _) = 19"
| "route_no (C_OpenLogs _ _ _ _) = 55"
| "route_no (C_ReadLogs _ _) = 56"
| "route_no (C_CloseLogs _) = 57"
| "route_no C_Whoami = 2"
| "route_no (C_ListMembers _) = 6"
| "route_no (C_AddMember _ _ _ _) = 7"
| "route_no (C_RemoveMember _ _) = 8"
| "route_no C_ListTokens = 3"
| "route_no (C_CreateToken _ _) = 4"
| "route_no (C_RevokeToken _) = 5"
| "route_no (C_ListJoinTokens _) = 49"
| "route_no (C_CreateJoinToken _ _ _ _) = 50"
| "route_no (C_RevokeJoinToken _ _) = 51"
| "route_no (C_CreateInvite _ _ _ _) = 9"
| "route_no (C_ListInvites _) = 10"
| "route_no (C_RevokeInvite _ _) = 11"
| "route_no (C_RedeemInvite _ _) = 12"
| "route_no (C_RequestAccess _ _ _) = 13"
| "route_no (C_ListAccessRequests _) = 14"
| "route_no (C_ApproveAccessRequest _ _ _ _) = 15"
| "route_no (C_DeclineAccessRequest _ _) = 16"
lemma length_routes: "length routes = 58"
  by (simp add: routes_def)

lemma find_filter: "List.find P xs = (case filter P xs of [] \<Rightarrow> None | x # _ \<Rightarrow> Some x)"
  by (induction xs) auto

lemma find_route:
  assumes "e \<in> set routes" "selects r e"
  shows "List.find (selects r) routes = Some e"
proof -
  have "length (filter (selects r) routes) \<le> 1"
    by (rule no_clash_unique [OF routes_no_clash]) (simp add: routes_def)
  moreover have "e \<in> set (filter (selects r) routes)" using assms by simp
  ultimately have "filter (selects r) routes = [e]"
    by (cases "filter (selects r) routes") auto
  then show ?thesis by (simp add: find_filter)
qed

lemmas msg_defs =
  Health_msg_def Validate_msg_def CreateOrg_msg_def ListOrgs_msg_def CreateApp_msg_def ListApps_msg_def
  CreateStack_msg_def ListStacks_msg_def GetStack_msg_def PushStack_msg_def ListStackVersions_msg_def
  CreateEnv_msg_def ListEnvs_msg_def ListOrgEnvironments_msg_def GetEnv_msg_def CreatePreview_msg_def Deploy_msg_def
  ListDeployments_msg_def GetDeployment_msg_def Promote_msg_def Rollback_msg_def SetSecret_msg_def ListSecrets_msg_def
  DeleteSecret_msg_def ListNodes_msg_def GetNode_msg_def DrainNode_msg_def UncordonNode_msg_def
  RotateNodeRecipient_msg_def ListEvents_msg_def OpenLogs_msg_def ReadLogs_msg_def CloseLogs_msg_def Whoami_msg_def
  ListMembers_msg_def AddMember_msg_def RemoveMember_msg_def ListTokens_msg_def CreateToken_msg_def
  RevokeToken_msg_def ListJoinTokens_msg_def CreateJoinToken_msg_def RevokeJoinToken_msg_def CreateInvite_msg_def
  ListInvites_msg_def RevokeInvite_msg_def RedeemInvite_msg_def RequestAccess_msg_def ListAccessRequests_msg_def
  ApproveAccessRequest_msg_def DeclineAccessRequest_msg_def
  do_get_def do_delete_def doJSON_def doRaw_def

lemma route_entry:
  "\<exists>p. routes ! route_no c = (w_method (wire_of c), p, handler_of c) \<and> route_no c < 58 \<and>
     (list_all (\<lambda>(_, v). v \<noteq> []) (params_of c) \<longrightarrow> matches p (segments_of c) = Some (params_of c))"
  by (cases c) (simp_all add: routes_def msg_defs)

section \<open>Reading a target back\<close>

definition escaped_of :: "api_call \<Rightarrow> string list" where
  "escaped_of c = (case c of
      C_DeleteSecret env key \<Rightarrow> [''v1'', ''envs'', env, ''secrets'', PathEscape key]
    | _ \<Rightarrow> segments_of c)"

definition query_of :: "api_call \<Rightarrow> string" where
  "query_of c = (case c of
      C_PushStack _ _ createdBy \<Rightarrow> if createdBy = [] then [] else ''?created_by='' @ QueryEscape createdBy
    | C_ListNodes org \<Rightarrow> ''?org='' @ QueryEscape org
    | C_ListEvents _ limit before \<Rightarrow> events_query limit before
    | C_ReadLogs _ cursor \<Rightarrow> if cursor > 0 then ''?cursor='' @ show_int cursor else []
    | _ \<Rightarrow> [])"

definition addressable :: "string \<times> string \<Rightarrow> bool" where
  "addressable = (\<lambda>(k, v). v \<noteq> [] \<and> v \<noteq> ''.'' \<and> v \<noteq> ''..'' \<and> (k = ''key'' \<or> list_all unreserved v))"

definition joined :: "string list \<Rightarrow> string" where
  "joined xs = concat (map ((#) (CHR ''/'')) xs)"

lemma cut_at_absent: "ch \<notin> set s \<Longrightarrow> cut_at ch s = (s, [])"
  by (induction s) (auto simp: cut_at_def)

lemma cut_at_present: "ch \<notin> set a \<Longrightarrow> cut_at ch (a @ ch # b) = (a, b)"
  by (induction a) (auto simp: cut_at_def)

lemma split_slash_joined:
  "xs \<noteq> [] \<Longrightarrow> list_all (\<lambda>x. CHR ''/'' \<notin> set x) xs \<Longrightarrow> split_slash (joined xs) = [] # xs"
proof (induction xs)
  case (Cons x xs)
  then show ?case
    by (cases xs) (simp_all add: joined_def split_slash_plain split_slash_append)
qed simp

lemma all_some_map: "all_some (map Some xs) = Some xs"
  by (induction xs) auto

definition delims :: "char set" where
  "delims = {CHR ''/'', CHR ''?'', CHR ''#''}"

lemma receive_target:
  assumes path: "w_path m = joined esc @ q"
    and esc: "esc \<noteq> []" "list_all (\<lambda>x. set x \<inter> delims = {}) esc" "map (unescape False) esc = map Some names"
    and q: "q = [] \<or> hd q = CHR ''?''" "CHR ''#'' \<notin> set q"
  shows "receive puuid marshal parse tok m = Some \<lparr>rq_method = w_method m, rq_segments = names,
    rq_clean = clean_segments esc, rq_authorization = (if tok = [] then [] else ''Bearer '' @ tok),
    rq_query = parse_query (tl q), rq_body = decodeJSON puuid parse (body_text marshal (w_body m))\<rparr>"
proof -
  have none: "CHR ''#'' \<notin> set (joined esc)" "CHR ''?'' \<notin> set (joined esc)"
    using esc(2) by (auto simp: joined_def list_all_iff delims_def)
  have "cut_at (CHR ''#'') (w_path m) = (joined esc @ q, [])"
    using none(1) q(2) by (simp add: path cut_at_absent)
  moreover have "cut_at (CHR ''?'') (joined esc @ q) = (joined esc, tl q)"
    using none(2) q(1) by (cases q) (simp_all add: cut_at_absent cut_at_present)
  moreover have "split_slash (joined esc) = [] # esc"
    using esc(1,2) by (intro split_slash_joined) (auto simp: list_all_iff delims_def)
  ultimately show ?thesis by (simp add: receive_def Let_def esc(3) all_some_map)
qed

lemma wire_path: "w_path (wire_of c) = joined (escaped_of c) @ query_of c"
  by (cases c) (simp_all add: msg_defs joined_def escaped_of_def query_of_def)

lemma unescape_plain_all: "list_all unreserved s \<Longrightarrow> unescape q s = Some s"
proof (induction s)
  case (Cons ch s)
  with unreserved_delims [of ch] show ?case by (simp add: unescape_plain del: unescape.simps(2))
qed simp

lemma unreserved_no_delims: "list_all unreserved s \<Longrightarrow> set s \<inter> delims = {}"
  using unreserved_delims by (fastforce simp: list_all_iff delims_def)

lemma PathEscape_no_delims: "set (PathEscape s) \<inter> delims = {}"
  using PathEscape_chars [of s] unreserved_delims by (fastforce simp: delims_def)

lemma PathEscape_dots:
  "PathEscape s = [] \<Longrightarrow> s = []" "PathEscape s = ''.'' \<Longrightarrow> s = ''.''" "PathEscape s = ''..'' \<Longrightarrow> s = ''..''"
  using PathEscape_inverse [of s] by auto

lemma escaped_segments:
  assumes "list_all addressable (params_of c)"
  shows "map (unescape False) (escaped_of c) = map Some (segments_of c)" "escaped_of c \<noteq> []"
    "list_all (\<lambda>x. set x \<inter> delims = {}) (escaped_of c)" "list_all (\<lambda>(_, v). v \<noteq> []) (params_of c)"
  using assms
  by (cases c; simp add: escaped_of_def addressable_def unescape_plain_all PathEscape_inverse unreserved_no_delims
      PathEscape_no_delims; (simp add: delims_def)?; fail)+

lemma escaped_clean:
  assumes "list_all addressable (params_of c)"
  shows "clean_segments (escaped_of c)"
  using assms
  by (cases c) (auto simp: escaped_of_def addressable_def clean_segments_def dest: PathEscape_dots)

section \<open>Reading a query back\<close>

lemma split_at_absent: "ch \<notin> set s \<Longrightarrow> split_at ch s = [s]"
  by (induction s) auto

lemma split_at_append: "ch \<notin> set a \<Longrightarrow> split_at ch (a @ ch # b) = a # split_at ch b"
  by (induction a) auto

lemma query_pair_read:
  assumes "list_all unreserved k" "k \<noteq> []" "unescape True v = Some x" "CHR '';'' \<notin> set v"
  shows "query_pair (k @ CHR ''='' # v) = [(k, x)]"
proof -
  have "set k \<inter> {CHR ''='', CHR '';''} = {}" using assms(1) unreserved_delims by (fastforce simp: list_all_iff)
  then show ?thesis
    using assms by (simp add: query_pair_def cut_at_present unescape_plain_all)
qed

lemma QueryEscape_safe: "set (QueryEscape s) \<inter> set ''&;#'' = {}"
  using QueryEscape_chars [of s] unreserved_delims by fastforce

lemma show_nat_unreserved: "list_all unreserved (show_nat n)"
  using show_nat_digits [of n] by (auto simp: list_all_iff is_digit_def unreserved_def alnum_def)

lemma show_int_unreserved: "list_all unreserved (show_int n)"
  using show_nat_unreserved by (auto simp: show_int_def unreserved_def)

lemma unreserved_safe: "list_all unreserved s \<Longrightarrow> set s \<inter> set ''&;#='' = {}"
  using unreserved_delims by (fastforce simp: list_all_iff)

lemma query_start: "query_of c = [] \<or> hd (query_of c) = CHR ''?''"
  by (cases c) (auto simp: query_of_def events_query_def Let_def)

lemma query_no_fragment: "CHR ''#'' \<notin> set (query_of c)"
proof -
  have "CHR ''#'' \<notin> set (QueryEscape x)" "CHR ''#'' \<notin> set (show_int n)" for x n
    using QueryEscape_safe [of x] unreserved_safe [OF show_int_unreserved [of n]] by auto
  then show ?thesis by (cases c) (auto simp: query_of_def events_query_def Let_def)
qed

lemma parse_query_one:
  assumes "list_all unreserved k" "k \<noteq> []" "unescape True v = Some x" "set v \<inter> set ''&;'' = {}"
  shows "parse_query (k @ CHR ''='' # v) = [(k, x)]"
    "parse_query (k @ CHR ''='' # v @ CHR ''&'' # rest) = (k, x) # parse_query rest"
proof -
  have "CHR ''&'' \<notin> set (k @ CHR ''='' # v)"
    using assms(1,4) unreserved_delims by (fastforce simp: list_all_iff)
  then show "parse_query (k @ CHR ''='' # v) = [(k, x)]"
    "parse_query (k @ CHR ''='' # v @ CHR ''&'' # rest) = (k, x) # parse_query rest"
    using assms query_pair_read [of k v x] split_at_append [of "CHR ''&''" "k @ CHR ''='' # v" rest]
    by (auto simp: parse_query_def split_at_absent)
qed

lemma query_keys: "list_all (list_all unreserved) [''created_by'', ''org'', ''limit'', ''before_id'', ''cursor'']"
  by code_simp

lemma query_parameter:
  assumes "k \<in> set [''created_by'', ''org'', ''limit'', ''before_id'', ''cursor'']"
  shows "parse_query (k @ CHR ''='' # QueryEscape x) = [(k, x)]"
    "parse_query (k @ CHR ''='' # show_int n) = [(k, show_int n)]"
    "parse_query (k @ CHR ''='' # show_int n @ CHR ''&'' # rest) = (k, show_int n) # parse_query rest"
proof -
  have k: "list_all unreserved k" "k \<noteq> []" using assms query_keys by (auto simp: list_all_iff)
  show "parse_query (k @ CHR ''='' # QueryEscape x) = [(k, x)]"
    using QueryEscape_safe [of x] by (intro parse_query_one k QueryEscape_inverse) auto
  have n: "unescape True (show_int n) = Some (show_int n)" "set (show_int n) \<inter> set ''&;'' = {}"
    using unescape_plain_all [OF show_int_unreserved] unreserved_safe [OF show_int_unreserved] by auto
  show "parse_query (k @ CHR ''='' # show_int n) = [(k, show_int n)]"
    "parse_query (k @ CHR ''='' # show_int n @ CHR ''&'' # rest) = (k, show_int n) # parse_query rest"
    using parse_query_one [OF k n] by auto
qed

section \<open>Reading a body back\<close>

definition typed_value :: "jval \<Rightarrow> bool" where
  "typed_value x = (case x of JvInt n \<Rightarrow> in_i64 n | JvObj m \<Rightarrow> distinct (map fst m) | _ \<Rightarrow> True)"

definition typed_body :: "wire_body \<Rightarrow> bool" where
  "typed_body b = (case b of WJson v \<Rightarrow> list_all (\<lambda>p. typed_value (snd p)) v | _ \<Rightarrow> True)"

lemma typed_value_simps [simp]:
  "typed_value (JvStr x)" "typed_value (JvBool b)" "typed_value (JvInt n) = in_i64 n" "typed_value (JvObj m) = distinct (map fst m)"
  by (simp_all add: typed_value_def)

lemma map_fst_strs: "map (fst \<circ> (\<lambda>(k, v). (k, JvStr v))) m = map fst m"
  by (induction m) auto

lemma put_absent: "k \<notin> fst ` set m \<Longrightarrow> put k v m = m @ [(k, v)]"
  by (induction m) auto

lemma str_map_inverse: "distinct (map fst m) \<Longrightarrow> str_map (rev (map (\<lambda>(k, v). (k, JvStr v)) m)) = Some m"
  by (induction m rule: rev_induct) (auto simp: put_absent)

lemma to_lower_names [simp]:
  "to_lower ''slug'' = ''slug''" "to_lower ''name'' = ''name''" "to_lower ''strategy'' = ''strategy''"
  "to_lower ''hostname'' = ''hostname''" "to_lower ''config'' = ''config''"
  "to_lower ''stack_version_id'' = ''stack_version_id''"
  "to_lower ''inherit_secrets_from'' = ''inherit_secrets_from''" "to_lower ''ttl_hours'' = ''ttl_hours''"
  "to_lower ''created_by'' = ''created_by''" "to_lower ''to_revision'' = ''to_revision''"
  "to_lower ''org'' = ''org''" "to_lower ''advertise_addr'' = ''advertise_addr''"
  "to_lower ''cpu_millis'' = ''cpu_millis''" "to_lower ''memory_bytes'' = ''memory_bytes''"
  "to_lower ''labels'' = ''labels''" "to_lower ''agent_version'' = ''agent_version''"
  "to_lower ''age_recipient'' = ''age_recipient''" "to_lower ''alloc_cpu_millis'' = ''alloc_cpu_millis''"
  "to_lower ''alloc_memory_bytes'' = ''alloc_memory_bytes''" "to_lower ''instance_id'' = ''instance_id''"
  "to_lower ''state'' = ''state''" "to_lower ''container_id'' = ''container_id''"
  "to_lower ''health_status'' = ''health_status''" "to_lower ''last_error'' = ''last_error''"
  "to_lower ''restart_count'' = ''restart_count''" "to_lower ''set_started'' = ''set_started''"
  "to_lower ''ingress_port'' = ''ingress_port''" "to_lower ''instances'' = ''instances''"
  "to_lower ''request_id'' = ''request_id''" "to_lower ''data'' = ''data''" "to_lower ''error'' = ''error''"
  "to_lower ''deliveries'' = ''deliveries''" "to_lower ''expires_in_days'' = ''expires_in_days''"
  "to_lower ''max_uses'' = ''max_uses''" "to_lower ''key'' = ''key''" "to_lower ''value'' = ''value''"
  "to_lower ''service'' = ''service''" "to_lower ''tail'' = ''tail''" "to_lower ''follow'' = ''follow''"
  "to_lower ''email'' = ''email''" "to_lower ''role'' = ''role''" "to_lower ''token'' = ''token''"
  "to_lower ''token_name'' = ''token_name''" "to_lower ''note'' = ''note''"
  by code_simp+

lemmas decode_defs =
  decode_slug_name_def decode_stack_def decode_env_def decode_preview_def decode_deployment_def decode_rollback_def
  decode_join_token_def decode_secret_def decode_log_def decode_member_def decode_token_def decode_invite_def
  decode_redeem_def decode_access_def decode_approve_def
  known_fields_def str_field_def int_field_def bool_field_def map_field_def

lemma decode_org_msg: "decode_slug_name [(''slug'', JvStr slug), (''name'', JvStr name)] = Some (slug, name)"
  by (simp add: decode_defs)

lemma decode_stack_msg: "decode_stack [(''slug'', JvStr slug)] = Some slug"
  by (simp add: decode_defs)

lemma decode_env_msg:
  "distinct (map fst config) \<Longrightarrow>
   decode_env ((''slug'', JvStr slug) # opt_str ''hostname'' hostname @ opt_str ''strategy'' strategy @ opt_map ''config'' config) =
   Some \<lparr>eb_slug = slug, eb_strategy = strategy, eb_hostname = hostname, eb_config = config\<rparr>"
  by (simp add: decode_defs opt_str_def opt_map_def str_map_inverse)

lemma decode_preview_msg:
  "in_i64 ttl \<Longrightarrow>
   decode_preview ((''slug'', JvStr slug) # opt_str ''stack_version_id'' version @ opt_str ''inherit_secrets_from'' inherit @
      opt_int ''ttl_hours'' ttl @ opt_str ''created_by'' createdBy) =
   Some \<lparr>pb_slug = slug, pb_version = version, pb_inherit = inherit, pb_ttl_hours = ttl, pb_created_by = createdBy\<rparr>"
  by (simp add: decode_defs opt_str_def opt_int_def)

lemma decode_deployment_msg:
  "decode_deployment (opt_str ''stack_version_id'' version @ opt_str ''created_by'' createdBy) = Some (version, createdBy)"
  by (simp add: decode_defs opt_str_def)

lemma decode_rollback_msg: "in_i64 to \<or> to \<le> 0 \<Longrightarrow> decode_rollback (pos_int ''to_revision'' to) = Some (max 0 to)"
  by (auto simp: decode_defs pos_int_def max_def)

lemma decode_secret_msg: "decode_secret [(''key'', JvStr key), (''value'', JvStr val)] = Some (key, val)"
  by (simp add: decode_defs)

lemma decode_log_msg:
  "in_i64 n \<or> n \<le> 0 \<Longrightarrow>
   decode_log ((''service'', JvStr service) # (''follow'', JvBool follow) # pos_int ''tail'' n) = Some (service, max 0 n, follow)"
  by (auto simp: decode_defs pos_int_def max_def)

lemma decode_member_msg:
  "decode_member [(''email'', JvStr email), (''name'', JvStr name), (''role'', JvStr role)] = Some (email, name, role)"
  by (simp add: decode_defs)

lemma decode_token_msg:
  "in_i64 days \<Longrightarrow> decode_token [(''name'', JvStr name), (''expires_in_days'', JvInt days)] = Some (name, days)"
  by (simp add: decode_defs)

lemma decode_join_token_msg:
  "in_i64 days \<Longrightarrow> in_i64 uses \<Longrightarrow>
   decode_join_token [(''name'', JvStr name), (''expires_in_days'', JvInt days), (''max_uses'', JvInt uses)] = Some (name, days, uses)"
  by (simp add: decode_defs)

lemma decode_invite_msg:
  "in_i64 ttl \<Longrightarrow> decode_invite ((''email'', JvStr email) # opt_str ''role'' role @ opt_int ''ttl_hours'' ttl) = Some (email, role, ttl)"
  by (simp add: decode_defs opt_str_def opt_int_def)

lemma decode_redeem_msg: "decode_redeem [(''token'', JvStr tok), (''token_name'', JvStr name)] = Some (tok, name)"
  by (simp add: decode_defs)

lemma decode_access_msg:
  "decode_access ((''email'', JvStr email) # opt_str ''name'' name @ opt_str ''note'' note) = Some (email, name, note)"
  by (simp add: decode_defs opt_str_def)

lemma decode_approve_msg: "in_i64 ttl \<Longrightarrow> decode_approve (opt_str ''role'' role @ opt_int ''ttl_hours'' ttl) = Some (role, ttl)"
  by (simp add: decode_defs opt_str_def opt_int_def)

lemmas decode_msgs = decode_org_msg decode_stack_msg decode_env_msg decode_preview_msg decode_deployment_msg
  decode_rollback_msg decode_secret_msg decode_log_msg decode_member_msg decode_token_msg decode_join_token_msg
  decode_invite_msg decode_redeem_msg decode_access_msg decode_approve_msg

text \<open>\<open>encoding/json\<close> renders the object of a body to some text and reads it back.\<close>

definition reads_back :: "(object \<Rightarrow> string) \<Rightarrow> (string \<Rightarrow> object option) \<Rightarrow> wire_body \<Rightarrow> bool" where
  "reads_back marshal parse b = (case b of WJson v \<Rightarrow> parse (marshal v) = Some v \<and> marshal v \<noteq> [] | _ \<Rightarrow> True)"

lemma decoded_body:
  assumes "length (marshal v) \<le> max_body" "parse (marshal v) = Some v"
  shows "b_org (decodeJSON puuid parse (marshal v)) = decode_slug_name v"
    "b_app (decodeJSON puuid parse (marshal v)) = decode_slug_name v"
    "b_stack (decodeJSON puuid parse (marshal v)) = decode_stack v"
    "b_env (decodeJSON puuid parse (marshal v)) = decode_env v"
    "b_preview (decodeJSON puuid parse (marshal v)) = decode_preview v"
    "b_deployment (decodeJSON puuid parse (marshal v)) = decode_deployment v"
    "b_rollback (decodeJSON puuid parse (marshal v)) = decode_rollback v"
    "b_secret (decodeJSON puuid parse (marshal v)) = decode_secret v"
    "b_log (decodeJSON puuid parse (marshal v)) = decode_log v"
    "b_member (decodeJSON puuid parse (marshal v)) = decode_member v"
    "b_token (decodeJSON puuid parse (marshal v)) = decode_token v"
    "b_join_token (decodeJSON puuid parse (marshal v)) = decode_join_token v"
    "b_invite (decodeJSON puuid parse (marshal v)) = decode_invite v"
    "b_redeem (decodeJSON puuid parse (marshal v)) = decode_redeem v"
    "b_access (decodeJSON puuid parse (marshal v)) = decode_access v"
    "b_approve (decodeJSON puuid parse (marshal v)) = decode_approve v"
  using assms by (simp_all add: decodeJSON_def Let_def)

lemma decoded_length: "b_length (decodeJSON puuid parse text) = int (length text)"
  by (simp add: decodeJSON_def Let_def)

lemma decoded_raw: "length text \<le> max_body \<Longrightarrow> b_raw (decodeJSON puuid parse text) = Some text"
  by (simp add: decodeJSON_def Let_def)

lemma typed_pos_int: "list_all (\<lambda>p. typed_value (snd p)) (pos_int k n) \<Longrightarrow> in_i64 n \<or> n \<le> 0"
  by (auto simp: pos_int_def split: if_splits)

lemma typed_opt_int: "list_all (\<lambda>p. typed_value (snd p)) (opt_int k n) \<longleftrightarrow> in_i64 n"
  by (auto simp: opt_int_def in_i64_def)

lemma typed_opt_str: "list_all (\<lambda>p. typed_value (snd p)) (opt_str k x)"
  by (simp add: opt_str_def)

lemma parse_query_Nil: "parse_query [] = []"
  by (simp add: parse_query_def query_pair_def)

lemmas query_parameters = parse_query_Nil
  query_parameter(1) [of "''created_by''", simplified] query_parameter(1) [of "''org''", simplified]
  query_parameter(2,3) [of "''before_id''", simplified] query_parameter(2) [of "''limit''", simplified]
  query_parameter(2) [of "''cursor''", simplified]

lemma typed_opt_map: "list_all (\<lambda>p. typed_value (snd p)) (opt_map k m) \<longleftrightarrow> distinct (map fst m)"
  by (simp add: opt_map_def map_fst_strs)

lemma delivered_call:
  assumes "typed_body (w_body (wire_of c))" "length (body_text marshal (w_body (wire_of c))) \<le> max_body"
    and "reads_back marshal parse (w_body (wire_of c))"
    and "rq_body r = decodeJSON puuid parse (body_text marshal (w_body (wire_of c)))" "rq_query r = parse_query (tl (query_of c))"
  shows "delivered c r"
  using assms
  by (cases c) (simp_all add: msg_defs body_text_def reads_back_def decoded_body decoded_length decoded_raw decode_msgs
      typed_body_def typed_pos_int typed_opt_int typed_opt_str typed_opt_map
      query_of_def query_get_def events_query_def query_parameters split: if_splits)

section \<open>Client and server agree\<close>

text \<open>
  C9: every operation of the client arrives. Whatever identifiers of unreserved characters, secret key,
  text and numbers it is called with, the server reads the message as a request of the client's token,
  the route table sends that request to the handler meant for the operation, with the identifiers as its
  path parameters, and the body or query holds what the operation was given, as long as the body is
  within the server's limit.
\<close>

theorem client_calls_arrive:
  assumes "list_all addressable (params_of c)" "typed_body (w_body (wire_of c))"
    and "reads_back marshal parse (w_body (wire_of c))" "length (body_text marshal (w_body (wire_of c))) \<le> max_body"
  shows "\<exists>r. receive puuid marshal parse tok (wire_of c) = Some r \<and> delivered c r \<and>
    rq_authorization r = (if tok = [] then [] else ''Bearer '' @ tok) \<and>
    mux (h\<lparr>hq := r\<rparr>) w = handler_of c (h\<lparr>hq := r, hp := params_of c\<rparr>) w"
proof -
  let ?r = "\<lparr>rq_method = w_method (wire_of c), rq_segments = segments_of c, rq_clean = clean_segments (escaped_of c),
    rq_authorization = (if tok = [] then [] else ''Bearer '' @ tok), rq_query = parse_query (tl (query_of c)),
    rq_body = decodeJSON puuid parse (body_text marshal (w_body (wire_of c)))\<rparr>"
  note seg = escaped_segments [OF assms(1)]
  have got: "receive puuid marshal parse tok (wire_of c) = Some ?r"
    by (rule receive_target [OF wire_path seg(2,3,1) query_start query_no_fragment])
  obtain p where p: "routes ! route_no c = (w_method (wire_of c), p, handler_of c)" "route_no c < 58"
    "matches p (segments_of c) = Some (params_of c)"
    using route_entry [of c] seg(4) by auto
  have "List.find (selects ?r) routes = Some (w_method (wire_of c), p, handler_of c)"
    using nth_mem [of "route_no c" routes] p by (intro find_route) (auto simp: length_routes selects_def accepts_def)
  then have "mux (h\<lparr>hq := ?r\<rparr>) w = handler_of c (h\<lparr>hq := ?r, hp := params_of c\<rparr>) w"
    using p(3) escaped_clean [OF assms(1)] by (simp add: mux_def)
  moreover have "delivered c ?r" by (rule delivered_call [OF assms(2,4,3)]) simp_all
  ultimately show ?thesis using got by auto
qed

theorem client_calls_arrive_witness:
  "\<exists>r. receive (\<lambda>_. None) (\<lambda>_. ''{}'') (\<lambda>_. Some [(''to_revision'', JvInt 3)]) ''t'' (Rollback_msg ''e1'' 3) = Some r \<and>
     b_rollback (rq_body r) = Some 3"
proof -
  have "list_all addressable (params_of (C_Rollback ''e1'' 3))" "typed_body (w_body (wire_of (C_Rollback ''e1'' 3)))"
    "reads_back (\<lambda>_. ''{}'') (\<lambda>_. Some [(''to_revision'', JvInt 3)]) (w_body (wire_of (C_Rollback ''e1'' 3)))"
    "length (body_text (\<lambda>_. ''{}'') (w_body (wire_of (C_Rollback ''e1'' 3)))) \<le> max_body"
    by (simp_all add: msg_defs pos_int_def addressable_def unreserved_def alnum_def typed_body_def reads_back_def
        body_text_def max_body_def in_i64_def)
  from client_calls_arrive [OF this, where tok = "''t''" and puuid = "\<lambda>_. None"] show ?thesis by auto
qed

end
