(* ===== verification/Agent_Wire.thy ===== *)
theory Agent_Wire
  imports Api_Client
begin

text \<open>
  The agent's requests on the wire: the JSON of \<open>register\<close>, \<open>toReportDTO\<close>, \<open>toLogDTO\<close> and the heartbeat, and
  what the server makes of them. A report arrives as it was made; a batch of container output that fills
  the limits both sides declare does not.
\<close>

section \<open>Bodies\<close>

definition register_object :: "string \<Rightarrow> agent_config \<Rightarrow> string \<Rightarrow> object" where
  "register_object version cfg recipient =
     [(''org'', JvStr (ag_org cfg)), (''hostname'', JvStr (ag_hostname cfg)), (''advertise_addr'', JvStr (ag_advertise cfg)),
      (''cpu_millis'', JvInt (ag_cpu cfg)), (''memory_bytes'', JvInt (ag_memory cfg)), (''agent_version'', JvStr version),
      (''age_recipient'', JvStr recipient),
      (''labels'', case ag_labels cfg of None \<Rightarrow> JvNull | Some m \<Rightarrow> JvObj (map (\<lambda>(k, v). (k, JvStr v)) m))]"

definition report_object :: "report \<Rightarrow> object" where
  "report_object r =
     [(''instance_id'', JvStr (rep_instance r)), (''state'', JvStr (instance_state_text (rep_state r))),
      (''container_id'', JvStr (rep_container r)), (''health_status'', JvStr (rep_health r)),
      (''last_error'', JvStr (rep_error r)), (''restart_count'', JvInt (rep_restarts r)),
      (''set_started'', JvBool (rep_set_started r)), (''ingress_port'', JvInt (rep_ingress_port r))]"

definition toReportDTO :: "report list \<Rightarrow> jval" where
  "toReportDTO rs = JvList (map (\<lambda>r. JvObj (report_object r)) rs)"

definition toLogDTO :: "log_delivery list \<Rightarrow> jval" where
  "toLogDTO ds = JvList (map (\<lambda>d. JvObj [(''request_id'', JvStr (ld_request d)), (''data'', JvStr (ld_data d)), (''error'', JvStr (ld_err d))]) ds)"

definition agent_message :: "string \<Rightarrow> cp_request \<Rightarrow> wire" where
  "agent_message version q =
     \<lparr>w_method = (if cq_post q then POST else GET), w_path = cq_path q,
      w_body = (case cq_body q of
          NoBody \<Rightarrow> WNone
        | RegisterBody cfg recipient \<Rightarrow> WJson (register_object version cfg recipient)
        | ReportBody rs \<Rightarrow> WJson [(''instances'', toReportDTO rs)]
        | LogsBody ds \<Rightarrow> WJson [(''deliveries'', toLogDTO ds)]
        | HeartbeatBody cpu mem \<Rightarrow> WJson [(''alloc_cpu_millis'', JvInt cpu), (''alloc_memory_bytes'', JvInt mem)])\<rparr>"

section \<open>Arrival\<close>

lemma node_message_arrives:
  assumes "(w_method m, [Lit ''v1'', Lit ''nodes'', Wild ''id'', Lit what], f) \<in> set routes"
    and "addressable (''id'', node)" "addressable (''what'', what)" "w_path m = node_path node what"
  shows "\<exists>r. receive puuid marshal parse tok m = Some r \<and> rq_body r = decodeJSON puuid parse (body_text marshal (w_body m)) \<and>
    mux (h\<lparr>hq := r\<rparr>) w = f (h\<lparr>hq := r, hp := [(''id'', node)]\<rparr>) w"
proof -
  let ?segs = "[''v1'', ''nodes'', node, what]"
  let ?r = "\<lparr>rq_method = w_method m, rq_segments = ?segs, rq_clean = clean_segments ?segs,
    rq_authorization = (if tok = [] then [] else ''Bearer '' @ tok), rq_query = parse_query (tl []),
    rq_body = decodeJSON puuid parse (body_text marshal (w_body m))\<rparr>"
  have plain: "list_all unreserved node" "list_all unreserved what" using assms(2,3) by (auto simp: addressable_def)
  have got: "receive puuid marshal parse tok m = Some ?r"
    using plain by (intro receive_target)
      (simp_all add: assms(4) node_path_def joined_def unescape_plain_all unreserved_no_delims, simp_all add: delims_def)
  have "List.find (selects ?r) routes = Some (w_method m, [Lit ''v1'', Lit ''nodes'', Wild ''id'', Lit what], f)"
    using assms(2) by (intro find_route assms(1)) (simp add: selects_def accepts_def addressable_def)
  then have "mux (h\<lparr>hq := ?r\<rparr>) w = f (h\<lparr>hq := ?r, hp := [(''id'', node)]\<rparr>) w"
    using assms(2,3) by (simp add: mux_def addressable_def clean_segments_def)
  with got show ?thesis by auto
qed

lemma agent_routes:
  "(POST, [Lit ''v1'', Lit ''nodes'', Wild ''id'', Lit ''report''], handleInstanceReport) \<in> set routes"
  "(POST, [Lit ''v1'', Lit ''nodes'', Wild ''id'', Lit ''logs''], handleLogDelivery) \<in> set routes"
  "(POST, [Lit ''v1'', Lit ''nodes'', Wild ''id'', Lit ''heartbeat''], handleHeartbeat) \<in> set routes"
  "(GET, [Lit ''v1'', Lit ''nodes'', Wild ''id'', Lit ''desired-state''], handleDesiredState) \<in> set routes"
  "(GET, [Lit ''v1'', Lit ''nodes'', Wild ''id'', Lit ''routes''], handleNodeRoutes) \<in> set routes"
  by (simp_all add: routes_def)

lemma agent_suffixes: "list_all (\<lambda>what. addressable (''what'', what)) [''report'', ''logs'', ''heartbeat'', ''desired-state'', ''routes'']"
  by code_simp

text \<open>A report as the server decodes it; the state is parsed by the handler.\<close>

definition received_report :: "report \<Rightarrow> instance_report" where
  "received_report r = \<lparr>ir_id = rep_instance r, ir_state = instance_state_text (rep_state r),
     ir_observed = \<lparr>oi_state = InstancePending, oi_container = rep_container r, oi_health = rep_health r, oi_error = rep_error r,
       oi_restarts = rep_restarts r, oi_set_started = rep_set_started r, oi_ingress_port = rep_ingress_port r\<rparr>\<rparr>"

definition sendable_report :: "(string \<Rightarrow> uuid option) \<Rightarrow> report \<Rightarrow> bool" where
  "sendable_report puuid r \<longleftrightarrow>
     puuid (rep_instance r) = Some (rep_instance r) \<and> in_i64 (rep_restarts r) \<and> in_i64 (rep_ingress_port r)"

lemma decode_report_object: "sendable_report puuid r \<Longrightarrow> decode_report_item puuid (report_object r) = Some (received_report r)"
  by (simp add: decode_report_item_def decode_defs uuid_field_def report_object_def received_report_def sendable_report_def)

lemma decode_reports:
  "list_all (sendable_report puuid) rs \<Longrightarrow> decode_report puuid [(''instances'', toReportDTO rs)] = Some (map received_report rs)"
proof -
  have "decode_list (decode_report_item puuid) (map (\<lambda>r. JvObj (report_object r)) rs) = Some (map received_report rs)"
    if "list_all (sendable_report puuid) rs"
    using that by (induction rs) (simp_all add: decode_report_object)
  then show "list_all (sendable_report puuid) rs \<Longrightarrow> decode_report puuid [(''instances'', toReportDTO rs)] = Some (map received_report rs)"
    by (simp add: decode_report_def list_field_def toReportDTO_def known_fields_def)
qed

lemma state_text_parses: "parse_instance_state (instance_state_text st) = Some st"
  by (cases st) (simp_all add: parse_instance_state_def instance_state_text_def)

text \<open>
  C30: what an agent reports is what the control plane stores. A report of instances arrives at its
  handler under the agent's node, with every instance's identifier, container, health, error, restart
  count, start and port as the agent wrote them, and each state is one the handler reads back.
\<close>

theorem agent_reports_arrive:
  assumes "addressable (''id'', node)" "list_all (sendable_report puuid) rs"
    and "parse (marshal [(''instances'', toReportDTO rs)]) = Some [(''instances'', toReportDTO rs)]"
    and "length (marshal [(''instances'', toReportDTO rs)]) \<le> max_body"
  shows "\<exists>r. receive puuid marshal parse tok (agent_message version (post_report node tok rs)) = Some r \<and>
    mux (h\<lparr>hq := r\<rparr>) w = handleInstanceReport (h\<lparr>hq := r, hp := [(''id'', node)]\<rparr>) w \<and>
    b_report (rq_body r) = Some (map received_report rs) \<and>
    map (parse_instance_state \<circ> ir_state) (map received_report rs) = map (Some \<circ> rep_state) rs"
proof -
  let ?m = "agent_message version (post_report node tok rs)"
  have path: "w_path ?m = node_path node ''report''" and post: "w_method ?m = POST"
    and body: "w_body ?m = WJson [(''instances'', toReportDTO rs)]"
    by (simp_all add: agent_message_def post_report_def)
  have "addressable (''what'', ''report'')" using agent_suffixes by simp
  from node_message_arrives [OF agent_routes(1) [folded post] assms(1) this path,
      of puuid marshal parse tok h w]
  obtain r where r: "receive puuid marshal parse tok ?m = Some r"
    "rq_body r = decodeJSON puuid parse (marshal [(''instances'', toReportDTO rs)])"
    "mux (h\<lparr>hq := r\<rparr>) w = handleInstanceReport (h\<lparr>hq := r, hp := [(''id'', node)]\<rparr>) w"
    unfolding body by (auto simp: body_text_def)
  have "b_report (rq_body r) = Some (map received_report rs)"
    using assms(3,4) decode_reports [OF assms(2)] by (simp add: r(2) decodeJSON_def Let_def)
  then show ?thesis using r(1,3) by (auto simp: received_report_def state_text_parses)
qed

definition ex_report :: report where
  "ex_report = \<lparr>rep_instance = ''i1'', rep_state = InstanceRunning, rep_container = ''c1'', rep_health = ''healthy'', rep_error = [],
     rep_restarts = 0, rep_set_started = True, rep_recreated = False, rep_ingress_port = 32768\<rparr>"

theorem agent_reports_arrive_witness:
  "\<exists>r. receive Some (\<lambda>_. ''{}'') (\<lambda>_. Some [(''instances'', toReportDTO [ex_report])]) ''t''
       (agent_message ''1'' (post_report ''n1'' ''t'' [ex_report])) = Some r \<and>
     map_option (map ir_state) (b_report (rq_body r)) = Some [''running'']"
proof -
  have "addressable (''id'', ''n1'')" "list_all (sendable_report Some) [ex_report]" by code_simp+
  from agent_reports_arrive [OF this, where marshal = "\<lambda>_. ''{}''" and parse = "\<lambda>_. Some [(''instances'', toReportDTO [ex_report])]"
      and tok = "''t''" and version = "''1''"]
  obtain r where "receive Some (\<lambda>_. ''{}'') (\<lambda>_. Some [(''instances'', toReportDTO [ex_report])]) ''t''
       (agent_message ''1'' (post_report ''n1'' ''t'' [ex_report])) = Some r" "b_report (rq_body r) = Some (map received_report [ex_report])"
    by (auto simp: max_body_def)
  moreover have "map ir_state (map received_report [ex_report]) = [''running'']" by code_simp
  ultimately show ?thesis by auto
qed

section \<open>Container output that fills the limits\<close>

text \<open>
  The agent reads up to \<open>MaxLogBytes\<close> of a container's output and sends what it read as JSON in one request;
  the server accepts a body of at most the same size. Output as long as the cap, as a container with a
  terminal gives it, therefore never arrives: the handler answers 400, and as the request stays pending
  the agent sends it again.
\<close>

theorem full_log_reads_are_refused:
  assumes "d \<in> set ds" "MaxLogBytes \<le> length (ld_data d)"
    and "length (ld_data d) < length (marshal [(''deliveries'', toLogDTO ds)])"
    and "rq_body (hq h) = decodeJSON puuid parse (marshal [(''deliveries'', toLogDTO ds)])" "pathUUID h ''id'' = Inr nd"
  shows "handleLogDelivery h w = (writeError 400 ''invalid request body'', w)"
proof -
  have "max_body < length (marshal [(''deliveries'', toLogDTO ds)])"
    using assms(2,3) by (simp add: MaxLogBytes_def max_body_def)
  then show ?thesis
    using assms(4,5) by (simp add: handleLogDelivery_def with_id_def with_body_def decodeJSON_def Let_def)
qed

end
