(* ===== verification/Spec2Isabelle.thy ===== *)
theory Spec2Isabelle
  imports Store_Security Compose_Valid Control_Plane Agent_Wire
begin

text \<open>
  Navarch deploys Docker Compose stacks onto a fleet of nodes. A control plane (\<open>cmd/controlplane\<close>) serves
  an HTTP API (\<open>internal/api\<close>), parses compose files into specifications (\<open>internal/parser\<close>,
  \<open>internal/spec\<close>), keeps everything in Postgres (\<open>internal/store\<close>), and runs loops (\<open>internal/rollout\<close>): the
  scheduler places pending deployments on nodes, the controller advances rollouts by the health of their
  instances, repoints the router (\<open>internal/router\<close>) and tears old revisions down, the reaper removes what
  has expired. An agent on every node (\<open>internal/agent\<close>) polls its desired state and drives Docker
  (\<open>internal/agent/dockerd\<close>). Container output passes through \<open>internal/logbuf\<close>. Operators reach the API
  through \<open>internal/client\<close>.

  \<^bold>\<open>Conventions.\<close> Go maps are association lists with distinct keys (\<open>gomap\<close>); where a property depends on
  the order Go may visit them in, it says so. Strings are lists of bytes. \<open>int64\<close> arithmetic is
  reduced by \<open>i64\<close>, \<open>float64\<close> rounded by \<open>f64\<close>. Errors are the left summand of a sum. Code outside the
  repository is an argument: Postgres's address parsing, hashes, age, the JSON and YAML coders,
  compose-go's loader, Docker's answers, the mailer, clocks and random identifiers. An outside party that
  is called repeatedly (the Docker SDK, the driver, the control plane seen from an agent) answers by an
  arbitrary function of all calls made so far.

  \<^bold>\<open>Theories.\<close>
  \<^item> \<open>Prelude\<close>: machine integers, Go strings and maps, tables of rows; \<open>Go_Regexp\<close>: the regular expressions
    used for validation, decided by derivatives; \<open>Go_Float\<close>: double precision as rationals; \<open>Go_Strconv\<close>:
    decimal integers; \<open>Go_Url\<close>: escaping of paths and queries. Rendering and escaping are shown to be read
    back.
  \<^item> \<open>Secret_Template\<close>: \<open>${secret:KEY}\<close> references and their expansion; \<open>Deployment_Spec\<close>: the specification
    with its queries, the overlay \<open>applyEnvConfig\<close>, JSON storage and \<open>reflect.DeepEqual\<close>.
  \<^item> \<open>Depends_Graph\<close>, \<open>Compose_Types\<close>, \<open>Compose_Parser\<close>, \<open>Compose_Valid\<close>: the parser. \<open>findCycle\<close> is shown to return
    and to decide acyclicity, \<open>Parse\<close> to accept exactly the admissible files, and what it returns to
    satisfy the constraints the rest of the platform relies on.
  \<^item> \<open>Store_Schema\<close>, \<open>Store_Nodes\<close>, \<open>Store_Secrets\<close>, \<open>Store_Deployments\<close>, \<open>Store_Instances\<close>, \<open>Store_Catalog\<close>: the tables as
    a record \<open>db\<close> and one function per store method, each transaction all or nothing, with the unique
    indexes, foreign keys and check constraints of the migrations. \<open>Store_Invariant\<close> collects the methods
    in the step relation \<open>store_step\<close> and proves the invariant of the reachable databases.
    \<open>Store_Properties\<close>, \<open>Store_Placement\<close>, \<open>Store_Security\<close>, \<open>Store_Previews\<close>: the live pointer, append-only
    history, promotion, allocation of revisions, capacity accounting, home binding, node identity,
    secrets, previews. \<open>Store_Gaps\<close>: where the code does less than it says. \<open>Store_Progress\<close>: which calls
    cannot fail. \<open>Store_Example\<close>: a run whose states are the concrete inputs of the examples.
  \<^item> \<open>Store_Identity\<close>, \<open>Store_Enrolment\<close>, \<open>Store_Logs\<close>, \<open>Store_Reads\<close>: operators, memberships and tokens; join tokens,
    invitations and access requests; log requests; the listings and mail targets. Their tables extend
    \<open>db\<close> to the record \<open>control\<close>; \<open>Control_Steps\<close> is its step relation. \<open>Store_Accounts\<close> proves the invariant
    of the accounts, \<open>Account_Properties\<close> what invitations, join tokens and disabling promise.
  \<^item> \<open>Scheduler\<close>, \<open>Rollout_Controller\<close>, \<open>Rollout_Reaper\<close>, \<open>Router_Config\<close>, \<open>Rollout_Routing\<close>: a tick of each loop and the
    generated router file. Ticks are shown to be sequences of store calls, so the store's invariants
    survive them; the choice of a node to be optimal; a placement to be decided; a running rollout to go
    live; a teardown to wait for the router; a tick of the reaper to leave nothing overdue.
  \<^item> \<open>Api_Server\<close>: requests, responses, authentication and authorization; \<open>Api_Handlers\<close>, \<open>Api_Accounts\<close>: every
    handler; \<open>Api_Routes\<close>: the route table and \<open>ServeHTTP\<close>. \<open>Api_Steps\<close>: a request is a sequence of store calls.
    \<open>Api_Access\<close>: what a request without a credential, or with a node's, can reach. \<open>Tenancy\<close>, \<open>Api_Tenancy\<close>:
    what a request of an operator leaves alone. \<open>Api_Example\<close>: concrete requests.
  \<^item> \<open>Control_Plane\<close>: the failure mail, the bootstrap, and the process as an interleaving of requests and
    ticks over one database and one log buffer, with its invariant.
  \<^item> \<open>Agent_Order\<close>, \<open>Agent_Reconcile\<close>: the agent's reconciler over a driver: start order, authority over the
    node, teardown, debounce. \<open>Docker_Driver\<close>: the driver over the SDK: confinement of what it creates,
    cleanup, teardown, log frames. \<open>Agent_Process\<close>: where credentials may be sent, configuration,
    registration, one pass of the agent's loop.
  \<^item> \<open>Api_Wire\<close>, \<open>Api_Client\<close>, \<open>Agent_Wire\<close>: messages and their decoding, the client's operations and the agent's
    bodies; that they arrive at the handlers meant for them.
  \<^item> \<open>Log_Buffer\<close>: the buffer as a bounded window on the log of a request.

  \<^bold>\<open>Interfaces.\<close> Four locales: \<open>keyed_update\<close> (updates that keep a table's keys), \<open>invariant_system\<close> (invariants
  of a step relation), \<open>selection\<close> (a best element picked by a loop) and \<open>reply_relation\<close> (what relates the
  worlds before and after a request). They are interpreted on the model's own tables; on \<open>store_step\<close>,
  on the steps of \<open>control\<close> and of the process; on \<open>bestNode\<close>; and on runs of store calls and on the kept
  part of a foreign organization.

  \<^bold>\<open>Bounds.\<close> Two recursions carry fuel: \<open>visit\<close> of \<open>findCycle\<close> and \<open>topo_visit\<close> of \<open>topoGroup\<close>. Their fuel is the
  number of services and of instances; each call turns a white node grey, and both are shown to return.
  All other recursions are structural or have a measure.

  \<^bold>\<open>Not modelled.\<close> The command line, the terminal and web interfaces, and the control plane's configuration
  add argument parsing, browser sessions and rendering to the client modelled here. The internals of age, SMTP and
  Prometheus, the gauges, the schema version, the health probe, signals and timeouts belong to libraries
  or to the process. The digest of a specification and the text of JSON and YAML are arguments.
  Concurrency within the control plane appears as the interleaving of whole requests and ticks, and of
  whole transactions in \<open>store_step\<close>; a request reads the clock once.
\<close>

section \<open>From a compose file to started containers\<close>

lemma stored_depends:
  "map_of (services (json_spec (applyEnvConfig s config))) n = Some svc' \<Longrightarrow>
   \<exists>svc. map_of (services s) n = Some svc \<and> svc_depends svc' = svc_depends svc"
proof -
  have "map_of (services (json_spec t)) n = map_option json_service (map_of (services t) n)" for t
    by (simp add: json_spec_def map_of_map_key [of "\<lambda>_. json_service"])
  moreover assume "map_of (services (json_spec (applyEnvConfig s config))) n = Some svc'"
  ultimately show ?thesis by (auto simp: map_of_applyEnvConfig json_service_def)
qed

text \<open>
  C7: a stack the parser accepted is started in dependency order. Take the specification \<open>Parse\<close> returned,
  with the environment's configuration laid over it and after its trip through the database as JSON,
  and any instances of its services a node is asked to run, one per revision and service. Whatever
  Docker answers, a tick of the reconciler consists of one turn for each of them and of calls that ask
  for no container. A turn asks for the instance's image and then exactly once for its own container
  with its own secrets, unless Docker refused the image, the network or a volume, which is then what
  the instance's report says; and the turn of an instance comes after the turns of all desired
  instances of the same environment and revision it depends on. (A turn that failed does not hold up
  the later ones.)
\<close>

theorem accepted_stacks_start_in_order:
  assumes "Parse yaml load raw name = Inr s" "load raw name True = Inr p" "project_wf p"
    and "\<And>di. di \<in> set desired \<Longrightarrow>
      map_of (services (json_spec (applyEnvConfig s config))) (di_name di) = Some (di_service di)"
    and "distinct (map (\<lambda>di. ((di_env8 di, di_project di), di_name di)) desired)"
    and "Reconcile drv desired src td r h = (reps, errs, r', h')"
  shows "\<exists>ts cs. mset (map fst ts) = mset desired \<and> map (\<lambda>t. fst (snd t)) ts = reps \<and> turns drv src h ts \<and>
    h' = h @ concat (map (\<lambda>t. snd (snd t)) ts) @ cs \<and> container_calls cs = [] \<and>
    (\<forall>before di later dep. map fst ts = before @ di # later \<longrightarrow> dep \<in> set desired \<longrightarrow> di_env8 dep = di_env8 di \<longrightarrow>
       di_project dep = di_project di \<longrightarrow> di_name dep \<in> set (svc_depends (di_service di)) \<longrightarrow> dep \<in> set before)"
proof -
  have dist: "distinct (map (\<lambda>di. (group_key di, di_name di)) desired)" using assms(5) by (simp add: group_key_def)
  from assms(1,2) have "violations p = []" "s = spec_of p"
    by (auto simp: Parse_def Let_def split: if_splits sum.splits)
  then have "acyclic (edges s)" using violations_Nil [OF assms(3)] by (simp add: admissible_def graph_ok_def)
  then have acyc: "acyclic (group_edges (byName (group desired k)))" for k
    using assms(4) by (intro group_edges_spec [of _ s]) (auto dest!: assms(4) stored_depends)
  have order: "mset (orderDesired desired) = mset desired" "starts_before (orderDesired desired)"
    using order_perm [OF dist] order_starts_before [OF dist acyc] by simp_all
  then have same: "set (orderDesired desired) = set desired" by (metis mset_eq_setD)
  from reconcile_turns [OF assms(6)] obtain ts cs where ts: "map fst ts = orderDesired desired"
    and run: "map (\<lambda>t. fst (snd t)) ts = reps" "turns drv src h ts"
      "h' = h @ concat (map (\<lambda>t. snd (snd t)) ts) @ cs" "container_calls cs = []" by blast
  have "dep \<in> set before" if "map fst ts = before @ di # later" "dep \<in> set desired" "di_env8 dep = di_env8 di"
    "di_project dep = di_project di" "di_name dep \<in> set (svc_depends (di_service di))" for before di later dep
  proof -
    have cut: "orderDesired desired = before @ di # later" and mem: "dep \<in> set (orderDesired desired)"
      using that(1,2) ts same by simp_all
    from order(2) [unfolded starts_before_def, rule_format, OF cut mem] that(3-5) show ?thesis by (simp add: group_key_def)
  qed
  then have after: "\<forall>before di later dep. map fst ts = before @ di # later \<longrightarrow> dep \<in> set desired \<longrightarrow> di_env8 dep = di_env8 di \<longrightarrow>
       di_project dep = di_project di \<longrightarrow> di_name dep \<in> set (svc_depends (di_service di)) \<longrightarrow> dep \<in> set before"
    by (intro allI impI)
  have "mset (map fst ts) = mset desired" using order(1) by (simp only: ts)
  with run after show ?thesis by (intro exI [of _ ts] exI [of _ cs] conjI)
qed

definition ex_instance :: "string \<Rightarrow> desired_instance" where
  "ex_instance n = zero_desired\<lparr>di_instance := n, di_env8 := ''env00001'', di_project := ''cc-env00001-r1-blue'', di_name := n,
     di_service := service_at (json_spec (applyEnvConfig (spec_of ex_project) [(''TZ'', ''UTC'')])) n\<rparr>"

theorem accepted_stacks_start_in_order_witness:
  "\<exists>ts. mset (map fst ts) = mset [ex_instance ''web'', ex_instance ''db''] \<and> turns ex_driver (\<lambda>_. None) [] ts \<and>
     map (\<lambda>t. rep_instance (fst (snd t))) ts = [''db'', ''web'']"
proof -
  let ?ds = "[ex_instance ''web'', ex_instance ''db'']"
  have load: "ex_load [] [] True = Inr ex_project" by (simp add: ex_load_def)
  have "list_all (\<lambda>n. map_of (services (json_spec (applyEnvConfig (spec_of ex_project) [(''TZ'', ''UTC'')]))) n \<noteq> None) [''web'', ''db'']"
    by code_simp
  then have mem: "map_of (services (json_spec (applyEnvConfig (spec_of ex_project) [(''TZ'', ''UTC'')]))) (di_name di) = Some (di_service di)"
    if "di \<in> set ?ds" for di
    using that by (auto simp: ex_instance_def service_at_def)
  have dist: "distinct (map (\<lambda>di. ((di_env8 di, di_project di), di_name di)) ?ds)" by (simp add: ex_instance_def)
  obtain reps errs r' h' where run: "Reconcile ex_driver ?ds (\<lambda>_. None) [] NewReconciler [] = (reps, errs, r', h')"
    by (metis prod_cases4)
  have "map rep_instance (fst (Reconcile ex_driver ?ds (\<lambda>_. None) [] NewReconciler [])) = [''db'', ''web'']" by code_simp
  then have reps: "map rep_instance reps = [''db'', ''web'']" by (simp only: run fst_conv)
  from accepted_stacks_start_in_order [OF ex_parse load ex_project_wf mem dist run] obtain ts where
    "mset (map fst ts) = mset ?ds" "map (\<lambda>t. fst (snd t)) ts = reps" "turns ex_driver (\<lambda>_. None) [] ts" by blast
  with reps show ?thesis by (intro exI [of _ ts]) auto
qed

end
